(* ===== verification/Prelude.thy ===== *)
theory Prelude
  imports Main "HOL-Library.Sublist" "HOL-Library.Word"
begin

text \<open>
  The shared prelude of the development: the string functions of the JavaScript standard
  library that the sources use (on strings of 8-bit code units, modelled as Isabelle
  \<open>string\<close>s), decimal and hexadecimal numerals, lists without repetitions of a key, and
  runs of a step function with the contract that an invariant kept by every step is kept by
  every run. The named collections gather the facts that component proofs hand to the
  simplifier.
\<close>

named_theorems js_simps \<open>evaluation of the JavaScript string functions\<close>
named_theorems component_defs \<open>definitions that component proofs unfold together\<close>

unbundle bit_operations_syntax

section \<open>Characters\<close>

abbreviation code_of :: "char \<Rightarrow> nat" where
  "code_of c \<equiv> of_char c"

definition is_digit :: "char \<Rightarrow> bool" where
  "is_digit c \<longleftrightarrow> 48 \<le> code_of c \<and> code_of c \<le> 57"

definition is_upper :: "char \<Rightarrow> bool" where
  "is_upper c \<longleftrightarrow> 65 \<le> code_of c \<and> code_of c \<le> 90"

definition is_lower :: "char \<Rightarrow> bool" where
  "is_lower c \<longleftrightarrow> 97 \<le> code_of c \<and> code_of c \<le> 122"

definition is_alnum :: "char \<Rightarrow> bool" where
  "is_alnum c \<longleftrightarrow> is_digit c \<or> is_upper c \<or> is_lower c"

text \<open>The hexadecimal digits of either case, as \<open>[0-9a-f]\<close> with the \<open>i\<close> flag.\<close>

definition is_hex :: "char \<Rightarrow> bool" where
  "is_hex c \<longleftrightarrow> is_digit c \<or> (65 \<le> code_of c \<and> code_of c \<le> 70)
     \<or> (97 \<le> code_of c \<and> code_of c \<le> 102)"

text \<open>The white space of \<open>String.prototype.trim\<close> and of \<open>\s\<close>, among 8-bit code units.\<close>

definition is_space :: "char \<Rightarrow> bool" where
  "is_space c \<longleftrightarrow> (9 \<le> code_of c \<and> code_of c \<le> 13) \<or> code_of c = 32 \<or> code_of c = 160"

text \<open>\<open>toLowerCase\<close> on one 8-bit code unit: the ASCII capitals, and the Latin-1 capitals
  (0xC0 to 0xDE without the multiplication sign 0xD7).\<close>

definition lower_char :: "char \<Rightarrow> char" where
  "lower_char c =
     (if is_upper c \<or> (192 \<le> code_of c \<and> code_of c \<le> 222 \<and> code_of c \<noteq> 215)
      then char_of (code_of c + 32) else c)"

definition js_lower :: "string \<Rightarrow> string" where
  "js_lower = map lower_char"

definition js_trim :: "string \<Rightarrow> string" where
  "js_trim s = rev (dropWhile is_space (rev (dropWhile is_space s)))"

lemma length_js_lower [simp]: "length (js_lower s) = length s"
  by (simp add: js_lower_def)

lemma lower_char_not_upper: "\<not> is_upper (lower_char c)"
proof (cases "is_upper c \<or> (192 \<le> code_of c \<and> code_of c \<le> 222 \<and> code_of c \<noteq> 215)")
  case True
  then have "code_of c + 32 < 256" "91 \<le> code_of c + 32"
    by (auto simp: is_upper_def)
  then have "of_char (char_of (code_of c + 32) :: char) = code_of c + 32"
    by simp
  with True \<open>91 \<le> code_of c + 32\<close> show ?thesis
    by (simp add: lower_char_def is_upper_def)
next
  case False
  then show ?thesis by (auto simp: lower_char_def)
qed

lemma lower_char_idem [simp]: "lower_char (lower_char c) = lower_char c"
proof (cases "is_upper c \<or> (192 \<le> code_of c \<and> code_of c \<le> 222 \<and> code_of c \<noteq> 215)")
  case True
  then have lt: "code_of c + 32 < 256"
    and hi: "code_of c + 32 \<le> 122 \<or> 224 \<le> code_of c + 32" and lo: "97 \<le> code_of c + 32"
    by (auto simp: is_upper_def)
  then have "of_char (char_of (code_of c + 32) :: char) = code_of c + 32"
    by simp
  with True hi lo show ?thesis
    by (auto simp: lower_char_def is_upper_def)
qed (auto simp: lower_char_def)

lemma js_lower_idem [simp]: "js_lower (js_lower s) = js_lower s"
  by (simp add: js_lower_def)

section \<open>Splitting, joining, prefixes\<close>

text \<open>\<open>s.split(c)\<close> for a one-character separator: always at least one piece.\<close>

fun split_on :: "char \<Rightarrow> string \<Rightarrow> string list" where
  "split_on c [] = [[]]"
| "split_on c (x # xs) =
     (if x = c then [] # split_on c xs
      else (case split_on c xs of [] \<Rightarrow> [[x]] | p # ps \<Rightarrow> (x # p) # ps))"

fun join_with :: "char \<Rightarrow> string list \<Rightarrow> string" where
  "join_with c [] = []"
| "join_with c [p] = p"
| "join_with c (p # q # ps) = p @ c # join_with c (q # ps)"

lemma split_on_nonempty [simp]: "split_on c s \<noteq> []"
  by (induction s) (auto split: list.splits)

lemma join_split [simp]: "join_with c (split_on c s) = s"
proof (induction s)
  case (Cons x xs)
  obtain p ps where sp: "split_on c xs = p # ps"
    by (cases "split_on c xs") auto
  with Cons show ?case by (cases ps) auto
qed simp

lemma split_on_pieces: "p \<in> set (split_on c s) \<Longrightarrow> c \<notin> set p"
proof (induction s arbitrary: p)
  case (Cons x xs)
  then show ?case
    by (cases "split_on c xs") (auto split: if_splits)
qed simp

lemma split_on_no_sep: "c \<notin> set p \<Longrightarrow> split_on c p = [p]"
  by (induction p) auto

lemma split_on_append_sep:
  "c \<notin> set p \<Longrightarrow> split_on c (p @ c # s) = p # split_on c s"
  by (induction p) auto

lemma split_join:
  "ps \<noteq> [] \<Longrightarrow> \<forall>p \<in> set ps. c \<notin> set p \<Longrightarrow> split_on c (join_with c ps) = ps"
  by (induction c ps rule: join_with.induct) (auto simp: split_on_no_sep split_on_append_sep)

lemma set_split_on: "p \<in> set (split_on c s) \<Longrightarrow> set p \<subseteq> set s"
proof (induction s arbitrary: p)
  case (Cons x xs)
  obtain q qs where sp: "split_on c xs = q # qs"
    by (cases "split_on c xs") auto
  with Cons.IH have "set q \<subseteq> set xs" "\<And>r. r \<in> set qs \<Longrightarrow> set r \<subseteq> set xs"
    by auto
  with Cons.prems sp show ?case by (fastforce split: if_splits)
qed simp

abbreviation starts_with :: "string \<Rightarrow> string \<Rightarrow> bool" where
  "starts_with s p \<equiv> prefix p s"

abbreviation ends_with :: "string \<Rightarrow> string \<Rightarrow> bool" where
  "ends_with s p \<equiv> suffix p s"

section \<open>Numerals\<close>

definition digit_val :: "char \<Rightarrow> nat" where
  "digit_val c = code_of c - 48"

text \<open>The value of a string of decimal digits, as \<open>Number\<close> and \<open>parseInt\<close> read it.\<close>

definition dec_val :: "string \<Rightarrow> nat" where
  "dec_val s = foldl (\<lambda>n c. 10 * n + digit_val c) 0 s"

definition hex_digit_val :: "char \<Rightarrow> nat" where
  "hex_digit_val c =
     (if is_digit c then code_of c - 48
      else if 97 \<le> code_of c then code_of c - 87 else code_of c - 55)"

definition hex_val :: "string \<Rightarrow> nat" where
  "hex_val s = foldl (\<lambda>n c. 16 * n + hex_digit_val c) 0 s"

definition digit_char :: "nat \<Rightarrow> char" where
  "digit_char n = char_of (48 + n)"

text \<open>The decimal spelling of a number, as a template literal prints it.\<close>

fun show_nat :: "nat \<Rightarrow> string" where
  "show_nat n = (if n < 10 then [digit_char n] else show_nat (n div 10) @ [digit_char (n mod 10)])"

declare show_nat.simps [simp del]

lemma digit_char_code: "d < 10 \<Longrightarrow> code_of (digit_char d) = 48 + d"
  by (simp add: digit_char_def)

lemma is_digit_digit_char: "d < 10 \<Longrightarrow> is_digit (digit_char d)"
  by (simp add: is_digit_def digit_char_code)

lemma digit_val_digit_char: "d < 10 \<Longrightarrow> digit_val (digit_char d) = d"
  by (simp add: digit_val_def digit_char_code)

lemma dec_val_snoc: "dec_val (s @ [c]) = 10 * dec_val s + digit_val c"
  by (simp add: dec_val_def)

lemma dec_val_show_nat [simp]: "dec_val (show_nat n) = n"
proof (induction n rule: show_nat.induct)
  case (1 n)
  show ?case
  proof (cases "n < 10")
    case True
    then show ?thesis
      by (simp add: show_nat.simps [of n] dec_val_def digit_val_digit_char)
  next
    case False
    with 1 have "dec_val (show_nat (n div 10)) = n div 10" by simp
    with False show ?thesis
      by (simp add: show_nat.simps [of n] dec_val_snoc digit_val_digit_char)
  qed
qed

lemma show_nat_digits: "\<forall>c \<in> set (show_nat n). is_digit c"
proof (induction n rule: show_nat.induct)
  case (1 n)
  then show ?case
    by (subst show_nat.simps) (auto simp: is_digit_digit_char)
qed

lemma show_nat_nonempty [simp]: "show_nat n \<noteq> []"
  by (subst show_nat.simps) simp

lemma show_nat_length_le_3: "n < 1000 \<Longrightarrow> length (show_nat n) \<le> 3"
  by (subst show_nat.simps, subst show_nat.simps, subst show_nat.simps) auto

lemma show_nat_inj: "show_nat m = show_nat n \<longleftrightarrow> m = n"
  by (metis dec_val_show_nat)

section \<open>Optional strings\<close>

text \<open>JavaScript's truth of an optional string: present and not empty.\<close>

fun truthy :: "string option \<Rightarrow> bool" where
  "truthy None = False"
| "truthy (Some s) = (s \<noteq> [])"

lemma truthy_iff: "truthy x \<longleftrightarrow> (\<exists>s. x = Some s \<and> s \<noteq> [])"
  by (cases x) auto

text \<open>The ids that are present and not empty, in order.\<close>

fun present_ids :: "string option list \<Rightarrow> string list" where
  "present_ids [] = []"
| "present_ids (x # xs) =
     (case x of Some s \<Rightarrow> if s \<noteq> [] then s # present_ids xs else present_ids xs
              | None \<Rightarrow> present_ids xs)"

lemma set_present_ids: "set (present_ids xs) = {s. Some s \<in> set xs \<and> s \<noteq> []}"
  by (induction xs) (auto split: option.splits)

section \<open>Lists without repetitions of a key\<close>

text \<open>Keep each element whose key is not among the keys seen so far: the loop
  \<open>for (const x of xs) { if (seen.has(k(x))) continue; seen.add(k(x)); out.push(x) }\<close>.\<close>

fun fresh_by :: "('a \<Rightarrow> 'k) \<Rightarrow> 'k list \<Rightarrow> 'a list \<Rightarrow> 'a list" where
  "fresh_by key seen [] = []"
| "fresh_by key seen (x # xs) =
     (if key x \<in> set seen then fresh_by key seen xs
      else x # fresh_by key (key x # seen) xs)"

lemma set_fresh_by_subset: "set (fresh_by key seen xs) \<subseteq> set xs"
  by (induction key seen xs rule: fresh_by.induct) auto

lemma fresh_by_not_seen: "x \<in> set (fresh_by key seen xs) \<Longrightarrow> key x \<notin> set seen"
  by (induction key seen xs rule: fresh_by.induct) (auto split: if_splits)

lemma distinct_fresh_by: "distinct (map key (fresh_by key seen xs))"
  by (induction key seen xs rule: fresh_by.induct) (auto dest: fresh_by_not_seen)

lemma keys_fresh_by: "key ` set (fresh_by key seen xs) = key ` set xs - set seen"
  by (induction key seen xs rule: fresh_by.induct) auto

lemma fresh_by_idem:
  "distinct (map key xs) \<Longrightarrow> key ` set xs \<inter> set seen = {} \<Longrightarrow> fresh_by key seen xs = xs"
  by (induction key seen xs rule: fresh_by.induct) auto

lemma fresh_by_all_seen: "key ` set xs \<subseteq> set seen \<Longrightarrow> fresh_by key seen xs = []"
  by (induction key seen xs rule: fresh_by.induct) auto

lemma fresh_by_append:
  "fresh_by key seen (xs @ ys) =
     fresh_by key seen xs @ fresh_by key (rev (map key (fresh_by key seen xs)) @ seen) ys"
  by (induction key seen xs rule: fresh_by.induct) auto

lemma fresh_by_seen_cong:
  "set seen = set seen' \<Longrightarrow> fresh_by key seen xs = fresh_by key seen' xs"
proof (induction key seen xs arbitrary: seen' rule: fresh_by.induct)
  case (2 key seen x xs)
  then have "set (key x # seen) = set (key x # seen')" by simp
  with 2 show ?case by (metis fresh_by.simps(2))
qed simp

lemma subseq_fresh_by: "subseq (fresh_by key seen xs) xs"
  by (induction key seen xs rule: fresh_by.induct) auto

section \<open>JSON\<close>

text \<open>JSON values as \<open>JSON.parse\<close> gives them; numbers are whole, and \<open>JNum None\<close> is
  \<open>Infinity\<close>. Of two fields with one name the last counts.\<close>

datatype json =
    JNull | JBool bool | JNum "int option" | JStr string | JArr "json list"
  | JObj "(string \<times> json) list"

definition jfield :: "string \<Rightarrow> (string \<times> json) list \<Rightarrow> json option" where
  "jfield k ob = map_of (rev ob) k"

section \<open>Runs of a step function\<close>

definition run_steps :: "('s \<Rightarrow> 'e \<Rightarrow> 's) \<Rightarrow> 's \<Rightarrow> 'e list \<Rightarrow> 's" where
  "run_steps step s es = foldl step s es"

lemma run_steps_Nil [simp]: "run_steps step s [] = s"
  by (simp add: run_steps_def)

lemma run_steps_Cons [simp]: "run_steps step s (e # es) = run_steps step (step s e) es"
  by (simp add: run_steps_def)

lemma run_steps_append: "run_steps step s (es @ fs) = run_steps step (run_steps step s es) fs"
  by (simp add: run_steps_def)

text \<open>The contract of a component that is driven by events: an invariant of its states that
  every event keeps. What follows for whole runs is proved once here.\<close>

locale machine =
  fixes step :: "'s \<Rightarrow> 'e \<Rightarrow> 's"
    and inv :: "'s \<Rightarrow> bool"
  assumes step_inv: "inv s \<Longrightarrow> inv (step s e)"
begin

lemma run_inv: "inv s \<Longrightarrow> inv (run_steps step s es)"
  by (induction es arbitrary: s) (auto simp: step_inv)

lemma run_prefix_inv: "inv s \<Longrightarrow> prefix fs es \<Longrightarrow> inv (run_steps step s fs)"
  by (rule run_inv)

end

text \<open>A machine with a measure of progress that no event decreases.\<close>

locale monotone_machine = machine step inv
  for step :: "'s \<Rightarrow> 'e \<Rightarrow> 's" and inv :: "'s \<Rightarrow> bool" +
  fixes level :: "'s \<Rightarrow> nat"
  assumes step_level: "inv s \<Longrightarrow> level s \<le> level (step s e)"
begin

lemma run_level: "inv s \<Longrightarrow> level s \<le> level (run_steps step s es)"
proof (induction es arbitrary: s)
  case (Cons e es)
  have "level s \<le> level (step s e)" by (rule step_level [OF Cons.prems])
  also have "\<dots> \<le> level (run_steps step (step s e) es)"
    by (rule Cons.IH [OF step_inv [OF Cons.prems]])
  finally show ?case by simp
qed simp

end

end
