(* ===== verification/Outbound.thy ===== *)
theory Outbound
  imports Prelude
begin

text \<open>
  The outbound-fetch policy of \<^verbatim>\<open>src/net/outbound-policy.ts\<close>: the parsers of IPv4 and IPv6
  literals, the classification of an address, the check of a URL (\<open>checkOutbound\<close>), the pinned
  origin of \<open>policyFetch\<close> and the response machines of \<open>safeFetch\<close> and
  \<open>safeFetchStreaming\<close>. Bytes are \<open>8 word\<close>s. Parameters: the URL parser, \<open>isIP\<close> and the
  system resolver of the platform, and the process environment.
\<close>

section \<open>Address literals\<close>

type_synonym byte = "8 word"

datatype address_kind =
  Loopback | Private | LinkLocal | Metadata | Unspecified | Reserved | Invalid

definition v4_part :: "string \<Rightarrow> byte option" where
  "v4_part p =
     (if 1 \<le> length p \<and> length p \<le> 3 \<and> (\<forall>c \<in> set p. is_digit c)
      then (if dec_val p > 255 then None else Some (word_of_nat (dec_val p)))
      else None)"

text \<open>A loop that stops at the first element without a result, as the early \<open>return null\<close>.\<close>

fun collect :: "('a \<Rightarrow> 'b option) \<Rightarrow> 'a list \<Rightarrow> 'b list option" where
  "collect f [] = Some []"
| "collect f (x # xs) =
     (case f x of None \<Rightarrow> None
      | Some y \<Rightarrow> (case collect f xs of None \<Rightarrow> None | Some ys \<Rightarrow> Some (y # ys)))"

definition parseV4 :: "string \<Rightarrow> byte list option" where
  "parseV4 s =
     (let parts = split_on (CHR ''.'') s
      in if length parts \<noteq> 4 then None else collect v4_part parts)"

text \<open>\<open>s.split("::")\<close>.\<close>

fun split_dcolon :: "string \<Rightarrow> string list" where
  "split_dcolon [] = [[]]"
| "split_dcolon [x] = [[x]]"
| "split_dcolon (x # y # xs) =
     (if x = CHR '':'' \<and> y = CHR '':'' then [] # split_dcolon xs
      else (case split_dcolon (y # xs) of [] \<Rightarrow> [[x]] | p # ps \<Rightarrow> (x # p) # ps))"

definition v6_groups :: "string \<Rightarrow> string list" where
  "v6_groups h = (if h = [] then [] else split_on (CHR '':'') h)"

definition v6_group :: "string \<Rightarrow> (byte \<times> byte) option" where
  "v6_group g =
     (if 1 \<le> length g \<and> length g \<le> 4 \<and> (\<forall>c \<in> set g. is_hex c)
      then Some (word_of_nat (drop_bit 8 (hex_val g)), word_of_nat (hex_val g AND 0xff))
      else None)"

definition pair_bytes :: "(byte \<times> byte) list \<Rightarrow> byte list" where
  "pair_bytes ps = concat (map (\<lambda>(h, l). [h, l]) ps)"

text \<open>The groups of an address without an embedded IPv4 (\<open>halves\<close> to \<open>all\<close>).\<close>

definition v6_all_groups :: "string \<Rightarrow> string list option" where
  "v6_all_groups s =
     (let halves = split_dcolon s in
      if length halves > 2 then None
      else
        let head = v6_groups (halves ! 0);
            tail = (if length halves = 2 then v6_groups (halves ! 1) else []);
            fill = (8::int) - int (length head) - int (length tail)
        in if (if length halves = 1 then fill \<noteq> 0 else fill < 1) then None
           else Some (head @ replicate (if length halves = 2 then nat fill else 0) ''0'' @ tail))"

definition parseV6 :: "string \<Rightarrow> byte list option" where
  "parseV6 input =
     (let s = hd (split_on (CHR ''%'') input);
          lastpart = last (split_on (CHR '':'') s);
          dotted = CHR ''.'' \<in> set lastpart;
          v4 = (if dotted then parseV4 lastpart else Some [])
      in case v4 of
           None \<Rightarrow> None
         | Some v4Tail \<Rightarrow>
             (let s' = (if dotted then take (length s - length lastpart) s @ ''0:0'' else s)
              in case v6_all_groups s' of
                   None \<Rightarrow> None
                 | Some all \<Rightarrow>
                     (case collect v6_group all of
                        None \<Rightarrow> None
                      | Some gs \<Rightarrow>
                          (let bytes = pair_bytes gs
                           in Some (if v4Tail \<noteq> [] then take 12 bytes @ v4Tail @ drop 16 bytes
                                    else bytes)))))"

section \<open>Classification\<close>

definition classifyV4 :: "byte list \<Rightarrow> address_kind option" where
  "classifyV4 x =
     (case x of [a, b, c, d] \<Rightarrow>
        if a = 0 then Some Unspecified
        else if a = 100 \<and> b = 100 \<and> c = 100 \<and> d = 200 then Some Metadata
        else if a = 127 then Some Loopback
        else if a = 10 \<or> (a = 172 \<and> b \<ge> 16 \<and> b \<le> 31) \<or> (a = 192 \<and> b = 168) then Some Private
        else if a = 100 \<and> b \<ge> 64 \<and> b \<le> 127 then Some Private
        else if a = 169 \<and> b = 254 then Some LinkLocal
        else if a \<ge> 224 then Some Reserved
        else if (a = 192 \<and> b = 0 \<and> (c = 0 \<or> c = 2)) \<or> (a = 198 \<and> b = 51 \<and> c = 100)
          \<or> (a = 203 \<and> b = 0 \<and> c = 113) \<or> (a = 198 \<and> (b = 18 \<or> b = 19)) then Some Reserved
        else None
      | _ \<Rightarrow> None)"

text \<open>\<open>x.slice(i, j)\<close>.\<close>

definition slice :: "nat \<Rightarrow> nat \<Rightarrow> 'a list \<Rightarrow> 'a list" where
  "slice i j x = take (j - i) (drop i x)"

definition zeroUpTo :: "byte list \<Rightarrow> nat \<Rightarrow> bool" where
  "zeroUpTo x n = list_all (\<lambda>v. v = 0) (slice 0 n x)"

definition classifyV6 :: "byte list \<Rightarrow> address_kind option" where
  "classifyV6 x =
     (if zeroUpTo x 16 then Some Unspecified
      else if zeroUpTo x 15 \<and> x ! 15 = 1 then Some Loopback
      else if zeroUpTo x 12 \<or> (zeroUpTo x 10 \<and> x ! 10 = 0xff \<and> x ! 11 = 0xff)
        then classifyV4 (drop 12 x)
      else if zeroUpTo x 8 \<and> x ! 8 = 0xff \<and> x ! 9 = 0xff \<and> x ! 10 = 0 \<and> x ! 11 = 0
        then classifyV4 (drop 12 x)
      else if x ! 0 = 0 \<and> x ! 1 = 0x64 \<and> x ! 2 = 0xff \<and> x ! 3 = 0x9b
          \<and> list_all (\<lambda>v. v = 0) (slice 4 12 x)
        then classifyV4 (drop 12 x)
      else if x ! 0 = 0 \<and> x ! 1 = 0x64 \<and> x ! 2 = 0xff \<and> x ! 3 = 0x9b \<and> x ! 4 = 0 \<and> x ! 5 = 1
        then (case classifyV4 (drop 12 x) of Some k \<Rightarrow> Some k | None \<Rightarrow> Some Private)
      else if x ! 0 = 0x20 \<and> x ! 1 = 0x02 then classifyV4 (slice 2 6 x)
      else if x ! 0 = 0xfd \<and> x ! 1 = 0 \<and> x ! 2 = 0x0e \<and> x ! 3 = 0xc2
          \<and> list_all (\<lambda>v. v = 0) (slice 4 14 x) \<and> x ! 14 = 0x02 \<and> x ! 15 = 0x54
        then Some Metadata
      else if x ! 0 AND 0xfe = 0xfc then Some Private
      else if x ! 0 = 0xfe \<and> x ! 1 AND 0xc0 = 0x80 then Some LinkLocal
      else if x ! 0 = 0xfe \<and> x ! 1 AND 0xc0 = 0xc0 then Some Private
      else if x ! 0 = 0xff then Some Reserved
      else if x ! 0 = 0x20 \<and> x ! 1 = 0x01
          \<and> ((x ! 2 = 0x0d \<and> x ! 3 = 0xb8) \<or> (x ! 2 = 0 \<and> x ! 3 = 0)) then Some Reserved
      else if x ! 0 = 0x01 \<and> x ! 1 = 0 \<and> list_all (\<lambda>v. v = 0) (slice 2 8 x) then Some Reserved
      else None)"

definition classifyAddress :: "string \<Rightarrow> address_kind option" where
  "classifyAddress ip =
     (case parseV4 ip of
        Some v4 \<Rightarrow> classifyV4 v4
      | None \<Rightarrow>
          (if CHR '':'' \<notin> set ip then Some Invalid
           else (case parseV6 ip of Some v6 \<Rightarrow> classifyV6 v6 | None \<Rightarrow> Some Invalid)))"

section \<open>The policy\<close>

definition parseHostList :: "string option \<Rightarrow> string list" where
  "parseHostList raw =
     filter (\<lambda>s. s \<noteq> [])
       (map (\<lambda>s. js_lower (js_trim s))
          (split_on (CHR '','') (case raw of None \<Rightarrow> [] | Some r \<Rightarrow> r)))"

definition hostMatches :: "string \<Rightarrow> string \<Rightarrow> bool" where
  "hostMatches host pattern =
     (if starts_with pattern ''*.'' then ends_with host (drop 1 pattern) else host = pattern)"

record url =
  protocol :: string
  hostname :: string
  origin :: string

record resolved_address =
  address :: string
  family :: nat

record outbound_options =
  opt_resolver :: "(string \<Rightarrow> resolved_address list option) option"
  opt_allowLoopback :: "bool option"
  opt_allowedHosts :: "string list option"
  opt_internalHosts :: "string list option"

datatype outbound_error =
    InvalidURL
  | SchemeNotAllowed string
  | OnlyHttps string
  | NotInAllowedHosts string
  | Unresolved string
  | ResolvesTo string address_kind
  | OnlyHttpsLoopback string
  | NotPinnedOrigin string

text \<open>The platform the module runs on: the WHATWG URL parser, \<open>isIP\<close> (0, 4 or 6), the system
  resolver (\<open>None\<close> when it throws) and \<open>process.env\<close>.\<close>

record platform =
  new_URL :: "string \<Rightarrow> url option"
  isIP :: "string \<Rightarrow> nat"
  systemResolver :: "string \<Rightarrow> resolved_address list option"
  process_env :: "string \<Rightarrow> string option"

definition csvEnv :: "platform \<Rightarrow> string \<Rightarrow> string list" where
  "csvEnv P name = parseHostList (process_env P name)"

text \<open>\<open>.replace(/^\[(.*)\]$/, "$1")\<close>: one pair of brackets around the whole host.\<close>

definition strip_brackets :: "string \<Rightarrow> string" where
  "strip_brackets h =
     (if length h \<ge> 2 \<and> hd h = CHR ''['' \<and> last h = CHR '']''
         \<and> (\<forall>c \<in> set (butlast (tl h)). code_of c \<noteq> 10 \<and> code_of c \<noteq> 13)
      then butlast (tl h) else h)"

definition policy_loopback :: "platform \<Rightarrow> outbound_options \<Rightarrow> bool" where
  "policy_loopback P opts =
     (case opt_allowLoopback opts of
        Some b \<Rightarrow> b
      | None \<Rightarrow> process_env P ''SLAUDE_OUTBOUND_DEV_LOOPBACK'' = Some ''1'')"

definition policy_allowed :: "platform \<Rightarrow> outbound_options \<Rightarrow> string list" where
  "policy_allowed P opts =
     map js_lower (case opt_allowedHosts opts of
        Some hs \<Rightarrow> hs | None \<Rightarrow> csvEnv P ''SLAUDE_OUTBOUND_ALLOWED_HOSTS'')"

definition policy_internal :: "platform \<Rightarrow> outbound_options \<Rightarrow> string list" where
  "policy_internal P opts =
     map js_lower (case opt_internalHosts opts of
        Some hs \<Rightarrow> hs | None \<Rightarrow> csvEnv P ''SLAUDE_OUTBOUND_INTERNAL_HOSTS'')"

definition url_host :: "url \<Rightarrow> string" where
  "url_host u = strip_brackets (js_lower (hostname u))"

text \<open>The loop over the resolved addresses: the first refused one is the error.\<close>

fun check_addresses ::
  "(string \<Rightarrow> address_kind option) \<Rightarrow> string \<Rightarrow> bool \<Rightarrow> bool \<Rightarrow> resolved_address list
   \<Rightarrow> outbound_error option" where
  "check_addresses classify host allowLoopback internal [] = None"
| "check_addresses classify host allowLoopback internal (a # as) =
     (case classify (address a) of
        None \<Rightarrow> check_addresses classify host allowLoopback internal as
      | Some kind \<Rightarrow>
          (if kind = Loopback \<and> allowLoopback
            then check_addresses classify host allowLoopback internal as
           else if kind = Private \<and> internal
            then check_addresses classify host allowLoopback internal as
           else Some (ResolvesTo host kind)))"

definition resolve_host ::
  "platform \<Rightarrow> outbound_options \<Rightarrow> string \<Rightarrow> resolved_address list" where
  "resolve_host P opts host =
     (if isIP P host \<noteq> 0 then [\<lparr>address = host, family = isIP P host\<rparr>]
      else case (case opt_resolver opts of Some r \<Rightarrow> r | None \<Rightarrow> systemResolver P) host of
             Some as \<Rightarrow> as | None \<Rightarrow> [])"

definition checkOutbound ::
  "platform \<Rightarrow> string \<Rightarrow> outbound_options \<Rightarrow> outbound_error + (url \<times> resolved_address list)" where
  "checkOutbound P rawUrl opts =
     (case new_URL P rawUrl of
        None \<Rightarrow> Inl InvalidURL
      | Some url \<Rightarrow>
          let allowLoopback = policy_loopback P opts;
              allowedHosts = policy_allowed P opts;
              host = url_host url;
              internal = (host \<in> set (policy_internal P opts))
          in if protocol url \<noteq> ''https:'' \<and> protocol url \<noteq> ''http:''
               then Inl (SchemeNotAllowed (protocol url))
             else if protocol url = ''http:'' \<and> \<not> internal \<and> \<not> allowLoopback
               then Inl (OnlyHttps host)
             else if allowedHosts \<noteq> [] \<and> \<not> list_ex (hostMatches host) allowedHosts
               then Inl (NotInAllowedHosts host)
             else let addresses = resolve_host P opts host
                  in if addresses = [] then Inl (Unresolved host)
                     else case check_addresses classifyAddress host allowLoopback internal addresses of
                            Some e \<Rightarrow> Inl e
                          | None \<Rightarrow>
                              if protocol url = ''http:'' \<and> \<not> internal
                                 \<and> \<not> list_all (\<lambda>a. classifyAddress (address a) = Some Loopback) addresses
                              then Inl (OnlyHttpsLoopback host)
                              else Inr (url, addresses))"

text \<open>The origin guard of \<open>policyFetch\<close>, before the check of the policy.\<close>

definition policyFetch_check ::
  "platform \<Rightarrow> string option \<Rightarrow> string \<Rightarrow> outbound_options
   \<Rightarrow> outbound_error + (url \<times> resolved_address list)" where
  "policyFetch_check P pinnedOrigin rawUrl opts =
     (case pinnedOrigin of
        None \<Rightarrow> checkOutbound P rawUrl opts
      | Some pin \<Rightarrow>
          (case new_URL P rawUrl of
             None \<Rightarrow> Inl InvalidURL
           | Some u \<Rightarrow>
               if origin u \<noteq> pin then Inl (NotPinnedOrigin (hostname u))
               else checkOutbound P rawUrl opts))"

end
