(* ===== verification/OutboundFacts.thy ===== *)
theory OutboundFacts
  imports Outbound
begin

text \<open>
  Facts about the outbound policy: IPv4 classification agrees with a table of special-purpose
  address blocks, IPv4 carried in IPv6 is judged by its IPv4 part (on bytes and on text), and a
  URL the policy admits connects only to addresses of the kinds its options allow.
\<close>

section \<open>The special-purpose blocks\<close>

text \<open>The reference: an address is a number, a block a base address and a prefix length, and the
  first block that contains the address names its kind.\<close>

definition v4_number :: "nat \<Rightarrow> nat \<Rightarrow> nat \<Rightarrow> nat \<Rightarrow> nat" where
  "v4_number a b c d = ((a * 256 + b) * 256 + c) * 256 + d"

definition in_block :: "nat \<Rightarrow> nat \<times> nat \<Rightarrow> bool" where
  "in_block addr blk = (addr div 2 ^ (32 - snd blk) = fst blk div 2 ^ (32 - snd blk))"

definition special_blocks :: "((nat \<times> nat) \<times> address_kind) list" where
  "special_blocks =
    [((v4_number 0 0 0 0, 8), Unspecified),
     ((v4_number 100 100 100 200, 32), Metadata),
     ((v4_number 127 0 0 0, 8), Loopback),
     ((v4_number 10 0 0 0, 8), Private),
     ((v4_number 172 16 0 0, 12), Private),
     ((v4_number 192 168 0 0, 16), Private),
     ((v4_number 100 64 0 0, 10), Private),
     ((v4_number 169 254 0 0, 16), LinkLocal),
     ((v4_number 224 0 0 0, 3), Reserved),
     ((v4_number 192 0 0 0, 24), Reserved),
     ((v4_number 192 0 2 0, 24), Reserved),
     ((v4_number 198 51 100 0, 24), Reserved),
     ((v4_number 203 0 113 0, 24), Reserved),
     ((v4_number 198 18 0 0, 15), Reserved)]"

fun first_block :: "nat \<Rightarrow> ((nat \<times> nat) \<times> address_kind) list \<Rightarrow> address_kind option" where
  "first_block addr [] = None"
| "first_block addr ((blk, k) # bs) = (if in_block addr blk then Some k else first_block addr bs)"

lemma v4_div24: "b < 256 \<Longrightarrow> c < 256 \<Longrightarrow> d < 256 \<Longrightarrow> v4_number a b c d div 16777216 = a"
  by (simp add: v4_number_def)
lemma v4_div16: "c < 256 \<Longrightarrow> d < 256 \<Longrightarrow> v4_number a b c d div 65536 = a * 256 + b"
  by (simp add: v4_number_def)
lemma v4_div8: "d < 256 \<Longrightarrow> v4_number a b c d div 256 = (a * 256 + b) * 256 + c"
  by (simp add: v4_number_def)
lemma v4_div_more:
  assumes "c < 256" "d < 256"
  shows "v4_number a b c d div (65536 * k) = (a * 256 + b) div k"
  by (simp only: div_mult2_eq v4_div16 [OF assms])
lemma v4_div29: 
  assumes "b < 256" "c < 256" "d < 256"
  shows "v4_number a b c d div 536870912 = a div 32"
  using div_mult2_eq [of "v4_number a b c d" 16777216 32] v4_div24 [OF assms] by simp

lemma byte_eq: "(x :: byte) = y \<longleftrightarrow> unat x = unat y"
  by (simp add: word_unat_eq_iff)

lemma byte_less: "unat (x :: byte) < 256"
proof -
  have "unat x < 2 ^ LENGTH(8)" by (rule unsigned_less)
  then show ?thesis by simp
qed

lemma radix_eq: "(r::nat) < m \<Longrightarrow> s < m \<Longrightarrow> a * m + r = x * m + s \<longleftrightarrow> a = x \<and> r = s"
proof
  assume r: "r < m" and s: "s < m" and e: "a * m + r = x * m + s"
  from e have "(a * m + r) div m = (x * m + s) div m" "(a * m + r) mod m = (x * m + s) mod m"
    by simp_all
  with r s show "a = x \<and> r = s" by simp
qed auto

lemma split_div: "(a * 256 + b) div 16 = a * 16 + b div (16::nat)"
  "(a * 256 + b) div 64 = a * 4 + b div (64::nat)"
  "(a * 256 + b) div 2 = a * 128 + b div (2::nat)"
  by linarith+

lemma block_12: "(b::nat) < 256 \<Longrightarrow> (a * 256 + b) div 16 = 2753 \<longleftrightarrow> a = 172 \<and> 16 \<le> b \<and> b \<le> 31"
  using radix_eq [of "b div 16" 16 1 a 172] by (auto simp: split_div)
lemma block_10: "(b::nat) < 256 \<Longrightarrow> (a * 256 + b) div 64 = 401 \<longleftrightarrow> a = 100 \<and> 64 \<le> b \<and> b \<le> 127"
  using radix_eq [of "b div 64" 4 1 a 100] by (auto simp: split_div)
lemma block_15: "(b::nat) < 256 \<Longrightarrow> (a * 256 + b) div 2 = 25353 \<longleftrightarrow> a = 198 \<and> (b = 18 \<or> b = 19)"
  using radix_eq [of "b div 2" 128 9 a 198] by (auto simp: split_div)
lemma block_3: "(a::nat) < 256 \<Longrightarrow> a div 32 = 7 \<longleftrightarrow> 224 \<le> a"
  by linarith

lemma v4_number_eq:
  assumes "b < 256" "c < 256" "d < 256" "y < 256" "z < 256" "w < 256"
  shows "v4_number a b c d = v4_number x y z w \<longleftrightarrow> a = x \<and> b = y \<and> c = z \<and> d = w"
  using assms unfolding v4_number_def by (simp only: radix_eq conj_assoc)

lemma block_prefixes:
  assumes "b < 256" "c < 256" "d < 256"
  shows "in_block (v4_number a b c d) (v4_number x 0 0 0, 8) \<longleftrightarrow> a = x"
    and "y < 256 \<Longrightarrow> in_block (v4_number a b c d) (v4_number x y 0 0, 16) \<longleftrightarrow> a = x \<and> b = y"
    and "y < 256 \<Longrightarrow> z < 256 \<Longrightarrow>
      in_block (v4_number a b c d) (v4_number x y z 0, 24) \<longleftrightarrow> a = x \<and> b = y \<and> c = z"
    and "y < 256 \<Longrightarrow> z < 256 \<Longrightarrow> w < 256 \<Longrightarrow>
      in_block (v4_number a b c d) (v4_number x y z w, 32) \<longleftrightarrow> a = x \<and> b = y \<and> c = z \<and> d = w"
    and "in_block (v4_number a b c d) (v4_number 172 16 0 0, 12) \<longleftrightarrow> a = 172 \<and> 16 \<le> b \<and> b \<le> 31"
    and "in_block (v4_number a b c d) (v4_number 100 64 0 0, 10) \<longleftrightarrow> a = 100 \<and> 64 \<le> b \<and> b \<le> 127"
    and "in_block (v4_number a b c d) (v4_number 198 18 0 0, 15) \<longleftrightarrow> a = 198 \<and> (b = 18 \<or> b = 19)"
    and "a < 256 \<Longrightarrow> in_block (v4_number a b c d) (v4_number 224 0 0 0, 3) \<longleftrightarrow> 224 \<le> a"
proof -
  show "in_block (v4_number a b c d) (v4_number x 0 0 0, 8) \<longleftrightarrow> a = x"
    using assms by (simp add: in_block_def v4_div24)
  show "in_block (v4_number a b c d) (v4_number x y 0 0, 16) \<longleftrightarrow> a = x \<and> b = y" if "y < 256"
    using assms that by (simp only: in_block_def v4_div16 fst_conv snd_conv) (simp add: v4_div16 radix_eq)
  show "in_block (v4_number a b c d) (v4_number x y z 0, 24) \<longleftrightarrow> a = x \<and> b = y \<and> c = z"
    if "y < 256" "z < 256"
    using assms that by (simp only: in_block_def fst_conv snd_conv)
      (simp add: v4_div8 radix_eq del: distrib_right_numeral)
  show "in_block (v4_number a b c d) (v4_number x y z w, 32) \<longleftrightarrow> a = x \<and> b = y \<and> c = z \<and> d = w"
    if "y < 256" "z < 256" "w < 256"
    using assms that by (simp add: in_block_def v4_number_eq)
  have m: "v4_number a b c d div 1048576 = (a * 256 + b) div 16"
    "v4_number a b c d div 4194304 = (a * 256 + b) div 64"
    "v4_number a b c d div 131072 = (a * 256 + b) div 2"
    using v4_div_more [OF assms(2,3), of a b 16] v4_div_more [OF assms(2,3), of a b 64]
      v4_div_more [OF assms(2,3), of a b 2] by simp_all
  show "in_block (v4_number a b c d) (v4_number 172 16 0 0, 12) \<longleftrightarrow> a = 172 \<and> 16 \<le> b \<and> b \<le> 31"
    using m block_12 [OF assms(1), of a] by (simp add: in_block_def) (simp add: v4_number_def)
  show "in_block (v4_number a b c d) (v4_number 100 64 0 0, 10) \<longleftrightarrow> a = 100 \<and> 64 \<le> b \<and> b \<le> 127"
    using m block_10 [OF assms(1), of a] by (simp add: in_block_def) (simp add: v4_number_def)
  show "in_block (v4_number a b c d) (v4_number 198 18 0 0, 15) \<longleftrightarrow> a = 198 \<and> (b = 18 \<or> b = 19)"
    using m block_15 [OF assms(1), of a] by (simp add: in_block_def) (simp add: v4_number_def)
  show "in_block (v4_number a b c d) (v4_number 224 0 0 0, 3) \<longleftrightarrow> 224 \<le> a" if "a < 256"
    using assms that v4_div29 [of b c d a] v4_div29 [of 0 0 0 224] by (auto simp add: in_block_def)
qed

lemma classify_num:
  assumes "a < 256" "b < 256" "c < 256" "d < 256"
  shows "first_block (v4_number a b c d) special_blocks =
   (if a = 0 then Some Unspecified
        else if a = 100 \<and> b = 100 \<and> c = 100 \<and> d = 200 then Some Metadata
        else if a = 127 then Some Loopback
        else if a = 10 \<or> (a = 172 \<and> b \<ge> 16 \<and> b \<le> 31) \<or> (a = 192 \<and> b = 168) then Some Private
        else if a = 100 \<and> b \<ge> 64 \<and> b \<le> 127 then Some Private
        else if a = 169 \<and> b = 254 then Some LinkLocal
        else if a \<ge> 224 then Some Reserved
        else if (a = 192 \<and> b = 0 \<and> (c = 0 \<or> c = 2)) \<or> (a = 198 \<and> b = 51 \<and> c = 100)
          \<or> (a = 203 \<and> b = 0 \<and> c = 113) \<or> (a = 198 \<and> (b = 18 \<or> b = 19)) then Some Reserved
        else None)"
  using assms by (simp add: special_blocks_def block_prefixes) auto

text \<open>An IPv4 address is classified as the first special-purpose block of the table
  \<open>special_blocks\<close> that contains it (a CIDR prefix comparison of the 32-bit numbers), and is public
  exactly when none does.\<close>

theorem classifyV4_blocks:
  "classifyV4 [a, b, c, d] = first_block (v4_number (unat a) (unat b) (unat c) (unat d)) special_blocks"
  by (simp add: classify_num byte_less classifyV4_def byte_eq word_le_nat_alt) auto

section \<open>Dotted IPv4 text\<close>

definition dotted :: "byte list \<Rightarrow> string" where
  "dotted bs = join_with (CHR ''.'') (map (\<lambda>b. show_nat (unat b)) bs)"

lemma digit_not_char: "is_digit c \<Longrightarrow> c \<noteq> CHR ''.'' \<and> c \<noteq> CHR '':'' \<and> c \<noteq> CHR ''%''"
  by (auto simp: is_digit_def)

lemma dot_notin_show: "CHR ''.'' \<notin> set (show_nat n)" "CHR '':'' \<notin> set (show_nat n)"
  "CHR ''%'' \<notin> set (show_nat n)"
  using show_nat_digits [of n] digit_not_char by blast+

lemma v4_part_show: "v4_part (show_nat (unat b)) = Some b"
proof -
  have "length (show_nat (unat b)) \<le> 3"
    using byte_less [of b] by (intro show_nat_length_le_3) simp
  moreover have "1 \<le> length (show_nat (unat b))"
    by (simp add: Suc_le_eq)
  ultimately show ?thesis
    using show_nat_digits [of "unat b"] byte_less [of b] by (simp add: v4_part_def)
qed

lemma collect_v4_show: "collect v4_part (map (\<lambda>b. show_nat (unat b)) bs) = Some bs"
  by (induction bs) (simp_all add: v4_part_show)

lemma split_dotted:
  "bs \<noteq> [] \<Longrightarrow> split_on (CHR ''.'') (dotted bs) = map (\<lambda>b. show_nat (unat b)) bs"
  by (simp add: dotted_def split_join dot_notin_show)

lemma parseV4_dotted:
  assumes "length bs = 4"
  shows "parseV4 (dotted bs) = Some bs"
proof -
  from assms have "bs \<noteq> []" by auto
  with assms show ?thesis by (simp add: parseV4_def split_dotted collect_v4_show)
qed

lemma set_dotted: "set (dotted bs) \<subseteq> insert (CHR ''.'') {c. is_digit c}"
proof (induction bs)
  case (Cons b bs)
  then show ?case
    using show_nat_digits [of "unat b"] by (cases bs) (auto simp: dotted_def)
qed (simp add: dotted_def)

lemma dotted_chars: "CHR '':'' \<notin> set (dotted bs)" "CHR ''%'' \<notin> set (dotted bs)"
  using set_dotted [of bs] digit_not_char by auto

lemma dotted_has_dot: "length bs = 4 \<Longrightarrow> CHR ''.'' \<in> set (dotted bs)"
  by (cases bs; cases "tl bs") (auto simp: dotted_def)

lemma collect_None: "f x = None \<Longrightarrow> collect f (x # xs) = None"
  by simp

lemma parseV4_colon: "CHR '':'' \<in> set s \<Longrightarrow> parseV4 s = None"
proof -
  assume colon: "CHR '':'' \<in> set s"
  have "CHR '':'' \<in> set (join_with (CHR ''.'') (split_on (CHR ''.'') s))"
    using colon by simp
  moreover have "CHR '':'' \<in> set (join_with c ps) \<Longrightarrow> c \<noteq> CHR '':'' \<Longrightarrow> \<exists>p \<in> set ps. CHR '':'' \<in> set p"
    for c ps by (induction c ps rule: join_with.induct) auto
  ultimately obtain p where p: "p \<in> set (split_on (CHR ''.'') s)" "CHR '':'' \<in> set p"
    by blast
  moreover have "\<not> is_digit (CHR '':'')" by (simp add: is_digit_def)
  ultimately have "v4_part p = None"
    by (auto simp: v4_part_def)
  moreover have "x \<in> set xs \<Longrightarrow> f x = None \<Longrightarrow> collect f xs = None" for f :: "string \<Rightarrow> byte option" and x xs
    by (induction xs) (auto split: option.splits)
  ultimately have "collect v4_part (split_on (CHR ''.'') s) = None"
    using p by blast
  then show ?thesis by (simp add: parseV4_def Let_def)
qed

section \<open>IPv4 carried in IPv6\<close>

lemma length_pair_bytes: "length (pair_bytes ps) = 2 * length ps"
  by (induction ps) (auto simp: pair_bytes_def)

lemma collect_length: "collect f xs = Some ys \<Longrightarrow> length ys = length xs"
  by (induction xs arbitrary: ys) (auto split: option.splits)

lemma split_dcolon_nonempty [simp]: "split_dcolon s \<noteq> []"
  by (induction s rule: split_dcolon.induct) (auto split: list.splits)

lemma v6_all_groups_length:
  assumes "v6_all_groups s = Some gs"
  shows "length gs = 8"
proof -
  have "length (split_dcolon s) \<noteq> 0" by simp
  then have "length (split_dcolon s) = 1 \<or> length (split_dcolon s) = 2 \<or> 2 < length (split_dcolon s)"
    by arith
  with assms show ?thesis
    by (auto simp: v6_all_groups_def Let_def split: if_splits)
qed

lemma parseV4_length: "parseV4 s = Some bs \<Longrightarrow> length bs = 4"
  by (auto simp: parseV4_def Let_def dest: collect_length split: if_splits)

text \<open>Every parsed address has 16 bytes, so the indices of the classification
  are in range.\<close>

lemma parseV6_length: "parseV6 s = Some bs \<Longrightarrow> length bs = 16"
  by (fastforce simp: parseV6_def Let_def length_pair_bytes
      dest: v6_all_groups_length collect_length parseV4_length split: option.splits if_splits)

lemma mapped_text_bytes:
  assumes "length v4 = 4"
  shows "parseV6 (''::ffff:'' @ dotted v4) = Some ([0, 0, 0, 0, 0, 0, 0, 0, 0, 0, 0xff, 0xff] @ v4)"
proof -
  let ?s = "''::ffff:'' @ dotted v4"
  have pct: "split_on (CHR ''%'') ?s = [?s]"
    by (rule split_on_no_sep) (simp add: dotted_chars)
  have colons: "split_on (CHR '':'') (dotted v4) = [dotted v4]"
    by (rule split_on_no_sep) (simp add: dotted_chars)
  then have last: "last (split_on (CHR '':'') ?s) = dotted v4"
    by simp
  have take: "take (length ?s - length (dotted v4)) ?s = ''::ffff:''"
    by simp
  have groups: "v6_all_groups ''::ffff:0:0'' = Some [''0'', ''0'', ''0'', ''0'', ''0'', ''ffff'', ''0'', ''0'']"
    by (simp add: v6_all_groups_def v6_groups_def numeral_eq_Suc)
  have bytes: "collect v6_group [''0'', ''0'', ''0'', ''0'', ''0'', ''ffff'', ''0'', ''0'']
      = Some [(0, 0), (0, 0), (0, 0), (0, 0), (0, 0), (0xff, 0xff), (0, 0), (0, 0)]"
    by (simp add: v6_group_def is_hex_def is_digit_def hex_val_def hex_digit_val_def drop_bit_eq_div)
  from assms have ne: "v4 \<noteq> []" by auto
  have "parseV6 ?s = (case v6_all_groups (''::ffff:'' @ ''0:0'') of None \<Rightarrow> None
      | Some all \<Rightarrow> (case collect v6_group all of None \<Rightarrow> None
          | Some gs \<Rightarrow> Some (take 12 (pair_bytes gs) @ v4 @ drop 16 (pair_bytes gs))))"
    unfolding parseV6_def Let_def pct list.sel last take
    using assms ne by (simp add: dotted_has_dot parseV4_dotted cong: option.case_cong)
  then show ?thesis
    by (simp add: groups bytes pair_bytes_def del: collect.simps)
qed

text \<open>The embeddings of an IPv4 address that the classification unwraps.\<close>

definition v4_mapped :: "byte list \<Rightarrow> byte list" where
  "v4_mapped v4 = [0, 0, 0, 0, 0, 0, 0, 0, 0, 0, 0xff, 0xff] @ v4"

definition v4_translated :: "byte list \<Rightarrow> byte list" where
  "v4_translated v4 = [0, 0, 0, 0, 0, 0, 0, 0, 0xff, 0xff, 0, 0] @ v4"

definition v4_nat64 :: "byte list \<Rightarrow> byte list" where
  "v4_nat64 v4 = [0, 0x64, 0xff, 0x9b, 0, 0, 0, 0, 0, 0, 0, 0] @ v4"

definition v4_6to4 :: "byte list \<Rightarrow> byte list \<Rightarrow> byte list" where
  "v4_6to4 v4 rest = [0x20, 0x02] @ v4 @ rest"

definition v4_nat64_local :: "byte list \<Rightarrow> byte list \<Rightarrow> byte list" where
  "v4_nat64_local mid v4 = [0, 0x64, 0xff, 0x9b, 0, 1] @ mid @ v4"

lemmas embed_defs = v4_mapped_def v4_translated_def v4_nat64_def v4_6to4_def v4_nat64_local_def

lemma four_bytes:
  assumes "length v4 = 4"
  obtains a b c d where "v4 = [a, b, c, d]"
  using assms by (auto simp: length_Suc_conv numeral_eq_Suc)

lemma embedded_v4_classified':
  "classifyV6 (v4_mapped [a, b, c, d]) = classifyV4 [a, b, c, d]"
  by (simp add: classifyV6_def embed_defs zeroUpTo_def slice_def)

text \<open>An IPv4 address carried in an IPv6 one, mapped (\<open>::ffff:0:0/96\<close>), translated, under
  the NAT64 prefix or in 6to4, is classified exactly as the IPv4 address itself, so no spelling
  hides a private or metadata address; under the local-use NAT64 prefix it is never public.\<close>

theorem embedded_v4_classified:
  "classifyV6 (v4_mapped [a, b, c, d]) = classifyV4 [a, b, c, d]
   \<and> classifyV6 (v4_translated [a, b, c, d]) = classifyV4 [a, b, c, d]
   \<and> classifyV6 (v4_nat64 [a, b, c, d]) = classifyV4 [a, b, c, d]
   \<and> classifyV6 (v4_6to4 [a, b, c, d] rest) = classifyV4 [a, b, c, d]
   \<and> classifyV6 (v4_nat64_local mid [a, b, c, d]) \<noteq> None"
  by (intro conjI)
    (simp_all add: classifyV6_def embed_defs zeroUpTo_def slice_def split: option.splits)

lemma v4_mapped_text: "v4_mapped v4 = [0, 0, 0, 0, 0, 0, 0, 0, 0, 0, 0xff, 0xff] @ v4"
  by (simp add: v4_mapped_def)

text \<open>On text: the dotted spelling of four bytes and the IPv4-mapped IPv6 spelling of the
  same bytes are classified alike, as those four bytes.\<close>

theorem classifyAddress_text:
  "classifyAddress (dotted [a, b, c, d]) = classifyV4 [a, b, c, d]
   \<and> classifyAddress (''::ffff:'' @ dotted [a, b, c, d]) = classifyV4 [a, b, c, d]"
proof
  let ?v4 = "[a, b, c, d]"
  show "classifyAddress (dotted ?v4) = classifyV4 ?v4"
    by (simp add: classifyAddress_def parseV4_dotted)
  have "parseV4 (''::ffff:'' @ dotted ?v4) = None"
    by (rule parseV4_colon) simp
  moreover have "parseV6 (''::ffff:'' @ dotted ?v4) = Some (v4_mapped ?v4)"
    unfolding v4_mapped_text by (rule mapped_text_bytes) simp
  ultimately show "classifyAddress (''::ffff:'' @ dotted ?v4) = classifyV4 ?v4"
    using embedded_v4_classified' by (simp add: classifyAddress_def)
qed

section \<open>The policy\<close>

text \<open>The kinds of addresses a policy lets a request reach.\<close>

definition reachable_kind :: "bool \<Rightarrow> bool \<Rightarrow> address_kind option \<Rightarrow> bool" where
  "reachable_kind allowLoopback internal k \<longleftrightarrow>
     k = None \<or> (k = Some Loopback \<and> allowLoopback) \<or> (k = Some Private \<and> internal)"

lemma check_addresses_None:
  "check_addresses f host al itn as = None \<longleftrightarrow> (\<forall>a \<in> set as. reachable_kind al itn (f (address a)))"
  by (induction as) (auto simp: reachable_kind_def split: option.splits)

lemma check_addresses_Some:
  "check_addresses f host al itn as = Some e \<Longrightarrow>
     \<exists>a \<in> set as. \<exists>k. f (address a) = Some k \<and> e = ResolvesTo host k \<and> \<not> reachable_kind al itn (Some k)"
  by (induction as) (auto simp: reachable_kind_def split: option.splits if_splits)

text \<open>The interface between the policy and the requests that rely on it: a check that, when it
  admits a URL, yields the addresses to connect to, all of them of a reachable kind.\<close>

locale egress_check =
  fixes check :: "'r \<Rightarrow> 'e + ('u \<times> resolved_address list)"
    and reach :: "'r \<Rightarrow> resolved_address \<Rightarrow> bool"
  assumes admitted_reach: "check r = Inr (u, as) \<Longrightarrow> a \<in> set as \<Longrightarrow> reach r a"
    and admitted_nonempty: "check r = Inr (u, as) \<Longrightarrow> as \<noteq> []"
begin

text \<open>A request connects to the first admitted address (the pinned \<open>lookup\<close>).\<close>

definition connects_to :: "'r \<Rightarrow> resolved_address option" where
  "connects_to r = (case check r of Inl _ \<Rightarrow> None | Inr (_, as) \<Rightarrow> Some (hd as))"

lemma connects_to_reach:
  assumes "connects_to r = Some a"
  shows "reach r a"
proof -
  from assms obtain u as where c: "check r = Inr (u, as)" and a: "a = hd as"
    by (auto simp: connects_to_def split: sum.splits prod.splits)
  from admitted_nonempty [OF c] a have "a \<in> set as" by simp
  then show ?thesis by (rule admitted_reach [OF c])
qed

lemma connects_iff_admitted: "connects_to r \<noteq> None \<longleftrightarrow> (\<exists>v. check r = Inr v)"
  by (auto simp: connects_to_def split: sum.splits)

end

definition policy_reach :: "platform \<Rightarrow> outbound_options \<Rightarrow> string \<Rightarrow> resolved_address \<Rightarrow> bool" where
  "policy_reach P opts rawUrl a \<longleftrightarrow>
     (\<exists>u. new_URL P rawUrl = Some u
        \<and> reachable_kind (policy_loopback P opts) (url_host u \<in> set (policy_internal P opts))
            (classifyAddress (address a)))"

lemma checkOutbound_Inr:
  "checkOutbound P rawUrl opts = Inr (u, as) \<Longrightarrow>
     new_URL P rawUrl = Some u \<and> as = resolve_host P opts (url_host u) \<and> as \<noteq> []
     \<and> (protocol u = ''https:'' \<or> protocol u = ''http:'')
     \<and> (policy_allowed P opts = [] \<or> list_ex (hostMatches (url_host u)) (policy_allowed P opts))
     \<and> check_addresses classifyAddress (url_host u) (policy_loopback P opts)
         (url_host u \<in> set (policy_internal P opts)) as = None
     \<and> (protocol u = ''http:'' \<longrightarrow> url_host u \<in> set (policy_internal P opts)
          \<or> (policy_loopback P opts
             \<and> list_all (\<lambda>a. classifyAddress (address a) = Some Loopback) as))"
  by (auto simp: checkOutbound_def Let_def split: option.splits if_splits)

interpretation outbound: egress_check
  "\<lambda>(P, opts, rawUrl). checkOutbound P rawUrl opts"
  "\<lambda>(P, opts, rawUrl). policy_reach P opts rawUrl"
proof unfold_locales
  fix r :: "platform \<times> outbound_options \<times> string" and u as a
  obtain P opts rawUrl where r: "r = (P, opts, rawUrl)" by (cases r)
  assume "(case r of (P, opts, rawUrl) \<Rightarrow> checkOutbound P rawUrl opts) = Inr (u, as)"
  then have ok: "checkOutbound P rawUrl opts = Inr (u, as)" by (simp add: r)
  show "as \<noteq> []" using checkOutbound_Inr [OF ok] by blast
  assume "a \<in> set as"
  then show "(case r of (P, opts, rawUrl) \<Rightarrow> policy_reach P opts rawUrl) a"
    using checkOutbound_Inr [OF ok] by (auto simp: r policy_reach_def check_addresses_None)
qed


definition example_platform :: platform where
  "example_platform =
     \<lparr>new_URL = (\<lambda>_. Some \<lparr>protocol = ''https:'', hostname = ''kb.example.com'',
                            origin = ''https://kb.example.com''\<rparr>),
      isIP = (\<lambda>_. 0),
      systemResolver = (\<lambda>_. Some [\<lparr>address = dotted [93, 184, 216, 34], family = 4\<rparr>]),
      process_env = (\<lambda>_. None)\<rparr>"

definition example_options :: outbound_options where
  "example_options = \<lparr>opt_resolver = None, opt_allowLoopback = None,
     opt_allowedHosts = Some [''*.example.com''], opt_internalHosts = None\<rparr>"

lemma example_admitted:
  "checkOutbound example_platform ''https://kb.example.com/mcp'' example_options
     = Inr (\<lparr>protocol = ''https:'', hostname = ''kb.example.com'',
             origin = ''https://kb.example.com''\<rparr>,
            [\<lparr>address = dotted [93, 184, 216, 34], family = 4\<rparr>])"
proof -
  have pub: "classifyAddress (dotted [93, 184, 216, 34]) = None"
    by (simp add: classifyAddress_def parseV4_dotted classifyV4_def)
  show ?thesis
    by (simp add: checkOutbound_def Let_def example_platform_def example_options_def pub policy_loopback_def
        policy_allowed_def policy_internal_def csvEnv_def parseHostList_def js_trim_def url_host_def
        strip_brackets_def resolve_host_def hostMatches_def js_lower_def lower_char_def is_upper_def
        suffix_def)
qed

lemma example_host:
  "url_host \<lparr>protocol = ''https:'', hostname = ''kb.example.com'',
     origin = ''https://kb.example.com''\<rparr> = ''kb.example.com''"
  by (simp add: url_host_def strip_brackets_def js_lower_def lower_char_def is_upper_def)


text \<open>A fetch with a pinned origin never leaves it: whatever URL the client is steered to,
  an admitted request is to a URL whose origin is the pinned one, and it passed the policy.\<close>

theorem policyFetch_pinned:
  "policyFetch_check P (Some pin) rawUrl opts = Inr (u, as)
     \<longleftrightarrow> new_URL P rawUrl = Some u \<and> origin u = pin \<and> checkOutbound P rawUrl opts = Inr (u, as)"
  by (auto simp: policyFetch_check_def dest: checkOutbound_Inr split: option.splits if_splits)

end
