(* ===== verification/OutboundFetch.thy ===== *)
theory OutboundFetch
  imports OutboundFacts
begin

text \<open>
  The two request machines of \<^verbatim>\<open>src/net/outbound-policy.ts\<close>, driven by the events of the
  platform's HTTP client: \<open>safeFetch\<close> settles once with the buffered response,
  \<open>safeFetchStreaming\<close> resolves on the headers and then feeds a bounded body. Node registers
  the response callback once per request, so a second response event changes nothing; the events
  of a response have no listener before it arrived.
\<close>

section \<open>Labels of transport errors\<close>

record transport_error =
  err_code :: "string option"
  err_name :: string

text \<open>\<open>/^[A-Z][A-Z0-9_]{0,63}$/\<close> and \<open>/^[A-Za-z][A-Za-z0-9_]{0,63}$/\<close>.\<close>

definition code_ident :: "string \<Rightarrow> bool" where
  "code_ident s =
     (case s of [] \<Rightarrow> False
      | c # cs \<Rightarrow> is_upper c \<and> length cs \<le> 63
          \<and> list_all (\<lambda>x. is_upper x \<or> is_digit x \<or> x = CHR ''_'') cs)"

definition name_ident :: "string \<Rightarrow> bool" where
  "name_ident s =
     (case s of [] \<Rightarrow> False
      | c # cs \<Rightarrow> (is_upper c \<or> is_lower c) \<and> length cs \<le> 63
          \<and> list_all (\<lambda>x. is_alnum x \<or> x = CHR ''_'') cs)"

definition transportCode :: "transport_error \<Rightarrow> string" where
  "transportCode e =
     (case err_code e of
        Some c \<Rightarrow> if code_ident c then c else if name_ident (err_name e) then err_name e else ''Error''
      | None \<Rightarrow> if name_ident (err_name e) then err_name e else ''Error'')"

datatype fetch_error =
    TooLarge nat
  | TimedOut nat
  | TransportFailed string
  | Aborted

section \<open>safeFetch\<close>

datatype fetch_outcome =
    Resolved nat "byte list"
  | Rejected fetch_error

record fetch_state =
  outcome :: "fetch_outcome option"
  chunks :: "byte list list"
  size_seen :: nat
  destroyed :: bool

datatype fetch_event =
    FData "byte list"
  | FEnd nat
  | FError transport_error
  | FTimeout
  | FAbort

definition fetch_init :: fetch_state where
  "fetch_init = \<lparr>outcome = None, chunks = [], size_seen = 0, destroyed = False\<rparr>"

definition settle :: "fetch_outcome \<Rightarrow> fetch_state \<Rightarrow> fetch_state" where
  "settle r s = (if outcome s = None then s\<lparr>outcome := Some r\<rparr> else s)"

fun fetch_step :: "nat \<Rightarrow> nat \<Rightarrow> fetch_state \<Rightarrow> fetch_event \<Rightarrow> fetch_state" where
  "fetch_step maxBytes timeoutMs s (FData c) =
     (let s1 = s\<lparr>size_seen := size_seen s + length c\<rparr>
      in if size_seen s1 > maxBytes
         then (settle (Rejected (TooLarge maxBytes)) s1)\<lparr>destroyed := True\<rparr>
         else s1\<lparr>chunks := chunks s1 @ [c]\<rparr>)"
| "fetch_step maxBytes timeoutMs s (FEnd status) = settle (Resolved status (concat (chunks s))) s"
| "fetch_step maxBytes timeoutMs s (FError e) = settle (Rejected (TransportFailed (transportCode e))) s"
| "fetch_step maxBytes timeoutMs s FTimeout =
     (if outcome s \<noteq> None then s
      else (settle (Rejected (TimedOut timeoutMs)) s)\<lparr>destroyed := True\<rparr>)"
| "fetch_step maxBytes timeoutMs s FAbort =
     (if outcome s \<noteq> None then s else (settle (Rejected Aborted) s)\<lparr>destroyed := True\<rparr>)"

fun data_of :: "fetch_event list \<Rightarrow> byte list" where
  "data_of [] = []"
| "data_of (FData c # es) = c @ data_of es"
| "data_of (_ # es) = data_of es"

lemma data_of_append: "data_of (es @ fs) = data_of es @ data_of fs"
  by (induction es rule: data_of.induct) auto

definition fetch_inv :: "nat \<Rightarrow> fetch_state \<Rightarrow> bool" where
  "fetch_inv maxBytes s \<longleftrightarrow>
     (size_seen s \<le> maxBytes \<longrightarrow> length (concat (chunks s)) = size_seen s)
     \<and> length (concat (chunks s)) \<le> maxBytes
     \<and> (\<forall>st b. outcome s = Some (Resolved st b) \<longrightarrow> length b \<le> maxBytes)"

lemma fetch_step_inv: "fetch_inv m s \<Longrightarrow> fetch_inv m (fetch_step m t s e)"
  by (cases e) (auto simp: fetch_inv_def settle_def Let_def)

interpretation fetch: machine "fetch_step m t" "fetch_inv m" for m t
  by unfold_locales (rule fetch_step_inv)

lemma fetch_inv_init: "fetch_inv m fetch_init"
  by (simp add: fetch_inv_def fetch_init_def)

lemma fetch_outcome_step: "outcome s = Some r \<Longrightarrow> outcome (fetch_step m t s e) = Some r"
  by (cases e) (auto simp: settle_def Let_def)

lemma fetch_outcome_run: "outcome s = Some r \<Longrightarrow> outcome (run_steps (fetch_step m t) s es) = Some r"
  by (induction es arbitrary: s) (auto simp: fetch_outcome_step)

text \<open>While no response was produced within the cap, the chunks are the data received so far.\<close>

lemma fetch_chunks_run:
  assumes "size_seen s = length (concat (chunks s))" "outcome s = None"
    and "outcome (run_steps (fetch_step m t) s es) = None"
  shows "concat (chunks (run_steps (fetch_step m t) s es)) = concat (chunks s) @ data_of es
       \<and> size_seen (run_steps (fetch_step m t) s es)
           = length (concat (chunks (run_steps (fetch_step m t) s es)))"
  using assms
proof (induction es arbitrary: s)
  case (Cons e es)
  have "outcome (fetch_step m t s e) = None"
    using Cons.prems(3) fetch_outcome_run [of "fetch_step m t s e" _ m t es]
    by (cases "outcome (fetch_step m t s e)") auto
  moreover from this Cons.prems(1,2)
  have "size_seen (fetch_step m t s e) = length (concat (chunks (fetch_step m t s e)))
      \<and> concat (chunks (fetch_step m t s e)) = concat (chunks s) @ data_of [e]"
    by (cases e) (auto simp: settle_def Let_def split: if_splits)
  ultimately have "concat (chunks (run_steps (fetch_step m t) s (e # es)))
      = concat (chunks s) @ data_of [e] @ data_of es"
    and "size_seen (run_steps (fetch_step m t) s (e # es))
      = length (concat (chunks (run_steps (fetch_step m t) s (e # es))))"
    using Cons.IH [of "fetch_step m t s e"] Cons.prems(3) by auto
  then show ?case using data_of_append [of "[e]" es] by simp
qed simp

lemma fetch_first_resolution:
  assumes "outcome s = None" and "outcome (run_steps (fetch_step m t) s es) = Some r"
  obtains pre e post where "es = pre @ e # post"
    and "outcome (run_steps (fetch_step m t) s pre) = None"
    and "outcome (fetch_step m t (run_steps (fetch_step m t) s pre) e) = Some r"
  using assms
proof (induction es arbitrary: s thesis)
  case (Cons e es)
  show ?case
  proof (cases "outcome (fetch_step m t s e)")
    case None
    then obtain pre e' post where "es = pre @ e' # post"
      "outcome (run_steps (fetch_step m t) (fetch_step m t s e) pre) = None"
      "outcome (fetch_step m t (run_steps (fetch_step m t) (fetch_step m t s e) pre) e') = Some r"
      using Cons.IH [of "fetch_step m t s e"] Cons.prems(3) by auto
    then show thesis by (intro Cons.prems(1) [of "e # pre" e' post]) auto
  next
    case (Some r')
    with Cons.prems(3) have "r' = r" using fetch_outcome_run [OF Some, of m t es] by simp
    with Some Cons.prems(2) show thesis by (intro Cons.prems(1) [of "[]" e es]) auto
  qed
qed simp

text \<open>A buffered fetch settles once: when it resolves, an end-of-response event was the one
  that resolved it, the body is exactly the data received up to that event, and the body is
  within the size cap.\<close>

theorem safeFetch_body:
  assumes "outcome (run_steps (fetch_step m t) fetch_init es) = Some (Resolved st body)"
  shows "\<exists>pre post. es = pre @ FEnd st # post \<and> body = data_of pre \<and> length body \<le> m"
proof -
  have "outcome fetch_init = None" by (simp add: fetch_init_def)
  then obtain pre e post where es: "es = pre @ e # post"
    and none: "outcome (run_steps (fetch_step m t) fetch_init pre) = None"
    and some: "outcome (fetch_step m t (run_steps (fetch_step m t) fetch_init pre) e)
      = Some (Resolved st body)"
    using assms by (rule fetch_first_resolution)
  from some none have e: "e = FEnd st"
    and body: "body = concat (chunks (run_steps (fetch_step m t) fetch_init pre))"
    by (cases e; auto simp: settle_def Let_def split: if_splits)+
  have "body = data_of pre"
    using fetch_chunks_run [of fetch_init m t pre] none body by (simp add: fetch_init_def)
  moreover have "length body \<le> m"
    using fetch.run_inv [OF fetch_inv_init, of m t es] assms by (auto simp: fetch_inv_def)
  ultimately show ?thesis using es e by blast
qed

theorem safeFetch_body_witness:
  "\<exists>pre post. [FData [1, 2], FData [3], FEnd 200, FTimeout] = pre @ FEnd 200 # post
     \<and> [1, 2, 3] = data_of pre \<and> length ([1, 2, 3] :: byte list) \<le> 3"
  by (rule safeFetch_body [where t = 100]) (simp add: fetch_init_def settle_def)

section \<open>safeFetchStreaming\<close>

datatype body_status = Open | Closed | Errored fetch_error | Cancelled

datatype promise = Pending | Fulfilled nat | Failed fetch_error

record stream_state =
  headersIn :: bool
  finished :: bool
  received :: nat
  promise :: promise
  body :: "(byte list \<times> body_status) option"
  req_destroyed :: bool

datatype stream_event =
    SResponse nat
  | SData "byte list"
  | SEnd
  | SResError transport_error
  | SReqError transport_error
  | STimeout
  | SAbort
  | SCancel

definition stream_init :: stream_state where
  "stream_init = \<lparr>headersIn = False, finished = False, received = 0, promise = Pending,
     body = None, req_destroyed = False\<rparr>"

definition null_body :: "nat \<Rightarrow> bool" where
  "null_body status \<longleftrightarrow> status = 204 \<or> status = 205 \<or> status = 304"

text \<open>\<open>finish(e?)\<close>: the first call wins; an error rejects before the headers and breaks the
  body after them, before the socket is destroyed.\<close>

definition finish :: "fetch_error option \<Rightarrow> stream_state \<Rightarrow> stream_state" where
  "finish e s =
     (if finished s then s
      else case e of
        None \<Rightarrow> s\<lparr>finished := True\<rparr>
      | Some err \<Rightarrow>
          (let s1 = s\<lparr>finished := True\<rparr>;
               s2 = (if \<not> headersIn s1
                     then s1\<lparr>promise := (if promise s1 = Pending then Failed err else promise s1)\<rparr>
                     else (case body s1 of
                             Some (bs, Open) \<Rightarrow> s1\<lparr>body := Some (bs, Errored err)\<rparr>
                           | _ \<Rightarrow> s1))
           in s2\<lparr>req_destroyed := True\<rparr>))"

fun stream_step :: "nat \<Rightarrow> nat \<Rightarrow> stream_state \<Rightarrow> stream_event \<Rightarrow> stream_state" where
  "stream_step maxBytes timeoutMs s (SResponse status) =
     (if headersIn s then s
      else s\<lparr>headersIn := True,
             body := (if null_body status then None else Some ([], Open)),
             promise := (if promise s = Pending then Fulfilled status else promise s)\<rparr>)"
| "stream_step maxBytes timeoutMs s (SData c) =
     (if \<not> headersIn s \<or> finished s then s
      else let s1 = s\<lparr>received := received s + length c\<rparr>
           in if received s1 > maxBytes then finish (Some (TooLarge maxBytes)) s1
              else (case body s1 of
                      Some (bs, Open) \<Rightarrow> s1\<lparr>body := Some (bs @ c, Open)\<rparr>
                    | _ \<Rightarrow> s1))"
| "stream_step maxBytes timeoutMs s SEnd =
     (if \<not> headersIn s \<or> finished s then s
      else finish None (case body s of
                          Some (bs, Open) \<Rightarrow> s\<lparr>body := Some (bs, Closed)\<rparr>
                        | _ \<Rightarrow> s))"
| "stream_step maxBytes timeoutMs s (SResError e) =
     (if \<not> headersIn s then s else finish (Some (TransportFailed (transportCode e))) s)"
| "stream_step maxBytes timeoutMs s (SReqError e) = finish (Some (TransportFailed (transportCode e))) s"
| "stream_step maxBytes timeoutMs s STimeout = finish (Some (TimedOut timeoutMs)) s"
| "stream_step maxBytes timeoutMs s SAbort = finish (Some Aborted) s"
| "stream_step maxBytes timeoutMs s SCancel =
     (case body s of
        Some (bs, Open) \<Rightarrow> (finish None (s\<lparr>body := Some (bs, Cancelled)\<rparr>))\<lparr>req_destroyed := True\<rparr>
      | _ \<Rightarrow> s)"

fun stream_data :: "stream_event list \<Rightarrow> byte list" where
  "stream_data [] = []"
| "stream_data (SData c # es) = c @ stream_data es"
| "stream_data (_ # es) = stream_data es"

text \<open>What holds between the fields in every state of a request.\<close>

definition stream_inv :: "nat \<Rightarrow> stream_state \<Rightarrow> bool" where
  "stream_inv m s \<longleftrightarrow>
     (\<not> headersIn s \<longrightarrow> body s = None \<and> received s = 0)
     \<and> (\<not> finished s \<longrightarrow> received s \<le> m)
     \<and> (\<not> finished s \<and> headersIn s \<longrightarrow> (\<exists>st. promise s = Fulfilled st))
     \<and> (\<not> finished s \<and> \<not> headersIn s \<longrightarrow> promise s = Pending)
     \<and> (\<forall>bs b. body s = Some (bs, b) \<longrightarrow> length bs \<le> received s \<and> length bs \<le> m
           \<and> (b = Open \<and> \<not> finished s \<longrightarrow> length bs = received s)
           \<and> (b = Closed \<longrightarrow> length bs = received s \<and> finished s
                \<and> (\<exists>st. promise s = Fulfilled st))
           \<and> (b \<noteq> Open \<longrightarrow> finished s))"

lemma stream_finish_inv: "stream_inv m s \<Longrightarrow> stream_inv m (finish (Some e) s)"
  by (auto simp: stream_inv_def finish_def Let_def split: option.splits body_status.splits if_splits)

lemma stream_data_inv: "stream_inv m s \<Longrightarrow> stream_inv m (stream_step m t s (SData c))"
  by (auto simp: stream_inv_def finish_def Let_def split: option.splits body_status.splits)

lemma stream_end_inv: "stream_inv m s \<Longrightarrow> stream_inv m (stream_step m t s SEnd)"
  by (auto simp: stream_inv_def finish_def Let_def split: option.splits body_status.splits)

lemma stream_cancel_inv: "stream_inv m s \<Longrightarrow> stream_inv m (stream_step m t s SCancel)"
  by (auto simp: stream_inv_def finish_def Let_def split: option.splits body_status.splits)

lemma stream_response_inv: "stream_inv m s \<Longrightarrow> stream_inv m (stream_step m t s (SResponse st))"
  by (auto simp: stream_inv_def)

lemma stream_step_inv: "stream_inv m s \<Longrightarrow> stream_inv m (stream_step m t s ev)"
  by (cases ev) (simp_all only: stream_data_inv stream_end_inv stream_cancel_inv stream_response_inv,
      simp_all add: stream_finish_inv)

interpretation stream: machine "stream_step m t" "stream_inv m" for m t
  by unfold_locales (rule stream_step_inv)

lemma stream_inv_init: "stream_inv m stream_init"
  by (simp add: stream_inv_def stream_init_def)

lemma stream_promise_step: "promise s \<noteq> Pending \<Longrightarrow> promise (stream_step m t s e) = promise s"
  by (cases e) (auto simp: finish_def Let_def split: option.splits body_status.splits)

lemma stream_promise_run:
  "promise s \<noteq> Pending \<Longrightarrow> promise (run_steps (stream_step m t) s es) = promise s"
  by (induction es arbitrary: s) (auto simp: stream_promise_step)

text \<open>A streamed response never passes its size cap, its promise settles at most once, and a
  body that ends cleanly was delivered whole: every byte received reached the reader, so a cut
  connection, an oversized answer, a timeout or an abort never reads as a clean end.\<close>

theorem safeFetchStreaming_body:
  assumes "run_steps (stream_step m t) stream_init es = s"
  shows "(\<forall>bs b. body s = Some (bs, b) \<longrightarrow> length bs \<le> m)
    \<and> (\<forall>bs. body s = Some (bs, Closed) \<longrightarrow>
          length bs = received s \<and> (\<exists>st. promise s = Fulfilled st))
    \<and> (promise s \<noteq> Pending \<longrightarrow> promise (run_steps (stream_step m t) s rest) = promise s)"
  using stream.run_inv [OF stream_inv_init, of m t es] assms
  by (auto simp: stream_inv_def stream_promise_run)

theorem safeFetchStreaming_body_witness:
  "body (run_steps (stream_step 3 100) stream_init [SResponse 200, SData [1, 2], SEnd, STimeout])
     = Some ([1, 2], Closed)
   \<and> promise (run_steps (stream_step 3 100) stream_init [SResponse 200, SData [1, 2], SEnd, STimeout])
     = Fulfilled 200
   \<and> length [1, 2 :: byte]
     = received (run_steps (stream_step 3 100) stream_init [SResponse 200, SData [1, 2], SEnd, STimeout])"
  using safeFetchStreaming_body
    [of 3 100 "[SResponse 200, SData [1, 2], SEnd, STimeout]", OF refl, of "[]"]
  by (simp add: stream_init_def finish_def null_body_def)

end
