(* ===== verification/Soul.thy ===== *)
theory Soul
  imports Prelude
begin

text \<open>
  The structured persona (\<^verbatim>\<open>src/soul/data.ts\<close>), a persona's soul with the per-unit fallback to
  the default one (\<^verbatim>\<open>src/soul/per-persona.ts\<close>) and the channel view of it
  (\<^verbatim>\<open>src/soul/extract.ts\<close>). The validated objects are records; the zod schema that validates
  them, and the registry that carries a persona's own soul, are not modelled: the functions take
  the parsed own soul (\<open>None\<close> when the persona has none or it does not parse).
\<close>

section \<open>Data\<close>

record approver_entry =
  ae_userId :: string
  ae_scope :: string
  ae_catchall :: bool

record channel_override =
  co_channel :: string
  co_mandate :: "string option"
  co_approvers :: "approver_entry list"

record person_ref =
  pr_userId :: "string option"
  pr_handle :: "string option"

record soul_identity =
  id_name :: "string option"
  id_role :: "string option"
  id_voice :: "string option"

record soul_data =
  identity :: soul_identity
  manager :: person_ref
  backupManager :: person_ref
  allowedChannels :: "string list"
  trustedChannels :: "string list"
  blockedUsers :: "string list"
  dmAllowedUsers :: "string list"
  approvers :: "approver_entry list"
  redactPatterns :: "string list"
  approvalTimeoutSeconds :: nat
  mandate :: "string option"
  soul_values :: "string list"
  channelOverrides :: "channel_override list"

text \<open>\<open>SoulDataSchema.parse({})\<close>: every default.\<close>

definition EMPTY_soul :: soul_data where
  "EMPTY_soul =
     \<lparr>identity = \<lparr>id_name = None, id_role = None, id_voice = None\<rparr>,
      manager = \<lparr>pr_userId = None, pr_handle = None\<rparr>,
      backupManager = \<lparr>pr_userId = None, pr_handle = None\<rparr>,
      allowedChannels = [], trustedChannels = [], blockedUsers = [], dmAllowedUsers = [],
      approvers = [], redactPatterns = [], approvalTimeoutSeconds = 0, mandate = None,
      soul_values = [], channelOverrides = []\<rparr>"

section \<open>The fallback to the default soul\<close>

definition own_or :: "'a list \<Rightarrow> 'a list \<Rightarrow> 'a list" where
  "own_or mine theirs = (if mine \<noteq> [] then mine else theirs)"

text \<open>\<open>hit.approvers = d.approvers\<close> on the first block of the channel, else a new block.\<close>

fun lay_in :: "channel_override \<Rightarrow> channel_override list \<Rightarrow> channel_override list" where
  "lay_in d [] = [\<lparr>co_channel = co_channel d, co_mandate = None, co_approvers = co_approvers d\<rparr>]"
| "lay_in d (c # cs) =
     (if co_channel c = co_channel d then c\<lparr>co_approvers := co_approvers d\<rparr> # cs
      else c # lay_in d cs)"

definition inheritChannelApprovers ::
  "channel_override list \<Rightarrow> channel_override list \<Rightarrow> channel_override list" where
  "inheritChannelApprovers mine theirs =
     foldl (\<lambda>out d. if co_approvers d = [] then out else lay_in d out) mine theirs"

definition withAclFallback :: "soul_data option \<Rightarrow> soul_data \<Rightarrow> soul_data" where
  "withAclFallback own def =
     (let p = (case own of Some s \<Rightarrow> s | None \<Rightarrow> EMPTY_soul);
          ownsManagers = (truthy (pr_userId (manager p)) \<or> truthy (pr_userId (backupManager p)));
          ownsChannels = (trustedChannels p \<noteq> [] \<or> allowedChannels p \<noteq> []);
          ownsApprovers = (approvers p \<noteq> [] \<or> list_ex (\<lambda>c. co_approvers c \<noteq> []) (channelOverrides p));
          managers = (if ownsManagers then p else def);
          channels = (if ownsChannels then p else def)
      in p\<lparr>manager := manager managers,
           backupManager := backupManager managers,
           trustedChannels := trustedChannels channels,
           allowedChannels := allowedChannels channels,
           dmAllowedUsers := own_or (dmAllowedUsers p) (dmAllowedUsers def),
           blockedUsers := own_or (blockedUsers p) (blockedUsers def),
           approvers := (if ownsApprovers then approvers p else approvers def),
           channelOverrides := (if ownsApprovers then channelOverrides p
             else inheritChannelApprovers (channelOverrides p) (channelOverrides def))\<rparr>)"

definition default_persona :: "string option \<Rightarrow> bool" where
  "default_persona persona \<longleftrightarrow> \<not> truthy persona \<or> persona = Some ''default''"

definition soulDataFor :: "soul_data \<Rightarrow> (string \<Rightarrow> soul_data option) \<Rightarrow> string option \<Rightarrow> soul_data" where
  "soulDataFor def ownSoul persona =
     (if default_persona persona then def else withAclFallback (ownSoul (the persona)) def)"

section \<open>Channel blocks\<close>

definition catchall_entry :: "string \<Rightarrow> approver_entry" where
  "catchall_entry u = \<lparr>ae_userId = u, ae_scope = ''anything'', ae_catchall = True\<rparr>"

definition withManagerApprover :: "approver_entry list \<Rightarrow> soul_data \<Rightarrow> approver_entry list" where
  "withManagerApprover as base =
     foldl (\<lambda>out u. if truthy u \<and> the u \<notin> ae_userId ` set out then out @ [catchall_entry (the u)] else out)
       as [pr_userId (manager base), pr_userId (backupManager base)]"

definition find_block :: "soul_data \<Rightarrow> string \<Rightarrow> channel_override option" where
  "find_block soul channelId = find (\<lambda>c. co_channel c = channelId) (channelOverrides soul)"

definition channelMandate :: "soul_data \<Rightarrow> string \<Rightarrow> string option" where
  "channelMandate soul channelId =
     (case find_block soul channelId of
        None \<Rightarrow> None
      | Some b \<Rightarrow> (case co_mandate b of
            None \<Rightarrow> None
          | Some m \<Rightarrow> if js_trim m = [] then None else Some (js_trim m)))"

text \<open>\<open>effectiveSoulForChannel\<close> over the soul it starts from (the default soul, or
  \<open>soulDataFor persona\<close> in \<open>effectiveSoulForChannelFor\<close>).\<close>

definition effectiveSoulForChannelFor :: "soul_data \<Rightarrow> string option \<Rightarrow> soul_data" where
  "effectiveSoulForChannelFor base channelId =
     (if \<not> truthy channelId then base
      else case find_block base (the channelId) of
        None \<Rightarrow> base
      | Some ov \<Rightarrow>
          base\<lparr>mandate := (case channelMandate base (the channelId) of
                             Some m \<Rightarrow> Some m | None \<Rightarrow> mandate base),
               approvers := (if co_approvers ov \<noteq> [] then withManagerApprover (co_approvers ov) base
                             else approvers base)\<rparr>)"

text \<open>A JavaScript \<open>Map\<close> in insertion order: setting a present key keeps its place.\<close>

fun map_put :: "'k \<Rightarrow> 'v \<Rightarrow> ('k \<times> 'v) list \<Rightarrow> ('k \<times> 'v) list" where
  "map_put k v [] = [(k, v)]"
| "map_put k v ((k', v') # kvs) = (if k' = k then (k, v) # kvs else (k', v') # map_put k v kvs)"

lemma map_of_map_put: "map_of (map_put k v kvs) = (map_of kvs)(k \<mapsto> v)"
  by (induction k v kvs rule: map_put.induct) (auto simp: fun_upd_twist)

definition channelApproversOf :: "soul_data \<Rightarrow> (string \<times> string list) list" where
  "channelApproversOf soul =
     foldl (\<lambda>out c. if co_approvers c = [] then out
                    else map_put (co_channel c) (map ae_userId (withManagerApprover (co_approvers c) soul)) out)
       [] (channelOverrides soul)"

definition redactPatternsFor :: "soul_data \<Rightarrow> (string \<Rightarrow> soul_data option) \<Rightarrow> string option \<Rightarrow> string list" where
  "redactPatternsFor def ownSoul persona =
     (if default_persona persona then fresh_by id [] (redactPatterns def)
      else fresh_by id [] (redactPatterns def @ redactPatterns (soulDataFor def ownSoul persona)))"

definition approvalTimeoutFor :: "soul_data \<Rightarrow> (string \<Rightarrow> soul_data option) \<Rightarrow> string option \<Rightarrow> nat" where
  "approvalTimeoutFor def ownSoul persona =
     (if default_persona persona then approvalTimeoutSeconds def
      else let own = approvalTimeoutSeconds (soulDataFor def ownSoul persona)
           in if own > 0 then own else approvalTimeoutSeconds def)"

section \<open>Facts\<close>

lemma withManagerApprover_users:
  "ae_userId ` set (withManagerApprover as base)
     = ae_userId ` set as
       \<union> {u. u \<noteq> [] \<and> (pr_userId (manager base) = Some u \<or> pr_userId (backupManager base) = Some u)}"
  by (auto simp: withManagerApprover_def catchall_entry_def truthy_iff)

lemma withManagerApprover_prefix: "prefix as (withManagerApprover as base)"
  by (auto simp: withManagerApprover_def)

text \<open>What the default soul contributes to a persona that has none of its own.\<close>

lemma inherit_none: "inheritChannelApprovers [] [] = []"
  by (simp add: inheritChannelApprovers_def)

text \<open>The approvers each channel block gives, by channel: the last block of a channel with
  approvers wins, as successive \<open>Map.set\<close> calls do.\<close>

lemma channelApproversOf_snoc:
  assumes "channelOverrides s = cs @ [c]"
  shows "map_of (channelApproversOf s)
    = (let before = map_of (foldl (\<lambda>out c. if co_approvers c = [] then out
           else map_put (co_channel c) (map ae_userId (withManagerApprover (co_approvers c) s)) out) [] cs)
       in if co_approvers c = [] then before
          else before(co_channel c \<mapsto> map ae_userId (withManagerApprover (co_approvers c) s)))"
  using assms by (simp add: channelApproversOf_def map_of_map_put)

lemma channelApproversOf_foldl:
  "map_of (foldl (\<lambda>out c. if co_approvers c = [] then out
       else map_put (co_channel c) (f c) out) acc cs) ch
   = (case find (\<lambda>c. co_channel c = ch \<and> co_approvers c \<noteq> []) (rev cs) of
        Some c \<Rightarrow> Some (f c) | None \<Rightarrow> map_of acc ch)"
proof (induction cs arbitrary: acc rule: rev_induct)
  case (snoc c cs)
  then show ?case by (auto simp: map_of_map_put)
qed simp

lemma channelApproversOf_lookup:
  "map_of (channelApproversOf s) ch
   = (case find (\<lambda>c. co_channel c = ch \<and> co_approvers c \<noteq> []) (rev (channelOverrides s)) of
        Some c \<Rightarrow> Some (map ae_userId (withManagerApprover (co_approvers c) s)) | None \<Rightarrow> None)"
  by (simp add: channelApproversOf_def channelApproversOf_foldl cong: option.case_cong)

lemma map_put_keys: "fst ` set (map_put k v kvs) = insert k (fst ` set kvs)"
  by (induction k v kvs rule: map_put.induct) auto

lemma distinct_map_put: "distinct (map fst kvs) \<Longrightarrow> distinct (map fst (map_put k v kvs))"
proof (induction k v kvs rule: map_put.induct)
  case (2 k v k' v' kvs)
  then show ?case using map_put_keys [of k v kvs] by auto
qed simp

lemma distinct_put_foldl:
  "distinct (map fst acc) \<Longrightarrow> distinct (map fst (foldl (\<lambda>out c. if co_approvers c = [] then out
     else map_put (co_channel c) (f c) out) acc cs))"
  by (induction cs arbitrary: acc) (auto simp: distinct_map_put)

lemma distinct_channelApproversOf: "distinct (map fst (channelApproversOf s))"
  unfolding channelApproversOf_def by (rule distinct_put_foldl) simp

lemma set_channelApproversOf:
  "(ch, us) \<in> set (channelApproversOf s) \<longleftrightarrow> map_of (channelApproversOf s) ch = Some us"
  by (simp add: distinct_channelApproversOf)

end
