(* ===== verification/Access.thy ===== *)
theory Access
  imports Soul
begin

text \<open>
  Who may use a persona: the effective grants (\<^verbatim>\<open>src/access/grants.ts\<close>), a user's role over
  them (\<^verbatim>\<open>src/access/role.ts\<close>), the admission of a message (\<^verbatim>\<open>src/access/admission.ts\<close>), the
  decision of a permission card (\<^verbatim>\<open>src/access/permission-auth.ts\<close>) and the checks a stored
  grant passes when it is created (\<^verbatim>\<open>src/db/agent-grants.ts\<close>).
\<close>

section \<open>Grants\<close>

datatype subject_kind = SubjUser | SubjChannel | SubjWorkspace
datatype grant_role = Manager | Approver | Member
datatype grant_source = SoulSource | ConsoleSource

record grant =
  subjectKind :: subject_kind
  subjectId :: string
  role :: grant_role
  deny :: bool
  dmOnly :: bool
  source :: grant_source
  channelId :: "string option"
  grant_id :: "string option"
  expiresAt :: "int option"

definition soulGrant :: "subject_kind \<Rightarrow> string \<Rightarrow> grant_role \<Rightarrow> grant" where
  "soulGrant k i r = \<lparr>subjectKind = k, subjectId = i, role = r, deny = False, dmOnly = False,
     source = SoulSource, channelId = None, grant_id = None, expiresAt = None\<rparr>"

definition nonempty_ids :: "string list \<Rightarrow> string list" where
  "nonempty_ids xs = filter (\<lambda>x. x \<noteq> []) xs"

definition deriveSoulGrants :: "soul_data \<Rightarrow> (string \<times> string list) list \<Rightarrow> grant list" where
  "deriveSoulGrants soul channelApprovers =
     map (\<lambda>u. soulGrant SubjUser u Manager)
         (present_ids [pr_userId (manager soul), pr_userId (backupManager soul)])
     @ map (\<lambda>u. soulGrant SubjUser u Approver) (nonempty_ids (map ae_userId (approvers soul)))
     @ concat (map (\<lambda>(ch, users). if ch = [] then []
          else map (\<lambda>u. (soulGrant SubjUser u Approver)\<lparr>channelId := Some ch\<rparr>) (nonempty_ids users))
          channelApprovers)
     @ map (\<lambda>c. soulGrant SubjChannel c Member) (nonempty_ids (trustedChannels soul @ allowedChannels soul))
     @ map (\<lambda>u. (soulGrant SubjUser u Member)\<lparr>dmOnly := True\<rparr>) (nonempty_ids (dmAllowedUsers soul))
     @ map (\<lambda>u. (soulGrant SubjUser u Member)\<lparr>deny := True\<rparr>) (nonempty_ids (blockedUsers soul))"

record grant_row =
  gr_id :: string
  gr_tenantId :: string
  gr_persona :: string
  gr_subjectKind :: subject_kind
  gr_subjectId :: string
  gr_role :: grant_role
  gr_deny :: bool
  gr_dmOnly :: bool
  gr_createdBy :: string
  gr_createdAt :: int
  gr_expiresAt :: "int option"
  gr_note :: "string option"

definition grantFromRow :: "grant_row \<Rightarrow> grant" where
  "grantFromRow r =
     \<lparr>subjectKind = gr_subjectKind r, subjectId = gr_subjectId r, role = gr_role r,
      deny = gr_deny r, dmOnly = gr_dmOnly r, source = ConsoleSource, channelId = None,
      grant_id = Some (gr_id r), expiresAt = gr_expiresAt r\<rparr>"

definition effectiveGrants :: "soul_data \<Rightarrow> grant list \<Rightarrow> grant list" where
  "effectiveGrants soul stored = deriveSoulGrants soul (channelApproversOf soul) @ stored"

section \<open>Roles\<close>

definition grants_of :: "grant list \<Rightarrow> string \<Rightarrow> grant list" where
  "grants_of grants userId = filter (\<lambda>g. subjectKind g = SubjUser \<and> subjectId g = userId) grants"

definition scoped_approvers :: "grant list \<Rightarrow> string option \<Rightarrow> bool" where
  "scoped_approvers grants ch \<longleftrightarrow>
     truthy ch \<and> list_ex (\<lambda>g. source g = SoulSource \<and> role g = Approver \<and> channelId g = ch) grants"

definition roleFromGrants :: "grant list \<Rightarrow> string \<Rightarrow> string option \<Rightarrow> grant_role option" where
  "roleFromGrants grants userId ch =
     (if userId = [] then None
      else
        let mine = grants_of grants userId in
        if list_ex deny mine then None
        else if list_ex (\<lambda>g. role g = Manager) mine then Some Manager
        else
          let scoped = scoped_approvers grants ch;
              approver = list_ex (\<lambda>g. role g = Approver \<and>
                 (source g = ConsoleSource
                  \<or> (if scoped then channelId g = ch else \<not> truthy (channelId g)))) mine
          in if approver then Some Approver
             else if list_ex (\<lambda>g. role g = Member) mine then Some Member
             else
               let viaChannel = truthy ch \<and>
                     list_ex (\<lambda>g. \<not> deny g \<and> subjectKind g = SubjChannel \<and> Some (subjectId g) = ch) grants;
                   viaWorkspace = list_ex (\<lambda>g. \<not> deny g \<and> subjectKind g = SubjWorkspace) grants
               in if viaChannel \<or> viaWorkspace then Some Member else None)"

definition isDenied :: "grant list \<Rightarrow> string \<Rightarrow> bool" where
  "isDenied grants userId = list_ex (\<lambda>g. deny g \<and> subjectKind g = SubjUser \<and> subjectId g = userId) grants"

definition usersWithRole :: "grant list \<Rightarrow> grant_role list \<Rightarrow> string option \<Rightarrow> string list" where
  "usersWithRole grants roles ch =
     filter (\<lambda>u. case roleFromGrants grants u ch of None \<Rightarrow> False | Some r \<Rightarrow> r \<in> set roles)
       (fresh_by id [] (map subjectId (filter (\<lambda>g. subjectKind g = SubjUser \<and> \<not> deny g) grants)))"

text \<open>\<open>loadGrants\<close> is the parameter: the effective grants of a persona by its name.\<close>

definition approversFor :: "(string \<Rightarrow> grant list) \<Rightarrow> string \<Rightarrow> string option \<Rightarrow> string list" where
  "approversFor loadGrants personaName ch =
     (let own = usersWithRole (loadGrants personaName) [Approver, Manager] ch
      in if own \<noteq> [] then own else usersWithRole (loadGrants ''default'') [Manager] None)"

definition persona_key :: "string option \<Rightarrow> string" where
  "persona_key p = (if truthy p then the p else ''default'')"

definition roleOf :: "(string \<Rightarrow> grant list) \<Rightarrow> string option \<Rightarrow> string \<Rightarrow> string option \<Rightarrow> grant_role option" where
  "roleOf loadGrants personaName userId ch = roleFromGrants (loadGrants (persona_key personaName)) userId ch"

section \<open>Admission\<close>

datatype admit_result = Admitted | BlockedUser | NotWhitelisted

definition admit :: "grant list \<Rightarrow> string \<Rightarrow> string \<Rightarrow> bool \<Rightarrow> admit_result" where
  "admit grants userId chan isDM =
     (let mine = grants_of grants userId in
      if list_ex deny mine then BlockedUser
      else
        let live = filter (\<lambda>g. \<not> deny g) mine in
        if list_ex (\<lambda>g. role g = Manager) live then Admitted
        else if isDM then
          (if list_ex (\<lambda>g. role g = Member) live then Admitted else NotWhitelisted)
        else
          let channel = list_ex (\<lambda>g. \<not> deny g \<and> subjectKind g = SubjChannel \<and> subjectId g = chan) grants;
              storedMember = list_ex (\<lambda>g. source g = ConsoleSource \<and> role g = Member \<and> \<not> dmOnly g) live;
              workspace = list_ex (\<lambda>g. \<not> deny g \<and> subjectKind g = SubjWorkspace) grants
          in if channel \<or> storedMember \<or> workspace then Admitted else NotWhitelisted)"

section \<open>Permission cards\<close>

record permission_args =
  clicker :: string
  initiator :: "string option"
  lockOwner :: "string option"
  pa_persona :: "string option"
  pa_channel :: "string option"

definition canDecidePermission :: "(string \<Rightarrow> grant list) \<Rightarrow> permission_args \<Rightarrow> bool" where
  "canDecidePermission loadGrants a =
     (if clicker a = [] then False
      else if truthy (initiator a) \<and> Some (clicker a) = initiator a then True
      else if truthy (lockOwner a) \<and> Some (clicker a) = lockOwner a then True
      else let r = roleOf loadGrants (pa_persona a) (clicker a) (pa_channel a)
           in r = Some Approver \<or> r = Some Manager)"

section \<open>Creating a stored grant\<close>

record create_input =
  ci_tenantId :: "string option"
  ci_persona :: string
  ci_subjectKind :: subject_kind
  ci_subjectId :: string
  ci_role :: grant_role
  ci_deny :: "bool option"
  ci_dmOnly :: "bool option"
  ci_createdBy :: string
  ci_expiresAt :: "int option"
  ci_note :: "string option"

datatype grant_error =
    SubjectIdRequired
  | PersonaRequired
  | OnlyMember subject_kind
  | DenyUsersOnly subject_kind
  | DmOnlyUsersOnly subject_kind
  | ChannelIsDM string
  | BadSubjectId subject_kind string

text \<open>\<open>/^[<heads>][A-Z0-9]+$/\<close>.\<close>

definition slack_id :: "string \<Rightarrow> string \<Rightarrow> bool" where
  "slack_id heads s =
     (case s of [] \<Rightarrow> False
      | c # cs \<Rightarrow> c \<in> set heads \<and> cs \<noteq> [] \<and> list_all (\<lambda>x. is_upper x \<or> is_digit x) cs)"

fun subject_heads :: "subject_kind \<Rightarrow> string" where
  "subject_heads SubjUser = ''UW''"
| "subject_heads SubjChannel = ''CG''"
| "subject_heads SubjWorkspace = ''T''"

definition create_grant :: "create_input \<Rightarrow> string \<Rightarrow> int \<Rightarrow> grant_error + grant_row" where
  "create_grant i uuid now =
     (if ci_subjectId i = [] then Inl SubjectIdRequired
      else if ci_persona i = [] then Inl PersonaRequired
      else if ci_subjectKind i \<noteq> SubjUser \<and> ci_role i \<noteq> Member then Inl (OnlyMember (ci_subjectKind i))
      else if ci_subjectKind i \<noteq> SubjUser \<and> ci_deny i = Some True then Inl (DenyUsersOnly (ci_subjectKind i))
      else if ci_subjectKind i \<noteq> SubjUser \<and> ci_dmOnly i = Some True then Inl (DmOnlyUsersOnly (ci_subjectKind i))
      else if ci_subjectKind i = SubjChannel \<and> slack_id ''D'' (ci_subjectId i)
        then Inl (ChannelIsDM (ci_subjectId i))
      else if \<not> slack_id (subject_heads (ci_subjectKind i)) (ci_subjectId i)
        then Inl (BadSubjectId (ci_subjectKind i) (ci_subjectId i))
      else Inr \<lparr>gr_id = uuid,
                gr_tenantId = (case ci_tenantId i of Some t \<Rightarrow> t | None \<Rightarrow> ''default''),
                gr_persona = ci_persona i, gr_subjectKind = ci_subjectKind i,
                gr_subjectId = ci_subjectId i, gr_role = ci_role i,
                gr_deny = (ci_deny i = Some True), gr_dmOnly = (ci_dmOnly i = Some True),
                gr_createdBy = ci_createdBy i, gr_createdAt = now,
                gr_expiresAt = ci_expiresAt i, gr_note = ci_note i\<rparr>)"

end
