(* ===== verification/AccessFacts.thy ===== *)
theory AccessFacts
  imports Access
begin

text \<open>
  Facts about access: a deny removes every right, stored grants without a deny only widen, with
  soul grants alone admission is the channel rule plus the block list, approvers of a channel
  replace the global ones, and a created row always names a well-formed subject.
\<close>

lemmas access_defs = roleFromGrants_def admit_def Let_def
lemmas list_ex_simps = list_ex_iff filter_append list_ex_append

lemma set_grants_of: "g \<in> set (grants_of gs u) \<longleftrightarrow> g \<in> set gs \<and> subjectKind g = SubjUser \<and> subjectId g = u"
  by (auto simp: grants_of_def)

lemma grants_of_append: "grants_of (gs @ hs) u = grants_of gs u @ grants_of hs u"
  by (simp add: grants_of_def)

lemma isDenied_iff: "isDenied gs u \<longleftrightarrow> list_ex deny (grants_of gs u)"
  by (auto simp: isDenied_def list_ex_iff set_grants_of)

lemma isDenied_append: "isDenied (gs @ hs) u \<longleftrightarrow> isDenied gs u \<or> isDenied hs u"
  by (simp add: isDenied_def)

section \<open>The contract of an access rule\<close>

text \<open>What a caller of the access layer relies on: a denied user has no role and is not admitted,
  whatever the other grants say.\<close>

locale access_rule =
  fixes denied :: "'g \<Rightarrow> 'u \<Rightarrow> bool"
    and user_role :: "'g \<Rightarrow> 'u \<Rightarrow> 'c \<Rightarrow> grant_role option"
    and admitted :: "'g \<Rightarrow> 'u \<Rightarrow> 'd \<Rightarrow> bool"
  assumes denied_no_role: "denied g u \<Longrightarrow> user_role g u c = None"
    and denied_not_admitted: "denied g u \<Longrightarrow> \<not> admitted g u d"
    and manager_admitted: "user_role g u c = Some Manager \<Longrightarrow> admitted g u d"
begin

lemma role_not_denied: "user_role g u c = Some r \<Longrightarrow> \<not> denied g u"
  using denied_no_role by force

lemma manager_everywhere: "user_role g u c = Some Manager \<Longrightarrow> admitted g u d \<and> \<not> denied g u"
  using manager_admitted role_not_denied by blast

text \<open>The users that hold one of some roles are never denied ones.\<close>

lemma holders_not_denied:
  "u \<in> set (filter (\<lambda>u. case user_role g u c of None \<Rightarrow> False | Some r \<Rightarrow> r \<in> rs) us)
     \<Longrightarrow> \<not> denied g u"
  using role_not_denied by (auto split: option.splits)

end

lemma role_manager_iff:
  "roleFromGrants gs u ch = Some Manager \<longleftrightarrow>
     u \<noteq> [] \<and> \<not> isDenied gs u \<and> (\<exists>g \<in> set (grants_of gs u). role g = Manager)"
  by (auto simp: roleFromGrants_def Let_def isDenied_iff list_ex_iff)

interpretation access: access_rule isDenied roleFromGrants
  "\<lambda>gs u (chan, isDM). admit gs u chan isDM = Admitted"
proof unfold_locales
  fix gs :: "grant list" and u and ch :: "string option" and d :: "string \<times> bool"
  assume "isDenied gs u"
  then show "roleFromGrants gs u ch = None"
    by (auto simp: roleFromGrants_def Let_def isDenied_iff)
next
  fix gs :: "grant list" and u and d :: "string \<times> bool"
  assume "isDenied gs u"
  then show "\<not> (case d of (chan, isDM) \<Rightarrow> admit gs u chan isDM = Admitted)"
    by (cases d) (auto simp: admit_def Let_def isDenied_iff)
next
  fix gs :: "grant list" and u and ch :: "string option" and d :: "string \<times> bool"
  assume "roleFromGrants gs u ch = Some Manager"
  then obtain g where "\<not> isDenied gs u" "g \<in> set (grants_of gs u)" "role g = Manager"
    by (auto simp: role_manager_iff)
  then show "case d of (chan, isDM) \<Rightarrow> admit gs u chan isDM = Admitted"
    by (cases d) (auto simp: admit_def Let_def isDenied_iff list_ex_iff)
qed

lemma usersWithRole_sound:
  "u \<in> set (usersWithRole gs roles ch) \<Longrightarrow> \<exists>r \<in> set roles. roleFromGrants gs u ch = Some r"
  by (auto simp: usersWithRole_def split: option.splits)


definition deny_example :: "string \<Rightarrow> grant list" where
  "deny_example p =
     [soulGrant SubjUser ''U1'' Manager, (soulGrant SubjUser ''U1'' Member)\<lparr>deny := True\<rparr>,
      soulGrant SubjWorkspace ''T1'' Member]"


section \<open>Stored grants only widen\<close>

definition widening :: "grant list \<Rightarrow> bool" where
  "widening hs \<longleftrightarrow> list_all (\<lambda>g. source g = ConsoleSource \<and> \<not> deny g) hs"

fun role_rank :: "grant_role option \<Rightarrow> nat" where
  "role_rank None = 0"
| "role_rank (Some Member) = 1"
| "role_rank (Some Approver) = 2"
| "role_rank (Some Manager) = 3"

lemma widening_isDenied: "widening hs \<Longrightarrow> isDenied (gs @ hs) u = isDenied gs u"
  by (auto simp: widening_def isDenied_def list_all_iff list_ex_iff)

lemma widening_scoped: "widening hs \<Longrightarrow> scoped_approvers (gs @ hs) ch = scoped_approvers gs ch"
  by (auto simp: widening_def scoped_approvers_def list_all_iff list_ex_iff)

text \<open>The three steps of a role, each a disjunction over the grants.\<close>

definition has_manager :: "grant list \<Rightarrow> string \<Rightarrow> bool" where
  "has_manager gs u = list_ex (\<lambda>g. role g = Manager) (grants_of gs u)"

definition has_approver :: "grant list \<Rightarrow> string \<Rightarrow> string option \<Rightarrow> bool" where
  "has_approver gs u ch = list_ex (\<lambda>g. role g = Approver \<and> (source g = ConsoleSource
     \<or> (if scoped_approvers gs ch then channelId g = ch else \<not> truthy (channelId g)))) (grants_of gs u)"

definition has_member :: "grant list \<Rightarrow> string \<Rightarrow> string option \<Rightarrow> bool" where
  "has_member gs u ch \<longleftrightarrow> list_ex (\<lambda>g. role g = Member) (grants_of gs u)
     \<or> (truthy ch \<and> list_ex (\<lambda>g. \<not> deny g \<and> subjectKind g = SubjChannel \<and> Some (subjectId g) = ch) gs)
     \<or> list_ex (\<lambda>g. \<not> deny g \<and> subjectKind g = SubjWorkspace) gs"

lemma role_steps:
  "roleFromGrants gs u ch =
     (if u = [] \<or> isDenied gs u then None
      else if has_manager gs u then Some Manager
      else if has_approver gs u ch then Some Approver
      else if has_member gs u ch then Some Member else None)"
  by (simp add: roleFromGrants_def Let_def isDenied_iff has_manager_def has_approver_def has_member_def)

lemma has_manager_mono: "has_manager gs u \<Longrightarrow> has_manager (gs @ hs) u"
  by (simp add: has_manager_def grants_of_append)

lemma has_approver_mono: "widening hs \<Longrightarrow> has_approver gs u ch \<Longrightarrow> has_approver (gs @ hs) u ch"
  by (simp add: has_approver_def grants_of_append widening_scoped)

lemma has_member_mono: "has_member gs u ch \<Longrightarrow> has_member (gs @ hs) u ch"
  by (auto simp: has_member_def grants_of_append)

lemma role_widening:
  assumes "widening hs"
  shows "role_rank (roleFromGrants gs u ch) \<le> role_rank (roleFromGrants (gs @ hs) u ch)"
  using has_manager_mono [of gs u hs] has_approver_mono [OF assms, of gs u ch] has_member_mono [of gs u ch hs]
  by (simp add: role_steps widening_isDenied [OF assms])

text \<open>Stored grants without a deny only widen: whoever was admitted stays admitted and no
  role goes down when they are added; a stored deny changes the admission of its own user only.\<close>

theorem stored_grants_widen:
  assumes "widening hs"
  shows "(admit gs u chan isDM = Admitted \<longrightarrow> admit (gs @ hs) u chan isDM = Admitted)
    \<and> (admit gs u chan isDM = BlockedUser \<longleftrightarrow> admit (gs @ hs) u chan isDM = BlockedUser)
    \<and> role_rank (roleFromGrants gs u ch) \<le> role_rank (roleFromGrants (gs @ hs) u ch)
    \<and> (deny d \<and> subjectKind d = SubjUser \<and> subjectId d \<noteq> u
        \<longrightarrow> admit (gs @ [d]) u chan isDM = admit gs u chan isDM)"
proof (intro conjI)
  have den: "list_ex deny (grants_of (gs @ hs) u) = list_ex deny (grants_of gs u)"
    using widening_isDenied [OF assms] by (simp add: isDenied_iff)
  show "admit gs u chan isDM = Admitted \<longrightarrow> admit (gs @ hs) u chan isDM = Admitted"
    using den by (auto simp: admit_def Let_def grants_of_append list_ex_iff split: if_splits)
  show "admit gs u chan isDM = BlockedUser \<longleftrightarrow> admit (gs @ hs) u chan isDM = BlockedUser"
    using den by (auto simp: admit_def Let_def split: if_splits)
  show "role_rank (roleFromGrants gs u ch) \<le> role_rank (roleFromGrants (gs @ hs) u ch)"
    by (rule role_widening [OF assms])
  show "deny d \<and> subjectKind d = SubjUser \<and> subjectId d \<noteq> u
      \<longrightarrow> admit (gs @ [d]) u chan isDM = admit gs u chan isDM"
    by (auto simp: admit_def Let_def grants_of_def)
qed

theorem stored_grants_widen_witness:
  "admit ([soulGrant SubjChannel ''C1'' Member] @
      [(soulGrant SubjUser ''U2'' Member)\<lparr>source := ConsoleSource\<rparr>]) ''U9'' ''C1'' False = Admitted"
proof -
  have w: "widening [(soulGrant SubjUser ''U2'' Member)\<lparr>source := ConsoleSource\<rparr>]"
    by (simp add: widening_def soulGrant_def)
  have "admit [soulGrant SubjChannel ''C1'' Member] ''U9'' ''C1'' False = Admitted"
    by (simp add: admit_def grants_of_def soulGrant_def)
  with stored_grants_widen [OF w, of "[soulGrant SubjChannel ''C1'' Member]" "''U9''" "''C1''" False]
  show ?thesis by blast
qed

section \<open>Soul grants alone\<close>

definition is_manager :: "soul_data \<Rightarrow> string \<Rightarrow> bool" where
  "is_manager s u \<longleftrightarrow> u \<noteq> [] \<and> (pr_userId (manager s) = Some u \<or> pr_userId (backupManager s) = Some u)"

abbreviation "channel_approver c u \<equiv> (soulGrant SubjUser u Approver)\<lparr>channelId := Some c\<rparr>"

lemma set_deriveSoulGrants:
  "set (deriveSoulGrants s ca) =
     (\<lambda>u. soulGrant SubjUser u Manager) ` {u. is_manager s u}
     \<union> (\<lambda>u. soulGrant SubjUser u Approver) ` {u \<in> ae_userId ` set (approvers s). u \<noteq> []}
     \<union> (\<lambda>(c, u). channel_approver c u) ` {(c, u). c \<noteq> [] \<and> u \<noteq> [] \<and> (\<exists>us. (c, us) \<in> set ca \<and> u \<in> set us)}
     \<union> (\<lambda>c. soulGrant SubjChannel c Member) ` {c \<in> set (trustedChannels s) \<union> set (allowedChannels s). c \<noteq> []}
     \<union> (\<lambda>u. (soulGrant SubjUser u Member)\<lparr>dmOnly := True\<rparr>) ` {u \<in> set (dmAllowedUsers s). u \<noteq> []}
     \<union> (\<lambda>u. (soulGrant SubjUser u Member)\<lparr>deny := True\<rparr>) ` {u \<in> set (blockedUsers s). u \<noteq> []}"
proof -
  have man: "set (present_ids [pr_userId (manager s), pr_userId (backupManager s)]) = {u. is_manager s u}"
    unfolding set_present_ids by (auto simp: is_manager_def)
  have chan: "set (concat (map (\<lambda>(ch, users). if ch = [] then []
          else map (\<lambda>u. channel_approver ch u) (nonempty_ids users)) ca))
      = (\<lambda>(c, u). channel_approver c u) ` {(c, u). c \<noteq> [] \<and> u \<noteq> [] \<and> (\<exists>us. (c, us) \<in> set ca \<and> u \<in> set us)}"
    by (auto simp: nonempty_ids_def image_iff split: if_splits)
  have ids: "set (nonempty_ids xs) = {x \<in> set xs. x \<noteq> []}" for xs
    by (simp add: nonempty_ids_def)
  show ?thesis
    unfolding deriveSoulGrants_def set_append chan
    by (simp add: man ids Un_assoc del: present_ids.simps)
qed

lemma derived_manager:
  "(\<exists>g \<in> set (deriveSoulGrants s ca). subjectKind g = SubjUser \<and> subjectId g = u \<and> role g = Manager)
     \<longleftrightarrow> is_manager s u"
  by (auto simp: set_deriveSoulGrants bex_Un soulGrant_def)

lemma derived_deny:
  "isDenied (deriveSoulGrants s ca) u \<longleftrightarrow> u \<noteq> [] \<and> u \<in> set (blockedUsers s)"
  by (auto simp: isDenied_def list_ex_iff set_deriveSoulGrants bex_Un soulGrant_def)

lemma derived_dm:
  "(\<exists>g \<in> set (deriveSoulGrants s ca). subjectKind g = SubjUser \<and> subjectId g = u \<and> \<not> deny g \<and> role g = Member)
     \<longleftrightarrow> u \<noteq> [] \<and> u \<in> set (dmAllowedUsers s)"
  by (auto simp: set_deriveSoulGrants bex_Un soulGrant_def)

lemma derived_channel:
  "(\<exists>g \<in> set (deriveSoulGrants s ca). \<not> deny g \<and> subjectKind g = SubjChannel \<and> subjectId g = c)
     \<longleftrightarrow> c \<noteq> [] \<and> c \<in> set (trustedChannels s) \<union> set (allowedChannels s)"
  by (auto simp: set_deriveSoulGrants bex_Un soulGrant_def)

lemma derived_source: "g \<in> set (deriveSoulGrants s ca) \<Longrightarrow> source g = SoulSource"
  by (auto simp: set_deriveSoulGrants soulGrant_def)

lemma derived_no_workspace: "g \<in> set (deriveSoulGrants s ca) \<Longrightarrow> subjectKind g \<noteq> SubjWorkspace"
  by (auto simp: set_deriveSoulGrants soulGrant_def)

lemma derived_no_denied_manager:
  "g \<in> set (deriveSoulGrants s ca) \<Longrightarrow> role g = Manager \<Longrightarrow> \<not> deny g"
  by (auto simp: set_deriveSoulGrants soulGrant_def)

text \<open>With soul grants only, admission is exactly the documented channel rule plus the block
  list: a manager or backup manager anywhere, a listed user in a direct message, anyone in a
  trusted or allowed channel, and nobody on the block list.\<close>

theorem admit_soul_only:
  "admit (effectiveGrants s []) u chan isDM =
     (if u \<noteq> [] \<and> u \<in> set (blockedUsers s) then BlockedUser
      else if is_manager s u
           \<or> (isDM \<and> u \<noteq> [] \<and> u \<in> set (dmAllowedUsers s))
           \<or> (\<not> isDM \<and> chan \<noteq> [] \<and> chan \<in> set (trustedChannels s) \<union> set (allowedChannels s))
      then Admitted else NotWhitelisted)"
proof -
  define gs where "gs = deriveSoulGrants s (channelApproversOf s)"
  have eff: "effectiveGrants s [] = gs" by (simp add: effectiveGrants_def gs_def)
  have d: "list_ex deny (grants_of gs u) \<longleftrightarrow> u \<noteq> [] \<and> u \<in> set (blockedUsers s)"
    using derived_deny by (simp add: gs_def isDenied_iff [symmetric])
  have m: "list_ex (\<lambda>g. role g = Manager) (filter (\<lambda>g. \<not> deny g) (grants_of gs u)) \<longleftrightarrow> is_manager s u"
    using derived_manager [of s "channelApproversOf s" u] derived_no_denied_manager [of _ s "channelApproversOf s"]
    by (auto simp: list_ex_iff set_grants_of gs_def)
  have dm: "list_ex (\<lambda>g. role g = Member) (filter (\<lambda>g. \<not> deny g) (grants_of gs u))
      \<longleftrightarrow> u \<noteq> [] \<and> u \<in> set (dmAllowedUsers s)"
    using derived_dm [of s "channelApproversOf s" u] by (auto simp: list_ex_iff set_grants_of gs_def)
  have ch: "list_ex (\<lambda>g. \<not> deny g \<and> subjectKind g = SubjChannel \<and> subjectId g = chan) gs
      \<longleftrightarrow> chan \<noteq> [] \<and> chan \<in> set (trustedChannels s) \<union> set (allowedChannels s)"
    using derived_channel [of s "channelApproversOf s" chan] by (simp add: list_ex_iff gs_def)
  have st: "\<not> list_ex (\<lambda>g. source g = ConsoleSource \<and> role g = Member \<and> \<not> dmOnly g)
      (filter (\<lambda>g. \<not> deny g) (grants_of gs u))"
    by (auto simp: list_ex_iff set_grants_of gs_def dest: derived_source)
  have ws: "\<not> list_ex (\<lambda>g. \<not> deny g \<and> subjectKind g = SubjWorkspace) gs"
    by (auto simp: list_ex_iff gs_def dest: derived_no_workspace)
  show ?thesis
    unfolding eff admit_def Let_def d m dm ch using st ws by auto
qed

section \<open>Approvers of a channel\<close>

lemma derived_approver:
  "(\<exists>g \<in> set (deriveSoulGrants s ca). subjectKind g = SubjUser \<and> subjectId g = u \<and> role g = Approver
       \<and> channelId g = Some c)
     \<longleftrightarrow> c \<noteq> [] \<and> u \<noteq> [] \<and> (\<exists>us. (c, us) \<in> set ca \<and> u \<in> set us)"
  by (auto simp: set_deriveSoulGrants bex_Un soulGrant_def)

lemma derived_scoped:
  "(\<exists>g \<in> set (deriveSoulGrants s ca). role g = Approver \<and> channelId g = Some c)
     \<longleftrightarrow> c \<noteq> [] \<and> (\<exists>us. (c, us) \<in> set ca \<and> (\<exists>u \<in> set us. u \<noteq> []))"
  by (auto simp: set_deriveSoulGrants bex_Un soulGrant_def)

lemma derived_global_approver:
  "(\<exists>g \<in> set (deriveSoulGrants s ca). subjectKind g = SubjUser \<and> subjectId g = u \<and> role g = Approver
       \<and> \<not> truthy (channelId g))
     \<longleftrightarrow> u \<noteq> [] \<and> u \<in> ae_userId ` set (approvers s)"
  by (auto simp: set_deriveSoulGrants bex_Un soulGrant_def)

text \<open>Approvers are channel aware with replace semantics: in a channel whose block names
  approvers, the users with approval rights are that block's approvers and the managers; in any
  other channel they are the global approvers and the managers; a blocked user never has them.\<close>

theorem channel_approvers_replace:
  assumes "u \<noteq> []" "ch \<noteq> []" "u \<notin> set (blockedUsers s)"
  shows "(\<exists>r. roleFromGrants (effectiveGrants s []) u (Some ch) = Some r \<and> r \<noteq> Member) \<longleftrightarrow>
    is_manager s u \<or>
    (case map_of (channelApproversOf s) ch of
       Some us \<Rightarrow> (if \<exists>v \<in> set us. v \<noteq> [] then u \<in> set us else u \<in> ae_userId ` set (approvers s))
     | None \<Rightarrow> u \<in> ae_userId ` set (approvers s))"
proof -
  define ca where "ca = channelApproversOf s"
  define gs where "gs = deriveSoulGrants s ca"
  have eff: "effectiveGrants s [] = gs" by (simp add: effectiveGrants_def gs_def ca_def)
  have d: "\<not> list_ex deny (grants_of gs u)"
    using derived_deny [of s ca u] assms(3) by (simp add: gs_def isDenied_iff [symmetric])
  have m: "list_ex (\<lambda>g. role g = Manager) (grants_of gs u) \<longleftrightarrow> is_manager s u"
    using derived_manager [of s ca u] by (auto simp: list_ex_iff set_grants_of gs_def)
  have sc: "scoped_approvers gs (Some ch) \<longleftrightarrow> (\<exists>us. map_of ca ch = Some us \<and> (\<exists>v \<in> set us. v \<noteq> []))"
    using derived_scoped [of s ca ch] assms(2) derived_source [of _ s ca]
    by (auto simp: scoped_approvers_def list_ex_iff gs_def ca_def set_channelApproversOf)
  have ap: "list_ex (\<lambda>g. role g = Approver \<and> channelId g = Some ch) (grants_of gs u)
      \<longleftrightarrow> (\<exists>us. map_of ca ch = Some us \<and> u \<in> set us)"
    using derived_approver [of s ca u ch] assms(1,2)
    by (auto simp: list_ex_iff set_grants_of gs_def ca_def set_channelApproversOf)
  have gl: "list_ex (\<lambda>g. role g = Approver \<and> \<not> truthy (channelId g)) (grants_of gs u)
      \<longleftrightarrow> u \<in> ae_userId ` set (approvers s)"
    using derived_global_approver [of s ca u] assms(1)
    by (auto simp: list_ex_iff set_grants_of gs_def)
  have src: "\<And>g. g \<in> set (grants_of gs u) \<Longrightarrow> source g = SoulSource"
    by (auto simp: set_grants_of gs_def dest: derived_source)
  have ap': "list_ex (\<lambda>g. role g = Approver \<and> (source g = ConsoleSource
        \<or> (if scoped_approvers gs (Some ch) then channelId g = Some ch else \<not> truthy (channelId g))))
        (grants_of gs u)
      \<longleftrightarrow> (if scoped_approvers gs (Some ch) then \<exists>us. map_of ca ch = Some us \<and> u \<in> set us
           else u \<in> ae_userId ` set (approvers s))"
    using ap gl src by (auto simp: list_ex_iff)
  have "(\<exists>r. roleFromGrants gs u (Some ch) = Some r \<and> r \<noteq> Member) \<longleftrightarrow> is_manager s u \<or>
      (if scoped_approvers gs (Some ch) then \<exists>us. map_of ca ch = Some us \<and> u \<in> set us
       else u \<in> ae_userId ` set (approvers s))"
    unfolding roleFromGrants_def Let_def m ap' using assms(1) d by auto
  then show ?thesis
    unfolding eff sc by (auto simp: ca_def split: option.splits)
qed

text \<open>The witness: a global approver is no approver in a channel that names its own.\<close>

definition override_example :: soul_data where
  "override_example = EMPTY_soul\<lparr>approvers := [catchall_entry ''U1''],
     channelOverrides := [\<lparr>co_channel = ''C1'', co_mandate = None,
       co_approvers = [catchall_entry ''U2'']\<rparr>]\<rparr>"

theorem channel_approvers_replace_witness:
  "\<not> (\<exists>r. roleFromGrants (effectiveGrants override_example []) ''U1'' (Some ''C1'') = Some r \<and> r \<noteq> Member)
   \<and> (\<exists>r. roleFromGrants (effectiveGrants override_example []) ''U2'' (Some ''C1'') = Some r \<and> r \<noteq> Member)"
proof -
  have b: "blockedUsers override_example = []"
    by (simp add: override_example_def EMPTY_soul_def)
  have c: "channelApproversOf override_example = [(''C1'', [''U2''])]"
    and m: "\<not> is_manager override_example u"
    and a: "approvers override_example = [catchall_entry ''U1'']" for u
    by (simp_all add: override_example_def EMPTY_soul_def channelApproversOf_def is_manager_def
        catchall_entry_def withManagerApprover_def)
  show ?thesis
    using channel_approvers_replace [of "''U1''" "''C1''" override_example]
      channel_approvers_replace [of "''U2''" "''C1''" override_example]
    by (simp add: b c m a)
qed

end
