(* ===== verification/GrantsCache.thy ===== *)
theory GrantsCache
  imports AccessFacts
begin

text \<open>
  The per-process cache of a persona's stored grants (\<open>storedGrants\<close>, \<open>invalidateGrants\<close> and
  \<open>loadGrants\<close> of \<^verbatim>\<open>src/access/role.ts\<close>): entries with a deadline, one read in flight per
  persona, and a generation that every invalidation raises. Reads of the database are events:
  they start in a call and end later, with rows or with an error.
\<close>

definition TTL_MS :: int where "TTL_MS = 5000"
definition FAILURE_TTL_MS :: int where "FAILURE_TTL_MS = 2000"
definition FAILURE_LOG_EVERY_MS :: int where "FAILURE_LOG_EVERY_MS = 60000"

record read_job =
  rj_persona :: string
  rj_gen :: nat
  rj_started :: int

record gcache =
  entries :: "string \<Rightarrow> (int \<times> grant list) option"
  inflight :: "string \<Rightarrow> nat option"
  reads :: "nat \<Rightarrow> read_job option"
  generation :: nat
  next_read :: nat
  last_failure_log :: "int option"
  failures :: nat
  logged :: nat

definition gcache_init :: gcache where
  "gcache_init = \<lparr>entries = Map.empty, inflight = Map.empty, reads = Map.empty, generation = 0,
     next_read = 0, last_failure_log = None, failures = 0, logged = 0\<rparr>"

text \<open>What a call gets: the cached rows, or the promise of a read (shared or just started).\<close>

datatype stored_reply = Hit "grant list" | Joined nat | Started nat

definition cache_hit :: "string \<Rightarrow> int \<Rightarrow> gcache \<Rightarrow> grant list option" where
  "cache_hit persona now s =
     (case entries s persona of
        Some (until, gs) \<Rightarrow> if now < until then Some gs else None
      | None \<Rightarrow> None)"

definition storedGrants :: "string \<Rightarrow> int \<Rightarrow> gcache \<Rightarrow> stored_reply \<times> gcache" where
  "storedGrants persona now s =
     (case cache_hit persona now s of
        Some gs \<Rightarrow> (Hit gs, s)
      | None \<Rightarrow>
          (case inflight s persona of
             Some i \<Rightarrow> (Joined i, s)
           | None \<Rightarrow> (Started (next_read s),
               s\<lparr>inflight := (inflight s)(persona \<mapsto> next_read s),
                 reads := (reads s)(next_read s \<mapsto>
                   \<lparr>rj_persona = persona, rj_gen = generation s, rj_started = now\<rparr>),
                 next_read := Suc (next_read s)\<rparr>)))"

text \<open>The end of a read: a failure counts, logs at most once a minute and degrades to no rows;
  the result is cached only if no invalidation came in between.\<close>

definition read_done :: "nat \<Rightarrow> grant list option \<Rightarrow> int \<Rightarrow> gcache \<Rightarrow> gcache" where
  "read_done i result done_at s =
     (case reads s i of
        None \<Rightarrow> s
      | Some r \<Rightarrow>
          let failed = (result = None);
              gs = (case result of Some rows \<Rightarrow> rows | None \<Rightarrow> []);
              ttl = (if failed then FAILURE_TTL_MS else TTL_MS);
              log_now = failed \<and> (case last_failure_log s of None \<Rightarrow> True
                          | Some t \<Rightarrow> rj_started r - t \<ge> FAILURE_LOG_EVERY_MS);
              s1 = s\<lparr>reads := (reads s)(i := None),
                     failures := (if failed then Suc (failures s) else failures s),
                     logged := (if log_now then Suc (logged s) else logged s),
                     last_failure_log := (if log_now then Some (rj_started r) else last_failure_log s)\<rparr>;
              s2 = (if rj_gen r = generation s
                    then s1\<lparr>entries := (entries s1)(rj_persona r \<mapsto> (done_at + ttl, gs))\<rparr> else s1)
          in if inflight s2 (rj_persona r) = Some i
             then s2\<lparr>inflight := (inflight s2)(rj_persona r := None)\<rparr> else s2)"

definition invalidateGrants :: "string option \<Rightarrow> gcache \<Rightarrow> gcache" where
  "invalidateGrants persona s =
     (let s1 = s\<lparr>generation := Suc (generation s)\<rparr>
      in if truthy persona
         then s1\<lparr>entries := (entries s1)(persona_key persona := None),
                 inflight := (inflight s1)(persona_key persona := None)\<rparr>
         else s1\<lparr>entries := Map.empty, inflight := Map.empty\<rparr>)"

definition loadGrants_from :: "(string \<Rightarrow> soul_data) \<Rightarrow> grant list \<Rightarrow> string option \<Rightarrow> grant list" where
  "loadGrants_from soulFor stored personaName = effectiveGrants (soulFor (persona_key personaName)) stored"

datatype gcache_event =
    Call string int
  | ReadDone nat "grant list option" int
  | Invalidate "string option"

fun gcache_step :: "gcache \<Rightarrow> gcache_event \<Rightarrow> gcache" where
  "gcache_step s (Call p now) = snd (storedGrants p now s)"
| "gcache_step s (ReadDone i r t) = read_done i r t s"
| "gcache_step s (Invalidate p) = invalidateGrants p s"

section \<open>Invariant\<close>

text \<open>Every read carries a generation that was current when it started, the read in flight for a
  persona is a read of that persona at the current or an earlier generation, and read numbers
  are fresh.\<close>

definition gcache_inv :: "gcache \<Rightarrow> bool" where
  "gcache_inv s \<longleftrightarrow>
     (\<forall>i r. reads s i = Some r \<longrightarrow> rj_gen r \<le> generation s \<and> i < next_read s)
     \<and> (\<forall>p i. inflight s p = Some i \<longrightarrow> (\<exists>r. reads s i = Some r \<and> rj_persona r = p))"

lemma gcache_invD:
  assumes "gcache_inv s"
  shows "reads s i = Some r \<Longrightarrow> rj_gen r \<le> generation s"
    and "reads s i = Some r \<Longrightarrow> i < next_read s"
    and "inflight s p = Some i \<Longrightarrow> \<exists>r. reads s i = Some r \<and> rj_persona r = p"
  using assms by (auto simp: gcache_inv_def)

lemma storedGrants_inv:
  assumes "gcache_inv s"
  shows "gcache_inv (snd (storedGrants p now s))"
proof -
  have "inflight s q \<noteq> Some (next_read s)" for q
    using gcache_invD(2,3) [OF assms] by blast
  then show ?thesis
    using assms unfolding gcache_inv_def storedGrants_def
    by (auto simp: less_SucI split: option.splits)
qed

text \<open>The end of a read, field by field.\<close>

lemma read_done_fields:
  assumes "reads s i = Some r"
  shows "reads (read_done i res t s) = (reads s)(i := None)"
    and "generation (read_done i res t s) = generation s"
    and "next_read (read_done i res t s) = next_read s"
    and "inflight (read_done i res t s) =
          (if inflight s (rj_persona r) = Some i then (inflight s)(rj_persona r := None) else inflight s)"
    and "rj_gen r \<noteq> generation s \<Longrightarrow> entries (read_done i res t s) = entries s"
    and "p \<noteq> rj_persona r \<Longrightarrow> entries (read_done i res t s) p = entries s p"
  using assms by (simp_all add: read_done_def Let_def)

lemma read_done_unknown: "reads s i = None \<Longrightarrow> read_done i res t s = s"
  by (simp add: read_done_def)

lemma read_done_inv:
  assumes "gcache_inv s"
  shows "gcache_inv (read_done i res t s)"
proof (cases "reads s i")
  case (Some r)
  note f = read_done_fields(1-4) [OF Some]
  have other: "p = rj_persona r" if "inflight s p = Some i" for p
    using gcache_invD(3) [OF assms that] Some by simp
  have "\<exists>q. ((reads s)(i := None)) j = Some q \<and> rj_persona q = p"
    if "inflight (read_done i res t s) p = Some j" for p j
  proof -
    have ij: "inflight s p = Some j"
      using that by (simp add: f split: if_splits)
    have "j \<noteq> i"
    proof
      assume "j = i"
      with ij have "inflight s p = Some i" "p = rj_persona r" using other [of p] by simp_all
      with that show False by (simp add: f)
    qed
    with gcache_invD(3) [OF assms ij] show ?thesis by simp
  qed
  moreover have "rj_gen q \<le> generation s \<and> j < next_read s" if "((reads s)(i := None)) j = Some q" for q j
    using that gcache_invD(1,2) [OF assms, of j q] by (simp split: if_splits)
  ultimately show ?thesis by (auto simp: gcache_inv_def f(1-3))
qed (simp add: read_done_unknown assms)

lemma invalidate_inv: "gcache_inv s \<Longrightarrow> gcache_inv (invalidateGrants p s)"
  by (auto simp: gcache_inv_def invalidateGrants_def Let_def intro: le_SucI)

lemma gcache_step_inv: "gcache_inv s \<Longrightarrow> gcache_inv (gcache_step s e)"
  by (cases e) (simp_all add: storedGrants_inv read_done_inv invalidate_inv)

lemma gcache_step_generation: "generation s \<le> generation (gcache_step s e)"
  by (cases e) (auto simp: storedGrants_def read_done_def invalidateGrants_def Let_def split: option.splits)

interpretation gcache: monotone_machine gcache_step gcache_inv generation
  by unfold_locales (simp_all add: gcache_step_inv gcache_step_generation)

lemma gcache_inv_init: "gcache_inv gcache_init"
  by (simp add: gcache_inv_def gcache_init_def)

section \<open>An invalidation is final\<close>

text \<open>A persona is quiet when nothing of it is cached or in flight and every read of it that is
  still running started before the current generation.\<close>

definition quiet :: "string \<Rightarrow> gcache \<Rightarrow> bool" where
  "quiet p s \<longleftrightarrow> entries s p = None \<and> inflight s p = None
     \<and> (\<forall>i r. reads s i = Some r \<and> rj_persona r = p \<longrightarrow> rj_gen r < generation s)"

lemma invalidate_quiet:
  assumes "gcache_inv s" "persona_key q = p \<and> truthy q \<or> \<not> truthy q"
  shows "quiet p (invalidateGrants q s)"
  using assms by (auto simp: gcache_inv_def quiet_def invalidateGrants_def Let_def le_imp_less_Suc)

lemma call_quiet: "quiet p s \<Longrightarrow> q \<noteq> p \<Longrightarrow> quiet p (snd (storedGrants q now s))"
  by (auto simp: quiet_def storedGrants_def split: option.splits)

lemma read_done_quiet:
  assumes "quiet p s"
  shows "quiet p (read_done i res t s)"
proof (cases "reads s i")
  case (Some r)
  have "entries (read_done i res t s) p = entries s p"
  proof (cases "rj_persona r = p")
    case True
    then have "rj_gen r < generation s" using assms Some unfolding quiet_def by blast
    then have "rj_gen r \<noteq> generation s" by simp
    then show ?thesis by (simp add: read_done_fields(5) [OF Some])
  qed (use read_done_fields(6) [OF Some] in simp)
  then show ?thesis
    using assms by (auto simp: quiet_def read_done_fields(1-4) [OF Some] split: if_splits)
qed (simp add: read_done_unknown assms)

lemma invalidate_keeps_quiet: "quiet p s \<Longrightarrow> quiet p (invalidateGrants q s)"
  by (auto simp: quiet_def invalidateGrants_def Let_def less_SucI)

lemma step_quiet: "quiet p s \<Longrightarrow> \<forall>now. Call p now \<noteq> e \<Longrightarrow> quiet p (gcache_step s e)"
  by (cases e) (auto simp: call_quiet read_done_quiet invalidate_keeps_quiet)

lemma run_quiet:
  "quiet p s \<Longrightarrow> \<forall>now. Call p now \<notin> set es \<Longrightarrow> quiet p (run_steps gcache_step s es)"
proof (induction es arbitrary: s)
  case (Cons e es)
  then have "quiet p (gcache_step s e)" by (intro step_quiet) auto
  with Cons show ?case by simp
qed simp

text \<open>A grant change takes effect at once in its own process: after an invalidation of a
  persona, no read that was already in flight can cache its result or be joined by a later call,
  whatever order reads end in; the next call starts a fresh read of the current generation.\<close>

theorem invalidation_final:
  assumes "s = run_steps gcache_step gcache_init before"
    and "truthy q" and "p = persona_key q"
    and "\<forall>now. Call p now \<notin> set es"
  shows "entries (run_steps gcache_step (invalidateGrants q s) es) p = None
    \<and> fst (storedGrants p now (run_steps gcache_step (invalidateGrants q s) es))
        = Started (next_read (run_steps gcache_step (invalidateGrants q s) es))"
proof -
  have "gcache_inv s"
    using gcache.run_inv [OF gcache_inv_init] assms(1) by simp
  then have "quiet p (invalidateGrants q s)"
    using assms(2,3) by (simp add: invalidate_quiet)
  then have "quiet p (run_steps gcache_step (invalidateGrants q s) es)"
    using assms(4) by (rule run_quiet)
  then show ?thesis by (simp add: quiet_def storedGrants_def cache_hit_def)
qed

text \<open>The witness: a read of the persona is in flight when the grant is revoked; it ends after.\<close>

theorem invalidation_final_witness:
  "entries (run_steps gcache_step
      (invalidateGrants (Some ''bob'') (run_steps gcache_step gcache_init [Call ''bob'' 0]))
      [ReadDone 0 (Some [soulGrant SubjUser ''U1'' Manager]) 10]) ''bob'' = None"
  using invalidation_final [OF refl, of "Some ''bob''" "''bob''"
      "[ReadDone 0 (Some [soulGrant SubjUser ''U1'' Manager]) 10]" "[Call ''bob'' 0]"]
  by (simp add: persona_key_def)

section \<open>Freshness\<close>

text \<open>The clock of a run never steps back, and no cached deadline is later than the last event
  plus the time to live.\<close>

fun event_time :: "gcache_event \<Rightarrow> int option" where
  "event_time (Call p t) = Some t"
| "event_time (ReadDone i r t) = Some t"
| "event_time (Invalidate p) = None"

definition deadlines_within :: "int \<Rightarrow> gcache \<Rightarrow> bool" where
  "deadlines_within t s \<longleftrightarrow> (\<forall>p until gs. entries s p = Some (until, gs) \<longrightarrow> until \<le> t + TTL_MS)"

lemma step_deadlines:
  assumes "deadlines_within t s" "\<forall>t'. event_time e = Some t' \<longrightarrow> t' \<le> t"
  shows "deadlines_within t (gcache_step s e)"
  using assms
  by (cases e) (auto simp: deadlines_within_def storedGrants_def read_done_def invalidateGrants_def
      Let_def TTL_MS_def FAILURE_TTL_MS_def split: option.splits if_splits)

lemma run_deadlines:
  "deadlines_within t s \<Longrightarrow> \<forall>e \<in> set es. \<forall>t'. event_time e = Some t' \<longrightarrow> t' \<le> t
     \<Longrightarrow> deadlines_within t (run_steps gcache_step s es)"
proof (induction es arbitrary: s)
  case (Cons e es)
  then have "deadlines_within t (gcache_step s e)" by (intro step_deadlines) auto
  then show ?case using Cons by simp
qed simp

text \<open>Cached grants expire: once more than five seconds have passed since the last event of a
  run, no call is answered from the cache, so a change made by another replica is seen then.\<close>

theorem cached_grants_expire:
  assumes "\<forall>e \<in> set es. \<forall>t'. event_time e = Some t' \<longrightarrow> t' \<le> t" and "t + 5000 \<le> now"
  shows "fst (storedGrants p now (run_steps gcache_step gcache_init es)) \<noteq> Hit gs"
proof -
  have "deadlines_within t gcache_init"
    by (simp add: deadlines_within_def gcache_init_def)
  then have "deadlines_within t (run_steps gcache_step gcache_init es)"
    using assms(1) by (rule run_deadlines)
  with assms(2) show ?thesis
    by (fastforce simp: deadlines_within_def storedGrants_def cache_hit_def TTL_MS_def
        split: option.splits if_splits)
qed

theorem cached_grants_expire_witness:
  "fst (storedGrants ''p'' 5010 (run_steps gcache_step gcache_init
     [Call ''p'' 0, ReadDone 0 (Some []) 10])) \<noteq> Hit []
   \<and> fst (storedGrants ''p'' 5009 (run_steps gcache_step gcache_init
     [Call ''p'' 0, ReadDone 0 (Some []) 10])) = Hit []"
proof -
  have "fst (storedGrants ''p'' 5010 (run_steps gcache_step gcache_init
     [Call ''p'' 0, ReadDone 0 (Some []) 10])) \<noteq> Hit []"
    by (rule cached_grants_expire [where t = 10]) auto
  moreover have "fst (storedGrants ''p'' 5009 (run_steps gcache_step gcache_init
     [Call ''p'' 0, ReadDone 0 (Some []) 10])) = Hit []"
    by (simp add: gcache_init_def storedGrants_def cache_hit_def read_done_def TTL_MS_def)
  ultimately show ?thesis ..
qed

end
