(* ===== verification/Redis.thy ===== *)
theory Redis
  imports Prelude
begin

text \<open>
  The Redis server as the sources use it: a parameter of the models, given by its operations on
  an opaque server state \<open>'w\<close> and by an observation of it (the value of every key with its
  deadline, and the server clock). \<open>redis_laws\<close> states the documented behaviour of the commands
  SET PX, SET PX NX, GET, DEL and PEXPIRE over that observation; it is a named hypothesis of the
  theorems that rest on it. \<open>mem_redis\<close> is a concrete server, used by witnesses only.
\<close>

record ('w, 'v) redis =
  rd_now :: "'w \<Rightarrow> int"
  rd_view :: "'w \<Rightarrow> string \<Rightarrow> ('v \<times> int) option"
  rd_get :: "string \<Rightarrow> 'w \<Rightarrow> 'v option"
  rd_set :: "string \<Rightarrow> 'v \<Rightarrow> int \<Rightarrow> 'w \<Rightarrow> 'w"
  rd_set_nx :: "string \<Rightarrow> 'v \<Rightarrow> int \<Rightarrow> 'w \<Rightarrow> bool \<times> 'w"
  rd_del :: "string \<Rightarrow> 'w \<Rightarrow> bool \<times> 'w"
  rd_pexpire :: "string \<Rightarrow> int \<Rightarrow> 'w \<Rightarrow> bool \<times> 'w"

text \<open>A key is live while the clock has not reached its deadline.\<close>

definition live :: "('w, 'v) redis \<Rightarrow> 'w \<Rightarrow> string \<Rightarrow> 'v option" where
  "live R w k =
     (case rd_view R w k of
        Some (v, d) \<Rightarrow> if rd_now R w < d then Some v else None
      | None \<Rightarrow> None)"

definition redis_laws :: "('w, 'v) redis \<Rightarrow> bool" where
  "redis_laws R \<longleftrightarrow>
     (\<forall>k w. rd_get R k w = live R w k)
   \<and> (\<forall>k v px w. rd_view R (rd_set R k v px w) = (rd_view R w)(k \<mapsto> (v, rd_now R w + px))
        \<and> rd_now R (rd_set R k v px w) = rd_now R w)
   \<and> (\<forall>k v px w. fst (rd_set_nx R k v px w) = (live R w k = None)
        \<and> rd_view R (snd (rd_set_nx R k v px w)) =
            (if live R w k = None then (rd_view R w)(k \<mapsto> (v, rd_now R w + px)) else rd_view R w)
        \<and> rd_now R (snd (rd_set_nx R k v px w)) = rd_now R w)
   \<and> (\<forall>k w. fst (rd_del R k w) = (live R w k \<noteq> None)
        \<and> rd_view R (snd (rd_del R k w)) = (rd_view R w)(k := None)
        \<and> rd_now R (snd (rd_del R k w)) = rd_now R w)
   \<and> (\<forall>k px w. fst (rd_pexpire R k px w) = (live R w k \<noteq> None)
        \<and> rd_view R (snd (rd_pexpire R k px w)) =
            (case live R w k of Some v \<Rightarrow> (rd_view R w)(k \<mapsto> (v, rd_now R w + px)) | None \<Rightarrow> rd_view R w)
        \<and> rd_now R (snd (rd_pexpire R k px w)) = rd_now R w)"

lemma redis_lawsD:
  assumes "redis_laws R"
  shows "rd_get R k w = live R w k"
    and "rd_view R (rd_set R k v px w) = (rd_view R w)(k \<mapsto> (v, rd_now R w + px))"
    and "rd_now R (rd_set R k v px w) = rd_now R w"
    and "fst (rd_set_nx R k v px w) \<longleftrightarrow> live R w k = None"
    and "rd_view R (snd (rd_set_nx R k v px w)) =
           (if live R w k = None then (rd_view R w)(k \<mapsto> (v, rd_now R w + px)) else rd_view R w)"
    and "rd_now R (snd (rd_set_nx R k v px w)) = rd_now R w"
    and "fst (rd_del R k w) \<longleftrightarrow> live R w k \<noteq> None"
    and "rd_view R (snd (rd_del R k w)) = (rd_view R w)(k := None)"
    and "rd_now R (snd (rd_del R k w)) = rd_now R w"
    and "fst (rd_pexpire R k px w) \<longleftrightarrow> live R w k \<noteq> None"
    and "rd_view R (snd (rd_pexpire R k px w)) =
           (case live R w k of Some v \<Rightarrow> (rd_view R w)(k \<mapsto> (v, rd_now R w + px)) | None \<Rightarrow> rd_view R w)"
    and "rd_now R (snd (rd_pexpire R k px w)) = rd_now R w"
  using assms unfolding redis_laws_def by blast+

section \<open>A concrete server\<close>

type_synonym 'v mem = "int \<times> (string \<Rightarrow> ('v \<times> int) option)"

definition mem_live :: "'v mem \<Rightarrow> string \<Rightarrow> 'v option" where
  "mem_live m k =
     (case snd m k of Some (v, d) \<Rightarrow> if fst m < d then Some v else None | None \<Rightarrow> None)"

definition mem_redis :: "('v mem, 'v) redis" where
  "mem_redis = \<lparr>rd_now = fst, rd_view = snd, rd_get = (\<lambda>k m. mem_live m k),
     rd_set = (\<lambda>k v px m. (fst m, (snd m)(k \<mapsto> (v, fst m + px)))),
     rd_set_nx = (\<lambda>k v px m. if mem_live m k = None then (True, fst m, (snd m)(k \<mapsto> (v, fst m + px)))
       else (False, m)),
     rd_del = (\<lambda>k m. (mem_live m k \<noteq> None, fst m, (snd m)(k := None))),
     rd_pexpire = (\<lambda>k px m. case mem_live m k of
        Some v \<Rightarrow> (True, fst m, (snd m)(k \<mapsto> (v, fst m + px))) | None \<Rightarrow> (False, m))\<rparr>"

lemma mem_redis_live: "live mem_redis m k = mem_live m k"
  by (simp add: live_def mem_live_def mem_redis_def split: option.split)

lemma mem_redis_laws: "redis_laws mem_redis"
  unfolding redis_laws_def mem_redis_live by (auto simp: mem_redis_def split: option.splits)

end
