(* ===== verification/QueueKeys.thy ===== *)
theory QueueKeys
  imports Prelude
begin

text \<open>
  The names of the queue layer (\<^verbatim>\<open>src/queue/keys.ts\<close>): the turn queue of a label or of a
  node, and every Redis key, channel and pattern off one prefix. A malformed label and a reserved
  node id raise (\<open>None\<close> and \<open>False\<close>). The SHA-256 of a resolved directory is a parameter.
\<close>

section \<open>Queue names\<close>

definition label_tail_char :: "char \<Rightarrow> bool" where
  "label_tail_char c \<longleftrightarrow> is_lower c \<or> is_digit c \<or> c = CHR ''-''"

text \<open>\<open>/^[a-z0-9][a-z0-9-]{0,31}$/\<close>.\<close>

definition LABEL_RE :: "string \<Rightarrow> bool" where
  "LABEL_RE s \<longleftrightarrow>
     (case s of [] \<Rightarrow> False
      | c # cs \<Rightarrow> (is_lower c \<or> is_digit c) \<and> length cs \<le> 31 \<and> list_all label_tail_char cs)"

definition DEFAULT_LABEL :: string where "DEFAULT_LABEL = ''default''"
definition TURNS_QUEUE :: string where "TURNS_QUEUE = ''turns''"
definition LABEL_QUEUE_PREFIX :: string where "LABEL_QUEUE_PREFIX = TURNS_QUEUE @ ''.label.''"

definition labelTurnsQueue :: "string \<Rightarrow> string option" where
  "labelTurnsQueue label =
     (if label = DEFAULT_LABEL then Some TURNS_QUEUE
      else if \<not> LABEL_RE label then None
      else Some (LABEL_QUEUE_PREFIX @ label))"

definition replace_char :: "char \<Rightarrow> char \<Rightarrow> string \<Rightarrow> string" where
  "replace_char a b s = map (\<lambda>c. if c = a then b else c) s"

definition nodeTurnsQueue :: "string \<Rightarrow> string" where
  "nodeTurnsQueue nodeId = TURNS_QUEUE @ ''.'' @ replace_char CHR '':'' CHR ''-'' nodeId"

definition assertNodeIdUsable :: "string \<Rightarrow> bool" where
  "assertNodeIdUsable nodeId \<longleftrightarrow> \<not> starts_with (nodeTurnsQueue nodeId) LABEL_QUEUE_PREFIX"

section \<open>Redis keys\<close>

text \<open>One constructor per function of the \<open>Keys\<close> interface that names a key or a channel.\<close>

datatype redis_key =
    Sess string | Node string | NodeLabels string | NodeSet
  | SessionLock string | WorkspaceLock string | LeaderLock string
  | Coalesce string | CoalesceLock string
  | AbortChannel string | AbortFlag string | ReloadChannel string | GateChannel string
  | EventsStream string | PanelLock string | PanelNotice string
  | PanelResumeChannel | PanelHoldChannel
  | TurnDone string | TurnSenders string | JobMoved string | Redispatch string
  | LabelUnservedSince

text \<open>\<open>sha\<close> is the hexadecimal SHA-256 of the resolved directory.\<close>

fun key_suffix :: "(string \<Rightarrow> string) \<Rightarrow> redis_key \<Rightarrow> string" where
  "key_suffix sha (Sess s) = ''sess:'' @ s"
| "key_suffix sha (Node n) = ''nodes:'' @ n"
| "key_suffix sha (NodeLabels n) = ''nodelabels:'' @ n"
| "key_suffix sha NodeSet = ''nodeset''"
| "key_suffix sha (SessionLock s) = ''lock:session:'' @ s"
| "key_suffix sha (WorkspaceLock d) = ''lock:workspace:'' @ take 32 (sha d)"
| "key_suffix sha (LeaderLock r) = ''lock:leader:'' @ r"
| "key_suffix sha (Coalesce s) = ''coalesce:'' @ s"
| "key_suffix sha (CoalesceLock s) = ''lock:coalesce:'' @ s"
| "key_suffix sha (AbortChannel s) = ''abort:'' @ s"
| "key_suffix sha (AbortFlag s) = ''abort-flag:'' @ s"
| "key_suffix sha (ReloadChannel t) = ''reload:'' @ t"
| "key_suffix sha (GateChannel p) = ''gate:'' @ p"
| "key_suffix sha (EventsStream s) = ''events:'' @ s"
| "key_suffix sha (PanelLock s) = ''panel:'' @ s"
| "key_suffix sha (PanelNotice s) = ''panel-notice:'' @ s"
| "key_suffix sha PanelResumeChannel = ''panel-resume''"
| "key_suffix sha PanelHoldChannel = ''panel-hold''"
| "key_suffix sha (TurnDone j) = ''turn-done:'' @ j"
| "key_suffix sha (TurnSenders j) = ''turn-senders:'' @ j"
| "key_suffix sha (JobMoved j) = ''job-moved:'' @ j"
| "key_suffix sha (Redispatch j) = ''redispatch:'' @ j"
| "key_suffix sha LabelUnservedSince = ''label-unserved-since''"

definition makeKeys :: "(string \<Rightarrow> string) \<Rightarrow> string \<Rightarrow> redis_key \<Rightarrow> string" where
  "makeKeys sha pfx k = pfx @ '':'' @ key_suffix sha k"

definition bullPrefix :: "string \<Rightarrow> string" where
  "bullPrefix pfx = pfx @ '':bull''"

definition redisPrefix :: "string option \<Rightarrow> string" where
  "redisPrefix env = (if truthy env then the env else ''slaude'')"

text \<open>The SCAN patterns, and what a glob that ends in its only star matches.\<close>

definition sessPattern :: "string \<Rightarrow> string" where
  "sessPattern pfx = pfx @ '':sess:*''"

definition nodePattern :: "string \<Rightarrow> string" where
  "nodePattern pfx = pfx @ '':nodes:*''"

definition star_matches :: "string \<Rightarrow> string \<Rightarrow> bool" where
  "star_matches pat s \<longleftrightarrow> starts_with s (butlast pat)"

section \<open>Injectivity\<close>

lemma lower_not_special:
  "is_lower c \<Longrightarrow> c \<noteq> CHR '':''" "is_digit c \<Longrightarrow> c \<noteq> CHR '':''"
  by (auto simp: is_lower_def is_digit_def)

lemma LABEL_RE_no_colon:
  assumes "LABEL_RE s"
  shows "CHR '':'' \<notin> set s"
  using assms by (auto simp: LABEL_RE_def label_tail_char_def list_all_iff is_lower_def is_digit_def
      split: list.splits)

lemma key_suffix_inj:
  "key_suffix sha k = key_suffix sha k' \<Longrightarrow>
     k = k' \<or> (\<exists>d d'. k = WorkspaceLock d \<and> k' = WorkspaceLock d' \<and> take 32 (sha d) = take 32 (sha d'))"
  by (cases k; cases k'; simp)

lemma makeKeys_eq_iff:
  "makeKeys sha pfx k = makeKeys sha pfx k' \<longleftrightarrow>
     k = k' \<or> (\<exists>d d'. k = WorkspaceLock d \<and> k' = WorkspaceLock d' \<and> take 32 (sha d) = take 32 (sha d'))"
  using key_suffix_inj [of sha k k'] by (auto simp: makeKeys_def)

lemma star_matches_sess:
  "star_matches (sessPattern pfx) (makeKeys sha pfx k) \<longleftrightarrow> (\<exists>s. k = Sess s)"
  by (cases k) (auto simp: star_matches_def sessPattern_def makeKeys_def butlast_append)

lemma star_matches_node:
  "star_matches (nodePattern pfx) (makeKeys sha pfx k) \<longleftrightarrow> (\<exists>s. k = Node s)"
  by (cases k) (auto simp: star_matches_def nodePattern_def makeKeys_def butlast_append)

text \<open>No two of the queue layer's keys or channels can be confused: two of them spell the same
  only when they are the same key, whatever ids they carry (ids may hold any characters, the
  separator included); the one exception is two directories whose truncated hashes collide. The
  SCAN patterns of sessions and nodes match exactly the keys of their own family.\<close>

theorem redis_keys_distinct:
  "(makeKeys sha pfx k = makeKeys sha pfx k' \<longleftrightarrow>
     k = k' \<or> (\<exists>d d'. k = WorkspaceLock d \<and> k' = WorkspaceLock d' \<and> take 32 (sha d) = take 32 (sha d')))
   \<and> (star_matches (sessPattern pfx) (makeKeys sha pfx k) \<longleftrightarrow> (\<exists>s. k = Sess s))
   \<and> (star_matches (nodePattern pfx) (makeKeys sha pfx k) \<longleftrightarrow> (\<exists>n. k = Node n))"
  by (simp only: makeKeys_eq_iff star_matches_sess star_matches_node simp_thms)

section \<open>Queues are disjoint\<close>

lemma labelTurnsQueue_inj:
  "labelTurnsQueue l = Some q \<Longrightarrow> labelTurnsQueue l' = Some q \<Longrightarrow> l = l'"
  by (auto simp: labelTurnsQueue_def LABEL_QUEUE_PREFIX_def split: if_splits)

lemma labelTurnsQueue_form:
  assumes "labelTurnsQueue l = Some q"
  shows "q = TURNS_QUEUE \<or> starts_with q LABEL_QUEUE_PREFIX"
  using assms by (auto simp: labelTurnsQueue_def split: if_splits)

lemma node_queue_not_turns: "nodeTurnsQueue n \<noteq> TURNS_QUEUE"
  by (simp add: nodeTurnsQueue_def TURNS_QUEUE_def)

text \<open>The queue of a label and the own queue of a node that passed the start-up check are never
  the same queue, two labels never share a queue, and every queue name is one BullMQ accepts (no
  colon in it).\<close>

theorem turn_queues_disjoint:
  assumes "labelTurnsQueue l = Some q"
  shows "(assertNodeIdUsable n \<longrightarrow> nodeTurnsQueue n \<noteq> q)
    \<and> (labelTurnsQueue l' = Some q \<longrightarrow> l' = l)
    \<and> CHR '':'' \<notin> set q \<and> CHR '':'' \<notin> set (nodeTurnsQueue n)"
proof -
  have "nodeTurnsQueue n \<noteq> q" if "assertNodeIdUsable n"
    using labelTurnsQueue_form [OF assms] that node_queue_not_turns [of n]
    by (auto simp: assertNodeIdUsable_def)
  moreover have "CHR '':'' \<notin> set q"
    using assms LABEL_RE_no_colon
    by (auto simp: labelTurnsQueue_def TURNS_QUEUE_def LABEL_QUEUE_PREFIX_def split: if_splits)
  moreover have "CHR '':'' \<notin> set (nodeTurnsQueue n)"
    by (auto simp: nodeTurnsQueue_def TURNS_QUEUE_def replace_char_def)
  ultimately show ?thesis using labelTurnsQueue_inj [OF _ assms] by blast
qed

theorem turn_queues_disjoint_witness:
  "nodeTurnsQueue ''gpu:1'' \<noteq> ''turns.label.gpu''"
proof -
  have l: "labelTurnsQueue ''gpu'' = Some ''turns.label.gpu''"
    by (simp add: labelTurnsQueue_def DEFAULT_LABEL_def LABEL_RE_def label_tail_char_def
        is_lower_def LABEL_QUEUE_PREFIX_def TURNS_QUEUE_def)
  have "assertNodeIdUsable ''gpu:1''"
    by (simp add: assertNodeIdUsable_def nodeTurnsQueue_def replace_char_def TURNS_QUEUE_def
        LABEL_QUEUE_PREFIX_def)
  with turn_queues_disjoint [OF l, of "''gpu:1''"] show ?thesis by blast
qed

end
