(* ===== verification/Locks.thy ===== *)
theory Locks
  imports Redis QueueKeys
begin

text \<open>
  The locks of \<^verbatim>\<open>src/queue/locks.ts\<close>: the atomic acquire, release and extend, the run of a
  function under a key lock with its background extender, and leader election. A worker and a
  contender are clients that act on one server in any interleaving, with time passing and other
  keys changing in between; the contract both satisfy (\<open>lease_client\<close>) is proved to make their
  leases exclusive once for both.
\<close>

section \<open>Atomic operations\<close>

definition acquireLock :: "('w, 'v) redis \<Rightarrow> string \<Rightarrow> 'v \<Rightarrow> int \<Rightarrow> 'w \<Rightarrow> bool \<times> 'w" where
  "acquireLock R key owner ttlMs w = rd_set_nx R key owner ttlMs w"

definition releaseLock :: "('w, 'v) redis \<Rightarrow> string \<Rightarrow> 'v \<Rightarrow> 'w \<Rightarrow> bool \<times> 'w" where
  "releaseLock R key owner w = (if rd_get R key w = Some owner then rd_del R key w else (False, w))"

definition extendLock :: "('w, 'v) redis \<Rightarrow> string \<Rightarrow> 'v \<Rightarrow> int \<Rightarrow> 'w \<Rightarrow> bool \<times> 'w" where
  "extendLock R key owner ttlMs w =
     (if rd_get R key w = Some owner then rd_pexpire R key ttlMs w else (False, w))"

lemma acquire_effect:
  assumes "redis_laws R" "acquireLock R k o1 ttl w = (ok, w')"
  shows "rd_now R w' = rd_now R w"
    and "ok \<longleftrightarrow> live R w k = None"
    and "ok \<Longrightarrow> rd_view R w' = (rd_view R w)(k \<mapsto> (o1, rd_now R w + ttl))"
    and "\<not> ok \<Longrightarrow> rd_view R w' = rd_view R w"
  using assms(2) redis_lawsD(4-6) [OF assms(1), of k o1 ttl w] by (auto simp: acquireLock_def)

lemma extend_effect:
  assumes "redis_laws R" "extendLock R k o1 ttl w = (ok, w')"
  shows "rd_now R w' = rd_now R w"
    and "ok \<longleftrightarrow> live R w k = Some o1"
    and "ok \<Longrightarrow> rd_view R w' = (rd_view R w)(k \<mapsto> (o1, rd_now R w + ttl))"
    and "\<not> ok \<Longrightarrow> rd_view R w' = rd_view R w"
proof -
  note laws = redis_lawsD [OF assms(1)]
  have p: "rd_pexpire R k ttl w = (fst (rd_pexpire R k ttl w), snd (rd_pexpire R k ttl w))" by simp
  show "rd_now R w' = rd_now R w" "ok \<longleftrightarrow> live R w k = Some o1"
    "ok \<Longrightarrow> rd_view R w' = (rd_view R w)(k \<mapsto> (o1, rd_now R w + ttl))"
    "\<not> ok \<Longrightarrow> rd_view R w' = rd_view R w"
    using assms(2) laws(1) [of k w] laws(10-12) [of k ttl w]
    by (auto simp: extendLock_def split: if_splits)
qed

lemma release_effect:
  assumes "redis_laws R" "releaseLock R k o1 w = (ok, w')"
  shows "rd_now R w' = rd_now R w"
    and "ok \<longleftrightarrow> live R w k = Some o1"
    and "rd_view R w' = (if ok then (rd_view R w)(k := None) else rd_view R w)"
proof -
  note laws = redis_lawsD [OF assms(1)]
  show "rd_now R w' = rd_now R w" "ok \<longleftrightarrow> live R w k = Some o1"
    "rd_view R w' = (if ok then (rd_view R w)(k := None) else rd_view R w)"
    using assms(2) laws(1) [of k w] laws(7-9) [of k w]
    by (auto simp: releaseLock_def split: if_splits)
qed

text \<open>What an owner's action may do to a key: nothing while another owner's value is live.\<close>

lemma live_other:
  assumes "rd_view R w k = Some (o2, d)" "rd_now R w < d"
  shows "live R w k = Some o2"
  using assms by (simp add: live_def)

lemma lock_ops_keep_foreign:
  assumes laws: "redis_laws R" and foreign: "rd_view R w k = Some (o2, d)" "rd_now R w < d" "o2 \<noteq> o1"
  shows "acquireLock R k o1 ttl w = (ok, w') \<Longrightarrow> rd_view R w' k = Some (o2, d)"
    and "extendLock R k o1 ttl w = (ok, w') \<Longrightarrow> rd_view R w' k = Some (o2, d)"
    and "releaseLock R k o1 w = (ok, w') \<Longrightarrow> rd_view R w' k = Some (o2, d)"
proof -
  have l: "live R w k = Some o2" using foreign(1,2) by (rule live_other)
  show "acquireLock R k o1 ttl w = (ok, w') \<Longrightarrow> rd_view R w' k = Some (o2, d)"
    using acquire_effect(2,4) [OF laws, of k o1 ttl w ok w'] l foreign(1) by simp
  show "extendLock R k o1 ttl w = (ok, w') \<Longrightarrow> rd_view R w' k = Some (o2, d)"
    using extend_effect(2,4) [OF laws, of k o1 ttl w ok w'] l foreign(1,3) by simp
  show "releaseLock R k o1 w = (ok, w') \<Longrightarrow> rd_view R w' k = Some (o2, d)"
    using release_effect(2,3) [OF laws, of k o1 w ok w'] l foreign(1,3) by simp
qed

section \<open>Leases\<close>

text \<open>The clients of one key: each owner's client record, beside the server. An owner acts
  (\<open>act\<close>), or time passes: the clock moves on, other keys change, and the server may drop the
  key once its deadline has passed. Owners are distinct identities.\<close>

definition env_move :: "('w, string) redis \<Rightarrow> string \<Rightarrow> 'w \<Rightarrow> 'w \<Rightarrow> bool" where
  "env_move R key w w' \<longleftrightarrow> rd_now R w \<le> rd_now R w' \<and>
     (rd_view R w' key = rd_view R w key
      \<or> (\<exists>v d. rd_view R w key = Some (v, d) \<and> d \<le> rd_now R w' \<and> rd_view R w' key = None))"

inductive lock_reach ::
  "(string \<Rightarrow> 'e \<Rightarrow> 'c \<times> 'w \<Rightarrow> 'c \<times> 'w) \<Rightarrow> ('w, string) redis \<Rightarrow> string \<Rightarrow> 'c \<Rightarrow> 'w
     \<Rightarrow> (string \<Rightarrow> 'c) \<Rightarrow> 'w \<Rightarrow> bool"
  for act R key idle w0 where
  lock_start: "lock_reach act R key idle w0 (\<lambda>_. idle) w0"
| lock_act: "lock_reach act R key idle w0 cs w \<Longrightarrow> act o1 e (cs o1, w) = (c', w')
    \<Longrightarrow> lock_reach act R key idle w0 (cs(o1 := c')) w'"
| lock_env: "lock_reach act R key idle w0 cs w \<Longrightarrow> env_move R key w w'
    \<Longrightarrow> lock_reach act R key idle w0 cs w'"

text \<open>A client believes it holds the key until one of its lease deadlines. The belief is backed
  when no deadline is further away than the time to live and, as long as a deadline has not passed,
  the key holds the owner's value for at least as long.\<close>

definition backed :: "('w, string) redis \<Rightarrow> string \<Rightarrow> int \<Rightarrow> string \<Rightarrow> int set \<Rightarrow> 'w \<Rightarrow> bool" where
  "backed R key ttl o1 ds w \<longleftrightarrow>
     (\<forall>d \<in> ds. d \<le> rd_now R w + ttl
        \<and> (rd_now R w < d \<longrightarrow> (\<exists>d'. rd_view R w key = Some (o1, d') \<and> d \<le> d')))"

text \<open>The contract of a lease client: its actions take no time on the server, never disturb a key
  that another owner holds, and keep its own belief backed.\<close>

locale lease_client =
  fixes act :: "('w, string) redis \<Rightarrow> string \<Rightarrow> int \<Rightarrow> string \<Rightarrow> 'e \<Rightarrow> 'c \<times> 'w \<Rightarrow> 'c \<times> 'w"
    and leases :: "'c \<Rightarrow> int set"
    and idle :: 'c
  assumes idle_leases: "leases idle = {}"
    and act_now: "redis_laws R \<Longrightarrow> act R key ttl o1 e (c, w) = (c', w') \<Longrightarrow> rd_now R w' = rd_now R w"
    and act_foreign: "redis_laws R \<Longrightarrow> act R key ttl o1 e (c, w) = (c', w')
      \<Longrightarrow> rd_view R w key = Some (o2, d) \<Longrightarrow> rd_now R w < d \<Longrightarrow> o2 \<noteq> o1
      \<Longrightarrow> rd_view R w' key = Some (o2, d)"
    and act_backed: "redis_laws R \<Longrightarrow> act R key ttl o1 e (c, w) = (c', w')
      \<Longrightarrow> backed R key ttl o1 (leases c) w \<Longrightarrow> backed R key ttl o1 (leases c') w'"
begin

lemma env_backed:
  assumes "env_move R key w w'" "backed R key ttl o1 ds w"
  shows "backed R key ttl o1 ds w'"
  using assms unfolding env_move_def backed_def by fastforce

lemma reach_backed:
  assumes laws: "redis_laws R" and reach: "lock_reach (act R key ttl) R key idle w0 cs w"
  shows "backed R key ttl o1 (leases (cs o1)) w"
  using reach
proof (induction arbitrary: o1 rule: lock_reach.induct)
  case lock_start
  then show ?case by (simp add: idle_leases backed_def)
next
  case (lock_act cs w o2 e c' w')
  note act = lock_act.hyps(2)
  show ?case
  proof (cases "o1 = o2")
    case True
    then show ?thesis using act_backed [OF laws act lock_act.IH] by simp
  next
    case False
    show ?thesis
      unfolding backed_def
    proof (intro ballI conjI impI)
      fix d assume "d \<in> leases ((cs(o2 := c')) o1)"
      with False show "d \<le> rd_now R w' + ttl"
        using act_now [OF laws act] lock_act.IH [of o1] by (simp add: backed_def)
    next
      fix d assume "d \<in> leases ((cs(o2 := c')) o1)" "rd_now R w' < d"
      with False have "d \<in> leases (cs o1)" "rd_now R w < d"
        using act_now [OF laws act] by simp_all
      then obtain d' where "rd_view R w key = Some (o1, d')" "d \<le> d'"
        using lock_act.IH [of o1] by (auto simp: backed_def)
      moreover have "rd_now R w < d'"
        using \<open>rd_now R w < d\<close> \<open>d \<le> d'\<close> by simp
      ultimately show "\<exists>d'. rd_view R w' key = Some (o1, d') \<and> d \<le> d'"
        using act_foreign [OF laws act] False by blast
    qed
  qed
next
  case (lock_env cs w w')
  show ?case by (rule env_backed [OF lock_env.hyps(2) lock_env.IH])
qed

lemma leases_exclusive:
  assumes "redis_laws R" "lock_reach (act R key ttl) R key idle w0 cs w"
    and "d1 \<in> leases (cs o1)" "rd_now R w < d1"
    and "d2 \<in> leases (cs o2)" "rd_now R w < d2"
  shows "o1 = o2"
  using reach_backed [OF assms(1,2), of o1] reach_backed [OF assms(1,2), of o2] assms(3-6)
  by (fastforce simp: backed_def)

end

section \<open>Running a function under a key lock\<close>

text \<open>How a call to the server ends for its caller: with the reply, or with an error before or
  after the server carried the command out.\<close>

datatype net = Reply | LostBefore | LostAfter

datatype worker_status = NotStarted | Rejected | HeldByOther | Running | Finished

text \<open>The signal passed to the function, the extender's timer, and (not in the code) the deadline
  of the last acquire or extend the worker knows of.\<close>

record worker =
  wk_status :: worker_status
  wk_aborted :: bool
  wk_extender :: bool
  wk_lease :: "int option"

datatype worker_event = WStart net | WExtend net | WReturn net

definition worker_idle :: worker where
  "worker_idle = \<lparr>wk_status = NotStarted, wk_aborted = False, wk_extender = False, wk_lease = None\<rparr>"

fun withKeyLock :: "('w, string) redis \<Rightarrow> string \<Rightarrow> int \<Rightarrow> string \<Rightarrow> worker_event
    \<Rightarrow> worker \<times> 'w \<Rightarrow> worker \<times> 'w" where
  "withKeyLock R key ttlMs o1 (WStart n) (c, w) =
     (if wk_status c \<noteq> NotStarted then (c, w)
      else case n of
        LostBefore \<Rightarrow> (c\<lparr>wk_status := Rejected\<rparr>, w)
      | LostAfter \<Rightarrow> (c\<lparr>wk_status := Rejected\<rparr>, snd (acquireLock R key o1 ttlMs w))
      | Reply \<Rightarrow>
          (case acquireLock R key o1 ttlMs w of (ok, w') \<Rightarrow>
             if ok then (c\<lparr>wk_status := Running, wk_extender := True,
                            wk_lease := Some (rd_now R w + ttlMs)\<rparr>, w')
             else (c\<lparr>wk_status := HeldByOther\<rparr>, w')))"
| "withKeyLock R key ttlMs o1 (WExtend n) (c, w) =
     (if wk_status c \<noteq> Running \<or> \<not> wk_extender c then (c, w)
      else case n of
        LostBefore \<Rightarrow> (c, w)
      | LostAfter \<Rightarrow> (c, snd (extendLock R key o1 ttlMs w))
      | Reply \<Rightarrow>
          (case extendLock R key o1 ttlMs w of (ok, w') \<Rightarrow>
             if ok then (c\<lparr>wk_lease := Some (rd_now R w + ttlMs)\<rparr>, w')
             else (c\<lparr>wk_extender := False, wk_aborted := True, wk_lease := None\<rparr>, w')))"
| "withKeyLock R key ttlMs o1 (WReturn n) (c, w) =
     (if wk_status c \<noteq> Running then (c, w)
      else (c\<lparr>wk_status := Finished, wk_extender := False, wk_lease := None\<rparr>,
            if n = LostBefore then w else snd (releaseLock R key o1 w)))"

definition worker_leases :: "worker \<Rightarrow> int set" where
  "worker_leases c = set_option (wk_lease c)"

definition withSessionLock :: "(string \<Rightarrow> string) \<Rightarrow> string \<Rightarrow> ('w, string) redis \<Rightarrow> string \<Rightarrow> int
    \<Rightarrow> string \<Rightarrow> worker_event \<Rightarrow> worker \<times> 'w \<Rightarrow> worker \<times> 'w" where
  "withSessionLock sha pfx R sessionId = withKeyLock R (makeKeys sha pfx (SessionLock sessionId))"

text \<open>The three ways a key changes under an owner's action, for both kinds of client.\<close>

definition touched :: "('w, string) redis \<Rightarrow> string \<Rightarrow> int \<Rightarrow> string \<Rightarrow> 'w \<Rightarrow> 'w \<Rightarrow> bool" where
  "touched R key ttl o1 w w' \<longleftrightarrow> rd_now R w' = rd_now R w \<and>
     (rd_view R w' = rd_view R w
      \<or> (live R w key = None \<or> live R w key = Some o1)
         \<and> rd_view R w' = (rd_view R w)(key \<mapsto> (o1, rd_now R w + ttl)))"

lemma touched_refl [simp]: "touched R key ttl o1 w w"
  by (simp add: touched_def)

lemma acquire_touched:
  "redis_laws R \<Longrightarrow> acquireLock R key o1 ttl w = (ok, w') \<Longrightarrow> touched R key ttl o1 w w'"
  using acquire_effect [of R key o1 ttl w ok w'] by (cases ok) (auto simp: touched_def)

lemma extend_touched:
  "redis_laws R \<Longrightarrow> extendLock R key o1 ttl w = (ok, w') \<Longrightarrow> touched R key ttl o1 w w'"
  using extend_effect [of R key o1 ttl w ok w'] by (cases ok) (auto simp: touched_def)

lemma touched_foreign:
  assumes "touched R key ttl o1 w w'" "rd_view R w key = Some (o2, d)" "rd_now R w < d" "o2 \<noteq> o1"
  shows "rd_view R w' key = Some (o2, d)"
  using assms live_other [OF assms(2,3)] by (auto simp: touched_def)

lemma touched_backed:
  assumes "touched R key ttl o1 w w'" "backed R key ttl o1 ds w"
  shows "backed R key ttl o1 ds w'"
  using assms unfolding touched_def backed_def by fastforce

text \<open>A claim made by a successful acquire or extend is backed.\<close>

lemma acquire_backed:
  assumes "redis_laws R" "acquireLock R key o1 ttl w = (True, w')"
  shows "backed R key ttl o1 {rd_now R w + ttl} w'"
  using acquire_effect [OF assms] by (simp add: backed_def)

lemma extend_backed:
  assumes "redis_laws R" "extendLock R key o1 ttl w = (True, w')"
  shows "backed R key ttl o1 {rd_now R w + ttl} w'"
  using extend_effect [OF assms] by (simp add: backed_def)

lemma backed_empty [simp]: "backed R key ttl o1 {} w"
  by (simp add: backed_def)

lemma backed_insert:
  "backed R key ttl o1 (insert d ds) w \<longleftrightarrow> backed R key ttl o1 {d} w \<and> backed R key ttl o1 ds w"
  by (auto simp: backed_def)

lemma backed_mono: "backed R key ttl o1 ds w \<Longrightarrow> ds' \<subseteq> ds \<Longrightarrow> backed R key ttl o1 ds' w"
  by (auto simp: backed_def)

text \<open>What one event of a worker does to the server: a touch, or (at the end) a release.\<close>

lemma snd_acquire_touched: "redis_laws R \<Longrightarrow> touched R key ttl o1 w (snd (acquireLock R key o1 ttl w))"
  by (rule acquire_touched [where ok = "fst (acquireLock R key o1 ttl w)"]) simp_all

lemma snd_extend_touched: "redis_laws R \<Longrightarrow> touched R key ttl o1 w (snd (extendLock R key o1 ttl w))"
  by (rule extend_touched [where ok = "fst (extendLock R key o1 ttl w)"]) simp_all

lemma withKeyLock_world:
  assumes laws: "redis_laws R" and step: "withKeyLock R key ttl o1 e (c, w) = (c', w')"
  shows "touched R key ttl o1 w w' \<or> (worker_leases c' = {} \<and> w' = snd (releaseLock R key o1 w))"
  using step snd_acquire_touched [OF laws, of key ttl o1 w] snd_extend_touched [OF laws, of key ttl o1 w]
  by (cases e) (auto simp: worker_leases_def split: if_splits net.splits prod.splits)

lemma release_now: "redis_laws R \<Longrightarrow> rd_now R (snd (releaseLock R key o1 w)) = rd_now R w"
  using release_effect(1) [of R key o1 w] by (metis prod.collapse)

lemma release_foreign:
  "redis_laws R \<Longrightarrow> rd_view R w key = Some (o2, d) \<Longrightarrow> rd_now R w < d \<Longrightarrow> o2 \<noteq> o1
    \<Longrightarrow> rd_view R (snd (releaseLock R key o1 w)) key = Some (o2, d)"
  using lock_ops_keep_foreign(3) [of R w key o2 d o1] by (metis prod.collapse)

lemma withKeyLock_claims:
  assumes laws: "redis_laws R" and step: "withKeyLock R key ttl o1 e (c, w) = (c', w')"
  shows "worker_leases c' \<subseteq> worker_leases c \<or> backed R key ttl o1 (worker_leases c') w'"
  using step acquire_backed [OF laws, of key o1 ttl w] extend_backed [OF laws, of key o1 ttl w]
  by (cases e) (auto simp: worker_leases_def split: if_splits net.splits prod.splits)

interpretation session_lock: lease_client withKeyLock worker_leases worker_idle
proof
  show "worker_leases worker_idle = {}"
    by (simp add: worker_leases_def worker_idle_def)
next
  fix R :: "('a, string) redis" and key ttl o1 e c and w :: 'a and c' w'
  assume laws: "redis_laws R" and step: "withKeyLock R key ttl o1 e (c, w) = (c', w')"
  note world = withKeyLock_world [OF laws step]
  show "rd_now R w' = rd_now R w"
    using world release_now [OF laws, of key o1 w] by (auto simp: touched_def)
  show "rd_view R w' key = Some (o2, d)"
    if "rd_view R w key = Some (o2, d)" "rd_now R w < d" "o2 \<noteq> o1" for o2 d
    using world touched_foreign [OF _ that] release_foreign [OF laws that] by auto
  show "backed R key ttl o1 (worker_leases c') w'" if "backed R key ttl o1 (worker_leases c) w"
    using withKeyLock_claims [OF laws step]
  proof
    assume sub: "worker_leases c' \<subseteq> worker_leases c"
    show ?thesis
      using world
    proof
      assume "touched R key ttl o1 w w'"
      from backed_mono [OF touched_backed [OF this that] sub] show ?thesis .
    qed simp
  qed
qed

lemma lease_is_live:
  assumes "redis_laws R" "lock_reach (withKeyLock R key ttl) R key worker_idle w0 cs w"
    and "wk_lease (cs o1) = Some d1" "rd_now R w < d1"
  shows "live R w key = Some o1"
  using session_lock.reach_backed [OF assms(1,2), of o1] assms(3,4)
  by (auto simp: backed_def worker_leases_def live_def)


text \<open>The witness: \<open>A\<close> takes the lock for 10 ms and is paused; its lease passes, \<open>B\<close> takes it.\<close>

definition two_workers :: "string \<Rightarrow> worker" where
  "two_workers = (\<lambda>_. worker_idle)
     (''A'' := worker_idle\<lparr>wk_status := Running, wk_extender := True, wk_lease := Some 10\<rparr>,
      ''B'' := worker_idle\<lparr>wk_status := Running, wk_extender := True, wk_lease := Some 22\<rparr>)"

abbreviation "example_key \<equiv> ''p:lock:session:s''"

lemma example_key: "makeKeys sha ''p'' (SessionLock ''s'') = example_key"
  by (simp add: makeKeys_def)

lemma two_workers_reach:
  "lock_reach (withSessionLock sha ''p'' mem_redis ''s'' 10) mem_redis (makeKeys sha ''p'' (SessionLock ''s''))
     worker_idle (0, Map.empty) two_workers (12, [example_key \<mapsto> (''B'', 22)])"
proof -
  let ?r = "lock_reach (withKeyLock mem_redis example_key 10) mem_redis example_key
     worker_idle (0, Map.empty)"
  let ?a = "worker_idle\<lparr>wk_status := Running, wk_extender := True, wk_lease := Some 10\<rparr>"
  have "?r (\<lambda>_. worker_idle) (0, Map.empty)"
    by (rule lock_start)
  then have "?r ((\<lambda>_. worker_idle)(''A'' := ?a)) (0, [example_key \<mapsto> (''A'', 10)])"
    by (rule lock_act [where e = "WStart Reply"])
      (simp add: worker_idle_def acquireLock_def mem_redis_def mem_live_def)
  then have "?r ((\<lambda>_. worker_idle)(''A'' := ?a)) (12, Map.empty)"
    by (rule lock_env) (simp add: env_move_def mem_redis_def)
  then have "?r ((\<lambda>_. worker_idle)(''A'' := ?a, ''B'' :=
      worker_idle\<lparr>wk_status := Running, wk_extender := True, wk_lease := Some 22\<rparr>))
      (12, [example_key \<mapsto> (''B'', 22)])"
    by (rule lock_act [where e = "WStart Reply"])
      (simp add: worker_idle_def acquireLock_def mem_redis_def mem_live_def)
  then show ?thesis by (simp add: withSessionLock_def example_key two_workers_def)
qed


section \<open>Leader election\<close>

text \<open>A contender of \<open>leaderLoop\<close>. Ticks of the timer may overlap: each sends an acquire or an
  extend, chosen when it starts; the server carries it out some time later, and the reply (or an
  error) arrives later still. \<open>lc_lease\<close> is the deadline of the last acquire or extend it knows of,
  \<open>lc_started\<close> counts the runs of \<open>fn\<close> and \<open>lc_signal\<close> says that the current signal is live.\<close>

datatype request = AcquireReq | ExtendReq

record contender =
  leader :: bool
  stopped :: bool
  lc_signal :: bool
  lc_started :: nat
  lc_lease :: "int option"
  lc_requests :: "(request \<times> (bool \<times> int) option) list"
  lc_release :: bool

datatype contender_event =
    LTick
  | LServe nat
  | LReply nat
  | LError nat
  | LStop bool
  | LStopped net

definition contender_idle :: contender where
  "contender_idle = \<lparr>leader = False, stopped = False, lc_signal = False, lc_started = 0,
     lc_lease = None, lc_requests = [], lc_release = False\<rparr>"

definition leader_ttl :: "int option \<Rightarrow> int" where
  "leader_ttl ttlMillis = max 100 (case ttlMillis of Some t \<Rightarrow> t | None \<Rightarrow> 30000)"

definition demote :: "contender \<Rightarrow> contender" where
  "demote c = c\<lparr>leader := False, lc_signal := False, lc_lease := None\<rparr>"

definition drop_nth :: "nat \<Rightarrow> 'a list \<Rightarrow> 'a list" where
  "drop_nth i xs = take i xs @ drop (Suc i) xs"

fun tick_reply :: "request \<Rightarrow> bool \<times> int \<Rightarrow> contender \<Rightarrow> contender" where
  "tick_reply AcquireReq (ok, d) c =
     (if ok then c\<lparr>leader := True, lc_signal := True, lc_started := Suc (lc_started c),
                   lc_lease := Some d\<rparr> else c)"
| "tick_reply ExtendReq (ok, d) c = (if ok then c\<lparr>lc_lease := Some d\<rparr> else demote c)"

fun leaderLoop :: "('w, string) redis \<Rightarrow> string \<Rightarrow> int \<Rightarrow> string \<Rightarrow> contender_event
    \<Rightarrow> contender \<times> 'w \<Rightarrow> contender \<times> 'w" where
  "leaderLoop R key ttlMs o1 LTick (c, w) =
     (if stopped c then (c, w)
      else (c\<lparr>lc_requests := lc_requests c @ [(if leader c then ExtendReq else AcquireReq, None)]\<rparr>, w))"
| "leaderLoop R key ttlMs o1 (LServe i) (c, w) =
     (if i < length (lc_requests c) \<and> snd (lc_requests c ! i) = None
      then case (if fst (lc_requests c ! i) = AcquireReq then acquireLock R key o1 ttlMs w
                 else extendLock R key o1 ttlMs w) of (ok, w') \<Rightarrow>
             (c\<lparr>lc_requests := (lc_requests c)[i := (fst (lc_requests c ! i), Some (ok, rd_now R w + ttlMs))]\<rparr>, w')
      else (c, w))"
| "leaderLoop R key ttlMs o1 (LReply i) (c, w) =
     (if i < length (lc_requests c)
      then case lc_requests c ! i of
             (q, Some r) \<Rightarrow> (tick_reply q r (c\<lparr>lc_requests := drop_nth i (lc_requests c)\<rparr>), w)
           | _ \<Rightarrow> (c, w)
      else (c, w))"
| "leaderLoop R key ttlMs o1 (LError i) (c, w) =
     (c\<lparr>lc_requests := drop_nth i (lc_requests c)\<rparr>, w)"
| "leaderLoop R key ttlMs o1 (LStop rel) (c, w) =
     ((demote c)\<lparr>stopped := True, lc_release := lc_release c \<or> (leader c \<and> rel)\<rparr>, w)"
| "leaderLoop R key ttlMs o1 (LStopped n) (c, w) =
     (if stopped c \<and> lc_release c
      then (c\<lparr>lc_release := False\<rparr>, if n = LostBefore then w else snd (releaseLock R key o1 w))
      else (c, w))"

text \<open>The deadlines a contender may act on: none once it was stopped; else the one it knows of, and
  those of successes whose reply has not arrived yet.\<close>

definition contender_leases :: "contender \<Rightarrow> int set" where
  "contender_leases c =
     (if stopped c then {}
      else set_option (lc_lease c) \<union> {d. \<exists>q. (q, Some (True, d)) \<in> set (lc_requests c)})"

lemma set_drop_nth: "set (drop_nth i xs) \<subseteq> set xs"
  by (auto simp: drop_nth_def dest: in_set_takeD in_set_dropD)

lemma demote_fields [simp]:
  "stopped (demote c) = stopped c" "lc_requests (demote c) = lc_requests c" "lc_lease (demote c) = None"
  "leader (demote c) = False" "lc_release (demote c) = lc_release c"
  by (simp_all add: demote_def)

lemma tick_reply_fields [simp]:
  "stopped (tick_reply q r c) = stopped c" "lc_requests (tick_reply q r c) = lc_requests c"
  by (cases "(q, r, c)" rule: tick_reply.cases; simp)+

lemma tick_reply_lease:
  "lc_lease (tick_reply q r c) = Some d \<Longrightarrow> lc_lease c = Some d \<or> r = (True, d)"
  by (cases "(q, r, c)" rule: tick_reply.cases) (auto split: if_splits)

lemma reply_leases:
  assumes "i < length (lc_requests c)" "lc_requests c ! i = (q, Some r)"
  shows "contender_leases (tick_reply q r (c\<lparr>lc_requests := drop_nth i (lc_requests c)\<rparr>))
    \<subseteq> contender_leases c"
proof
  fix d assume d: "d \<in> contender_leases (tick_reply q r (c\<lparr>lc_requests := drop_nth i (lc_requests c)\<rparr>))"
  have mem: "(q, Some r) \<in> set (lc_requests c)" using assms nth_mem by metis
  show "d \<in> contender_leases c"
    using d mem set_drop_nth [of i "lc_requests c"] tick_reply_lease
    by (fastforce simp: contender_leases_def split: if_splits)
qed

lemma serve_leases:
  assumes "i < length (lc_requests c)"
  shows "contender_leases (c\<lparr>lc_requests := (lc_requests c)[i := (q, Some (ok, d))]\<rparr>)
    \<subseteq> (if ok then insert d (contender_leases c) else contender_leases c)"
  using set_update_subset_insert [of "lc_requests c" i "(q, Some (ok, d))"]
  by (auto simp: contender_leases_def)

lemma leaderLoop_world:
  assumes laws: "redis_laws R" and step: "leaderLoop R key ttl o1 e (c, w) = (c', w')"
  shows "touched R key ttl o1 w w' \<or> (contender_leases c' = {} \<and> w' = snd (releaseLock R key o1 w))"
  using step acquire_touched [OF laws, of key o1 ttl w] extend_touched [OF laws, of key o1 ttl w]
  by (cases e) (auto simp: contender_leases_def split: if_splits prod.splits option.splits)

lemma leaderLoop_claims:
  assumes laws: "redis_laws R" and step: "leaderLoop R key ttl o1 e (c, w) = (c', w')"
  shows "contender_leases c' \<subseteq> contender_leases c
    \<or> (\<exists>d. contender_leases c' \<subseteq> insert d (contender_leases c) \<and> backed R key ttl o1 {d} w')"
proof (cases e)
  case (LServe i)
  show ?thesis
  proof (cases "i < length (lc_requests c) \<and> snd (lc_requests c ! i) = None")
    case True
    then obtain ok where ok: "(if fst (lc_requests c ! i) = AcquireReq then acquireLock R key o1 ttl w
          else extendLock R key o1 ttl w) = (ok, w')"
      and c': "c' = c\<lparr>lc_requests := (lc_requests c)
          [i := (fst (lc_requests c ! i), Some (ok, rd_now R w + ttl))]\<rparr>"
      using step LServe by (auto split: prod.splits)
    have "ok \<Longrightarrow> backed R key ttl o1 {rd_now R w + ttl} w'"
      using ok acquire_backed [OF laws] extend_backed [OF laws] by (auto split: if_splits)
    moreover have "contender_leases c' \<subseteq>
        (if ok then insert (rd_now R w + ttl) (contender_leases c) else contender_leases c)"
      unfolding c' by (rule serve_leases) (use True in simp)
    ultimately show ?thesis by (cases ok) auto
  qed (use step LServe in auto)
next
  case (LReply i)
  then show ?thesis
    using step reply_leases [of i c] by (auto split: if_splits prod.splits option.splits)
next
  case (LError i)
  then show ?thesis
    using step set_drop_nth [of i "lc_requests c"] by (auto simp: contender_leases_def)
qed (use step in \<open>auto simp: contender_leases_def split: if_splits\<close>)

interpretation election: lease_client leaderLoop contender_leases contender_idle
proof
  show "contender_leases contender_idle = {}"
    by (simp add: contender_leases_def contender_idle_def)
next
  fix R :: "('a, string) redis" and key ttl o1 e c and w :: 'a and c' w'
  assume laws: "redis_laws R" and step: "leaderLoop R key ttl o1 e (c, w) = (c', w')"
  note world = leaderLoop_world [OF laws step]
  show "rd_now R w' = rd_now R w"
    using world release_now [OF laws, of key o1 w] by (auto simp: touched_def)
  show "rd_view R w' key = Some (o2, d)"
    if "rd_view R w key = Some (o2, d)" "rd_now R w < d" "o2 \<noteq> o1" for o2 d
    using world touched_foreign [OF _ that] release_foreign [OF laws that] by auto
  show "backed R key ttl o1 (contender_leases c') w'" if b: "backed R key ttl o1 (contender_leases c) w"
  proof (cases "contender_leases c' = {}")
    case False
    with world have b': "backed R key ttl o1 (contender_leases c) w'"
      using touched_backed [OF _ b] by blast
    from leaderLoop_claims [OF laws step] show ?thesis
    proof (elim disjE exE conjE)
      fix d
      assume sub: "contender_leases c' \<subseteq> insert d (contender_leases c)" and "backed R key ttl o1 {d} w'"
      with b' have "backed R key ttl o1 (insert d (contender_leases c)) w'"
        by (subst backed_insert) simp
      then show ?thesis using sub by (rule backed_mono)
    qed (rule backed_mono [OF b'])
  qed simp
qed

text \<open>A contender that is leader and not stopped acts on the lease it knows of.\<close>

definition leader_ok :: "contender \<Rightarrow> bool" where
  "leader_ok c \<longleftrightarrow> (leader c \<longrightarrow> (\<exists>d. lc_lease c = Some d))"

lemma leaderLoop_ok: "leader_ok c \<Longrightarrow> leader_ok (fst (leaderLoop R key ttl o1 e (c, w)))"
proof (cases e)
  case (LReply i)
  assume c: "leader_ok c"
  show ?thesis
  proof (cases "i < length (lc_requests c)")
    case True
    obtain q r where qr: "lc_requests c ! i = (q, r)" by fastforce
    then show ?thesis
      using LReply True c by (cases r; cases q) (auto simp: leader_ok_def split: if_splits)
  qed (use LReply c in simp)
qed (auto simp: leader_ok_def split: if_splits prod.splits)

lemma reach_leader_ok:
  "lock_reach (leaderLoop R key ttl) R key contender_idle w0 cs w \<Longrightarrow> leader_ok (cs o1)"
proof (induction arbitrary: o1 rule: lock_reach.induct)
  case (lock_act cs w o2 e c' w')
  then show ?case using leaderLoop_ok [of "cs o2" R key ttl o2 e w] by auto
qed (auto simp: leader_ok_def contender_idle_def)

text \<open>C9: One leader per role: while a contender that was not stopped is leader within the lease it
  knows of, no other contender that was not stopped is leader within its own, whatever replies are
  late, lost or out of order; a leader always has a lease to judge by.\<close>

theorem leaders_exclusive:
  assumes "redis_laws R"
    and "lock_reach (leaderLoop R (makeKeys sha pfx (LeaderLock rl)) (leader_ttl ttlMillis)) R
           (makeKeys sha pfx (LeaderLock rl)) contender_idle w0 cs w"
    and "leader (cs o1)" "\<not> stopped (cs o1)" "\<not> stopped (cs o2)" "o1 \<noteq> o2"
  shows "\<exists>d1. lc_lease (cs o1) = Some d1 \<and>
    (rd_now R w < d1 \<longrightarrow> live R w (makeKeys sha pfx (LeaderLock rl)) = Some o1
       \<and> (\<forall>d2. lc_lease (cs o2) = Some d2 \<longrightarrow> d2 \<le> rd_now R w))"
proof -
  obtain d1 where d1: "lc_lease (cs o1) = Some d1"
    using reach_leader_ok [OF assms(2)] assms(3) unfolding leader_ok_def by blast
  then have l1: "d1 \<in> contender_leases (cs o1)"
    using assms(4) by (simp add: contender_leases_def)
  have "live R w (makeKeys sha pfx (LeaderLock rl)) = Some o1" if "rd_now R w < d1"
    using election.reach_backed [OF assms(1,2), of o1] l1 that
    by (auto simp: backed_def live_def)
  moreover have "d2 \<le> rd_now R w" if "rd_now R w < d1" "lc_lease (cs o2) = Some d2" for d2
    using election.leases_exclusive [OF assms(1,2) l1 that(1), of d2 o2] that(2) assms(5,6)
    by (force simp: contender_leases_def)
  ultimately show ?thesis using d1 by blast
qed

abbreviation "cron_key \<equiv> ''p:lock:leader:cron''"

definition won :: contender where
  "won = contender_idle\<lparr>leader := True, lc_signal := True, lc_started := 1, lc_lease := Some 30000\<rparr>"

lemma won_reach:
  "lock_reach (leaderLoop mem_redis cron_key (leader_ttl None)) mem_redis cron_key
     contender_idle (0, Map.empty) ((\<lambda>_. contender_idle)(''A'' := won)) (0, [cron_key \<mapsto> (''A'', 30000)])"
proof -
  let ?r = "lock_reach (leaderLoop mem_redis cron_key (leader_ttl None)) mem_redis cron_key
     contender_idle (0, Map.empty)"
  have "?r (\<lambda>_. contender_idle) (0, Map.empty)"
    by (rule lock_start)
  then have "?r ((\<lambda>_. contender_idle)(''A'' := contender_idle\<lparr>lc_requests := [(AcquireReq, None)]\<rparr>)) (0, Map.empty)"
    by (rule lock_act [where e = LTick]) (simp add: contender_idle_def)
  then have "?r ((\<lambda>_. contender_idle)(''A'' := contender_idle\<lparr>lc_requests := [(AcquireReq, Some (True, 30000))]\<rparr>))
      (0, [cron_key \<mapsto> (''A'', 30000)])"
    using lock_act [where e = "LServe 0" and ?o1.0 = "''A''" and act = "leaderLoop mem_redis cron_key (leader_ttl None)"]
    by (fastforce simp: contender_idle_def acquireLock_def mem_redis_def mem_live_def leader_ttl_def)
  then have "?r ((\<lambda>_. contender_idle)(''A'' := won)) (0, [cron_key \<mapsto> (''A'', 30000)])"
    using lock_act [where e = "LReply 0" and ?o1.0 = "''A''" and act = "leaderLoop mem_redis cron_key (leader_ttl None)"]
    by (fastforce simp: contender_idle_def won_def drop_nth_def)
  then show ?thesis .
qed

theorem leaders_exclusive_witness:
  "live mem_redis (0, [cron_key \<mapsto> (''A'', 30000)]) cron_key = Some ''A''"
proof -
  have k: "makeKeys (\<lambda>d. d) ''p'' (LeaderLock ''cron'') = cron_key"
    by (simp add: makeKeys_def)
  show ?thesis
    using leaders_exclusive [where sha = "\<lambda>d. d" and pfx = "''p''" and rl = "''cron''"
        and ?o1.0 = "''A''" and ?o2.0 = "''B''", unfolded k, OF mem_redis_laws won_reach]
    by (simp add: won_def contender_idle_def mem_redis_def)
qed

section \<open>A stop that crosses a late acquire\<close>

definition stop_race :: "contender_event list" where
  "stop_race = [LTick, LStop True, LServe 0, LReply 0, LStopped Reply]"

text \<open>\<open>stop\<close> while an acquire is on its way demotes nothing; the reply then makes the stopped
  contender leader with a live signal: \<open>fn\<close> runs, nothing renews the key and nothing will abort it.\<close>

theorem stopped_contender_becomes_leader:
  "let (c, w) = run_steps (\<lambda>s e. leaderLoop mem_redis cron_key 30000 ''A'' e s)
       (contender_idle, (0, Map.empty)) stop_race
   in stopped c \<and> leader c \<and> lc_signal c \<and> lc_started c = 1 \<and> live mem_redis w cron_key = Some ''A''"
  by (simp add: stop_race_def contender_idle_def demote_def acquireLock_def mem_redis_def mem_live_def
      drop_nth_def live_def)

end
