(* ===== verification/Turns.thy ===== *)
theory Turns
  imports Complex_Main QueueKeys
begin

text \<open>
  The payload of a turn job and the pure part of coalescing in \<^verbatim>\<open>src/queue/turns.ts\<close>: message and
  sender identity, merging without duplicates, and which of two jobs' messages go first.
\<close>

section \<open>Data\<close>

text \<open>\<open>tm_files\<close> stands for the opaque JSON of the attachments.\<close>

record turn_message =
  tm_ts :: string
  tm_user :: string
  tm_text :: string
  tm_files :: "string option"
  tm_suppress :: bool

record turn_sender =
  sd_userId :: string
  sd_teamId :: "string option"
  sd_origin :: "string option"

record wake_caps =
  wc_maxBudgetUsd :: "rat option"
  wc_maxTurns :: "nat option"
  wc_maxMinutes :: "rat option"

record turn_job =
  tj_sessionId :: string
  tj_tenantId :: string
  tj_personaId :: string
  tj_label :: "string option"
  tj_messages :: "turn_message list"
  tj_senders :: "turn_sender list option"
  tj_oauthUser :: "string option"
  tj_bgRun :: "string option"
  tj_wake :: "wake_caps option"
  tj_workspace :: "string option"
  tj_jobToken :: string
  tj_enqueuedAt :: int
  tj_relabelAttempts :: "nat option"

datatype turn_target = LabelTarget string | NodeTarget string | SharedTarget

definition jobLabel :: "turn_job \<Rightarrow> string" where
  "jobLabel job = (case tj_label job of Some l \<Rightarrow> l | None \<Rightarrow> DEFAULT_LABEL)"

definition attempts_of :: "turn_job \<Rightarrow> nat" where
  "attempts_of j = (case tj_relabelAttempts j of Some n \<Rightarrow> n | None \<Rightarrow> 0)"

definition maxAttempts :: "turn_job \<Rightarrow> turn_job \<Rightarrow> nat" where
  "maxAttempts a b = max (attempts_of a) (attempts_of b)"

section \<open>Identity and merging\<close>

definition or_empty :: "string option \<Rightarrow> string" where
  "or_empty x = (case x of Some s \<Rightarrow> s | None \<Rightarrow> [])"

definition senderKey :: "turn_sender \<Rightarrow> string" where
  "senderKey s = sd_userId s @ CHR 0x00 # or_empty (sd_teamId s) @ CHR 0x00 # or_empty (sd_origin s)"

definition mergeSenders :: "turn_sender list option \<Rightarrow> turn_sender list option \<Rightarrow> turn_sender list option" where
  "mergeSenders a b =
     (case (a, b) of
        (Some xs, Some ys) \<Rightarrow> Some (fresh_by senderKey [] (xs @ ys))
      | _ \<Rightarrow> None)"

definition msgKey :: "turn_message \<Rightarrow> string" where
  "msgKey m = tm_ts m @ CHR 0x00 # tm_user m @ CHR 0x00 # tm_text m"

definition newMessages :: "turn_message list \<Rightarrow> turn_message list \<Rightarrow> turn_message list" where
  "newMessages base extra = fresh_by msgKey (map msgKey base) extra"

text \<open>\<open>job\<close>'s claim of a job token: the payload is decoded and parsed by the runtime
  (\<open>payload_job\<close>, a parameter); a token that is not three parts, or without a non-empty claim, has
  none.\<close>

definition tokenJobId :: "(string \<Rightarrow> string option) \<Rightarrow> string \<Rightarrow> string option" where
  "tokenJobId payload_job token =
     (let parts = split_on CHR ''.'' token
      in if length parts \<noteq> 3 then None
         else case payload_job (parts ! 1) of
                Some j \<Rightarrow> if j \<noteq> [] then Some j else None
              | None \<Rightarrow> None)"

section \<open>Order of two jobs\<close>

definition all_digits :: "string \<Rightarrow> bool" where
  "all_digits s \<longleftrightarrow> s \<noteq> [] \<and> list_all is_digit s"

text \<open>\<open>padEnd(9, "0")\<close>.\<close>

definition pad9 :: "string \<Rightarrow> string" where
  "pad9 s = s @ replicate (9 - length s) CHR ''0''"

definition tsOrder :: "string \<Rightarrow> (nat \<times> nat) option" where
  "tsOrder ts =
     (case split_on CHR ''.'' ts of
        [a] \<Rightarrow> if all_digits a then Some (dec_val a, dec_val (pad9 [])) else None
      | [a, b] \<Rightarrow> if all_digits a \<and> all_digits b \<and> length b \<le> 9
                 then Some (dec_val a, dec_val (pad9 b)) else None
      | _ \<Rightarrow> None)"

definition earlier :: "nat \<times> nat \<Rightarrow> nat \<times> nat \<Rightarrow> bool" where
  "earlier a b \<longleftrightarrow> fst a < fst b \<or> (fst a = fst b \<and> snd a < snd b)"

text \<open>The loop of \<open>jobBirth\<close>: \<open>min\<close> so far, null at once when a message has no Slack ts.\<close>

fun birth_loop :: "(nat \<times> nat) option \<Rightarrow> turn_message list \<Rightarrow> (nat \<times> nat) option" where
  "birth_loop best [] = best"
| "birth_loop best (m # ms) =
     (case tsOrder (tm_ts m) of
        None \<Rightarrow> None
      | Some t \<Rightarrow> birth_loop (case best of None \<Rightarrow> Some t | Some b \<Rightarrow> if earlier t b then Some t else Some b) ms)"

definition jobBirth :: "turn_job \<Rightarrow> (nat \<times> nat) option" where
  "jobBirth job = birth_loop None (tj_messages job)"

definition mergesFirst :: "turn_job \<Rightarrow> turn_job \<Rightarrow> bool \<Rightarrow> bool" where
  "mergesFirst pending incoming hint =
     (case (jobBirth incoming, jobBirth pending) of
        (Some a, Some b) \<Rightarrow>
          if fst a \<noteq> fst b then fst a < fst b
          else if snd a \<noteq> snd b then snd a < snd b
          else hint
      | _ \<Rightarrow> hint)"

text \<open>The messages of an append in place, and of a relocated job.\<close>

definition appended_messages :: "turn_job \<Rightarrow> turn_job \<Rightarrow> bool \<Rightarrow> turn_message list" where
  "appended_messages prev job first =
     (let fresh = newMessages (tj_messages prev) (tj_messages job)
      in if mergesFirst prev job first then fresh @ tj_messages prev else tj_messages prev @ fresh)"

definition relocated_messages :: "turn_job \<Rightarrow> turn_job \<Rightarrow> bool \<Rightarrow> turn_message list" where
  "relocated_messages prev job first =
     (if mergesFirst prev job first
      then tj_messages job @ newMessages (tj_messages job) (tj_messages prev)
      else tj_messages prev @ newMessages (tj_messages prev) (tj_messages job))"

section \<open>Merging without duplicates\<close>

text \<open>The contract of an addition to a list whose elements are identified by a key: what is added
  comes from the new list, without repetitions, and its keys are exactly the missing ones.\<close>

locale keyed_union =
  fixes key :: "'a \<Rightarrow> 'k" and additions :: "'a list \<Rightarrow> 'a list \<Rightarrow> 'a list"
  assumes additions_subset: "set (additions base extra) \<subseteq> set extra"
    and additions_keys: "key ` set (additions base extra) = key ` set extra - key ` set base"
    and additions_distinct: "distinct (map key (additions base extra))"
    and additions_order: "subseq (additions base extra) extra"
begin

lemma union_keys: "key ` set base \<union> key ` set (additions base extra) = key ` set base \<union> key ` set extra"
  using additions_keys [of base extra] by blast

lemma union_distinct:
  "distinct (map key base) \<Longrightarrow> distinct (map key (base @ additions base extra))
     \<and> distinct (map key (additions base extra @ base))"
proof -
  assume d: "distinct (map key base)"
  have "set (map key base) \<inter> set (map key (additions base extra)) = {}"
    using additions_keys [of base extra] by simp
  with d additions_distinct [of base extra] show ?thesis
    unfolding map_append distinct_append by blast
qed

lemma nothing_missing:
  assumes "key ` set extra \<subseteq> key ` set base"
  shows "additions base extra = []"
proof -
  have "key ` set (additions base extra) = {}"
    unfolding additions_keys using assms by (simp only: Diff_eq_empty_iff)
  then show ?thesis by simp
qed

lemma redelivery: "additions (base @ additions base extra) extra = []"
proof (rule nothing_missing)
  show "key ` set extra \<subseteq> key ` set (base @ additions base extra)"
    unfolding set_append image_Un additions_keys Un_Diff_cancel by (rule Un_upper2)
qed

end

lemma keyed_union_fresh_by: "keyed_union key (\<lambda>base extra. fresh_by key (map key base) extra)"
  by unfold_locales (auto simp: set_fresh_by_subset [THEN subsetD] keys_fresh_by distinct_fresh_by subseq_fresh_by)

interpretation messages: keyed_union msgKey newMessages
  using keyed_union_fresh_by [of msgKey] by (simp add: newMessages_def [abs_def])

text \<open>The senders a merge adds to a list.\<close>

definition newSenders :: "turn_sender list \<Rightarrow> turn_sender list \<Rightarrow> turn_sender list" where
  "newSenders base extra = fresh_by senderKey (map senderKey base) extra"

interpretation senders: keyed_union senderKey newSenders
  using keyed_union_fresh_by [of senderKey] by (simp add: newSenders_def [abs_def])

lemma mergeSenders_known:
  assumes "distinct (map senderKey xs)"
  shows "mergeSenders (Some xs) (Some ys) = Some (xs @ newSenders xs ys)"
proof -
  have "fresh_by senderKey [] xs = xs"
    using assms by (intro fresh_by_idem) auto
  moreover have "fresh_by senderKey (rev (map senderKey xs) @ []) ys = newSenders xs ys"
    unfolding newSenders_def by (rule fresh_by_seen_cong) simp
  ultimately show ?thesis by (simp add: mergeSenders_def fresh_by_append)
qed

lemma mergeSenders_keys:
  "mergeSenders (Some xs) (Some ys) = Some zs \<Longrightarrow> senderKey ` set zs = senderKey ` set xs \<union> senderKey ` set ys"
  using keys_fresh_by [of senderKey "[]" "xs @ ys"] by (simp add: mergeSenders_def image_Un)

lemma mergeSenders_distinct: "mergeSenders a b = Some zs \<Longrightarrow> distinct (map senderKey zs)"
  by (auto simp: mergeSenders_def distinct_fresh_by split: option.splits)

lemma mergeSenders_None: "mergeSenders a b = None \<longleftrightarrow> a = None \<or> b = None"
  by (auto simp: mergeSenders_def split: option.splits)

section \<open>The order of a merge\<close>

lemma earlier_trans:
  "\<not> earlier t a \<Longrightarrow> \<not> earlier a b \<Longrightarrow> \<not> earlier t b"
  "earlier t a \<Longrightarrow> \<not> earlier t b \<Longrightarrow> \<not> earlier a b"
  by (auto simp: earlier_def)

lemma earlier_irrefl [simp]: "\<not> earlier a a"
  by (simp add: earlier_def)

lemma birth_loop_best:
  "birth_loop best ms = Some b \<Longrightarrow> (\<forall>m \<in> set ms. \<exists>t. tsOrder (tm_ts m) = Some t \<and> \<not> earlier t b)
     \<and> (\<forall>a. best = Some a \<longrightarrow> \<not> earlier a b)
     \<and> (best = Some b \<or> (\<exists>m \<in> set ms. tsOrder (tm_ts m) = Some b))"
proof (induction best ms rule: birth_loop.induct)
  case (2 best m ms)
  from 2(2) obtain t where t: "tsOrder (tm_ts m) = Some t"
    by (auto split: option.splits)
  let ?best = "case best of None \<Rightarrow> Some t | Some b \<Rightarrow> if earlier t b then Some t else Some b"
  have run: "birth_loop ?best ms = Some b" using 2(2) t by simp
  note ih = 2(1) [OF t run]
  obtain c where c: "?best = Some c"
      "c = t \<and> (\<forall>a. best = Some a \<longrightarrow> earlier t a) \<or> best = Some c \<and> \<not> earlier t c"
    by (cases best; cases "earlier t (the best)") fastforce+
  from ih c(1) have cb: "\<not> earlier c b" by blast
  have bt: "\<not> earlier t b"
    using c(2) cb earlier_trans(1) by blast
  moreover have "\<not> earlier a b" if "best = Some a" for a
    using c(2) that bt cb earlier_trans(2) by (metis option.inject)
  moreover have "best = Some b \<or> (\<exists>m \<in> set (m # ms). tsOrder (tm_ts m) = Some b)"
    using ih t by (cases best) (auto split: if_splits)
  moreover have "\<forall>m' \<in> set (m # ms). \<exists>t'. tsOrder (tm_ts m') = Some t' \<and> \<not> earlier t' b"
    using ih t bt by (simp del: split_paired_Ex)
  ultimately show ?case by blast
qed simp

text \<open>\<open>jobBirth\<close> is the earliest time stamp: it is one of the job's messages' and none is earlier.\<close>

theorem jobBirth_earliest:
  assumes "jobBirth job = Some b"
  shows "(\<exists>m \<in> set (tj_messages job). tsOrder (tm_ts m) = Some b)
    \<and> (\<forall>m \<in> set (tj_messages job). \<exists>t. tsOrder (tm_ts m) = Some t \<and> \<not> earlier t b)"
  using birth_loop_best [of None "tj_messages job" b] assms by (simp add: jobBirth_def)

definition msg :: "string \<Rightarrow> string \<Rightarrow> turn_message" where
  "msg ts t = \<lparr>tm_ts = ts, tm_user = ''U1'', tm_text = t, tm_files = None, tm_suppress = False\<rparr>"

definition job_of :: "turn_message list \<Rightarrow> turn_job" where
  "job_of ms = \<lparr>tj_sessionId = ''s'', tj_tenantId = ''t'', tj_personaId = ''p'', tj_label = None,
     tj_messages = ms, tj_senders = None, tj_oauthUser = None, tj_bgRun = None, tj_wake = None,
     tj_workspace = None, tj_jobToken = ''tok'', tj_enqueuedAt = 0, tj_relabelAttempts = None\<rparr>"

lemma zeros:
  "replicate 7 CHR ''0'' = ''0000000''" "replicate 8 CHR ''0'' = ''00000000''"
  "replicate 9 CHR ''0'' = ''000000000''"
  by (simp_all add: numeral_eq_Suc)

lemma example_births:
  "jobBirth (job_of [msg ''17.2'' ''a'', msg ''17.15'' ''b'']) = Some (17, 150000000)"
  "jobBirth (job_of [msg ''16'' ''c'']) = Some (16, 0)"
  by (simp_all add: jobBirth_def job_of_def msg_def tsOrder_def all_digits_def is_digit_def
      dec_val_def pad9_def digit_val_def earlier_def zeros)

theorem jobBirth_earliest_witness:
  "\<exists>m \<in> set (tj_messages (job_of [msg ''17.2'' ''a'', msg ''17.15'' ''b''])).
     tsOrder (tm_ts m) = Some (17, 150000000)"
  using jobBirth_earliest [OF example_births(1)] by blast

lemma mergesFirst_swap: "mergesFirst p i h \<longleftrightarrow> \<not> mergesFirst i p (\<not> h)"
  by (auto simp: mergesFirst_def split: option.splits)

lemma newMessages_disjoint:
  assumes "distinct (map msgKey extra)" "msgKey ` set base \<inter> msgKey ` set extra = {}"
  shows "newMessages base extra = extra"
  unfolding newMessages_def using assms by (intro fresh_by_idem) auto

text \<open>The order of a session's messages does not depend on which of two jobs reached the merge
  first: merging \<open>a\<close> into \<open>b\<close> and \<open>b\<close> into \<open>a\<close> gives the same list, in place or on relocation.\<close>

theorem merge_order_independent:
  assumes "distinct (map msgKey (tj_messages a))" "distinct (map msgKey (tj_messages b))"
    and "msgKey ` set (tj_messages a) \<inter> msgKey ` set (tj_messages b) = {}"
  shows "appended_messages a b h = appended_messages b a (\<not> h)
    \<and> relocated_messages a b h = appended_messages b a (\<not> h)"
proof -
  have ab: "newMessages (tj_messages a) (tj_messages b) = tj_messages b"
    and ba: "newMessages (tj_messages b) (tj_messages a) = tj_messages a"
    using newMessages_disjoint assms by (simp_all add: Int_commute)
  show ?thesis
    using mergesFirst_swap [of a b h]
    by (simp add: appended_messages_def relocated_messages_def Let_def ab ba)
qed

theorem merge_order_independent_witness:
  "appended_messages (job_of [msg ''17.2'' ''a'']) (job_of [msg ''16'' ''c'']) False
     = appended_messages (job_of [msg ''16'' ''c'']) (job_of [msg ''17.2'' ''a'']) True"
  using merge_order_independent [of "job_of [msg ''17.2'' ''a'']" "job_of [msg ''16'' ''c'']" False]
  by (simp add: job_of_def msg_def msgKey_def)

lemma appended_keys:
  "msgKey ` set (appended_messages a b h) = msgKey ` set (tj_messages a) \<union> msgKey ` set (tj_messages b)"
  using messages.union_keys [of "tj_messages a" "tj_messages b"]
  by (auto simp: appended_messages_def Let_def image_Un)

lemma relocated_keys:
  "msgKey ` set (relocated_messages a b h) = msgKey ` set (tj_messages a) \<union> msgKey ` set (tj_messages b)"
  using messages.union_keys [of "tj_messages a" "tj_messages b"] messages.union_keys [of "tj_messages b" "tj_messages a"]
  by (simp add: relocated_messages_def image_Un Un_commute)

text \<open>A merge loses nothing and repeats nothing: the merged job holds exactly the messages of the
  two (up to re-delivered copies), no message twice, in place or relocated, and merging the same
  job again adds nothing.\<close>

theorem merge_exact:
  assumes "distinct (map msgKey (tj_messages prev))" "distinct (map msgKey (tj_messages job))"
  shows "msgKey ` set (appended_messages prev job h) = msgKey ` set (tj_messages prev) \<union> msgKey ` set (tj_messages job)
    \<and> distinct (map msgKey (appended_messages prev job h))
    \<and> distinct (map msgKey (relocated_messages prev job h))
    \<and> msgKey ` set (relocated_messages prev job h) = msgKey ` set (appended_messages prev job h)
    \<and> newMessages (appended_messages prev job h) (tj_messages job) = []"
proof -
  have d: "distinct (map msgKey (appended_messages prev job h))"
    using messages.union_distinct [OF assms(1)] by (simp add: appended_messages_def Let_def)
  have r: "distinct (map msgKey (relocated_messages prev job h))"
    using messages.union_distinct [OF assms(1)] messages.union_distinct [OF assms(2)]
    by (simp add: relocated_messages_def)
  have n: "newMessages (appended_messages prev job h) (tj_messages job) = []"
    by (rule messages.nothing_missing) (simp add: appended_keys)
  show ?thesis
    using appended_keys relocated_keys d r n by simp
qed

theorem merge_exact_witness:
  "newMessages (appended_messages (job_of [msg ''1'' ''a'']) (job_of [msg ''1'' ''a'', msg ''2'' ''b'']) False)
     [msg ''1'' ''a'', msg ''2'' ''b''] = []"
  using merge_exact [of "job_of [msg ''1'' ''a'']" "job_of [msg ''1'' ''a'', msg ''2'' ''b'']" False]
  by (simp add: job_of_def msg_def msgKey_def)

end
