(* ===== verification/TurnStore.thy ===== *)
theory TurnStore
  imports Turns
begin

text \<open>
  What the turn queues ask of Redis and of BullMQ, and how their calls interleave with the workers.
  The server is a parameter: a function that answers a command on an opaque state. \<open>documented\<close>
  states the documented effect of every command on an observation of that state (the live keys and
  the jobs of every queue), and \<open>conforms\<close> says that a server has it; \<open>conforms\<close> is the named
  hypothesis of the theorems, and \<open>documented\<close> itself is the server of their witnesses. Workers
  act between any two commands (\<open>worker_move\<close>); a call that is never answered is a crash.
\<close>

section \<open>Observation\<close>

text \<open>A text stored at a key: a lock owner, the JSON of a \<open>{queue, jobId}\<close> reference, the JSON of a
  list of senders, or anything else.\<close>

datatype stored_text = OwnerText string | RefText string string | SendersText "turn_sender list" | OtherText string

datatype job_state = Waiting | Delayed | Prioritized | Paused | WaitingChildren
  | Active | Completed | FailedState | UnknownState

text \<open>A job in a queue. \<open>qj_claim\<close> (not in the code) is what the worker that holds the job read when
  it claimed it.\<close>

record queue_job =
  qj_state :: job_state
  qj_data :: turn_job
  qj_lock :: bool
  qj_claim :: "turn_message list option"

text \<open>Not in the code: \<open>qs_handled\<close>, the keys of the messages whose turn ran to its end, and
  \<open>qs_used\<close>, the job ids ever added.\<close>

record queue_obs =
  qs_keys :: "string \<Rightarrow> stored_text option"
  qs_jobs :: "string \<times> string \<Rightarrow> queue_job option"
  qs_handled :: "string set"
  qs_used :: "string set"

section \<open>Commands\<close>

datatype command =
    GetKey string
  | SetKey string stored_text int
  | SetKeyNX string stored_text int
  | DelKey string
  | DelIfOwner string string
  | PExpire string int
  | ExistsKey string
  | GetJob string string
  | GetState string string
  | AddJob string string bool turn_job
  | UpdateData string string turn_job
  | RemoveJob string string
  | PromoteJob string string
  | TakeUnclaimed string string string bool

datatype take_result = Missing | LockedByWorker | ClaimedAlready | TakenFrom job_state | DoneAlready

datatype answer =
    TextAnswer "stored_text option"
  | BoolAnswer bool
  | JobAnswer "turn_job option"
  | StateAnswer job_state
  | TakeAnswer take_result

definition pending_state :: "job_state \<Rightarrow> bool" where
  "pending_state st \<longleftrightarrow> st \<in> {Waiting, Delayed, Prioritized, Paused, WaitingChildren}"

text \<open>\<open>TAKE_UNCLAIMED_LUA\<close>, line by line over the job's key, its lock, the queue's lists and the
  turn-done marker. A job in the state of a list is a member of that list.\<close>

definition pull :: "job_state \<Rightarrow> queue_job \<Rightarrow> bool" where
  "pull st j \<longleftrightarrow> qj_state j = st"

definition take_unclaimed_lua ::
  "string \<times> string \<Rightarrow> string \<Rightarrow> bool \<Rightarrow> queue_obs \<Rightarrow> take_result \<times> queue_obs" where
  "take_unclaimed_lua loc doneKey rescue s =
     (case qs_jobs s loc of
        None \<Rightarrow> (Missing, s)
      | Some j \<Rightarrow>
          if qj_lock j then (LockedByWorker, s)
          else let from = (if pull Delayed j then Some Delayed
                           else if pull Prioritized j then Some Prioritized
                           else if pull Waiting j then Some Waiting
                           else if pull Paused j then Some Paused
                           else if rescue \<and> pull Active j then Some Active
                           else None)
               in case from of
                    None \<Rightarrow> (ClaimedAlready, s)
                  | Some st \<Rightarrow>
                      (if qs_keys s doneKey \<noteq> None then DoneAlready else TakenFrom st,
                       s\<lparr>qs_jobs := (qs_jobs s)(loc := None)\<rparr>))"

definition new_job :: "bool \<Rightarrow> turn_job \<Rightarrow> queue_job" where
  "new_job held d = \<lparr>qj_state = (if held then Delayed else Waiting), qj_data = d, qj_lock = False,
     qj_claim = None\<rparr>"

fun documented :: "command \<Rightarrow> queue_obs \<Rightarrow> answer \<times> queue_obs" where
  "documented (GetKey k) s = (TextAnswer (qs_keys s k), s)"
| "documented (SetKey k v px) s = (BoolAnswer True, s\<lparr>qs_keys := (qs_keys s)(k \<mapsto> v)\<rparr>)"
| "documented (SetKeyNX k v px) s =
     (if qs_keys s k = None then (BoolAnswer True, s\<lparr>qs_keys := (qs_keys s)(k \<mapsto> v)\<rparr>)
      else (BoolAnswer False, s))"
| "documented (DelKey k) s = (BoolAnswer (qs_keys s k \<noteq> None), s\<lparr>qs_keys := (qs_keys s)(k := None)\<rparr>)"
| "documented (DelIfOwner k owner) s =
     (if qs_keys s k = Some (OwnerText owner)
      then (BoolAnswer True, s\<lparr>qs_keys := (qs_keys s)(k := None)\<rparr>) else (BoolAnswer False, s))"
| "documented (PExpire k px) s = (BoolAnswer (qs_keys s k \<noteq> None), s)"
| "documented (ExistsKey k) s = (BoolAnswer (qs_keys s k \<noteq> None), s)"
| "documented (GetJob q i) s = (JobAnswer (map_option qj_data (qs_jobs s (q, i))), s)"
| "documented (GetState q i) s =
     (StateAnswer (case qs_jobs s (q, i) of Some j \<Rightarrow> qj_state j | None \<Rightarrow> UnknownState), s)"
| "documented (AddJob q i held d) s =
     (BoolAnswer (qs_jobs s (q, i) = None),
      if qs_jobs s (q, i) = None
      then s\<lparr>qs_jobs := (qs_jobs s)((q, i) \<mapsto> new_job held d), qs_used := insert i (qs_used s)\<rparr> else s)"
| "documented (UpdateData q i d) s =
     (case qs_jobs s (q, i) of
        None \<Rightarrow> (BoolAnswer False, s)
      | Some j \<Rightarrow> (BoolAnswer True, s\<lparr>qs_jobs := (qs_jobs s)((q, i) \<mapsto> j\<lparr>qj_data := d\<rparr>)\<rparr>))"
| "documented (RemoveJob q i) s =
     (case qs_jobs s (q, i) of
        None \<Rightarrow> (BoolAnswer False, s)
      | Some j \<Rightarrow> if qj_lock j then (BoolAnswer False, s)
                 else (BoolAnswer True, s\<lparr>qs_jobs := (qs_jobs s)((q, i) := None)\<rparr>))"
| "documented (PromoteJob q i) s =
     (case qs_jobs s (q, i) of
        None \<Rightarrow> (BoolAnswer False, s)
      | Some j \<Rightarrow> if qj_state j \<noteq> Delayed then (BoolAnswer False, s)
                 else (BoolAnswer True, s\<lparr>qs_jobs := (qs_jobs s)((q, i) \<mapsto> j\<lparr>qj_state := Waiting\<rparr>)\<rparr>))"
| "documented (TakeUnclaimed q i doneKey rescue) s =
     (case take_unclaimed_lua (q, i) doneKey rescue s of (r, s') \<Rightarrow> (TakeAnswer r, s'))"

type_synonym 'w server = "command \<Rightarrow> 'w \<Rightarrow> answer \<times> 'w"

definition conforms :: "'w server \<Rightarrow> ('w \<Rightarrow> queue_obs) \<Rightarrow> bool" where
  "conforms srv obs \<longleftrightarrow>
     (\<forall>c w. fst (srv c w) = fst (documented c (obs w)) \<and> obs (snd (srv c w)) = snd (documented c (obs w)))"

lemma conforms_documented: "conforms documented (\<lambda>s. s)"
  by (simp add: conforms_def)

fun text_of :: "answer \<Rightarrow> stored_text option" where
  "text_of (TextAnswer t) = t" | "text_of _ = None"

fun bool_of :: "answer \<Rightarrow> bool" where
  "bool_of (BoolAnswer b) = b" | "bool_of _ = False"

fun job_of_answer :: "answer \<Rightarrow> turn_job option" where
  "job_of_answer (JobAnswer j) = j" | "job_of_answer _ = None"

fun state_of :: "answer \<Rightarrow> job_state" where
  "state_of (StateAnswer st) = st" | "state_of _ = UnknownState"

fun take_of :: "answer \<Rightarrow> take_result" where
  "take_of (TakeAnswer r) = r" | "take_of _ = Missing"

section \<open>Programs\<close>

text \<open>A program issues commands one at a time; before each, the next move of the environment takes
  place. When the environment's moves are used up the process has crashed: no result. Errors thrown
  are values.\<close>

datatype queue_error = MissingJob | LockTimeout | MalformedLabel

type_synonym ('w, 'a) outcome = "(queue_error + 'a) option \<times> 'w \<times> ('w \<Rightarrow> 'w) list"
type_synonym ('w, 'a) program = "'w server \<Rightarrow> 'w \<Rightarrow> ('w \<Rightarrow> 'w) list \<Rightarrow> ('w, 'a) outcome"

definition return :: "'a \<Rightarrow> ('w, 'a) program" where
  "return a = (\<lambda>srv w es. (Some (Inr a), w, es))"

definition throw :: "queue_error \<Rightarrow> ('w, 'a) program" where
  "throw x = (\<lambda>srv w es. (Some (Inl x), w, es))"

definition crash :: "('w, 'a) program" where
  "crash = (\<lambda>srv w es. (None, w, es))"

definition call :: "command \<Rightarrow> ('w, answer) program" where
  "call c = (\<lambda>srv w es. case es of
       [] \<Rightarrow> (None, w, [])
     | e # es' \<Rightarrow> (case srv c (e w) of (r, w') \<Rightarrow> (Some (Inr r), w', es')))"

definition seq :: "('w, 'a) program \<Rightarrow> ('a \<Rightarrow> ('w, 'b) program) \<Rightarrow> ('w, 'b) program" where
  "seq p f = (\<lambda>srv w es. case p srv w es of
       (None, w', es') \<Rightarrow> (None, w', es')
     | (Some (Inl x), w', es') \<Rightarrow> (Some (Inl x), w', es')
     | (Some (Inr a), w', es') \<Rightarrow> f a srv w' es')"

text \<open>A command and the part of its answer the code reads. A command whose failure the code catches
  and ignores is asked with its answer dropped.\<close>

definition ask :: "(answer \<Rightarrow> 'a) \<Rightarrow> command \<Rightarrow> ('w, 'a) program" where
  "ask f c = seq (call c) (\<lambda>r. return (f r))"

definition tell :: "command \<Rightarrow> ('w, unit) program" where
  "tell c = ask (\<lambda>_. ()) c"

text \<open>\<open>try { p } finally { await c.catch(() => {}) }\<close>.\<close>

definition afterwards :: "('w, 'a) program \<Rightarrow> command \<Rightarrow> ('w, 'a) program" where
  "afterwards p c = (\<lambda>srv w es. case p srv w es of
       (None, w', es') \<Rightarrow> (None, w', es')
     | (Some r, w', es') \<Rightarrow> (case tell c srv w' es' of
           (None, w'', es'') \<Rightarrow> (None, w'', es'')
         | (Some _, w'', es'') \<Rightarrow> (Some r, w'', es'')))"

section \<open>What workers and others do\<close>

text \<open>\<open>D i\<close> is the key of job \<open>i\<close>'s turn-done marker; \<open>own\<close> are the job ids this call may add.
  Workers claim pending jobs, run their turn to its end (the marker is written at that moment),
  complete, fail, retry or stall; a lock may lapse; other gateways add jobs under other ids and
  change or expire keys that are no turn-done marker. Nobody else rewrites a job's data: appends to
  a session's job are serialised by its append lock.\<close>

inductive worker_move :: "(string \<Rightarrow> string) \<Rightarrow> string set \<Rightarrow> queue_obs \<Rightarrow> queue_obs \<Rightarrow> bool"
  for D own where
  mv_claim: "qs_jobs s (q, i) = Some j \<Longrightarrow> pending_state (qj_state j) \<Longrightarrow>
    worker_move D own s (s\<lparr>qs_jobs := (qs_jobs s)((q, i) \<mapsto>
      j\<lparr>qj_state := Active, qj_lock := True, qj_claim := Some (tj_messages (qj_data j))\<rparr>)\<rparr>)"
| mv_ran: "qs_jobs s (q, i) = Some j \<Longrightarrow> qj_state j = Active \<Longrightarrow> qj_claim j = Some ms \<Longrightarrow>
    worker_move D own s (s\<lparr>qs_keys := (qs_keys s)(D i \<mapsto> v),
      qs_handled := qs_handled s \<union> msgKey ` set ms\<rparr>)"
| mv_complete: "qs_jobs s (q, i) = Some j \<Longrightarrow> qj_state j = Active \<Longrightarrow> qs_keys s (D i) \<noteq> None \<Longrightarrow>
    worker_move D own s (s\<lparr>qs_jobs := (qs_jobs s)((q, i) \<mapsto>
      j\<lparr>qj_state := Completed, qj_lock := False, qj_claim := None\<rparr>)\<rparr>)"
| mv_fail: "qs_jobs s (q, i) = Some j \<Longrightarrow> qj_state j = Active \<Longrightarrow> qj_claim j = Some ms \<Longrightarrow>
    worker_move D own s (s\<lparr>qs_jobs := (qs_jobs s)((q, i) \<mapsto>
      j\<lparr>qj_state := FailedState, qj_lock := False, qj_claim := None\<rparr>),
      qs_handled := qs_handled s \<union> msgKey ` set ms\<rparr>)"
| mv_back: "qs_jobs s (q, i) = Some j \<Longrightarrow> qj_state j = Active \<Longrightarrow> pending_state st \<Longrightarrow>
    worker_move D own s (s\<lparr>qs_jobs := (qs_jobs s)((q, i) \<mapsto>
      j\<lparr>qj_state := st, qj_lock := False, qj_claim := None\<rparr>)\<rparr>)"
| mv_lock: "qs_jobs s (q, i) = Some j \<Longrightarrow>
    worker_move D own s (s\<lparr>qs_jobs := (qs_jobs s)((q, i) \<mapsto> j\<lparr>qj_lock := False\<rparr>)\<rparr>)"
| mv_due: "qs_jobs s (q, i) = Some j \<Longrightarrow> pending_state (qj_state j) \<Longrightarrow> pending_state st \<Longrightarrow>
    worker_move D own s (s\<lparr>qs_jobs := (qs_jobs s)((q, i) \<mapsto> j\<lparr>qj_state := st\<rparr>)\<rparr>)"
| mv_forget: "qs_jobs s (q, i) = Some j \<Longrightarrow> qj_state j \<in> {Completed, FailedState} \<Longrightarrow>
    worker_move D own s (s\<lparr>qs_jobs := (qs_jobs s)((q, i) := None)\<rparr>)"
| mv_key: "k \<notin> range D \<Longrightarrow> worker_move D own s (s\<lparr>qs_keys := (qs_keys s)(k := v)\<rparr>)"
| mv_add: "\<forall>q'. qs_jobs s (q', i) = None \<Longrightarrow> i \<notin> own \<Longrightarrow> i \<notin> qs_used s \<Longrightarrow>
    worker_move D own s (s\<lparr>qs_jobs := (qs_jobs s)((q, i) \<mapsto> new_job held d),
      qs_used := insert i (qs_used s)\<rparr>)"

definition environment :: "(string \<Rightarrow> string) \<Rightarrow> string set \<Rightarrow> ('w \<Rightarrow> queue_obs) \<Rightarrow> ('w \<Rightarrow> 'w) list \<Rightarrow> bool" where
  "environment D own obs es \<longleftrightarrow> (\<forall>e \<in> set es. \<forall>w. (worker_move D own)\<^sup>*\<^sup>* (obs w) (obs (e w)))"

section \<open>Coverage\<close>

abbreviation mkeys :: "turn_message list \<Rightarrow> string set" where
  "mkeys ms \<equiv> msgKey ` set ms"

text \<open>A message is covered by a job when its turn ran already, or the job has not run and will: it is
  pending and holds the message, or a worker that read the message holds it.\<close>

definition covers_at :: "(string \<Rightarrow> string) \<Rightarrow> queue_obs \<Rightarrow> string \<times> string \<Rightarrow> string \<Rightarrow> bool" where
  "covers_at D s loc m \<longleftrightarrow> m \<in> qs_handled s \<or>
     (\<exists>j. qs_jobs s loc = Some j \<and> qs_keys s (D (snd loc)) = None \<and> m \<in> mkeys (tj_messages (qj_data j))
        \<and> (pending_state (qj_state j)
           \<or> qj_state j = Active \<and> (\<exists>ms. qj_claim j = Some ms \<and> m \<in> mkeys ms)))"

text \<open>No id is in two queues, and every id in a queue was added.\<close>

definition unique_ids :: "queue_obs \<Rightarrow> bool" where
  "unique_ids s \<longleftrightarrow> (\<forall>q q' i. qs_jobs s (q, i) \<noteq> None \<longrightarrow> qs_jobs s (q', i) \<noteq> None \<longrightarrow> q = q')
     \<and> (\<forall>q i. qs_jobs s (q, i) \<noteq> None \<longrightarrow> i \<in> qs_used s)"

lemma unique_idsD: "unique_ids s \<Longrightarrow> qs_jobs s (q, i) = Some j \<Longrightarrow> qs_jobs s (q', i) = Some j' \<Longrightarrow> q = q'"
  by (auto simp: unique_ids_def)

lemma used_idsD: "unique_ids s \<Longrightarrow> qs_jobs s (q, i) = Some j \<Longrightarrow> i \<in> qs_used s"
  unfolding unique_ids_def by blast

lemma unique_ids_sub:
  "unique_ids s \<Longrightarrow> dom (qs_jobs s') \<subseteq> dom (qs_jobs s) \<Longrightarrow> qs_used s \<subseteq> qs_used s' \<Longrightarrow> unique_ids s'"
  unfolding unique_ids_def by (metis domIff subsetD)

lemma unique_ids_fresh:
  "unique_ids s \<Longrightarrow> \<forall>q'. qs_jobs s (q', i) = None \<Longrightarrow> qs_jobs s' = (qs_jobs s)((q, i) \<mapsto> j)
     \<Longrightarrow> qs_used s' = insert i (qs_used s) \<Longrightarrow> unique_ids s'"
  by (auto simp: unique_ids_def)

lemma move_unique: "worker_move D own s s' \<Longrightarrow> unique_ids s \<Longrightarrow> unique_ids s'"
proof (induction rule: worker_move.induct)
  case (mv_add s i q held d)
  show ?case by (rule unique_ids_fresh [OF mv_add(4,1)]) simp_all
qed (auto elim!: unique_ids_sub simp: dom_def split: if_splits)

lemma move_done: "worker_move D own s s' \<Longrightarrow> qs_keys s (D i) \<noteq> None \<Longrightarrow> qs_keys s' (D i) \<noteq> None"
  by (induction rule: worker_move.induct) auto

lemma pending_state_simps [simp]:
  "\<not> pending_state Active" "\<not> pending_state Completed" "\<not> pending_state FailedState"
  "\<not> pending_state UnknownState" "pending_state Waiting" "pending_state Delayed"
  "pending_state Prioritized" "pending_state Paused"
  by (simp_all add: pending_state_def)

lemma move_covers:
  assumes inj: "inj D" and move: "worker_move D own s s'" and uniq: "unique_ids s"
    and cov: "covers_at D s loc m"
  shows "covers_at D s' loc m"
  using move cov uniq
proof (induction rule: worker_move.induct)
  case (mv_ran s q i j ms v)
  show ?case
  proof (cases "m \<in> qs_handled s \<union> mkeys ms")
    case False
    then obtain j' where j': "qs_jobs s loc = Some j'" "qs_keys s (D (snd loc)) = None"
      "m \<in> mkeys (tj_messages (qj_data j'))"
      "pending_state (qj_state j') \<or> qj_state j' = Active \<and> (\<exists>ms. qj_claim j' = Some ms \<and> m \<in> mkeys ms)"
      using mv_ran.prems(1) by (auto simp: covers_at_def)
    have "snd loc \<noteq> i"
    proof
      assume "snd loc = i"
      then have "loc = (q, i)" using unique_idsD [OF mv_ran.prems(2)] mv_ran.hyps(1) j'(1)
        by (metis prod.collapse)
      with j' mv_ran.hyps False show False by auto
    qed
    then have "D (snd loc) \<noteq> D i" using inj by (auto dest: injD)
    with j' show ?thesis by (auto simp: covers_at_def)
  qed (auto simp: covers_at_def)
next
  case (mv_key k s v)
  then show ?case by (auto simp: covers_at_def)
qed (auto simp: covers_at_def split: if_splits)

section \<open>Reasoning\<close>

text \<open>Partial-correctness triples: from a state with \<open>P\<close>, with any environment, \<open>I\<close> holds wherever the
  program stops (its end, a throw or a crash), and \<open>Q\<close> holds of its result.\<close>

definition hoare :: "(string \<Rightarrow> string) \<Rightarrow> string set \<Rightarrow> (queue_obs \<Rightarrow> bool) \<Rightarrow> (queue_obs \<Rightarrow> bool)
    \<Rightarrow> ('w, 'a) program \<Rightarrow> ('a \<Rightarrow> queue_obs \<Rightarrow> bool) \<Rightarrow> bool" where
  "hoare D own I P p Q \<longleftrightarrow>
     (\<forall>srv obs w es r w' es'. conforms srv obs \<longrightarrow> environment D own obs es \<longrightarrow> P (obs w) \<longrightarrow>
        p srv w es = (r, w', es') \<longrightarrow>
        I (obs w') \<and> environment D own obs es' \<and> (\<forall>a. r = Some (Inr a) \<longrightarrow> Q a (obs w')))"

definition stable :: "(string \<Rightarrow> string) \<Rightarrow> string set \<Rightarrow> (queue_obs \<Rightarrow> bool) \<Rightarrow> bool" where
  "stable D own P \<longleftrightarrow> (\<forall>s s'. worker_move D own s s' \<longrightarrow> P s \<longrightarrow> P s')"

lemma stable_moves: "stable D own P \<Longrightarrow> (worker_move D own)\<^sup>*\<^sup>* s s' \<Longrightarrow> P s \<Longrightarrow> P s'"
  by (rotate_tac 1, induction rule: rtranclp.induct) (auto simp: stable_def)

lemma hoareD:
  assumes "hoare D own I P p Q" "conforms srv obs" "environment D own obs es" "P (obs w)"
    "p srv w es = (r, w', es')"
  shows "I (obs w')" "environment D own obs es'" "r = Some (Inr a) \<Longrightarrow> Q a (obs w')"
  using assms unfolding hoare_def by blast+

lemma hoare_return:
  assumes "\<And>s. P s \<Longrightarrow> I s" "\<And>s. P s \<Longrightarrow> Q a s"
  shows "hoare D own I P (return a) Q"
  using assms by (auto simp: hoare_def return_def)

lemma hoare_throw: "(\<And>s. P s \<Longrightarrow> I s) \<Longrightarrow> hoare D own I P (throw x) Q"
  by (auto simp: hoare_def throw_def)

lemma hoare_crash: "(\<And>s. P s \<Longrightarrow> I s) \<Longrightarrow> hoare D own I P crash Q"
  by (auto simp: hoare_def crash_def)

lemma hoare_call:
  assumes st: "stable D own P" and PI: "\<And>s. P s \<Longrightarrow> I s"
    and I': "\<And>s. P s \<Longrightarrow> I (snd (documented c s))"
    and Q: "\<And>s. P s \<Longrightarrow> Q (fst (documented c s)) (snd (documented c s))"
  shows "hoare D own I P (call c) Q"
  unfolding hoare_def
proof (intro allI impI)
  fix srv and obs :: "'a \<Rightarrow> queue_obs" and w es r w' es'
  assume conf: "conforms srv obs" and env: "environment D own obs es" and P: "P (obs w)"
    and run: "call c srv w es = (r, w', es')"
  show "I (obs w') \<and> environment D own obs es' \<and> (\<forall>a. r = Some (Inr a) \<longrightarrow> Q a (obs w'))"
  proof (cases es)
    case Nil
    with run env P PI show ?thesis by (auto simp: call_def)
  next
    case (Cons e es0)
    then have "P (obs (e w))"
      using stable_moves [OF st _ P] env by (simp add: environment_def)
    moreover have "r = Some (Inr (fst (srv c (e w))))" "w' = snd (srv c (e w))" "es' = es0"
      using run Cons by (auto simp: call_def split: prod.splits)
    ultimately show ?thesis
      using conf env Cons I' Q by (auto simp: conforms_def environment_def)
  qed
qed

lemma hoare_seq:
  assumes p: "hoare D own I P p R" and f: "\<And>a. hoare D own I (R a) (f a) Q"
  shows "hoare D own I P (seq p f) Q"
  unfolding hoare_def
proof (intro allI impI)
  fix srv and obs :: "'a \<Rightarrow> queue_obs" and w es r w' es'
  assume conf: "conforms srv obs" and env: "environment D own obs es" and P: "P (obs w)"
    and run: "seq p f srv w es = (r, w', es')"
  obtain r1 w1 es1 where r1: "p srv w es = (r1, w1, es1)" by (cases "p srv w es")
  note p1 = hoareD [OF p conf env P r1]
  show "I (obs w') \<and> environment D own obs es' \<and> (\<forall>a. r = Some (Inr a) \<longrightarrow> Q a (obs w'))"
  proof (cases "\<exists>a. r1 = Some (Inr a)")
    case True
    then obtain a where a: "r1 = Some (Inr a)" by blast
    then have "f a srv w1 es1 = (r, w', es')" using run r1 by (simp add: seq_def)
    from hoareD [OF f conf p1(2) p1(3) [OF a] this] show ?thesis by blast
  next
    case False
    then have "w' = w1 \<and> es' = es1 \<and> \<not> (\<exists>a. r = Some (Inr a))"
      using run r1 by (auto simp: seq_def split: option.splits sum.splits)
    then show ?thesis using p1 by blast
  qed
qed

lemma hoare_ask:
  assumes "stable D own P" "\<And>s. P s \<Longrightarrow> I s"
    and "\<And>s. P s \<Longrightarrow> I (snd (documented c s))"
    and "\<And>s. P s \<Longrightarrow> Q (f (fst (documented c s))) (snd (documented c s))"
  shows "hoare D own I P (ask f c) Q"
  unfolding ask_def
  by (rule hoare_seq [where R = "\<lambda>r s. I s \<and> Q (f r) s"], rule hoare_call)
    (use assms in \<open>auto intro: hoare_return\<close>)

lemmas hoare_tell = hoare_ask [where f = "\<lambda>_. ()", folded tell_def]

lemma hoare_conseq:
  assumes "hoare D own I P' p Q'" "\<And>s. P s \<Longrightarrow> P' s" "\<And>a s. I s \<Longrightarrow> Q' a s \<Longrightarrow> Q a s"
  shows "hoare D own I P p Q"
  using assms unfolding hoare_def by blast

lemma tell_no_throw: "tell c srv w es = (Some y, w', es') \<Longrightarrow> y = Inr ()"
  by (auto simp: tell_def ask_def seq_def call_def return_def split: list.splits prod.splits)

lemma hoare_afterwards:
  fixes p :: "('w, 'a) program"
  assumes p: "hoare D own I P p Q"
    and q: "\<And>R. R \<in> insert I (range Q) \<Longrightarrow> hoare D own I (\<lambda>s. I s \<and> R s) (tell c :: ('w, unit) program) (\<lambda>_. R)"
  shows "hoare D own I P (afterwards p c) Q"
  unfolding hoare_def
proof (intro allI impI)
  fix srv and obs :: "'w \<Rightarrow> queue_obs" and w es r w' es'
  assume conf: "conforms srv obs" and env: "environment D own obs es" and P: "P (obs w)"
    and run: "afterwards p c srv w es = (r, w', es')"
  obtain r1 w1 es1 where r1: "p srv w es = (r1, w1, es1)" by (cases "p srv w es")
  note p1 = hoareD [OF p conf env P r1]
  show "I (obs w') \<and> environment D own obs es' \<and> (\<forall>a. r = Some (Inr a) \<longrightarrow> Q a (obs w'))"
  proof (cases r1)
    case None
    with run r1 p1 show ?thesis by (auto simp: afterwards_def)
  next
    case (Some x)
    obtain r2 w2 es2 where r2: "tell c srv w1 es1 = (r2, w2, es2)" by (cases "tell c srv w1 es1")
    have out: "w' = w2" "es' = es2" "r = None \<or> r = Some x \<and> r2 \<noteq> None"
      using run r1 r2 Some by (auto simp: afterwards_def split: option.splits)
    have qI: "hoare D own I (\<lambda>s. I s \<and> I s) (tell c :: ('w, unit) program) (\<lambda>_. I)" by (rule q) simp
    note base = hoareD(1,2) [OF qI conf p1(2) _ r2]
    have "Q a (obs w')" if ra: "r = Some (Inr a)" for a
    proof -
      have qa: "hoare D own I (\<lambda>s. I s \<and> Q a s) (tell c :: ('w, unit) program) (\<lambda>_. Q a)" by (rule q) simp
      have "r1 = Some (Inr a)" using ra out(3) Some by simp
      then have "I (obs w1) \<and> Q a (obs w1)" using p1(1) p1(3) by simp
      moreover obtain y where "r2 = Some y" using ra out(3) by (cases r2) auto
      moreover have "y = Inr ()" using tell_no_throw [of c srv w1 es1 y w2 es2] r2 \<open>r2 = Some y\<close> by simp
      ultimately show ?thesis using hoareD(3) [OF qa conf p1(2) _ r2] out(1) by simp
    qed
    then show ?thesis using base p1(1) out by simp
  qed
qed

end
