(* ===== verification/TurnQueues.thy ===== *)
theory TurnQueues
  imports TurnStore
begin

text \<open>
  The methods of \<open>TurnQueues\<close> in \<^verbatim>\<open>src/queue/turns.ts\<close> as programs: enqueueing with coalescing,
  relocation, the held-copy swap, moves of a job to a label's queue, and re-dispatch. \<open>K\<close> spells
  the Redis keys (\<open>makeKeys\<close>), \<open>pj\<close> reads the \<open>job\<close> claim of a token's payload, and the random ids
  are arguments.
\<close>

section \<open>Constants and results\<close>

definition COALESCE_TTL_MS :: int where "COALESCE_TTL_MS = 600000"
definition MOVED_TTL_MS :: int where "MOVED_TTL_MS = 3600000"
definition REDISPATCH_TTL_MS :: int where "REDISPATCH_TTL_MS = 30000"
definition SENDERS_TTL_MS :: int where "SENDERS_TTL_MS = 86400000"

record enqueue_result =
  er_jobId :: string
  er_queue :: string
  er_coalesced :: bool

definition result :: "string \<Rightarrow> string \<Rightarrow> bool \<Rightarrow> enqueue_result" where
  "result i q c = \<lparr>er_jobId = i, er_queue = q, er_coalesced = c\<rparr>"

datatype take_outcome = Taken | TookDone | Refused
datatype swap_outcome = Moved | SwapDone | SwapRefused

fun parse_ref :: "stored_text option \<Rightarrow> (string \<times> string) option" where
  "parse_ref (Some (RefText q i)) = Some (q, i)"
| "parse_ref _ = None"

type_synonym keys = "redis_key \<Rightarrow> string"
type_synonym payload = "string \<Rightarrow> string option"

section \<open>Markers and records\<close>

definition turnRan :: "keys \<Rightarrow> string \<Rightarrow> ('w, bool) program" where
  "turnRan K i = ask bool_of (ExistsKey (K (TurnDone i)))"

definition senders_key :: "keys \<Rightarrow> payload \<Rightarrow> string \<Rightarrow> string \<Rightarrow> string" where
  "senders_key K pj token fallbackId =
     K (TurnSenders (case tokenJobId pj token of Some j \<Rightarrow> j | None \<Rightarrow> fallbackId))"

definition recordSenders :: "keys \<Rightarrow> payload \<Rightarrow> string \<Rightarrow> string \<Rightarrow> turn_sender list option \<Rightarrow> ('w, unit) program" where
  "recordSenders K pj token fallbackId senders =
     (case senders of
        None \<Rightarrow> tell (DelKey (senders_key K pj token fallbackId))
      | Some ss \<Rightarrow> tell (SetKey (senders_key K pj token fallbackId) (SendersText ss) SENDERS_TTL_MS))"

definition forgetSenders :: "keys \<Rightarrow> payload \<Rightarrow> string \<Rightarrow> string \<Rightarrow> ('w, unit) program" where
  "forgetSenders K pj token fallbackId = tell (DelKey (senders_key K pj token fallbackId))"

definition turnSenders :: "keys \<Rightarrow> string \<Rightarrow> ('w, turn_sender list option) program" where
  "turnSenders K jobId =
     ask (\<lambda>r. case text_of r of Some (SendersText ss) \<Rightarrow> Some ss | _ \<Rightarrow> None) (GetKey (K (TurnSenders jobId)))"

definition markMoved :: "keys \<Rightarrow> string \<Rightarrow> string \<Rightarrow> string \<Rightarrow> ('w, unit) program" where
  "markMoved K fromId q i = tell (SetKey (K (JobMoved fromId)) (RefText q i) MOVED_TTL_MS)"

definition movedTo :: "keys \<Rightarrow> string \<Rightarrow> ('w, (string \<times> string) option) program" where
  "movedTo K jobId = ask (\<lambda>r. parse_ref (text_of r)) (GetKey (K (JobMoved jobId)))"

section \<open>Taking and swapping\<close>

definition take_outcome_of :: "take_result \<Rightarrow> take_outcome" where
  "take_outcome_of r =
     (case r of
        DoneAlready \<Rightarrow> TookDone
      | TakenFrom st \<Rightarrow> if st \<in> {Delayed, Prioritized, Waiting, Paused, Active} then Taken else Refused
      | _ \<Rightarrow> Refused)"

definition take_job :: "keys \<Rightarrow> string \<Rightarrow> string \<Rightarrow> bool \<Rightarrow> ('w, take_outcome) program" where
  "take_job K q i rescueActive =
     ask (\<lambda>r. take_outcome_of (take_of r)) (TakeUnclaimed q i (K (TurnDone i)) rescueActive)"

text \<open>After the take: a refused or finished original drops the copy and the marker, else the copy is
  promoted.\<close>

definition swap_rest :: "keys \<Rightarrow> string \<Rightarrow> string \<Rightarrow> string \<Rightarrow> take_outcome \<Rightarrow> ('w, swap_outcome) program" where
  "swap_rest K i0 target i took =
     (if took = Taken then seq (tell (PromoteJob target i)) (\<lambda>_. return Moved)
      else seq (tell (RemoveJob target i)) (\<lambda>_.
           seq (tell (DelKey (K (JobMoved i0)))) (\<lambda>_.
           return (if took = TookDone then SwapDone else SwapRefused))))"

definition swap :: "keys \<Rightarrow> string \<Rightarrow> string \<Rightarrow> string \<Rightarrow> turn_job \<Rightarrow> string \<Rightarrow> bool \<Rightarrow> ('w, swap_outcome) program" where
  "swap K q0 i0 target data i rescueActive =
     seq (tell (AddJob target i True data)) (\<lambda>_.
     seq (markMoved K i0 target i) (\<lambda>_.
     seq (take_job K q0 i0 rescueActive) (\<lambda>took. swap_rest K i0 target i took)))"

section \<open>Enqueueing\<close>

definition min_enqueued :: "turn_job \<Rightarrow> turn_job \<Rightarrow> int" where
  "min_enqueued prev job = min (tj_enqueuedAt prev) (tj_enqueuedAt job)"

definition with_attempts :: "nat \<Rightarrow> turn_job \<Rightarrow> turn_job" where
  "with_attempts n j = (if n > 0 then j\<lparr>tj_relabelAttempts := Some n\<rparr> else j)"

definition merged_in_place :: "turn_job \<Rightarrow> turn_job \<Rightarrow> bool \<Rightarrow> turn_job" where
  "merged_in_place prev job first =
     with_attempts (maxAttempts prev job)
       (prev\<lparr>tj_senders := (if newMessages (tj_messages prev) (tj_messages job) \<noteq> []
                             then mergeSenders (tj_senders prev) (tj_senders job) else tj_senders prev),
             tj_messages := appended_messages prev job first,
             tj_enqueuedAt := min_enqueued prev job\<rparr>)"

definition merged_relocated :: "turn_job \<Rightarrow> turn_job \<Rightarrow> bool \<Rightarrow> turn_job" where
  "merged_relocated prev job first =
     with_attempts (maxAttempts prev job)
       (job\<lparr>tj_messages := relocated_messages prev job first,
            tj_senders := mergeSenders (tj_senders prev) (tj_senders job),
            tj_enqueuedAt := min_enqueued prev job\<rparr>)"

definition relocate :: "keys \<Rightarrow> payload \<Rightarrow> string \<Rightarrow> string \<Rightarrow> turn_job \<Rightarrow> turn_job \<Rightarrow> string \<Rightarrow> string \<Rightarrow> string
    \<Rightarrow> bool \<Rightarrow> ('w, enqueue_result option) program" where
  "relocate K pj rq ri prev job ckey wq wid first =
     (let merged = merged_relocated prev job first
      in seq (recordSenders K pj (tj_jobToken merged) wid (tj_senders merged)) (\<lambda>_.
         seq (swap K rq ri wq merged wid False) (\<lambda>out.
           if out \<noteq> Moved then return None
           else seq (tell (SetKey ckey (RefText wq wid) COALESCE_TTL_MS)) (\<lambda>_.
                return (Some (result wid wq True))))))"

text \<open>The claim race after an update: the append counts only while the job is pending and its turn has
  not run.\<close>

definition settle_append :: "keys \<Rightarrow> string \<Rightarrow> string \<Rightarrow> string \<Rightarrow> ('w, enqueue_result option) program" where
  "settle_append K rq ri ckey =
     seq (ask state_of (GetState rq ri)) (\<lambda>st.
       if \<not> pending_state st then return None
       else seq (turnRan K ri) (\<lambda>ran.
         if ran then return None
         else seq (tell (PExpire ckey COALESCE_TTL_MS)) (\<lambda>_. return (Some (result ri rq True)))))"

definition append_in_place :: "keys \<Rightarrow> payload \<Rightarrow> string \<Rightarrow> string \<Rightarrow> turn_job \<Rightarrow> turn_job \<Rightarrow> string \<Rightarrow> bool
    \<Rightarrow> ('w, enqueue_result option) program" where
  "append_in_place K pj rq ri prev job ckey first =
     (if newMessages (tj_messages prev) (tj_messages job) = [] \<and> maxAttempts prev job = attempts_of prev
      then seq (tell (PExpire ckey COALESCE_TTL_MS)) (\<lambda>_. return (Some (result ri rq True)))
      else seq (recordSenders K pj (tj_jobToken prev) ri (tj_senders (merged_in_place prev job first))) (\<lambda>_.
           seq (ask bool_of (UpdateData rq ri (merged_in_place prev job first))) (\<lambda>updated.
             if \<not> updated then throw MissingJob else settle_append K rq ri ckey)))"

text \<open>\<open>want\<close> is the queue this enqueue computed with the id for a relocated job; a pending job on
  another queue, of another label, is relocated.\<close>

definition must_relocate :: "string \<Rightarrow> turn_job \<Rightarrow> turn_job \<Rightarrow> (string \<times> string) option \<Rightarrow> bool" where
  "must_relocate rq prev job want \<longleftrightarrow>
     (case want of Some (wq, wid) \<Rightarrow> rq \<noteq> wq \<and> jobLabel prev \<noteq> jobLabel job | None \<Rightarrow> False)"

definition append_pending :: "keys \<Rightarrow> payload \<Rightarrow> string \<Rightarrow> string \<Rightarrow> turn_job \<Rightarrow> string \<Rightarrow> turn_job
    \<Rightarrow> (string \<times> string) option \<Rightarrow> bool \<Rightarrow> ('w, enqueue_result option) program" where
  "append_pending K pj rq ri prev ckey job want first =
     seq (ask state_of (GetState rq ri)) (\<lambda>st.
       if \<not> pending_state st then return None
       else seq (turnRan K ri) (\<lambda>ran.
         if ran then return None
         else if must_relocate rq prev job want
         then relocate K pj rq ri prev job ckey (fst (the want)) (snd (the want)) first
         else append_in_place K pj rq ri prev job ckey first))"

definition tryAppend :: "keys \<Rightarrow> payload \<Rightarrow> string \<Rightarrow> turn_job \<Rightarrow> (string \<times> string) option \<Rightarrow> bool
    \<Rightarrow> ('w, enqueue_result option) program" where
  "tryAppend K pj ckey job want first =
     seq (ask (\<lambda>r. parse_ref (text_of r)) (GetKey ckey)) (\<lambda>ref.
       case ref of None \<Rightarrow> return None
       | Some loc \<Rightarrow>
           seq (ask job_of_answer (GetJob (fst loc) (snd loc))) (\<lambda>pending.
             case pending of None \<Rightarrow> return None
             | Some prev \<Rightarrow> append_pending K pj (fst loc) (snd loc) prev ckey job want first))"

definition addFresh :: "keys \<Rightarrow> payload \<Rightarrow> turn_job \<Rightarrow> string \<Rightarrow> string \<Rightarrow> string \<Rightarrow> ('w, enqueue_result) program" where
  "addFresh K pj job qname ckey jobId =
     seq (tell (SetKey ckey (RefText qname jobId) COALESCE_TTL_MS)) (\<lambda>_.
     seq (recordSenders K pj (tj_jobToken job) jobId (tj_senders job)) (\<lambda>_.
     seq (tell (AddJob qname jobId False job)) (\<lambda>_.
     return (result jobId qname False))))"

text \<open>The spin on the append lock: one attempt per element, which says whether the clock read after
  a failed attempt is past the deadline; the process stops when its attempts are used up.\<close>

fun acquireAppendLock :: "string \<Rightarrow> string \<Rightarrow> bool list \<Rightarrow> ('w, unit) program" where
  "acquireAppendLock lockKey owner [] = crash"
| "acquireAppendLock lockKey owner (late # rest) =
     seq (ask bool_of (SetKeyNX lockKey (OwnerText owner) 2000)) (\<lambda>ok.
       if ok then return ()
       else if late then throw LockTimeout
       else acquireAppendLock lockKey owner rest)"

definition queueName :: "turn_target \<Rightarrow> string option" where
  "queueName target =
     (case target of
        SharedTarget \<Rightarrow> Some TURNS_QUEUE
      | NodeTarget n \<Rightarrow> Some (nodeTurnsQueue n)
      | LabelTarget l \<Rightarrow> labelTurnsQueue l)"

text \<open>\<open>presetId\<close> is the id the dispatcher minted; \<open>uuid1\<close> and \<open>uuid2\<close> are drawn without it.\<close>

definition enqueueTurn :: "keys \<Rightarrow> payload \<Rightarrow> turn_job \<Rightarrow> turn_target \<Rightarrow> string option \<Rightarrow> bool
    \<Rightarrow> string \<Rightarrow> string \<Rightarrow> string \<Rightarrow> bool list \<Rightarrow> ('w, enqueue_result) program" where
  "enqueueTurn K pj job target presetId first owner uuid1 uuid2 late =
     (case queueName target of
        None \<Rightarrow> throw MalformedLabel
      | Some qname \<Rightarrow>
          let ckey = K (Coalesce (tj_sessionId job));
              lockKey = K (CoalesceLock (tj_sessionId job));
              id1 = (case presetId of Some i \<Rightarrow> i | None \<Rightarrow> uuid1);
              id2 = (case presetId of Some i \<Rightarrow> i | None \<Rightarrow> uuid2)
          in seq (acquireAppendLock lockKey owner late) (\<lambda>_.
             afterwards
               (seq (tryAppend K pj ckey job (Some (qname, id1)) first) (\<lambda>appended.
                  case appended of
                    Some r \<Rightarrow> return r
                  | None \<Rightarrow> addFresh K pj job qname ckey id2))
               (DelIfOwner lockKey owner)))"

definition hasPending :: "keys \<Rightarrow> string \<Rightarrow> ('w, bool) program" where
  "hasPending K sessionId =
     seq (ask (\<lambda>r. parse_ref (text_of r)) (GetKey (K (Coalesce sessionId)))) (\<lambda>ref.
       case ref of None \<Rightarrow> return False
       | Some (rq, ri) \<Rightarrow>
           seq (ask job_of_answer (GetJob rq ri)) (\<lambda>pending.
             case pending of None \<Rightarrow> return False
             | Some _ \<Rightarrow>
                 seq (ask state_of (GetState rq ri)) (\<lambda>st.
                   if \<not> pending_state st then return False
                   else seq (turnRan K ri) (\<lambda>ran. return (\<not> ran)))))"

section \<open>Re-dispatch and moves\<close>

definition redispatch :: "keys \<Rightarrow> payload \<Rightarrow> string \<Rightarrow> turn_job \<Rightarrow> string \<Rightarrow> string \<Rightarrow> string \<Rightarrow> string \<Rightarrow> string
    \<Rightarrow> bool list \<Rightarrow> ('w, enqueue_result option) program" where
  "redispatch K pj failedJobId job label newJobId owner uuid1 uuid2 late =
     seq (ask bool_of (SetKeyNX (K (Redispatch failedJobId)) (OtherText newJobId) REDISPATCH_TTL_MS)) (\<lambda>won.
       if \<not> won then return None
       else seq (enqueueTurn K pj job (LabelTarget label) (Some newJobId) True owner uuid1 uuid2 late) (\<lambda>res.
            seq (markMoved K failedJobId (er_queue res) (er_jobId res)) (\<lambda>_. return (Some res))))"

definition moveIntoIndexed :: "keys \<Rightarrow> payload \<Rightarrow> string \<Rightarrow> string \<Rightarrow> turn_job \<Rightarrow> string \<Rightarrow> string \<Rightarrow> bool
    \<Rightarrow> ('w, enqueue_result option) program" where
  "moveIntoIndexed K pj q i data ckey holdId rescueActive =
     seq (ask (\<lambda>r. parse_ref (text_of r)) (GetKey ckey)) (\<lambda>ref.
       case ref of None \<Rightarrow> return None
       | Some (rq, ri) \<Rightarrow>
           if ri = i \<and> rq = q then return None
           else seq (ask job_of_answer (GetJob rq ri)) (\<lambda>other.
             case other of None \<Rightarrow> return None
             | Some _ \<Rightarrow>
                 seq (ask state_of (GetState rq ri)) (\<lambda>st.
                   if \<not> pending_state st then return None
                   else
                     seq (tell (AddJob rq holdId True data)) (\<lambda>_.
                     seq (markMoved K i rq holdId) (\<lambda>_.
                     seq (take_job K q i rescueActive) (\<lambda>took.
                       if took \<noteq> Taken
                       then seq (tell (RemoveJob rq holdId)) (\<lambda>_.
                            seq (tell (DelKey (K (JobMoved i)))) (\<lambda>_.
                            return (Some (result i q False))))
                       else
                         seq (tryAppend K pj ckey data None True) (\<lambda>appended.
                           case appended of
                             Some a \<Rightarrow>
                               seq (take_job K rq holdId False) (\<lambda>_.
                               seq (markMoved K holdId (er_queue a) (er_jobId a)) (\<lambda>_.
                               seq (markMoved K i (er_queue a) (er_jobId a)) (\<lambda>_.
                               return (Some a))))
                           | None \<Rightarrow>
                               seq (tell (PromoteJob rq holdId)) (\<lambda>_.
                               seq (tell (SetKey ckey (RefText rq holdId) COALESCE_TTL_MS)) (\<lambda>_.
                               return (Some (result holdId rq False)))))))))))"

text \<open>The branch of \<open>moveTo\<close> under the lock for a job its caller's worker holds: append elsewhere, or
  add a copy on the target; the caller completes the original.\<close>

definition move_claimed :: "keys \<Rightarrow> payload \<Rightarrow> string \<Rightarrow> string \<Rightarrow> turn_job \<Rightarrow> string \<Rightarrow> string
    \<Rightarrow> ('w, enqueue_result) program" where
  "move_claimed K pj from i data ckey target =
     seq (ask (\<lambda>r. parse_ref (text_of r)) (GetKey ckey)) (\<lambda>ref.
     seq (if ref \<noteq> None \<and> ref \<noteq> Some (from, i) then tryAppend K pj ckey data None True else return None) (\<lambda>appended.
       case appended of
         Some a \<Rightarrow> seq (markMoved K i (er_queue a) (er_jobId a)) (\<lambda>_. return a)
       | None \<Rightarrow>
           seq (addFresh K pj data target ckey i) (\<lambda>res.
           seq (markMoved K i target i) (\<lambda>_. return res))))"

definition move_unclaimed :: "keys \<Rightarrow> payload \<Rightarrow> string \<Rightarrow> string \<Rightarrow> turn_job \<Rightarrow> string \<Rightarrow> string \<Rightarrow> string \<Rightarrow> bool
    \<Rightarrow> ('w, enqueue_result) program" where
  "move_unclaimed K pj from i data ckey target holdId rescueActive =
     seq (moveIntoIndexed K pj from i data ckey holdId rescueActive) (\<lambda>appended.
       case appended of
         Some a \<Rightarrow> return a
       | None \<Rightarrow>
           seq (swap K from i target data i rescueActive) (\<lambda>out.
             if out \<noteq> Moved then return (result i from False)
             else seq (tell (SetKey ckey (RefText target i) COALESCE_TTL_MS)) (\<lambda>_.
                  return (result i target False))))"

text \<open>\<open>moveTo\<close> under the lock, once the job-moved marker does not send the job away.\<close>

definition move_unmoved :: "keys \<Rightarrow> payload \<Rightarrow> string \<Rightarrow> string \<Rightarrow> turn_job \<Rightarrow> string \<Rightarrow> string \<Rightarrow> bool \<Rightarrow> bool
    \<Rightarrow> string \<Rightarrow> ('w, enqueue_result) program" where
  "move_unmoved K pj from i read ckey target claimed rescueActive holdId =
     seq (ask job_of_answer (GetJob target i)) (\<lambda>there.
       if there \<noteq> None then seq (markMoved K i target i) (\<lambda>_. return (result i target False))
       else if claimed then move_claimed K pj from i read ckey target
       else seq (ask job_of_answer (GetJob from i)) (\<lambda>current.
              case current of
                None \<Rightarrow> return (result i from False)
              | Some data \<Rightarrow> move_unclaimed K pj from i data ckey target holdId rescueActive))"

definition moveTo :: "keys \<Rightarrow> payload \<Rightarrow> string \<Rightarrow> string \<Rightarrow> turn_job \<Rightarrow> string \<Rightarrow> bool \<Rightarrow> bool
    \<Rightarrow> string \<Rightarrow> string \<Rightarrow> bool list \<Rightarrow> ('w, enqueue_result) program" where
  "moveTo K pj from i read label claimed rescueActive owner holdId late =
     (case labelTurnsQueue label of
        None \<Rightarrow> throw MalformedLabel
      | Some target \<Rightarrow>
          if from = target then return (result i target False)
          else let ckey = K (Coalesce (tj_sessionId read));
                   lockKey = K (CoalesceLock (tj_sessionId read))
          in seq (acquireAppendLock lockKey owner late) (\<lambda>_.
             afterwards
               (seq (movedTo K i) (\<lambda>moved.
                  case moved of
                    Some (mq, mi) \<Rightarrow>
                      if mq \<noteq> from then return (result mi mq False)
                      else move_unmoved K pj from i read ckey target claimed rescueActive holdId
                  | None \<Rightarrow> move_unmoved K pj from i read ckey target claimed rescueActive holdId))
               (DelIfOwner lockKey owner)))"

end
