(* ===== verification/TurnSafety.thy ===== *)
theory TurnSafety
  imports TurnQueues
begin

text \<open>
  No message of a session is lost by coalescing (\<^verbatim>\<open>src/queue/turns.ts\<close>): the safety of
  \<open>enqueueTurn\<close> against every interleaving with workers and every crash point. Triples are taken
  over states in which no job id is in two queues; their assertions are built from coverage,
  the data of a job, fresh ids and the turn-done marker, each of which workers preserve.
\<close>

section \<open>Assertions that workers preserve\<close>

named_theorems steady \<open>assertions that worker moves preserve\<close>
named_theorems core_intros \<open>assertions that do not look at other keys than the turn-done markers\<close>

definition ustable :: "(string \<Rightarrow> string) \<Rightarrow> string set \<Rightarrow> (queue_obs \<Rightarrow> bool) \<Rightarrow> bool" where
  "ustable D own A \<longleftrightarrow> (\<forall>s s'. worker_move D own s s' \<longrightarrow> unique_ids s \<longrightarrow> A s \<longrightarrow> A s')"

definition core :: "(string \<Rightarrow> string) \<Rightarrow> (queue_obs \<Rightarrow> bool) \<Rightarrow> bool" where
  "core D A \<longleftrightarrow> (\<forall>s s'. qs_jobs s' = qs_jobs s \<longrightarrow> qs_handled s' = qs_handled s \<longrightarrow> qs_used s' = qs_used s
     \<longrightarrow> (\<forall>i. qs_keys s' (D i) = qs_keys s (D i)) \<longrightarrow> A s \<longrightarrow> A s')"

definition data_is :: "string \<times> string \<Rightarrow> turn_job \<Rightarrow> queue_obs \<Rightarrow> bool" where
  "data_is loc d s \<longleftrightarrow> snd loc \<in> qs_used s \<and> (\<forall>j. qs_jobs s loc = Some j \<longrightarrow> qj_data j = d)"

definition fresh_id :: "(string \<Rightarrow> string) \<Rightarrow> string \<Rightarrow> queue_obs \<Rightarrow> bool" where
  "fresh_id D i s \<longleftrightarrow> (\<forall>q. qs_jobs s (q, i) = None) \<and> qs_keys s (D i) = None"

definition covered :: "(string \<Rightarrow> string) \<Rightarrow> string set \<Rightarrow> queue_obs \<Rightarrow> bool" where
  "covered D M s \<longleftrightarrow> (\<forall>m \<in> M. \<exists>loc. covers_at D s loc m)"

definition covered_by :: "(string \<Rightarrow> string) \<Rightarrow> string \<times> string \<Rightarrow> string set \<Rightarrow> queue_obs \<Rightarrow> bool" where
  "covered_by D loc M s \<longleftrightarrow> (\<forall>m \<in> M. covers_at D s loc m)"

text \<open>Covered without the help of one job, and covered by a job unless its turn ran.\<close>

definition covered_off :: "(string \<Rightarrow> string) \<Rightarrow> string \<times> string \<Rightarrow> string set \<Rightarrow> queue_obs \<Rightarrow> bool" where
  "covered_off D loc M s \<longleftrightarrow> (\<forall>m \<in> M. \<exists>l. l \<noteq> loc \<and> covers_at D s l m)"

definition covered_or_done :: "(string \<Rightarrow> string) \<Rightarrow> string \<times> string \<Rightarrow> string set \<Rightarrow> queue_obs \<Rightarrow> bool" where
  "covered_or_done D loc M s \<longleftrightarrow> (\<forall>m \<in> M. covers_at D s loc m \<or> qs_keys s (D (snd loc)) \<noteq> None)"

lemma steady_conj [steady]: "ustable D own A \<Longrightarrow> ustable D own B \<Longrightarrow> ustable D own (\<lambda>s. A s \<and> B s)"
  by (auto simp: ustable_def)

lemma steady_disj [steady]: "ustable D own A \<Longrightarrow> ustable D own B \<Longrightarrow> ustable D own (\<lambda>s. A s \<or> B s)"
  by (auto simp: ustable_def)

lemma steady_const [steady]: "ustable D own (\<lambda>s. b)"
  by (auto simp: ustable_def)

lemma steady_imp [steady]: "(b \<Longrightarrow> ustable D own A) \<Longrightarrow> ustable D own (\<lambda>s. b \<longrightarrow> A s)"
  by (auto simp: ustable_def)

lemma steady_covered [steady]: "inj D \<Longrightarrow> ustable D own (covered D M)"
  unfolding ustable_def covered_def using move_covers by blast

lemma steady_covered_by [steady]: "inj D \<Longrightarrow> ustable D own (covered_by D loc M)"
  unfolding ustable_def covered_by_def using move_covers by blast

lemma steady_covered_off [steady]: "inj D \<Longrightarrow> ustable D own (covered_off D loc M)"
  unfolding ustable_def covered_off_def using move_covers by blast

lemma steady_covered_or_done [steady]: "inj D \<Longrightarrow> ustable D own (covered_or_done D loc M)"
  unfolding ustable_def covered_or_done_def using move_covers move_done by blast

lemma steady_data [steady]: "ustable D own (data_is loc d)"
  unfolding ustable_def
proof (intro allI impI)
  fix s s' assume "worker_move D own s s'" "unique_ids s" "data_is loc d s"
  then show "data_is loc d s'"
    by (induction rule: worker_move.induct) (auto simp: data_is_def split: if_splits)
qed

lemma steady_fresh [steady]: "inj D \<Longrightarrow> i \<in> own \<Longrightarrow> ustable D own (fresh_id D i)"
  unfolding ustable_def
proof (intro allI impI)
  fix s s' assume "inj D" "i \<in> own" "worker_move D own s s'" "unique_ids s" "fresh_id D i s"
  from this(3,5,1,2) show "fresh_id D i s'"
    by (induction rule: worker_move.induct) (auto simp: fresh_id_def dest: injD)
qed

lemma core_conj [core_intros]: "core D A \<Longrightarrow> core D B \<Longrightarrow> core D (\<lambda>s. A s \<and> B s)"
  by (simp add: core_def)

lemma core_disj [core_intros]: "core D A \<Longrightarrow> core D B \<Longrightarrow> core D (\<lambda>s. A s \<or> B s)"
  unfolding core_def by blast

lemma core_imp [core_intros]: "(b \<Longrightarrow> core D A) \<Longrightarrow> core D (\<lambda>s. b \<longrightarrow> A s)"
  unfolding core_def by blast

lemma core_const [core_intros]: "core D (\<lambda>s. b)"
  by (simp add: core_def)

lemma core_via:
  assumes "\<And>s s'. covers_at D s' = covers_at D s \<Longrightarrow> A s \<Longrightarrow> (\<forall>i. qs_keys s' (D i) = qs_keys s (D i)) \<Longrightarrow> A s'"
  shows "core D A"
  unfolding core_def
proof (intro allI impI)
  fix s s' :: queue_obs assume eq: "qs_jobs s' = qs_jobs s" "qs_handled s' = qs_handled s"
    "\<forall>i. qs_keys s' (D i) = qs_keys s (D i)" and "A s"
  have "covers_at D s' = covers_at D s"
    by (intro ext) (simp add: covers_at_def eq)
  then show "A s'" using \<open>A s\<close> eq(3) by (rule assms)
qed

lemma core_basic [core_intros]:
  "core D unique_ids" "core D (data_is loc d)" "core D (fresh_id D i)"
  by (simp_all add: core_def unique_ids_def data_is_def fresh_id_def)

lemma core_coverage [core_intros]:
  "core D (covered D M)" "core D (covered_by D loc M)" "core D (covered_off D loc M)"
  "core D (covered_or_done D loc M)"
  by (rule core_via, simp add: covered_def covered_by_def covered_off_def covered_or_done_def)+

section \<open>Triples\<close>

definition triple :: "(string \<Rightarrow> string) \<Rightarrow> string set \<Rightarrow> (queue_obs \<Rightarrow> bool) \<Rightarrow> (queue_obs \<Rightarrow> bool)
    \<Rightarrow> ('w, 'a) program \<Rightarrow> ('a \<Rightarrow> queue_obs \<Rightarrow> bool) \<Rightarrow> bool" where
  "triple D own I A p Q \<longleftrightarrow>
     hoare D own (\<lambda>s. unique_ids s \<and> I s) (\<lambda>s. unique_ids s \<and> A s) p (\<lambda>a s. unique_ids s \<and> Q a s)"

lemma stable_unique: "ustable D own A \<Longrightarrow> stable D own (\<lambda>s. unique_ids s \<and> A s)"
  unfolding stable_def ustable_def using move_unique by blast

lemma triple_return: "(\<And>s. A s \<Longrightarrow> I s) \<Longrightarrow> (\<And>s. A s \<Longrightarrow> Q a s) \<Longrightarrow> triple D own I A (return a) Q"
  unfolding triple_def by (rule hoare_return) auto

lemma triple_throw: "(\<And>s. A s \<Longrightarrow> I s) \<Longrightarrow> triple D own I A (throw x) Q"
  unfolding triple_def by (rule hoare_throw) auto

lemma triple_crash: "(\<And>s. A s \<Longrightarrow> I s) \<Longrightarrow> triple D own I A crash Q"
  unfolding triple_def by (rule hoare_crash) auto

lemma triple_seq:
  "triple D own I A p R \<Longrightarrow> (\<And>a. triple D own I (R a) (f a) Q) \<Longrightarrow> triple D own I A (seq p f) Q"
  unfolding triple_def by (rule hoare_seq)

lemma triple_if:
  "(b \<Longrightarrow> triple D own I A p Q) \<Longrightarrow> (\<not> b \<Longrightarrow> triple D own I A p' Q) \<Longrightarrow> triple D own I A (if b then p else p') Q"
  by simp

lemma triple_option:
  "(x = None \<Longrightarrow> triple D own I A p Q) \<Longrightarrow> (\<And>y. x = Some y \<Longrightarrow> triple D own I A (f y) Q)
     \<Longrightarrow> triple D own I A (case x of None \<Rightarrow> p | Some y \<Rightarrow> f y) Q"
  by (cases x) simp_all

lemma triple_conseq:
  "triple D own I A' p Q' \<Longrightarrow> (\<And>s. unique_ids s \<Longrightarrow> A s \<Longrightarrow> A' s)
     \<Longrightarrow> (\<And>a s. unique_ids s \<Longrightarrow> Q' a s \<Longrightarrow> Q a s) \<Longrightarrow> triple D own I A p Q"
  unfolding triple_def by (erule hoare_conseq) auto

lemma triple_ask:
  assumes "ustable D own A" "\<And>s. A s \<Longrightarrow> I s"
    and "\<And>s. unique_ids s \<Longrightarrow> A s \<Longrightarrow> unique_ids (snd (documented c s))"
    and "\<And>s. unique_ids s \<Longrightarrow> A s \<Longrightarrow> I (snd (documented c s))"
    and "\<And>s. unique_ids s \<Longrightarrow> A s \<Longrightarrow> Q (f (fst (documented c s))) (snd (documented c s))"
  shows "triple D own I A (ask f c) Q"
  unfolding triple_def by (rule hoare_ask) (use assms stable_unique in auto)

lemmas triple_tell = triple_ask [where f = "\<lambda>_. ()", folded tell_def]

text \<open>A command that only reads, or only writes a key that is no turn-done marker, keeps every
  assertion of this theory.\<close>

definition harmless :: "(string \<Rightarrow> string) \<Rightarrow> command \<Rightarrow> bool" where
  "harmless D c \<longleftrightarrow> (\<forall>s. qs_jobs (snd (documented c s)) = qs_jobs s
     \<and> qs_handled (snd (documented c s)) = qs_handled s \<and> qs_used (snd (documented c s)) = qs_used s
     \<and> (\<forall>i. qs_keys (snd (documented c s)) (D i) = qs_keys s (D i)))"

lemma harmless_simps [simp]:
  "harmless D (GetKey k)" "harmless D (PExpire k px)" "harmless D (ExistsKey k)"
  "harmless D (GetJob q i)" "harmless D (GetState q i)"
  "k \<notin> range D \<Longrightarrow> harmless D (SetKey k v px)" "k \<notin> range D \<Longrightarrow> harmless D (SetKeyNX k v px)"
  "k \<notin> range D \<Longrightarrow> harmless D (DelKey k)" "k \<notin> range D \<Longrightarrow> harmless D (DelIfOwner k owner)"
  by (auto simp: harmless_def)

lemma harmless_core: "harmless D c \<Longrightarrow> core D A \<Longrightarrow> A s \<Longrightarrow> A (snd (documented c s))"
  by (simp add: harmless_def core_def)

lemma triple_harmless:
  assumes "harmless D c" "ustable D own A" "core D A" "\<And>s. A s \<Longrightarrow> I s"
    and "\<And>s. unique_ids s \<Longrightarrow> A s \<Longrightarrow> A (snd (documented c s)) \<Longrightarrow> Q (f (fst (documented c s))) (snd (documented c s))"
  shows "triple D own I A (ask f c) Q"
proof (rule triple_ask)
  fix s assume u: "unique_ids s" and a: "A s"
  show "unique_ids (snd (documented c s))"
    by (rule harmless_core [OF assms(1) core_basic(1) u])
  have a': "A (snd (documented c s))" by (rule harmless_core [OF assms(1,3) a])
  then show "I (snd (documented c s))" by (rule assms(4))
  show "Q (f (fst (documented c s))) (snd (documented c s))" by (rule assms(5) [OF u a a'])
qed (use assms in auto)

lemma triple_quiet:
  "harmless D c \<Longrightarrow> ustable D own A \<Longrightarrow> core D A \<Longrightarrow> (\<And>s. A s \<Longrightarrow> I s) \<Longrightarrow> triple D own I A (ask f c) (\<lambda>_. A)"
  by (rule triple_harmless) auto

lemmas triple_quiet_tell = triple_quiet [where f = "\<lambda>_. ()", folded tell_def]

section \<open>What the commands do to coverage\<close>

definition done_key :: "(string \<Rightarrow> string) \<Rightarrow> string \<Rightarrow> string \<Rightarrow> string" where
  "done_key sha pfx i = makeKeys sha pfx (TurnDone i)"

lemma inj_done_key [simp]: "inj (done_key sha pfx)"
  by (rule injI) (simp add: done_key_def makeKeys_eq_iff)

lemma not_done_key [simp]:
  "makeKeys sha pfx (Coalesce x) \<notin> range (done_key sha pfx)"
  "makeKeys sha pfx (CoalesceLock x) \<notin> range (done_key sha pfx)"
  "makeKeys sha pfx (TurnSenders x) \<notin> range (done_key sha pfx)"
  "makeKeys sha pfx (JobMoved x) \<notin> range (done_key sha pfx)"
  "makeKeys sha pfx (Redispatch x) \<notin> range (done_key sha pfx)"
  by (auto simp: done_key_def makeKeys_eq_iff)

lemma add_covers:
  "qs_jobs s (q, i) = None \<Longrightarrow> covers_at D s loc m \<Longrightarrow> covers_at D (snd (documented (AddJob q i h d) s)) loc m"
  by (auto simp: covers_at_def)

lemma add_new:
  "qs_jobs s (q, i) = None \<Longrightarrow> qs_keys s (D i) = None \<Longrightarrow> m \<in> mkeys (tj_messages d)
     \<Longrightarrow> covers_at D (snd (documented (AddJob q i h d) s)) (q, i) m"
  by (auto simp: covers_at_def new_job_def)

lemma promote_covers:
  "covers_at D s loc m \<Longrightarrow> covers_at D (snd (documented (PromoteJob q i) s)) loc m"
  by (auto simp: covers_at_def split: option.splits)

lemma promote_covered: "covered D M s \<Longrightarrow> covered D M (snd (documented (PromoteJob q i) s))"
  unfolding covered_def using promote_covers by blast

lemma promote_unique: "unique_ids s \<Longrightarrow> unique_ids (snd (documented (PromoteJob q i) s))"
  by (rule unique_ids_sub) (auto split: option.splits if_splits)

lemma update_unique: "unique_ids s \<Longrightarrow> unique_ids (snd (documented (UpdateData q i d) s))"
  by (rule unique_ids_sub) (auto split: option.splits if_splits)

lemma remove_covers:
  "loc \<noteq> (q, i) \<Longrightarrow> covers_at D s loc m \<Longrightarrow> covers_at D (snd (documented (RemoveJob q i) s)) loc m"
  by (auto simp: covers_at_def split: option.splits)

lemma update_covers:
  assumes "data_is (q, i) prev s" "mkeys (tj_messages prev) \<subseteq> mkeys (tj_messages d)" "covers_at D s loc m"
  shows "covers_at D (snd (documented (UpdateData q i d) s)) loc m"
proof (cases "qs_jobs s (q, i)")
  case (Some j)
  then have "qj_data j = prev" using assms(1) by (simp add: data_is_def)
  then have "m \<in> mkeys (tj_messages (qj_data j)) \<Longrightarrow> m \<in> mkeys (tj_messages d)"
    using assms(2) by blast
  then show ?thesis
    using assms(3) Some by (cases "loc = (q, i)") (simp_all add: covers_at_def, blast)
qed (use assms in simp)

lemma covered_by_covered: "covered_by D loc M s \<Longrightarrow> covered D M s"
  unfolding covered_by_def covered_def by blast

lemma covered_off_covered: "covered_off D loc M s \<Longrightarrow> covered D M s"
  unfolding covered_off_def covered_def by blast

lemma covered_Un: "covered D (M \<union> N) s \<longleftrightarrow> covered D M s \<and> covered D N s"
  by (auto simp: covered_def)

lemma covered_mono: "covered D M s \<Longrightarrow> N \<subseteq> M \<Longrightarrow> covered D N s"
  by (auto simp: covered_def)

text \<open>An absent job covers only what already ran, and so does every other place.\<close>

lemma covers_absent:
  "qs_jobs s loc = None \<Longrightarrow> covers_at D s loc m \<Longrightarrow> covers_at D s loc' m"
  by (auto simp: covers_at_def)

lemma covers_done:
  "qs_keys s (D (snd loc)) \<noteq> None \<Longrightarrow> covers_at D s loc m \<Longrightarrow> covers_at D s loc' m"
  by (auto simp: covers_at_def)

lemma other_place: "\<exists>l. l \<noteq> (loc :: string \<times> string)"
  by (metis list.distinct(1) prod.inject surj_pair)

lemma covered_off_absent:
  assumes "qs_jobs s loc = None" "covered D M s"
  shows "covered_off D loc M s"
  unfolding covered_off_def
proof
  fix m assume "m \<in> M"
  then obtain l where l: "covers_at D s l m" using assms(2) by (auto simp: covered_def)
  obtain l' where l': "l' \<noteq> loc" using other_place by blast
  show "\<exists>l. l \<noteq> loc \<and> covers_at D s l m"
  proof (cases "l = loc")
    case True
    then show ?thesis using covers_absent [OF assms(1)] l l' by blast
  qed (use l in blast)
qed

section \<open>The held-copy swap\<close>

definition only_at :: "string \<Rightarrow> string \<Rightarrow> queue_obs \<Rightarrow> bool" where
  "only_at q i s \<longleftrightarrow> (\<forall>q'. q' \<noteq> q \<longrightarrow> qs_jobs s (q', i) = None)"

lemma steady_only_at [steady]: "i \<in> own \<Longrightarrow> ustable D own (only_at q i)"
  unfolding ustable_def
proof (intro allI impI)
  fix s s' assume "i \<in> own" "worker_move D own s s'" "unique_ids s" "only_at q i s"
  from this(2,4,1) show "only_at q i s'"
    by (induction rule: worker_move.induct) (auto simp: only_at_def)
qed

lemma core_only_at [core_intros]: "core D (only_at q i)"
  by (simp add: core_def only_at_def)

lemma fresh_only_at: "fresh_id D i s \<Longrightarrow> only_at q i s"
  by (simp add: fresh_id_def only_at_def)

definition rest_ok :: "(string \<Rightarrow> string) \<Rightarrow> string \<Rightarrow> string \<Rightarrow> string set \<Rightarrow> queue_obs \<Rightarrow> bool" where
  "rest_ok D q i J s \<longleftrightarrow> only_at q i s \<and> (fresh_id D i s \<or> covered_by D (q, i) J s)"

lemma steady_rest [steady]: "inj D \<Longrightarrow> i \<in> own \<Longrightarrow> ustable D own (rest_ok D q i J)"
  unfolding rest_ok_def by (intro steady)

lemma core_rest [core_intros]: "core D (rest_ok D q i J)"
  unfolding rest_ok_def by (intro core_intros)

text \<open>Between adding the held copy and the end of the take.\<close>

definition swapping :: "(string \<Rightarrow> string) \<Rightarrow> string set \<Rightarrow> string \<times> string \<Rightarrow> turn_job \<Rightarrow> string \<times> string
    \<Rightarrow> turn_job \<Rightarrow> string \<Rightarrow> queue_obs \<Rightarrow> bool" where
  "swapping D M orig prev copy merged id2 s \<longleftrightarrow>
     covered_off D copy M s \<and> covered_by D copy (mkeys (tj_messages merged)) s
     \<and> data_is orig prev s \<and> (snd copy \<noteq> id2 \<longrightarrow> fresh_id D id2 s) \<and> only_at (fst copy) id2 s"

lemma steady_swapping [steady]: "inj D \<Longrightarrow> id2 \<in> own \<Longrightarrow> ustable D own (swapping D M orig prev copy merged id2)"
  unfolding swapping_def by (intro steady)

lemma core_swapping [core_intros]: "core D (swapping D M orig prev copy merged id2)"
  unfolding swapping_def by (intro core_intros)

lemma add_swapping:
  assumes "unique_ids s" "covered D M s" "data_is orig prev s" "fresh_id D id1 s" "fresh_id D id2 s"
    and "orig \<noteq> (wq, id1)"
  shows "swapping D M orig prev (wq, id1) merged id2 (snd (documented (AddJob wq id1 True merged) s))"
    and "unique_ids (snd (documented (AddJob wq id1 True merged) s))"
proof -
  let ?s = "snd (documented (AddJob wq id1 True merged) s)"
  have none: "qs_jobs s (wq, id1) = None" "\<forall>q. qs_jobs s (q, id1) = None" "qs_keys s (D id1) = None"
    using assms(4) by (simp_all add: fresh_id_def)
  have "covered_off D (wq, id1) M ?s"
    using covered_off_absent [OF none(1) assms(2)] add_covers [OF none(1)]
    unfolding covered_off_def by blast
  moreover have "covered_by D (wq, id1) (mkeys (tj_messages merged)) ?s"
    unfolding covered_by_def by (intro ballI add_new none)
  moreover have "data_is orig prev ?s"
    using assms(3,6) by (auto simp: data_is_def none)
  moreover have "id1 \<noteq> id2 \<longrightarrow> fresh_id D id2 ?s"
    using assms(5) none(1) by (auto simp: fresh_id_def)
  moreover have "only_at wq id2 ?s"
    using assms(5) none(1) by (auto simp: fresh_id_def only_at_def)
  ultimately show "swapping D M orig prev (wq, id1) merged id2 ?s" by (simp add: swapping_def)
  show "unique_ids ?s"
    by (rule unique_ids_fresh [OF assms(1) none(2)]) (simp_all add: none)
qed

text \<open>The atomic take: a job that was taken is gone and had not run; its messages are covered by the
  copy. A job that ran covers nothing. A refused take changes nothing.\<close>

lemma covered_off_via:
  assumes off: "covered_off D copy M s" and cb: "covered_by D copy (mkeys (tj_messages merged)) s"
    and data: "data_is orig prev s" and sub: "mkeys (tj_messages prev) \<subseteq> mkeys (tj_messages merged)"
    and ne: "orig \<noteq> copy" and s': "s' = s\<lparr>qs_jobs := (qs_jobs s)(orig := None)\<rparr>"
  shows "covered D (M \<union> mkeys (tj_messages merged)) s'"
proof -
  have keep: "covers_at D s' l m" if "l \<noteq> orig" "covers_at D s l m" for l m
    using that by (auto simp: covers_at_def s')
  have "\<exists>l. covers_at D s' l m" if m: "m \<in> M" for m
  proof -
    obtain l where l: "covers_at D s l m" using off m by (auto simp: covered_off_def)
    show ?thesis
    proof (cases "l = orig")
      case True
      then have "m \<in> qs_handled s \<or> m \<in> mkeys (tj_messages prev)"
        using l data unfolding covers_at_def data_is_def by auto
      then have "covers_at D s copy m"
        using cb sub unfolding covered_by_def covers_at_def by blast
      then show ?thesis using keep [of copy] ne by blast
    qed (use keep l in blast)
  qed
  moreover have "\<exists>l. covers_at D s' l m" if "m \<in> mkeys (tj_messages merged)" for m
    using cb that keep [of copy m] ne unfolding covered_by_def by blast
  ultimately show ?thesis unfolding covered_def by blast
qed

lemma covered_off_done:
  assumes off: "covered_off D copy M s" and dn: "qs_keys s (D (snd orig)) \<noteq> None"
    and s': "s' = s\<lparr>qs_jobs := (qs_jobs s)(orig := None)\<rparr>"
  shows "covered_off D copy M s'"
  unfolding covered_off_def
proof
  fix m assume "m \<in> M"
  then obtain l where l: "l \<noteq> copy" "covers_at D s l m" using off by (auto simp: covered_off_def)
  show "\<exists>l. l \<noteq> copy \<and> covers_at D s' l m"
  proof (cases "l = orig")
    case True
    then have "m \<in> qs_handled s" using l(2) dn by (auto simp: covers_at_def)
    then have "covers_at D s' l m" by (simp add: covers_at_def s')
    with l(1) show ?thesis by blast
  next
    case False
    then have "covers_at D s' l m" using l(2) by (auto simp: covers_at_def s')
    with l(1) show ?thesis by blast
  qed
qed

lemma take_swapping:
  assumes u: "unique_ids s" and a: "swapping D M (q, i) prev copy merged id2 s"
    and sub: "mkeys (tj_messages prev) \<subseteq> mkeys (tj_messages merged)" and ne: "(q, i) \<noteq> copy"
    and run: "documented (TakeUnclaimed q i (D i) rescue) s = (r, s')"
  shows "unique_ids s'"
    and "covered D M s'"
    and "if take_outcome_of (take_of r) = Taken then covered D (M \<union> mkeys (tj_messages merged)) s'
         else swapping D M (q, i) prev copy merged id2 s'"
proof -
  note a = a [unfolded swapping_def]
  let ?gone = "s\<lparr>qs_jobs := (qs_jobs s)((q, i) := None)\<rparr>"
  consider (same) "s' = s" "take_outcome_of (take_of r) = Refused"
    | (ran) "s' = ?gone" "qs_keys s (D i) \<noteq> None" "take_outcome_of (take_of r) = TookDone"
    | (taken) "s' = ?gone" "take_outcome_of (take_of r) = Taken"
    using run by (auto simp: take_unclaimed_lua_def take_outcome_of_def Let_def
        split: option.splits if_splits)
  then have "unique_ids s' \<and> covered D M s' \<and>
    (if take_outcome_of (take_of r) = Taken then covered D (M \<union> mkeys (tj_messages merged)) s'
     else swapping D M (q, i) prev copy merged id2 s')"
  proof cases
    case same
    moreover have "covered D M s" using a covered_off_covered by blast
    ultimately show ?thesis using u a by (simp add: swapping_def)
  next
    case ran
    have "unique_ids s'" by (rule unique_ids_sub [OF u]) (auto simp: ran(1) split: if_splits)
    moreover have off: "covered_off D copy M s'"
      using covered_off_done [of D copy M s "(q, i)" s'] a ran by simp
    moreover have "covered_by D copy (mkeys (tj_messages merged)) s'"
      using a ne ran(1) unfolding covered_by_def covers_at_def by auto
    moreover have "data_is (q, i) prev s'" using a ran(1) by (simp add: data_is_def)
    moreover have "snd copy \<noteq> id2 \<longrightarrow> fresh_id D id2 s'"
      using a ran(1) by (auto simp: fresh_id_def)
    moreover have "only_at (fst copy) id2 s'"
      using a ran(1) by (auto simp: only_at_def)
    moreover have "covered D M s'" using off by (rule covered_off_covered)
    ultimately show ?thesis using ran(3) by (simp add: swapping_def)
  next
    case taken
    have "unique_ids s'" by (rule unique_ids_sub [OF u]) (auto simp: taken(1) split: if_splits)
    moreover have "covered D (M \<union> mkeys (tj_messages merged)) s'"
      using covered_off_via [OF _ _ _ sub ne taken(1)] a by blast
    ultimately show ?thesis using taken(2) by (simp add: covered_Un)
  qed
  then show "unique_ids s'" "covered D M s'"
    "if take_outcome_of (take_of r) = Taken then covered D (M \<union> mkeys (tj_messages merged)) s'
     else swapping D M (q, i) prev copy merged id2 s'" by simp_all
qed

lemma remove_own:
  assumes cb: "covered_by D (q, i) J s" and only: "only_at q i s"
  shows "fresh_id D i (snd (documented (RemoveJob q i) s))
    \<or> covered_by D (q, i) J (snd (documented (RemoveJob q i) s))"
proof (cases "\<exists>j. qs_jobs s (q, i) = Some j \<and> \<not> qj_lock j \<and> qs_keys s (D i) = None")
  case True
  then show ?thesis using only by (auto simp: fresh_id_def only_at_def)
next
  case False
  have "covers_at D (snd (documented (RemoveJob q i) s)) (q, i) m" if "covers_at D s (q, i) m" for m
    using that False by (auto simp: covers_at_def split: option.splits)
  then show ?thesis using cb unfolding covered_by_def by blast
qed

text \<open>Dropping the copy: what it alone covered may be added again, under the same id if that is the
  id drawn for it.\<close>

lemma remove_swapping:
  assumes u: "unique_ids s" and a: "swapping D M orig prev (wq, id1) merged id2 s"
    and J: "J \<subseteq> mkeys (tj_messages merged)"
  shows "covered D M (snd (documented (RemoveJob wq id1) s))"
    and "rest_ok D wq id2 J (snd (documented (RemoveJob wq id1) s))"
    and "unique_ids (snd (documented (RemoveJob wq id1) s))"
proof -
  note a = a [unfolded swapping_def]
  let ?s = "snd (documented (RemoveJob wq id1) s)"
  show "covered D M ?s"
    using a remove_covers unfolding covered_off_def covered_def by blast
  show "unique_ids ?s"
    by (rule unique_ids_sub [OF u]) (auto split: option.splits if_splits)
  have only: "only_at wq id2 ?s"
    using a by (auto simp: only_at_def split: option.splits)
  have "fresh_id D id2 ?s \<or> covered_by D (wq, id2) J ?s"
  proof (cases "id1 = id2")
    case False
    then show ?thesis using a by (auto simp: fresh_id_def split: option.splits)
  next
    case True
    have cb: "covered_by D (wq, id2) J s"
      using a True J unfolding covered_by_def by auto
    show ?thesis
      using remove_own [OF cb] a True by simp
  qed
  then show "rest_ok D wq id2 J ?s" using only by (simp add: rest_ok_def)
qed

section \<open>Triples of the methods\<close>

lemma triple_recordSenders:
  assumes "ustable (done_key sha pfx) own A" "core (done_key sha pfx) A" "\<And>s. A s \<Longrightarrow> I s"
  shows "triple (done_key sha pfx) own I A (recordSenders (makeKeys sha pfx) pj tok f ss) (\<lambda>_. A)"
  using assms by (cases ss) (auto simp: recordSenders_def senders_key_def intro!: triple_quiet_tell)

lemma triple_markMoved:
  assumes "ustable (done_key sha pfx) own A" "core (done_key sha pfx) A" "\<And>s. A s \<Longrightarrow> I s"
  shows "triple (done_key sha pfx) own I A (markMoved (makeKeys sha pfx) i q j) (\<lambda>_. A)"
  using assms by (auto simp: markMoved_def intro!: triple_quiet_tell)

lemma triple_swap_rest:
  assumes own: "id2 \<in> own" and J: "J \<subseteq> mkeys (tj_messages merged)"
    and D: "D = done_key sha pfx" and K: "K = makeKeys sha pfx"
  shows "triple D own (covered D M)
    (\<lambda>s. if took = Taken then covered D (M \<union> mkeys (tj_messages merged)) s
         else swapping D M orig prev (wq, id1) merged id2 s)
    (swap_rest K ri wq id1 took)
    (\<lambda>out s. if out = Moved then covered D (M \<union> mkeys (tj_messages merged)) s
             else covered D M s \<and> rest_ok D wq id2 J s)"
proof -
  have injD: "inj D" by (simp add: D)
  have A1_I: "swapping D M orig prev (wq, id1) merged id2 s \<Longrightarrow> covered D M s" for s
    unfolding swapping_def using covered_off_covered by blast
  have remove: "triple D own (covered D M) (swapping D M orig prev (wq, id1) merged id2)
      (tell (RemoveJob wq id1)) (\<lambda>_ s. covered D M s \<and> rest_ok D wq id2 J s)"
    by (rule triple_tell)
      (use remove_swapping [OF _ _ J] A1_I in \<open>auto intro!: steady injD own simp del: documented.simps\<close>)
  have del: "triple D own (covered D M) (\<lambda>s. covered D M s \<and> rest_ok D wq id2 J s)
      (tell (DelKey (K (JobMoved ri)))) (\<lambda>_ s. covered D M s \<and> rest_ok D wq id2 J s)"
    by (rule triple_quiet_tell) (auto simp: D K intro!: steady core_intros own)
  have promote: "triple D own (covered D M) (covered D (M \<union> mkeys (tj_messages merged)))
      (tell (PromoteJob wq id1)) (\<lambda>_. covered D (M \<union> mkeys (tj_messages merged)))"
    by (rule triple_tell)
      (use promote_unique promote_covered in \<open>auto simp: covered_Un intro!: steady injD simp del: documented.simps\<close>)
  show ?thesis
  proof (cases "took = Taken")
    case True
    have "triple D own (covered D M) (covered D (M \<union> mkeys (tj_messages merged)))
        (seq (tell (PromoteJob wq id1)) (\<lambda>_. return Moved))
        (\<lambda>out s. if out = Moved then covered D (M \<union> mkeys (tj_messages merged)) s
           else covered D M s \<and> rest_ok D wq id2 J s)"
      by (rule triple_seq [OF promote], rule triple_return) (auto simp: covered_Un)
    then show ?thesis using True by (simp add: swap_rest_def)
  next
    case False
    then show ?thesis
      unfolding swap_rest_def by (auto intro!: triple_seq [OF remove] triple_seq [OF del] triple_return)
  qed
qed

lemma triple_swap:
  assumes own: "id1 \<in> own" "id2 \<in> own" and ne: "rq \<noteq> wq"
    and sub: "mkeys (tj_messages prev) \<subseteq> mkeys (tj_messages merged)"
    and J: "J \<subseteq> mkeys (tj_messages merged)"
    and D: "D = done_key sha pfx" and K: "K = makeKeys sha pfx"
  shows "triple D own (covered D M)
    (\<lambda>s. covered D M s \<and> data_is (rq, ri) prev s \<and> fresh_id D id1 s \<and> fresh_id D id2 s)
    (swap K rq ri wq merged id1 rescue)
    (\<lambda>out s. if out = Moved then covered D (M \<union> mkeys (tj_messages merged)) s
             else covered D M s \<and> rest_ok D wq id2 J s)"
proof -
  let ?A1 = "swapping D M (rq, ri) prev (wq, id1) merged id2"
  have A1_I: "?A1 s \<Longrightarrow> covered D M s" for s
    unfolding swapping_def using covered_off_covered by blast
  have add: "triple D own (covered D M)
      (\<lambda>s. covered D M s \<and> data_is (rq, ri) prev s \<and> fresh_id D id1 s \<and> fresh_id D id2 s)
      (tell (AddJob wq id1 True merged)) (\<lambda>_. ?A1)"
    by (rule triple_tell)
      (use add_swapping A1_I ne D in \<open>auto intro!: steady own simp del: documented.simps\<close>)
  have mark: "triple D own (covered D M) ?A1 (markMoved K ri wq id1) (\<lambda>_. ?A1)"
    unfolding D K by (rule triple_markMoved) (use A1_I D in \<open>auto intro!: steady core_intros own\<close>)
  have take: "triple D own (covered D M) ?A1 (take_job K rq ri rescue)
      (\<lambda>took s. if took = Taken then covered D (M \<union> mkeys (tj_messages merged)) s else ?A1 s)"
    unfolding take_job_def
  proof (rule triple_ask)
    fix s assume us: "unique_ids s" and a: "?A1 s"
    have key: "K (TurnDone ri) = D ri" and ne': "(rq, ri) \<noteq> (wq, id1)"
      using ne by (simp_all add: D K done_key_def)
    note t = take_swapping [OF us a sub ne' prod.collapse [symmetric], folded key, where rescue = rescue]
    show "unique_ids (snd (documented (TakeUnclaimed rq ri (K (TurnDone ri)) rescue) s))"
      "covered D M (snd (documented (TakeUnclaimed rq ri (K (TurnDone ri)) rescue) s))"
      "if take_outcome_of (take_of (fst (documented (TakeUnclaimed rq ri (K (TurnDone ri)) rescue) s))) = Taken
       then covered D (M \<union> mkeys (tj_messages merged)) (snd (documented (TakeUnclaimed rq ri (K (TurnDone ri)) rescue) s))
       else ?A1 (snd (documented (TakeUnclaimed rq ri (K (TurnDone ri)) rescue) s))"
      by (rule t)+
  qed (use A1_I D own in \<open>auto intro!: steady\<close>)
  show ?thesis
    unfolding swap_def
    by (rule triple_seq [OF add], rule triple_seq [OF mark], rule triple_seq [OF take],
        rule triple_swap_rest [OF own(2) J D K])
qed

text \<open>What a try to append establishes: covered messages when it succeeded, else what a fresh add
  needs.\<close>

definition appended_post :: "(string \<Rightarrow> string) \<Rightarrow> string set \<Rightarrow> string set \<Rightarrow> string \<Rightarrow> string
    \<Rightarrow> enqueue_result option \<Rightarrow> queue_obs \<Rightarrow> bool" where
  "appended_post D M J wq id2 r s \<longleftrightarrow>
     (case r of Some _ \<Rightarrow> covered D (M \<union> J) s | None \<Rightarrow> covered D M s \<and> rest_ok D wq id2 J s)"

lemma appended_post_simps [simp]:
  "appended_post D M J wq id2 (Some x) = covered D (M \<union> J)"
  "appended_post D M J wq id2 None = (\<lambda>s. covered D M s \<and> rest_ok D wq id2 J s)"
  by (auto simp: appended_post_def)

lemma with_attempts_messages [simp]: "tj_messages (with_attempts n j) = tj_messages j"
  by (simp add: with_attempts_def)

lemma merged_messages [simp]:
  "tj_messages (merged_in_place prev job first) = appended_messages prev job first"
  "tj_messages (merged_relocated prev job first) = relocated_messages prev job first"
  by (simp_all add: merged_in_place_def merged_relocated_def)

lemma triple_relocate:
  assumes own: "id1 \<in> own" "id2 \<in> own" and ne: "rq \<noteq> wq"
    and D: "D = done_key sha pfx" and K: "K = makeKeys sha pfx"
    and J: "J = mkeys (tj_messages job)"
  shows "triple D own (covered D M)
    (\<lambda>s. covered D M s \<and> data_is (rq, ri) prev s \<and> fresh_id D id1 s \<and> fresh_id D id2 s)
    (relocate K pj rq ri prev job (K (Coalesce sid)) wq id1 first) (appended_post D M J wq id2)"
proof -
  let ?m = "merged_relocated prev job first"
  let ?P = "\<lambda>s. covered D M s \<and> data_is (rq, ri) prev s \<and> fresh_id D id1 s \<and> fresh_id D id2 s"
  have keys: "mkeys (tj_messages ?m) = mkeys (tj_messages prev) \<union> J"
    by (simp add: relocated_keys J)
  have rec: "triple D own (covered D M) ?P
      (recordSenders K pj (tj_jobToken ?m) id1 (tj_senders ?m)) (\<lambda>_. ?P)"
    unfolding D K by (rule triple_recordSenders) (use own in \<open>auto intro!: steady core_intros\<close>)
  have sw: "triple D own (covered D M) ?P (swap K rq ri wq ?m id1 False)
      (\<lambda>out s. if out = Moved then covered D (M \<union> mkeys (tj_messages ?m)) s
             else covered D M s \<and> rest_ok D wq id2 J s)"
    by (rule triple_swap [OF own ne _ _ D K]) (use keys in auto)
  have set: "triple D own (covered D M) (covered D (M \<union> mkeys (tj_messages ?m)))
      (tell (SetKey (K (Coalesce sid)) (RefText wq id1) COALESCE_TTL_MS))
      (\<lambda>_. covered D (M \<union> mkeys (tj_messages ?m)))"
    by (rule triple_quiet_tell) (auto simp: D K covered_Un intro!: steady core_intros)
  have tail: "triple D own (covered D M)
      (\<lambda>s. if out = Moved then covered D (M \<union> mkeys (tj_messages ?m)) s
             else covered D M s \<and> rest_ok D wq id2 J s)
      (if out \<noteq> Moved then return None
       else seq (tell (SetKey (K (Coalesce sid)) (RefText wq id1) COALESCE_TTL_MS)) (\<lambda>_.
            return (Some (result id1 wq True))))
      (appended_post D M J wq id2)" for out
  proof (cases "out = Moved")
    case True
    have "triple D own (covered D M) (covered D (M \<union> mkeys (tj_messages ?m)))
        (seq (tell (SetKey (K (Coalesce sid)) (RefText wq id1) COALESCE_TTL_MS)) (\<lambda>_.
            return (Some (result id1 wq True)))) (appended_post D M J wq id2)"
      by (rule triple_seq [OF set], rule triple_return) (auto simp: relocated_keys J covered_Un)
    then show ?thesis using True by simp
  next
    case False
    then show ?thesis by (auto intro!: triple_return)
  qed
  show ?thesis
    unfolding relocate_def Let_def
    by (rule triple_seq [OF rec], rule triple_seq [OF sw], rule tail)
qed

text \<open>The state check after an update or before an append: a pending job covers its messages unless
  its turn ran, and the marker is read next.\<close>

lemma pending_covers:
  assumes "data_is (q, i) d s" "pending_state (case qs_jobs s (q, i) of Some j \<Rightarrow> qj_state j | None \<Rightarrow> UnknownState)"
  shows "covered_or_done D (q, i) (mkeys (tj_messages d)) s"
  using assms by (auto simp: data_is_def covered_or_done_def covers_at_def split: option.splits)

lemma triple_getState:
  assumes "ustable D own A" "core D A" "\<And>s. A s \<Longrightarrow> covered D M s" "\<And>s. A s \<Longrightarrow> data_is (q, i) d s"
  shows "triple D own (covered D M) A (ask state_of (GetState q i))
    (\<lambda>st s. A s \<and> (pending_state st \<longrightarrow> covered_or_done D (q, i) (mkeys (tj_messages d)) s))"
  by (rule triple_harmless) (use assms pending_covers in auto)

lemma triple_turnRan:
  assumes "ustable (done_key sha pfx) own A" "core (done_key sha pfx) A" "\<And>s. A s \<Longrightarrow> covered (done_key sha pfx) M s"
    and "\<And>s. A s \<Longrightarrow> covered_or_done (done_key sha pfx) (q, i) N s"
  shows "triple (done_key sha pfx) own (covered (done_key sha pfx) M) A (turnRan (makeKeys sha pfx) i)
    (\<lambda>ran s. A s \<and> (\<not> ran \<longrightarrow> covered_by (done_key sha pfx) (q, i) N s))"
  unfolding turnRan_def
proof (rule triple_harmless)
  fix s assume "A s" and a': "A (snd (documented (ExistsKey (makeKeys sha pfx (TurnDone i))) s))"
  then have "covered_or_done (done_key sha pfx) (q, i) N s" using assms(4) by blast
  then show "A (snd (documented (ExistsKey (makeKeys sha pfx (TurnDone i))) s))
    \<and> (\<not> bool_of (fst (documented (ExistsKey (makeKeys sha pfx (TurnDone i))) s))
       \<longrightarrow> covered_by (done_key sha pfx) (q, i) N (snd (documented (ExistsKey (makeKeys sha pfx (TurnDone i))) s)))"
    using a' by (auto simp: covered_or_done_def covered_by_def done_key_def)
qed (use assms in auto)

lemma no_new_keys: "newMessages base extra = [] \<Longrightarrow> mkeys extra \<subseteq> mkeys base"
proof -
  assume "newMessages base extra = []"
  then have "mkeys extra - mkeys base = {}"
    unfolding messages.additions_keys [symmetric] by simp
  then show ?thesis by (simp only: Diff_eq_empty_iff)
qed

lemma update_asserts:
  assumes "data_is (q, i) prev s" "mkeys (tj_messages prev) \<subseteq> mkeys (tj_messages d)"
  shows "covered D M s \<Longrightarrow> covered D M (snd (documented (UpdateData q i d) s))"
    and "fresh_id D k s \<Longrightarrow> fresh_id D k (snd (documented (UpdateData q i d) s))"
    and "bool_of (fst (documented (UpdateData q i d) s)) \<Longrightarrow> data_is (q, i) d (snd (documented (UpdateData q i d) s))"
proof -
  show "covered D M s \<Longrightarrow> covered D M (snd (documented (UpdateData q i d) s))"
    unfolding covered_def using update_covers [OF assms] by blast
  show "fresh_id D k s \<Longrightarrow> fresh_id D k (snd (documented (UpdateData q i d) s))"
    by (auto simp: fresh_id_def split: option.splits)
  show "bool_of (fst (documented (UpdateData q i d) s)) \<Longrightarrow> data_is (q, i) d (snd (documented (UpdateData q i d) s))"
    using assms(1) by (auto simp: data_is_def split: option.splits)
qed

text \<open>After a state check that found the job pending, the marker decides.\<close>

lemma triple_ran_check:
  assumes D: "D = done_key sha pfx" and K: "K = makeKeys sha pfx" and p: "pending_state st"
    and A: "ustable D own A" "core D A" "\<And>s. A s \<Longrightarrow> covered D M s"
  shows "triple D own (covered D M) (\<lambda>s. A s \<and> (pending_state st \<longrightarrow> covered_or_done D (q, i) N s))
      (turnRan K i) (\<lambda>ran s. A s \<and> (\<not> ran \<longrightarrow> covered_by D (q, i) N s))"
proof -
  have "triple D own (covered D M) (\<lambda>s. A s \<and> covered_or_done D (q, i) N s) (turnRan K i)
      (\<lambda>ran s. (A s \<and> covered_or_done D (q, i) N s) \<and> (\<not> ran \<longrightarrow> covered_by D (q, i) N s))"
    unfolding D K
    by (rule triple_turnRan) (use A D in \<open>auto intro!: steady core_intros\<close>)
  then show ?thesis by (rule triple_conseq) (use p in auto)
qed

text \<open>Giving up an append keeps what a fresh add needs; ending one refreshes the index.\<close>

lemma triple_give_up:
  "(\<And>s. A s \<Longrightarrow> covered D M s \<and> fresh_id D id2 s) \<Longrightarrow>
     triple D own (covered D M) A (return None) (appended_post D M J wq id2)"
  by (rule triple_return) (auto simp: rest_ok_def intro: fresh_only_at)

lemma triple_finish:
  assumes D: "D = done_key sha pfx" and J: "J \<subseteq> N"
    and A: "\<And>s. A s \<Longrightarrow> covered D M s \<and> covered_by D loc N s"
  shows "triple D own (covered D M) A
      (seq (tell (PExpire ckey COALESCE_TTL_MS)) (\<lambda>_. return (Some x))) (appended_post D M J wq id2)"
proof (rule triple_conseq [OF triple_seq])
  let ?B = "\<lambda>s. covered D M s \<and> covered_by D loc N s"
  show "triple D own (covered D M) ?B (tell (PExpire ckey COALESCE_TTL_MS)) (\<lambda>_. ?B)"
    by (rule triple_quiet_tell) (auto simp: D intro!: steady core_intros)
  show "triple D own (covered D M) ?B (return (Some x)) (appended_post D M J wq id2)"
    by (rule triple_return) (auto simp: covered_Un intro: covered_mono [OF covered_by_covered J])
qed (use A in auto)

lemma triple_settle_append:
  assumes own: "id2 \<in> own" and D: "D = done_key sha pfx" and K: "K = makeKeys sha pfx"
    and J: "J \<subseteq> mkeys (tj_messages d)"
  shows "triple D own (covered D M)
    (\<lambda>s. covered D M s \<and> fresh_id D id2 s \<and> data_is (rq, ri) d s)
    (settle_append K rq ri ckey) (appended_post D M J wq id2)"
proof -
  let ?U = "\<lambda>s. covered D M s \<and> fresh_id D id2 s \<and> data_is (rq, ri) d s"
  let ?N = "mkeys (tj_messages d)"
  note st = steady own core_intros
  have state: "triple D own (covered D M) ?U (ask state_of (GetState rq ri))
      (\<lambda>st s. ?U s \<and> (pending_state st \<longrightarrow> covered_or_done D (rq, ri) ?N s))"
    by (rule triple_getState) (auto simp: D intro!: st)
  have ran: "triple D own (covered D M) (\<lambda>s. ?U s \<and> (pending_state x \<longrightarrow> covered_or_done D (rq, ri) ?N s))
      (turnRan K ri) (\<lambda>ran s. ?U s \<and> (\<not> ran \<longrightarrow> covered_by D (rq, ri) ?N s))"
    if "pending_state x" for x
    by (rule triple_ran_check [OF D K that]) (auto simp: D intro!: st)
  show ?thesis
    unfolding settle_append_def
    by (rule triple_seq [OF state], rule triple_if, rule triple_give_up, blast,
        rule triple_seq [OF ran], blast, rule triple_if, rule triple_give_up, blast,
        rule triple_finish [OF D J]) blast
qed

lemma triple_append_in_place:
  assumes own: "id2 \<in> own" and D: "D = done_key sha pfx" and K: "K = makeKeys sha pfx"
    and J: "J = mkeys (tj_messages job)"
  shows "triple D own (covered D M)
    (\<lambda>s. covered D M s \<and> data_is (rq, ri) prev s \<and> fresh_id D id2 s
       \<and> covered_by D (rq, ri) (mkeys (tj_messages prev)) s)
    (append_in_place K pj rq ri prev job ckey first) (appended_post D M J wq id2)"
proof -
  let ?m = "merged_in_place prev job first"
  let ?P = "\<lambda>s. covered D M s \<and> data_is (rq, ri) prev s \<and> fresh_id D id2 s
       \<and> covered_by D (rq, ri) (mkeys (tj_messages prev)) s"
  note st = steady own core_intros
  have keys: "mkeys (tj_messages ?m) = mkeys (tj_messages prev) \<union> J"
    by (simp add: appended_keys J)
  have sub: "J \<subseteq> mkeys (tj_messages ?m)" "mkeys (tj_messages prev) \<subseteq> mkeys (tj_messages ?m)"
    unfolding keys by blast+
  have rec: "triple D own (covered D M) ?P (recordSenders K pj (tj_jobToken prev) ri (tj_senders ?m)) (\<lambda>_. ?P)"
    unfolding D K by (rule triple_recordSenders) (auto intro!: st)
  have upd: "triple D own (covered D M) ?P (ask bool_of (UpdateData rq ri ?m))
      (\<lambda>ok s. covered D M s \<and> fresh_id D id2 s \<and> (ok \<longrightarrow> data_is (rq, ri) ?m s))"
    by (rule triple_ask)
      (use update_asserts [OF _ sub(2)] update_unique in \<open>auto simp: D simp del: documented.simps intro!: st\<close>)
  have no_new: "J \<subseteq> mkeys (tj_messages prev)" if "newMessages (tj_messages prev) (tj_messages job) = []"
    using no_new_keys [OF that] J by simp
  show ?thesis
    unfolding append_in_place_def
    by (rule triple_if, rule triple_finish [OF D no_new], blast, blast,
        rule triple_seq [OF rec], rule triple_seq [OF upd], rule triple_if, rule triple_throw, blast,
        rule triple_conseq [OF triple_settle_append [OF own D K sub(1)]]) blast+
qed

lemma triple_append_pending:
  assumes own: "id1 \<in> own" "id2 \<in> own"
    and D: "D = done_key sha pfx" and K: "K = makeKeys sha pfx" and J: "J = mkeys (tj_messages job)"
  shows "triple D own (covered D M)
    (\<lambda>s. covered D M s \<and> fresh_id D id1 s \<and> fresh_id D id2 s \<and> data_is (rq, ri) prev s)
    (append_pending K pj rq ri prev (K (Coalesce sid)) job (Some (wq, id1)) first) (appended_post D M J wq id2)"
proof -
  let ?A = "\<lambda>s. covered D M s \<and> fresh_id D id1 s \<and> fresh_id D id2 s \<and> data_is (rq, ri) prev s"
  let ?N = "mkeys (tj_messages prev)"
  note st = steady own core_intros
  have state: "triple D own (covered D M) ?A (ask state_of (GetState rq ri))
      (\<lambda>st s. ?A s \<and> (pending_state st \<longrightarrow> covered_or_done D (rq, ri) ?N s))"
    by (rule triple_getState) (auto simp: D intro!: st)
  have ran: "triple D own (covered D M) (\<lambda>s. ?A s \<and> (pending_state x \<longrightarrow> covered_or_done D (rq, ri) ?N s))
      (turnRan K ri) (\<lambda>ran s. ?A s \<and> (\<not> ran \<longrightarrow> covered_by D (rq, ri) ?N s))"
    if "pending_state x" for x
    by (rule triple_ran_check [OF D K that]) (auto simp: D intro!: st)
  have ne: "rq \<noteq> wq" if "must_relocate rq prev job (Some (wq, id1))"
    using that by (simp add: must_relocate_def)
  show ?thesis
    unfolding append_pending_def option.sel fst_conv snd_conv
    by (rule triple_seq [OF state], rule triple_if, rule triple_give_up, blast,
        rule triple_seq [OF ran], blast, rule triple_if, rule triple_give_up, blast,
        rule triple_if, rule triple_conseq [OF triple_relocate [OF own ne D K J]], assumption, blast, blast,
        rule triple_conseq [OF triple_append_in_place [OF own(2) D K J]]) blast+
qed

lemma triple_tryAppend:
  assumes own: "id1 \<in> own" "id2 \<in> own"
    and D: "D = done_key sha pfx" and K: "K = makeKeys sha pfx" and J: "J = mkeys (tj_messages job)"
  shows "triple D own (covered D M)
    (\<lambda>s. covered D M s \<and> fresh_id D id1 s \<and> fresh_id D id2 s)
    (tryAppend K pj (K (Coalesce sid)) job (Some (wq, id1)) first) (appended_post D M J wq id2)"
proof -
  let ?P = "\<lambda>s. covered D M s \<and> fresh_id D id1 s \<and> fresh_id D id2 s"
  note st = steady own core_intros
  have get: "triple D own (covered D M) ?P (ask (\<lambda>r. parse_ref (text_of r)) (GetKey (K (Coalesce sid)))) (\<lambda>_. ?P)"
    by (rule triple_quiet) (auto simp: D intro!: st)
  have job: "triple D own (covered D M) ?P (ask job_of_answer (GetJob rq ri))
      (\<lambda>r s. ?P s \<and> (\<forall>prev. r = Some prev \<longrightarrow> data_is (rq, ri) prev s))" for rq ri
    by (rule triple_harmless) (auto simp: D data_is_def dest: used_idsD intro!: st)
  show ?thesis
    unfolding tryAppend_def
    by (rule triple_seq [OF get], rule triple_option, rule triple_give_up, blast,
        rule triple_seq [OF job], rule triple_option, rule triple_give_up, blast,
        rule triple_conseq [OF triple_append_pending [OF own D K J]]) blast+
qed

lemma add_fresh_asserts:
  assumes "unique_ids s" "rest_ok D q i (mkeys (tj_messages d)) s" "covered D M s"
  shows "unique_ids (snd (documented (AddJob q i False d) s))"
    and "covered D (M \<union> mkeys (tj_messages d)) (snd (documented (AddJob q i False d) s))"
proof -
  let ?s = "snd (documented (AddJob q i False d) s)"
  have "unique_ids ?s \<and> covered D (M \<union> mkeys (tj_messages d)) ?s"
    if f: "fresh_id D i s"
  proof
    have none: "qs_jobs s (q, i) = None" "\<forall>q. qs_jobs s (q, i) = None" "qs_keys s (D i) = None"
      using f by (auto simp: fresh_id_def)
    show "unique_ids ?s"
      by (rule unique_ids_fresh [OF assms(1) none(2)]) (simp_all add: none(1))
    have "covered D M ?s"
      using assms(3) add_covers [OF none(1)] unfolding covered_def by blast
    moreover have "covered D (mkeys (tj_messages d)) ?s"
      unfolding covered_def using add_new [where D = D, OF none(1,3)] by blast
    ultimately show "covered D (M \<union> mkeys (tj_messages d)) ?s" by (simp only: covered_Un)
  qed
  moreover have "unique_ids ?s \<and> covered D (M \<union> mkeys (tj_messages d)) ?s"
    if c: "covered_by D (q, i) (mkeys (tj_messages d)) s" and only: "only_at q i s"
  proof (cases "qs_jobs s (q, i)")
    case None
    have keep: "covers_at D s loc m \<Longrightarrow> covers_at D ?s loc m" for loc m
      using None by (rule add_covers)
    have "\<forall>q'. qs_jobs s (q', i) = None" using None only by (metis only_at_def)
    then have "unique_ids ?s"
      by (rule unique_ids_fresh [OF assms(1), where q = q]) (simp_all add: None)
    moreover have "covered D M ?s"
      using assms(3) keep unfolding covered_def by blast
    moreover have "covered D (mkeys (tj_messages d)) ?s"
      using c keep unfolding covered_def covered_by_def by blast
    ultimately show ?thesis by (simp only: covered_Un)
  next
    case (Some j)
    then show ?thesis using assms(1,3) covered_by_covered [OF c] by (simp add: covered_Un)
  qed
  ultimately show "unique_ids ?s" "covered D (M \<union> mkeys (tj_messages d)) ?s"
    using assms(2) unfolding rest_ok_def by blast+
qed

lemma triple_addFresh:
  assumes own: "id2 \<in> own" and D: "D = done_key sha pfx" and K: "K = makeKeys sha pfx"
    and J: "J = mkeys (tj_messages job)"
  shows "triple D own (covered D M) (\<lambda>s. covered D M s \<and> rest_ok D wq id2 J s)
    (addFresh K pj job wq (K (Coalesce sid)) id2) (\<lambda>_. covered D (M \<union> J))"
proof -
  let ?P = "\<lambda>s. covered D M s \<and> rest_ok D wq id2 J s"
  note st = steady own core_intros
  have set: "triple D own (covered D M) ?P
      (tell (SetKey (K (Coalesce sid)) (RefText wq id2) COALESCE_TTL_MS)) (\<lambda>_. ?P)"
    by (rule triple_quiet_tell) (auto simp: D K intro!: st)
  have rec: "triple D own (covered D M) ?P (recordSenders K pj (tj_jobToken job) id2 (tj_senders job)) (\<lambda>_. ?P)"
    unfolding D K by (rule triple_recordSenders) (auto intro!: st)
  have add: "triple D own (covered D M) ?P (tell (AddJob wq id2 False job)) (\<lambda>_. covered D (M \<union> J))"
  proof (rule triple_tell)
    fix s assume us: "unique_ids s" and p: "?P s"
    then have r: "rest_ok D wq id2 (mkeys (tj_messages job)) s" and c: "covered D M s"
      using J by simp_all
    note f = add_fresh_asserts [OF us r c]
    show "unique_ids (snd (documented (AddJob wq id2 False job) s))" by (rule f(1))
    show "covered D (M \<union> J) (snd (documented (AddJob wq id2 False job) s))"
      unfolding J by (rule f(2))
    then show "covered D M (snd (documented (AddJob wq id2 False job) s))" by (simp only: covered_Un)
  qed (auto simp: D intro!: st)
  show ?thesis
    unfolding addFresh_def
    by (rule triple_seq [OF set], rule triple_seq [OF rec], rule triple_seq [OF add], rule triple_return)
      (auto simp: covered_Un)
qed

lemma triple_lock:
  assumes "ustable (done_key sha pfx) own A" "core (done_key sha pfx) A" "\<And>s. A s \<Longrightarrow> I s"
  shows "triple (done_key sha pfx) own I A
    (acquireAppendLock (makeKeys sha pfx (CoalesceLock sid)) owner late) (\<lambda>_. A)"
proof (induction late)
  case Nil
  then show ?case by (auto intro!: triple_crash assms(3))
next
  case (Cons l late)
  have nx: "triple (done_key sha pfx) own I A
      (ask bool_of (SetKeyNX (makeKeys sha pfx (CoalesceLock sid)) (OwnerText owner) 2000)) (\<lambda>_. A)"
    by (rule triple_quiet) (use assms in auto)
  show ?case
    unfolding acquireAppendLock.simps
    by (rule triple_seq [OF nx], rule triple_if, rule triple_return)
      (auto intro!: assms(3) Cons triple_throw split del: if_split intro: triple_if)
qed

lemma triple_afterwards:
  fixes p :: "('w, 'a) program"
  assumes p: "triple D own I A p Q" and c: "harmless D c"
    and I: "ustable D own I" "core D I" and Q: "\<And>a. ustable D own (Q a)" "\<And>a. core D (Q a)"
  shows "triple D own I A (afterwards p c) Q"
  unfolding triple_def
proof (rule hoare_afterwards [OF p [unfolded triple_def]])
  fix R :: "queue_obs \<Rightarrow> bool"
  assume "R \<in> insert (\<lambda>s. unique_ids s \<and> I s) (range (\<lambda>a s. unique_ids s \<and> Q a s))"
  then obtain B where R: "R = (\<lambda>s. unique_ids s \<and> B s)" and B: "ustable D own B" "core D B"
    using I Q by auto
  have "triple D own I (\<lambda>s. I s \<and> B s) (tell c :: ('w, unit) program) (\<lambda>_ s. I s \<and> B s)"
    by (rule triple_quiet_tell [OF c]) (auto intro!: steady core_intros I B)
  then show "hoare D own (\<lambda>s. unique_ids s \<and> I s) (\<lambda>s. (unique_ids s \<and> I s) \<and> R s)
      (tell c :: ('w, unit) program) (\<lambda>_. R)"
    unfolding triple_def by (rule hoare_conseq) (auto simp: R)
qed

lemma triple_enqueueTurn:
  assumes q: "queueName target = Some wq"
    and own: "(case presetId of Some i \<Rightarrow> i | None \<Rightarrow> uuid1) = id1" "id1 \<in> own"
      "(case presetId of Some i \<Rightarrow> i | None \<Rightarrow> uuid2) = id2" "id2 \<in> own"
    and D: "D = done_key sha pfx" and K: "K = makeKeys sha pfx" and J: "J = mkeys (tj_messages job)"
  shows "triple D own (covered D M)
    (\<lambda>s. covered D M s \<and> fresh_id D id1 s \<and> fresh_id D id2 s)
    (enqueueTurn K pj job target presetId first owner uuid1 uuid2 late) (\<lambda>_. covered D (M \<union> J))"
proof -
  let ?P = "\<lambda>s. covered D M s \<and> fresh_id D id1 s \<and> fresh_id D id2 s"
  note st = steady own(2,4) core_intros
  have lock: "triple D own (covered D M) ?P
      (acquireAppendLock (K (CoalesceLock (tj_sessionId job))) owner late) (\<lambda>_. ?P)"
    unfolding D K by (rule triple_lock) (auto intro!: st)
  have rest: "triple D own (covered D M) (appended_post D M J wq id2 r)
      (case r of None \<Rightarrow> addFresh K pj job wq (K (Coalesce (tj_sessionId job))) id2 | Some x \<Rightarrow> return x)
      (\<lambda>_. covered D (M \<union> J))" for r
  proof (cases r)
    case None
    then show ?thesis using triple_addFresh [OF own(4) D K J] by simp
  next
    case (Some x)
    have "triple D own (covered D M) (covered D (M \<union> J)) (return x) (\<lambda>_. covered D (M \<union> J))"
      by (rule triple_return) (auto simp: covered_Un)
    then show ?thesis using Some by simp
  qed
  have body: "triple D own (covered D M) ?P
      (seq (tryAppend K pj (K (Coalesce (tj_sessionId job))) job (Some (wq, id1)) first) (\<lambda>r.
         case r of None \<Rightarrow> addFresh K pj job wq (K (Coalesce (tj_sessionId job))) id2 | Some x \<Rightarrow> return x))
      (\<lambda>_. covered D (M \<union> J))"
    by (rule triple_seq [OF triple_tryAppend [OF own(2,4) D K J] rest])
  show ?thesis
    unfolding enqueueTurn_def q option.case(2) Let_def own(1,3)
    by (rule triple_seq [OF lock], rule triple_afterwards [OF body]) (auto simp: D K intro!: st)
qed


text \<open>The witness: the session's job is claimed between the update of its data and the state check. The
  message is enqueued again as a job of its own, and covered there.\<close>

definition claim_j1 :: "queue_obs \<Rightarrow> queue_obs" where
  "claim_j1 s = (case qs_jobs s (''turns'', ''j1'') of
     Some j \<Rightarrow> if pending_state (qj_state j)
       then s\<lparr>qs_jobs := (qs_jobs s)((''turns'', ''j1'') \<mapsto>
         j\<lparr>qj_state := Active, qj_lock := True, qj_claim := Some (tj_messages (qj_data j))\<rparr>)\<rparr>
       else s
   | None \<Rightarrow> s)"

definition race_start :: queue_obs where
  "race_start = \<lparr>qs_keys = [''p:coalesce:s'' \<mapsto> RefText ''turns'' ''j1''],
     qs_jobs = [(''turns'', ''j1'') \<mapsto> new_job False (job_of [msg ''1'' ''a''])],
     qs_handled = {}, qs_used = {''j1''}\<rparr>"

definition race_moves :: "(queue_obs \<Rightarrow> queue_obs) list" where
  "race_moves = replicate 7 (\<lambda>s. s) @ [claim_j1] @ replicate 4 (\<lambda>s. s)"

definition race_run :: "(queue_obs, enqueue_result) outcome" where
  "race_run = enqueueTurn (makeKeys (\<lambda>d. d) ''p'') (\<lambda>t. None) (job_of [msg ''2'' ''b'']) SharedTarget
     (Some ''j2'') False ''o'' ''u1'' ''u2'' [False] documented race_start race_moves"

lemma race_result: "fst race_run = Some (Inr (result ''j2'' ''turns'' False))"
  by code_simp

lemma claim_j1_move: "(worker_move D own)\<^sup>*\<^sup>* s (claim_j1 s)"
proof (cases "\<exists>j. qs_jobs s (''turns'', ''j1'') = Some j \<and> pending_state (qj_state j)")
  case True
  then obtain j where j: "qs_jobs s (''turns'', ''j1'') = Some j" "pending_state (qj_state j)" by blast
  have "worker_move D own s (claim_j1 s)"
    using mv_claim [of s "''turns''" "''j1''" j D own] j by (simp add: claim_j1_def)
  then show ?thesis by blast
next
  case False
  then have "claim_j1 s = s" by (auto simp: claim_j1_def split: option.splits)
  then show ?thesis by simp
qed


section \<open>A crash in the middle of a move\<close>

text \<open>A move keeps the job's id. When it crashes between adding the held copy and taking the original,
  both carry one turn-done marker; a message appended to the original is then lost when the copy
  runs: \<open>enqueueTurn\<close> answered that it is in the original, and every worker skips the original.\<close>

definition crash_start :: queue_obs where
  "crash_start = \<lparr>qs_keys = [''p:coalesce:s'' \<mapsto> RefText ''turns.dead'' ''j1''],
     qs_jobs = [(''turns.dead'', ''j1'') \<mapsto> new_job False (job_of [msg ''1'' ''a''])],
     qs_handled = {}, qs_used = {''j1''}\<rparr>"

definition crashed_move :: queue_obs where
  "crashed_move = fst (snd (moveTo (makeKeys (\<lambda>d. d) ''p'') (\<lambda>t. None) ''turns.dead'' ''j1''
     (job_of [msg ''1'' ''a'']) ''default'' False True ''o1'' ''h1'' [False] documented crash_start
     (replicate 7 (\<lambda>s. s))))"

text \<open>The append lock's two seconds pass, then a message arrives.\<close>

definition late_append :: "(queue_obs, enqueue_result) outcome" where
  "late_append = enqueueTurn (makeKeys (\<lambda>d. d) ''p'') (\<lambda>t. None) (job_of [msg ''2'' ''b'']) SharedTarget
     (Some ''j2'') False ''o2'' ''u1'' ''u2'' [False] documented
     (crashed_move\<lparr>qs_keys := (qs_keys crashed_move)(''p:lock:coalesce:s'' := None)\<rparr>) (replicate 12 (\<lambda>s. s))"

text \<open>The hold lapses; a worker claims the copy, runs it and writes the marker.\<close>

definition run_copy :: "queue_obs \<Rightarrow> queue_obs" where
  "run_copy s = (case qs_jobs s (''turns'', ''j1'') of
     None \<Rightarrow> s
   | Some j \<Rightarrow> s\<lparr>qs_jobs := (qs_jobs s)((''turns'', ''j1'') \<mapsto>
         j\<lparr>qj_state := Active, qj_lock := True, qj_claim := Some (tj_messages (qj_data j))\<rparr>),
       qs_keys := (qs_keys s)(''p:turn-done:j1'' \<mapsto> OtherText ''1''),
       qs_handled := qs_handled s \<union> set (map msgKey (tj_messages (qj_data j)))\<rparr>)"


end
