(* ===== verification/Secrets.thy ===== *)
theory Secrets
  imports Prelude
begin

text \<open>
  Secret references (\<^verbatim>\<open>src/secrets/ref.ts\<close>, \<^verbatim>\<open>persona-var.ts\<close>), the mount split and the allowed
  prefixes (\<^verbatim>\<open>src/secrets/allowlist.ts\<close>, the mount list of \<^verbatim>\<open>config.ts\<close>), the environment backend
  and the admission part of a resolution (\<^verbatim>\<open>src/secrets/index.ts\<close>). Refusals are values: one
  constructor per message.
\<close>

section \<open>References\<close>

definition word_char :: "char \<Rightarrow> bool" where
  "word_char c \<longleftrightarrow> is_alnum c \<or> c = CHR ''_''"

text \<open>\<open>/^[A-Za-z0-9_][A-Za-z0-9_.-]*$/\<close>.\<close>

definition SEGMENT_RE :: "string \<Rightarrow> bool" where
  "SEGMENT_RE s \<longleftrightarrow>
     (case s of [] \<Rightarrow> False
      | c # cs \<Rightarrow> word_char c \<and> list_all (\<lambda>x. word_char x \<or> x = CHR ''.'' \<or> x = CHR ''-'') cs)"

definition MAX_REF_LENGTH :: nat where "MAX_REF_LENGTH = 1024"

definition PERSONA_VAR_PREFIX :: string where "PERSONA_VAR_PREFIX = ''PERSONA_''"

text \<open>\<open>/^PERSONA_[A-Z0-9_]+$/\<close>.\<close>

definition PERSONA_VAR_RE :: "string \<Rightarrow> bool" where
  "PERSONA_VAR_RE s \<longleftrightarrow> starts_with s PERSONA_VAR_PREFIX \<and> drop 8 s \<noteq> []
     \<and> list_all (\<lambda>c. is_upper c \<or> is_digit c \<or> c = CHR ''_'') (drop 8 s)"

datatype secret_ref = VaultRef string string | EnvRef string

definition canonicalRef :: "secret_ref \<Rightarrow> string" where
  "canonicalRef r =
     (case r of
        VaultRef path field \<Rightarrow> ''vault://'' @ path @ ''#'' @ field
      | EnvRef name \<Rightarrow> ''env://'' @ name)"

datatype path_error = PathEmpty | EmptySegment | DotSegment | BadSegment

fun check_segments :: "string list \<Rightarrow> path_error option" where
  "check_segments [] = None"
| "check_segments (s # ss) =
     (if s = [] then Some EmptySegment
      else if s = ''.'' \<or> s = ''..'' then Some DotSegment
      else if \<not> SEGMENT_RE s then Some BadSegment
      else check_segments ss)"

definition checkVaultPath :: "string \<Rightarrow> path_error + string list" where
  "checkVaultPath path =
     (if path = [] then Inl PathEmpty
      else case check_segments (split_on CHR ''/'' path) of
             Some e \<Rightarrow> Inl e
           | None \<Rightarrow> Inr (split_on CHR ''/'' path))"

datatype ref_error =
    NotNonEmpty | TooLong | ControlCharacter | Whitespace | NonAscii | PercentEncoding | Backslash
  | QueryString | BadEnvName | BadScheme | MissingField | ManyHashes | EmptyField | BadField
  | Userinfo | BadPath path_error | NeedsMountAndPath

definition control_char :: "char \<Rightarrow> bool" where
  "control_char c \<longleftrightarrow> code_of c \<le> 31 \<or> code_of c = 127"

definition printable :: "char \<Rightarrow> bool" where
  "printable c \<longleftrightarrow> 32 \<le> code_of c \<and> code_of c \<le> 126"

definition parse_vault_body :: "string \<Rightarrow> ref_error + secret_ref" where
  "parse_vault_body body =
     (case split_on CHR ''#'' body of
        [path, field] \<Rightarrow>
          if field = [] then Inl EmptyField
          else if \<not> SEGMENT_RE field then Inl BadField
          else if CHR ''@'' \<in> set path then Inl Userinfo
          else (case checkVaultPath path of
                  Inl e \<Rightarrow> Inl (BadPath e)
                | Inr segs \<Rightarrow> if length segs < 2 then Inl NeedsMountAndPath else Inr (VaultRef path field))
      | [_] \<Rightarrow> Inl MissingField
      | _ \<Rightarrow> Inl ManyHashes)"

definition parseRef :: "string \<Rightarrow> ref_error + secret_ref" where
  "parseRef input =
     (if input = [] then Inl NotNonEmpty
      else if length input > MAX_REF_LENGTH then Inl TooLong
      else if list_ex control_char input then Inl ControlCharacter
      else if list_ex is_space input then Inl Whitespace
      else if list_ex (\<lambda>c. \<not> printable c) input then Inl NonAscii
      else if CHR ''%'' \<in> set input then Inl PercentEncoding
      else if CHR 0x5C \<in> set input then Inl Backslash
      else if CHR ''?'' \<in> set input then Inl QueryString
      else if starts_with input ''env://''
      then (if \<not> PERSONA_VAR_RE (drop 6 input) then Inl BadEnvName else Inr (EnvRef (drop 6 input)))
      else if \<not> starts_with input ''vault://'' then Inl BadScheme
      else parse_vault_body (drop 8 input))"

section \<open>Mounts and allowed prefixes\<close>

definition PERSONA_TOKEN :: string where "PERSONA_TOKEN = ''{persona}''"

text \<open>\<open>/^[a-z0-9][a-z0-9-]{0,62}$/\<close>.\<close>

definition PERSONA_NAME_RE :: "string \<Rightarrow> bool" where
  "PERSONA_NAME_RE s \<longleftrightarrow>
     (case s of [] \<Rightarrow> False
      | c # cs \<Rightarrow> (is_lower c \<or> is_digit c) \<and> length cs \<le> 62
          \<and> list_all (\<lambda>x. is_lower x \<or> is_digit x \<or> x = CHR ''-'') cs)"

record allowed_prefix =
  ap_mount :: string
  ap_pathPrefix :: string

abbreviation segs_of :: "string \<Rightarrow> string list" where
  "segs_of \<equiv> split_on CHR ''/''"

abbreviation path_of :: "string list \<Rightarrow> string" where
  "path_of \<equiv> join_with CHR ''/''"

text \<open>The loop of \<open>longestMount\<close>: \<open>best\<close> and \<open>bestLen\<close> so far.\<close>

fun longest_mount_loop :: "string list \<Rightarrow> string option \<Rightarrow> nat \<Rightarrow> string list \<Rightarrow> string option" where
  "longest_mount_loop segments best bestLen [] = best"
| "longest_mount_loop segments best bestLen (m # ms) =
     (if prefix (segs_of m) segments \<and> length (segs_of m) > bestLen
      then longest_mount_loop segments (Some m) (length (segs_of m)) ms
      else longest_mount_loop segments best bestLen ms)"

definition longestMount :: "string list \<Rightarrow> string list \<Rightarrow> string option" where
  "longestMount segments mounts = longest_mount_loop segments None 0 mounts"

definition splitMount :: "string \<Rightarrow> string list \<Rightarrow> (string \<times> string) option" where
  "splitMount path mounts =
     (case longestMount (segs_of path) mounts of
        None \<Rightarrow> None
      | Some mount \<Rightarrow>
          if mount = [] \<or> drop (length (segs_of mount)) (segs_of path) = [] then None
          else Some (mount, path_of (drop (length (segs_of mount)) (segs_of path))))"

definition requestPathFor :: "string \<Rightarrow> string list \<Rightarrow> string option" where
  "requestPathFor path mounts =
     (case splitMount path mounts of
        None \<Rightarrow> None
      | Some (mount, p) \<Rightarrow> Some (mount @ ''/data/'' @ p))"

definition expand :: "string \<Rightarrow> string list \<Rightarrow> string list" where
  "expand persona segs = map (\<lambda>s. if s = PERSONA_TOKEN then persona else s) segs"

definition prefix_admits :: "string \<Rightarrow> string \<Rightarrow> allowed_prefix \<Rightarrow> bool" where
  "prefix_admits finalRequestPath persona p \<longleftrightarrow>
     \<not> (PERSONA_TOKEN \<in> set (segs_of (ap_pathPrefix p)) \<and> \<not> PERSONA_NAME_RE persona)
     \<and> (let allowed = ap_mount p @ ''/data/'' @ path_of (expand persona (segs_of (ap_pathPrefix p)))
        in finalRequestPath = allowed \<or> starts_with finalRequestPath (allowed @ ''/''))"

definition isAllowed :: "string \<Rightarrow> string \<Rightarrow> allowed_prefix list \<Rightarrow> bool" where
  "isAllowed finalRequestPath persona allowed \<longleftrightarrow>
     (case checkVaultPath finalRequestPath of
        Inl _ \<Rightarrow> False
      | Inr _ \<Rightarrow> list_ex (prefix_admits finalRequestPath persona) allowed)"

section \<open>Configuration\<close>

datatype vault_config_error =
    TokenNotWholeSegment | BadEntry path_error | UnderNoMount | TokenInMount | WholeMount
  | BadMount path_error | NestedMounts | NoPrefixes

definition strip_slash :: "string \<Rightarrow> string" where
  "strip_slash s = (if s \<noteq> [] \<and> last s = CHR ''/'' then butlast s else s)"

definition brace_token_ok :: "string \<Rightarrow> bool" where
  "brace_token_ok s \<longleftrightarrow> (CHR ''{'' \<in> set s \<or> CHR ''}'' \<in> set s \<longrightarrow> s = PERSONA_TOKEN)"

definition parse_prefix :: "string list \<Rightarrow> string \<Rightarrow> vault_config_error + allowed_prefix" where
  "parse_prefix mounts entry =
     (let segments = segs_of entry in
      if \<not> list_all brace_token_ok segments then Inl TokenNotWholeSegment
      else case checkVaultPath (path_of (expand ''persona'' segments)) of
        Inl e \<Rightarrow> Inl (BadEntry e)
      | Inr _ \<Rightarrow>
          (case longestMount segments mounts of
             None \<Rightarrow> Inl UnderNoMount
           | Some mount \<Rightarrow>
               if mount = [] then Inl UnderNoMount
               else let mountLen = length (segs_of mount) in
                 if PERSONA_TOKEN \<in> set (take mountLen segments) then Inl TokenInMount
                 else if length segments = mountLen then Inl WholeMount
                 else Inr \<lparr>ap_mount = mount, ap_pathPrefix = path_of (drop mountLen segments)\<rparr>))"

fun parse_prefix_list :: "string list \<Rightarrow> string list \<Rightarrow> vault_config_error + allowed_prefix list" where
  "parse_prefix_list mounts [] = Inr []"
| "parse_prefix_list mounts (entry0 # rest) =
     (let entry = strip_slash (js_trim entry0) in
      if entry = [] then parse_prefix_list mounts rest
      else case parse_prefix mounts entry of
        Inl e \<Rightarrow> Inl e
      | Inr p \<Rightarrow> (case parse_prefix_list mounts rest of Inl e \<Rightarrow> Inl e | Inr ps \<Rightarrow> Inr (p # ps)))"

definition parseAllowedPrefixes :: "string \<Rightarrow> string list \<Rightarrow> vault_config_error + allowed_prefix list" where
  "parseAllowedPrefixes raw mounts = parse_prefix_list mounts (split_on CHR '','' raw)"

text \<open>The mounts of \<open>loadVaultConfig\<close>: configured, or the first segment of every prefix; each a valid
  path, none inside another.\<close>

definition trimmed_entries :: "string \<Rightarrow> string list" where
  "trimmed_entries raw = filter (\<lambda>s. s \<noteq> []) (map js_trim (split_on CHR '','' raw))"

definition mount_list :: "string \<Rightarrow> string option \<Rightarrow> string list" where
  "mount_list rawPrefixes rawMounts =
     (case rawMounts of
        Some r \<Rightarrow> filter (\<lambda>s. s \<noteq> []) (map (\<lambda>s. strip_slash (js_trim s)) (split_on CHR '','' r))
      | None \<Rightarrow> fresh_by (\<lambda>s. s) [] (map (\<lambda>e. hd (segs_of e)) (trimmed_entries rawPrefixes)))"

definition nested :: "string \<Rightarrow> string \<Rightarrow> bool" where
  "nested a b \<longleftrightarrow> a \<noteq> b \<and> starts_with b (a @ ''/'')"

fun first_bad_mount :: "string list \<Rightarrow> path_error option" where
  "first_bad_mount [] = None"
| "first_bad_mount (m # ms) = (case checkVaultPath m of Inl e \<Rightarrow> Some e | Inr _ \<Rightarrow> first_bad_mount ms)"

definition load_mounts :: "string \<Rightarrow> string option
    \<Rightarrow> vault_config_error + string list \<times> allowed_prefix list" where
  "load_mounts rawPrefixes rawMounts =
     (if trimmed_entries rawPrefixes = [] then Inl NoPrefixes
      else let mounts = mount_list rawPrefixes rawMounts in
        case first_bad_mount mounts of
          Some e \<Rightarrow> Inl (BadMount e)
        | None \<Rightarrow>
            if list_ex (\<lambda>a. list_ex (nested a) mounts) mounts then Inl NestedMounts
            else case parseAllowedPrefixes rawPrefixes mounts of
              Inl e \<Rightarrow> Inl e
            | Inr ps \<Rightarrow> Inr (mounts, ps))"

section \<open>Admission of a resolution\<close>

datatype failure_reason =
    invalid_ref | disabled | no_mount | bad_prefix | env_missing | missing_secret | missing_field
  | non_string | kv_v1 | denied | auth | unreachable | timeout | server_error | bad_response
  | invalid_value

text \<open>\<open>createEnvBackend(env).read\<close>: the name rule is checked again, an empty value is missing.\<close>

definition env_read :: "(string \<rightharpoonup> string) \<Rightarrow> string \<Rightarrow> failure_reason + string" where
  "env_read env name =
     (if \<not> PERSONA_VAR_RE name then Inl env_missing
      else case env name of
        None \<Rightarrow> Inl env_missing
      | Some v \<Rightarrow> if v = [] then Inl env_missing else Inr v)"

record vault_config =
  vc_mounts :: "string list"
  vc_prefixes :: "allowed_prefix list"
  vc_cacheTtlMs :: int
  vc_staleMaxMs :: int

text \<open>What \<open>resolveVault\<close> passes on: the cache key and the three arguments of \<open>client.read\<close>.\<close>

record vault_request =
  vr_key :: string
  vr_mount :: string
  vr_path :: string
  vr_field :: string

definition resolveVault_admit :: "vault_config option \<Rightarrow> string \<Rightarrow> string \<Rightarrow> string
    \<Rightarrow> failure_reason + vault_request" where
  "resolveVault_admit vault persona path field =
     (case vault of
        None \<Rightarrow> Inl disabled
      | Some cfg \<Rightarrow>
          (case requestPathFor path (vc_mounts cfg) of
             None \<Rightarrow> Inl no_mount
           | Some finalPath \<Rightarrow>
               if \<not> isAllowed finalPath persona (vc_prefixes cfg) then Inl bad_prefix
               else (case splitMount path (vc_mounts cfg) of
                       None \<Rightarrow> Inl no_mount
                     | Some (mount, p) \<Rightarrow>
                         Inr \<lparr>vr_key = canonicalRef (VaultRef path field), vr_mount = mount,
                              vr_path = p, vr_field = field\<rparr>)))"

datatype admitted = EnvValue string | VaultRequest vault_request

text \<open>\<open>resolve\<close> up to the cache: the reference is parsed again from its canonical spelling.\<close>

definition resolve_admit :: "(string \<rightharpoonup> string) \<Rightarrow> vault_config option \<Rightarrow> string \<Rightarrow> secret_ref
    \<Rightarrow> failure_reason + admitted" where
  "resolve_admit env vault persona ref0 =
     (case parseRef (canonicalRef ref0) of
        Inl _ \<Rightarrow> Inl invalid_ref
      | Inr (EnvRef name) \<Rightarrow>
          (case env_read env name of Inl e \<Rightarrow> Inl e | Inr v \<Rightarrow> Inr (EnvValue v))
      | Inr (VaultRef path field) \<Rightarrow>
          (case resolveVault_admit vault persona path field of
             Inl e \<Rightarrow> Inl e | Inr r \<Rightarrow> Inr (VaultRequest r)))"

end
