(* ===== verification/SecretsFacts.thy ===== *)
theory SecretsFacts
  imports Secrets
begin

text \<open>
  Facts about \<^verbatim>\<open>Secrets\<close>: the references that parse are exactly the canonical spellings of
  the grammar, the allowed-prefix check is the segment-prefix relation, and an admitted Vault
  request stays under a prefix of its own mount.
\<close>

section \<open>The reference grammar\<close>

definition grammar :: "secret_ref \<Rightarrow> bool" where
  "grammar r \<longleftrightarrow>
     (case r of
        EnvRef name \<Rightarrow> PERSONA_VAR_RE name
      | VaultRef path field \<Rightarrow> SEGMENT_RE field \<and> 2 \<le> length (segs_of path)
          \<and> list_all SEGMENT_RE (segs_of path))
     \<and> length (canonicalRef r) \<le> MAX_REF_LENGTH"

definition plain_char :: "char \<Rightarrow> bool" where
  "plain_char c \<longleftrightarrow> \<not> control_char c \<and> \<not> is_space c \<and> printable c
     \<and> c \<noteq> CHR ''%'' \<and> c \<noteq> CHR 0x5C \<and> c \<noteq> CHR ''?''"

named_theorems char_class \<open>classes of characters\<close>

lemma char_code_neq: "code_of c \<noteq> code_of d \<Longrightarrow> c \<noteq> d"
  by auto

lemma word_char_plain [char_class]: "word_char c \<Longrightarrow> plain_char c"
proof -
  assume w: "word_char c"
  have "code_of c \<noteq> 37" "code_of c \<noteq> 92" "code_of c \<noteq> 63" "code_of c \<noteq> 127" "code_of c \<noteq> 160"
    "33 \<le> code_of c" "code_of c \<le> 126"
    using w by (auto simp: word_char_def is_alnum_def is_digit_def is_upper_def is_lower_def)
  then show ?thesis
    by (auto simp: plain_char_def control_char_def is_space_def printable_def)
qed

lemma word_char_ordinary [char_class]:
  "word_char c \<Longrightarrow> c \<noteq> CHR ''#'' \<and> c \<noteq> CHR ''@'' \<and> c \<noteq> CHR ''/'' \<and> c \<noteq> CHR ''.''"
  by (auto simp: word_char_def is_alnum_def is_digit_def is_upper_def is_lower_def)

lemma plain_constants [char_class]:
  "plain_char CHR ''/''" "plain_char CHR ''#''" "plain_char CHR '':''" "plain_char CHR ''.''"
  "plain_char CHR ''-''"
  by (auto simp: plain_char_def control_char_def is_space_def printable_def)

lemma segment_chars:
  assumes "SEGMENT_RE s" "c \<in> set s"
  shows "plain_char c \<and> c \<noteq> CHR ''#'' \<and> c \<noteq> CHR ''@'' \<and> c \<noteq> CHR ''/''"
proof (cases s)
  case Nil
  with assms show ?thesis by simp
next
  case (Cons d ds)
  with assms have "word_char c \<or> c = CHR ''.'' \<or> c = CHR ''-''"
    by (auto simp: SEGMENT_RE_def list_all_iff)
  then show ?thesis
    by (elim disjE) (auto simp: char_class)
qed

lemma segment_not_special:
  "SEGMENT_RE s \<Longrightarrow> s \<noteq> [] \<and> s \<noteq> ''.'' \<and> s \<noteq> ''..''"
  by (auto simp: SEGMENT_RE_def word_char_def is_alnum_def is_digit_def is_upper_def is_lower_def)

lemma check_segments_None: "check_segments ss = None \<longleftrightarrow> list_all SEGMENT_RE ss"
  by (induction ss) (auto dest: segment_not_special)

lemma segs_of_empty_iff: "list_all SEGMENT_RE (segs_of path) \<Longrightarrow> path \<noteq> []"
  by (auto simp: SEGMENT_RE_def)

lemma checkVaultPath_ok:
  "checkVaultPath path = Inr segs \<longleftrightarrow> list_all SEGMENT_RE (segs_of path) \<and> segs = segs_of path"
proof (cases "path = []")
  case True
  then show ?thesis by (auto simp: checkVaultPath_def SEGMENT_RE_def)
next
  case False
  then show ?thesis
    using check_segments_None [of "segs_of path"]
    by (cases "check_segments (segs_of path)") (auto simp: checkVaultPath_def)
qed

lemma join_chars: "c \<in> set (join_with d ps) \<Longrightarrow> c = d \<or> (\<exists>p \<in> set ps. c \<in> set p)"
  by (induction d ps rule: join_with.induct) auto

lemma path_chars:
  assumes "list_all SEGMENT_RE (segs_of path)" "c \<in> set path"
  shows "plain_char c \<and> c \<noteq> CHR ''#'' \<and> c \<noteq> CHR ''@''"
proof -
  have "c \<in> set (path_of (segs_of path))" using assms(2) by simp
  from join_chars [OF this] show ?thesis
    using assms(1) segment_chars by (fastforce simp: list_all_iff char_class)
qed

lemma persona_var_chars: "PERSONA_VAR_RE name \<Longrightarrow> c \<in> set name \<Longrightarrow> plain_char c"
proof -
  assume re: "PERSONA_VAR_RE name" and c: "c \<in> set name"
  have "name = take 8 name @ drop 8 name" by simp
  moreover have "take 8 name = PERSONA_VAR_PREFIX"
    using re by (auto simp: PERSONA_VAR_RE_def PERSONA_VAR_PREFIX_def elim!: prefixE)
  ultimately have "c \<in> set PERSONA_VAR_PREFIX \<or> c \<in> set (drop 8 name)"
    using c by (metis Un_iff set_append)
  then show "plain_char c"
  proof
    assume "c \<in> set PERSONA_VAR_PREFIX"
    then have "word_char c"
      by (auto simp: PERSONA_VAR_PREFIX_def word_char_def is_alnum_def is_digit_def is_upper_def)
    then show ?thesis by (rule word_char_plain)
  next
    assume "c \<in> set (drop 8 name)"
    with re have "is_upper c \<or> is_digit c \<or> c = CHR ''_''"
      by (auto simp: PERSONA_VAR_RE_def list_all_iff)
    then have "word_char c" by (auto simp: word_char_def is_alnum_def)
    then show ?thesis by (rule word_char_plain)
  qed
qed

lemma grammar_chars: "grammar r \<Longrightarrow> c \<in> set (canonicalRef r) \<Longrightarrow> plain_char c"
proof (cases r)
  case (EnvRef name)
  assume "grammar r" "c \<in> set (canonicalRef r)"
  moreover have "\<And>c. c \<in> set ''env://'' \<Longrightarrow> plain_char c"
    by (auto simp: plain_char_def control_char_def is_space_def printable_def)
  ultimately show ?thesis
    using EnvRef persona_var_chars by (auto simp: grammar_def canonicalRef_def)
next
  case (VaultRef path field)
  assume "grammar r" "c \<in> set (canonicalRef r)"
  moreover have "\<And>c. c \<in> set ''vault://'' \<Longrightarrow> plain_char c"
    by (auto simp: plain_char_def control_char_def is_space_def printable_def)
  ultimately show ?thesis
    using VaultRef path_chars segment_chars
    by (fastforce simp: grammar_def canonicalRef_def char_class)
qed

lemma grammar_clean:
  assumes "grammar r"
  shows "\<not> list_ex control_char (canonicalRef r)" "\<not> list_ex is_space (canonicalRef r)"
    "\<not> list_ex (\<lambda>x. \<not> printable x) (canonicalRef r)" "CHR ''%'' \<notin> set (canonicalRef r)"
    "CHR 0x5C \<notin> set (canonicalRef r)" "CHR ''?'' \<notin> set (canonicalRef r)"
  using grammar_chars [OF assms] by (fastforce simp: list_ex_iff plain_char_def)+

lemma parse_vault_body_ok:
  "parse_vault_body body = Inr r \<longleftrightarrow>
     (\<exists>path field. r = VaultRef path field \<and> body = path @ CHR ''#'' # field
        \<and> SEGMENT_RE field \<and> 2 \<le> length (segs_of path) \<and> list_all SEGMENT_RE (segs_of path))"
  (is "?parse = ?gram")
proof
  assume p: ?parse
  obtain path field where sp: "split_on CHR ''#'' body = [path, field]"
    using p by (auto simp: parse_vault_body_def split: list.splits)
  then have "body = path @ CHR ''#'' # field"
    using join_split [of "CHR ''#''" body] by simp
  with p sp show ?gram
    by (auto simp: parse_vault_body_def checkVaultPath_ok split: if_splits sum.splits)
next
  assume ?gram
  then obtain path field where r: "r = VaultRef path field" and body: "body = path @ CHR ''#'' # field"
    and f: "SEGMENT_RE field" and n: "2 \<le> length (segs_of path)"
    and segs: "list_all SEGMENT_RE (segs_of path)" by blast
  have "CHR ''#'' \<notin> set path" "CHR ''@'' \<notin> set path" "CHR ''#'' \<notin> set field"
    using path_chars [OF segs] segment_chars [OF f] by blast+
  then have "split_on CHR ''#'' body = [path, field]"
    by (simp add: body split_on_append_sep split_on_no_sep)
  moreover have "checkVaultPath path = Inr (segs_of path)"
    using segs by (simp add: checkVaultPath_ok)
  ultimately show ?parse
    using f n segment_not_special [OF f] \<open>CHR ''@'' \<notin> set path\<close>
    by (simp add: parse_vault_body_def r)
qed

lemma parseRef_dest:
  assumes "parseRef s = Inr r"
  shows "canonicalRef r = s \<and> grammar r"
proof -
  have len: "length s \<le> MAX_REF_LENGTH"
    using assms by (auto simp: parseRef_def split: if_splits)
  show ?thesis
  proof (cases "starts_with s ''env://''")
    case True
    then obtain name where s: "s = ''env://'' @ name" by (auto elim: prefixE)
    with assms have "r = EnvRef name" "PERSONA_VAR_RE name"
      by (auto simp: parseRef_def split: if_splits)
    with s len show ?thesis by (simp add: canonicalRef_def grammar_def)
  next
    case False
    then obtain body where s: "s = ''vault://'' @ body"
      using assms by (auto simp: parseRef_def elim: prefixE split: if_splits)
    with assms False have "parse_vault_body body = Inr r"
      by (auto simp: parseRef_def split: if_splits)
    then obtain path field where "r = VaultRef path field" "body = path @ CHR ''#'' # field"
      "SEGMENT_RE field" "2 \<le> length (segs_of path)" "list_all SEGMENT_RE (segs_of path)"
      using parse_vault_body_ok by blast
    with s len show ?thesis by (simp add: canonicalRef_def grammar_def)
  qed
qed

lemma parseRef_canonical:
  assumes "grammar r"
  shows "parseRef (canonicalRef r) = Inr r"
proof (cases r)
  case (EnvRef name)
  have "length (canonicalRef r) \<le> MAX_REF_LENGTH" "PERSONA_VAR_RE name"
    using assms EnvRef by (auto simp: grammar_def)
  with grammar_clean [OF assms] show ?thesis
    by (simp add: parseRef_def EnvRef canonicalRef_def)
next
  case (VaultRef path field)
  have len: "length (canonicalRef r) \<le> MAX_REF_LENGTH" and "parse_vault_body (path @ CHR ''#'' # field) = Inr r"
    using assms VaultRef by (auto simp: grammar_def parse_vault_body_ok)
  with grammar_clean [OF assms] show ?thesis
    by (simp add: parseRef_def VaultRef canonicalRef_def)
qed

text \<open>C34: A string parses to a secret reference exactly when it is the reference's canonical
  spelling and the reference is in the grammar: an \<open>env://\<close> name of the \<open>PERSONA_\<close> shape, or a
  Vault path of at least two segments and a field that all match the segment pattern (so no
  \<open>.\<close>, \<open>..\<close>, empty segment, userinfo, query, escape or white space can be expressed), within
  the length limit. There is one spelling per reference: the cache key cannot be split.\<close>

theorem parseRef_grammar:
  "parseRef s = Inr r \<longleftrightarrow> s = canonicalRef r \<and> grammar r"
  using parseRef_dest parseRef_canonical by blast

section \<open>Paths as segment lists\<close>

text \<open>Continuing a string at a \<open>/\<close> boundary is extending its list of segments.\<close>

lemma split_append_sep: "split_on c (a @ c # b) = split_on c a @ split_on c b"
proof (induction a)
  case (Cons x a)
  then show ?case
    by (cases "split_on c a") auto
qed simp

lemma split_inj: "split_on c a = split_on c b \<Longrightarrow> a = b"
  by (metis join_split)

lemma join_append:
  "ps \<noteq> [] \<Longrightarrow> qs \<noteq> [] \<Longrightarrow> join_with c (ps @ qs) = join_with c ps @ c # join_with c qs"
proof (induction c ps rule: join_with.induct)
  case (2 c p)
  then show ?case by (cases qs) auto
qed auto

lemma boundary_prefix:
  "(b = a \<or> starts_with b (a @ [c])) \<longleftrightarrow> prefix (split_on c a) (split_on c b)"
proof
  assume "b = a \<or> starts_with b (a @ [c])"
  then show "prefix (split_on c a) (split_on c b)"
  proof
    assume "starts_with b (a @ [c])"
    then obtain r where "b = a @ c # r" by (auto elim: prefixE)
    then show ?thesis by (simp add: split_append_sep)
  qed simp
next
  assume "prefix (split_on c a) (split_on c b)"
  then obtain r where r: "split_on c b = split_on c a @ r" by (auto elim: prefixE)
  show "b = a \<or> starts_with b (a @ [c])"
  proof (cases "r = []")
    case True
    with r show ?thesis by (auto dest: split_inj)
  next
    case False
    have "b = join_with c (split_on c a @ r)" using r join_split by metis
    with False have "b = a @ c # join_with c r" by (simp add: join_append)
    then show ?thesis by (simp add: prefix_def)
  qed
qed

lemma segs_expand:
  assumes "PERSONA_TOKEN \<in> set (segs_of p) \<longrightarrow> PERSONA_NAME_RE persona"
  shows "segs_of (path_of (expand persona (segs_of p))) = expand persona (segs_of p)"
proof (rule split_join)
  show "expand persona (segs_of p) \<noteq> []" by (simp add: expand_def)
  have "CHR ''/'' \<notin> set persona" if "PERSONA_NAME_RE persona"
    using that by (cases persona)
      (auto simp: PERSONA_NAME_RE_def list_all_iff is_lower_def is_digit_def)
  then show "\<forall>q \<in> set (expand persona (segs_of p)). CHR ''/'' \<notin> set q"
    using assms split_on_pieces by (fastforce simp: expand_def)
qed

text \<open>The prefix as the list of segments that a request path has to start with.\<close>

definition prefix_segments :: "string \<Rightarrow> allowed_prefix \<Rightarrow> string list" where
  "prefix_segments persona ap =
     segs_of (ap_mount ap) @ [''data''] @ expand persona (segs_of (ap_pathPrefix ap))"

lemma split_data: "segs_of (m @ ''/data/'' @ p) = segs_of m @ [''data''] @ segs_of p"
  using split_append_sep [of "CHR ''/''" m "''data/'' @ p"]
  by simp

lemma prefix_admits_segments:
  "prefix_admits q persona ap \<longleftrightarrow>
     (PERSONA_TOKEN \<in> set (segs_of (ap_pathPrefix ap)) \<longrightarrow> PERSONA_NAME_RE persona)
     \<and> prefix (prefix_segments persona ap) (segs_of q)"
proof (cases "PERSONA_TOKEN \<in> set (segs_of (ap_pathPrefix ap)) \<longrightarrow> PERSONA_NAME_RE persona")
  case True
  define a where "a = ap_mount ap @ ''/data/'' @ path_of (expand persona (segs_of (ap_pathPrefix ap)))"
  have "segs_of a = prefix_segments persona ap"
    unfolding a_def split_data prefix_segments_def using segs_expand [OF True] by simp
  with True boundary_prefix [of q a "CHR ''/''"] show ?thesis
    unfolding prefix_admits_def Let_def a_def [symmetric] by auto
next
  case False
  then show ?thesis by (auto simp: prefix_admits_def)
qed

text \<open>The allowed-prefix check admits a request path exactly when the path is a valid one and,
  segment by segment, it starts with the mount, \<open>data\<close> and the path of some configured prefix
  whose \<open>{persona}\<close> segments stand for the name of the persona, which must then be a valid
  persona name. A prefix never admits a longer segment that merely starts with the same text.\<close>

theorem isAllowed_segments:
  "isAllowed q persona aps \<longleftrightarrow>
     list_all SEGMENT_RE (segs_of q) \<and>
     (\<exists>ap \<in> set aps. (PERSONA_TOKEN \<in> set (segs_of (ap_pathPrefix ap)) \<longrightarrow> PERSONA_NAME_RE persona)
        \<and> prefix (prefix_segments persona ap) (segs_of q))"
proof (cases "list_all SEGMENT_RE (segs_of q)")
  case True
  then have "checkVaultPath q = Inr (segs_of q)" by (simp add: checkVaultPath_ok)
  then have "isAllowed q persona aps = (\<exists>ap \<in> set aps. prefix_admits q persona ap)"
    by (simp add: isAllowed_def list_ex_iff)
  with True show ?thesis by (simp only: prefix_admits_segments simp_thms)
next
  case False
  then have "\<nexists>segs. checkVaultPath q = Inr segs" by (simp add: checkVaultPath_ok)
  then obtain e where "checkVaultPath q = Inl e" by (cases "checkVaultPath q") auto
  with False show ?thesis by (simp add: isAllowed_def)
qed

lemma isAllowed_dest:
  assumes "isAllowed q persona aps"
  obtains ap where "ap \<in> set aps" "prefix (prefix_segments persona ap) (segs_of q)"
    "PERSONA_TOKEN \<in> set (segs_of (ap_pathPrefix ap)) \<longrightarrow> PERSONA_NAME_RE persona"
  using assms unfolding isAllowed_def list_ex_iff
  by (auto simp: prefix_admits_segments split: sum.splits)

section \<open>The mount split\<close>

lemma longest_mount_loop_mem:
  "longest_mount_loop segments best n ms = Some m \<Longrightarrow>
     best = Some m \<or> (m \<in> set ms \<and> prefix (segs_of m) segments)"
  by (induction segments best n ms rule: longest_mount_loop.induct) (auto split: if_splits)

lemma longestMount_mem:
  "longestMount segments ms = Some m \<Longrightarrow> m \<in> set ms \<and> prefix (segs_of m) segments"
  unfolding longestMount_def using longest_mount_loop_mem by fastforce

fun best_len :: "string option \<Rightarrow> nat" where
  "best_len None = 0"
| "best_len (Some b) = length (segs_of b)"

lemma longest_mount_loop_grows:
  "longest_mount_loop segments best (best_len best) ms = Some m
     \<Longrightarrow> best_len best \<le> length (segs_of m)"
proof (induction ms arbitrary: best)
  case (Cons y ys)
  show ?case
  proof (cases "prefix (segs_of y) segments \<and> length (segs_of y) > best_len best")
    case True
    with Cons.prems Cons.IH [of "Some y"] show ?thesis by simp
  next
    case False
    with Cons.prems have "longest_mount_loop segments best (best_len best) ys = Some m"
      by (auto split: if_splits)
    then show ?thesis by (rule Cons.IH)
  qed
qed simp

lemma longest_mount_loop_max:
  "longest_mount_loop segments best (best_len best) ms = Some m \<Longrightarrow> m' \<in> set ms
     \<Longrightarrow> prefix (segs_of m') segments \<Longrightarrow> length (segs_of m') \<le> length (segs_of m)"
proof (induction ms arbitrary: best)
  case (Cons y ys)
  define nxt where "nxt = (if prefix (segs_of y) segments \<and> length (segs_of y) > best_len best
      then Some y else best)"
  have eq: "longest_mount_loop segments nxt (best_len nxt) ys = Some m"
    using Cons.prems(1) by (auto simp: nxt_def split: if_splits)
  show ?case
  proof (cases "m' \<in> set ys")
    case True
    show ?thesis by (rule Cons.IH [OF eq True Cons.prems(3)])
  next
    case False
    with Cons.prems have "m' = y" by simp
    with Cons.prems(3) have "length (segs_of m') \<le> best_len nxt" by (simp add: nxt_def)
    with longest_mount_loop_grows [OF eq] show ?thesis by simp
  qed
qed simp

lemma longestMount_max:
  "longestMount segments ms = Some m \<Longrightarrow> m' \<in> set ms \<Longrightarrow> prefix (segs_of m') segments
     \<Longrightarrow> length (segs_of m') \<le> length (segs_of m)"
  unfolding longestMount_def using longest_mount_loop_max [of segments None ms m m'] by simp

lemma splitMount_dest:
  assumes "splitMount path ms = Some (m, p)"
  shows "m \<in> set ms" "segs_of path = segs_of m @ segs_of p" "path = m @ CHR ''/'' # p"
proof -
  obtain rest where m: "longestMount (segs_of path) ms = Some m"
    and rest: "rest = drop (length (segs_of m)) (segs_of path)" "rest \<noteq> []" "p = path_of rest"
    using assms by (auto simp: splitMount_def split: option.splits if_splits)
  show mem: "m \<in> set ms" using longestMount_mem [OF m] by blast
  have pre: "segs_of path = segs_of m @ rest"
    using longestMount_mem [OF m] rest(1) by (auto elim: prefixE)
  have "\<forall>q \<in> set rest. CHR ''/'' \<notin> set q"
    using pre split_on_pieces [of _ "CHR ''/''" path] by auto
  then have "segs_of p = rest" using rest by (simp add: split_join)
  with pre show segs: "segs_of path = segs_of m @ segs_of p" by simp
  then show "path = m @ CHR ''/'' # p"
    by (metis split_append_sep split_inj)
qed

section \<open>Configured mounts\<close>

lemma parse_prefix_mount:
  "parse_prefix mounts entry = Inr ap \<Longrightarrow> ap_mount ap \<in> set mounts"
  by (auto simp: parse_prefix_def Let_def dest: longestMount_mem
      split: if_splits sum.splits option.splits)

lemma parse_prefix_list_mounts:
  "parse_prefix_list mounts es = Inr aps \<Longrightarrow> ap \<in> set aps \<Longrightarrow> ap_mount ap \<in> set mounts"
proof (induction mounts es arbitrary: aps rule: parse_prefix_list.induct)
  case (2 mounts e0 rest)
  show ?case
  proof (cases "strip_slash (js_trim e0) = []")
    case True
    with 2 show ?thesis by (simp add: Let_def)
  next
    case False
    with "2.prems"(1) obtain p ps where p: "parse_prefix mounts (strip_slash (js_trim e0)) = Inr p"
      and ps: "parse_prefix_list mounts rest = Inr ps" and aps: "aps = p # ps"
      by (auto simp: Let_def split: sum.splits)
    from "2.prems"(2) aps consider "ap = p" | "ap \<in> set ps" by auto
    then show ?thesis
    proof cases
      case 1
      with parse_prefix_mount [OF p] show ?thesis by simp
    next
      case r: 2
      show ?thesis by (rule "2.IH"(2) [OF refl False p ps r])
    qed
  qed
qed simp

lemma load_mounts_dest:
  assumes "load_mounts raw rawMounts = Inr (mounts, aps)"
  shows "\<And>a b. a \<in> set mounts \<Longrightarrow> b \<in> set mounts \<Longrightarrow> \<not> nested a b"
    and "\<And>ap. ap \<in> set aps \<Longrightarrow> ap_mount ap \<in> set mounts"
proof -
  have "\<not> list_ex (\<lambda>a. list_ex (nested a) mounts) mounts"
    and ps: "parseAllowedPrefixes raw mounts = Inr aps"
    using assms by (auto simp: load_mounts_def Let_def split: if_splits option.splits sum.splits)
  then show "\<And>a b. a \<in> set mounts \<Longrightarrow> b \<in> set mounts \<Longrightarrow> \<not> nested a b"
    by (auto simp: list_ex_iff)
  show "\<And>ap. ap \<in> set aps \<Longrightarrow> ap_mount ap \<in> set mounts"
    using ps parse_prefix_list_mounts by (auto simp: parseAllowedPrefixes_def)
qed

lemma not_nested_same:
  assumes "prefix (segs_of a) (segs_of b)" "\<not> nested a b"
  shows "a = b"
  using assms boundary_prefix [of b a "CHR ''/''"] by (auto simp: nested_def)

lemma same_mount:
  assumes "prefix (segs_of m @ ''data'' # u) (segs_of m' @ ''data'' # v)"
    and "\<not> nested m m'" "\<not> nested m' m"
  shows "m = m' \<and> prefix u v"
proof -
  have "prefix (segs_of m) (segs_of m' @ ''data'' # v)"
    using assms(1) by (rule append_prefixD)
  moreover have "prefix (segs_of m') (segs_of m' @ ''data'' # v)" by simp
  ultimately have "prefix (segs_of m) (segs_of m') \<or> prefix (segs_of m') (segs_of m)"
    by (rule prefix_same_cases [THEN disjE]) auto
  then have "m = m'" using not_nested_same assms(2,3) by blast
  with assms(1) show ?thesis by simp
qed

section \<open>Admission\<close>

lemma canonical_grammar_unique:
  assumes "grammar r'" "canonicalRef r = canonicalRef r'"
  shows "r = r'"
proof (cases r')
  case (EnvRef n)
  with assms(2) show ?thesis by (cases r) (auto simp: canonicalRef_def)
next
  case r': (VaultRef p' f')
  with assms(2) obtain p f where r: "r = VaultRef p f" and eq: "p @ CHR ''#'' # f = p' @ CHR ''#'' # f'"
    by (cases r) (auto simp: canonicalRef_def)
  have "CHR ''#'' \<notin> set p'" "CHR ''#'' \<notin> set f'"
    using assms(1) r' path_chars segment_chars by (fastforce simp: grammar_def)+
  then have "split_on CHR ''#'' (p' @ CHR ''#'' # f') = [p', f']"
    by (simp add: split_on_append_sep split_on_no_sep)
  then have sp: "split_on CHR ''#'' p @ split_on CHR ''#'' f = [p', f']"
    using eq by (metis split_append_sep)
  then have "split_on CHR ''#'' p = [p'] \<and> split_on CHR ''#'' f = [f']"
    by (cases "split_on CHR ''#'' p"; cases "split_on CHR ''#'' f") (auto simp: append_eq_Cons_conv)
  then have "p = p' \<and> f = f'" by (metis join_split join_with.simps(2))
  with r r' show ?thesis by simp
qed

lemma resolve_admit_dest:
  assumes "resolve_admit env vault persona r = Inr (VaultRequest vr)"
  obtains cfg path field where "vault = Some cfg" "r = VaultRef path field" "grammar r"
    "resolveVault_admit (Some cfg) persona path field = Inr vr"
proof -
  from assms obtain path field where p: "parseRef (canonicalRef r) = Inr (VaultRef path field)"
    and a: "resolveVault_admit vault persona path field = Inr vr"
    by (auto simp: resolve_admit_def split: sum.splits secret_ref.splits)
  have g: "grammar (VaultRef path field)" and "canonicalRef (VaultRef path field) = canonicalRef r"
    using parseRef_dest [OF p] by auto
  then have "r = VaultRef path field" using canonical_grammar_unique by metis
  moreover obtain cfg where "vault = Some cfg"
    using a by (auto simp: resolveVault_admit_def split: option.splits)
  ultimately show ?thesis using that g a by blast
qed

lemma admitted_request:
  assumes "resolveVault_admit (Some cfg) persona path field = Inr vr"
  shows "splitMount path (vc_mounts cfg) = Some (vr_mount vr, vr_path vr)"
    "isAllowed (vr_mount vr @ ''/data/'' @ vr_path vr) persona (vc_prefixes cfg)"
    "vr_key vr = canonicalRef (VaultRef path field)" "vr_field vr = field"
  using assms
  by (auto simp: resolveVault_admit_def requestPathFor_def split: option.splits if_splits)

lemma admitted_under_prefix:
  assumes cfg: "load_mounts raw rawMounts = Inr (vc_mounts cfg, vc_prefixes cfg)"
    and adm: "resolveVault_admit (Some cfg) persona path field = Inr vr"
  obtains ap where "ap \<in> set (vc_prefixes cfg)" "ap_mount ap = vr_mount vr"
    "prefix (expand persona (segs_of (ap_pathPrefix ap))) (segs_of (vr_path vr))"
    "PERSONA_TOKEN \<in> set (segs_of (ap_pathPrefix ap)) \<longrightarrow> PERSONA_NAME_RE persona"
proof -
  obtain ap where ap: "ap \<in> set (vc_prefixes cfg)"
    and pre: "prefix (prefix_segments persona ap) (segs_of (vr_mount vr @ ''/data/'' @ vr_path vr))"
    and tok: "PERSONA_TOKEN \<in> set (segs_of (ap_pathPrefix ap)) \<longrightarrow> PERSONA_NAME_RE persona"
    by (rule isAllowed_dest [OF admitted_request(2) [OF adm]])
  have "vr_mount vr \<in> set (vc_mounts cfg)"
    by (rule splitMount_dest(1) [OF admitted_request(1) [OF adm]])
  moreover have "ap_mount ap \<in> set (vc_mounts cfg)"
    by (rule load_mounts_dest(2) [OF cfg ap])
  ultimately have "\<not> nested (ap_mount ap) (vr_mount vr)" "\<not> nested (vr_mount vr) (ap_mount ap)"
    using load_mounts_dest(1) [OF cfg] by blast+
  moreover have "prefix (segs_of (ap_mount ap) @ ''data'' # expand persona (segs_of (ap_pathPrefix ap)))
      (segs_of (vr_mount vr) @ ''data'' # segs_of (vr_path vr))"
    using pre unfolding split_data prefix_segments_def by simp
  ultimately have "ap_mount ap = vr_mount vr
      \<and> prefix (expand persona (segs_of (ap_pathPrefix ap))) (segs_of (vr_path vr))"
    by (intro same_mount)
  with that ap tok show ?thesis by blast
qed

text \<open>C35: With the mounts and prefixes that the configuration loader accepts, a resolution reaches
  Vault only for a reference of the grammar, asks for exactly the path and the field that the
  reference spells, under a configured mount, and only when a configured prefix of that same
  mount, with \<open>{persona}\<close> replaced by the persona's own name, covers the path segment by segment.
  The cache key is the reference's only spelling.\<close>

theorem vault_request_confined:
  assumes "load_mounts raw rawMounts = Inr (vc_mounts cfg, vc_prefixes cfg)"
    and "resolve_admit env (Some cfg) persona r = Inr (VaultRequest vr)"
  shows "r = VaultRef (vr_mount vr @ CHR ''/'' # vr_path vr) (vr_field vr) \<and> grammar r
     \<and> vr_key vr = canonicalRef r \<and> vr_mount vr \<in> set (vc_mounts cfg)
     \<and> (\<exists>ap \<in> set (vc_prefixes cfg). ap_mount ap = vr_mount vr
          \<and> prefix (expand persona (segs_of (ap_pathPrefix ap))) (segs_of (vr_path vr)))"
proof -
  obtain path field where r: "r = VaultRef path field" "grammar r"
    and adm: "resolveVault_admit (Some cfg) persona path field = Inr vr"
    by (rule resolve_admit_dest [OF assms(2)]) auto
  obtain ap where "ap \<in> set (vc_prefixes cfg)" "ap_mount ap = vr_mount vr"
    "prefix (expand persona (segs_of (ap_pathPrefix ap))) (segs_of (vr_path vr))"
    by (rule admitted_under_prefix [OF assms(1) adm])
  with r admitted_request [OF adm] splitMount_dest [OF admitted_request(1) [OF adm]]
  show ?thesis by auto
qed

text \<open>A configuration with one prefix per persona, and a reference inside it.\<close>

definition demo_vault :: vault_config where
  "demo_vault = \<lparr>vc_mounts = [''kv''],
     vc_prefixes = [\<lparr>ap_mount = ''kv'', ap_pathPrefix = ''personas/{persona}''\<rparr>],
     vc_cacheTtlMs = 60000, vc_staleMaxMs = 600000\<rparr>"

lemma demo_vault_loaded:
  "load_mounts '' kv/personas/{persona}/ '' None = Inr (vc_mounts demo_vault, vc_prefixes demo_vault)"
  by code_simp

lemma demo_vault_admits:
  "resolve_admit Map.empty (Some demo_vault) ''bob'' (VaultRef ''kv/personas/bob/slack'' ''token'') =
     Inr (VaultRequest \<lparr>vr_key = ''vault://kv/personas/bob/slack#token'', vr_mount = ''kv'',
       vr_path = ''personas/bob/slack'', vr_field = ''token''\<rparr>)"
  by code_simp

theorem vault_request_confined_witness:
  "\<exists>ap \<in> set (vc_prefixes demo_vault). ap_mount ap = ''kv''
     \<and> prefix (expand ''bob'' (segs_of (ap_pathPrefix ap))) (segs_of ''personas/bob/slack'')"
  using vault_request_confined [OF demo_vault_loaded demo_vault_admits] by simp

text \<open>When every configured prefix puts \<open>{persona}\<close> at the same depth of its mount, no
  reference resolves for two personas: a persona can only ever read secrets below its own name,
  whatever references are stored for it.\<close>

theorem personas_isolated:
  assumes "load_mounts raw rawMounts = Inr (vc_mounts cfg, vc_prefixes cfg)"
    and "\<And>ap. ap \<in> set (vc_prefixes cfg) \<Longrightarrow> i < length (segs_of (ap_pathPrefix ap))
            \<and> segs_of (ap_pathPrefix ap) ! i = PERSONA_TOKEN"
    and "resolve_admit env (Some cfg) p1 r = Inr (VaultRequest v1)"
    and "resolve_admit env' (Some cfg) p2 r = Inr (VaultRequest v2)"
  shows "p1 = p2"
proof -
  have at: "segs_of (vr_path v) ! i = p"
    if adm: "resolveVault_admit (Some cfg) p path field = Inr v" for p path field v
  proof -
    obtain ap where ap: "ap \<in> set (vc_prefixes cfg)"
      and pre: "prefix (expand p (segs_of (ap_pathPrefix ap))) (segs_of (vr_path v))"
      by (rule admitted_under_prefix [OF assms(1) adm])
    then show ?thesis
      using assms(2) [OF ap] by (auto simp: expand_def nth_append elim!: prefixE)
  qed
  obtain path field where r: "r = VaultRef path field"
    and a1: "resolveVault_admit (Some cfg) p1 path field = Inr v1"
    by (rule resolve_admit_dest [OF assms(3)]) auto
  have a2: "resolveVault_admit (Some cfg) p2 path field = Inr v2"
    by (rule resolve_admit_dest [OF assms(4)]) (auto simp: r)
  have "vr_path v1 = vr_path v2"
    using admitted_request(1) [OF a1] admitted_request(1) [OF a2] by simp
  with at [OF a1] at [OF a2] show ?thesis by simp
qed

theorem personas_isolated_witness:
  "\<nexists>v. resolve_admit Map.empty (Some demo_vault) ''eve''
     (VaultRef ''kv/personas/bob/slack'' ''token'') = Inr (VaultRequest v)"
proof
  assume "\<exists>v. resolve_admit Map.empty (Some demo_vault) ''eve''
     (VaultRef ''kv/personas/bob/slack'' ''token'') = Inr (VaultRequest v)"
  then obtain v where v: "resolve_admit Map.empty (Some demo_vault) ''eve''
     (VaultRef ''kv/personas/bob/slack'' ''token'') = Inr (VaultRequest v)" by blast
  have "''bob'' = ''eve''"
    by (rule personas_isolated [OF demo_vault_loaded _ demo_vault_admits v, of 1])
      (simp add: demo_vault_def PERSONA_TOKEN_def)
  then show False by simp
qed

end
