(* ===== verification/VaultClient.thy ===== *)
theory VaultClient
  imports Secrets
begin

text \<open>
  The Vault client of \<^verbatim>\<open>src/secrets/vault.ts\<close>: token state, rate-limited login and renewal, the
  lookup-self probe, the KV v2 read. A computation is a function of the client's mutable fields and
  the world; every \<open>await\<close> hands both to the environment, which answers and may change the
  client's fields, as other reads that run in between do. The HTTP client, the files and the
  clock are parameters.
\<close>

section \<open>Answers\<close>

datatype body = Json json | BodyTimeout | BodyUnreadable

datatype http = Answer nat body | FetchTimeout | FetchError

record http_call =
  hc_post :: bool
  hc_path :: string
  hc_token :: "string option"
  hc_body :: "(string \<times> string) list option"

definition ok_status :: "nat \<Rightarrow> bool" where
  "ok_status n \<longleftrightarrow> 200 \<le> n \<and> n \<le> 299"

definition refused_status :: "nat \<Rightarrow> bool" where
  "refused_status n \<longleftrightarrow> n = 401 \<or> n = 403"

section \<open>The client's state and its environment\<close>

text \<open>Durations of \<open>None\<close> are \<open>Infinity\<close> (a static token).\<close>

record token_state =
  ts_token :: string
  ts_obtainedAt :: int
  ts_renewAfterMs :: "int option"
  ts_leaseMs :: "int option"
  ts_renewable :: bool

record client =
  tok :: "token_state option"
  loginInflight :: bool
  renewInflight :: bool
  loginAttempts :: "int list"
  lastRenewAttemptAt :: "int option"
  lookupInflight :: "string list"
  lookupRefused :: "string option"
  canLookup :: "bool option"
  lastOk :: "(string \<times> int) option"
  caLoaded :: bool

record client_cfg =
  cf_static :: bool
  cf_token :: "string option"
  cf_role :: string
  cf_jwtPath :: string
  cf_caCertPath :: "string option"
  cf_minLoginIntervalMs :: int

type_synonym ('a, 'w) vm = "client \<times> 'w \<Rightarrow> (failure_reason + 'a) \<times> (client \<times> 'w)"

record 'w vault_env =
  send :: "http_call \<Rightarrow> client \<times> 'w \<Rightarrow> http \<times> (client \<times> 'w)"
  read_file :: "string \<Rightarrow> client \<times> 'w \<Rightarrow> string option \<times> (client \<times> 'w)"
  now_ms :: "'w \<Rightarrow> int \<times> 'w"
  join_login :: "(token_state, 'w) vm"
  join_renew :: "(token_state, 'w) vm"
  join_lookup :: "string \<Rightarrow> (bool, 'w) vm"

definition vret :: "'a \<Rightarrow> ('a, 'w) vm" where
  "vret x s = (Inr x, s)"

definition fail :: "failure_reason \<Rightarrow> ('a, 'w) vm" where
  "fail e s = (Inl e, s)"

definition vbind :: "('a, 'w) vm \<Rightarrow> ('a \<Rightarrow> ('b, 'w) vm) \<Rightarrow> ('b, 'w) vm" where
  "vbind m f s = (case m s of (Inl e, s') \<Rightarrow> (Inl e, s') | (Inr x, s') \<Rightarrow> f x s')"

definition vcatch :: "('a, 'w) vm \<Rightarrow> (failure_reason \<Rightarrow> ('a, 'w) vm) \<Rightarrow> ('a, 'w) vm" where
  "vcatch m h s = (case m s of (Inl e, s') \<Rightarrow> h e s' | (Inr x, s') \<Rightarrow> (Inr x, s'))"

definition vfinally :: "('a, 'w) vm \<Rightarrow> (client \<Rightarrow> client) \<Rightarrow> ('a, 'w) vm" where
  "vfinally m f s = (case m s of (r, (c, w)) \<Rightarrow> (r, (f c, w)))"

definition get_client :: "(client, 'w) vm" where
  "get_client s = (Inr (fst s), s)"

definition modify :: "(client \<Rightarrow> client) \<Rightarrow> (unit, 'w) vm" where
  "modify f s = (Inr (), (f (fst s), snd s))"

definition clock :: "'w vault_env \<Rightarrow> (int, 'w) vm" where
  "clock env s = (case now_ms env (snd s) of (t, w) \<Rightarrow> (Inr t, (fst s, w)))"

definition initial_client :: "client_cfg \<Rightarrow> int \<Rightarrow> client" where
  "initial_client cfg now =
     \<lparr>tok = (if cf_static cfg then
               (case cf_token cfg of
                  Some t \<Rightarrow> if t \<noteq> [] then Some \<lparr>ts_token = t, ts_obtainedAt = now,
                       ts_renewAfterMs = None, ts_leaseMs = None, ts_renewable = False\<rparr> else None
                | None \<Rightarrow> None) else None),
      loginInflight = False, renewInflight = False, loginAttempts = [],
      lastRenewAttemptAt = None, lookupInflight = [], lookupRefused = None, canLookup = None,
      lastOk = None, caLoaded = False\<rparr>"

section \<open>Clock and rate limits\<close>

text \<open>\<open>since(at) < limit\<close>: a clock that stepped back makes the age infinite.\<close>

definition since_lt :: "int \<Rightarrow> int \<Rightarrow> int \<Rightarrow> bool" where
  "since_lt now at limit \<longleftrightarrow> \<not> now - at < 0 \<and> now - at < limit"

definition LOGIN_BURST :: nat where "LOGIN_BURST = 2"

definition recent_attempts :: "int \<Rightarrow> int \<Rightarrow> int list \<Rightarrow> int list" where
  "recent_attempts minMs t as = filter (\<lambda>a. a \<le> t \<and> t - a < minMs) as"

definition loginAllowed :: "'w vault_env \<Rightarrow> client_cfg \<Rightarrow> (bool, 'w) vm" where
  "loginAllowed env cfg =
     vbind (clock env) (\<lambda>t.
     vbind (modify (\<lambda>c. c\<lparr>loginAttempts := recent_attempts (cf_minLoginIntervalMs cfg) t (loginAttempts c)\<rparr>)) (\<lambda>_.
     vbind get_client (\<lambda>c.
     vret (length (loginAttempts c) < LOGIN_BURST))))"

definition attemptAllowed :: "'w vault_env \<Rightarrow> client_cfg \<Rightarrow> int option \<Rightarrow> (bool, 'w) vm" where
  "attemptAllowed env cfg lastAt =
     (case lastAt of
        None \<Rightarrow> vret True
      | Some l \<Rightarrow>
          vbind (clock env) (\<lambda>t1. if t1 < l then vret True
            else vbind (clock env) (\<lambda>t2. vret (t2 - l \<ge> cf_minLoginIntervalMs cfg))))"

section \<open>Requests\<close>

definition load_ca :: "'w vault_env \<Rightarrow> client_cfg \<Rightarrow> (unit, 'w) vm" where
  "load_ca env cfg =
     (case cf_caCertPath cfg of
        None \<Rightarrow> vret ()
      | Some p \<Rightarrow>
          vbind get_client (\<lambda>c.
            if caLoaded c then vret ()
            else (\<lambda>s. case read_file env p s of
                        (Some _, (c', w)) \<Rightarrow> (Inr (), (c'\<lparr>caLoaded := True\<rparr>, w))
                      | (None, (c', w)) \<Rightarrow> (Inl unreachable, (c'\<lparr>caLoaded := False\<rparr>, w)))))"

definition request :: "'w vault_env \<Rightarrow> client_cfg \<Rightarrow> http_call \<Rightarrow> (nat \<times> body, 'w) vm" where
  "request env cfg call =
     vbind (load_ca env cfg) (\<lambda>_ s.
       case send env call s of
         (Answer st b, s') \<Rightarrow> (Inr (st, b), s')
       | (FetchTimeout, s') \<Rightarrow> (Inl timeout, s')
       | (FetchError, s') \<Rightarrow> (Inl unreachable, s'))"

definition json_object :: "body \<Rightarrow> failure_reason + (string \<times> json) list" where
  "json_object b =
     (case b of
        Json (JObj ob) \<Rightarrow> Inr ob
      | BodyTimeout \<Rightarrow> Inl timeout
      | _ \<Rightarrow> Inl bad_response)"

definition vlift :: "failure_reason + 'a \<Rightarrow> ('a, 'w) vm" where
  "vlift r s = (r, s)"

definition authStatusFailure :: "nat \<Rightarrow> failure_reason" where
  "authStatusFailure st = (if st \<ge> 500 then server_error else auth)"

definition token_of_auth :: "bool \<Rightarrow> json option \<Rightarrow> failure_reason + string \<times> int \<times> bool" where
  "token_of_auth renewing a =
     (case a of
        Some (JObj ob) \<Rightarrow>
          (case jfield ''client_token'' ob of
             Some (JStr t) \<Rightarrow>
               if t = [] then Inl bad_response
               else (case jfield ''lease_duration'' ob of
                       Some (JNum (Some lease)) \<Rightarrow>
                         if lease \<le> 0 then Inl (if renewing then auth else bad_response)
                         else Inr (t, lease, jfield ''renewable'' ob = Some (JBool True))
                     | _ \<Rightarrow> Inl (if renewing then auth else bad_response))
           | _ \<Rightarrow> Inl bad_response)
      | _ \<Rightarrow> Inl bad_response)"

definition tokenFrom :: "'w vault_env \<Rightarrow> bool \<Rightarrow> (string \<times> json) list \<Rightarrow> (token_state, 'w) vm" where
  "tokenFrom env renewing ob =
     (case token_of_auth renewing (jfield ''auth'' ob) of
        Inl e \<Rightarrow> fail e
      | Inr (t, lease, renewable) \<Rightarrow>
          vbind (clock env) (\<lambda>now.
          vret \<lparr>ts_token = t, ts_obtainedAt = now,
                ts_renewAfterMs = Some (lease * 1000 * 2 div 3), ts_leaseMs = Some (lease * 1000),
                ts_renewable = renewable\<rparr>))"

definition lookup_call :: "string \<Rightarrow> http_call" where
  "lookup_call t = \<lparr>hc_post = False, hc_path = ''auth/token/lookup-self'', hc_token = Some t, hc_body = None\<rparr>"

definition probeLookup :: "'w vault_env \<Rightarrow> client_cfg \<Rightarrow> string \<Rightarrow> (unit, 'w) vm" where
  "probeLookup env cfg t =
     vcatch
       (vbind (request env cfg (lookup_call t)) (\<lambda>(st, b).
          if ok_status st then modify (\<lambda>c. c\<lparr>canLookup := Some True\<rparr>)
          else if refused_status st
          then modify (\<lambda>c. c\<lparr>canLookup := Some False, lookupRefused := Some t\<rparr>)
          else vret ()))
       (\<lambda>_. vret ())"

section \<open>Login and renewal\<close>

definition login_body :: "'w vault_env \<Rightarrow> client_cfg \<Rightarrow> (token_state, 'w) vm" where
  "login_body env cfg =
     vbind (\<lambda>s. case read_file env (cf_jwtPath cfg) s of
                  (None, s') \<Rightarrow> (Inl auth, s') | (Some j, s') \<Rightarrow> (Inr (js_trim j), s')) (\<lambda>jwt.
     if jwt = [] then fail auth
     else vbind (request env cfg \<lparr>hc_post = True, hc_path = ''auth/kubernetes/login'', hc_token = None,
                    hc_body = Some [(''role'', cf_role cfg), (''jwt'', jwt)]\<rparr>) (\<lambda>(st, b).
       if \<not> ok_status st then fail (authStatusFailure st)
       else vbind (vlift (json_object b)) (\<lambda>ob.
            vbind (tokenFrom env False ob) (\<lambda>fresh.
            vbind (probeLookup env cfg (ts_token fresh)) (\<lambda>_.
            vbind (modify (\<lambda>c. c\<lparr>tok := Some fresh\<rparr>)) (\<lambda>_.
            vret fresh))))))"

text \<open>The synchronous entry of \<open>login\<close>: the rate limit, and the attempt noted.\<close>

definition login_entry :: "'w vault_env \<Rightarrow> client_cfg \<Rightarrow> (bool, 'w) vm" where
  "login_entry env cfg =
     vbind (loginAllowed env cfg) (\<lambda>allowed.
       if \<not> allowed then vret False
       else vbind (clock env) (\<lambda>t.
            vbind (modify (\<lambda>c. c\<lparr>loginAttempts := loginAttempts c @ [t], loginInflight := True\<rparr>)) (\<lambda>_.
            vret True)))"

definition login :: "'w vault_env \<Rightarrow> client_cfg \<Rightarrow> (token_state, 'w) vm" where
  "login env cfg =
     vbind get_client (\<lambda>c.
       if loginInflight c then join_login env
       else if cf_static cfg then fail auth
       else vbind (login_entry env cfg) (\<lambda>allowed.
         if \<not> allowed then fail auth
         else vfinally (login_body env cfg) (\<lambda>c. c\<lparr>loginInflight := False\<rparr>)))"

definition renew_body :: "'w vault_env \<Rightarrow> client_cfg \<Rightarrow> token_state \<Rightarrow> (token_state, 'w) vm" where
  "renew_body env cfg current =
     vbind (request env cfg \<lparr>hc_post = True, hc_path = ''auth/token/renew-self'',
              hc_token = Some (ts_token current), hc_body = Some []\<rparr>) (\<lambda>(st, b).
       if \<not> ok_status st then fail (authStatusFailure st)
       else vbind (vlift (json_object b)) (\<lambda>ob.
            vbind (tokenFrom env True ob) (\<lambda>renewed.
            vbind (modify (\<lambda>c. c\<lparr>tok := Some renewed\<rparr>)) (\<lambda>_.
            vret renewed))))"

definition renew :: "'w vault_env \<Rightarrow> client_cfg \<Rightarrow> token_state \<Rightarrow> (token_state, 'w) vm" where
  "renew env cfg current =
     vbind get_client (\<lambda>c.
       if renewInflight c then join_renew env
       else vbind (attemptAllowed env cfg (lastRenewAttemptAt c)) (\<lambda>allowed.
         if \<not> allowed then fail auth
         else vbind (clock env) (\<lambda>t.
              vbind (modify (\<lambda>c. c\<lparr>lastRenewAttemptAt := Some t, renewInflight := True\<rparr>)) (\<lambda>_.
              vfinally (renew_body env cfg current) (\<lambda>c. c\<lparr>renewInflight := False\<rparr>)))))"

text \<open>\<open>alive\<close>: two readings of the clock, the second only when the first is not before the token.\<close>

definition token_alive :: "'w vault_env \<Rightarrow> token_state \<Rightarrow> (bool, 'w) vm" where
  "token_alive env s =
     vbind (clock env) (\<lambda>t1.
       if t1 < ts_obtainedAt s then vret True
       else vbind (clock env) (\<lambda>t2.
         vret (case ts_leaseMs s of None \<Rightarrow> True | Some l \<Rightarrow> t2 - ts_obtainedAt s < l)))"

definition login_or_keep :: "'w vault_env \<Rightarrow> client_cfg \<Rightarrow> token_state option \<Rightarrow> bool \<Rightarrow> (string, 'w) vm" where
  "login_or_keep env cfg s alive =
     vcatch (vbind (login env cfg) (\<lambda>t. vret (ts_token t)))
       (\<lambda>err. case s of Some st \<Rightarrow> if alive then vret (ts_token st) else fail err | None \<Rightarrow> fail err)"

definition currentToken :: "'w vault_env \<Rightarrow> client_cfg \<Rightarrow> (string, 'w) vm" where
  "currentToken env cfg =
     vbind get_client (\<lambda>c.
       case tok c of
         None \<Rightarrow> login_or_keep env cfg None False
       | Some s \<Rightarrow>
           (case ts_renewAfterMs s of
              None \<Rightarrow> vret (ts_token s)
            | Some after \<Rightarrow>
                vbind (clock env) (\<lambda>t.
                  if since_lt t (ts_obtainedAt s) after then vret (ts_token s)
                  else vbind (token_alive env s) (\<lambda>alive.
                    if alive \<and> ts_renewable s
                    then vcatch (vbind (renew env cfg s) (\<lambda>t. vret (ts_token t)))
                           (\<lambda>_. login_or_keep env cfg (Some s) alive)
                    else login_or_keep env cfg (Some s) alive))))"

section \<open>Reading a secret\<close>

definition lookupSelf :: "'w vault_env \<Rightarrow> client_cfg \<Rightarrow> string \<Rightarrow> (bool, 'w) vm" where
  "lookupSelf env cfg t =
     vbind get_client (\<lambda>c.
       if lookupRefused c = Some t then vret False
       else if t \<in> set (lookupInflight c) then join_lookup env t
       else vbind (modify (\<lambda>c. c\<lparr>lookupInflight := t # lookupInflight c\<rparr>)) (\<lambda>_.
         vfinally
           (vbind (request env cfg (lookup_call t)) (\<lambda>(st, b).
              if ok_status st
              then vbind (modify (\<lambda>c. c\<lparr>canLookup := Some True\<rparr>)) (\<lambda>_. vret True)
              else if refused_status st
              then vbind (modify (\<lambda>c. c\<lparr>lookupRefused := Some t\<rparr>)) (\<lambda>_. vret False)
              else if st \<ge> 500 then fail server_error else fail bad_response))
           (\<lambda>c. c\<lparr>lookupInflight := removeAll t (lookupInflight c)\<rparr>)))"

definition recentlyAccepted :: "'w vault_env \<Rightarrow> client_cfg \<Rightarrow> string \<Rightarrow> (bool, 'w) vm" where
  "recentlyAccepted env cfg t =
     vbind get_client (\<lambda>c.
       case lastOk c of
         Some (t', at) \<Rightarrow>
           if t' = t then vbind (clock env) (\<lambda>now. vret (since_lt now at (cf_minLoginIntervalMs cfg)))
           else vret False
       | None \<Rightarrow> vret False)"

definition markAccepted :: "'w vault_env \<Rightarrow> string \<Rightarrow> (unit, 'w) vm" where
  "markAccepted env t = vbind (clock env) (\<lambda>now. modify (\<lambda>c. c\<lparr>lastOk := Some (t, now)\<rparr>))"

definition replaceToken :: "'w vault_env \<Rightarrow> client_cfg \<Rightarrow> string \<Rightarrow> (string, 'w) vm" where
  "replaceToken env cfg dead =
     vbind get_client (\<lambda>c.
       case tok c of
         Some s \<Rightarrow> if ts_token s \<noteq> dead then vret (ts_token s)
                   else vbind (login env cfg) (\<lambda>t. vret (ts_token t))
       | None \<Rightarrow> vbind (login env cfg) (\<lambda>t. vret (ts_token t)))"

text \<open>Property names that every object inherits: reading one gives a function or an object.\<close>

definition object_prototype :: "string list" where
  "object_prototype =
     [''constructor'', ''toString'', ''valueOf'', ''toLocaleString'', ''hasOwnProperty'',
      ''isPrototypeOf'', ''propertyIsEnumerable'', ''__proto__'', ''__defineGetter__'',
      ''__defineSetter__'', ''__lookupGetter__'', ''__lookupSetter__'']"

definition kv_value :: "string \<Rightarrow> (string \<times> json) list \<Rightarrow> failure_reason + string" where
  "kv_value field ob =
     (case jfield field ob of
        Some (JStr v) \<Rightarrow> Inr v
      | Some _ \<Rightarrow> Inl non_string
      | None \<Rightarrow> Inl (if List.member object_prototype field then non_string else missing_field))"

text \<open>An array in place of the secret's object has no named fields to read: such an answer is the
  parameter \<open>arr\<close>'s (what indexing an array by the field's name gives).\<close>

definition parseKv :: "(json list \<Rightarrow> string \<Rightarrow> failure_reason + string) \<Rightarrow> (string \<times> json) list \<Rightarrow> string
    \<Rightarrow> failure_reason + string" where
  "parseKv arr b field =
     (case jfield ''data'' b of
        Some (JObj d) \<Rightarrow>
          (if jfield ''data'' d = None \<or> jfield ''metadata'' d = None then Inl kv_v1
           else case the (jfield ''data'' d) of
             JNull \<Rightarrow> Inl missing_secret
           | JObj ob \<Rightarrow> kv_value field ob
           | JArr xs \<Rightarrow> arr xs field
           | _ \<Rightarrow> Inl bad_response)
      | Some (JArr _) \<Rightarrow> Inl kv_v1
      | _ \<Rightarrow> Inl bad_response)"

definition finish_read :: "(json list \<Rightarrow> string \<Rightarrow> failure_reason + string) \<Rightarrow> nat \<times> body \<Rightarrow> string
    \<Rightarrow> failure_reason + string" where
  "finish_read arr res field =
     (case res of (st, b) \<Rightarrow>
        if st = 404 then Inl missing_secret
        else if refused_status st then Inl denied
        else if st \<ge> 500 then Inl server_error
        else if \<not> ok_status st then Inl bad_response
        else (case json_object b of Inl e \<Rightarrow> Inl e | Inr ob \<Rightarrow> parseKv arr ob field))"

definition kvGet :: "'w vault_env \<Rightarrow> client_cfg \<Rightarrow> string \<Rightarrow> string \<Rightarrow> (nat \<times> body, 'w) vm" where
  "kvGet env cfg apiPath t =
     request env cfg \<lparr>hc_post = False, hc_path = apiPath, hc_token = Some t, hc_body = None\<rparr>"

text \<open>The end of \<open>read\<close>: note an accepted token, read the answer.\<close>

definition conclude :: "'w vault_env \<Rightarrow> (json list \<Rightarrow> string \<Rightarrow> failure_reason + string) \<Rightarrow> string \<Rightarrow> string
    \<Rightarrow> nat \<times> body \<Rightarrow> (string, 'w) vm" where
  "conclude env arr field t res =
     vbind (if ok_status (fst res) \<or> fst res = 404 then markAccepted env t else vret ()) (\<lambda>_.
     vlift (finish_read arr res field))"

text \<open>What \<open>read\<close> does with a refusal of the first request.\<close>

definition on_refusal :: "'w vault_env \<Rightarrow> client_cfg \<Rightarrow> (json list \<Rightarrow> string \<Rightarrow> failure_reason + string)
    \<Rightarrow> string \<Rightarrow> string \<Rightarrow> string \<Rightarrow> (string, 'w) vm" where
  "on_refusal env cfg arr apiPath field t s0 =
     (case lookupSelf env cfg t s0 of
        (Inl _, s1) \<Rightarrow> fail denied s1
      | (Inr True, s1) \<Rightarrow> fail denied s1
      | (Inr False, s1) \<Rightarrow>
          (let provenDead = (canLookup (fst s1) = Some True) in
           case (if provenDead then (Inr False, s1) else recentlyAccepted env cfg t s1) of
             (Inl e, s2) \<Rightarrow> (Inl e, s2)
           | (Inr True, s2) \<Rightarrow> fail denied s2
           | (Inr False, s2) \<Rightarrow>
               (case replaceToken env cfg t s2 of
                  (Inl err, s3) \<Rightarrow> fail (if provenDead then err else denied) s3
                | (Inr t', s3) \<Rightarrow>
                    vbind (kvGet env cfg apiPath t') (\<lambda>res. conclude env arr field t' res) s3)))"

definition read_secret :: "'w vault_env \<Rightarrow> client_cfg \<Rightarrow> (json list \<Rightarrow> string \<Rightarrow> failure_reason + string)
    \<Rightarrow> string \<Rightarrow> string \<Rightarrow> string \<Rightarrow> (string, 'w) vm" where
  "read_secret env cfg arr mount path field =
     vbind (currentToken env cfg) (\<lambda>t.
     vbind (kvGet env cfg (mount @ ''/data/'' @ path) t) (\<lambda>res.
       if refused_status (fst res)
       then on_refusal env cfg arr (mount @ ''/data/'' @ path) field t
       else conclude env arr field t res))"

end
