(* ===== verification/SecretCache.thy ===== *)
theory SecretCache
  imports Secrets
begin

text \<open>
  The per-reference value cache of \<^verbatim>\<open>src/secrets/cache.ts\<close> as an event machine: a caller asks
  for a key, the upstream request of a key settles, and the \<open>finally\<close> callback of a settled
  request runs. Every reading of the injected clock is part of its event, so a clock that steps
  backwards is a sequence of events like any other. One reading stands for the readings that one
  synchronous event makes.
\<close>

section \<open>The cache\<close>

datatype outcome = Ok | Cached | Stale

text \<open>An upstream failure: a typed reason, or any other exception.\<close>

type_synonym upstream_result = "failure_reason option + string"
type_synonym served = "failure_reason option + string \<times> outcome"

definition TRANSIENT_REASONS :: "failure_reason list" where
  "TRANSIENT_REASONS = [auth, unreachable, timeout, server_error, bad_response]"

record cache_opts =
  ttlMs :: int
  staleMaxMs :: int

text \<open>An entry of \<open>inflight\<close>: the promise with the callers that hold it, not yet settled or
  settled with its \<open>finally\<close> callback still to run.\<close>

datatype 'c flight = Running "'c list" | Settled served "'c list"

record 'c cache =
  entries :: "string \<rightharpoonup> string \<times> int"
  inflight :: "string \<rightharpoonup> 'c flight"

definition empty_cache :: "'c cache" where
  "empty_cache = \<lparr>entries = Map.empty, inflight = Map.empty\<rparr>"

definition keepMs :: "cache_opts \<Rightarrow> int" where
  "keepMs opts = max (ttlMs opts) (staleMaxMs opts)"

text \<open>\<open>ageOf(e) < limit\<close>: a negative age counts as infinite.\<close>

definition younger :: "int \<Rightarrow> int \<Rightarrow> int \<Rightarrow> bool" where
  "younger now fetchedAt limit \<longleftrightarrow> \<not> now - fetchedAt < 0 \<and> now - fetchedAt < limit"

definition sweep :: "cache_opts \<Rightarrow> int \<Rightarrow> (string \<rightharpoonup> string \<times> int) \<Rightarrow> (string \<rightharpoonup> string \<times> int)" where
  "sweep opts now es k =
     (case es k of
        None \<Rightarrow> None
      | Some (v, at) \<Rightarrow> if younger now at (keepMs opts) then Some (v, at) else None)"

datatype 'c effect = StartFetch string | OnStale | Reply string 'c served

definition cache_get :: "cache_opts \<Rightarrow> string \<Rightarrow> 'c \<Rightarrow> int \<Rightarrow> 'c cache \<Rightarrow> 'c cache \<times> 'c effect list" where
  "cache_get opts key c now s =
     (let es = sweep opts now (entries s); s1 = s\<lparr>entries := es\<rparr>;
          miss = (case inflight s key of
             Some (Running ws) \<Rightarrow> (s1\<lparr>inflight := (inflight s)(key \<mapsto> Running (ws @ [c]))\<rparr>, [])
           | Some (Settled r ws) \<Rightarrow> (s1\<lparr>inflight := (inflight s)(key \<mapsto> Settled r (ws @ [c]))\<rparr>, [])
           | None \<Rightarrow> (s1\<lparr>inflight := (inflight s)(key \<mapsto> Running [c])\<rparr>, [StartFetch key]))
      in case es key of
           Some (v, at) \<Rightarrow>
             if ttlMs opts > 0 \<and> younger now at (ttlMs opts)
             then (s1, [Reply key c (Inr (v, Cached))]) else miss
         | None \<Rightarrow> miss)"

text \<open>The \<open>try\<close> and the \<open>catch\<close> of \<open>refresh\<close>, run when the upstream promise settles.\<close>

definition refresh_result :: "cache_opts \<Rightarrow> string \<Rightarrow> upstream_result \<Rightarrow> int
    \<Rightarrow> (string \<rightharpoonup> string \<times> int) \<Rightarrow> (string \<rightharpoonup> string \<times> int) \<times> served" where
  "refresh_result opts key res now es =
     (case res of
        Inr v \<Rightarrow> (if ttlMs opts > 0 then es(key \<mapsto> (v, now)) else es, Inr (v, Ok))
      | Inl err \<Rightarrow>
          (let transient = (case err of Some r \<Rightarrow> List.member TRANSIENT_REASONS r | None \<Rightarrow> False) in
           case es key of
             Some (v, at) \<Rightarrow>
               if transient \<and> younger now at (staleMaxMs opts) then (es, Inr (v, Stale))
               else (es(key := None), Inl err)
           | None \<Rightarrow> (es(key := None), Inl err)))"

definition cache_settle :: "cache_opts \<Rightarrow> string \<Rightarrow> upstream_result \<Rightarrow> int \<Rightarrow> 'c cache
    \<Rightarrow> 'c cache \<times> 'c effect list" where
  "cache_settle opts key res now s =
     (case inflight s key of
        Some (Running ws) \<Rightarrow>
          (case refresh_result opts key res now (entries s) of
             (es, r) \<Rightarrow>
               (s\<lparr>entries := es, inflight := (inflight s)(key \<mapsto> Settled r ws)\<rparr>,
                case r of Inr (_, Stale) \<Rightarrow> [OnStale] | _ \<Rightarrow> []))
      | _ \<Rightarrow> (s, []))"

definition cache_finally :: "string \<Rightarrow> 'c cache \<Rightarrow> 'c cache \<times> 'c effect list" where
  "cache_finally key s =
     (case inflight s key of
        Some (Settled r ws) \<Rightarrow> (s\<lparr>inflight := (inflight s)(key := None)\<rparr>, map (\<lambda>c. Reply key c r) ws)
      | _ \<Rightarrow> (s, []))"

section \<open>Runs\<close>

datatype 'c event = Get string 'c int | Fetched string upstream_result int | Finally string

fun cache_step :: "cache_opts \<Rightarrow> 'c cache \<Rightarrow> 'c event \<Rightarrow> 'c cache \<times> 'c effect list" where
  "cache_step opts s (Get k c now) = cache_get opts k c now s"
| "cache_step opts s (Fetched k res now) = cache_settle opts k res now s"
| "cache_step opts s (Finally k) = cache_finally k s"

text \<open>A request settles only when it was started and has not settled, and its callback runs once
  it has.\<close>

fun can_happen :: "'c cache \<Rightarrow> 'c event \<Rightarrow> bool" where
  "can_happen s (Get k c now) = True"
| "can_happen s (Fetched k res now) = (case inflight s k of Some (Running _) \<Rightarrow> True | _ \<Rightarrow> False)"
| "can_happen s (Finally k) = (case inflight s k of Some (Settled _ _) \<Rightarrow> True | _ \<Rightarrow> False)"

inductive cache_run :: "cache_opts \<Rightarrow> 'c event list \<Rightarrow> 'c cache \<Rightarrow> 'c effect list \<Rightarrow> bool"
  for opts where
  start: "cache_run opts [] empty_cache []"
| event: "cache_run opts es s outs \<Longrightarrow> can_happen s e \<Longrightarrow> cache_step opts s e = (s', os)
    \<Longrightarrow> cache_run opts (es @ [e]) s' (outs @ os)"

code_pred cache_run .

inductive_cases cache_runE: "cache_run opts es s outs"

section \<open>What upstream said last\<close>

definition is_transient :: "failure_reason option \<Rightarrow> bool" where
  "is_transient err \<longleftrightarrow> (\<exists>r. err = Some r \<and> r \<in> set TRANSIENT_REASONS)"

text \<open>The last definitive answer of the upstream for a key and when it came: transient failures
  do not count, a definitive failure leaves nothing.\<close>

fun upstream_after :: "string \<Rightarrow> (string \<times> int) option \<Rightarrow> 'c event \<Rightarrow> (string \<times> int) option" where
  "upstream_after k u (Fetched k' res now) =
     (if k' = k then (case res of Inr v \<Rightarrow> Some (v, now)
        | Inl err \<Rightarrow> if is_transient err then u else None) else u)"
| "upstream_after k u _ = u"

definition upstream :: "string \<Rightarrow> 'c event list \<Rightarrow> (string \<times> int) option" where
  "upstream k es = foldl (upstream_after k) None es"

lemma upstream_Nil [simp]: "upstream k [] = None"
  by (simp add: upstream_def)

lemma upstream_snoc [simp]: "upstream k (es @ [e]) = upstream_after k (upstream k es) e"
  by (simp add: upstream_def)

text \<open>Why a result may be served: the event that decided it and what was known then.\<close>

fun justifies :: "cache_opts \<Rightarrow> string \<Rightarrow> served \<Rightarrow> 'c event list \<Rightarrow> 'c event \<Rightarrow> bool" where
  "justifies opts k (Inr (v, Ok)) es (Fetched k' res now) = (k' = k \<and> res = Inr v)"
| "justifies opts k (Inr (v, Cached)) es (Get k' c now) =
     (k' = k \<and> (\<exists>t. upstream k es = Some (v, t) \<and> t \<le> now \<and> now < t + ttlMs opts))"
| "justifies opts k (Inr (v, Stale)) es (Fetched k' res now) =
     (k' = k \<and> (\<exists>err t. res = Inl err \<and> is_transient err \<and> upstream k es = Some (v, t)
        \<and> t \<le> now \<and> now < t + staleMaxMs opts))"
| "justifies opts k (Inl err) es (Fetched k' res now) = (k' = k \<and> res = Inl err)"
| "justifies _ _ _ _ _ = False"

definition justified :: "cache_opts \<Rightarrow> string \<Rightarrow> served \<Rightarrow> 'c event list \<Rightarrow> bool" where
  "justified opts k r es \<longleftrightarrow> (\<exists>ps e. prefix (ps @ [e]) es \<and> justifies opts k r ps e)"

lemma justified_now: "justifies opts k r es e \<Longrightarrow> justified opts k r (es @ [e])"
  unfolding justified_def by blast

lemma justified_later: "justified opts k r es \<Longrightarrow> justified opts k r (es @ [e])"
  unfolding justified_def by (meson prefix_order.trans prefixI)

fun flight_result :: "'c flight \<Rightarrow> served option" where
  "flight_result (Running ws) = None"
| "flight_result (Settled r ws) = Some r"

fun waiters :: "'c flight option \<Rightarrow> 'c list" where
  "waiters None = []"
| "waiters (Some (Running ws)) = ws"
| "waiters (Some (Settled r ws)) = ws"

lemma member_transient: "is_transient err \<longleftrightarrow>
    (case err of Some r \<Rightarrow> List.member TRANSIENT_REASONS r | None \<Rightarrow> False)"
  by (auto simp: is_transient_def split: option.splits)

lemma sweep_keeps: "sweep opts now es k = Some x \<Longrightarrow> es k = Some x"
  by (auto simp: sweep_def split: option.splits if_splits)

section \<open>The invariant of every run\<close>

definition gets :: "string \<Rightarrow> 'c \<Rightarrow> 'c event list \<Rightarrow> nat" where
  "gets k c es = length (filter (\<lambda>e. \<exists>t. e = Get k c t) es)"

definition replies :: "string \<Rightarrow> 'c \<Rightarrow> 'c effect list \<Rightarrow> nat" where
  "replies k c os = length (filter (\<lambda>x. \<exists>r. x = Reply k c r) os)"

definition fetches :: "string \<Rightarrow> 'c effect list \<Rightarrow> nat" where
  "fetches k os = length (filter (\<lambda>x. x = StartFetch k) os)"

definition settlements :: "string \<Rightarrow> 'c event list \<Rightarrow> nat" where
  "settlements k es = length (filter (\<lambda>e. \<exists>r t. e = Fetched k r t) es)"

definition running :: "'c cache \<Rightarrow> string \<Rightarrow> nat" where
  "running s k = (case inflight s k of Some (Running _) \<Rightarrow> 1 | _ \<Rightarrow> 0)"

lemmas tallies = gets_def replies_def fetches_def settlements_def

definition cache_inv :: "cache_opts \<Rightarrow> 'c event list \<Rightarrow> 'c cache \<Rightarrow> 'c effect list \<Rightarrow> bool" where
  "cache_inv opts es s os \<longleftrightarrow>
     (\<forall>k v t. entries s k = Some (v, t) \<longrightarrow> upstream k es = Some (v, t) \<and> ttlMs opts > 0)
     \<and> (\<forall>k r ws. inflight s k = Some (Settled r ws) \<longrightarrow> justified opts k r es)
     \<and> (\<forall>k c r. Reply k c r \<in> set os \<longrightarrow> justified opts k r es)
     \<and> (\<forall>k c. gets k c es = replies k c os + count_list (waiters (inflight s k)) c)
     \<and> (\<forall>k. fetches k os = settlements k es + running s k)"

lemma cache_invI:
  assumes "\<And>k v t. entries s k = Some (v, t) \<Longrightarrow> upstream k es = Some (v, t) \<and> ttlMs opts > 0"
    and "\<And>k r ws. inflight s k = Some (Settled r ws) \<Longrightarrow> justified opts k r es"
    and "\<And>k c r. Reply k c r \<in> set os \<Longrightarrow> justified opts k r es"
    and "\<And>k c. gets k c es = replies k c os + count_list (waiters (inflight s k)) c"
    and "\<And>k. fetches k os = settlements k es + running s k"
  shows "cache_inv opts es s os"
  unfolding cache_inv_def using assms by blast

lemma cache_invD:
  assumes "cache_inv opts es s os"
  shows "\<And>k v t. entries s k = Some (v, t) \<Longrightarrow> upstream k es = Some (v, t) \<and> ttlMs opts > 0"
    and "\<And>k r ws. inflight s k = Some (Settled r ws) \<Longrightarrow> justified opts k r es"
    and "\<And>k c r. Reply k c r \<in> set os \<Longrightarrow> justified opts k r es"
    and "\<And>k c. gets k c es = replies k c os + count_list (waiters (inflight s k)) c"
    and "\<And>k. fetches k os = settlements k es + running s k"
  using assms unfolding cache_inv_def by blast+

lemma cache_inv_start: "cache_inv opts [] empty_cache []"
  by (rule cache_invI) (auto simp: empty_cache_def tallies running_def)

text \<open>The two outcomes of \<open>get\<close>.\<close>

lemma cache_get_cases:
  assumes "cache_get opts k c now s = (s', os)"
  obtains (hit) v t where "entries s k = Some (v, t)" "ttlMs opts > 0" "younger now t (ttlMs opts)"
      "s' = s\<lparr>entries := sweep opts now (entries s)\<rparr>" "os = [Reply k c (Inr (v, Cached))]"
  | (join) f f' where "inflight s k = Some f"
      "s' = s\<lparr>entries := sweep opts now (entries s), inflight := (inflight s)(k \<mapsto> f')\<rparr>" "os = []"
      "flight_result f' = flight_result f" "waiters (Some f') = waiters (Some f) @ [c]"
  | (fetch) "inflight s k = None"
      "s' = s\<lparr>entries := sweep opts now (entries s), inflight := (inflight s)(k \<mapsto> Running [c])\<rparr>"
      "os = [StartFetch k]"
proof (cases "\<exists>v t. sweep opts now (entries s) k = Some (v, t) \<and> ttlMs opts > 0 \<and> younger now t (ttlMs opts)")
  case True
  then obtain v t where e: "sweep opts now (entries s) k = Some (v, t)" "ttlMs opts > 0"
    "younger now t (ttlMs opts)" by blast
  with assms show ?thesis
    by (intro hit [of v t]) (auto simp: cache_get_def Let_def dest: sweep_keeps)
next
  case False
  then have miss: "(s', os) = (case inflight s k of
      Some (Running ws) \<Rightarrow> (s\<lparr>entries := sweep opts now (entries s), inflight := (inflight s)(k \<mapsto> Running (ws @ [c]))\<rparr>, [])
    | Some (Settled r ws) \<Rightarrow> (s\<lparr>entries := sweep opts now (entries s), inflight := (inflight s)(k \<mapsto> Settled r (ws @ [c]))\<rparr>, [])
    | None \<Rightarrow> (s\<lparr>entries := sweep opts now (entries s), inflight := (inflight s)(k \<mapsto> Running [c])\<rparr>, [StartFetch k]))"
    using assms unfolding cache_get_def Let_def
    by (cases "sweep opts now (entries s) k") (auto split: if_splits)
  show ?thesis
  proof (cases "inflight s k")
    case None
    with miss show ?thesis by (intro fetch) auto
  next
    case (Some f)
    then show ?thesis
    proof (cases f)
      case (Running ws)
      with Some miss show ?thesis by (intro join [of f "Running (ws @ [c])"]) auto
    next
      case (Settled r ws)
      with Some miss show ?thesis by (intro join [of f "Settled r (ws @ [c])"]) auto
    qed
  qed
qed

lemma count_list_append [simp]: "count_list (xs @ ys) x = count_list xs x + count_list ys x"
  by (induction xs) auto

lemma flight_result_Settled: "flight_result f = Some r \<longleftrightarrow> (\<exists>ws. f = Settled r ws)"
  by (cases f) auto

lemma running_flight: "running s k = (case inflight s k of None \<Rightarrow> 0
    | Some f \<Rightarrow> if flight_result f = None then 1 else 0)"
  by (auto simp: running_def split: option.splits flight.splits)

lemma cache_inv_get:
  assumes inv: "cache_inv opts es s os" and step: "cache_get opts k c now s = (s', os')"
  shows "cache_inv opts (es @ [Get k c now]) s' (os @ os')"
  using step
proof (cases rule: cache_get_cases)
  case (hit v t)
  have up: "upstream k es = Some (v, t)" using cache_invD(1) [OF inv hit(1)] by simp
  have just: "justified opts k (Inr (v, Cached)) (es @ [Get k c now])"
    using hit(3) up by (intro justified_now) (auto simp: younger_def)
  show ?thesis
    by (rule cache_invI)
      (use hit cache_invD [OF inv] just in
        \<open>auto simp: tallies running_def justified_later dest: sweep_keeps split: option.splits flight.splits\<close>)
next
  case (join f f')
  show ?thesis
  proof (rule cache_invI)
    fix k' r ws
    assume "inflight s' k' = Some (Settled r ws)"
    then have "\<exists>ws. inflight s k' = Some (Settled r ws)"
      using join flight_result_Settled [of f r] by (auto split: if_splits)
    then show "justified opts k' r (es @ [Get k c now])"
      using cache_invD(2) [OF inv] justified_later by blast
  next
    fix k'
    have "running s' k' = running s k'"
      using join by (simp add: running_flight)
    with join cache_invD(5) [OF inv, of k']
    show "fetches k' (os @ os') = settlements k' (es @ [Get k c now]) + running s' k'"
      by (simp add: tallies)
  next
    fix k' c'
    show "gets k' c' (es @ [Get k c now])
        = replies k' c' (os @ os') + count_list (waiters (inflight s' k')) c'"
      using join cache_invD(4) [OF inv, of k' c'] by (auto simp: tallies)
  qed (use join cache_invD(1,3) [OF inv] in \<open>auto simp: justified_later dest: sweep_keeps\<close>)
next
  case fetch
  show ?thesis
    by (rule cache_invI)
      (use fetch cache_invD [OF inv] in
        \<open>auto simp: tallies running_def justified_later dest: sweep_keeps split: if_splits\<close>)
qed

lemma refresh_result_spec:
  assumes "refresh_result opts k res now es = (es', r)"
    and up: "\<And>v t. es k = Some (v, t) \<Longrightarrow> upstream k evs = Some (v, t) \<and> ttlMs opts > 0"
  shows "justifies opts k r evs (Fetched k res now)"
    and "\<And>k'. k' \<noteq> k \<Longrightarrow> es' k' = es k'"
    and "es' k = Some (v, t) \<Longrightarrow>
      upstream k (evs @ [Fetched k res now]) = Some (v, t) \<and> ttlMs opts > 0"
proof -
  show "justifies opts k r evs (Fetched k res now)"
    using assms by (auto simp: refresh_result_def Let_def younger_def member_transient
        split: sum.splits option.splits if_splits)
  show "\<And>k'. k' \<noteq> k \<Longrightarrow> es' k' = es k'"
    using assms(1) by (auto simp: refresh_result_def Let_def split: sum.splits option.splits if_splits)
  show "es' k = Some (v, t) \<Longrightarrow> upstream k (evs @ [Fetched k res now]) = Some (v, t) \<and> ttlMs opts > 0"
    using assms by (auto simp: refresh_result_def Let_def member_transient
        split: sum.splits option.splits if_splits)
qed

lemma cache_inv_settle:
  assumes inv: "cache_inv opts es s os" and run: "inflight s k = Some (Running ws)"
    and step: "cache_settle opts k res now s = (s', os')"
  shows "cache_inv opts (es @ [Fetched k res now]) s' (os @ os')"
proof -
  obtain ents r where rr: "refresh_result opts k res now (entries s) = (ents, r)" by fastforce
  have s': "s' = s\<lparr>entries := ents, inflight := (inflight s)(k \<mapsto> Settled r ws)\<rparr>"
    and os': "set os' \<subseteq> {OnStale}"
    using step run rr by (auto simp: cache_settle_def split: sum.splits prod.splits outcome.splits)
  have quiet: "fetches k' os' = 0" "replies k' c os' = 0" for k' c
    using os' by (auto simp: tallies filter_empty_conv)
  note spec = refresh_result_spec [OF rr cache_invD(1) [OF inv]]
  show ?thesis
  proof (rule cache_invI)
    fix k' v t
    assume "entries s' k' = Some (v, t)"
    then show "upstream k' (es @ [Fetched k res now]) = Some (v, t) \<and> ttlMs opts > 0"
      using spec(2) [of k'] spec(3) [of v t] cache_invD(1) [OF inv, of k' v t]
      by (cases "k' = k") (auto simp: s')
  next
    fix k' r' ws'
    assume "inflight s' k' = Some (Settled r' ws')"
    then show "justified opts k' r' (es @ [Fetched k res now])"
      using justified_now [OF spec(1)] cache_invD(2) [OF inv, of k'] justified_later
      by (auto simp: s' split: if_splits)
  next
    fix k' c r'
    assume "Reply k' c r' \<in> set (os @ os')"
    then show "justified opts k' r' (es @ [Fetched k res now])"
      using os' cache_invD(3) [OF inv, of k' c r'] justified_later by auto
  next
    fix k' c
    show "gets k' c (es @ [Fetched k res now])
        = replies k' c (os @ os') + count_list (waiters (inflight s' k')) c"
      using cache_invD(4) [OF inv, of k' c] quiet run by (auto simp: tallies s')
  next
    fix k'
    show "fetches k' (os @ os') = settlements k' (es @ [Fetched k res now]) + running s' k'"
      using cache_invD(5) [OF inv, of k'] quiet run by (auto simp: tallies s' running_def)
  qed
qed

lemma replies_map: "replies k' c' (map (\<lambda>c. Reply k c r) ws) = (if k' = k then count_list ws c' else 0)"
  by (induction ws) (auto simp: tallies)

lemma cache_inv_finally:
  assumes inv: "cache_inv opts es s os" and fin: "inflight s k = Some (Settled r ws)"
    and step: "cache_finally k s = (s', os')"
  shows "cache_inv opts (es @ [Finally k]) s' (os @ os')"
proof -
  have s': "s' = s\<lparr>inflight := (inflight s)(k := None)\<rparr>" and os': "os' = map (\<lambda>c. Reply k c r) ws"
    using step fin by (auto simp: cache_finally_def)
  have app: "replies k' c (os @ os') = replies k' c os + replies k' c os'" for k' c
    by (simp add: replies_def)
  have quiet: "fetches k' os' = 0" for k'
    by (auto simp: os' tallies filter_empty_conv)
  show ?thesis
  proof (rule cache_invI)
    fix k' c r'
    assume "Reply k' c r' \<in> set (os @ os')"
    then show "justified opts k' r' (es @ [Finally k])"
      using cache_invD(2) [OF inv fin] cache_invD(3) [OF inv, of k' c r'] justified_later
      by (auto simp: os')
  next
    fix k' c
    show "gets k' c (es @ [Finally k])
        = replies k' c (os @ os') + count_list (waiters (inflight s' k')) c"
      using cache_invD(4) [OF inv, of k' c] fin
      unfolding app by (auto simp: os' replies_map s' gets_def)
  next
    fix k'
    show "fetches k' (os @ os') = settlements k' (es @ [Finally k]) + running s' k'"
      using cache_invD(5) [OF inv, of k'] quiet fin by (auto simp: tallies s' running_def)
  qed (use cache_invD(1,2) [OF inv] in \<open>auto simp: s' justified_later split: if_splits\<close>)
qed

lemma cache_run_inv: "cache_run opts es s os \<Longrightarrow> cache_inv opts es s os"
proof (induction rule: cache_run.induct)
  case start
  show ?case by (rule cache_inv_start)
next
  case (event es s os e s' os')
  show ?case
  proof (cases e)
    case (Get k c now)
    with event cache_inv_get show ?thesis by fastforce
  next
    case (Fetched k res now)
    with event(2) obtain ws where "inflight s k = Some (Running ws)"
      by (auto split: option.splits flight.splits)
    with Fetched event cache_inv_settle show ?thesis by fastforce
  next
    case (Finally k)
    with event(2) obtain r ws where "inflight s k = Some (Settled r ws)"
      by (auto split: option.splits flight.splits)
    with Finally event cache_inv_finally show ?thesis by fastforce
  qed
qed

section \<open>What callers can rely on\<close>


text \<open>A run in which a value is fetched, served from the cache, and served stale to the next
  caller after Vault timed out.\<close>

definition demo_opts :: cache_opts where
  "demo_opts = \<lparr>ttlMs = 60, staleMaxMs = 600\<rparr>"

definition demo_events :: "nat event list" where
  "demo_events =
     [Get ''k'' 1 0, Fetched ''k'' (Inr ''v'') 5, Finally ''k'', Get ''k'' 2 30, Get ''k'' 3 100,
      Fetched ''k'' (Inl (Some timeout)) 105, Finally ''k'']"

fun run_cache :: "cache_opts \<Rightarrow> 'c cache \<Rightarrow> 'c effect list \<Rightarrow> 'c event list
    \<Rightarrow> ('c cache \<times> 'c effect list) option" where
  "run_cache opts s os [] = Some (s, os)"
| "run_cache opts s os (e # es) =
     (if can_happen s e
      then (case cache_step opts s e of (s', os') \<Rightarrow> run_cache opts s' (os @ os') es) else None)"

lemma run_cache_run:
  "run_cache opts s os es = Some (s', os') \<Longrightarrow> cache_run opts ps s os \<Longrightarrow> cache_run opts (ps @ es) s' os'"
proof (induction es arbitrary: s os ps)
  case (Cons e es)
  obtain s1 os1 where st: "cache_step opts s e = (s1, os1)" by fastforce
  with Cons.prems(1) have "can_happen s e" and rest: "run_cache opts s1 (os @ os1) es = Some (s', os')"
    by (auto split: if_splits)
  then have "cache_run opts (ps @ [e]) s1 (os @ os1)"
    using cache_run.event [OF Cons.prems(2) _ st] by simp
  from Cons.IH [OF rest this] show ?case by simp
qed simp

lemma demo_run:
  "\<exists>s. cache_run demo_opts demo_events s
     [StartFetch ''k'', Reply ''k'' 1 (Inr (''v'', Ok)), Reply ''k'' 2 (Inr (''v'', Cached)),
      StartFetch ''k'', OnStale, Reply ''k'' 3 (Inr (''v'', Stale))] \<and> inflight s ''k'' = None"
proof -
  have "\<exists>s. run_cache demo_opts empty_cache [] demo_events = Some (s,
     [StartFetch ''k'', Reply ''k'' 1 (Inr (''v'', Ok)), Reply ''k'' 2 (Inr (''v'', Cached)),
      StartFetch ''k'', OnStale, Reply ''k'' 3 (Inr (''v'', Stale))]) \<and> inflight s ''k'' = None"
    by (simp add: demo_events_def demo_opts_def empty_cache_def cache_get_def cache_settle_def
        cache_finally_def refresh_result_def sweep_def younger_def keepMs_def TRANSIENT_REASONS_def)
  then show ?thesis
    using run_cache_run [OF _ cache_run.start] by fastforce
qed


text \<open>Concurrent callers of one key share one upstream request: in every run the requests
  started for a key are the ones that have settled and at most one more; and every call of
  \<open>get\<close> is answered exactly once when no request of its key is outstanding.\<close>

theorem cache_single_flight:
  assumes "cache_run opts es s os"
  shows "fetches k os = settlements k es + running s k \<and> running s k \<le> 1
     \<and> gets k c es = replies k c os + count_list (waiters (inflight s k)) c"
  using cache_invD(4,5) [OF cache_run_inv [OF assms]]
  by (simp add: running_def split: option.splits flight.splits)

theorem cache_single_flight_witness:
  "gets ''k'' (3 :: nat) demo_events = 1"
proof -
  obtain s where s: "cache_run demo_opts demo_events s
     [StartFetch ''k'', Reply ''k'' 1 (Inr (''v'', Ok)), Reply ''k'' 2 (Inr (''v'', Cached)),
      StartFetch ''k'', OnStale, Reply ''k'' 3 (Inr (''v'', Stale))]" "inflight s ''k'' = None"
    using demo_run by blast
  from cache_single_flight [OF s(1), of "''k''" 3] s(2) show ?thesis
    by (simp add: replies_def)
qed

text \<open>After a definitive failure the key holds nothing, and nothing it settles to is a value,
  until an upstream request succeeds again.\<close>

definition dropped :: "string \<Rightarrow> 'c cache \<Rightarrow> bool" where
  "dropped k s \<longleftrightarrow> entries s k = None
     \<and> (\<forall>r ws. inflight s k = Some (Settled r ws) \<longrightarrow> (\<exists>err. r = Inl err))"

lemma dropped_settle:
  assumes "cache_settle opts k res now s = (s', os)" "inflight s k = Some (Running ws)"
    and "res = Inl err" "\<not> is_transient err \<or> entries s k = None"
  shows "dropped k s'"
  using assms by (auto simp: cache_settle_def refresh_result_def Let_def dropped_def member_transient
      split: option.splits if_splits)

lemma dropped_get:
  assumes "dropped k s" and step: "cache_get opts k' c now s = (s', os)"
  shows "dropped k s'" "Reply k c' r \<in> set os \<Longrightarrow> \<exists>err. r = Inl err"
proof -
  show "dropped k s'"
    using step
  proof (cases rule: cache_get_cases)
    case (join f f')
    then show ?thesis
      using assms(1) flight_result_Settled [of f] flight_result_Settled [of f']
      by (cases f; cases f') (auto simp: dropped_def sweep_def)
  qed (use assms(1) in \<open>auto simp: dropped_def sweep_def split: if_splits\<close>)
  show "Reply k c' r \<in> set os \<Longrightarrow> \<exists>err. r = Inl err"
    using step assms(1) by (cases rule: cache_get_cases) (auto simp: dropped_def)
qed

lemma dropped_step:
  assumes "dropped k s" "can_happen s e" "cache_step opts s e = (s', os)"
    and "\<nexists>v t. e = Fetched k (Inr v) t"
  shows "dropped k s'" "Reply k c r \<in> set os \<Longrightarrow> \<exists>err. r = Inl err"
proof -
  show "dropped k s'"
  proof (cases e)
    case (Get k' c' now)
    with assms dropped_get(1) show ?thesis by fastforce
  next
    case (Fetched k' res now)
    with assms(2) obtain ws where run: "inflight s k' = Some (Running ws)"
      by (auto split: option.splits flight.splits)
    show ?thesis
    proof (cases "k' = k")
      case True
      with Fetched assms(4) obtain err where "res = Inl err" by (cases res) auto
      moreover have "entries s k = None" using assms(1) by (simp add: dropped_def)
      ultimately show ?thesis
        using True Fetched run assms(3) by (intro dropped_settle [of _ k res now s s' os ws err]) auto
    next
      case False
      with Fetched run assms show ?thesis
        by (auto simp: cache_settle_def dropped_def refresh_result_def Let_def
            split: sum.splits option.splits if_splits)
    qed
  next
    case (Finally k')
    with assms show ?thesis
      by (auto simp: cache_finally_def dropped_def split: option.splits flight.splits if_splits)
  qed
  show "\<exists>err. r = Inl err" if "Reply k c r \<in> set os"
  proof (cases e)
    case (Get k' c' now)
    with assms that dropped_get(2) show ?thesis by fastforce
  next
    case (Fetched k' res now)
    with assms that show ?thesis
      by (auto simp: cache_settle_def split: option.splits flight.splits prod.splits sum.splits
          outcome.splits)
  next
    case (Finally k')
    with assms that show ?thesis
      by (auto simp: cache_finally_def dropped_def split: option.splits flight.splits if_splits)
  qed
qed

lemma dropped_run:
  assumes "cache_run opts es s os" "es = ps @ Fetched k (Inl err) t # fs"
    and "\<not> is_transient err" "\<nexists>v t. Fetched k (Inr v) t \<in> set fs"
  shows "dropped k s"
  using assms
proof (induction arbitrary: fs rule: cache_run.induct)
  case start
  then show ?case by simp
next
  case (event es s os e s' os')
  show ?case
  proof (cases fs rule: rev_cases)
    case Nil
    with event(5) have e: "e = Fetched k (Inl err) t" by simp
    with event(2) obtain ws where "inflight s k = Some (Running ws)"
      by (auto split: option.splits flight.splits)
    with e event(3,6) show ?thesis by (auto intro: dropped_settle)
  next
    case (snoc gs g)
    with event(5) have "es = ps @ Fetched k (Inl err) t # gs" "e = g" by auto
    with event snoc have "dropped k s" by auto
    then show ?thesis
      by (rule dropped_step(1) [OF _ event(2,3)]) (use event(7) snoc \<open>e = g\<close> in auto)
  qed
qed

text \<open>A definitive answer of Vault (the secret is gone, the policy denies it, or anything that
  is not a typed transient failure) is never masked: from then on no caller receives a value for
  the key, cached or stale, until an upstream request for it succeeds again.\<close>

theorem definitive_failure_not_masked:
  assumes "cache_run opts (ps @ Fetched k (Inl err) t # fs) s os" "\<not> is_transient err"
    and "\<nexists>v t. Fetched k (Inr v) t \<in> set (fs @ [e])"
    and "can_happen s e" "cache_step opts s e = (s', os')" "Reply k c r \<in> set os'"
  shows "\<exists>err. r = Inl err"
proof -
  have "dropped k s" by (rule dropped_run [OF assms(1) refl assms(2)]) (use assms(3) in auto)
  then show ?thesis by (rule dropped_step(2) [OF _ assms(4,5) _ assms(6)]) (use assms(3) in auto)
qed

definition denied_events :: "nat event list" where
  "denied_events =
     [Get ''k'' 1 0, Fetched ''k'' (Inr ''v'') 5, Finally ''k'', Get ''k'' 2 100,
      Fetched ''k'' (Inl (Some denied)) 105]"

theorem definitive_failure_not_masked_witness:
  "\<exists>s os. cache_run demo_opts denied_events s os
     \<and> snd (cache_step demo_opts s (Finally ''k'')) = [Reply ''k'' 2 (Inl (Some denied))]
     \<and> (\<exists>err. Inl (Some denied) = (Inl err :: served))"
proof -
  have "\<exists>s os. run_cache demo_opts empty_cache [] denied_events = Some (s, os)
     \<and> inflight s ''k'' = Some (Settled (Inl (Some denied)) [2])"
    by (simp add: denied_events_def demo_opts_def empty_cache_def cache_get_def cache_settle_def
        cache_finally_def refresh_result_def sweep_def younger_def keepMs_def TRANSIENT_REASONS_def)
  then obtain s os where run: "cache_run demo_opts denied_events s os"
    and fl: "inflight s ''k'' = Some (Settled (Inl (Some denied)) [2])"
    using run_cache_run [OF _ cache_run.start] by fastforce
  have ev: "denied_events = [Get ''k'' 1 0, Fetched ''k'' (Inr ''v'') 5, Finally ''k'', Get ''k'' 2 100]
      @ Fetched ''k'' (Inl (Some denied)) 105 # []"
    by (simp add: denied_events_def)
  have out: "snd (cache_step demo_opts s (Finally ''k'')) = [Reply ''k'' 2 (Inl (Some denied))]"
    using fl by (simp add: cache_finally_def)
  have "\<exists>err. Inl (Some denied) = (Inl err :: served)"
    by (rule definitive_failure_not_masked [OF run [unfolded ev], where e = "Finally ''k''" and c = 2])
      (use fl out in \<open>auto simp: is_transient_def TRANSIENT_REASONS_def cache_finally_def\<close>)
  with run out show ?thesis by blast
qed

end
