(* ===== verification/VaultFacts.thy ===== *)
theory VaultFacts
  imports VaultClient SecretCache
begin

text \<open>
  Facts about the Vault client: when a refused read can end in a reason that lets the cache serve
  a stale value, how often it logs in, and that a token whose lease runs is never given up. They
  hold for every environment: any answers, and any changes other reads make during an await.
\<close>

lemmas vm_defs = vret_def fail_def vbind_def vcatch_def vfinally_def get_client_def modify_def
  clock_def vlift_def

section \<open>Refusals\<close>

lemma recentlyAccepted_total: "\<exists>b s'. recentlyAccepted env cfg t s = (Inr b, s')"
  by (auto simp: recentlyAccepted_def vm_defs split: option.splits prod.splits)

text \<open>A read that Vault refuses (401 or 403) ends as \<open>denied\<close>, a definitive answer, unless
  lookup-self refused the token too and then either the role is known to be able to look itself up,
  which proves the token dead, or another token was obtained and asked again. So a value that the
  policy refuses is not served stale: every transient reason comes from one of those two.\<close>

theorem refusal_is_definitive:
  assumes "on_refusal env cfg arr apiPath field t s0 = (Inl e, s')" "is_transient (Some e)"
  shows "\<exists>s1. lookupSelf env cfg t s0 = (Inr False, s1)
     \<and> (canLookup (fst s1) = Some True
        \<or> (\<exists>s2 t' s3. recentlyAccepted env cfg t s1 = (Inr False, s2)
             \<and> replaceToken env cfg t s2 = (Inr t', s3)
             \<and> vbind (kvGet env cfg apiPath t') (\<lambda>res. conclude env arr field t' res) s3 = (Inl e, s')))"
proof -
  obtain r s1 where l: "lookupSelf env cfg t s0 = (r, s1)" by (metis prod.exhaust)
  have nd: "e \<noteq> denied" using assms(2) by (auto simp: is_transient_def TRANSIENT_REASONS_def)
  then have r: "r = Inr False"
    using assms(1) l by (auto simp: on_refusal_def fail_def split: sum.splits bool.splits)
  show ?thesis
  proof (cases "canLookup (fst s1) = Some True")
    case True
    with l r show ?thesis by auto
  next
    case False
    obtain b s2 where ra: "recentlyAccepted env cfg t s1 = (Inr b, s2)"
      using recentlyAccepted_total by blast
    obtain r3 s3 where rt: "replaceToken env cfg t s2 = (r3, s3)" by (metis prod.exhaust)
    obtain t' where "b = False" "r3 = Inr t'"
      and again: "vbind (kvGet env cfg apiPath t') (\<lambda>res. conclude env arr field t' res) s3 = (Inl e, s')"
      using assms(1) l r False ra rt nd
      by (cases b; cases r3) (auto simp: on_refusal_def fail_def Let_def)
    then have "recentlyAccepted env cfg t s1 = (Inr False, s2)" "replaceToken env cfg t s2 = (Inr t', s3)"
      using ra rt by simp_all
    with l r again show ?thesis by blast
  qed
qed

text \<open>When lookup-self accepts the token, or cannot answer, a refused read is denied and the
  client is left as lookup-self left it: no login is attempted for a path the policy denies.\<close>

theorem policy_denial_no_login:
  assumes "lookupSelf env cfg t s0 = (r, s1)" "r \<noteq> Inr False"
  shows "on_refusal env cfg arr apiPath field t s0 = (Inl denied, s1)"
  using assms by (auto simp: on_refusal_def fail_def split: sum.splits bool.splits)

section \<open>Tokens\<close>

lemma login_or_keep_alive:
  "\<exists>t s'. login_or_keep env cfg (Some s) True st = (Inr t, s')"
  by (auto simp: login_or_keep_def vm_defs split: sum.splits prod.splits)

lemma token_alive_running:
  assumes "\<And>w l. ts_leaseMs s = Some l \<Longrightarrow> fst (now_ms env w) < ts_obtainedAt s + l"
  shows "\<exists>s'. token_alive env s st = (Inr True, s')"
proof -
  obtain t1 w1 where t1: "now_ms env (snd st) = (t1, w1)" by fastforce
  obtain t2 w2 where t2: "now_ms env w1 = (t2, w2)" by fastforce
  have "ts_leaseMs s = Some l \<Longrightarrow> t2 < ts_obtainedAt s + l" for l
    using assms [of l w1] t2 by simp
  then show ?thesis
    by (cases "ts_leaseMs s") (auto simp: token_alive_def vm_defs t1 t2)
qed

text \<open>While the lease of the client's token runs, asking for the current token never fails,
  whatever the renewal and the login attempts answer: a working token is not given up for a
  failed refresh.\<close>

theorem working_token_kept:
  assumes "tok (fst st) = Some s"
    and "\<And>w l. ts_leaseMs s = Some l \<Longrightarrow> fst (now_ms env w) < ts_obtainedAt s + l"
  shows "\<exists>t s'. currentToken env cfg st = (Inr t, s')"
proof (cases "ts_renewAfterMs s")
  case None
  with assms(1) show ?thesis by (simp add: currentToken_def vm_defs)
next
  case (Some after)
  obtain t w where t: "now_ms env (snd st) = (t, w)" by fastforce
  obtain s1 where alive: "token_alive env s (fst st, w) = (Inr True, s1)"
    using token_alive_running [OF assms(2)] by blast
  have cur: "currentToken env cfg st =
     (if since_lt t (ts_obtainedAt s) after then (Inr (ts_token s), (fst st, w))
      else if ts_renewable s
      then vcatch (vbind (renew env cfg s) (\<lambda>t. vret (ts_token t)))
             (\<lambda>_. login_or_keep env cfg (Some s) True) s1
      else login_or_keep env cfg (Some s) True s1)"
    using Some assms(1) t alive
    by (auto simp: currentToken_def vbind_def get_client_def clock_def vret_def)
  show ?thesis
  proof (cases "since_lt t (ts_obtainedAt s) after")
    case True
    with cur show ?thesis by simp
  next
    case old: False
    obtain r s2 where rn: "vbind (renew env cfg s) (\<lambda>t. vret (ts_token t)) s1 = (r, s2)" by (metis prod.exhaust)
    with cur old login_or_keep_alive [of env cfg s s1] login_or_keep_alive [of env cfg s s2]
    show ?thesis by (cases r) (auto simp: vcatch_def)
  qed
qed

section \<open>Login rate\<close>

text \<open>The logins a client attempts, in order: it enters \<open>login\<close>, and between two entries
  anything may happen that leaves the noted attempts alone, as time passes.\<close>

inductive logins :: "'w vault_env \<Rightarrow> client_cfg \<Rightarrow> ('w \<Rightarrow> int) \<Rightarrow> int list \<Rightarrow> client \<times> 'w \<Rightarrow> bool"
  for env cfg time where
  start: "loginAttempts (fst s) = [] \<Longrightarrow> logins env cfg time [] s"
| other: "logins env cfg time h s \<Longrightarrow> loginAttempts (fst s') = loginAttempts (fst s)
    \<Longrightarrow> time (snd s) \<le> time (snd s') \<Longrightarrow> logins env cfg time h s'"
| enter: "logins env cfg time h s \<Longrightarrow> login_entry env cfg s = (Inr ok, s')
    \<Longrightarrow> logins env cfg time (if ok then h @ [last (loginAttempts (fst s'))] else h) s'"

lemma login_entry_spec:
  assumes "login_entry env cfg s = (Inr ok, s')"
    and clk: "\<And>w. fst (now_ms env w) = time (snd (now_ms env w)) \<and> time w \<le> fst (now_ms env w)"
  obtains t t2 where "time (snd s) \<le> t" "t \<le> t2 \<or> \<not> ok"
    "ok \<longleftrightarrow> length (recent_attempts (cf_minLoginIntervalMs cfg) t (loginAttempts (fst s))) < LOGIN_BURST"
    "loginAttempts (fst s') =
       recent_attempts (cf_minLoginIntervalMs cfg) t (loginAttempts (fst s)) @ (if ok then [t2] else [])"
    "time (snd s') = (if ok then t2 else t)"
proof -
  obtain t w where t: "now_ms env (snd s) = (t, w)" by fastforce
  obtain t2 w2 where t2: "now_ms env w = (t2, w2)" by fastforce
  have "time (snd s) \<le> t" "t = time w" "time w \<le> t2" "t2 = time w2"
    using clk [of "snd s"] clk [of w] t t2 by auto
  with assms(1) t t2 that [of t t2] show ?thesis
    by (auto simp: login_entry_def loginAllowed_def vm_defs split: if_splits)
qed

definition spaced :: "int \<Rightarrow> int list \<Rightarrow> bool" where
  "spaced minMs h \<longleftrightarrow> (\<forall>i. i + 2 < length h \<longrightarrow> h ! i + minMs \<le> h ! (i + 2))"

lemma spaced_snoc:
  assumes "spaced m h" "2 \<le> length h \<Longrightarrow> h ! (length h - 2) + m \<le> t"
  shows "spaced m (h @ [t])"
  unfolding spaced_def
proof (intro allI impI)
  fix i assume i: "i + 2 < length (h @ [t])"
  show "(h @ [t]) ! i + m \<le> (h @ [t]) ! (i + 2)"
  proof (cases "i + 2 < length h")
    case True
    with assms(1) show ?thesis by (auto simp: spaced_def nth_append)
  next
    case False
    with i have "length h = i + 2" by simp
    with assms(2) show ?thesis by (auto simp: nth_append)
  qed
qed

text \<open>The noted attempts are the recent end of the history.\<close>

definition noted :: "int \<Rightarrow> int list \<Rightarrow> int \<Rightarrow> int list \<Rightarrow> bool" where
  "noted minMs h now as \<longleftrightarrow>
     sorted h \<and> list_all (\<lambda>a. a \<le> now) h \<and> (\<forall>t \<ge> now. recent_attempts minMs t as = recent_attempts minMs t h)"

lemma recent_attempts_twice:
  "t \<le> t' \<Longrightarrow> recent_attempts m t' (recent_attempts m t as) = filter (\<lambda>a. a \<le> t) (recent_attempts m t' as)"
  by (induction as) (auto simp: recent_attempts_def)

lemma noted_entry:
  assumes n: "noted m h now as" and t: "now \<le> t"
  shows "noted m h t (recent_attempts m t as)"
    and "t \<le> t2 \<Longrightarrow> noted m (h @ [t2]) t2 (recent_attempts m t as @ [t2])"
proof -
  have le: "list_all (\<lambda>a. a \<le> t) h" using n t by (auto simp: noted_def list_all_iff)
  have again: "recent_attempts m t' (recent_attempts m t as) = recent_attempts m t' h" if "t \<le> t'" for t'
  proof -
    have "recent_attempts m t' (recent_attempts m t as) = filter (\<lambda>a. a \<le> t) (recent_attempts m t' h)"
      using n t that by (simp add: recent_attempts_twice noted_def)
    also have "\<dots> = recent_attempts m t' h"
      using le by (intro filter_True) (auto simp: recent_attempts_def list_all_iff)
    finally show ?thesis .
  qed
  with n le show "noted m h t (recent_attempts m t as)" by (simp add: noted_def)
  show "noted m (h @ [t2]) t2 (recent_attempts m t as @ [t2])" if "t \<le> t2"
  proof -
    have app: "recent_attempts m t' (xs @ ys) = recent_attempts m t' xs @ recent_attempts m t' ys"
      for t' xs ys by (simp add: recent_attempts_def)
    have "sorted (h @ [t2])" "list_all (\<lambda>a. a \<le> t2) (h @ [t2])"
      using n le that by (auto simp: noted_def sorted_append list_all_iff)
    with again that show ?thesis by (simp add: noted_def app)
  qed
qed

lemma recent_two:
  assumes "sorted h" "list_all (\<lambda>a. a \<le> t) h" "length (recent_attempts m t h) < 2" "2 \<le> length h"
  shows "h ! (length h - 2) + m \<le> t"
proof (rule ccontr)
  assume "\<not> ?thesis"
  then have lt: "t - h ! (length h - 2) < m" by simp
  obtain h1 b where h1: "h = h1 @ [b]" using assms(4) by (cases h rule: rev_cases) auto
  then obtain g a where h: "h = g @ [a, b]" using assms(4) by (cases h1 rule: rev_cases) auto
  with lt assms(1,2) have "a \<le> t" "b \<le> t" "t - a < m" "t - b < m"
    by (auto simp: nth_append sorted_append list_all_iff)
  then have "length (recent_attempts m t h) \<ge> 2" by (simp add: h recent_attempts_def)
  with assms(3) show False by simp
qed

lemma logins_inv:
  assumes "logins env cfg time h s"
    and clk: "\<And>w. fst (now_ms env w) = time (snd (now_ms env w)) \<and> time w \<le> fst (now_ms env w)"
  shows "noted (cf_minLoginIntervalMs cfg) h (time (snd s)) (loginAttempts (fst s))
     \<and> spaced (cf_minLoginIntervalMs cfg) h"
  using assms(1)
proof (induction rule: logins.induct)
  case (start s)
  then show ?case by (simp add: noted_def spaced_def)
next
  case (other h s s')
  then show ?case by (fastforce simp: noted_def list_all_iff)
next
  case (enter h s ok s')
  let ?m = "cf_minLoginIntervalMs cfg"
  have n: "noted ?m h (time (snd s)) (loginAttempts (fst s))" and sp: "spaced ?m h"
    using enter.IH by auto
  from enter.hyps(2) clk obtain t t2 where t: "time (snd s) \<le> t" "t \<le> t2 \<or> \<not> ok"
    and ok: "ok \<longleftrightarrow> length (recent_attempts ?m t (loginAttempts (fst s))) < LOGIN_BURST"
    and la: "loginAttempts (fst s') = recent_attempts ?m t (loginAttempts (fst s)) @ (if ok then [t2] else [])"
    and tm: "time (snd s') = (if ok then t2 else t)" by (rule login_entry_spec)
  show ?case
  proof (cases ok)
    case False
    with la tm noted_entry(1) [OF n t(1)] sp show ?thesis by simp
  next
    case True
    have same: "recent_attempts ?m t (loginAttempts (fst s)) = recent_attempts ?m t h"
      using n t(1) by (simp add: noted_def)
    have "h ! (length h - 2) + ?m \<le> t2" if "2 \<le> length h"
    proof -
      have "h ! (length h - 2) + ?m \<le> t"
        by (rule recent_two)
          (use n t True ok same that in \<open>auto simp: noted_def LOGIN_BURST_def list_all_iff\<close>)
      with t(2) True show ?thesis by simp
    qed
    then have "spaced ?m (h @ [t2])" by (rule spaced_snoc [OF sp])
    with True la tm noted_entry(2) [OF n t(1), of t2] t(2) show ?thesis by simp
  qed
qed

text \<open>Logins are rate limited: with a clock that does not step back, any three consecutive
  login attempts of a client span at least the minimum login interval, so there are never more
  than two within one interval, however many reads are denied.\<close>

theorem login_rate_limited:
  assumes "logins env cfg time h s" "i + 2 < length h"
    and "\<And>w. fst (now_ms env w) = time (snd (now_ms env w)) \<and> time w \<le> fst (now_ms env w)"
  shows "h ! i + cf_minLoginIntervalMs cfg \<le> h ! (i + 2)"
  using logins_inv [OF assms(1,3)] assms(2) by (simp add: spaced_def)

section \<open>A concrete environment\<close>

text \<open>A Vault whose policy refuses every read, whose role cannot look itself up, and whose login
  endpoint does not answer; the world is the time.\<close>

definition down_env :: "int vault_env" where
  "down_env = \<lparr>
     send = (\<lambda>call s. (if hc_post call then FetchTimeout else Answer 403 BodyUnreadable, s)),
     read_file = (\<lambda>p s. (Some ''jwt'', s)),
     now_ms = (\<lambda>w. (w, w)),
     join_login = (\<lambda>s. (Inl auth, s)),
     join_renew = (\<lambda>s. (Inl auth, s)),
     join_lookup = (\<lambda>t s. (Inr False, s))\<rparr>"

definition demo_cfg :: client_cfg where
  "demo_cfg = \<lparr>cf_static = False, cf_token = None, cf_role = ''gateway'', cf_jwtPath = ''jwt'',
     cf_caCertPath = None, cf_minLoginIntervalMs = 30000\<rparr>"

definition demo_client :: "bool option \<Rightarrow> client" where
  "demo_client can = (initial_client demo_cfg 0)\<lparr>canLookup := can,
     tok := Some \<lparr>ts_token = ''t'', ts_obtainedAt = 0, ts_renewAfterMs = Some 40000,
        ts_leaseMs = Some 60000, ts_renewable = True\<rparr>\<rparr>"

lemmas demo_client_defs = down_env_def demo_cfg_def demo_client_def initial_client_def

theorem refusal_is_definitive_witness:
  "fst (on_refusal down_env demo_cfg (\<lambda>_ _. Inl bad_response) ''kv/data/p'' ''f'' ''t''
      (demo_client (Some True), 50000)) = Inl timeout
   \<and> (\<exists>s1. lookupSelf down_env demo_cfg ''t'' (demo_client (Some True), 50000) = (Inr False, s1))"
proof -
  let ?s = "(demo_client (Some True), 50000) :: client \<times> int"
  let ?run = "on_refusal down_env demo_cfg (\<lambda>_ _. Inl bad_response) ''kv/data/p'' ''f'' ''t'' ?s"
  have out: "fst ?run = Inl timeout"
    by (simp add: on_refusal_def lookupSelf_def replaceToken_def login_def login_entry_def
        loginAllowed_def login_body_def request_def load_ca_def vm_defs demo_client_defs
        refused_status_def ok_status_def lookup_call_def recent_attempts_def LOGIN_BURST_def js_trim_def
        is_space_def)
  have "\<exists>s1. lookupSelf down_env demo_cfg ''t'' ?s = (Inr False, s1)"
    using refusal_is_definitive [of down_env demo_cfg "\<lambda>_ _. Inl bad_response" "''kv/data/p''" "''f''"
        "''t''" ?s timeout "snd ?run"] out
    by (auto simp: is_transient_def TRANSIENT_REASONS_def prod_eq_iff)
  with out show ?thesis by blast
qed

theorem policy_denial_no_login_witness:
  "\<exists>s1. on_refusal (down_env\<lparr>send := \<lambda>call s. (Answer 500 BodyUnreadable, s)\<rparr>) demo_cfg
      (\<lambda>_ _. Inl bad_response) ''kv/data/p'' ''f'' ''t'' (demo_client None, 0) = (Inl denied, s1)
    \<and> loginAttempts (fst s1) = []"
proof -
  let ?env = "down_env\<lparr>send := \<lambda>call s. (Answer 500 BodyUnreadable, s)\<rparr>"
  obtain s1 where l: "lookupSelf ?env demo_cfg ''t'' (demo_client None, 0) = (Inl server_error, s1)"
    and none: "loginAttempts (fst s1) = []"
    by (simp add: lookupSelf_def request_def load_ca_def vm_defs demo_client_defs
        refused_status_def ok_status_def lookup_call_def)
  from policy_denial_no_login [OF l] none show ?thesis by blast
qed

theorem working_token_kept_witness:
  "\<exists>t s'. currentToken (down_env\<lparr>now_ms := \<lambda>w. (50000, w)\<rparr>) demo_cfg (demo_client None, 50000) = (Inr t, s')"
  by (rule working_token_kept [where s = "\<lparr>ts_token = ''t'', ts_obtainedAt = 0,
        ts_renewAfterMs = Some 40000, ts_leaseMs = Some 60000, ts_renewable = True\<rparr>"])
    (auto simp: demo_client_defs)

lemma demo_logins:
  "\<exists>s. logins down_env demo_cfg (\<lambda>w. w) [0, 10, 30000] s"
proof -
  define c where "c = (\<lambda>as. (initial_client demo_cfg 0)\<lparr>loginAttempts := as, loginInflight := True\<rparr>)"
  have e: "login_entry down_env demo_cfg (c as, t) = (Inr True, (c (recent_attempts 30000 t as @ [t]), t))"
    if "length (recent_attempts 30000 t as) < 2" for as t
    using that by (simp add: login_entry_def loginAllowed_def vm_defs demo_client_defs c_def LOGIN_BURST_def)
  have l0: "logins down_env demo_cfg (\<lambda>w. w) [] (c [], 0)"
    by (rule logins.start) (simp add: c_def)
  have l1: "logins down_env demo_cfg (\<lambda>w. w) [0] (c [0], 0)"
    using logins.enter [OF l0 e [of 0 "[]"]] by (simp add: recent_attempts_def c_def)
  have l2: "logins down_env demo_cfg (\<lambda>w. w) [0] (c [0], 10)"
    by (rule logins.other [OF l1]) auto
  have l3: "logins down_env demo_cfg (\<lambda>w. w) [0, 10] (c [0, 10], 10)"
    using logins.enter [OF l2 e [of 10 "[0]"]] by (simp add: recent_attempts_def c_def)
  have l4: "logins down_env demo_cfg (\<lambda>w. w) [0, 10] (c [0, 10], 30000)"
    by (rule logins.other [OF l3]) auto
  show ?thesis
    using logins.enter [OF l4 e [of 30000 "[0, 10]"]]
    by (auto simp: recent_attempts_def c_def)
qed

theorem login_rate_limited_witness:
  "[0, 10, 30000] ! 0 + cf_minLoginIntervalMs demo_cfg \<le> [0, 10, 30000 :: int] ! (0 + 2)"
proof -
  obtain s where s: "logins down_env demo_cfg (\<lambda>w. w) [0, 10, 30000] s" using demo_logins by blast
  show ?thesis by (rule login_rate_limited [OF s]) (simp_all add: down_env_def)
qed

end
