(* ===== verification/Scope.thy ===== *)
theory Scope
  imports Prelude Soul
begin

text \<open>
  Knowledge scopes (\<^verbatim>\<open>src/knowledge/scope.ts\<close>), memory scopes (\<^verbatim>\<open>src/memory/scope.ts\<close>) and
  the gate on knowledge operations with its standing grants (\<^verbatim>\<open>src/knowledge/gated-dispatch.ts\<close>).
  SHA-256 in hexadecimal is a parameter.
\<close>

section \<open>Source ids\<close>

datatype channel_trust = Trusted | Public | Unknown

record brain_scope =
  clientId :: string
  sourceId :: string
  allowedSources :: "string list"
  profileSource :: "string option"

definition AGENT_SOURCE :: string where "AGENT_SOURCE = ''agent''"
definition SHARED_SOURCE :: string where "SHARED_SOURCE = ''shared''"
definition PUBLIC_SOURCE :: string where "PUBLIC_SOURCE = ''public''"
definition PROFILE_PREFIX :: string where "PROFILE_PREFIX = ''profile-''"

definition source_char :: "char \<Rightarrow> bool" where
  "source_char c \<longleftrightarrow> is_lower c \<or> is_digit c \<or> c = CHR ''-''"

definition sourceSafe :: "string \<Rightarrow> string" where
  "sourceSafe s = filter source_char (js_lower s)"

text \<open>\<open>sourceSafe(s).replace(/-/g, "")\<close>.\<close>

definition plain_id :: "string \<Rightarrow> string" where
  "plain_id s = filter (\<lambda>c. c \<noteq> CHR ''-'') (sourceSafe s)"

definition userSourceId :: "string \<Rightarrow> string" where
  "userSourceId userId = take 32 (''user-'' @ plain_id userId)"

definition agentSourceId :: "string \<Rightarrow> string" where
  "agentSourceId agentId = take 32 (''agent-'' @ plain_id agentId)"

definition profileSourceId :: "(string \<Rightarrow> string) \<Rightarrow> string \<Rightarrow> string \<Rightarrow> string" where
  "profileSourceId sha256 teamId userId =
     (let plain = PROFILE_PREFIX @ plain_id teamId @ ''-'' @ plain_id userId in
      if length plain \<le> 32 then plain
      else PROFILE_PREFIX @ take 24 (sha256 (teamId @ '':'' @ userId)))"

definition lower_hex :: "char \<Rightarrow> bool" where
  "lower_hex c \<longleftrightarrow> is_digit c \<or> (97 \<le> code_of c \<and> code_of c \<le> 102)"

definition lower_alnum :: "char \<Rightarrow> bool" where
  "lower_alnum c \<longleftrightarrow> is_lower c \<or> is_digit c"

text \<open>\<open>/^profile-(?:[0-9a-f]{24}|[a-z0-9]+-[a-z0-9]+)$/\<close> on at most 32 characters.\<close>

definition isProfileSourceId :: "string \<Rightarrow> bool" where
  "isProfileSourceId s \<longleftrightarrow> length s \<le> 32 \<and> starts_with s PROFILE_PREFIX \<and>
     (case split_on CHR ''-'' (drop 8 s) of
        [h] \<Rightarrow> length h = 24 \<and> list_all lower_hex h
      | [a, b] \<Rightarrow> a \<noteq> [] \<and> list_all lower_alnum a \<and> b \<noteq> [] \<and> list_all lower_alnum b
      | _ \<Rightarrow> False)"

definition speakerProfileSource :: "(string \<Rightarrow> string) \<Rightarrow> string option \<Rightarrow> string option \<Rightarrow> string option" where
  "speakerProfileSource sha256 teamId userId =
     (case (teamId, userId) of
        (Some t, Some u) \<Rightarrow>
          if t = [] \<or> u = [] then None
          else if plain_id t = [] \<or> plain_id u = [] then None
          else Some (profileSourceId sha256 t u)
      | _ \<Rightarrow> None)"

definition kbSourceId :: "string \<Rightarrow> string" where
  "kbSourceId label =
     take 32 (''kb-'' @ map (\<lambda>c. if source_char c then c else CHR ''-'') (js_lower label))"

datatype store_kind = KAgent | KShared | KPublic | KPersonal | KProfile | KLibrary | KOther

definition storeKind :: "string \<Rightarrow> store_kind" where
  "storeKind s =
     (if s = AGENT_SOURCE \<or> starts_with s ''agent-'' then KAgent
      else if s = SHARED_SOURCE then KShared
      else if s = PUBLIC_SOURCE then KPublic
      else if starts_with s ''user-'' then KPersonal
      else if starts_with s PROFILE_PREFIX then KProfile
      else if starts_with s ''kb-'' then KLibrary
      else KOther)"

definition channelTrustFor :: "string \<Rightarrow> soul_data \<Rightarrow> channel_trust" where
  "channelTrustFor channel soul =
     (if channel \<in> set (trustedChannels soul) then Trusted
      else if channel \<in> set (allowedChannels soul) then Public
      else Unknown)"

section \<open>The scope of a turn\<close>

record turn_sender =
  sn_userId :: string
  sn_teamId :: "string option"
  sn_origin :: "string option"

text \<open>\<open>GateInput\<close>; \<open>ScopeInput\<close> is its first five fields and the agent's id, with the libraries
  passed beside it.\<close>

record gate_input =
  g_userId :: "string option"
  g_teamId :: "string option"
  g_lockedUser :: "string option"
  g_channelTrust :: channel_trust
  g_isManager :: bool
  g_agentId :: string
  g_interactive :: bool
  g_origin :: "string option"
  g_turnSenders :: "turn_sender list option"
  g_threadKey :: "string option"

definition agent_scope :: "gate_input \<Rightarrow> string list \<Rightarrow> brain_scope" where
  "agent_scope i kbSources =
     \<lparr>clientId = g_agentId i, sourceId = agentSourceId (g_agentId i),
      allowedSources = [agentSourceId (g_agentId i), AGENT_SOURCE, SHARED_SOURCE, PUBLIC_SOURCE] @ kbSources,
      profileSource = None\<rparr>"

definition public_scope :: "string \<Rightarrow> brain_scope" where
  "public_scope user =
     \<lparr>clientId = user, sourceId = PUBLIC_SOURCE, allowedSources = [PUBLIC_SOURCE], profileSource = None\<rparr>"

definition baseScope :: "gate_input \<Rightarrow> string list \<Rightarrow> brain_scope" where
  "baseScope i kbSources =
     (case g_userId i of
        None \<Rightarrow> agent_scope i kbSources
      | Some user \<Rightarrow>
          (let rest = (if g_channelTrust i = Trusted \<or> g_isManager i
                       then agent_scope i kbSources else public_scope user) in
           case g_lockedUser i of
             None \<Rightarrow> rest
           | Some l \<Rightarrow>
               if l = user then
                 \<lparr>clientId = user, sourceId = userSourceId user,
                  allowedSources = [userSourceId user, agentSourceId (g_agentId i), AGENT_SOURCE,
                    SHARED_SOURCE, PUBLIC_SOURCE] @ kbSources,
                  profileSource = None\<rparr>
               else if \<not> g_isManager i then public_scope user
               else rest))"

definition resolveBrainScope :: "(string \<Rightarrow> string) \<Rightarrow> gate_input \<Rightarrow> string list \<Rightarrow> brain_scope" where
  "resolveBrainScope sha256 i kbSources =
     (let base = baseScope i kbSources in
      case speakerProfileSource sha256 (g_teamId i) (g_userId i) of
        None \<Rightarrow> base
      | Some p \<Rightarrow> base\<lparr>allowedSources := allowedSources base @ [p], profileSource := Some p\<rparr>)"

section \<open>Memory\<close>

record memory_scope =
  ms_read :: "brain_scope option"
  ms_write :: "brain_scope option"

definition isDmChannel :: "string option \<Rightarrow> bool" where
  "isDmChannel channel = (case channel of Some c \<Rightarrow> starts_with c ''D'' | None \<Rightarrow> False)"

definition both :: "string \<Rightarrow> string \<Rightarrow> string list \<Rightarrow> memory_scope" where
  "both client source reads =
     \<lparr>ms_read = Some \<lparr>clientId = client, sourceId = source, allowedSources = reads, profileSource = None\<rparr>,
      ms_write = Some \<lparr>clientId = client, sourceId = source, allowedSources = [source], profileSource = None\<rparr>\<rparr>"

definition NONE :: memory_scope where
  "NONE = \<lparr>ms_read = None, ms_write = None\<rparr>"

definition memoryScopeFor :: "(string \<Rightarrow> string) \<Rightarrow> gate_input \<Rightarrow> string option \<Rightarrow> string option \<Rightarrow> memory_scope" where
  "memoryScopeFor sha256 g channel runAsUser =
     (if g_userId g \<noteq> None \<and> g_lockedUser g \<noteq> None \<and> g_lockedUser g \<noteq> g_userId g then NONE
      else case runAsUser of
        Some runAs \<Rightarrow>
          if g_userId g \<noteq> None \<and> g_userId g \<noteq> Some runAs then NONE
          else if g_lockedUser g \<noteq> None \<and> g_lockedUser g \<noteq> Some runAs then NONE
          else both runAs (userSourceId runAs) [userSourceId runAs]
      | None \<Rightarrow>
          (let r = resolveBrainScope sha256 g []; agentSrc = agentSourceId (g_agentId g) in
           if sourceId r \<noteq> PUBLIC_SOURCE
           then both (clientId r) (sourceId r)
                  (if sourceId r = agentSrc then [agentSrc, AGENT_SOURCE] else [sourceId r])
           else case g_userId g of
             Some user \<Rightarrow>
               if isDmChannel channel then both user (userSourceId user) [userSourceId user]
               else both (g_agentId g) agentSrc [agentSrc]
           | None \<Rightarrow> both (g_agentId g) agentSrc [agentSrc]))"

definition withClaimLock :: "gate_input \<Rightarrow> string option \<Rightarrow> gate_input" where
  "withClaimLock g claim =
     (let live = g_lockedUser g in
      if claim = None \<or> claim = live then g
      else if live = None then g\<lparr>g_lockedUser := claim\<rparr>
      else g\<lparr>g_lockedUser := (if live \<noteq> g_userId g then live else claim)\<rparr>)"

section \<open>The gate on knowledge operations\<close>

datatype gate_tier = Auto | Approval | Manager | Deny

definition READ_OPS :: "string list" where
  "READ_OPS = [''search'', ''query'', ''think'', ''get_page'', ''list_pages'', ''get_links'',
     ''get_backlinks'', ''traverse_graph'', ''get_timeline'', ''get_tags'',
     ''get_stats'', ''sources_list'', ''resolve_slugs'', ''takes_list'', ''takes_search'']"

definition WRITE_OPS :: "string list" where
  "WRITE_OPS = [''put_page'', ''add_tag'', ''remove_tag'', ''add_link'', ''remove_link'', ''add_timeline_entry'']"

definition DESTRUCTIVE_OPS :: "string list" where
  "DESTRUCTIVE_OPS = [''delete_page'', ''restore_page'']"

definition MANAGER_OPS :: "string list" where
  "MANAGER_OPS = [''purge_deleted_pages'', ''sources_add'', ''sources_remove'', ''sync_brain'',
     ''schema_apply_mutations'', ''reload_schema_pack'', ''revert_version'', ''forget_fact'']"

definition isScopeWriteOp :: "string \<Rightarrow> bool" where
  "isScopeWriteOp op \<longleftrightarrow> op \<in> set (WRITE_OPS @ DESTRUCTIVE_OPS)"

definition soleSlackSender :: "gate_input \<Rightarrow> turn_sender option" where
  "soleSlackSender g =
     (case g_turnSenders g of
        Some [s] \<Rightarrow> if sn_origin s = Some ''slack'' then Some s else None
      | _ \<Rightarrow> None)"

definition isOwnProfileWrite :: "(string \<Rightarrow> string) \<Rightarrow> brain_scope \<Rightarrow> gate_input \<Rightarrow> bool" where
  "isOwnProfileWrite sha256 scope g =
     (if \<not> g_interactive g \<or> g_origin g \<noteq> Some ''slack'' \<or> g_userId g = None then False
      else case soleSlackSender g of
        None \<Rightarrow> False
      | Some s \<Rightarrow> speakerProfileSource sha256 (sn_teamId s) (Some (sn_userId s)) = Some (sourceId scope))"

definition turnBrainScope :: "(string \<Rightarrow> string) \<Rightarrow> gate_input \<Rightarrow> string list \<Rightarrow> brain_scope" where
  "turnBrainScope sha256 g kbSources =
     (let own = (case soleSlackSender g of
          None \<Rightarrow> False
        | Some s \<Rightarrow> g_userId g = Some (sn_userId s) \<and> sn_teamId s = g_teamId g) in
      resolveBrainScope sha256 (g\<lparr>g_teamId := (if own then g_teamId g else None)\<rparr>) kbSources)"

definition classifyBrainOp :: "(string \<Rightarrow> string) \<Rightarrow> string \<Rightarrow> brain_scope \<Rightarrow> gate_input \<Rightarrow> gate_tier" where
  "classifyBrainOp sha256 op scope g =
     (if op \<in> set READ_OPS then Auto
      else if op \<in> set MANAGER_OPS then Manager
      else if op \<in> set DESTRUCTIVE_OPS
      then (if g_channelTrust g = Public \<and> \<not> g_isManager g then Deny else Approval)
      else if op \<in> set WRITE_OPS
      then (if isProfileSourceId (sourceId scope)
            then (if isOwnProfileWrite sha256 scope g then Auto else Deny)
            else if g_lockedUser g \<noteq> None
            then (case g_userId g of
                    Some u \<Rightarrow> if g_lockedUser g = Some u \<and> sourceId scope = userSourceId u then Auto else Deny
                  | None \<Rightarrow> Deny)
            else if g_userId g = None then Auto
            else if sourceId scope = agentSourceId (g_agentId g) then Auto
            else if g_channelTrust g = Trusted \<or> g_isManager g then Approval
            else Deny)
      else Manager)"

section \<open>Gated calls and standing grants\<close>

definition grantTtlMs :: "int option \<Rightarrow> int" where
  "grantTtlMs configured =
     (case configured of
        Some n \<Rightarrow> if n \<ge> 0 then n else 8 * 60 * 60 * 1000
      | None \<Rightarrow> 8 * 60 * 60 * 1000)"

definition isStandingGrantable :: "string \<Rightarrow> bool" where
  "isStandingGrantable op \<longleftrightarrow> op \<in> set WRITE_OPS"

definition grantKey :: "gate_input \<Rightarrow> string option" where
  "grantKey g =
     (if truthy (g_threadKey g) \<and> truthy (g_userId g)
      then Some (the (g_threadKey g) @ '' '' @ the (g_userId g)) else None)"

record standing_grant =
  sg_by :: string
  sg_expiresAt :: int

type_synonym grants = "string \<rightharpoonup> standing_grant"

definition liveGrant :: "string option \<Rightarrow> int \<Rightarrow> grants \<Rightarrow> bool \<times> grants" where
  "liveGrant key now gs =
     (case key of
        None \<Rightarrow> (False, gs)
      | Some k \<Rightarrow>
          if k = [] then (False, gs)
          else (case gs k of
             None \<Rightarrow> (False, gs)
           | Some g \<Rightarrow> if sg_expiresAt g \<le> now then (False, gs(k := None)) else (True, gs)))"

datatype refusal =
    NotAllowed string | NoManager string | DeniedBy string | NotTheManager string string

text \<open>A call that waits for its card: what the rest of \<open>gatedBrainCall\<close> still needs.\<close>

record waiting_call =
  wc_op :: string
  wc_manager :: bool
  wc_grantable :: bool
  wc_key :: "string option"
  wc_now :: int
  wc_managers :: "string list"

datatype started = Refused refusal | Called | Asks waiting_call

text \<open>\<open>gatedBrainCall\<close> up to the card, and from the answer on.\<close>

definition gate_start :: "(string \<Rightarrow> string) \<Rightarrow> string \<Rightarrow> brain_scope \<Rightarrow> gate_input \<Rightarrow> string list \<Rightarrow> int
    \<Rightarrow> grants \<Rightarrow> started \<times> grants" where
  "gate_start sha256 op scope g managers now gs =
     (let tier = classifyBrainOp sha256 op scope g in
      if tier = Deny then (Refused (NotAllowed op), gs)
      else if tier = Manager \<and> managers = [] then (Refused (NoManager op), gs)
      else let grantable = (tier = Approval \<and> isStandingGrantable op);
               (live, gs') = (if grantable then liveGrant (grantKey g) now gs else (False, gs)) in
        if live then (Called, gs')
        else if tier = Approval \<or> tier = Manager
        then (Asks \<lparr>wc_op = op, wc_manager = (tier = Manager), wc_grantable = grantable,
                wc_key = grantKey g, wc_now = now, wc_managers = managers\<rparr>, gs')
        else (Called, gs'))"

record approval_res =
  ar_approved :: bool
  ar_by :: string

definition gate_finish :: "int option \<Rightarrow> waiting_call \<Rightarrow> approval_res \<Rightarrow> grants \<Rightarrow> started \<times> grants" where
  "gate_finish ttl w r gs =
     (if \<not> ar_approved r then (Refused (DeniedBy (ar_by r)), gs)
      else if wc_manager w \<and> ar_by r \<notin> set (wc_managers w)
      then (Refused (NotTheManager (wc_op w) (ar_by r)), gs)
      else (Called,
            case wc_key w of
              Some k \<Rightarrow> if wc_grantable w \<and> k \<noteq> []
                then gs(k \<mapsto> \<lparr>sg_by = ar_by r, sg_expiresAt = wc_now w + grantTtlMs ttl\<rparr>) else gs
            | None \<Rightarrow> gs))"

text \<open>Many calls over one table of grants: a call starts, or a waiting call's card is answered.\<close>

datatype gate_event =
    Start nat string brain_scope gate_input "string list" int
  | Answered nat approval_res

record gate_state =
  gs_grants :: grants
  gs_waiting :: "nat \<rightharpoonup> waiting_call"

definition gate_init :: gate_state where
  "gate_init = \<lparr>gs_grants = Map.empty, gs_waiting = Map.empty\<rparr>"

fun gate_step :: "(string \<Rightarrow> string) \<Rightarrow> int option \<Rightarrow> gate_state \<Rightarrow> gate_event \<Rightarrow> gate_state \<times> started option" where
  "gate_step sha256 ttl s (Start i op scope g managers now) =
     (case gate_start sha256 op scope g managers now (gs_grants s) of
        (Asks w, gs) \<Rightarrow> (s\<lparr>gs_grants := gs, gs_waiting := (gs_waiting s)(i \<mapsto> w)\<rparr>, Some (Asks w))
      | (out, gs) \<Rightarrow> (s\<lparr>gs_grants := gs\<rparr>, Some out))"
| "gate_step sha256 ttl s (Answered i r) =
     (case gs_waiting s i of
        None \<Rightarrow> (s, None)
      | Some w \<Rightarrow>
          (case gate_finish ttl w r (gs_grants s) of
             (out, gs) \<Rightarrow> (s\<lparr>gs_grants := gs, gs_waiting := (gs_waiting s)(i := None)\<rparr>, Some out)))"

end
