(* ===== verification/ScopeFacts.thy ===== *)
theory ScopeFacts
  imports Scope
begin

text \<open>
  Facts about knowledge and memory scopes and the gate: what a turn can read, where its transcript
  goes, what a locked thread lets out, which calls a standing grant covers.
\<close>

section \<open>Kinds of source ids\<close>

lemma agentSourceId_form: "agentSourceId a = ''agent-'' @ take 26 (plain_id a)"
  by (simp add: agentSourceId_def)

lemma userSourceId_form: "userSourceId u = ''user-'' @ take 27 (plain_id u)"
  by (simp add: userSourceId_def)

lemma storeKind_agent [simp]: "storeKind (agentSourceId a) = KAgent" "storeKind AGENT_SOURCE = KAgent"
  by (simp_all add: storeKind_def agentSourceId_form)

lemma storeKind_user [simp]: "storeKind (userSourceId u) = KPersonal"
  by (simp add: storeKind_def userSourceId_form AGENT_SOURCE_def SHARED_SOURCE_def PUBLIC_SOURCE_def)

lemma storeKind_kb [simp]: "storeKind (kbSourceId l) = KLibrary"
  by (simp add: storeKind_def kbSourceId_def AGENT_SOURCE_def SHARED_SOURCE_def PUBLIC_SOURCE_def
      PROFILE_PREFIX_def)

lemma storeKind_fixed [simp]: "storeKind SHARED_SOURCE = KShared" "storeKind PUBLIC_SOURCE = KPublic"
  by (simp_all add: storeKind_def AGENT_SOURCE_def SHARED_SOURCE_def PUBLIC_SOURCE_def)

lemma storeKind_profile_prefix: "storeKind (PROFILE_PREFIX @ s) = KProfile"
  by (simp add: storeKind_def PROFILE_PREFIX_def AGENT_SOURCE_def SHARED_SOURCE_def PUBLIC_SOURCE_def)

lemma storeKind_profile [simp]: "storeKind (profileSourceId sha t u) = KProfile"
  by (simp add: profileSourceId_def Let_def storeKind_profile_prefix)

lemma speakerProfile_kind:
  "speakerProfileSource sha t u = Some s \<Longrightarrow> storeKind s = KProfile"
  by (auto simp: speakerProfileSource_def split: option.splits if_splits)

lemma source_neq [simp]:
  "agentSourceId a \<noteq> PUBLIC_SOURCE" "userSourceId u \<noteq> PUBLIC_SOURCE" "userSourceId u \<noteq> agentSourceId a"
  "agentSourceId a \<noteq> userSourceId u"
  by (simp_all add: agentSourceId_form userSourceId_form PUBLIC_SOURCE_def)

lemmas source_neq_sym [simp] = source_neq [symmetric]

section \<open>What a turn reads\<close>

lemma base_cases:
  obtains (agent) "baseScope i kb = agent_scope i kb"
      "g_userId i = None \<or> (g_channelTrust i = Trusted \<and> g_lockedUser i = None) \<or> g_isManager i"
  | (own) u where "g_userId i = Some u" "g_lockedUser i = Some u"
      "baseScope i kb = \<lparr>clientId = u, sourceId = userSourceId u,
         allowedSources = [userSourceId u, agentSourceId (g_agentId i), AGENT_SOURCE, SHARED_SOURCE,
           PUBLIC_SOURCE] @ kb, profileSource = None\<rparr>"
  | (public) u where "g_userId i = Some u" "baseScope i kb = public_scope u"
proof (cases "g_userId i")
  case None
  then show ?thesis by (intro agent) (simp_all add: baseScope_def)
next
  case user: (Some u)
  show ?thesis
  proof (cases "g_lockedUser i = Some u")
    case True
    with user show ?thesis by (intro own [of u]) (simp_all add: baseScope_def Let_def)
  next
    case other: False
    show ?thesis
    proof (cases "(g_channelTrust i = Trusted \<and> g_lockedUser i = None) \<or> g_isManager i")
      case True
      with user other show ?thesis
        by (intro agent) (auto simp: baseScope_def Let_def split: option.splits)
    next
      case False
      with user other show ?thesis
        by (intro public [of u]) (auto simp: baseScope_def Let_def split: option.splits)
    qed
  qed
qed

lemma baseScope_sources:
  "s \<in> set (allowedSources (baseScope i kb)) \<Longrightarrow>
     s = PUBLIC_SOURCE
   \<or> (\<exists>u. g_userId i = Some u \<and> g_lockedUser i = Some u \<and> s = userSourceId u)
   \<or> (s \<in> {agentSourceId (g_agentId i), AGENT_SOURCE, SHARED_SOURCE} \<union> set kb
       \<and> (g_userId i = None \<or> g_lockedUser i = g_userId i
          \<or> (g_channelTrust i = Trusted \<and> g_lockedUser i = None) \<or> g_isManager i))"
  by (rule base_cases [of i kb]) (auto simp: agent_scope_def public_scope_def)

lemma resolve_sources:
  "set (allowedSources (resolveBrainScope sha i kb)) =
     set (allowedSources (baseScope i kb))
     \<union> set_option (speakerProfileSource sha (g_teamId i) (g_userId i))"
  by (auto simp: resolveBrainScope_def Let_def split: option.splits)

lemma resolve_sourceId [simp]:
  "sourceId (resolveBrainScope sha i kb) = sourceId (baseScope i kb)"
  "clientId (resolveBrainScope sha i kb) = clientId (baseScope i kb)"
  by (auto simp: resolveBrainScope_def Let_def split: option.splits)


definition demo_gate :: gate_input where
  "demo_gate = \<lparr>g_userId = Some ''U1'', g_teamId = Some ''T1'', g_lockedUser = Some ''U1'',
     g_channelTrust = Public, g_isManager = False, g_agentId = ''B1'', g_interactive = True,
     g_origin = Some ''slack'', g_turnSenders = None, g_threadKey = Some ''C1:1.0''\<rparr>"


section \<open>Where a transcript goes\<close>

lemma base_sourceId_cases:
  "sourceId (baseScope i kb) = PUBLIC_SOURCE
   \<or> (sourceId (baseScope i kb) = agentSourceId (g_agentId i))
   \<or> (\<exists>u. g_userId i = Some u \<and> g_lockedUser i = Some u \<and> sourceId (baseScope i kb) = userSourceId u)"
  by (rule base_cases [of i kb]) (auto simp: agent_scope_def public_scope_def)

text \<open>A turn's transcript is never written to the public or the shared source. It goes to
  the persona's own slice, or to the slice of one person: the person the turn runs as, and then the
  speaker is that person or absent, or else the speaker. In a thread that someone else locked it
  goes nowhere, for the manager too. What is read is the copy that is written, and for the persona's
  slice its legacy source besides.\<close>

theorem memory_stays_private:
  assumes "ms_write (memoryScopeFor sha g channel runAs) = Some w"
  shows "allowedSources w = [sourceId w]
     \<and> ((sourceId w = agentSourceId (g_agentId g) \<and> runAs = None)
        \<or> (\<exists>p. sourceId w = userSourceId p
             \<and> (runAs = Some p \<and> (g_userId g = None \<or> g_userId g = Some p)
                \<or> runAs = None \<and> g_userId g = Some p)))
     \<and> (g_userId g = None \<or> g_lockedUser g = None \<or> g_lockedUser g = g_userId g)
     \<and> (\<exists>r. ms_read (memoryScopeFor sha g channel runAs) = Some r \<and> sourceId r = sourceId w
          \<and> set (allowedSources r) \<subseteq> {sourceId w, AGENT_SOURCE})"
proof (cases "g_userId g \<noteq> None \<and> g_lockedUser g \<noteq> None \<and> g_lockedUser g \<noteq> g_userId g")
  case True
  with assms show ?thesis by (auto simp: memoryScopeFor_def NONE_def)
next
  case free: False
  show ?thesis
  proof (cases runAs)
    case (Some p)
    with assms free show ?thesis
      by (auto simp: memoryScopeFor_def NONE_def both_def split: if_splits)
  next
    case None
    show ?thesis
      using assms free None base_sourceId_cases [of g "[]"]
      unfolding memoryScopeFor_def Let_def both_def
      by (cases "g_userId g") (auto split: if_splits)
  qed
qed

theorem memory_stays_private_witness:
  "\<exists>w. ms_write (memoryScopeFor (\<lambda>s. s) demo_gate (Some ''C1'') None) = Some w
     \<and> sourceId w = userSourceId ''U1'' \<and> allowedSources w = [sourceId w]"
proof -
  obtain w where w: "ms_write (memoryScopeFor (\<lambda>s. s) demo_gate (Some ''C1'') None) = Some w"
    and s: "sourceId w = userSourceId ''U1''"
    by (simp add: memoryScopeFor_def Let_def baseScope_def demo_gate_def both_def)
  from memory_stays_private [OF w] s w show ?thesis by blast
qed

text \<open>The lock a turn is scoped by is the more private of the thread's live lock and the lock
  signed into its job token: when either names an owner who is not the speaker, the turn's memory is
  neither read nor written, and a non-manager's knowledge scope falls to the public source and the
  speaker's own profile.\<close>

theorem claim_lock_more_private:
  assumes "g_userId g = Some u" "g_lockedUser g = Some l \<or> claim = Some l" "l \<noteq> u"
  shows "memoryScopeFor sha (withClaimLock g claim) channel runAs = NONE
     \<and> (g_isManager g \<or> set (allowedSources (resolveBrainScope sha (withClaimLock g claim) kb))
          \<subseteq> {PUBLIC_SOURCE} \<union> set_option (speakerProfileSource sha (g_teamId g) (Some u)))"
proof -
  let ?g = "withClaimLock g claim"
  have same: "g_userId ?g = Some u" "g_teamId ?g = g_teamId g" "g_isManager ?g = g_isManager g"
    using assms(1) by (auto simp: withClaimLock_def Let_def)
  have "g_lockedUser ?g \<noteq> None \<and> g_lockedUser ?g \<noteq> Some u"
    using assms by (cases "g_lockedUser g") (auto simp: withClaimLock_def Let_def)
  then obtain l' where l': "g_lockedUser ?g = Some l'" "l' \<noteq> u" by auto
  have "memoryScopeFor sha ?g channel runAs = NONE"
    using same(1) l' by (simp add: memoryScopeFor_def)
  moreover have "baseScope ?g kb = public_scope u" if "\<not> g_isManager g"
    using same l' that by (simp add: baseScope_def Let_def)
  ultimately show ?thesis
    by (auto simp: resolve_sources same public_scope_def)
qed

theorem claim_lock_more_private_witness:
  "memoryScopeFor (\<lambda>s. s) (withClaimLock demo_gate (Some ''U2'')) None None = NONE"
  using claim_lock_more_private [of demo_gate "''U1''" "''U2''" "Some ''U2''" "\<lambda>s. s" None None]
  by (simp add: demo_gate_def)

section \<open>Profiles\<close>

text \<open>Slack's ids: capitals and digits.\<close>

definition slack_id :: "string \<Rightarrow> bool" where
  "slack_id s \<longleftrightarrow> s \<noteq> [] \<and> list_all (\<lambda>c. is_upper c \<or> is_digit c) s"

lemma lower_of_id_char:
  assumes "is_upper c \<or> is_digit c"
  shows "source_char (lower_char c) \<and> lower_char c \<noteq> CHR ''-''"
    and "code_of (lower_char c) = (if is_upper c then code_of c + 32 else code_of c)"
proof -
  show code: "code_of (lower_char c) = (if is_upper c then code_of c + 32 else code_of c)"
  proof (cases "is_upper c")
    case True
    then have "code_of c + 32 < 256" by (simp add: is_upper_def)
    with True show ?thesis by (simp add: lower_char_def)
  next
    case False
    with assms show ?thesis by (auto simp: lower_char_def is_digit_def)
  qed
  have "is_lower (lower_char c) \<or> is_digit (lower_char c)"
    using assms code by (auto simp: is_upper_def is_lower_def is_digit_def)
  then show "source_char (lower_char c) \<and> lower_char c \<noteq> CHR ''-''"
    by (auto simp: source_char_def is_lower_def is_digit_def)
qed

lemma plain_slack_id:
  assumes "slack_id s"
  shows "plain_id s = map lower_char s"
proof -
  have "list_all (\<lambda>c. source_char (lower_char c) \<and> lower_char c \<noteq> CHR ''-'') s"
    using assms lower_of_id_char(1) by (auto simp: slack_id_def list_all_iff)
  then show ?thesis
    by (auto simp: plain_id_def sourceSafe_def js_lower_def list_all_iff intro!: filter_True)
qed

lemma lower_char_inj_id:
  assumes "is_upper c \<or> is_digit c" "is_upper d \<or> is_digit d" "lower_char c = lower_char d"
  shows "c = d"
proof -
  have "code_of (lower_char c) = code_of (lower_char d)" using assms(3) by simp
  then have "code_of c = code_of d"
    using assms(1,2) lower_of_id_char(2) [OF assms(1)] lower_of_id_char(2) [OF assms(2)]
    by (auto simp: is_upper_def is_digit_def split: if_splits)
  then show ?thesis by simp
qed

lemma plain_slack_inj:
  assumes "slack_id s" "slack_id t" "plain_id s = plain_id t"
  shows "s = t"
proof -
  have "map lower_char s = map lower_char t"
    using assms by (simp add: plain_slack_id)
  moreover have "inj_on lower_char (set s \<union> set t)"
    using assms(1,2)
    by (intro inj_onI) (rule lower_char_inj_id, auto simp: slack_id_def list_all_iff)
  ultimately show ?thesis by (rule map_inj_on)
qed

lemma plain_no_dash: "CHR ''-'' \<notin> set (plain_id s)"
  by (simp add: plain_id_def)

lemma slack_no_colon: "slack_id s \<Longrightarrow> CHR '':'' \<notin> set s"
  by (auto simp: slack_id_def list_all_iff is_upper_def is_digit_def)

lemma sep_inj:
  fixes a b a' b' :: string
  assumes "c \<notin> set a" "c \<notin> set a'" "c \<notin> set b" "c \<notin> set b'" "a @ c # b = a' @ c # b'"
  shows "a = a' \<and> b = b'"
proof -
  have "split_on c (a @ c # b) = split_on c (a' @ c # b')" using assms(5) by simp
  then show ?thesis using assms(1-4) by (simp add: split_on_append_sep split_on_no_sep)
qed

text \<open>Profiles are per person and per workspace: with a digest of at least 24 hexadecimal
  characters whose first 24 do not collide on the two pairs, two pairs of Slack ids with the same
  profile source are the same pair. The readable and the hashed shape never meet.\<close>

theorem profiles_distinct:
  assumes "slack_id t" "slack_id u" "slack_id t'" "slack_id u'"
    and "\<And>s. 24 \<le> length (sha s) \<and> list_all lower_hex (sha s)"
    and "take 24 (sha (t @ '':'' @ u)) = take 24 (sha (t' @ '':'' @ u')) \<Longrightarrow> t @ '':'' @ u = t' @ '':'' @ u'"
    and "profileSourceId sha t u = profileSourceId sha t' u'"
  shows "t = t' \<and> u = u'"
proof -
  let ?p = "\<lambda>t u. plain_id t @ CHR ''-'' # plain_id u"
  have prof: "drop 8 (profileSourceId sha a b) = (if length (PROFILE_PREFIX @ ?p a b) \<le> 32 then ?p a b
      else take 24 (sha (a @ CHR '':'' # b)))" for a b
    by (simp add: profileSourceId_def Let_def PROFILE_PREFIX_def)
  have eq: "drop 8 (profileSourceId sha t u) = drop 8 (profileSourceId sha t' u')"
    using assms(7) by simp
  have nodash: "CHR ''-'' \<notin> set (take 24 (sha s))" for s
  proof
    assume "CHR ''-'' \<in> set (take 24 (sha s))"
    then have "lower_hex CHR ''-''"
      using assms(5) [of s] in_set_takeD unfolding list_all_iff by fast
    then show False by (simp add: lower_hex_def is_digit_def)
  qed
  have dash: "CHR ''-'' \<in> set (?p a b)" for a b by simp
  consider (plain) "?p t u = ?p t' u'"
    | (hashed) "take 24 (sha (t @ CHR '':'' # u)) = take 24 (sha (t' @ CHR '':'' # u'))"
    using eq unfolding prof
    by (auto split: if_splits) (metis dash nodash)+
  then show ?thesis
  proof cases
    case plain
    with sep_inj plain_no_dash have "plain_id t = plain_id t' \<and> plain_id u = plain_id u'" by metis
    with plain_slack_inj assms(1-4) show ?thesis by blast
  next
    case hashed
    then have "t @ CHR '':'' # u = t' @ CHR '':'' # u'" using assms(6) by simp
    then show ?thesis
      using sep_inj slack_no_colon assms(1-4) by metis
  qed
qed

theorem profiles_distinct_witness:
  "profileSourceId (\<lambda>s. replicate 24 CHR ''0'') ''T1'' ''U1'' \<noteq>
   profileSourceId (\<lambda>s. replicate 24 CHR ''0'') ''T1'' ''U2''"
proof
  assume eq: "profileSourceId (\<lambda>s. replicate 24 CHR ''0'') ''T1'' ''U1'' =
   profileSourceId (\<lambda>s. replicate 24 CHR ''0'') ''T1'' ''U2''"
  have ids: "slack_id ''T1''" "slack_id ''U1''" "slack_id ''U2''"
    by (simp_all add: slack_id_def is_upper_def is_digit_def)
  have hex: "list_all lower_hex (replicate 24 CHR ''0'')"
    by (simp add: list_all_iff lower_hex_def is_digit_def)
  have plain: "profileSourceId (\<lambda>s. replicate 24 CHR ''0'') ''T1'' ''U1'' = ''profile-t1-u1''"
    "profileSourceId (\<lambda>s. replicate 24 CHR ''0'') ''T1'' ''U2'' = ''profile-t1-u2''"
    by code_simp+
  have "take 24 (replicate 24 CHR ''0'') = take 24 (replicate 24 CHR ''0'')
      \<Longrightarrow> ''T1'' @ '':'' @ ''U1'' = ''T1'' @ '':'' @ ''U2''"
    using eq plain by simp
  from profiles_distinct [OF ids(1,2,1,3) _ this eq] hex show False by simp
qed

section \<open>The gate\<close>

lemma write_not_read: "op \<in> set WRITE_OPS \<Longrightarrow>
    op \<notin> set READ_OPS \<and> op \<notin> set MANAGER_OPS \<and> op \<notin> set DESTRUCTIVE_OPS"
  by (auto simp: WRITE_OPS_def READ_OPS_def MANAGER_OPS_def DESTRUCTIVE_OPS_def)

text \<open>Containment of a locked thread: a write in a thread under a lock never raises a card, so
  nobody can approve it out; it is done only into the slice of the lock's owner, by the owner, or
  into the profile of the person who is the one Slack sender of the turn. Managers and background
  turns are not exempt.\<close>

theorem locked_thread_contained:
  assumes "op \<in> set WRITE_OPS" "g_lockedUser g = Some l"
  shows "gate_start sha op scope g managers now gs =
     (if (if isProfileSourceId (sourceId scope) then isOwnProfileWrite sha scope g
          else g_userId g = Some l \<and> sourceId scope = userSourceId l)
      then Called else Refused (NotAllowed op), gs)"
  using assms write_not_read [OF assms(1)]
  by (auto simp: gate_start_def classifyBrainOp_def Let_def split: option.splits)

theorem locked_thread_contained_witness:
  "gate_start (\<lambda>s. s) ''put_page'' (agent_scope demo_gate []) demo_gate [''U9''] 0 Map.empty =
     (Refused (NotAllowed ''put_page''), Map.empty)"
proof -
  have "\<not> isProfileSourceId (sourceId (agent_scope demo_gate []))
      \<and> sourceId (agent_scope demo_gate []) \<noteq> userSourceId ''U1''"
    by (simp add: agent_scope_def isProfileSourceId_def agentSourceId_form userSourceId_form PROFILE_PREFIX_def)
  with locked_thread_contained [of "''put_page''" demo_gate "''U1''" "\<lambda>s. s"
      "agent_scope demo_gate []" "[''U9'']" 0 Map.empty]
  show ?thesis by (auto simp: WRITE_OPS_def demo_gate_def)
qed

section \<open>Standing grants\<close>

type_synonym history = "(gate_event \<times> started option) list"

inductive gate_run :: "(string \<Rightarrow> string) \<Rightarrow> int option \<Rightarrow> history \<Rightarrow> gate_state \<Rightarrow> bool"
  for sha ttl where
  init: "gate_run sha ttl [] gate_init"
| step: "gate_run sha ttl h s \<Longrightarrow> gate_step sha ttl s e = (s', out) \<Longrightarrow> gate_run sha ttl (h @ [(e, out)]) s'"

text \<open>A card was raised for this waiting call, by a call of this writer.\<close>

definition raised :: "(string \<Rightarrow> string) \<Rightarrow> history \<Rightarrow> nat \<Rightarrow> waiting_call \<Rightarrow> bool" where
  "raised sha h i w \<longleftrightarrow>
     (\<exists>scope g. (Start i (wc_op w) scope g (wc_managers w) (wc_now w), Some (Asks w)) \<in> set h
        \<and> classifyBrainOp sha (wc_op w) scope g = (if wc_manager w then Manager else Approval)
        \<and> wc_key w = grantKey g
        \<and> (wc_grantable w \<longleftrightarrow> \<not> wc_manager w \<and> wc_op w \<in> set WRITE_OPS))"

definition approved_call :: "(string \<Rightarrow> string) \<Rightarrow> history \<Rightarrow> nat \<Rightarrow> waiting_call \<Rightarrow> approval_res \<Rightarrow> bool" where
  "approved_call sha h i w r \<longleftrightarrow> raised sha h i w \<and> (Answered i r, Some Called) \<in> set h
     \<and> ar_approved r \<and> (wc_manager w \<longrightarrow> ar_by r \<in> set (wc_managers w))"

definition gate_inv :: "(string \<Rightarrow> string) \<Rightarrow> int option \<Rightarrow> history \<Rightarrow> gate_state \<Rightarrow> bool" where
  "gate_inv sha ttl h s \<longleftrightarrow>
     (\<forall>i w. gs_waiting s i = Some w \<longrightarrow> raised sha h i w)
     \<and> (\<forall>k sg. gs_grants s k = Some sg \<longrightarrow>
          (\<exists>i w r. approved_call sha h i w r \<and> wc_grantable w \<and> wc_key w = Some k
             \<and> sg_expiresAt sg = wc_now w + grantTtlMs ttl))"

text \<open>Why a call was made: no card is needed; a card of this call was approved; or a grant of the
  same thread and writer runs.\<close>

definition call_justified :: "(string \<Rightarrow> string) \<Rightarrow> int option \<Rightarrow> history \<Rightarrow> gate_event \<Rightarrow> bool" where
  "call_justified sha ttl h e =
     (case e of
        Start i op scope g managers now \<Rightarrow>
          classifyBrainOp sha op scope g = Auto
          \<or> (classifyBrainOp sha op scope g = Approval \<and> op \<in> set WRITE_OPS
             \<and> (\<exists>j w r. approved_call sha h j w r \<and> wc_op w \<in> set WRITE_OPS
                  \<and> wc_key w = grantKey g \<and> grantKey g \<noteq> None \<and> now < wc_now w + grantTtlMs ttl))
      | Answered i r \<Rightarrow> \<exists>w. approved_call sha h i w r)"

lemma raised_mono: "raised sha h i w \<Longrightarrow> set h \<subseteq> set h' \<Longrightarrow> raised sha h' i w"
  unfolding raised_def by blast

lemma approved_mono: "approved_call sha h i w r \<Longrightarrow> set h \<subseteq> set h' \<Longrightarrow> approved_call sha h' i w r"
  unfolding approved_call_def using raised_mono by blast

lemma justified_mono:
  assumes "call_justified sha ttl h e" "set h \<subseteq> set h'"
  shows "call_justified sha ttl h' e"
proof (cases e)
  case (Start i op scope g managers now)
  with assms show ?thesis
    unfolding call_justified_def using approved_mono [OF _ assms(2)] by simp blast
next
  case (Answered i r)
  with assms show ?thesis
    unfolding call_justified_def using approved_mono [OF _ assms(2)] by simp blast
qed

lemma liveGrant_sub:
  "liveGrant key now gs = (b, gs') \<Longrightarrow> gs' k = Some g \<Longrightarrow> gs k = Some g"
  by (auto simp: liveGrant_def split: option.splits if_splits)

lemma liveGrant_live:
  "liveGrant key now gs = (True, gs') \<Longrightarrow> \<exists>k g. key = Some k \<and> gs k = Some g \<and> now < sg_expiresAt g"
  by (auto simp: liveGrant_def split: option.splits if_splits)

lemma gate_start_cases:
  assumes "gate_start sha op scope g managers now gs = (out, gs')"
  shows "\<And>k sg. gs' k = Some sg \<Longrightarrow> gs k = Some sg"
    and "out = Called \<Longrightarrow> classifyBrainOp sha op scope g = Auto
       \<or> (classifyBrainOp sha op scope g = Approval \<and> op \<in> set WRITE_OPS
          \<and> (\<exists>k sg. grantKey g = Some k \<and> gs k = Some sg \<and> now < sg_expiresAt sg))"
    and "out = Asks w \<Longrightarrow> w = \<lparr>wc_op = op, wc_manager = (classifyBrainOp sha op scope g = Manager),
       wc_grantable = (classifyBrainOp sha op scope g = Approval \<and> op \<in> set WRITE_OPS),
       wc_key = grantKey g, wc_now = now, wc_managers = managers\<rparr>
       \<and> classifyBrainOp sha op scope g \<in> {Approval, Manager}"
proof -
  obtain live gs1 where lg: "(if classifyBrainOp sha op scope g = Approval \<and> isStandingGrantable op
      then liveGrant (grantKey g) now gs else (False, gs)) = (live, gs1)" by fastforce
  note d = assms [unfolded gate_start_def Let_def lg prod.case]
  show "\<And>k sg. gs' k = Some sg \<Longrightarrow> gs k = Some sg"
    using d lg liveGrant_sub by (auto split: if_splits)
  show "out = Called \<Longrightarrow> classifyBrainOp sha op scope g = Auto
       \<or> (classifyBrainOp sha op scope g = Approval \<and> op \<in> set WRITE_OPS
          \<and> (\<exists>k sg. grantKey g = Some k \<and> gs k = Some sg \<and> now < sg_expiresAt sg))"
    using d lg liveGrant_live [of "grantKey g" now gs gs1]
    by (cases "classifyBrainOp sha op scope g") (auto simp: isStandingGrantable_def split: if_splits)
  show "out = Asks w \<Longrightarrow> w = \<lparr>wc_op = op, wc_manager = (classifyBrainOp sha op scope g = Manager),
       wc_grantable = (classifyBrainOp sha op scope g = Approval \<and> op \<in> set WRITE_OPS),
       wc_key = grantKey g, wc_now = now, wc_managers = managers\<rparr>
       \<and> classifyBrainOp sha op scope g \<in> {Approval, Manager}"
    using d by (auto simp: isStandingGrantable_def split: if_splits)
qed

lemma gate_inv_start:
  assumes inv: "gate_inv sha ttl h s"
    and step: "gate_step sha ttl s (Start i op scope g managers now) = (s', out)"
  shows "gate_inv sha ttl (h @ [(Start i op scope g managers now, out)]) s'
     \<and> (out = Some Called \<longrightarrow> call_justified sha ttl h (Start i op scope g managers now))"
proof -
  let ?h = "h @ [(Start i op scope g managers now, out)]"
  obtain st gs where st: "gate_start sha op scope g managers now (gs_grants s) = (st, gs)" by fastforce
  note cs = gate_start_cases [OF st]
  have out: "out = Some st" and gs': "gs_grants s' = gs"
    and wait: "gs_waiting s' = (case st of Asks w \<Rightarrow> (gs_waiting s)(i \<mapsto> w) | _ \<Rightarrow> gs_waiting s)"
    using step st by (auto split: started.splits)
  have sub: "set h \<subseteq> set ?h" by auto
  have "raised sha ?h j w" if "gs_waiting s' j = Some w" for j w
  proof (cases "gs_waiting s j = Some w")
    case True
    with inv have "raised sha h j w" by (simp add: gate_inv_def)
    then show ?thesis by (rule raised_mono [OF _ sub])
  next
    case False
    with that wait have "st = Asks w" "j = i" by (auto split: started.splits if_splits)
    with cs(3) [of w] out show ?thesis by (force simp: raised_def)
  qed
  moreover have "\<exists>j w r. approved_call sha ?h j w r \<and> wc_grantable w \<and> wc_key w = Some k
      \<and> sg_expiresAt sg = wc_now w + grantTtlMs ttl" if "gs_grants s' k = Some sg" for k sg
  proof -
    have "gs_grants s k = Some sg" using that gs' cs(1) by simp
    with inv approved_mono [OF _ sub] show ?thesis unfolding gate_inv_def by blast
  qed
  moreover have "call_justified sha ttl h (Start i op scope g managers now)" if "out = Some Called"
  proof -
    from that out have "st = Called" by simp
    from cs(2) [OF this] consider (auto) "classifyBrainOp sha op scope g = Auto"
      | (grant) k sg where "classifyBrainOp sha op scope g = Approval" "op \<in> set WRITE_OPS"
          "grantKey g = Some k" "gs_grants s k = Some sg" "now < sg_expiresAt sg" by blast
    then show ?thesis
    proof cases
      case auto
      then show ?thesis by (simp add: call_justified_def)
    next
      case grant
      from inv grant(4) obtain j w r where "approved_call sha h j w r" "wc_grantable w" "wc_key w = Some k"
        "sg_expiresAt sg = wc_now w + grantTtlMs ttl" unfolding gate_inv_def by blast
      moreover from this have "wc_op w \<in> set WRITE_OPS" by (auto simp: approved_call_def raised_def)
      ultimately show ?thesis using grant unfolding call_justified_def by auto
    qed
  qed
  ultimately show ?thesis by (simp add: gate_inv_def)
qed

lemma gate_inv_answered:
  assumes inv: "gate_inv sha ttl h s" and step: "gate_step sha ttl s (Answered i r) = (s', out)"
  shows "gate_inv sha ttl (h @ [(Answered i r, out)]) s'
     \<and> (out = Some Called \<longrightarrow> call_justified sha ttl (h @ [(Answered i r, out)]) (Answered i r))"
proof (cases "gs_waiting s i")
  case None
  with step have "s' = s" "out = None" by auto
  moreover have "set h \<subseteq> set (h @ [(Answered i r, out)])" by auto
  ultimately show ?thesis
    using inv raised_mono approved_mono unfolding gate_inv_def by (metis option.distinct(1))
next
  case (Some w)
  let ?h = "h @ [(Answered i r, out)]"
  have sub: "set h \<subseteq> set ?h" by auto
  obtain st gs where fin: "gate_finish ttl w r (gs_grants s) = (st, gs)" by fastforce
  have out: "out = Some st" and gs': "gs_grants s' = gs" and wait: "gs_waiting s' = (gs_waiting s)(i := None)"
    using step Some fin by auto
  have rw: "raised sha ?h i w" using inv Some raised_mono [OF _ sub] by (auto simp: gate_inv_def)
  have app: "approved_call sha ?h i w r" if "st = Called"
    using fin that rw out by (auto simp: gate_finish_def approved_call_def split: if_splits)
  have grant: "gs_grants s k = Some sg \<or> (st = Called \<and> wc_grantable w \<and> wc_key w = Some k
      \<and> sg_expiresAt sg = wc_now w + grantTtlMs ttl)" if "gs k = Some sg" for k sg
    using fin that by (auto simp: gate_finish_def split: if_splits option.splits)
  have "\<exists>j w r. approved_call sha ?h j w r \<and> wc_grantable w \<and> wc_key w = Some k
      \<and> sg_expiresAt sg = wc_now w + grantTtlMs ttl" if "gs_grants s' k = Some sg" for k sg
    using grant [of k sg] that gs' app inv approved_mono [OF _ sub] unfolding gate_inv_def by blast
  moreover have "raised sha ?h j v" if "gs_waiting s' j = Some v" for j v
    using that wait inv raised_mono [OF _ sub] by (auto simp: gate_inv_def split: if_splits)
  ultimately show ?thesis
    using out app by (auto simp: gate_inv_def call_justified_def)
qed

lemma gate_run_inv:
  "gate_run sha ttl h s \<Longrightarrow> gate_inv sha ttl h s
     \<and> (\<forall>e. (e, Some Called) \<in> set h \<longrightarrow> call_justified sha ttl h e)"
proof (induction rule: gate_run.induct)
  case init
  show ?case by (simp add: gate_inv_def gate_init_def)
next
  case (step h s e s' out)
  have sub: "set h \<subseteq> set (h @ [(e, out)])" by auto
  have now: "gate_inv sha ttl (h @ [(e, out)]) s'
      \<and> (out = Some Called \<longrightarrow> call_justified sha ttl (h @ [(e, out)]) e)"
  proof (cases e)
    case (Start i op scope g managers now)
    with step gate_inv_start justified_mono [OF _ sub] show ?thesis by blast
  next
    case (Answered i r)
    with step gate_inv_answered show ?thesis by blast
  qed
  then show ?case
    using step.IH justified_mono [OF _ sub] by auto
qed


text \<open>One writer's approved write, and a second write covered by the grant.\<close>

definition team_gate :: gate_input where
  "team_gate = demo_gate\<lparr>g_lockedUser := None, g_channelTrust := Trusted\<rparr>"

definition shared_scope :: brain_scope where
  "shared_scope = \<lparr>clientId = ''B1'', sourceId = SHARED_SOURCE, allowedSources = [], profileSource = None\<rparr>"

lemma team_write: "classifyBrainOp sha ''put_page'' shared_scope team_gate = Approval"
  by (simp add: classifyBrainOp_def shared_scope_def team_gate_def demo_gate_def READ_OPS_def
      MANAGER_OPS_def DESTRUCTIVE_OPS_def WRITE_OPS_def isProfileSourceId_def SHARED_SOURCE_def
      PROFILE_PREFIX_def agentSourceId_form)

lemma demo_gate_run:
  "\<exists>h s. gate_run (\<lambda>s. s) None h s
     \<and> (Start 1 ''put_page'' shared_scope team_gate [] 1000, Some Called) \<in> set h
     \<and> (\<forall>i r. (Answered i r, Some Called) \<in> set h \<longrightarrow> i = 0 \<and> ar_by r = ''U9'')"
proof -
  let ?sha = "\<lambda>s. s :: string"
  let ?w = "\<lparr>wc_op = ''put_page'', wc_manager = False, wc_grantable = True,
     wc_key = Some ''C1:1.0 U1'', wc_now = 0, wc_managers = []\<rparr>"
  let ?r = "\<lparr>ar_approved = True, ar_by = ''U9''\<rparr>"
  have key: "grantKey team_gate = Some ''C1:1.0 U1''"
    by (simp add: grantKey_def team_gate_def demo_gate_def)
  have w: "''put_page'' \<in> set WRITE_OPS" by (simp add: WRITE_OPS_def)
  define s1 where "s1 = \<lparr>gs_grants = Map.empty, gs_waiting = [0 \<mapsto> ?w]\<rparr>"
  define s2 where "s2 = \<lparr>gs_grants = [''C1:1.0 U1'' \<mapsto> \<lparr>sg_by = ''U9'', sg_expiresAt = 28800000\<rparr>],
     gs_waiting = Map.empty :: nat \<rightharpoonup> waiting_call\<rparr>"
  have e1: "gate_step ?sha None gate_init (Start 0 ''put_page'' shared_scope team_gate [] 0)
      = (s1, Some (Asks ?w))"
    by (simp add: gate_start_def team_write key w isStandingGrantable_def liveGrant_def gate_init_def s1_def)
  have e2: "gate_step ?sha None s1 (Answered 0 ?r) = (s2, Some Called)"
    by (simp add: gate_finish_def s1_def s2_def grantTtlMs_def)
  have e3: "gate_step ?sha None s2 (Start 1 ''put_page'' shared_scope team_gate [] 1000) = (s2, Some Called)"
    by (simp add: gate_start_def team_write key w isStandingGrantable_def liveGrant_def s2_def)
  from gate_run.step [OF gate_run.step [OF gate_run.step [OF gate_run.init e1] e2] e3]
  show ?thesis by fastforce
qed


end
