(* ===== verification/Reaper.thy ===== *)
theory Reaper
  imports QueueKeys Turns
begin

text \<open>
  The dead-node reaper (\<^verbatim>\<open>src/queue/reaper.ts\<close>) over its interactions: every read of Redis or of
  a queue and every effect is an action of a trace, and what a read answers depends on the
  trace so far, so that anything may have changed between two of them. \<open>TurnQueues.moveTo\<close> is one
  such action here (its program is in \<^verbatim>\<open>TurnQueues\<close>).
\<close>

section \<open>Interactions\<close>

datatype job_class = ActiveJobs | MovableJobs | WaitingJobs

record parked_job =
  pk_id :: string
  pk_data :: turn_job
  pk_timestamp :: int

datatype reap_action =
    ScanSess "string list"
  | HGetNode string "string option"
  | KnownNodes "string list"
  | NodeAlive string bool
  | LastBeat string "int option"
  | DelSess string "string list"
  | JobsOf string job_class "parked_job list"
  | MoveTo string parked_job string bool string string
  | StillThere string string bool
  | ForgetNode string

type_synonym trace = "reap_action list"

record answers =
  or_scan :: "trace \<Rightarrow> string list"
  or_hget :: "trace \<Rightarrow> string \<Rightarrow> string option"
  or_known :: "trace \<Rightarrow> string list"
  or_alive :: "trace \<Rightarrow> string \<Rightarrow> bool"
  or_beat :: "trace \<Rightarrow> string \<Rightarrow> int option"
  or_jobs :: "trace \<Rightarrow> string \<Rightarrow> job_class \<Rightarrow> parked_job list"
  or_move :: "trace \<Rightarrow> string \<Rightarrow> parked_job \<Rightarrow> bool \<Rightarrow> string \<times> string"
  or_there :: "trace \<Rightarrow> string \<Rightarrow> string \<Rightarrow> bool"

section \<open>Sessions by node\<close>

fun add_session :: "string \<Rightarrow> string \<Rightarrow> (string \<times> string list) list \<Rightarrow> (string \<times> string list) list" where
  "add_session node key [] = [(node, [key])]"
| "add_session node key ((n, ks) # rest) =
     (if n = node then (n, ks @ [key]) # rest else (n, ks) # add_session node key rest)"

fun collect_sessions :: "answers \<Rightarrow> string list \<Rightarrow> (string \<times> string list) list \<Rightarrow> trace
    \<Rightarrow> (string \<times> string list) list \<times> trace" where
  "collect_sessions R [] byNode t = (byNode, t)"
| "collect_sessions R (key # keys) byNode t =
     (let node = or_hget R t key; t' = t @ [HGetNode key node] in
      case node of
        None \<Rightarrow> collect_sessions R keys byNode t'
      | Some n \<Rightarrow>
          if n = [] then collect_sessions R keys byNode t'
          else collect_sessions R keys (add_session n key byNode) t')"

definition sessionsByNode :: "answers \<Rightarrow> trace \<Rightarrow> (string \<times> string list) list \<times> trace" where
  "sessionsByNode R t = (let ks = or_scan R t in collect_sessions R ks [] (t @ [ScanSess ks]))"

definition sessions_of :: "(string \<times> string list) list \<Rightarrow> string \<Rightarrow> string list" where
  "sessions_of byNode n = (case map_of byNode n of Some ks \<Rightarrow> ks | None \<Rightarrow> [])"

section \<open>Draining a queue\<close>

record move_home =
  mh_taken :: bool
  mh_left :: bool

definition moveHome :: "answers \<Rightarrow> string \<Rightarrow> parked_job \<Rightarrow> bool \<Rightarrow> trace \<Rightarrow> move_home \<times> trace" where
  "moveHome R node job rescueActive t =
     (let (rq, rid) = or_move R t node job rescueActive;
          t1 = t @ [MoveTo node job (jobLabel (pk_data job)) rescueActive rq rid];
          left = (\<not> (rq = nodeTurnsQueue node \<and> rid = pk_id job));
          there = or_there R t1 node (pk_id job);
          t2 = t1 @ [StillThere node (pk_id job) there]
      in (\<lparr>mh_taken = \<not> there, mh_left = left \<or> \<not> there\<rparr>, t2))"

text \<open>The loop over one list of jobs: how many were taken, how many were not left behind.\<close>

fun move_all :: "answers \<Rightarrow> string \<Rightarrow> bool \<Rightarrow> parked_job list \<Rightarrow> nat \<Rightarrow> nat \<Rightarrow> trace
    \<Rightarrow> nat \<times> nat \<times> trace" where
  "move_all R node rescue [] moved held t = (moved, held, t)"
| "move_all R node rescue (j # js) moved held t =
     (let (r, t') = moveHome R node j rescue t in
      move_all R node rescue js (if mh_taken r then moved + 1 else moved)
        (if \<not> mh_left r then held + 1 else held) t')"

definition drainNodeQueue :: "answers \<Rightarrow> string \<Rightarrow> trace \<Rightarrow> nat \<times> nat \<times> trace" where
  "drainNodeQueue R node t =
     (let act = or_jobs R t node ActiveJobs;
          (m1, h, t1) = move_all R node True act 0 0 (t @ [JobsOf node ActiveJobs act]);
          mov = or_jobs R t1 node MovableJobs;
          (m2, _, t2) = move_all R node False mov m1 0 (t1 @ [JobsOf node MovableJobs mov])
      in (m2, h, t2))"

section \<open>A reap pass\<close>

record reap_report =
  rp_deadNodes :: "string list"
  rp_sessionsCleared :: nat
  rp_jobsMoved :: nat

definition reap_node :: "answers \<Rightarrow> string list \<Rightarrow> string \<Rightarrow> reap_report \<Rightarrow> trace \<Rightarrow> reap_report \<times> trace" where
  "reap_node R sessKeys node rep t =
     (let alive = or_alive R t node; t0 = t @ [NodeAlive node alive] in
      if alive then (rep, t0)
      else let t1 = (if sessKeys = [] then t0 else t0 @ [DelSess node sessKeys]);
               (moved, held, t2) = drainNodeQueue R node t1;
               t3 = (if held = 0 then t2 @ [ForgetNode node] else t2)
      in (\<lparr>rp_deadNodes = rp_deadNodes rep @ [node],
           rp_sessionsCleared = rp_sessionsCleared rep + length sessKeys,
           rp_jobsMoved = rp_jobsMoved rep + moved\<rparr>, t3))"

fun reap_all :: "answers \<Rightarrow> (string \<times> string list) list \<Rightarrow> string list \<Rightarrow> reap_report \<Rightarrow> trace
    \<Rightarrow> reap_report \<times> trace" where
  "reap_all R byNode [] rep t = (rep, t)"
| "reap_all R byNode (n # ns) rep t =
     (let (rep', t') = reap_node R (sessions_of byNode n) n rep t in reap_all R byNode ns rep' t')"

definition reapDeadNodes :: "answers \<Rightarrow> reap_report \<times> trace" where
  "reapDeadNodes R =
     (let (byNode, t) = sessionsByNode R [];
          known = or_known R t;
          candidates = fresh_by (\<lambda>n. n) [] (known @ map fst byNode)
      in reap_all R byNode candidates
           \<lparr>rp_deadNodes = [], rp_sessionsCleared = 0, rp_jobsMoved = 0\<rparr> (t @ [KnownNodes known]))"

section \<open>Stalled jobs\<close>

fun move_old :: "answers \<Rightarrow> string \<Rightarrow> int \<Rightarrow> int \<Rightarrow> parked_job list \<Rightarrow> nat \<Rightarrow> trace \<Rightarrow> nat \<times> trace" where
  "move_old R node now threshold [] moved t = (moved, t)"
| "move_old R node now threshold (j # js) moved t =
     (if now - pk_timestamp j \<le> threshold then move_old R node now threshold js moved t
      else let (r, t') = moveHome R node j False t in
        move_old R node now threshold js (if mh_taken r then moved + 1 else moved) t')"

text \<open>\<open>now0\<close> is the clock when the beat is judged, \<open>now\<close> the one the jobs' ages are measured by.\<close>

definition moveStalled :: "answers \<Rightarrow> int \<Rightarrow> string \<Rightarrow> int \<Rightarrow> int \<Rightarrow> int \<Rightarrow> nat \<times> trace" where
  "moveStalled R nodeTtlMs node threshold now0 now =
     (let beat = or_beat R [] node; t = [LastBeat node beat] in
      if (case beat of Some b \<Rightarrow> now0 - b \<le> nodeTtlMs | None \<Rightarrow> False) then (0, t)
      else let js = or_jobs R t node WaitingJobs in
        move_old R node now threshold js 0 (t @ [JobsOf node WaitingJobs js]))"

section \<open>What a pass may do\<close>

text \<open>The moves of one list of jobs, in its order; whether each was left behind.\<close>

definition move_pair :: "string \<Rightarrow> bool \<Rightarrow> parked_job \<Rightarrow> bool \<Rightarrow> trace \<Rightarrow> bool" where
  "move_pair node rescue j left seg \<longleftrightarrow>
     (\<exists>rq rid there. seg = [MoveTo node j (jobLabel (pk_data j)) rescue rq rid, StillThere node (pk_id j) there]
        \<and> left = (\<not> there \<or> \<not> (rq = nodeTurnsQueue node \<and> rid = pk_id j)))"

inductive moves :: "string \<Rightarrow> bool \<Rightarrow> parked_job list \<Rightarrow> bool list \<Rightarrow> trace \<Rightarrow> bool"
  for node rescue where
  none: "moves node rescue [] [] []"
| more: "move_pair node rescue j left seg \<Longrightarrow> moves node rescue js ls t
    \<Longrightarrow> moves node rescue (j # js) (left # ls) (seg @ t)"

text \<open>What a pass does about one candidate: nothing beyond looking, when its heartbeat key exists;
  else its sessions, then its active jobs, then its unclaimed jobs, and it is forgotten exactly when
  no active job stayed.\<close>

inductive node_pass :: "string list \<Rightarrow> string \<Rightarrow> trace \<Rightarrow> bool" for sess node where
  alive: "node_pass sess node [NodeAlive node True]"
| dead: "moves node True act ls t1 \<Longrightarrow> moves node False mov ls' t2
    \<Longrightarrow> node_pass sess node
      ([NodeAlive node False] @ (if sess = [] then [] else [DelSess node sess])
       @ [JobsOf node ActiveJobs act] @ t1 @ [JobsOf node MovableJobs mov] @ t2
       @ (if list_all (\<lambda>b. b) ls then [ForgetNode node] else []))"

lemma moveHome_spec:
  "moveHome R node j rescue t = (r, t') \<Longrightarrow> \<exists>seg. t' = t @ seg \<and> move_pair node rescue j (mh_left r) seg"
  by (auto simp: moveHome_def Let_def move_pair_def split: prod.splits)

lemma move_all_spec:
  "move_all R node rescue js m h t = (m', h', t') \<Longrightarrow>
     \<exists>ls seg. t' = t @ seg \<and> moves node rescue js ls seg \<and> (h' = h \<longleftrightarrow> list_all (\<lambda>b. b) ls) \<and> h \<le> h'"
proof (induction js arbitrary: m h t)
  case Nil
  then show ?case using moves.none by fastforce
next
  case (Cons j js)
  obtain r t1 where mh: "moveHome R node j rescue t = (r, t1)" by (metis prod.exhaust)
  obtain seg where seg: "t1 = t @ seg" "move_pair node rescue j (mh_left r) seg"
    using moveHome_spec [OF mh] by blast
  from Cons.prems mh have "move_all R node rescue js (if mh_taken r then m + 1 else m)
      (if \<not> mh_left r then h + 1 else h) t1 = (m', h', t')" by simp
  from Cons.IH [OF this] obtain ls seg' where rest: "t' = t1 @ seg'" "moves node rescue js ls seg'"
    "h' = (if \<not> mh_left r then h + 1 else h) \<longleftrightarrow> list_all (\<lambda>b. b) ls"
    "(if \<not> mh_left r then h + 1 else h) \<le> h'" by blast
  have "moves node rescue (j # js) (mh_left r # ls) (seg @ seg')"
    using seg(2) rest(2) by (rule moves.more)
  moreover have "h' = h \<longleftrightarrow> list_all (\<lambda>b. b) (mh_left r # ls)"
    using rest(3,4) by (auto split: if_splits)
  ultimately show ?case using seg(1) rest(1,4) by (auto split: if_splits)
qed

lemma reap_node_spec:
  assumes "reap_node R sess node rep t = (rep', t')"
  shows "\<exists>seg. t' = t @ seg \<and> node_pass sess node seg
     \<and> rp_deadNodes rep' = rp_deadNodes rep @ (if hd seg = NodeAlive node True then [] else [node])"
proof (cases "or_alive R t node")
  case True
  with assms have "t' = t @ [NodeAlive node True]" "rep' = rep" by (auto simp: reap_node_def)
  then show ?thesis using node_pass.alive by fastforce
next
  case False
  let ?t1 = "t @ [NodeAlive node False] @ (if sess = [] then [] else [DelSess node sess])"
  define act where "act = or_jobs R ?t1 node ActiveJobs"
  obtain m1 h t1 where d1: "move_all R node True act 0 0 (?t1 @ [JobsOf node ActiveJobs act]) = (m1, h, t1)"
    by (metis prod.exhaust)
  define mov where "mov = or_jobs R t1 node MovableJobs"
  obtain m2 h2 t2 where d2: "move_all R node False mov m1 0 (t1 @ [JobsOf node MovableJobs mov]) = (m2, h2, t2)"
    by (metis prod.exhaust)
  have drain: "drainNodeQueue R node ?t1 = (m2, h, t2)"
    using d1 d2 unfolding drainNodeQueue_def Let_def act_def mov_def by simp
  have eq: "(if sess = [] then t @ [NodeAlive node False] else (t @ [NodeAlive node False]) @ [DelSess node sess]) = ?t1"
    by simp
  have t': "t' = (if h = 0 then t2 @ [ForgetNode node] else t2)"
    and dead: "rp_deadNodes rep' = rp_deadNodes rep @ [node]"
    using assms False unfolding reap_node_def Let_def by (simp_all only: eq drain) auto
  obtain ls seg where s1: "t1 = (?t1 @ [JobsOf node ActiveJobs act]) @ seg" "moves node True act ls seg"
    "h = 0 \<longleftrightarrow> list_all (\<lambda>b. b) ls"
    using move_all_spec [OF d1] by blast
  obtain ls' seg' where s2: "t2 = (t1 @ [JobsOf node MovableJobs mov]) @ seg'" "moves node False mov ls' seg'"
    using move_all_spec [OF d2] by blast
  let ?seg = "[NodeAlive node False] @ (if sess = [] then [] else [DelSess node sess])
       @ [JobsOf node ActiveJobs act] @ seg @ [JobsOf node MovableJobs mov] @ seg'
       @ (if list_all (\<lambda>b. b) ls then [ForgetNode node] else [])"
  have "node_pass sess node ?seg" using s1(2) s2(2) by (rule node_pass.dead)
  moreover have "t' = t @ ?seg" using t' s1(1,3) s2(1) by auto
  ultimately show ?thesis using dead by fastforce
qed

lemma reap_all_spec:
  "reap_all R byNode ns rep t = (rep', t') \<Longrightarrow>
     \<exists>segs. t' = t @ concat segs \<and> list_all2 (\<lambda>n. node_pass (sessions_of byNode n) n) ns segs"
proof (induction ns arbitrary: rep t)
  case Nil
  then show ?case by (intro exI [of _ "[]"]) auto
next
  case (Cons n ns)
  obtain rep1 t1 where r: "reap_node R (sessions_of byNode n) n rep t = (rep1, t1)" by (metis prod.exhaust)
  with Cons.prems have "reap_all R byNode ns rep1 t1 = (rep', t')" by simp
  from Cons.IH [OF this] obtain segs where segs: "t' = t1 @ concat segs"
    "list_all2 (\<lambda>n. node_pass (sessions_of byNode n) n) ns segs" by blast
  obtain seg where "t1 = t @ seg" "node_pass (sessions_of byNode n) n seg"
    using reap_node_spec [OF r] by blast
  with segs show ?case by (intro exI [of _ "seg # segs"]) auto
qed

text \<open>The sessions a pass finds for a node are the ones whose entry named it.\<close>

lemma sessions_of_add:
  "sessions_of (add_session n k b) n' = (if n' = n then sessions_of b n @ [k] else sessions_of b n')"
  by (induction n k b rule: add_session.induct) (auto simp: sessions_of_def)

definition entries_of :: "string \<Rightarrow> trace \<Rightarrow> string list" where
  "entries_of n t = concat (map (\<lambda>a. case a of HGetNode k (Some n') \<Rightarrow> if n' = n then [k] else [] | _ \<Rightarrow> []) t)"

lemma collect_sessions_spec:
  "collect_sessions R ks b t = (b', t') \<Longrightarrow>
     \<exists>seg. t' = t @ seg
       \<and> (\<forall>n. sessions_of b' n = sessions_of b n @ (if n = [] then [] else entries_of n seg))"
proof (induction ks arbitrary: b t)
  case Nil
  then show ?case by (intro exI [of _ "[]"]) (auto simp: entries_of_def)
next
  case (Cons k ks)
  define a where "a = HGetNode k (or_hget R t k)"
  define b1 where "b1 = (case or_hget R t k of None \<Rightarrow> b | Some n \<Rightarrow> if n = [] then b else add_session n k b)"
  have "collect_sessions R ks b1 (t @ [a]) = (b', t')"
    using Cons.prems by (auto simp: a_def b1_def Let_def split: option.splits if_splits)
  from Cons.IH [OF this] obtain seg where seg: "t' = (t @ [a]) @ seg"
    "\<And>n. sessions_of b' n = sessions_of b1 n @ (if n = [] then [] else entries_of n seg)"
    by blast
  show ?case
    by (rule exI [of _ "a # seg"])
      (auto simp: seg a_def b1_def sessions_of_add entries_of_def split: option.splits)
qed


end
