(* ===== verification/Registry.thy ===== *)
theory Registry
  imports QueueKeys "HOL-Library.AList" "HOL-Library.Multiset" "HOL-Library.List_Lexorder" "HOL-Library.Char_ord"
begin

text \<open>
  The session registry and the node heartbeats (\<^verbatim>\<open>src/queue/registry.ts\<close>): session entries, node
  beats and node labels with their times to live, and the set of known nodes. An entry is live while
  the server's clock is before its expiry; \<open>Date.now()\<close> of the caller and the server's clock are
  separate arguments. Heartbeat settings are whole seconds, and node ids are sorted by code unit.
\<close>

section \<open>State\<close>

record sess_row =
  sr_node :: string
  sr_since :: int
  sr_lastBeat :: int

text \<open>Each key holds its value and its expiry; keys are in the order a scan gives them.\<close>

record registry =
  rg_sess :: "(string \<times> sess_row \<times> int) list"
  rg_nodes :: "(string \<times> int \<times> int) list"
  rg_labels :: "(string \<times> string \<times> int) list"
  rg_nodeset :: "string list"

record registry_opts =
  ro_heartbeatSec :: int
  ro_nodeTtlSec :: int

definition sessTtlMs :: "registry_opts \<Rightarrow> int" where
  "sessTtlMs o1 = max 1 (2 * ro_heartbeatSec o1 * 1000)"

definition nodeTtlMs :: "registry_opts \<Rightarrow> int" where
  "nodeTtlMs o1 = max 1 (ro_nodeTtlSec o1 * 1000)"

definition nodeLabelsTtlMs :: "registry_opts \<Rightarrow> int" where
  "nodeLabelsTtlMs o1 = max (nodeTtlMs o1) (3 * ro_heartbeatSec o1 * 1000)"

definition live_at :: "int \<Rightarrow> (string \<times> 'v \<times> int) list \<Rightarrow> string \<Rightarrow> 'v option" where
  "live_at clock kvs k = (case map_of kvs k of Some (v, e) \<Rightarrow> if clock < e then Some v else None | None \<Rightarrow> None)"

text \<open>The keys a scan of a pattern returns: the live ones.\<close>

definition scan_live :: "int \<Rightarrow> (string \<times> 'v \<times> int) list \<Rightarrow> string list" where
  "scan_live clock kvs = filter (\<lambda>k. live_at clock kvs k \<noteq> None) (map fst kvs)"

section \<open>Labels\<close>

definition encodeLabels :: "string list \<Rightarrow> string" where
  "encodeLabels labels = join_with CHR '','' (sort (fresh_by (\<lambda>l. l) [] labels))"

definition decodeLabels :: "string option \<Rightarrow> string list" where
  "decodeLabels v =
     (case v of
        None \<Rightarrow> [DEFAULT_LABEL]
      | Some s \<Rightarrow> fresh_by (\<lambda>l. l) [] (filter (\<lambda>l. l \<noteq> []) (split_on CHR '','' s)))"

section \<open>Sessions\<close>

definition register :: "registry_opts \<Rightarrow> string \<Rightarrow> string \<Rightarrow> int \<Rightarrow> int \<Rightarrow> registry \<Rightarrow> registry" where
  "register o1 sid node now clock r =
     r\<lparr>rg_sess := AList.update sid (\<lparr>sr_node = node, sr_since = now, sr_lastBeat = now\<rparr>, clock + sessTtlMs o1)
        (rg_sess r)\<rparr>"

text \<open>\<open>HEARTBEAT_IF_EXISTS\<close>.\<close>

definition heartbeat :: "registry_opts \<Rightarrow> string \<Rightarrow> int \<Rightarrow> int \<Rightarrow> registry \<Rightarrow> bool \<times> registry" where
  "heartbeat o1 sid now clock r =
     (case live_at clock (rg_sess r) sid of
        None \<Rightarrow> (False, r)
      | Some row \<Rightarrow>
          (True, r\<lparr>rg_sess := AList.update sid (row\<lparr>sr_lastBeat := now\<rparr>, clock + sessTtlMs o1) (rg_sess r)\<rparr>))"

record session_location =
  sl_node :: string
  sl_since :: int
  sl_lastBeat :: int
  sl_fresh :: bool

definition row_location :: "registry_opts \<Rightarrow> int \<Rightarrow> sess_row option \<Rightarrow> session_location option" where
  "row_location o1 now row =
     (case row of
        None \<Rightarrow> None
      | Some h \<Rightarrow>
          if sr_node h = [] then None
          else Some \<lparr>sl_node = sr_node h, sl_since = sr_since h, sl_lastBeat = sr_lastBeat h,
                     sl_fresh = (now - sr_lastBeat h \<le> sessTtlMs o1)\<rparr>)"

definition lookup :: "registry_opts \<Rightarrow> string \<Rightarrow> int \<Rightarrow> int \<Rightarrow> registry \<Rightarrow> session_location option" where
  "lookup o1 sid now clock r = row_location o1 now (live_at clock (rg_sess r) sid)"

text \<open>\<open>lookupMany\<close>: one pipeline; \<open>errs\<close> says which of its replies were errors.\<close>

definition lookupMany :: "registry_opts \<Rightarrow> string list \<Rightarrow> (string \<Rightarrow> bool) \<Rightarrow> int \<Rightarrow> int \<Rightarrow> registry
    \<Rightarrow> session_location option list" where
  "lookupMany o1 sids errs now clock r =
     map (\<lambda>sid. row_location o1 now (if errs sid then None else live_at clock (rg_sess r) sid)) sids"

definition unregister :: "string \<Rightarrow> registry \<Rightarrow> registry" where
  "unregister sid r = r\<lparr>rg_sess := AList.delete sid (rg_sess r)\<rparr>"

definition countWarm :: "int \<Rightarrow> registry \<Rightarrow> nat" where
  "countWarm clock r = length (scan_live clock (rg_sess r))"

definition listByNode :: "string \<Rightarrow> int \<Rightarrow> registry \<Rightarrow> string list" where
  "listByNode node clock r =
     filter (\<lambda>sid. case live_at clock (rg_sess r) sid of Some h \<Rightarrow> sr_node h = node | None \<Rightarrow> False)
       (scan_live clock (rg_sess r))"

section \<open>Nodes\<close>

definition set_beat :: "registry_opts \<Rightarrow> string \<Rightarrow> int \<Rightarrow> int \<Rightarrow> registry \<Rightarrow> registry" where
  "set_beat o1 node now clock r = r\<lparr>rg_nodes := AList.update node (now, clock + nodeTtlMs o1) (rg_nodes r)\<rparr>"

definition set_labels :: "registry_opts \<Rightarrow> string \<Rightarrow> string list option \<Rightarrow> int \<Rightarrow> registry \<Rightarrow> registry" where
  "set_labels o1 node labels clock r =
     (case labels of
        None \<Rightarrow> r
      | Some ls \<Rightarrow> r\<lparr>rg_labels := AList.update node (encodeLabels ls, clock + nodeLabelsTtlMs o1) (rg_labels r)\<rparr>)"

definition nodeUp :: "registry_opts \<Rightarrow> string \<Rightarrow> string list option \<Rightarrow> int \<Rightarrow> int \<Rightarrow> registry \<Rightarrow> registry" where
  "nodeUp o1 node labels now clock r =
     (let r' = set_labels o1 node labels clock (set_beat o1 node now clock r) in
      r'\<lparr>rg_nodeset := (if node \<in> set (rg_nodeset r') then rg_nodeset r' else rg_nodeset r' @ [node])\<rparr>)"

definition beatNode :: "registry_opts \<Rightarrow> string \<Rightarrow> string list option \<Rightarrow> int \<Rightarrow> int \<Rightarrow> registry \<Rightarrow> registry" where
  "beatNode o1 node labels now clock r = set_labels o1 node labels clock (set_beat o1 node now clock r)"

definition nodeLabels :: "string \<Rightarrow> int \<Rightarrow> registry \<Rightarrow> string list" where
  "nodeLabels node clock r = decodeLabels (live_at clock (rg_labels r) node)"

definition nodeCarries :: "string \<Rightarrow> string \<Rightarrow> int \<Rightarrow> registry \<Rightarrow> bool" where
  "nodeCarries node label clock r \<longleftrightarrow> label \<in> set (decodeLabels (live_at clock (rg_labels r) node))"

definition listNodes :: "int \<Rightarrow> registry \<Rightarrow> string list" where
  "listNodes clock r = scan_live clock (rg_nodes r)"

definition nodesWithLabel :: "string \<Rightarrow> int \<Rightarrow> registry \<Rightarrow> string list" where
  "nodesWithLabel label clock r =
     filter (\<lambda>n. label \<in> set (decodeLabels (live_at clock (rg_labels r) n))) (listNodes clock r)"

definition liveNodesHolding :: "string \<Rightarrow> int \<Rightarrow> registry \<Rightarrow> (string \<times> string list) list" where
  "liveNodesHolding label clock r =
     sort_key fst
       (map (\<lambda>(n, ls). (n, sort ls))
         (filter (\<lambda>(n, ls). label \<in> set ls)
           (map (\<lambda>n. (n, decodeLabels (live_at clock (rg_labels r) n))) (listNodes clock r))))"

text \<open>The nested loop of \<open>liveNodesPerLabel\<close> over the nodes' label sets, and of \<open>liveLabels\<close>.\<close>

fun count_labels :: "string list list \<Rightarrow> (string \<Rightarrow> nat) \<Rightarrow> (string \<Rightarrow> nat)" where
  "count_labels [] m = m"
| "count_labels (ls # lss) m = count_labels lss (foldl (\<lambda>m l. m(l := m l + 1)) m ls)"

definition liveNodesPerLabel :: "int \<Rightarrow> registry \<Rightarrow> string \<Rightarrow> nat" where
  "liveNodesPerLabel clock r =
     count_labels (map (\<lambda>n. decodeLabels (live_at clock (rg_labels r) n)) (listNodes clock r)) (\<lambda>_. 0)"

definition liveLabels :: "int \<Rightarrow> registry \<Rightarrow> string list" where
  "liveLabels clock r =
     fresh_by (\<lambda>l. l) [] (concat (map (\<lambda>n. decodeLabels (live_at clock (rg_labels r) n)) (listNodes clock r)))"

definition liveNodeDetails :: "int \<Rightarrow> int \<Rightarrow> registry \<Rightarrow> (string \<times> string list \<times> int option) list" where
  "liveNodeDetails clock clock' r =
     sort_key fst
       (map (\<lambda>n. (n, sort (decodeLabels (live_at clock' (rg_labels r) n)), live_at clock' (rg_nodes r) n))
         (listNodes clock r))"

definition nodeAlive :: "string \<Rightarrow> int \<Rightarrow> registry \<Rightarrow> bool" where
  "nodeAlive node clock r \<longleftrightarrow> live_at clock (rg_nodes r) node \<noteq> None"

definition nodeLastBeat :: "string \<Rightarrow> int \<Rightarrow> registry \<Rightarrow> int option" where
  "nodeLastBeat node clock r = live_at clock (rg_nodes r) node"

definition nodeDown :: "string \<Rightarrow> registry \<Rightarrow> registry" where
  "nodeDown node r = r\<lparr>rg_nodes := AList.delete node (rg_nodes r), rg_labels := AList.delete node (rg_labels r),
     rg_nodeset := removeAll node (rg_nodeset r)\<rparr>"

definition forgetNode :: "string \<Rightarrow> registry \<Rightarrow> registry" where
  "forgetNode node r = r\<lparr>rg_nodeset := removeAll node (rg_nodeset r)\<rparr>"

section \<open>Facts\<close>

lemma live_at_update [simp]:
  "live_at clock (AList.update k (v, e) kvs) k' =
     (if k' = k then (if clock < e then Some v else None) else live_at clock kvs k')"
  by (auto simp: live_at_def update_conv')

lemma live_at_delete [simp]:
  "live_at clock (AList.delete k kvs) k' = (if k' = k then None else live_at clock kvs k')"
  by (auto simp: live_at_def delete_conv')

lemma live_at_later: "clock \<le> clock' \<Longrightarrow> live_at clock' kvs k = Some v \<Longrightarrow> live_at clock kvs k = Some v"
  by (auto simp: live_at_def split: option.splits if_splits)

lemma live_in_scan: "live_at clock kvs k \<noteq> None \<longleftrightarrow> k \<in> set (scan_live clock kvs)"
proof -
  have "live_at clock kvs k \<noteq> None \<Longrightarrow> k \<in> fst ` set kvs"
    by (force simp: live_at_def dest!: map_of_SomeD split: option.splits)
  then show ?thesis by (auto simp: scan_live_def)
qed

lemma distinct_scan: "distinct (map fst kvs) \<Longrightarrow> distinct (scan_live clock kvs)"
  by (simp add: scan_live_def)

lemma set_decode_encode:
  assumes "\<And>l. l \<in> set ls \<Longrightarrow> l \<noteq> [] \<and> CHR '','' \<notin> set l"
  shows "set (decodeLabels (Some (encodeLabels ls))) = set ls"
proof (cases "ls = []")
  case True
  then show ?thesis by (simp add: encodeLabels_def decodeLabels_def)
next
  case False
  let ?u = "sort (fresh_by (\<lambda>l. l) [] ls)"
  have same: "set ?u = set ls"
    using keys_fresh_by [of "\<lambda>l. l" "[]" ls] by simp
  with False have "?u \<noteq> []" by (metis set_empty)
  moreover have "\<forall>p \<in> set ?u. CHR '','' \<notin> set p" using same assms by auto
  ultimately have "split_on CHR '','' (encodeLabels ls) = ?u"
    unfolding encodeLabels_def by (rule split_join)
  moreover have "filter (\<lambda>l. l \<noteq> []) ?u = ?u"
    using same assms by (intro filter_True) auto
  ultimately show ?thesis
    using same keys_fresh_by [of "\<lambda>l. l" "[]" ?u] by (simp add: decodeLabels_def)
qed

lemma distinct_decode: "distinct (decodeLabels v)"
  using distinct_fresh_by [of "\<lambda>l. l" "[]"] by (auto simp: decodeLabels_def split: option.splits)

lemma foldl_count: "distinct ls \<Longrightarrow> foldl (\<lambda>m l. m(l := Suc (m l))) m ls l =
    m l + (if l \<in> set ls then 1 else 0)"
  by (induction ls arbitrary: m) auto

lemma count_labels_eq:
  "\<forall>ls \<in> set lss. distinct ls \<Longrightarrow>
     count_labels lss m l = m l + length (filter (\<lambda>ls. l \<in> set ls) lss)"
  by (induction lss arbitrary: m) (auto simp: foldl_count)

text \<open>The views of the live nodes agree, at any moment: the number of nodes the per-label count
  gives a label is the number of live nodes that carry it, the labels in use are exactly those with a
  positive count, and the listing with all labels holds the same nodes, each with its whole set.\<close>

theorem label_views_agree:
  "liveNodesPerLabel clock r l = length (nodesWithLabel l clock r)
   \<and> (l \<in> set (liveLabels clock r) \<longleftrightarrow> liveNodesPerLabel clock r l > 0)
   \<and> mset (map fst (liveNodesHolding l clock r)) = mset (nodesWithLabel l clock r)
   \<and> list_all (\<lambda>(n, ls). set ls = set (nodeLabels n clock r)) (liveNodesHolding l clock r)"
proof -
  let ?dec = "\<lambda>n. decodeLabels (live_at clock (rg_labels r) n)"
  have count: "liveNodesPerLabel clock r l = length (nodesWithLabel l clock r)"
    by (simp add: liveNodesPerLabel_def count_labels_eq distinct_decode nodesWithLabel_def filter_map o_def)
  have live: "l \<in> set (liveLabels clock r) \<longleftrightarrow> (\<exists>n \<in> set (listNodes clock r). l \<in> set (?dec n))"
    using keys_fresh_by [of "\<lambda>l. l" "[]" "concat (map ?dec (listNodes clock r))"]
    by (auto simp: liveLabels_def)
  also have "\<dots> \<longleftrightarrow> nodesWithLabel l clock r \<noteq> []"
    by (auto simp: nodesWithLabel_def filter_empty_conv)
  finally have "l \<in> set (liveLabels clock r) \<longleftrightarrow> liveNodesPerLabel clock r l > 0"
    by (simp add: count)
  moreover have "mset (map fst (liveNodesHolding l clock r)) = mset (nodesWithLabel l clock r)"
  proof -
    have unsort: "mset (map fst (sort_key fst xs)) = mset (map fst xs)" for xs :: "(string \<times> string list) list"
      by (simp only: mset_map mset_sort)
    show ?thesis
      unfolding liveNodesHolding_def unsort
      by (simp only: nodesWithLabel_def filter_map map_map o_def case_prod_beta fst_conv snd_conv map_ident)
  qed
  moreover have "list_all (\<lambda>(n, ls). set ls = set (nodeLabels n clock r)) (liveNodesHolding l clock r)"
    by (auto simp: liveNodesHolding_def nodeLabels_def list_all_iff)
  ultimately show ?thesis using count by blast
qed

text \<open>A warm session is routed to a node that still advertises its labels: when a node's labels
  were set no earlier than a heartbeat interval before its last beat of a session, then as long as
  the session's entry is live, the node's labels are the ones it set, so it is never mistaken for an
  unlabelled node. A beat never revives an expired entry.\<close>

theorem labels_outlive_sessions:
  assumes "heartbeat o1 sid now clock (beatNode o1 node (Some ls) now0 clock0 r) = (True, r')"
    and "clock \<le> clock0 + ro_heartbeatSec o1 * 1000" "0 < ro_heartbeatSec o1"
    and "lookup o1 sid now' clock' r' \<noteq> None"
    and "\<And>l. l \<in> set ls \<Longrightarrow> l \<noteq> [] \<and> CHR '','' \<notin> set l"
  shows "nodeCarries node l clock' r' \<longleftrightarrow> l \<in> set ls"
proof -
  let ?r = "beatNode o1 node (Some ls) now0 clock0 r"
  obtain row where row: "live_at clock (rg_sess ?r) sid = Some row"
    and r': "r' = ?r\<lparr>rg_sess := AList.update sid (row\<lparr>sr_lastBeat := now\<rparr>, clock + sessTtlMs o1) (rg_sess ?r)\<rparr>"
    using assms(1) by (auto simp: heartbeat_def split: option.splits)
  have "clock' < clock + sessTtlMs o1"
    using assms(4) by (auto simp: lookup_def r' row_location_def split: option.splits if_splits)
  then have "clock' < clock0 + nodeLabelsTtlMs o1"
    using assms(2,3) by (simp add: sessTtlMs_def nodeLabelsTtlMs_def)
  then have "live_at clock' (rg_labels r') node = Some (encodeLabels ls)"
    by (simp add: r' beatNode_def set_labels_def set_beat_def)
  then show ?thesis using set_decode_encode [OF assms(5)] by (simp add: nodeCarries_def)
qed

definition demo_registry :: registry where
  "demo_registry = \<lparr>rg_sess = [(''s1'', \<lparr>sr_node = ''n1'', sr_since = 0, sr_lastBeat = 0\<rparr>, 20000)],
     rg_nodes = [], rg_labels = [], rg_nodeset = []\<rparr>"

definition demo_ropts :: registry_opts where
  "demo_ropts = \<lparr>ro_heartbeatSec = 10, ro_nodeTtlSec = 30\<rparr>"

theorem labels_outlive_sessions_witness:
  "\<exists>r'. heartbeat demo_ropts ''s1'' 10000 10000
      (beatNode demo_ropts ''n1'' (Some [''gpu'']) 0 0 demo_registry) = (True, r')
    \<and> nodeCarries ''n1'' ''gpu'' 29000 r'"
proof -
  obtain r' where hb: "heartbeat demo_ropts ''s1'' 10000 10000
      (beatNode demo_ropts ''n1'' (Some [''gpu'']) 0 0 demo_registry) = (True, r')"
    and look: "lookup demo_ropts ''s1'' 29000 29000 r' \<noteq> None"
    by (simp add: heartbeat_def beatNode_def set_labels_def set_beat_def demo_registry_def demo_ropts_def
        live_at_def lookup_def row_location_def sessTtlMs_def)
  have "nodeCarries ''n1'' ''gpu'' 29000 r' \<longleftrightarrow> ''gpu'' \<in> set [''gpu'']"
    by (rule labels_outlive_sessions [OF hb _ _ look]) (auto simp: demo_ropts_def)
  with hb show ?thesis by auto
qed

end
