(* ===== verification/Cron.thy ===== *)
theory Cron
  imports Prelude
begin

text \<open>
  Cron expressions and their next run (\<^verbatim>\<open>src/gateway/slack/cron-parser.ts\<close>), and the calendar
  helpers of the background passes (\<^verbatim>\<open>src/background/calendar.ts\<close>). Instants are milliseconds since
  the epoch; the fields of a UTC \<open>Date\<close> are those of the proleptic Gregorian calendar.
\<close>

section \<open>UTC dates\<close>

definition MS_PER_MINUTE :: int where "MS_PER_MINUTE = 60000"

text \<open>Day number of a date and back, by 400-year eras that start in March.\<close>

definition days_of_date :: "int \<Rightarrow> int \<Rightarrow> int \<Rightarrow> int" where
  "days_of_date y m d =
     (let y' = (if m \<le> 2 then y - 1 else y);
          era = y' div 400; yoe = y' - era * 400;
          doy = (153 * (if m > 2 then m - 3 else m + 9) + 2) div 5 + d - 1;
          doe = yoe * 365 + yoe div 4 - yoe div 100 + doy
      in era * 146097 + doe - 719468)"

definition date_of_days :: "int \<Rightarrow> int \<times> int \<times> int" where
  "date_of_days z0 =
     (let z = z0 + 719468; era = z div 146097; doe = z - era * 146097;
          yoe = (doe - doe div 1460 + doe div 36524 - doe div 146096) div 365;
          doy = doe - (365 * yoe + yoe div 4 - yoe div 100);
          mp = (5 * doy + 2) div 153;
          d = doy - (153 * mp + 2) div 5 + 1;
          m = (if mp < 10 then mp + 3 else mp - 9)
      in (yoe + era * 400 + (if m \<le> 2 then 1 else 0), m, d))"

text \<open>\<open>getUTCDay\<close>: 0 is Sunday; the epoch was a Thursday.\<close>

definition weekday_of_days :: "int \<Rightarrow> int" where
  "weekday_of_days z = (z + 4) mod 7"

record utc_fields =
  uf_minute :: int
  uf_hour :: int
  uf_day :: int
  uf_month :: int
  uf_weekday :: int

text \<open>The fields of the instant \<open>m\<close> minutes after the epoch.\<close>

definition utc_of_minute :: "int \<Rightarrow> utc_fields" where
  "utc_of_minute m =
     (let days = m div 1440; (y, mon, d) = date_of_days days in
      \<lparr>uf_minute = m mod 60, uf_hour = (m mod 1440) div 60, uf_day = d, uf_month = mon,
       uf_weekday = weekday_of_days days\<rparr>)"

section \<open>Fields\<close>

record cron_fields =
  cf_minute :: "int list"
  cf_hour :: "int list"
  cf_dayOfMonth :: "int list"
  cf_month :: "int list"
  cf_dayOfWeek :: "int list"

datatype cron_error = InvalidStep string | InvalidRange string | InvalidField string
  | NotFiveFields string | NoNextRun string

text \<open>\<open>parseInt(s, 10)\<close>: leading white space, a sign, the longest run of digits; \<open>NaN\<close> is \<open>None\<close>.\<close>

definition parseInt :: "string \<Rightarrow> int option" where
  "parseInt s0 =
     (let s = dropWhile is_space s0;
          neg = (s \<noteq> [] \<and> hd s = CHR ''-'');
          body = (if s \<noteq> [] \<and> (hd s = CHR ''-'' \<or> hd s = CHR ''+'') then tl s else s);
          ds = takeWhile is_digit body
      in if ds = [] then None
         else Some (if neg then - int (dec_val ds) else int (dec_val ds)))"

text \<open>\<open>for (let i = min; i <= max; i += step) vals.push(i)\<close>.\<close>

function steps_from :: "int \<Rightarrow> int \<Rightarrow> int \<Rightarrow> int list" where
  "steps_from i mx st = (if st \<le> 0 \<or> i > mx then [] else i # steps_from (i + st) mx st)"
  by pat_completeness auto
termination by (relation "measure (\<lambda>(i, mx, st). nat (mx + 1 - i))") auto

declare steps_from.simps [simp del]

definition parseField :: "string \<Rightarrow> int \<Rightarrow> int \<Rightarrow> cron_error + int list" where
  "parseField field mn mx =
     (if field = ''*'' then Inr [mn..mx]
      else if starts_with field ''*/'' then
        (case parseInt (drop 2 field) of
           None \<Rightarrow> Inl (InvalidStep field)
         | Some st \<Rightarrow> if st \<le> 0 then Inl (InvalidStep field) else Inr (steps_from mn mx st))
      else if CHR ''-'' \<in> set field then
        (case split_on CHR ''-'' field of
           [a, b] \<Rightarrow>
             (case (parseInt a, parseInt b) of
                (Some s, Some e) \<Rightarrow> Inr [s..e]
              | _ \<Rightarrow> Inl (InvalidRange field))
         | _ \<Rightarrow> Inl (InvalidRange field))
      else (case parseInt field of
              None \<Rightarrow> Inl (InvalidField field)
            | Some n \<Rightarrow> Inr [n]))"

text \<open>\<open>s.split(/\s+/)\<close> on a trimmed string.\<close>

function split_spaces :: "string \<Rightarrow> string list" where
  "split_spaces s =
     (case dropWhile (\<lambda>c. \<not> is_space c) s of
        [] \<Rightarrow> [s]
      | _ # rest \<Rightarrow> takeWhile (\<lambda>c. \<not> is_space c) s # split_spaces (dropWhile is_space rest))"
  by pat_completeness auto
termination
proof (relation "measure length")
  fix s x rest
  assume "dropWhile (\<lambda>c. \<not> is_space c) s = x # rest"
  then have "length (x # rest) \<le> length s" by (metis length_dropWhile_le)
  moreover have "length (dropWhile is_space rest) \<le> length rest" by (rule length_dropWhile_le)
  ultimately show "(dropWhile is_space rest, s) \<in> measure length" by simp
qed simp

declare split_spaces.simps [simp del]

definition parseCron :: "string \<Rightarrow> cron_error + cron_fields" where
  "parseCron expr =
     (case split_spaces (js_trim expr) of
        [a, b, c, d, e] \<Rightarrow>
          (case parseField a 0 59 of Inl x \<Rightarrow> Inl x | Inr mi \<Rightarrow>
          (case parseField b 0 23 of Inl x \<Rightarrow> Inl x | Inr h \<Rightarrow>
          (case parseField c 1 31 of Inl x \<Rightarrow> Inl x | Inr doms \<Rightarrow>
          (case parseField d 1 12 of Inl x \<Rightarrow> Inl x | Inr mo \<Rightarrow>
          (case parseField e 0 6 of Inl x \<Rightarrow> Inl x | Inr dow \<Rightarrow>
             Inr \<lparr>cf_minute = mi, cf_hour = h, cf_dayOfMonth = doms, cf_month = mo, cf_dayOfWeek = dow\<rparr>)))))
      | _ \<Rightarrow> Inl (NotFiveFields expr))"

section \<open>Next run\<close>

definition cron_matches :: "cron_fields \<Rightarrow> int \<Rightarrow> bool" where
  "cron_matches f m =
     (let u = utc_of_minute m in
      uf_minute u \<in> set (cf_minute f) \<and> uf_hour u \<in> set (cf_hour f)
      \<and> uf_day u \<in> set (cf_dayOfMonth f) \<and> uf_month u \<in> set (cf_month f)
      \<and> uf_weekday u \<in> set (cf_dayOfWeek f))"

definition maxIterations :: nat where "maxIterations = 366 * 24 * 60 * 4"

fun next_match :: "cron_fields \<Rightarrow> nat \<Rightarrow> int \<Rightarrow> int option" where
  "next_match f 0 m = None"
| "next_match f (Suc n) m = (if cron_matches f m then Some m else next_match f n (m + 1))"

definition getNextRun :: "string \<Rightarrow> int \<Rightarrow> cron_error + int" where
  "getNextRun expr start =
     (case parseCron expr of
        Inl x \<Rightarrow> Inl x
      | Inr f \<Rightarrow>
          (case next_match f maxIterations (start div MS_PER_MINUTE + 1) of
             Some m \<Rightarrow> Inr (m * MS_PER_MINUTE)
           | None \<Rightarrow> Inl (NoNextRun expr)))"

section \<open>Facts\<close>

lemma next_match_Some:
  "next_match f n m = Some r \<longleftrightarrow>
     m \<le> r \<and> r < m + int n \<and> cron_matches f r \<and> (\<forall>k. m \<le> k \<and> k < r \<longrightarrow> \<not> cron_matches f k)"
proof (induction f n m rule: next_match.induct)
  case (2 f n m)
  show ?case
  proof (cases "cron_matches f m")
    case True
    then show ?thesis by (auto simp: not_less intro: antisym)
  next
    case False
    have "(\<forall>k. m + 1 \<le> k \<and> k < r \<longrightarrow> \<not> cron_matches f k) \<longleftrightarrow> (\<forall>k. m \<le> k \<and> k < r \<longrightarrow> \<not> cron_matches f k)"
      using False by (metis add1_zle_eq order_less_le)
    moreover have "m + 1 \<le> r \<longleftrightarrow> m \<le> r" if "cron_matches f r"
      using False that by (metis add1_zle_eq order_less_le)
    ultimately show ?thesis using False "2.IH" by auto
  qed
qed simp

lemma next_match_None:
  "next_match f n m = None \<longleftrightarrow> (\<forall>k. m \<le> k \<and> k < m + int n \<longrightarrow> \<not> cron_matches f k)"
proof (induction f n m rule: next_match.induct)
  case (2 f n m)
  have "(\<forall>k. m \<le> k \<and> k < m + int (Suc n) \<longrightarrow> \<not> cron_matches f k) \<longleftrightarrow>
      \<not> cron_matches f m \<and> (\<forall>k. m + 1 \<le> k \<and> k < (m + 1) + int n \<longrightarrow> \<not> cron_matches f k)"
  proof -
    have "m \<le> k \<and> k < m + int (Suc n) \<longleftrightarrow> k = m \<or> (m + 1 \<le> k \<and> k < (m + 1) + int n)" for k
      unfolding of_nat_Suc by arith
    then show ?thesis by (simp only:) blast
  qed
  with 2 show ?case by simp
qed auto

lemma steps_from_set:
  "0 < st \<Longrightarrow> x \<in> set (steps_from i mx st) \<longleftrightarrow> i \<le> x \<and> x \<le> mx \<and> (x - i) mod st = 0"
proof (induction i mx st rule: steps_from.induct)
  case (1 i mx st)
  show ?case
  proof (cases "i > mx")
    case True
    then show ?thesis by (simp add: steps_from.simps [of i mx st])
  next
    case False
    with 1 have IH: "x \<in> set (steps_from (i + st) mx st) \<longleftrightarrow>
        i + st \<le> x \<and> x \<le> mx \<and> (x - (i + st)) mod st = 0" by simp
    have mods: "(x - (i + st)) mod st = (x - i) mod st"
      by (simp add: algebra_simps mod_diff_right_eq minus_mod_self2 flip: diff_diff_eq)
    have close: "(x - i) mod st = 0 \<longleftrightarrow> x = i \<or> i + st \<le> x \<and> (x - i) mod st = 0" if "i \<le> x"
      using that 1(2) by (smt (verit) mod_pos_pos_trivial mod_self)
    show ?thesis
      using False 1(2) IH mods close by (auto simp: steps_from.simps [of i mx st])
  qed
qed



text \<open>A list of values in a field is not an error: only its first value is kept. The expression
  for every half hour runs once an hour, silently.\<close>

theorem cron_lists_truncated:
  "parseField ''0,30'' 0 59 = Inr [0] \<and> parseCron ''0,30 * * * *'' = parseCron ''0 * * * *''"
  by code_simp

section \<open>Calendar days\<close>

text \<open>Days as \<open>YYYY-MM-DD\<close>; years from 0 to 9999 have four digits. \<open>utc\<close> reads such a day (one
  the calendar has), \<open>ymd\<close> prints one.\<close>

definition pad_left :: "nat \<Rightarrow> string \<Rightarrow> string" where
  "pad_left n s = replicate (n - length s) CHR ''0'' @ s"

definition show_pad :: "nat \<Rightarrow> int \<Rightarrow> string" where
  "show_pad n i = pad_left n (show_nat (nat i))"

definition utc :: "string \<Rightarrow> int option" where
  "utc day =
     (case split_on CHR ''-'' day of
        [y, m, d] \<Rightarrow>
          if length y = 4 \<and> length m = 2 \<and> length d = 2 \<and> list_all is_digit (y @ m @ d)
          then Some (days_of_date (int (dec_val y)) (int (dec_val m)) (int (dec_val d)))
          else None
      | _ \<Rightarrow> None)"

definition ymd :: "int \<Rightarrow> string" where
  "ymd z = (case date_of_days z of (y, m, d) \<Rightarrow>
     show_pad 4 y @ ''-'' @ show_pad 2 m @ ''-'' @ show_pad 2 d)"

definition previousDay :: "string \<Rightarrow> string option" where
  "previousDay day = (case utc day of None \<Rightarrow> None | Some z \<Rightarrow> Some (ymd (z - 1)))"

text \<open>The week's Thursday decides its year.\<close>

definition thursday_of :: "int \<Rightarrow> int" where
  "thursday_of z = z + 4 - (if weekday_of_days z = 0 then 7 else weekday_of_days z)"

definition iso_week :: "int \<Rightarrow> int \<times> int" where
  "iso_week z =
     (let thursday = thursday_of z; year = fst (date_of_days thursday);
          day_of_year = thursday - days_of_date year 1 1 + 1
      in (year, (day_of_year + 6) div 7))"

definition isoWeekSlot :: "string \<Rightarrow> string option" where
  "isoWeekSlot day =
     (case utc day of
        None \<Rightarrow> None
      | Some z \<Rightarrow> (case iso_week z of (year, week) \<Rightarrow> Some (show_nat (nat year) @ ''-W'' @ show_pad 2 week)))"

lemma iso_week_same:
  assumes "weekday_of_days z \<noteq> 0"
  shows "iso_week (z + 1) = iso_week z"
proof -
  have "0 \<le> weekday_of_days z" by (simp add: weekday_of_days_def)
  moreover have "weekday_of_days (z + 1) = (if weekday_of_days z = 6 then 0 else weekday_of_days z + 1)"
  proof -
    have "weekday_of_days (z + 1) = (weekday_of_days z + 1) mod 7"
      by (simp add: weekday_of_days_def mod_simps algebra_simps)
    moreover have "0 \<le> weekday_of_days z" "weekday_of_days z < 7" by (simp_all add: weekday_of_days_def)
    ultimately show ?thesis by (simp add: mod_pos_pos_trivial)
  qed
  ultimately have "thursday_of (z + 1) = thursday_of z"
    using assms by (auto simp: thursday_of_def)
  then show ?thesis by (simp add: iso_week_def)
qed

lemma calendar_examples:
  "isoWeekSlot ''2026-01-01'' = Some ''2026-W01''" "isoWeekSlot ''2027-01-01'' = Some ''2026-W53''"
  "previousDay ''2024-03-01'' = Some ''2024-02-29''" "previousDay ''2100-03-01'' = Some ''2100-02-28''"
  by code_simp+

end
