(* ===== verification/WorkspaceClaims.thy ===== *)
theory WorkspaceClaims
  imports Prelude
begin

text \<open>
  The claims on an agent's proactive folder (\<^verbatim>\<open>src/agent/workspace-claim.ts\<close>): one holder per
  folder, waiters served in the order they asked, all waiting inputs of the next holder at once.
  \<open>path.resolve\<close> is a parameter; a promise is the number of the call that made it.
\<close>

section \<open>Paths\<close>

definition safeId :: "string \<Rightarrow> string" where
  "safeId s = map (\<lambda>c. if is_alnum c \<or> c = CHR ''_'' \<or> c = CHR ''-'' then c else CHR ''_'') s"

text \<open>On absolute, normalised paths \<open>resolve\<close> joins, \<open>dirname\<close> drops the last segment and
  \<open>basename\<close> is the last segment.\<close>

definition basename :: "string \<Rightarrow> string" where
  "basename p = last (split_on CHR ''/'' p)"

definition dirname :: "string \<Rightarrow> string" where
  "dirname p = join_with CHR ''/'' (butlast (split_on CHR ''/'' p))"

definition proactiveWorkspaceDir :: "string \<Rightarrow> string \<Rightarrow> string" where
  "proactiveWorkspaceDir root agentId = root @ ''/agent-'' @ safeId agentId @ ''/proactive''"

definition isProactiveWorkspace :: "(string \<Rightarrow> string) \<Rightarrow> string \<Rightarrow> string option \<Rightarrow> bool" where
  "isProactiveWorkspace res root dir =
     (case dir of
        None \<Rightarrow> False
      | Some raw \<Rightarrow>
          if raw = [] then False
          else let d = res raw; agentDir = dirname d; b = basename agentDir in
            basename d = ''proactive'' \<and> dirname agentDir = res root
            \<and> starts_with b ''agent-''
            \<and> list_all (\<lambda>c. is_alnum c \<or> c = CHR ''_'' \<or> c = CHR ''-'') (drop 6 b))"

section \<open>Claims\<close>

record folder =
  fo_holder :: string
  fo_waiters :: "(string \<times> nat) list"

record claims =
  cl_folders :: "string \<rightharpoonup> folder"
  cl_held :: "string \<rightharpoonup> string"

definition no_claims :: claims where
  "no_claims = \<lparr>cl_folders = Map.empty, cl_held = Map.empty\<rparr>"

text \<open>The new state and the promises that resolve.\<close>

definition acquire :: "(string \<Rightarrow> string) \<Rightarrow> string \<Rightarrow> string \<Rightarrow> nat \<Rightarrow> claims \<Rightarrow> claims \<times> nat list" where
  "acquire res rawDir holder i s =
     (let dir = res rawDir in
      case cl_folders s dir of
        None \<Rightarrow>
          (s\<lparr>cl_folders := (cl_folders s)(dir \<mapsto> \<lparr>fo_holder = holder, fo_waiters = []\<rparr>),
             cl_held := (cl_held s)(holder \<mapsto> dir)\<rparr>, [i])
      | Some f \<Rightarrow>
          if fo_holder f = holder then (s, [i])
          else (s\<lparr>cl_folders := (cl_folders s)(dir \<mapsto> f\<lparr>fo_waiters := fo_waiters f @ [(holder, i)]\<rparr>)\<rparr>, []))"

text \<open>\<open>None\<close>: the folder a holder holds is not in the table (the code would throw).\<close>

definition releaseHolder :: "string \<Rightarrow> claims \<Rightarrow> (claims \<times> nat list) option" where
  "releaseHolder holder s =
     (case cl_held s holder of
        None \<Rightarrow> Some (s, [])
      | Some dir \<Rightarrow>
          (case cl_folders s dir of
             None \<Rightarrow> None
           | Some f \<Rightarrow>
               (case fo_waiters f of
                  [] \<Rightarrow> Some (s\<lparr>cl_held := (cl_held s)(holder := None),
                               cl_folders := (cl_folders s)(dir := None)\<rparr>, [])
                | (h, i) # ws \<Rightarrow>
                    Some (s\<lparr>cl_held := ((cl_held s)(holder := None))(h \<mapsto> dir),
                            cl_folders := (cl_folders s)(dir \<mapsto>
                              f\<lparr>fo_holder := h, fo_waiters := filter (\<lambda>w. fst w \<noteq> h) ws\<rparr>)\<rparr>,
                          i # map snd (filter (\<lambda>w. fst w = h) ws)))))"

definition holderOf :: "(string \<Rightarrow> string) \<Rightarrow> string \<Rightarrow> claims \<Rightarrow> string option" where
  "holderOf res dir s = map_option fo_holder (cl_folders s (res dir))"

section \<open>The invariant\<close>

text \<open>A holder always asks for the same folder: \<open>home\<close>.\<close>

definition claims_inv :: "(string \<Rightarrow> string) \<Rightarrow> claims \<Rightarrow> bool" where
  "claims_inv home s \<longleftrightarrow>
     (\<forall>h d. cl_held s h = Some d \<longrightarrow> (\<exists>f. cl_folders s d = Some f \<and> fo_holder f = h))
     \<and> (\<forall>d f. cl_folders s d = Some f \<longrightarrow> cl_held s (fo_holder f) = Some d \<and> home (fo_holder f) = d
          \<and> (\<forall>w \<in> set (fo_waiters f). fst w \<noteq> fo_holder f \<and> home (fst w) = d))"

lemma claims_invD1: "claims_inv home s \<Longrightarrow> cl_held s h = Some d \<Longrightarrow>
    \<exists>f. cl_folders s d = Some f \<and> fo_holder f = h"
  unfolding claims_inv_def by blast

lemma claims_invD2: "claims_inv home s \<Longrightarrow> cl_folders s d = Some f \<Longrightarrow>
    cl_held s (fo_holder f) = Some d \<and> home (fo_holder f) = d
    \<and> (\<forall>w \<in> set (fo_waiters f). fst w \<noteq> fo_holder f \<and> home (fst w) = d)"
  unfolding claims_inv_def by blast

lemma claims_inv_empty: "claims_inv home no_claims"
  by (simp add: claims_inv_def no_claims_def)

lemma held_home: "claims_inv home s \<Longrightarrow> cl_held s h = Some d \<Longrightarrow> home h = d"
  using claims_invD1 claims_invD2 by blast

lemma acquire_inv:
  assumes inv: "claims_inv home s" and home: "res rawDir = home holder"
    and step: "acquire res rawDir holder i s = (s', os)"
  shows "claims_inv home s'"
proof (cases "cl_folders s (home holder)")
  case None
  have free: "cl_held s holder = None"
  proof (cases "cl_held s holder")
    case (Some d)
    with held_home [OF inv Some] claims_invD1 [OF inv Some] None show ?thesis by auto
  qed simp
  have other: "cl_held s h \<noteq> Some (home holder)" for h
    using claims_invD1 [OF inv, of h "home holder"] None by auto
  from None step home have s': "s' = s\<lparr>cl_folders := (cl_folders s)(home holder \<mapsto> \<lparr>fo_holder = holder, fo_waiters = []\<rparr>),
      cl_held := (cl_held s)(holder \<mapsto> home holder)\<rparr>" by (auto simp: acquire_def Let_def)
  show ?thesis
    unfolding claims_inv_def
  proof (intro conjI allI impI)
    fix h d assume "cl_held s' h = Some d"
    then show "\<exists>f. cl_folders s' d = Some f \<and> fo_holder f = h"
      using claims_invD1 [OF inv, of h d] other [of h] by (auto simp: s' split: if_splits)
  next
    fix d f assume "cl_folders s' d = Some f"
    then show "cl_held s' (fo_holder f) = Some d" "home (fo_holder f) = d"
      "\<forall>w \<in> set (fo_waiters f). fst w \<noteq> fo_holder f \<and> home (fst w) = d"
      using claims_invD2 [OF inv, of d f] free by (auto simp: s' split: if_splits)
  qed
next
  case (Some f)
  show ?thesis
  proof (cases "fo_holder f = holder")
    case True
    with Some step home inv show ?thesis by (auto simp: acquire_def Let_def)
  next
    case False
    with Some step home have s': "s' = s\<lparr>cl_folders := (cl_folders s)(home holder \<mapsto>
        f\<lparr>fo_waiters := fo_waiters f @ [(holder, i)]\<rparr>)\<rparr>" by (auto simp: acquire_def Let_def)
    show ?thesis
      unfolding claims_inv_def
    proof (intro conjI allI impI)
      fix h d assume "cl_held s' h = Some d"
      then show "\<exists>f. cl_folders s' d = Some f \<and> fo_holder f = h"
        using claims_invD1 [OF inv, of h d] Some by (auto simp: s')
    next
      fix d g assume "cl_folders s' d = Some g"
      then show "cl_held s' (fo_holder g) = Some d" "home (fo_holder g) = d"
        "\<forall>w \<in> set (fo_waiters g). fst w \<noteq> fo_holder g \<and> home (fst w) = d"
        using claims_invD2 [OF inv, of d g] claims_invD2 [OF inv Some] False
        by (fastforce simp: s' split: if_splits)+
    qed
  qed
qed

lemma release_total:
  assumes inv: "claims_inv home s"
  shows "releaseHolder h s \<noteq> None"
proof (cases "cl_held s h")
  case None
  then show ?thesis by (simp add: releaseHolder_def)
next
  case (Some d)
  with claims_invD1 [OF inv Some] show ?thesis
    by (auto simp: releaseHolder_def split: list.splits)
qed

lemma release_inv:
  assumes inv: "claims_inv home s" and step: "releaseHolder h s = Some (s', os)"
  shows "claims_inv home s'"
proof (cases "cl_held s h")
  case None
  with step inv show ?thesis by (simp add: releaseHolder_def)
next
  case (Some d)
  obtain f where f: "cl_folders s d = Some f" "fo_holder f = h"
    using claims_invD1 [OF inv Some] by blast
  have ws: "\<forall>w \<in> set (fo_waiters f). fst w \<noteq> h \<and> home (fst w) = d"
    using claims_invD2 [OF inv f(1)] f(2) by simp
  have only: "cl_held s h' = Some d \<Longrightarrow> h' = h" for h'
    using claims_invD1 [OF inv, of h' d] f by auto
  show ?thesis
  proof (cases "fo_waiters f")
    case Nil
    with step Some f have s': "s' = s\<lparr>cl_held := (cl_held s)(h := None), cl_folders := (cl_folders s)(d := None)\<rparr>"
      by (simp add: releaseHolder_def)
    show ?thesis
      unfolding claims_inv_def
    proof (intro conjI allI impI)
      fix h' d' assume "cl_held s' h' = Some d'"
      then show "\<exists>f. cl_folders s' d' = Some f \<and> fo_holder f = h'"
        using claims_invD1 [OF inv, of h' d'] only by (auto simp: s' split: if_splits)
    next
      fix d' g assume g: "cl_folders s' d' = Some g"
      then have "cl_folders s d' = Some g" "d' \<noteq> d" by (auto simp: s' split: if_splits)
      then show "cl_held s' (fo_holder g) = Some d'" "home (fo_holder g) = d'"
        "\<forall>w \<in> set (fo_waiters g). fst w \<noteq> fo_holder g \<and> home (fst w) = d'"
        using claims_invD2 [OF inv, of d' g] Some by (auto simp: s')
    qed
  next
    case (Cons w rest)
    obtain n i where w: "w = (n, i)" by fastforce
    have n: "n \<noteq> h" "home n = d" using ws Cons w by auto
    have nfree: "cl_held s n = None"
    proof (cases "cl_held s n")
      case (Some d')
      with held_home [OF inv this] n only show ?thesis by auto
    qed simp
    from step Some f Cons w have s': "s' = s\<lparr>cl_held := ((cl_held s)(h := None))(n \<mapsto> d),
        cl_folders := (cl_folders s)(d \<mapsto> f\<lparr>fo_holder := n, fo_waiters := filter (\<lambda>w. fst w \<noteq> n) rest\<rparr>)\<rparr>"
      by (simp add: releaseHolder_def)
    show ?thesis
      unfolding claims_inv_def
    proof (intro conjI allI impI)
      fix h' d' assume "cl_held s' h' = Some d'"
      then show "\<exists>f. cl_folders s' d' = Some f \<and> fo_holder f = h'"
        using claims_invD1 [OF inv, of h' d'] only by (auto simp: s' split: if_splits)
    next
      fix d' g assume g: "cl_folders s' d' = Some g"
      then have "d' \<noteq> d \<Longrightarrow> fo_holder g \<noteq> n \<and> fo_holder g \<noteq> h"
        using claims_invD2 [OF inv, of d' g] Some nfree by (auto simp: s')
      with g show "cl_held s' (fo_holder g) = Some d'" "home (fo_holder g) = d'"
        "\<forall>w \<in> set (fo_waiters g). fst w \<noteq> fo_holder g \<and> home (fst w) = d'"
        using claims_invD2 [OF inv, of d' g] n ws Cons by (auto simp: s' split: if_splits)
    qed
  qed
qed

section \<open>Everybody is served\<close>

text \<open>The holders of a folder release it one after the other, \<open>n\<close> times.\<close>

fun hand_over :: "nat \<Rightarrow> string \<Rightarrow> claims \<Rightarrow> nat list \<Rightarrow> (claims \<times> nat list) option" where
  "hand_over 0 d s os = Some (s, os)"
| "hand_over (Suc n) d s os =
     (case cl_folders s d of
        None \<Rightarrow> Some (s, os)
      | Some f \<Rightarrow>
          (case releaseHolder (fo_holder f) s of
             None \<Rightarrow> None
           | Some (s', os') \<Rightarrow> hand_over n d s' (os @ os')))"

text \<open>Waiters in the order they are served: the first, with its holder's other inputs, then the
  rest.\<close>

function served_order :: "(string \<times> nat) list \<Rightarrow> nat list" where
  "served_order [] = []"
| "served_order ((h, i) # ws) =
     i # map snd (filter (\<lambda>w. fst w = h) ws) @ served_order (filter (\<lambda>w. fst w \<noteq> h) ws)"
  by pat_completeness auto
termination by (relation "measure length") (auto simp: le_imp_less_Suc)

lemma served_order_perm: "set (served_order ws) = snd ` set ws"
  by (induction ws rule: served_order.induct) auto

lemma hand_over_serves:
  "claims_inv home s \<Longrightarrow> cl_folders s d = Some f \<Longrightarrow> length (fo_waiters f) < n \<Longrightarrow>
     \<exists>s'. hand_over n d s os = Some (s', os @ served_order (fo_waiters f)) \<and> cl_folders s' d = None"
proof (induction n arbitrary: s f os)
  case (Suc n)
  have held: "cl_held s (fo_holder f) = Some d" using claims_invD2 [OF Suc.prems(1,2)] by simp
  show ?case
  proof (cases "fo_waiters f")
    case Nil
    with held Suc.prems(2) have "releaseHolder (fo_holder f) s = Some (s\<lparr>cl_held := (cl_held s)(fo_holder f := None),
        cl_folders := (cl_folders s)(d := None)\<rparr>, [])" by (simp add: releaseHolder_def)
    with Suc.prems(2) Nil show ?thesis by (cases n) auto
  next
    case (Cons w rest)
    obtain h i where w: "w = (h, i)" by fastforce
    let ?f = "f\<lparr>fo_holder := h, fo_waiters := filter (\<lambda>w. fst w \<noteq> h) rest\<rparr>"
    let ?s = "s\<lparr>cl_held := ((cl_held s)(fo_holder f := None))(h \<mapsto> d), cl_folders := (cl_folders s)(d \<mapsto> ?f)\<rparr>"
    let ?os = "i # map snd (filter (\<lambda>w. fst w = h) rest)"
    have rel: "releaseHolder (fo_holder f) s = Some (?s, ?os)"
      using held Suc.prems(2) Cons w by (simp add: releaseHolder_def)
    have "length (fo_waiters ?f) < n"
      using Suc.prems(3) Cons le_less_trans [OF length_filter_le [of "\<lambda>w. fst w \<noteq> h" rest]] by simp
    from Suc.IH [OF release_inv [OF Suc.prems(1) rel] _ this, of "os @ ?os"]
    show ?thesis using Suc.prems(2) rel Cons w by auto
  qed
qed simp

inductive claims_reach :: "(string \<Rightarrow> string) \<Rightarrow> (string \<Rightarrow> string) \<Rightarrow> claims \<Rightarrow> bool" for res home where
  none: "claims_reach res home no_claims"
| acquire: "claims_reach res home s \<Longrightarrow> res rawDir = home holder
    \<Longrightarrow> acquire res rawDir holder i s = (s', os) \<Longrightarrow> claims_reach res home s'"
| release: "claims_reach res home s \<Longrightarrow> releaseHolder holder s = Some (s', os) \<Longrightarrow> claims_reach res home s'"

lemma claims_reach_inv: "claims_reach res home s \<Longrightarrow> claims_inv home s"
proof (induction rule: claims_reach.induct)
  case none
  show ?case by (rule claims_inv_empty)
next
  case (acquire s rawDir holder i s' os)
  show ?case by (rule acquire_inv [OF acquire.IH acquire.hyps(2,3)])
next
  case (release s holder s' os)
  show ?case by (rule release_inv [OF release.IH release.hyps(2)])
qed

text \<open>No claim is lost: in every state that claims and releases reach, with a holder always
  asking for one and the same folder, a release never fails, and when the holders of a folder release
  it in turn, after one release more than it has waiters every waiting claim has been granted, each
  with the other inputs of its holder and in the order they asked, and the folder is free.\<close>

theorem claims_all_served:
  assumes "claims_reach res home s" "cl_folders s d = Some f"
  shows "releaseHolder h s \<noteq> None
     \<and> (\<exists>s' os. hand_over (Suc (length (fo_waiters f))) d s [] = Some (s', os) \<and> cl_folders s' d = None
          \<and> os = served_order (fo_waiters f) \<and> set os = snd ` set (fo_waiters f))"
proof -
  have inv: "claims_inv home s" by (rule claims_reach_inv [OF assms(1)])
  have "releaseHolder h s \<noteq> None" by (rule release_total [OF inv])
  moreover obtain s' where "hand_over (Suc (length (fo_waiters f))) d s [] = Some (s', served_order (fo_waiters f))"
    "cl_folders s' d = None"
    using hand_over_serves [OF inv assms(2), of "Suc (length (fo_waiters f))" "[]"] by auto
  ultimately show ?thesis by (simp add: served_order_perm)
qed

definition three_claims :: claims where
  "three_claims = (let f = (\<lambda>h i s. fst (acquire (\<lambda>p. p) ''/w'' h i s)) in
     f ''b'' 4 (f ''c'' 3 (f ''b'' 2 (f ''a'' 1 no_claims))))"

lemma three_claims_reach: "claims_reach (\<lambda>p. p) (\<lambda>_. ''/w'') three_claims"
proof -
  have step: "claims_reach (\<lambda>p. p) (\<lambda>_. ''/w'') (fst (acquire (\<lambda>p. p) ''/w'' h i s))"
    if "claims_reach (\<lambda>p. p) (\<lambda>_. ''/w'') s" for h i s
    using claims_reach.acquire [OF that] by (metis prod.collapse)
  show ?thesis unfolding three_claims_def Let_def by (intro step claims_reach.none)
qed

theorem claims_all_served_witness:
  "map_option snd (hand_over 4 ''/w'' three_claims []) = Some [2, 4, 3]"
proof -
  have f: "cl_folders three_claims ''/w'' = Some \<lparr>fo_holder = ''a'', fo_waiters = [(''b'', 2), (''c'', 3), (''b'', 4)]\<rparr>"
    by (simp add: three_claims_def acquire_def no_claims_def Let_def)
  from claims_all_served [OF three_claims_reach f] show ?thesis
    by (auto simp: numeral_eq_Suc)
qed

end
