(* ===== verification/TokenBudget.thy ===== *)
theory TokenBudget
  imports Complex_Main Prelude
begin

text \<open>
  Bookkeeping of the agent process: the token budget of a session (\<^verbatim>\<open>src/agent/token-budget.ts\<close>),
  the circuit breaker on unhandled rejections (\<^verbatim>\<open>src/node/rejection-guard.ts\<close>) and the
  \<open>runAs\<close> claim of a turn (\<^verbatim>\<open>src/agent/credential-owner.ts\<close>). Token counts are integers, shares
  of the context window rationals.
\<close>

section \<open>Token budget\<close>

record result_usage =
  ru_input :: int
  ru_output :: int
  ru_cacheRead :: int
  ru_cacheCreation :: int

text \<open>A usage as an assistant message carries it: a missing, negative or non-numeric count is
  \<open>None\<close> or negative here.\<close>

record prompt_usage =
  pu_input :: "int option"
  pu_output :: "int option"
  pu_cacheRead :: "int option"
  pu_cacheCreation :: "int option"

record usage_snapshot =
  us_input :: int
  us_output :: int
  us_cacheRead :: int
  us_cacheCreation :: int
  us_totalInput :: int
  us_contextWindow :: int
  us_pctUsed :: rat
  us_remaining :: int

record session_state =
  ss_snap :: usage_snapshot
  ss_warned :: bool
  ss_critical :: bool

record budget =
  tb_state :: "string \<rightharpoonup> session_state"
  tb_lastPrompt :: "string \<rightharpoonup> result_usage"
  tb_fallback :: int

definition DEFAULT_FALLBACK_CONTEXT_WINDOW :: int where
  "DEFAULT_FALLBACK_CONTEXT_WINDOW = 200000"

definition new_budget :: "int option \<Rightarrow> budget" where
  "new_budget f = \<lparr>tb_state = Map.empty, tb_lastPrompt = Map.empty,
     tb_fallback = (case f of Some n \<Rightarrow> if n > 0 then n else DEFAULT_FALLBACK_CONTEXT_WINDOW
                            | None \<Rightarrow> DEFAULT_FALLBACK_CONTEXT_WINDOW)\<rparr>"

definition count_of :: "int option \<Rightarrow> int" where
  "count_of v = (case v of Some n \<Rightarrow> if n \<ge> 0 then n else 0 | None \<Rightarrow> 0)"

definition notePrompt :: "string \<Rightarrow> prompt_usage option \<Rightarrow> budget \<Rightarrow> budget" where
  "notePrompt sid usage b =
     (case usage of
        None \<Rightarrow> b
      | Some p \<Rightarrow>
          (let u = \<lparr>ru_input = count_of (pu_input p), ru_output = count_of (pu_output p),
                    ru_cacheRead = count_of (pu_cacheRead p), ru_cacheCreation = count_of (pu_cacheCreation p)\<rparr>
           in if ru_input u + ru_cacheRead u + ru_cacheCreation u = 0 then b
              else b\<lparr>tb_lastPrompt := (tb_lastPrompt b)(sid \<mapsto> u)\<rparr>))"

fun widest :: "int \<Rightarrow> int list \<Rightarrow> int" where
  "widest w [] = w"
| "widest w (m # ms) = widest (if m > w then m else w) ms"

definition snapshot_of :: "result_usage \<Rightarrow> int \<Rightarrow> usage_snapshot" where
  "snapshot_of u window =
     (let total = ru_input u + ru_cacheRead u + ru_cacheCreation u in
      \<lparr>us_input = ru_input u, us_output = ru_output u, us_cacheRead = ru_cacheRead u,
       us_cacheCreation = ru_cacheCreation u, us_totalInput = total, us_contextWindow = window,
       us_pctUsed = (if window > 0 then of_int total / of_int window else 0),
       us_remaining = window - total\<rparr>)"

definition record_usage :: "string \<Rightarrow> result_usage \<Rightarrow> int list \<Rightarrow> budget \<Rightarrow> budget" where
  "record_usage sid usage windows b =
     (let u = (case tb_lastPrompt b sid of
                 Some l \<Rightarrow> l\<lparr>ru_output := ru_output usage\<rparr> | None \<Rightarrow> usage);
          snap = snapshot_of u (widest (tb_fallback b) windows);
          prior = tb_state b sid
      in b\<lparr>tb_lastPrompt := (tb_lastPrompt b)(sid := None),
           tb_state := (tb_state b)(sid \<mapsto>
             \<lparr>ss_snap = snap,
              ss_warned = (case prior of Some p \<Rightarrow> ss_warned p | None \<Rightarrow> False),
              ss_critical = (case prior of Some p \<Rightarrow> ss_critical p | None \<Rightarrow> False)\<rparr>)\<rparr>)"

definition snapshot :: "string \<Rightarrow> budget \<Rightarrow> usage_snapshot option" where
  "snapshot sid b = map_option ss_snap (tb_state b sid)"

definition forget :: "string \<Rightarrow> budget \<Rightarrow> budget" where
  "forget sid b = b\<lparr>tb_state := (tb_state b)(sid := None), tb_lastPrompt := (tb_lastPrompt b)(sid := None)\<rparr>"

datatype threshold_event = Warn | Critical

definition evaluateThreshold :: "string \<Rightarrow> rat \<Rightarrow> rat \<Rightarrow> budget \<Rightarrow> threshold_event option \<times> budget" where
  "evaluateThreshold sid warnPct criticalPct b =
     (case tb_state b sid of
        None \<Rightarrow> (None, b)
      | Some st \<Rightarrow>
          (let p = us_pctUsed (ss_snap st) in
           if criticalPct > 0 \<and> p \<ge> criticalPct \<and> \<not> ss_critical st
           then (Some Critical, b\<lparr>tb_state := (tb_state b)(sid \<mapsto> st\<lparr>ss_critical := True\<rparr>)\<rparr>)
           else if p \<ge> warnPct \<and> \<not> ss_warned st
           then (Some Warn, b\<lparr>tb_state := (tb_state b)(sid \<mapsto> st\<lparr>ss_warned := True\<rparr>)\<rparr>)
           else (None, b)))"

datatype budget_event =
    NotePrompt string "prompt_usage option"
  | Record string result_usage "int list"
  | Forget string
  | Evaluate string rat rat

fun budget_step :: "budget \<Rightarrow> budget_event \<Rightarrow> budget \<times> (string \<times> threshold_event) list" where
  "budget_step b (NotePrompt sid p) = (notePrompt sid p b, [])"
| "budget_step b (Record sid u ws) = (record_usage sid u ws b, [])"
| "budget_step b (Forget sid) = (forget sid b, [])"
| "budget_step b (Evaluate sid w c) =
     (case evaluateThreshold sid w c b of
        (Some e, b') \<Rightarrow> (b', [(sid, e)])
      | (None, b') \<Rightarrow> (b', []))"

fun budget_run :: "budget \<Rightarrow> budget_event list \<Rightarrow> budget \<times> (string \<times> threshold_event) list" where
  "budget_run b [] = (b, [])"
| "budget_run b (e # es) =
     (case budget_step b e of (b1, os) \<Rightarrow> (case budget_run b1 es of (b2, os') \<Rightarrow> (b2, os @ os')))"

text \<open>What still can fire for a session.\<close>

definition fired :: "budget \<Rightarrow> string \<Rightarrow> threshold_event \<Rightarrow> bool" where
  "fired b sid e = (case tb_state b sid of None \<Rightarrow> False
     | Some st \<Rightarrow> (case e of Warn \<Rightarrow> ss_warned st | Critical \<Rightarrow> ss_critical st))"

lemma budget_step_fires:
  assumes "budget_step b ev = (b', os)" "ev \<noteq> Forget sid"
  shows "(fired b sid e \<longrightarrow> fired b' sid e)
     \<and> (if (sid, e) \<in> set os then \<not> fired b sid e \<and> fired b' sid e \<and> os = [(sid, e)] else True)"
proof (cases ev)
  case (NotePrompt s p)
  have "tb_state (notePrompt s p b) = tb_state b"
    by (simp add: notePrompt_def Let_def split: option.split)
  with assms NotePrompt show ?thesis by (auto simp: fired_def)
next
  case (Record s u ws)
  have "fired (record_usage s u ws b) sid e = fired b sid e"
    by (cases e; cases "sid = s"; cases "tb_state b s")
      (simp_all add: record_usage_def fired_def Let_def)
  with assms Record show ?thesis by auto
next
  case (Forget s)
  with assms show ?thesis by (auto simp: forget_def fired_def)
next
  case (Evaluate s w c)
  with assms show ?thesis
    by (cases e; cases "sid = s")
      (auto simp: evaluateThreshold_def fired_def Let_def split: option.splits if_splits)
qed

text \<open>Each threshold is reported at most once for a session as long as the session is not
  forgotten, however often usage is recorded and evaluated and whatever the other sessions do; and
  not at all if it was reported before.\<close>

theorem threshold_once:
  assumes "Forget sid \<notin> set es"
  shows "count_list (snd (budget_run b es)) (sid, e) \<le> (if fired b sid e then 0 else 1)"
  using assms
proof (induction es arbitrary: b)
  case (Cons ev es)
  obtain b1 os where st: "budget_step b ev = (b1, os)" by fastforce
  obtain b2 os' where rn: "budget_run b1 es = (b2, os')" by fastforce
  have IH: "count_list os' (sid, e) \<le> (if fired b1 sid e then 0 else 1)"
    using Cons.IH [of b1] Cons.prems rn by simp
  have "ev \<noteq> Forget sid" using Cons.prems by auto
  note f = budget_step_fires [OF st this, of e]
  show ?case
  proof (cases "(sid, e) \<in> set os")
    case True
    with f IH have "os = [(sid, e)]" "\<not> fired b sid e" "count_list os' (sid, e) = 0" by auto
    then show ?thesis by (simp add: st rn)
  next
    case False
    then have "count_list os (sid, e) = 0" by simp
    moreover have "count_list (os @ os') (sid, e) = count_list os (sid, e) + count_list os' (sid, e)"
      by (induction os) auto
    ultimately show ?thesis using f IH False by (auto simp: st rn split: if_splits)
  qed
qed simp

definition demo_usage :: result_usage where
  "demo_usage = \<lparr>ru_input = 170000, ru_output = 10, ru_cacheRead = 0, ru_cacheCreation = 0\<rparr>"

theorem threshold_once_witness:
  "snd (budget_run (new_budget None) [Record ''s'' demo_usage [], Evaluate ''s'' (8/10) 0, Evaluate ''s'' (8/10) 0])
     = [(''s'', Warn)]
   \<and> count_list (snd (budget_run (new_budget None) [Record ''s'' demo_usage [], Evaluate ''s'' (8/10) 0,
       Evaluate ''s'' (8/10) 0])) (''s'', Warn) \<le> 1"
  using threshold_once [of "''s''" "[Record ''s'' demo_usage [], Evaluate ''s'' (8/10) 0,
      Evaluate ''s'' (8/10) 0]" "new_budget None" Warn]
  by (simp add: fired_def new_budget_def demo_usage_def record_usage_def evaluateThreshold_def
      snapshot_of_def Let_def DEFAULT_FALLBACK_CONTEXT_WINDOW_def)

text \<open>The fill is the last prompt of the turn, used once.\<close>

lemma record_measures_last:
  assumes "tb_lastPrompt b sid = Some u"
  shows "snapshot sid (record_usage sid usage ws b) =
           Some (snapshot_of (u\<lparr>ru_output := ru_output usage\<rparr>) (widest (tb_fallback b) ws))"
    and "tb_lastPrompt (record_usage sid usage ws b) sid = None"
  using assms by (simp_all add: record_usage_def snapshot_def Let_def)

lemma widest_bounds: "w \<le> widest w ms \<and> (\<forall>m \<in> set ms. m \<le> widest w ms)"
  by (induction w ms rule: widest.induct) (auto intro: order_trans)

section \<open>Rejection breaker\<close>

record breaker_opts =
  bo_max :: nat
  bo_windowMs :: int

definition on_rejection :: "breaker_opts \<Rightarrow> int \<Rightarrow> int list \<Rightarrow> int list \<times> bool" where
  "on_rejection o1 t recent =
     (let r = filter (\<lambda>a. t - a < bo_windowMs o1) recent @ [t] in (r, bo_max o1 \<le> length r))"

text \<open>The breaker after a list of rejections, and whether it tripped at the last.\<close>

fun rejections :: "breaker_opts \<Rightarrow> int list \<Rightarrow> int list \<Rightarrow> int list \<times> bool" where
  "rejections o1 recent [] = (recent, False)"
| "rejections o1 recent [t] = on_rejection o1 t recent"
| "rejections o1 recent (t # ts) = rejections o1 (fst (on_rejection o1 t recent)) ts"

section \<open>The runAs claim\<close>

datatype run_as = RunAsAgent | RunAsUser string

definition SLACK_USER_ID :: "string \<Rightarrow> bool" where
  "SLACK_USER_ID s \<longleftrightarrow> s \<noteq> [] \<and> list_all (\<lambda>c. is_alnum c \<or> c = CHR ''_'' \<or> c = CHR ''-'') s"

text \<open>\<open>None\<close>: the code refuses.\<close>

definition encodeRunAs :: "string option \<Rightarrow> string option" where
  "encodeRunAs user =
     (case user of
        None \<Rightarrow> Some ''agent''
      | Some u \<Rightarrow> if SLACK_USER_ID u then Some (''user:'' @ u) else None)"

definition parseRunAs :: "string \<Rightarrow> run_as option" where
  "parseRunAs raw =
     (if raw = ''agent'' then Some RunAsAgent
      else if \<not> starts_with raw ''user:'' then None
      else if SLACK_USER_ID (drop 5 raw) then Some (RunAsUser (drop 5 raw)) else None)"

text \<open>The \<open>runAs\<close> claim round-trips: a claim reads as the agent or as a person exactly when it is
  what encoding that identity gives, so nothing can be read as an identity that was never encoded.\<close>

theorem runAs_roundtrip:
  "(parseRunAs raw = Some RunAsAgent \<longleftrightarrow> encodeRunAs None = Some raw)
   \<and> (parseRunAs raw = Some (RunAsUser u) \<longleftrightarrow> encodeRunAs (Some u) = Some raw)"
  by (auto simp: parseRunAs_def encodeRunAs_def prefix_def)

end
