(* ===== verification/PanelAuth.thy ===== *)
theory PanelAuth
  imports Prelude
begin

text \<open>
  Who may use the operator panel: the signed tokens (\<^verbatim>\<open>src/gateway/auth/jwt.ts\<close>), the panel's
  sessions and login round trips (\<^verbatim>\<open>src/gateway/panel/auth/session.ts\<close>) and the operator roles with
  their cached file (\<^verbatim>\<open>src/gateway/panel/auth/roles.ts\<close>). Base64url, JSON printing and parsing, the
  HMAC, SHA-256, random bytes, the YAML parser and the file system are parameters.
\<close>

section \<open>Tokens\<close>

datatype verify_reason =
    MissingToken | Malformed | BadSignature | Expired | WrongType | Unconfigured

text \<open>\<open>cd_body\<close> is base64url of the JSON text, \<open>cd_read\<close> its inverse with \<open>JSON.parse\<close> (\<open>None\<close> when
  that throws), \<open>cd_sign\<close> the base64url HMAC under a secret, \<open>cd_digest\<close> SHA-256.\<close>

record codec =
  cd_body :: "json \<Rightarrow> string"
  cd_read :: "string \<Rightarrow> json option"
  cd_sign :: "string \<Rightarrow> string \<Rightarrow> string"
  cd_digest :: "string \<Rightarrow> string"

definition jwt_header :: json where
  "jwt_header = JObj [(''alg'', JStr ''HS256''), (''typ'', JStr ''JWT'')]"

definition timingSafeStringEqual :: "codec \<Rightarrow> string \<Rightarrow> string \<Rightarrow> bool" where
  "timingSafeStringEqual c a b \<longleftrightarrow> cd_digest c a = cd_digest c b"

definition encodeJwt :: "codec \<Rightarrow> json \<Rightarrow> string \<Rightarrow> string" where
  "encodeJwt c payload secret =
     (let head = cd_body c jwt_header; body = cd_body c payload in
      head @ ''.'' @ body @ ''.'' @ cd_sign c secret (head @ ''.'' @ body))"

text \<open>The payload's fields and its \<open>exp\<close> (\<open>None\<close>: infinite).\<close>

definition decodeJwt :: "codec \<Rightarrow> string option \<Rightarrow> string option \<Rightarrow> int
    \<Rightarrow> verify_reason + (string \<times> json) list" where
  "decodeJwt c token secret nowMs =
     (if \<not> truthy secret then Inl Unconfigured
      else if \<not> truthy token then Inl MissingToken
      else case split_on CHR ''.'' (the token) of
        [head, body, sig] \<Rightarrow>
          if \<not> timingSafeStringEqual c (cd_sign c (the secret) (head @ ''.'' @ body)) sig then Inl BadSignature
          else (case cd_read c body of
                  Some (JObj ob) \<Rightarrow>
                    (case jfield ''exp'' ob of
                       Some (JNum (Some e)) \<Rightarrow> if e * 1000 \<le> nowMs then Inl Expired else Inr ob
                     | Some (JNum None) \<Rightarrow> Inr ob
                     | _ \<Rightarrow> Inl Expired)
                | _ \<Rightarrow> Inl Malformed)
      | _ \<Rightarrow> Inl Malformed)"

section \<open>Sessions\<close>

definition AT_TTL_SEC :: int where "AT_TTL_SEC = 900"
definition RT_TTL_SEC :: int where "RT_TTL_SEC = 28800"
definition FLOW_TTL_SEC :: int where "FLOW_TTL_SEC = 600"

datatype session_type = AT | RT

definition type_claim :: "session_type \<Rightarrow> string" where
  "type_claim t = (case t of AT \<Rightarrow> ''at'' | RT \<Rightarrow> ''rt'')"

definition ttlFor :: "session_type \<Rightarrow> int" where
  "ttlFor t = (case t of AT \<Rightarrow> AT_TTL_SEC | RT \<Rightarrow> RT_TTL_SEC)"

definition session_payload :: "string \<Rightarrow> string \<Rightarrow> session_type \<Rightarrow> int \<Rightarrow> int \<Rightarrow> string \<Rightarrow> (string \<times> json) list" where
  "session_payload sub email typ iat ttlSec jti =
     [(''sub'', JStr sub), (''email'', JStr email), (''typ'', JStr (type_claim typ)),
      (''iat'', JNum (Some iat)), (''exp'', JNum (Some (iat + ttlSec)))]
     @ (if typ = AT then [(''jti'', JStr jti)] else [])"

text \<open>\<open>None\<close>: no secret is set and the code throws. \<open>jti\<close> are the random bytes.\<close>

definition mintSession :: "codec \<Rightarrow> string \<Rightarrow> string \<Rightarrow> session_type \<Rightarrow> string option \<Rightarrow> int
    \<Rightarrow> int option \<Rightarrow> string \<Rightarrow> string option" where
  "mintSession c sub email typ secret nowMs ttlSec jti =
     (if \<not> truthy secret then None
      else Some (encodeJwt c (JObj (session_payload sub email typ (nowMs div 1000)
             (case ttlSec of Some t \<Rightarrow> t | None \<Rightarrow> ttlFor typ) jti)) (the secret)))"

fun is_str :: "json option \<Rightarrow> bool" where
  "is_str (Some (JStr s)) = True"
| "is_str _ = False"

definition verifySession :: "codec \<Rightarrow> string option \<Rightarrow> session_type \<Rightarrow> string option \<Rightarrow> int
    \<Rightarrow> verify_reason + (string \<times> json) list" where
  "verifySession c token expect secret nowMs =
     (case decodeJwt c token secret nowMs of
        Inl r \<Rightarrow> Inl r
      | Inr ob \<Rightarrow>
          if \<not> is_str (jfield ''email'' ob) \<or> \<not> is_str (jfield ''sub'' ob) then Inl Malformed
          else if jfield ''typ'' ob \<noteq> Some (JStr (type_claim expect)) then Inl WrongType
          else Inr ob)"

record flow_payload =
  fp_state :: string
  fp_nonce :: string
  fp_verifier :: string
  fp_returnTo :: string

definition mintFlow :: "codec \<Rightarrow> flow_payload \<Rightarrow> string option \<Rightarrow> int \<Rightarrow> string option" where
  "mintFlow c p secret nowMs =
     (if \<not> truthy secret then None
      else Some (encodeJwt c (JObj
        [(''state'', JStr (fp_state p)), (''nonce'', JStr (fp_nonce p)), (''verifier'', JStr (fp_verifier p)),
         (''returnTo'', JStr (fp_returnTo p)), (''typ'', JStr ''flow''), (''iat'', JNum (Some (nowMs div 1000))),
         (''exp'', JNum (Some (nowMs div 1000 + FLOW_TTL_SEC)))]) (the secret)))"

definition verifyFlow :: "codec \<Rightarrow> string option \<Rightarrow> string option \<Rightarrow> int \<Rightarrow> verify_reason + flow_payload" where
  "verifyFlow c token secret nowMs =
     (case decodeJwt c token secret nowMs of
        Inl r \<Rightarrow> Inl r
      | Inr ob \<Rightarrow>
          if jfield ''typ'' ob \<noteq> Some (JStr ''flow'') then Inl WrongType
          else (case (jfield ''state'' ob, jfield ''nonce'' ob, jfield ''verifier'' ob, jfield ''returnTo'' ob) of
                  (Some (JStr s), Some (JStr n), Some (JStr v), Some (JStr r)) \<Rightarrow>
                    Inr \<lparr>fp_state = s, fp_nonce = n, fp_verifier = v, fp_returnTo = r\<rparr>
                | _ \<Rightarrow> Inl Malformed))"

definition cookie_header :: "string \<Rightarrow> string \<Rightarrow> string \<Rightarrow> nat \<Rightarrow> string" where
  "cookie_header name value path maxAge =
     name @ ''='' @ value @ ''; Max-Age='' @ show_nat maxAge @ ''; Path='' @ path
     @ ''; HttpOnly; Secure; SameSite=Lax''"

definition parse_cookie :: "string \<Rightarrow> (string \<times> string) option" where
  "parse_cookie part =
     (let name = takeWhile (\<lambda>c. c \<noteq> CHR ''='') part in
      if name = [] \<or> length name = length part then None
      else Some (js_trim name, js_trim (drop (length name + 1) part)))"

definition parseCookies :: "string option \<Rightarrow> string \<rightharpoonup> string" where
  "parseCookies header =
     (case header of
        None \<Rightarrow> Map.empty
      | Some h \<Rightarrow> map_of (rev (List.map_filter parse_cookie (split_on CHR '';'' h))))"

section \<open>Roles\<close>

datatype panel_role = Superadmin | Operator

record role_config =
  rc_superadmin :: "string list"
  rc_operator :: "string list"

datatype role_error = NotAList string | NotAString string | NotAMapping | BadYaml | Unreadable string

fun string_entries :: "string \<Rightarrow> json list \<Rightarrow> role_error + string list" where
  "string_entries key [] = Inr []"
| "string_entries key (JStr s # vs) =
     (case string_entries key vs of Inl e \<Rightarrow> Inl e | Inr ss \<Rightarrow> Inr (js_trim s # ss))"
| "string_entries key (v # vs) = Inl (NotAString key)"

definition readList :: "(string \<times> json) list \<Rightarrow> string \<Rightarrow> role_error + string list" where
  "readList doc key =
     (case jfield key doc of
        None \<Rightarrow> Inr []
      | Some JNull \<Rightarrow> Inr []
      | Some (JArr vs) \<Rightarrow>
          (case string_entries key vs of Inl e \<Rightarrow> Inl e | Inr ss \<Rightarrow> Inr (filter (\<lambda>s. s \<noteq> []) ss))
      | Some _ \<Rightarrow> Inl (NotAList key))"

text \<open>The document is what the YAML parser gave; \<open>None\<close> when it threw.\<close>

definition parseRoleConfig :: "json option \<Rightarrow> role_error + role_config" where
  "parseRoleConfig yaml =
     (case yaml of
        None \<Rightarrow> Inl BadYaml
      | Some JNull \<Rightarrow> Inr \<lparr>rc_superadmin = [], rc_operator = []\<rparr>
      | Some (JObj doc) \<Rightarrow>
          (case readList doc ''superadmin'' of
             Inl e \<Rightarrow> Inl e
           | Inr sa \<Rightarrow> (case readList doc ''operator'' of
                Inl e \<Rightarrow> Inl e | Inr ops \<Rightarrow> Inr \<lparr>rc_superadmin = sa, rc_operator = ops\<rparr>))
      | Some _ \<Rightarrow> Inl NotAMapping)"

definition resolveRole :: "string \<Rightarrow> role_config \<Rightarrow> panel_role option" where
  "resolveRole identity cfg =
     (let needle = js_lower (js_trim identity) in
      if needle = [] then None
      else if list_ex (\<lambda>e. js_lower e = needle) (rc_superadmin cfg) then Some Superadmin
      else if list_ex (\<lambda>e. js_lower e = needle) (rc_operator cfg) then Some Operator
      else None)"

record role_cache =
  ca_mtime :: int
  ca_path :: string
  ca_cfg :: role_config

text \<open>What the file system shows at a call: the modification time, if the file can be stated, and its
  parsed text.\<close>

record role_file =
  rf_mtime :: "int option"
  rf_yaml :: "json option"

definition loadRoleConfig :: "string option \<Rightarrow> role_config \<Rightarrow> role_file \<Rightarrow> role_cache option
    \<Rightarrow> (role_error + role_config) \<times> role_cache option" where
  "loadRoleConfig path envLists file cached =
     (case path of
        None \<Rightarrow> (Inr envLists, cached)
      | Some p \<Rightarrow>
          (let kept = (case cached of Some k \<Rightarrow> if ca_path k = p then Some (ca_cfg k) else None | None \<Rightarrow> None)
           in case rf_mtime file of
             None \<Rightarrow> (case kept of Some cfg \<Rightarrow> Inr cfg | None \<Rightarrow> Inl (Unreadable p), cached)
           | Some m \<Rightarrow>
               if kept \<noteq> None \<and> ca_mtime (the cached) = m then (Inr (the kept), cached)
               else (case parseRoleConfig (rf_yaml file) of
                       Inr cfg \<Rightarrow> (Inr cfg, Some \<lparr>ca_mtime = m, ca_path = p, ca_cfg = cfg\<rparr>)
                     | Inl e \<Rightarrow> (case kept of Some cfg \<Rightarrow> Inr cfg | None \<Rightarrow> Inl e, cached))))"

section \<open>What a verified token is\<close>

lemma jwt_parts:
  assumes "CHR ''.'' \<notin> set (cd_body c jwt_header)" "CHR ''.'' \<notin> set (cd_body c payload)"
    and "CHR ''.'' \<notin> set (cd_sign c secret (cd_body c jwt_header @ ''.'' @ cd_body c payload))"
  shows "split_on CHR ''.'' (encodeJwt c payload secret) =
     [cd_body c jwt_header, cd_body c payload,
      cd_sign c secret (cd_body c jwt_header @ ''.'' @ cd_body c payload)]"
  using assms by (simp add: encodeJwt_def Let_def split_on_append_sep split_on_no_sep)

text \<open>A session token is accepted only with the signature of its own header and body under the
  panel's secret (up to the digest both are compared by), a body that is an object with a subject and
  an e-mail, the expected type, and an expiry in the future. The header's algorithm is not read. A
  refresh token, or a login's flow token, is never accepted as an access token.\<close>

theorem session_accepted:
  assumes "verifySession c token expect secret nowMs = Inr ob"
  shows "\<exists>head body sig k. token = Some (head @ ''.'' @ body @ ''.'' @ sig) \<and> secret = Some k \<and> k \<noteq> []
     \<and> cd_digest c (cd_sign c k (head @ ''.'' @ body)) = cd_digest c sig
     \<and> cd_read c body = Some (JObj ob)
     \<and> jfield ''typ'' ob = Some (JStr (type_claim expect))
     \<and> (\<exists>e. jfield ''exp'' ob = Some (JNum e) \<and> (e = None \<or> nowMs < the e * 1000))"
proof -
  have dec: "decodeJwt c token secret nowMs = Inr ob"
    and ty: "jfield ''typ'' ob = Some (JStr (type_claim expect))"
    using assms by (auto simp: verifySession_def split: sum.splits if_splits)
  obtain k where k: "secret = Some k" "k \<noteq> []"
    using dec by (cases secret) (auto simp: decodeJwt_def split: if_splits)
  obtain t where t: "token = Some t" "t \<noteq> []"
    using dec k by (cases token) (auto simp: decodeJwt_def split: if_splits)
  obtain head body sig where parts: "split_on CHR ''.'' t = [head, body, sig]"
    using dec k t by (auto simp: decodeJwt_def split: list.splits)
  then have "t = head @ ''.'' @ body @ ''.'' @ sig"
    using join_split [of "CHR ''.''" t] by simp
  moreover have "cd_digest c (cd_sign c k (head @ ''.'' @ body)) = cd_digest c sig"
    and read: "cd_read c body = Some (JObj ob)"
    and "\<exists>e. jfield ''exp'' ob = Some (JNum e) \<and> (e = None \<or> nowMs < the e * 1000)"
    using dec k t parts
    by (auto simp: decodeJwt_def timingSafeStringEqual_def split: if_splits option.splits json.splits)
  ultimately show ?thesis using t(1) k ty by auto
qed

text \<open>A minted session verifies as its own type, with the claims it was minted for, until it
  expires and not after; as the other type it is refused, and as a login's flow token too.\<close>

theorem session_roundtrip:
  assumes "mintSession c sub email typ (Some k) minted ttl jti = Some t"
    and "CHR ''.'' \<notin> set (cd_body c jwt_header)"
    and "\<And>p. CHR ''.'' \<notin> set (cd_body c p)" "\<And>s. CHR ''.'' \<notin> set (cd_sign c k s)"
    and "cd_read c (cd_body c (JObj pl)) = Some (JObj pl)"
    and "pl = session_payload sub email typ (minted div 1000) life jti"
    and "life = (case ttl of Some n \<Rightarrow> n | None \<Rightarrow> ttlFor typ)"
  shows "verifySession c (Some t) expect (Some k) nowMs =
      (if (minted div 1000 + life) * 1000 \<le> nowMs then Inl Expired
       else if expect = typ then Inr pl else Inl WrongType)
    \<and> verifyFlow c (Some t) (Some k) nowMs =
      (if (minted div 1000 + life) * 1000 \<le> nowMs then Inl Expired else Inl WrongType)"
proof -
  have k: "k \<noteq> []" and t: "t = encodeJwt c (JObj pl) k"
    using assms(1,6,7) by (auto simp: mintSession_def split: if_splits)
  have tn: "t \<noteq> []" by (simp add: t encodeJwt_def Let_def)
  have f: "jfield ''exp'' pl = Some (JNum (Some (minted div 1000 + life)))"
    "jfield ''typ'' pl = Some (JStr (type_claim typ))" "is_str (jfield ''email'' pl)" "is_str (jfield ''sub'' pl)"
    by (simp_all add: assms(6) session_payload_def jfield_def)
  have dec: "decodeJwt c (Some t) (Some k) nowMs =
      (if (minted div 1000 + life) * 1000 \<le> nowMs then Inl Expired else Inr pl)"
    using k tn jwt_parts [of c "JObj pl" k] assms(2-5) f(1)
    by (simp add: decodeJwt_def t timingSafeStringEqual_def)
  have "type_claim expect = type_claim typ \<longleftrightarrow> expect = typ"
    by (cases expect; cases "typ") (simp_all add: type_claim_def)
  moreover have "type_claim typ \<noteq> ''flow''" by (cases "typ") (simp_all add: type_claim_def)
  ultimately show ?thesis using dec f by (auto simp: verifySession_def verifyFlow_def)
qed

text \<open>A codec on one payload: bodies are the letters \<open>h\<close> and \<open>b\<close>, the signature is the text with its
  dots replaced.\<close>

definition demo_payload :: "(string \<times> json) list" where
  "demo_payload = session_payload ''u1'' ''u1@x'' AT 1000 900 ''j''"

definition demo_codec :: codec where
  "demo_codec = \<lparr>cd_body = (\<lambda>j. if j = jwt_header then ''h'' else ''b''),
     cd_read = (\<lambda>s. if s = ''b'' then Some (JObj demo_payload) else None),
     cd_sign = (\<lambda>k s. k @ filter (\<lambda>c. c \<noteq> CHR ''.'') s), cd_digest = (\<lambda>s. s)\<rparr>"

lemma demo_token:
  "mintSession demo_codec ''u1'' ''u1@x'' AT (Some ''k'') 1000000 None ''j'' = Some ''h.b.khb''"
  by (simp add: mintSession_def encodeJwt_def demo_codec_def jwt_header_def session_payload_def Let_def)

theorem session_roundtrip_witness:
  "verifySession demo_codec (Some ''h.b.khb'') AT (Some ''k'') 1899999 = Inr demo_payload
   \<and> verifySession demo_codec (Some ''h.b.khb'') RT (Some ''k'') 1899999 = Inl WrongType
   \<and> verifySession demo_codec (Some ''h.b.khb'') AT (Some ''k'') 1900000 = Inl Expired"
proof -
  have h: "CHR ''.'' \<notin> set (cd_body demo_codec jwt_header)" "CHR ''.'' \<notin> set (cd_body demo_codec p)"
    "CHR ''.'' \<notin> set (cd_sign demo_codec ''k'' s)" for p s
    by (simp_all add: demo_codec_def)
  have r: "cd_read demo_codec (cd_body demo_codec (JObj demo_payload)) = Some (JObj demo_payload)"
    by (simp add: demo_codec_def jwt_header_def demo_payload_def session_payload_def)
  have p: "demo_payload = session_payload ''u1'' ''u1@x'' AT (1000000 div 1000) 900 ''j''"
    by (simp add: demo_payload_def)
  have l: "(900 :: int) = (case None of Some n \<Rightarrow> n | None \<Rightarrow> ttlFor AT)"
    by (simp add: ttlFor_def AT_TTL_SEC_def)
  note rt = session_roundtrip [OF demo_token h(1) h(2) h(3) r p l]
  show ?thesis using rt [of AT 1899999] rt [of RT 1899999] rt [of AT 1900000] by auto
qed

theorem session_accepted_witness:
  "\<exists>head body sig. Some ''h.b.khb'' = Some (head @ ''.'' @ body @ ''.'' @ sig)
     \<and> cd_digest demo_codec (cd_sign demo_codec ''k'' (head @ ''.'' @ body)) = cd_digest demo_codec sig"
proof -
  have "verifySession demo_codec (Some ''h.b.khb'') AT (Some ''k'') 0 = Inr demo_payload"
    by (simp add: verifySession_def decodeJwt_def demo_codec_def timingSafeStringEqual_def
        demo_payload_def session_payload_def jfield_def type_claim_def)
  from session_accepted [OF this] show ?thesis by auto
qed

section \<open>Role files\<close>

text \<open>The panel's view of its role file over time: each call sees some state of the file.\<close>

fun role_calls :: "string \<Rightarrow> role_config \<Rightarrow> role_file list \<Rightarrow> role_cache option
    \<Rightarrow> (role_error + role_config) list \<times> role_cache option" where
  "role_calls p envLists [] cached = ([], cached)"
| "role_calls p envLists (f # fs) cached =
     (case loadRoleConfig (Some p) envLists f cached of
        (r, cached') \<Rightarrow> (case role_calls p envLists fs cached' of (rs, c) \<Rightarrow> (r # rs, c)))"

lemma load_keeps:
  assumes "cached = Some k" "ca_path k = p" "loadRoleConfig (Some p) envLists f cached = (r, cached')"
  shows "\<exists>cfg k'. r = Inr cfg \<and> cached' = Some k' \<and> ca_path k' = p \<and> ca_cfg k' = cfg
     \<and> (cfg = ca_cfg k \<or> parseRoleConfig (rf_yaml f) = Inr cfg)"
  using assms by (auto simp: loadRoleConfig_def Let_def split: option.splits if_splits sum.splits)

text \<open>Once a role file has loaded, no later state of it locks the operators out: whatever happens to
  the file (a bad edit, a deletion), every call succeeds, with the contents of a valid file that was
  seen, and the first invalid state keeps the last good configuration.\<close>

theorem last_good_roles_kept:
  assumes "loadRoleConfig (Some p) envLists f None = (Inr cfg, cached)"
    and "role_calls p envLists fs cached = (rs, c)"
  shows "list_all (\<lambda>r. \<exists>g. r = Inr g \<and> (g = cfg \<or> list_ex (\<lambda>f'. parseRoleConfig (rf_yaml f') = Inr g) fs)) rs
     \<and> length rs = length fs"
proof -
  have gen: "role_calls p envLists fs (Some k) = (rs, c) \<Longrightarrow> ca_path k = p \<Longrightarrow>
      length rs = length fs \<and> (\<forall>r \<in> set rs. \<exists>g. r = Inr g
        \<and> (g = ca_cfg k \<or> (\<exists>f' \<in> set fs. parseRoleConfig (rf_yaml f') = Inr g)))" for k fs rs
  proof (induction fs arbitrary: k rs)
    case (Cons f' fs)
    obtain r cached' where ld: "loadRoleConfig (Some p) envLists f' (Some k) = (r, cached')" by fastforce
    obtain g k' where g: "r = Inr g" "cached' = Some k'" "ca_path k' = p" "ca_cfg k' = g"
      "g = ca_cfg k \<or> parseRoleConfig (rf_yaml f') = Inr g"
      using load_keeps [OF refl Cons.prems(2) ld] by blast
    obtain rs' where rs': "role_calls p envLists fs (Some k') = (rs', c)" "rs = r # rs'"
      using Cons.prems(1) ld g(2) by (auto split: prod.splits)
    from Cons.IH [OF rs'(1) g(3)] rs'(2) g show ?case by auto
  qed simp
  obtain k where "cached = Some k" "ca_path k = p" "ca_cfg k = cfg"
    using assms(1) by (auto simp: loadRoleConfig_def split: option.splits sum.splits)
  with gen [of fs k rs] assms(2) show ?thesis by (auto simp: list_all_iff list_ex_iff)
qed

definition good_file :: role_file where
  "good_file = \<lparr>rf_mtime = Some 1, rf_yaml = Some (JObj [(''superadmin'', JArr [JStr ''a@x''])])\<rparr>"

definition bad_file :: role_file where
  "bad_file = \<lparr>rf_mtime = Some 2, rf_yaml = Some (JObj [(''superadmin'', JStr ''a@x'')])\<rparr>"

theorem last_good_roles_kept_witness:
  "fst (role_calls ''p'' \<lparr>rc_superadmin = [], rc_operator = []\<rparr> [bad_file]
      (Some \<lparr>ca_mtime = 1, ca_path = ''p'', ca_cfg = \<lparr>rc_superadmin = [''a@x''], rc_operator = []\<rparr>\<rparr>))
     = [Inr \<lparr>rc_superadmin = [''a@x''], rc_operator = []\<rparr>]"
proof -
  let ?env = "\<lparr>rc_superadmin = [], rc_operator = []\<rparr>"
  let ?cfg = "\<lparr>rc_superadmin = [''a@x''], rc_operator = []\<rparr>"
  let ?k = "Some \<lparr>ca_mtime = 1, ca_path = ''p'', ca_cfg = ?cfg\<rparr>"
  have ld: "loadRoleConfig (Some ''p'') ?env good_file None = (Inr ?cfg, ?k)"
    by code_simp
  obtain rs c where rc: "role_calls ''p'' ?env [bad_file] ?k = (rs, c)" by fastforce
  have "parseRoleConfig (rf_yaml bad_file) = Inl (NotAList ''superadmin'')" by code_simp
  with last_good_roles_kept [OF ld rc] show ?thesis by (cases rs) (auto simp: rc simp del: role_calls.simps)
qed

end
