(* ===== verification/ProactiveSoul.thy ===== *)
theory ProactiveSoul
  imports Prelude "HOL-Library.AList" "HOL-Library.List_Lexorder" "HOL-Library.Char_ord" Complex_Main
begin

text \<open>
  The proactiveness switch of a persona, as its SOUL text states it: the line machine of
  \<^verbatim>\<open>src/soul/proactive.ts\<close> with its fences, headings and settings, what is resolved for one
  audience, and the level order of \<^verbatim>\<open>src/proactive/levels.ts\<close>. Numbers of a setting are exact
  (the runtime's are, for whole numbers below 2 to the 53), and of the three dashes of a window only
  the hyphen is an 8-bit code unit.
\<close>

section \<open>Levels\<close>

datatype level = Ignore | Inform | Ask | Act

definition LEVELS :: "(string \<times> level) list" where
  "LEVELS = [(''ignore'', Ignore), (''inform'', Inform), (''ask'', Ask), (''act'', Act)]"

fun levelRank :: "level \<Rightarrow> nat" where
  "levelRank Ignore = 0" | "levelRank Inform = 1" | "levelRank Ask = 2" | "levelRank Act = 3"

definition minLevel :: "level \<Rightarrow> level \<Rightarrow> level" where
  "minLevel a b = (if levelRank a \<le> levelRank b then a else b)"

definition parseLevel :: "string \<Rightarrow> level option" where
  "parseLevel s = map_of LEVELS (js_lower (js_trim s))"

text \<open>The levels are linearly ordered by their rank, and the lower of two is their minimum.\<close>

instantiation level :: linorder
begin

definition less_eq_level :: "level \<Rightarrow> level \<Rightarrow> bool" where
  "less_eq_level a b \<longleftrightarrow> levelRank a \<le> levelRank b"

definition less_level :: "level \<Rightarrow> level \<Rightarrow> bool" where
  "less_level a b \<longleftrightarrow> levelRank a < levelRank b"

instance
proof
  show "a = b" if "a \<le> b" "b \<le> a" for a b :: level
    using that by (cases a; cases b) (simp_all add: less_eq_level_def)
qed (auto simp: less_eq_level_def less_level_def)

end

lemma minLevel_min: "minLevel a b = min a b"
  by (simp add: minLevel_def min_def less_eq_level_def)

section \<open>Values of settings\<close>

record quiet_hours =
  qh_start :: int
  qh_end :: int

text \<open>\<open>^\s*(\d{1,2}):(\d{2})\s*$\<close>.\<close>

definition parseClock :: "string \<Rightarrow> int option" where
  "parseClock s =
     (case split_on CHR '':'' (js_trim s) of
        [h, m] \<Rightarrow>
          if (length h = 1 \<or> length h = 2) \<and> length m = 2 \<and> list_all is_digit (h @ m)
             \<and> dec_val h \<le> 23 \<and> dec_val m \<le> 59
          then Some (int (dec_val h) * 60 + int (dec_val m)) else None
      | _ \<Rightarrow> None)"

definition parseWindow :: "string \<Rightarrow> quiet_hours option" where
  "parseWindow s =
     (case split_on CHR ''-'' s of
        [a, b] \<Rightarrow>
          (case (parseClock a, parseClock b) of
             (Some st, Some en) \<Rightarrow> Some \<lparr>qh_start = st, qh_end = en\<rparr>
           | _ \<Rightarrow> None)
      | _ \<Rightarrow> None)"

definition inWindow :: "int \<Rightarrow> quiet_hours \<Rightarrow> bool" where
  "inWindow minutes w =
     (if qh_start w = qh_end w then False
      else if qh_start w < qh_end w then minutes \<ge> qh_start w \<and> minutes < qh_end w
      else minutes \<ge> qh_start w \<or> minutes < qh_end w)"

definition CHANNEL_ID :: "string \<Rightarrow> bool" where
  "CHANNEL_ID s \<longleftrightarrow> length s \<ge> 2 \<and> hd s \<in> {CHR ''C'', CHR ''G'', CHR ''D''}
     \<and> list_all (\<lambda>c. is_upper c \<or> is_digit c) (tl s)"

text \<open>\<open><#([A-Za-z0-9]+)(?:\|[^>]*)?>|([A-Za-z0-9]+)\<close>: the id, and what follows the match.\<close>

definition channel_ref :: "string \<Rightarrow> (string \<times> string) option" where
  "channel_ref s =
     (if starts_with s ''<#'' then
        (let i = takeWhile is_alnum (drop 2 s) in
         if i = [] then None
         else case drop (2 + length i) s of
                [] \<Rightarrow> None
              | c # r \<Rightarrow>
                  if c = CHR ''>'' then Some (i, r)
                  else if c = CHR ''|'' \<and> CHR ''>'' \<in> set r
                  then Some (i, tl (dropWhile (\<lambda>x. x \<noteq> CHR ''>'') r))
                  else None)
      else (let i = takeWhile is_alnum s in if i = [] then None else Some (i, drop (length i) s)))"

text \<open>The text of a \<open>##\<close> or \<open>###\<close> heading after its white space.\<close>

definition heading_text :: "nat \<Rightarrow> string \<Rightarrow> string option" where
  "heading_text n line =
     (if starts_with line (replicate n CHR ''#'') \<and> length line > n \<and> is_space (line ! n)
      then Some (dropWhile is_space (drop n line)) else None)"

definition heading_is :: "nat \<Rightarrow> string \<Rightarrow> string \<Rightarrow> bool" where
  "heading_is n name line \<longleftrightarrow> map_option js_lower (heading_text n (js_trim line)) = Some name"

definition channelOf :: "string \<Rightarrow> string option" where
  "channelOf heading =
     (case heading_text 2 (js_trim heading) of
        None \<Rightarrow> None
      | Some t \<Rightarrow>
          if js_lower (take 7 t) = ''channel'' \<and> length t > 7 \<and> is_space (t ! 7)
          then (case channel_ref (dropWhile is_space (drop 7 t)) of
                  Some (i, _) \<Rightarrow> if CHANNEL_ID i then Some i else None
                | None \<Rightarrow> None)
          else None)"

text \<open>\<open>^##\s+channel\b\<close>: the word ends there.\<close>

definition channel_heading :: "string \<Rightarrow> bool" where
  "channel_heading line \<longleftrightarrow>
     (case heading_text 2 line of
        None \<Rightarrow> False
      | Some t \<Rightarrow> js_lower (take 7 t) = ''channel''
          \<and> \<not> (length t > 7 \<and> (is_alnum (t ! 7) \<or> t ! 7 = CHR ''_'')))"

text \<open>\<open>replace(/\s+#.*$/, "")\<close>, up to white space at the end.\<close>

fun cut_comment :: "string \<Rightarrow> string" where
  "cut_comment (a # b # s) =
     (if is_space a \<and> b = CHR ''#'' then [] else a # cut_comment (b # s))"
| "cut_comment s = s"

text \<open>\<open>^\s*[-*]\s*([^:]+):\s*(.*)$\<close>; a dot does not match a carriage return or a line feed.\<close>

definition keyValue :: "string \<Rightarrow> (string \<times> string) option" where
  "keyValue line =
     (case dropWhile is_space line of
        [] \<Rightarrow> None
      | b # t \<Rightarrow>
          let k = takeWhile (\<lambda>c. c \<noteq> CHR '':'') t;
              v = dropWhile is_space (drop (length k + 1) t)
          in if (b = CHR ''-'' \<or> b = CHR ''*'') \<and> k \<noteq> [] \<and> length k < length t
                \<and> list_all (\<lambda>c. code_of c \<noteq> 10 \<and> code_of c \<noteq> 13) v
             then Some (js_lower (js_trim k), js_trim (cut_comment v)) else None)"

definition parseChannelList :: "string \<Rightarrow> string list" where
  "parseChannelList value =
     filter CHANNEL_ID
       (map (\<lambda>v. case channel_ref (dropWhile is_space v) of
                   Some (i, rest) \<Rightarrow> if list_all is_space rest then i else []
                 | None \<Rightarrow> [])
         (split_on CHR '','' value))"

definition parseCap :: "string \<Rightarrow> nat option" where
  "parseCap value = (if value \<noteq> [] \<and> list_all is_digit value \<and> dec_val value > 0
     then Some (dec_val value) else None)"

text \<open>\<open>^(\d+(?:\.\d+)?)\s*(?:h|hours?)?$\<close>.\<close>

definition parseCooldown :: "string \<Rightarrow> rat option" where
  "parseCooldown value =
     (let w = takeWhile is_digit value;
          r = drop (length w) value;
          f = (if r \<noteq> [] \<and> hd r = CHR ''.'' then takeWhile is_digit (tl r) else []);
          r' = (if f = [] then r else drop (length f + 1) r);
          unit = js_lower (dropWhile is_space r')
      in if w \<noteq> [] \<and> unit \<in> {[], ''h'', ''hour'', ''hours''}
         then Some (of_nat (dec_val w) + of_nat (dec_val f) / 10 ^ length f) else None)"

section \<open>The settings\<close>

record proactive_config =
  pc_enabled :: bool
  pc_quietHours :: "quiet_hours option"
  pc_maxPerDay :: nat
  pc_cooldownHours :: rat
  pc_watch :: "string list"
  pc_highest :: level
  pc_wake :: bool
  pc_read :: "string list"
  pc_channels :: "(string \<times> bool) list"
  pc_channelHighest :: "(string \<times> level) list"
  pc_channelCooldown :: "(string \<times> rat) list"
  pc_channelMax :: "(string \<times> nat) list"

definition DEFAULT_MAX_PER_PERSON_PER_DAY :: nat where "DEFAULT_MAX_PER_PERSON_PER_DAY = 6"
definition DEFAULT_COOLDOWN_HOURS :: rat where "DEFAULT_COOLDOWN_HOURS = 1"

definition default_config :: proactive_config where
  "default_config = \<lparr>pc_enabled = False, pc_quietHours = None,
     pc_maxPerDay = DEFAULT_MAX_PER_PERSON_PER_DAY, pc_cooldownHours = DEFAULT_COOLDOWN_HOURS,
     pc_watch = [], pc_highest = Act, pc_wake = True, pc_read = [], pc_channels = [],
     pc_channelHighest = [], pc_channelCooldown = [], pc_channelMax = []\<rparr>"

definition yes :: "string \<Rightarrow> bool" where "yes v \<longleftrightarrow> js_lower v = ''yes''"

definition words_of_list :: "string \<Rightarrow> string list" where
  "words_of_list v = filter (\<lambda>w. w \<noteq> []) (map js_trim (split_on CHR '','' v))"

text \<open>A setting of the global section.\<close>

definition set_global :: "string \<Rightarrow> string \<Rightarrow> proactive_config \<Rightarrow> proactive_config" where
  "set_global key v c =
     (if key = ''enabled'' then c\<lparr>pc_enabled := yes v\<rparr>
      else if key = ''wake'' then c\<lparr>pc_wake := yes v\<rparr>
      else if key = ''read'' then c\<lparr>pc_read := parseChannelList v\<rparr>
      else if key = ''watch'' then c\<lparr>pc_watch := words_of_list v\<rparr>
      else if key = ''highest'' then
        c\<lparr>pc_highest := (case parseLevel v of Some l \<Rightarrow> l | None \<Rightarrow> pc_highest c)\<rparr>
      else if key = ''quiet hours'' then c\<lparr>pc_quietHours := parseWindow v\<rparr>
      else if key = ''max per person per day'' \<or> key = ''max per day'' then
        (case parseCap v of Some n \<Rightarrow> c\<lparr>pc_maxPerDay := n\<rparr> | None \<Rightarrow> c)
      else if key = ''cooldown'' then
        (case parseCooldown v of Some h \<Rightarrow> c\<lparr>pc_cooldownHours := h\<rparr> | None \<Rightarrow> c)
      else c)"

text \<open>A setting of a channel's own section.\<close>

definition set_channel :: "string \<Rightarrow> string \<Rightarrow> string \<Rightarrow> proactive_config \<Rightarrow> proactive_config" where
  "set_channel ch key v c =
     (if key = ''enabled'' then c\<lparr>pc_channels := AList.update ch (yes v) (pc_channels c)\<rparr>
      else if key = ''highest'' then
        (case parseLevel v of
           Some l \<Rightarrow> c\<lparr>pc_channelHighest := AList.update ch l (pc_channelHighest c)\<rparr> | None \<Rightarrow> c)
      else if key = ''cooldown'' then
        (case parseCooldown v of
           Some h \<Rightarrow> c\<lparr>pc_channelCooldown := AList.update ch h (pc_channelCooldown c)\<rparr> | None \<Rightarrow> c)
      else if key = ''max per day'' \<or> key = ''max per person per day'' then
        (case parseCap v of
           Some n \<Rightarrow> c\<lparr>pc_channelMax := AList.update ch n (pc_channelMax c)\<rparr> | None \<Rightarrow> c)
      else c)"

section \<open>The line machine\<close>

datatype where_in = Elsewhere | GlobalSection | ChannelSection string bool

record soul_scan =
  sc_where :: where_in
  sc_fenced :: bool
  sc_config :: proactive_config

definition is_fence :: "string \<Rightarrow> bool" where
  "is_fence line \<longleftrightarrow> starts_with (dropWhile is_space line) (replicate 3 (CHR 0x60))
     \<or> starts_with (dropWhile is_space line) ''~~~''"

definition is_heading :: "nat \<Rightarrow> string \<Rightarrow> bool" where
  "is_heading n line \<longleftrightarrow> heading_text n line \<noteq> None"

definition section_at :: "string \<Rightarrow> where_in" where
  "section_at line =
     (if heading_is 2 ''proactive'' line then GlobalSection
      else case (if channel_heading line then channelOf line else None) of
             Some i \<Rightarrow> ChannelSection i False
           | None \<Rightarrow> Elsewhere)"

definition subsection_at :: "string \<Rightarrow> where_in \<Rightarrow> where_in" where
  "subsection_at line wh =
     (case wh of ChannelSection i _ \<Rightarrow> ChannelSection i (heading_is 3 ''proactive'' line)
      | _ \<Rightarrow> Elsewhere)"

definition set_line :: "where_in \<Rightarrow> string \<Rightarrow> proactive_config \<Rightarrow> proactive_config" where
  "set_line wh line c =
     (case keyValue line of
        None \<Rightarrow> c
      | Some (key, v) \<Rightarrow>
          (case wh of
             Elsewhere \<Rightarrow> c
           | GlobalSection \<Rightarrow> set_global key v c
           | ChannelSection i inP \<Rightarrow> if inP then set_channel i key v c else c))"

definition scan_line :: "soul_scan \<Rightarrow> string \<Rightarrow> soul_scan" where
  "scan_line s line =
     (if is_fence line then s\<lparr>sc_fenced := \<not> sc_fenced s\<rparr>
      else if sc_fenced s then s
      else if is_heading 1 line then s\<lparr>sc_where := Elsewhere\<rparr>
      else if is_heading 2 line then s\<lparr>sc_where := section_at line\<rparr>
      else if is_heading 3 line then s\<lparr>sc_where := subsection_at line (sc_where s)\<rparr>
      else s\<lparr>sc_config := set_line (sc_where s) line (sc_config s)\<rparr>)"

text \<open>\<open>text.split(/\r?\n/)\<close>.\<close>

definition drop_cr :: "string \<Rightarrow> string" where
  "drop_cr l = (if l \<noteq> [] \<and> code_of (last l) = 13 then butlast l else l)"

definition split_lines :: "string \<Rightarrow> string list" where
  "split_lines t = (let ps = split_on (CHR 0x0A) t in map drop_cr (butlast ps) @ [last ps])"

definition parseProactive :: "string \<Rightarrow> proactive_config" where
  "parseProactive t =
     sc_config (foldl scan_line \<lparr>sc_where = Elsewhere, sc_fenced = False, sc_config = default_config\<rparr>
       (split_lines t))"

section \<open>The switch of a persona\<close>

text \<open>\<open>soulSource\<close> gives a persona's text, or throws; \<open>memo\<close> holds parsed configurations by the
  text's hash.\<close>

type_synonym memo = "(string \<times> proactive_config) list"

definition configFor :: "(string \<Rightarrow> string) \<Rightarrow> (string option \<Rightarrow> string option) \<Rightarrow> string \<Rightarrow> memo
    \<Rightarrow> proactive_config option \<times> memo" where
  "configFor sha256 soulSource persona memo =
     (case soulSource (if persona = ''default'' then None else Some persona) of
        None \<Rightarrow> (None, memo)
      | Some t \<Rightarrow>
          (let key = sha256 t in
           case map_of memo key of
             Some c \<Rightarrow> (Some c, memo)
           | None \<Rightarrow>
               (let c = parseProactive t in
                (Some c, AList.update key c (if length memo > 64 then [] else memo)))))"

record resolved =
  rs_enabled :: bool
  rs_quietHours :: "quiet_hours option"
  rs_maxPerDay :: nat
  rs_cooldownHours :: rat
  rs_watch :: "string list"
  rs_highest :: level

definition DISABLED :: resolved where
  "DISABLED = \<lparr>rs_enabled = False, rs_quietHours = None, rs_maxPerDay = DEFAULT_MAX_PER_PERSON_PER_DAY,
     rs_cooldownHours = DEFAULT_COOLDOWN_HOURS, rs_watch = [], rs_highest = Inform\<rparr>"

definition own_or :: "(string \<times> 'a) list \<Rightarrow> string \<Rightarrow> 'a \<Rightarrow> 'a" where
  "own_or xs ch d = (case map_of xs ch of Some v \<Rightarrow> v | None \<Rightarrow> d)"

definition global_of :: "proactive_config \<Rightarrow> resolved" where
  "global_of c = \<lparr>rs_enabled = pc_enabled c, rs_quietHours = pc_quietHours c, rs_maxPerDay = pc_maxPerDay c,
     rs_cooldownHours = pc_cooldownHours c, rs_watch = pc_watch c, rs_highest = pc_highest c\<rparr>"

text \<open>The operations below take the configuration that \<open>configFor\<close> gave.\<close>

definition proactiveFor :: "proactive_config option \<Rightarrow> string option \<Rightarrow> resolved" where
  "proactiveFor conf channelId =
     (case conf of
        None \<Rightarrow> DISABLED
      | Some c \<Rightarrow>
          (case channelId of
             None \<Rightarrow> global_of c
           | Some ch \<Rightarrow> (global_of c)\<lparr>rs_enabled := own_or (pc_channels c) ch (pc_enabled c),
               rs_highest := own_or (pc_channelHighest c) ch (pc_highest c),
               rs_cooldownHours := own_or (pc_channelCooldown c) ch (pc_cooldownHours c),
               rs_maxPerDay := own_or (pc_channelMax c) ch (pc_maxPerDay c)\<rparr>))"

definition on_channels :: "proactive_config \<Rightarrow> string list" where
  "on_channels c = map fst (filter snd (pc_channels c))"

definition proactiveChannels :: "proactive_config option \<Rightarrow> string list" where
  "proactiveChannels conf = (case conf of None \<Rightarrow> [] | Some c \<Rightarrow> sort (on_channels c))"

definition proactiveRead :: "proactive_config option \<Rightarrow> string list" where
  "proactiveRead conf =
     (case conf of None \<Rightarrow> [] | Some c \<Rightarrow> fresh_by (\<lambda>i. i) [] (pc_read c @ proactiveChannels conf))"

definition anyProactiveEnabled :: "proactive_config option \<Rightarrow> bool" where
  "anyProactiveEnabled conf =
     (case conf of None \<Rightarrow> False | Some c \<Rightarrow> pc_enabled c \<or> list_ex snd (pc_channels c))"

datatype wake_refusal = NoManager | NoActDestination | NotWanted

definition wakeEligibility :: "proactive_config option \<Rightarrow> string option \<Rightarrow> wake_refusal + unit" where
  "wakeEligibility conf managerId =
     (case conf of
        None \<Rightarrow> Inl NotWanted
      | Some c \<Rightarrow>
          if \<not> pc_wake c \<or> \<not> (pc_enabled c \<or> list_ex snd (pc_channels c)) then Inl NotWanted
          else if \<not> truthy managerId then Inl NoManager
          else if pc_enabled c \<and> pc_highest c = Act
                  \<or> list_ex (\<lambda>(i, on). on \<and> own_or (pc_channelHighest c) i (pc_highest c) = Act) (pc_channels c)
          then Inr () else Inl NoActDestination)"

section \<open>The manager and the mandates\<close>

text \<open>\<open>^(?:<@)?([UW][A-Z0-9]+)(?:\|[^>]*)?>?$\<close>.\<close>

definition manager_ref :: "string \<Rightarrow> string option" where
  "manager_ref v =
     (let s = (if starts_with v ''<@'' then drop 2 v else v);
          i = takeWhile (\<lambda>c. is_upper c \<or> is_digit c) s;
          rest = drop (length i) s;
          rest' = (if rest \<noteq> [] \<and> hd rest = CHR ''|'' then dropWhile (\<lambda>c. c \<noteq> CHR ''>'') rest else rest)
      in if length i \<ge> 2 \<and> hd i \<in> {CHR ''U'', CHR ''W''} \<and> (rest' = [] \<or> rest' = ''>'')
         then Some i else None)"

fun find_manager :: "bool \<Rightarrow> bool \<Rightarrow> string list \<Rightarrow> string option" where
  "find_manager inReporting fenced [] = None"
| "find_manager inReporting fenced (line # ls) =
     (if is_fence line then find_manager inReporting (\<not> fenced) ls
      else if fenced then find_manager inReporting fenced ls
      else if is_heading 1 line \<or> is_heading 2 line
      then find_manager (heading_is 2 ''reporting'' line) fenced ls
      else if \<not> inReporting then find_manager inReporting fenced ls
      else (case keyValue line of
              Some (key, v) \<Rightarrow>
                if key = ''manager'' then manager_ref v else find_manager inReporting fenced ls
            | None \<Rightarrow> find_manager inReporting fenced ls))"

definition parseManager :: "string \<Rightarrow> string option" where
  "parseManager t = find_manager False False (split_lines t)"

datatype mandate_target = NoTarget | GlobalTarget | ChannelTarget string

record mandate_scan =
  ms_global :: "string list"
  ms_channels :: "(string \<times> string list) list"
  ms_target :: mandate_target
  ms_channel :: "string option"
  ms_fenced :: bool

definition mandate_body :: "string \<Rightarrow> string" where
  "mandate_body line =
     (let t = js_trim line in
      if length t \<ge> 2 \<and> (hd t = CHR ''-'' \<or> hd t = CHR ''*'') \<and> is_space (t ! 1)
      then dropWhile is_space (tl t) else t)"

definition open_channel :: "string \<Rightarrow> mandate_scan \<Rightarrow> mandate_scan" where
  "open_channel c s =
     s\<lparr>ms_target := ChannelTarget c,
       ms_channels := (if map_of (ms_channels s) c = None then ms_channels s @ [(c, [])] else ms_channels s)\<rparr>"

definition push_body :: "string \<Rightarrow> mandate_scan \<Rightarrow> mandate_scan" where
  "push_body b s =
     (case ms_target s of
        NoTarget \<Rightarrow> s
      | GlobalTarget \<Rightarrow> if b = [] then s else s\<lparr>ms_global := ms_global s @ [b]\<rparr>
      | ChannelTarget c \<Rightarrow>
          if b = [] then s
          else s\<lparr>ms_channels := map (\<lambda>(i, bs). (i, if i = c then bs @ [b] else bs)) (ms_channels s)\<rparr>)"

definition mandate_line :: "mandate_scan \<Rightarrow> string \<Rightarrow> mandate_scan" where
  "mandate_line s line =
     (if is_fence line then s\<lparr>ms_fenced := \<not> ms_fenced s\<rparr>
      else if ms_fenced s then s
      else if is_heading 2 line then
        s\<lparr>ms_channel := (if channel_heading line then channelOf line else None),
          ms_target := (if heading_is 2 ''mandate'' line then GlobalTarget else NoTarget)\<rparr>
      else if is_heading 1 line then s\<lparr>ms_channel := None, ms_target := NoTarget\<rparr>
      else if is_heading 3 line then
        (case (ms_channel s, heading_is 3 ''mandate'' line) of
           (Some c, True) \<Rightarrow> open_channel c s
         | _ \<Rightarrow> s\<lparr>ms_target := NoTarget\<rparr>)
      else push_body (mandate_body line) s)"

fun join_words :: "string list \<Rightarrow> string" where
  "join_words ws = join_with CHR '' '' ws"

definition parseMandates :: "string \<Rightarrow> string \<times> (string \<times> string) list" where
  "parseMandates t =
     (let s = foldl mandate_line \<lparr>ms_global = [], ms_channels = [], ms_target = NoTarget, ms_channel = None,
                ms_fenced = False\<rparr> (split_lines t)
      in (join_words (ms_global s), map (\<lambda>(i, bs). (i, join_words bs)) (ms_channels s)))"

end
