(* ===== verification/ProactiveSoulFacts.thy ===== *)
theory ProactiveSoulFacts
  imports ProactiveSoul
begin

text \<open>
  What the line machine of \<^verbatim>\<open>ProactiveSoul\<close> reads, stated without the machine: which unfenced line
  decides a switch is a matter of the headings above it.
\<close>

section \<open>The lines that count\<close>

text \<open>The lines outside fences, without the fences.\<close>

fun visible :: "bool \<Rightarrow> string list \<Rightarrow> string list" where
  "visible fenced [] = []"
| "visible fenced (l # ls) =
     (if is_fence l then visible (\<not> fenced) ls
      else if fenced then visible fenced ls else l # visible fenced ls)"

definition any_heading :: "string \<Rightarrow> bool" where
  "any_heading l \<longleftrightarrow> is_heading 1 l \<or> is_heading 2 l \<or> is_heading 3 l"

definition top_heading :: "string \<Rightarrow> bool" where
  "top_heading l \<longleftrightarrow> is_heading 1 l \<or> is_heading 2 l"

text \<open>The nearest line above that is \<open>P\<close> is also \<open>Q\<close>.\<close>

definition nearest :: "('a \<Rightarrow> bool) \<Rightarrow> ('a \<Rightarrow> bool) \<Rightarrow> 'a list \<Rightarrow> bool" where
  "nearest P Q ls = (case filter P (rev ls) of [] \<Rightarrow> False | h # _ \<Rightarrow> Q h)"

text \<open>Below \<open>## Proactive\<close> with no other heading between; and below a \<open>### Proactive\<close> that is the
  nearest heading, inside the block of \<open>## Channel\<close> \<open>ch\<close>.\<close>

definition in_global :: "string list \<Rightarrow> bool" where
  "in_global ls \<longleftrightarrow> nearest any_heading (\<lambda>h. is_heading 2 h \<and> section_at h = GlobalSection) ls"

definition under_channel :: "string \<Rightarrow> string list \<Rightarrow> bool" where
  "under_channel ch ls \<longleftrightarrow>
     nearest top_heading (\<lambda>h. is_heading 2 h \<and> section_at h = ChannelSection ch False) ls"

definition in_channel :: "string \<Rightarrow> string list \<Rightarrow> bool" where
  "in_channel ch ls \<longleftrightarrow> under_channel ch ls
     \<and> nearest any_heading (\<lambda>h. is_heading 3 h \<and> heading_is 3 ''proactive'' h) ls"

text \<open>The value of the last \<open>key\<close> line whose lines above satisfy \<open>sec\<close>.\<close>

definition values_at :: "(string list \<Rightarrow> bool) \<Rightarrow> string \<Rightarrow> string list \<Rightarrow> string list" where
  "values_at sec key ls =
     List.map_filter (\<lambda>i. case keyValue (ls ! i) of
         Some (k, v) \<Rightarrow> if k = key \<and> sec (take i ls) then Some v else None
       | None \<Rightarrow> None) [0..<length ls]"

definition last_value :: "(string list \<Rightarrow> bool) \<Rightarrow> string \<Rightarrow> string list \<Rightarrow> string option" where
  "last_value sec key ls =
     (let vs = values_at sec key ls in if vs = [] then None else Some (last vs))"

lemma nearest_snoc: "nearest P Q (ls @ [l]) = (if P l then Q l else nearest P Q ls)"
  by (simp add: nearest_def)

lemma nearest_Nil [simp]: "\<not> nearest P Q []"
  by (simp add: nearest_def)

lemma map_filter_cong: "(\<And>x. x \<in> set xs \<Longrightarrow> f x = g x) \<Longrightarrow> List.map_filter f xs = List.map_filter g xs"
  by (simp add: List.map_filter_def cong: filter_cong map_cong)

lemma map_filter_append: "List.map_filter f (xs @ ys) = List.map_filter f xs @ List.map_filter f ys"
  by (simp add: List.map_filter_def)

lemma values_at_snoc:
  "values_at sec key (ls @ [l]) = values_at sec key ls @
     (case keyValue l of Some (k, v) \<Rightarrow> if k = key \<and> sec ls then [v] else [] | None \<Rightarrow> [])"
proof -
  have old: "List.map_filter (\<lambda>i. case keyValue ((ls @ [l]) ! i) of
         Some (k, v) \<Rightarrow> if k = key \<and> sec (take i (ls @ [l])) then Some v else None
       | None \<Rightarrow> None) [0..<length ls] = values_at sec key ls"
    unfolding values_at_def by (rule map_filter_cong) (simp add: nth_append split: option.split)
  have "[0..<length (ls @ [l])] = [0..<length ls] @ [length ls]" by simp
  then show ?thesis
    using old by (auto simp: values_at_def [of sec key "ls @ [l]"] map_filter_append List.map_filter_simps
        split: option.splits prod.splits)
qed

lemma last_value_snoc:
  "last_value sec key (ls @ [l]) =
     (case keyValue l of
        Some (k, v) \<Rightarrow> if k = key \<and> sec ls then Some v else last_value sec key ls
      | None \<Rightarrow> last_value sec key ls)"
  by (auto simp: last_value_def values_at_snoc Let_def split: option.splits)

lemma last_value_Nil [simp]: "last_value sec key [] = None"
  by (simp add: last_value_def values_at_def List.map_filter_simps)

section \<open>The machine reads the visible lines\<close>

definition scan_visible :: "soul_scan \<Rightarrow> string \<Rightarrow> soul_scan" where
  "scan_visible s line =
     (if is_heading 1 line then s\<lparr>sc_where := Elsewhere\<rparr>
      else if is_heading 2 line then s\<lparr>sc_where := section_at line\<rparr>
      else if is_heading 3 line then s\<lparr>sc_where := subsection_at line (sc_where s)\<rparr>
      else s\<lparr>sc_config := set_line (sc_where s) line (sc_config s)\<rparr>)"

lemma scan_visible_fenced [simp]: "sc_fenced (scan_visible s l) = sc_fenced s"
  by (simp add: scan_visible_def)

lemma scan_visible_set_fenced:
  "scan_visible (s\<lparr>sc_fenced := b\<rparr>) l = (scan_visible s l)\<lparr>sc_fenced := b\<rparr>"
  by (simp add: scan_visible_def)

lemma foldl_visible_set_fenced:
  "foldl scan_visible (s\<lparr>sc_fenced := b\<rparr>) ls = (foldl scan_visible s ls)\<lparr>sc_fenced := b\<rparr>"
  by (induction ls arbitrary: s) (simp_all add: scan_visible_set_fenced)

lemma scan_lines_visible:
  "sc_config (foldl scan_line s ls) = sc_config (foldl scan_visible s (visible (sc_fenced s) ls))"
proof (induction ls arbitrary: s)
  case (Cons l ls)
  show ?case
  proof (cases "is_fence l")
    case True
    then have "scan_line s l = s\<lparr>sc_fenced := \<not> sc_fenced s\<rparr>" by (simp add: scan_line_def)
    with True Cons show ?thesis by (simp add: foldl_visible_set_fenced)
  next
    case False
    then have "scan_line s l = (if sc_fenced s then s else scan_visible s l)"
      by (simp add: scan_line_def scan_visible_def)
    with False Cons show ?thesis by simp
  qed
qed simp

definition scan_from_start :: "string list \<Rightarrow> soul_scan" where
  "scan_from_start ls =
     foldl scan_visible \<lparr>sc_where = Elsewhere, sc_fenced = False, sc_config = default_config\<rparr> ls"

lemma scan_from_start_simps:
  "scan_from_start [] = \<lparr>sc_where = Elsewhere, sc_fenced = False, sc_config = default_config\<rparr>"
  "scan_from_start (ls @ [l]) = scan_visible (scan_from_start ls) l"
  by (simp_all add: scan_from_start_def)

abbreviation soul_lines :: "string \<Rightarrow> string list" where
  "soul_lines t \<equiv> visible False (split_lines t)"

lemma parse_scan: "parseProactive t = sc_config (scan_from_start (soul_lines t))"
  by (simp add: parseProactive_def scan_lines_visible scan_from_start_def)

lemma heading_levels:
  "is_heading 1 l \<Longrightarrow> \<not> is_heading 2 l" "is_heading 1 l \<Longrightarrow> \<not> is_heading 3 l"
  "is_heading 2 l \<Longrightarrow> \<not> is_heading 3 l"
  by (auto simp: is_heading_def heading_text_def prefix_def is_space_def numeral_eq_Suc nth_Cons
      split: if_splits nat.splits)

lemma heading_no_value: "any_heading l \<Longrightarrow> keyValue l = None"
proof -
  assume "any_heading l"
  then obtain r where "l = CHR ''#'' # r"
    by (auto simp: any_heading_def is_heading_def heading_text_def prefix_def numeral_eq_Suc split: if_splits)
  then show ?thesis by (simp add: keyValue_def is_space_def)
qed

lemma section_at_cases:
  "section_at l = Elsewhere \<or> section_at l = GlobalSection \<or> (\<exists>i. section_at l = ChannelSection i False)"
  by (auto simp: section_at_def split: option.split)

lemma scan_where:
  "(sc_where (scan_from_start ls) = GlobalSection \<longleftrightarrow> in_global ls)
   \<and> (\<forall>c. (\<exists>p. sc_where (scan_from_start ls) = ChannelSection c p) \<longleftrightarrow> under_channel c ls)
   \<and> (\<forall>c. sc_where (scan_from_start ls) = ChannelSection c True \<longleftrightarrow> in_channel c ls)"
proof (induction ls rule: rev_induct)
  case Nil
  show ?case by (simp add: scan_from_start_simps in_global_def under_channel_def in_channel_def)
next
  case (snoc l ls)
  let ?w = "sc_where (scan_from_start ls)"
  note defs = in_global_def under_channel_def in_channel_def nearest_snoc any_heading_def top_heading_def
  consider "is_heading 1 l" | "is_heading 2 l" | "is_heading 3 l" | "\<not> any_heading l"
    by (auto simp: any_heading_def)
  then show ?case
  proof cases
    case 1
    then show ?thesis by (simp add: scan_from_start_simps scan_visible_def defs heading_levels)
  next
    case 2
    then have "\<not> is_heading 1 l" "\<not> is_heading 3 l" using heading_levels by blast+
    with 2 section_at_cases [of l] show ?thesis
      by (auto simp: scan_from_start_simps scan_visible_def defs)
  next
    case 3
    then have h: "\<not> is_heading 1 l" "\<not> is_heading 2 l" using heading_levels by blast+
    then have "sc_where (scan_from_start (ls @ [l])) = subsection_at l ?w"
      using 3 by (simp add: scan_from_start_simps scan_visible_def)
    moreover have "in_global (ls @ [l]) = False" "under_channel c (ls @ [l]) = under_channel c ls"
      "in_channel c (ls @ [l]) \<longleftrightarrow> under_channel c ls \<and> heading_is 3 ''proactive'' l" for c
      using 3 h by (simp_all add: defs)
    ultimately show ?thesis using snoc.IH
      by (cases ?w) (auto simp: subsection_at_def)
  next
    case 4
    then show ?thesis using snoc.IH
      by (simp add: scan_from_start_simps scan_visible_def defs)
  qed
qed

lemma set_global_channels [simp]: "pc_channels (set_global k v c) = pc_channels c"
  by (auto simp: set_global_def split: option.splits)

lemma set_channel_enabled [simp]: "pc_enabled (set_channel ch k v c) = pc_enabled c"
  by (auto simp: set_channel_def split: option.splits)

lemma set_global_enabled: "pc_enabled (set_global k v c) = (if k = ''enabled'' then yes v else pc_enabled c)"
  by (auto simp: set_global_def split: option.splits)

lemma set_channel_channels:
  "pc_channels (set_channel ch k v c) =
     (if k = ''enabled'' then AList.update ch (yes v) (pc_channels c) else pc_channels c)"
  by (auto simp: set_channel_def split: option.splits)

lemma scan_switches:
  "pc_enabled (sc_config (scan_from_start ls)) =
     (case last_value in_global ''enabled'' ls of Some v \<Rightarrow> yes v | None \<Rightarrow> False)
   \<and> map_of (pc_channels (sc_config (scan_from_start ls))) c =
     map_option yes (last_value (in_channel c) ''enabled'' ls)"
proof (induction ls rule: rev_induct)
  case Nil
  show ?case by (simp add: scan_from_start_simps default_config_def)
next
  case (snoc l ls)
  let ?s = "scan_from_start ls"
  show ?case
  proof (cases "any_heading l")
    case True
    then have "sc_config (scan_from_start (ls @ [l])) = sc_config ?s"
      by (auto simp: scan_from_start_simps scan_visible_def any_heading_def)
    then show ?thesis using snoc.IH heading_no_value [OF True] by (simp add: last_value_snoc)
  next
    case False
    then have cfg: "sc_config (scan_from_start (ls @ [l])) = set_line (sc_where ?s) l (sc_config ?s)"
      by (simp add: scan_from_start_simps scan_visible_def any_heading_def)
    note wh = scan_where [of ls]
    show ?thesis
    proof (cases "keyValue l")
      case None
      then show ?thesis using snoc.IH cfg by (simp add: last_value_snoc set_line_def)
    next
      case (Some kv)
      obtain k v where kv: "kv = (k, v)" by fastforce
      show ?thesis
      proof (cases "sc_where ?s")
        case Elsewhere
        with wh have "\<not> in_global ls" "\<not> in_channel c ls" by auto
        with Elsewhere Some kv cfg snoc.IH show ?thesis by (simp add: last_value_snoc set_line_def)
      next
        case GlobalSection
        with wh have "in_global ls" "\<not> in_channel c ls" by auto
        with GlobalSection Some kv cfg snoc.IH show ?thesis
          by (simp add: last_value_snoc set_line_def set_global_enabled)
      next
        case (ChannelSection i p)
        with wh have "\<not> in_global ls" "in_channel c ls \<longleftrightarrow> c = i \<and> p" by auto
        with ChannelSection Some kv cfg snoc.IH show ?thesis
          by (auto simp: last_value_snoc set_line_def set_channel_channels update_conv')
      qed
    qed
  qed
qed

section \<open>The switch\<close>

text \<open>The memo holds what parsing a text with that hash gave.\<close>

definition memo_ok :: "(string \<Rightarrow> string) \<Rightarrow> memo \<Rightarrow> bool" where
  "memo_ok sha256 memo \<longleftrightarrow> (\<forall>(k, c) \<in> set memo. \<exists>t. k = sha256 t \<and> c = parseProactive t)"

lemma set_update_subset: "set (AList.update k v xs) \<subseteq> insert (k, v) (set xs)"
  by (induction xs) auto

lemma configFor_parses:
  assumes "inj sha256" "memo_ok sha256 memo" "configFor sha256 src p memo = (conf, memo')"
  shows "conf = map_option parseProactive (src (if p = ''default'' then None else Some p)) \<and> memo_ok sha256 memo'"
proof (cases "src (if p = ''default'' then None else Some p)")
  case None
  with assms(2,3) show ?thesis by (simp add: configFor_def)
next
  case (Some t)
  show ?thesis
  proof (cases "map_of memo (sha256 t)")
    case None
    have "memo_ok sha256 (AList.update (sha256 t) (parseProactive t) m)" if "memo_ok sha256 m" for m
      using that set_update_subset [of "sha256 t" "parseProactive t" m] unfolding memo_ok_def by fast
    moreover have "memo_ok sha256 []" by (simp add: memo_ok_def)
    ultimately show ?thesis using Some None assms(2,3) by (auto simp: configFor_def Let_def)
  next
    case (Some c)
    then have "(sha256 t, c) \<in> set memo" by (rule map_of_SomeD)
    with assms(1,2) have "c = parseProactive t" by (fastforce simp: memo_ok_def inj_def)
    with Some \<open>src _ = Some t\<close> assms(2,3) show ?thesis by (simp add: configFor_def)
  qed
qed

definition says_yes :: "string option \<Rightarrow> bool" where
  "says_yes v = (case v of Some s \<Rightarrow> yes s | None \<Rightarrow> False)"

text \<open>C32: Proactiveness is on for an audience exactly when the persona's SOUL text says so in so many
  words: for a channel, the last \<open>Enabled\<close> line under a \<open>### Proactive\<close> of that channel's own block
  decides, when there is one; else, and for the manager's messages, the last one under a
  \<open>## Proactive\<close> heading. Lines inside fences and under any other heading never do, and a text that
  cannot be read, or has no such line, means off. A memo of earlier answers does not change this.\<close>

theorem proactive_needs_consent:
  assumes "inj sha256" "memo_ok sha256 memo" "configFor sha256 src p memo = (conf, memo')"
    and "lines = (case src (if p = ''default'' then None else Some p) of
           Some t \<Rightarrow> soul_lines t | None \<Rightarrow> [])"
  shows "rs_enabled (proactiveFor conf (Some ch)) =
      (case last_value (in_channel ch) ''enabled'' lines of
         Some v \<Rightarrow> yes v | None \<Rightarrow> says_yes (last_value in_global ''enabled'' lines))
    \<and> rs_enabled (proactiveFor conf None) = says_yes (last_value in_global ''enabled'' lines)
    \<and> memo_ok sha256 memo'"
proof (cases "src (if p = ''default'' then None else Some p)")
  case None
  with configFor_parses [OF assms(1-3)] assms(4) show ?thesis
    by (simp add: proactiveFor_def DISABLED_def says_yes_def)
next
  case (Some t)
  with configFor_parses [OF assms(1-3)] assms(4) scan_switches [of lines ch] show ?thesis
    by (auto simp: proactiveFor_def own_or_def global_of_def parse_scan says_yes_def split: option.splits)
qed

definition demo_soul :: string where
  "demo_soul = ''# Ada'' @ [CHR 0x0A] @ ''## Proactive'' @ [CHR 0x0A] @ ''- Enabled: yes # on''
     @ [CHR 0x0A] @ ''## Channel <#C1|ops>'' @ [CHR 0x0A] @ ''### Proactive'' @ [CHR 0x0A] @ ''- Enabled: no''"

theorem proactive_needs_consent_witness:
  "rs_enabled (proactiveFor (fst (configFor (\<lambda>s. s) (\<lambda>_. Some demo_soul) ''ada'' [])) (Some ''C1'')) = False
   \<and> rs_enabled (proactiveFor (fst (configFor (\<lambda>s. s) (\<lambda>_. Some demo_soul) ''ada'' [])) (Some ''C2'')) = True"
proof -
  let ?r = "configFor (\<lambda>s. s) (\<lambda>_. Some demo_soul) ''ada'' []"
  have r: "?r = (fst ?r, snd ?r)" by simp
  have ok: "memo_ok (\<lambda>s. s) []" by (simp add: memo_ok_def)
  have "soul_lines demo_soul = (case (\<lambda>_. Some demo_soul) (if ''ada'' = ''default'' then None else Some ''ada'') of
      Some t \<Rightarrow> soul_lines t | None \<Rightarrow> [])" by simp
  note consent = proactive_needs_consent [OF inj_on_id2 ok r this]
  have "last_value (in_channel ''C1'') ''enabled'' (soul_lines demo_soul) = Some ''no''"
    "last_value (in_channel ''C2'') ''enabled'' (soul_lines demo_soul) = None"
    "last_value in_global ''enabled'' (soul_lines demo_soul) = Some ''yes''"
    by code_simp+
  then show ?thesis using consent [of "''C1''"] consent [of "''C2''"]
    by (simp add: says_yes_def yes_def js_lower_def lower_char_def is_upper_def)
qed

section \<open>Waking\<close>

text \<open>A destination of the agent's own work: the manager's messages, or a channel whose block has its
  own switch.\<close>

definition destination :: "proactive_config \<Rightarrow> string option \<Rightarrow> bool" where
  "destination c d \<longleftrightarrow> d = None \<or> (\<exists>ch. d = Some ch \<and> map_of (pc_channels c) ch \<noteq> None)"

lemma distinct_switches: "distinct (map fst (pc_channels (sc_config (scan_from_start ls))))"
proof (induction ls rule: rev_induct)
  case (snoc l ls)
  have "distinct (map fst (pc_channels (set_line w l c)))" if "distinct (map fst (pc_channels c))" for w c
    using that distinct_update [of "pc_channels c"]
    by (auto simp: set_line_def set_channel_channels split: option.splits where_in.splits)
  with snoc show ?case by (simp add: scan_from_start_simps scan_visible_def)
qed (simp add: scan_from_start_simps default_config_def)

text \<open>A persona wakes on its own exactly when its text does not say \<open>Wake: no\<close>, it has a manager,
  and at the manager's messages or at some channel with a switch of its own it is on with the level
  \<open>act\<close>; and it is said to lack only a destination exactly when it is on somewhere, and at every
  such place where it is on the level is lower.\<close>

theorem wake_needs_destination:
  assumes "c = parseProactive t"
  shows "(wakeEligibility (Some c) m = Inr () \<longleftrightarrow> pc_wake c \<and> truthy m
      \<and> (\<exists>d. destination c d \<and> rs_enabled (proactiveFor (Some c) d) \<and> rs_highest (proactiveFor (Some c) d) = Act))
    \<and> (wakeEligibility (Some c) m = Inl NoActDestination \<longleftrightarrow> pc_wake c \<and> truthy m
      \<and> anyProactiveEnabled (Some c)
      \<and> \<not> (\<exists>d. destination c d \<and> rs_enabled (proactiveFor (Some c) d) \<and> rs_highest (proactiveFor (Some c) d) = Act))"
proof -
  have ex_chan: "list_ex (\<lambda>(i, on). P i on) (pc_channels c) \<longleftrightarrow> (\<exists>i on. map_of (pc_channels c) i = Some on \<and> P i on)" for P
    using distinct_switches [of "soul_lines t"] unfolding assms parse_scan
    by (auto simp: list_ex_iff map_of_eq_Some_iff intro: bexI [rotated])
  let ?act = "pc_enabled c \<and> pc_highest c = Act
      \<or> list_ex (\<lambda>(i, on). on \<and> own_or (pc_channelHighest c) i (pc_highest c) = Act) (pc_channels c)"
  have act: "?act \<longleftrightarrow> (\<exists>d. destination c d \<and> rs_enabled (proactiveFor (Some c) d)
      \<and> rs_highest (proactiveFor (Some c) d) = Act)"
    unfolding ex_chan
  proof
    assume "pc_enabled c \<and> pc_highest c = Act \<or> (\<exists>i on. map_of (pc_channels c) i = Some on
      \<and> on \<and> own_or (pc_channelHighest c) i (pc_highest c) = Act)"
    then show "\<exists>d. destination c d \<and> rs_enabled (proactiveFor (Some c) d) \<and> rs_highest (proactiveFor (Some c) d) = Act"
    proof (elim disjE exE)
      assume "pc_enabled c \<and> pc_highest c = Act"
      then show ?thesis by (intro exI [of _ None]) (simp add: destination_def proactiveFor_def global_of_def)
    next
      fix i on
      assume "map_of (pc_channels c) i = Some on \<and> on \<and> own_or (pc_channelHighest c) i (pc_highest c) = Act"
      then show ?thesis
        by (intro exI [of _ "Some i"]) (auto simp: destination_def proactiveFor_def global_of_def own_or_def)
    qed
  next
    assume "\<exists>d. destination c d \<and> rs_enabled (proactiveFor (Some c) d) \<and> rs_highest (proactiveFor (Some c) d) = Act"
    then obtain d where d: "destination c d" "rs_enabled (proactiveFor (Some c) d)"
      "rs_highest (proactiveFor (Some c) d) = Act" by blast
    show "pc_enabled c \<and> pc_highest c = Act \<or> (\<exists>i on. map_of (pc_channels c) i = Some on
      \<and> on \<and> own_or (pc_channelHighest c) i (pc_highest c) = Act)"
    proof (cases d)
      case None
      with d show ?thesis by (simp add: proactiveFor_def global_of_def)
    next
      case (Some ch)
      with d(1) obtain on where on: "map_of (pc_channels c) ch = Some on" by (auto simp: destination_def)
      with d(2,3) Some have "on" "own_or (pc_channelHighest c) ch (pc_highest c) = Act"
        by (simp_all add: proactiveFor_def global_of_def own_or_def)
      with on show ?thesis by blast
    qed
  qed
  have some: "?act \<Longrightarrow> pc_enabled c \<or> list_ex snd (pc_channels c)"
    unfolding list_ex_iff by force
  show ?thesis
    unfolding act [symmetric] using some by (auto simp: wakeEligibility_def anyProactiveEnabled_def)
qed

theorem wake_needs_destination_witness:
  "wakeEligibility (Some (parseProactive demo_soul)) (Some ''U1'') = Inr ()"
proof -
  let ?c = "parseProactive demo_soul"
  have "pc_wake ?c" "destination ?c None" "rs_enabled (proactiveFor (Some ?c) None)"
    "rs_highest (proactiveFor (Some ?c) None) = Act"
    by (code_simp, simp add: destination_def, code_simp, code_simp)
  then show ?thesis using wake_needs_destination [OF refl, of demo_soul "Some ''U1''"] by auto
qed

definition inherited_soul :: string where
  "inherited_soul = ''## Proactive'' @ [CHR 0x0A] @ ''- Enabled: yes'' @ [CHR 0x0A] @ ''- Highest: ask''
     @ [CHR 0x0A] @ ''## Channel <#C1>'' @ [CHR 0x0A] @ ''### Proactive'' @ [CHR 0x0A] @ ''- Highest: act''"

text \<open>A channel may name only its own ceiling and inherit the switch: then the agent may act there,
  yet waking is refused for want of a place to act, because only channels with a switch of their own
  are looked at.\<close>

theorem inherited_act_channel_refused:
  "(let c = Some (parseProactive inherited_soul) in
     rs_enabled (proactiveFor c (Some ''C1'')) \<and> rs_highest (proactiveFor c (Some ''C1'')) = Act
     \<and> wakeEligibility c (Some ''U1'') = Inl NoActDestination)"
  by code_simp

end
