(* ===== verification/Restraint.thy ===== *)
theory Restraint
  imports ProactiveSoul
begin

text \<open>
  What holds a proactive agent back: a person's preferences (\<^verbatim>\<open>src/proactive/prefs.ts\<close>), the rules every
  post must pass (\<^verbatim>\<open>src/proactive/restraint.ts\<close>), when a wake is due and when the next one may come
  (\<^verbatim>\<open>src/proactive/wake-gate.ts\<close>), and when a commitment falls due (\<^verbatim>\<open>src/proactive/due.ts\<close>). Local
  time, the check of a time zone's name, SHA-256 and \<open>Date.parse\<close> are parameters; instants are
  whole milliseconds.
\<close>

section \<open>Preferences\<close>

datatype mutes = MuteAll | MuteTopics "string list"

record ping_prefs =
  pp_pings :: bool
  pp_topics :: "string list"
  pp_mutes :: mutes
  pp_quietHours :: "quiet_hours option"
  pp_timeZone :: "string option"

definition NO_PREFS :: ping_prefs where
  "NO_PREFS = \<lparr>pp_pings = False, pp_topics = [], pp_mutes = MuteTopics [], pp_quietHours = None,
     pp_timeZone = None\<rparr>"

text \<open>\<open>replace(/\s+/g, " ")\<close>.\<close>

function squeeze :: "string \<Rightarrow> string" where
  "squeeze [] = []"
| "squeeze (c # s) =
     (if is_space c then CHR '' '' # squeeze (dropWhile is_space s) else c # squeeze s)"
  by pat_completeness auto
termination by (relation "measure length") (auto simp: le_imp_less_Suc length_dropWhile_le)

definition norm :: "string \<Rightarrow> string" where
  "norm s = squeeze (js_lower (js_trim s))"

definition norm_list :: "string option \<Rightarrow> string list" where
  "norm_list s = filter (\<lambda>w. w \<noteq> [])
     (map norm (split_on CHR '','' (case s of Some v \<Rightarrow> v | None \<Rightarrow> [])))"

definition or_empty :: "string option \<Rightarrow> string" where
  "or_empty s = (case s of Some v \<Rightarrow> v | None \<Rightarrow> [])"

definition prefsFromProfile :: "(string \<Rightarrow> bool) \<Rightarrow> (string \<rightharpoonup> string) \<Rightarrow> ping_prefs" where
  "prefsFromProfile validZone meta =
     (let tz = map_option js_trim (meta ''timezone'') in
      \<lparr>pp_pings = (norm (or_empty (meta ''pings'')) = ''yes''),
       pp_topics = norm_list (meta ''topics''),
       pp_mutes = (if norm (or_empty (meta ''mutes'')) = ''all'' then MuteAll
                   else MuteTopics (norm_list (meta ''mutes''))),
       pp_quietHours = (if truthy (meta ''quiet_hours'') then parseWindow (the (meta ''quiet_hours'')) else None),
       pp_timeZone = (case tz of Some z \<Rightarrow> if z \<noteq> [] \<and> validZone z then Some z else None | None \<Rightarrow> None)\<rparr>)"

definition muted :: "ping_prefs \<Rightarrow> string \<Rightarrow> bool" where
  "muted p topic \<longleftrightarrow>
     (case pp_mutes p of MuteAll \<Rightarrow> True | MuteTopics ts \<Rightarrow> norm topic \<noteq> [] \<and> norm topic \<in> set ts)"

definition optedIn :: "ping_prefs \<Rightarrow> string \<Rightarrow> bool" where
  "optedIn p topic \<longleftrightarrow> pp_pings p \<and> norm topic \<noteq> [] \<and> norm topic \<in> set (pp_topics p)"

text \<open>A profile as its page gives it: nothing, a failure to read it, or its fields and whether it is
  superseded.\<close>

datatype profile_read = NoPage | ReadFailed | Page bool "string \<rightharpoonup> string"

definition readPingPrefs :: "(string \<Rightarrow> bool) \<Rightarrow> string option \<Rightarrow> profile_read \<Rightarrow> ping_prefs" where
  "readPingPrefs validZone source page =
     (case source of
        None \<Rightarrow> NO_PREFS
      | Some _ \<Rightarrow>
          (case page of
             Page superseded meta \<Rightarrow> if superseded then NO_PREFS else prefsFromProfile validZone meta
           | _ \<Rightarrow> NO_PREFS))"

section \<open>The rules of a post\<close>

datatype audience = ToManager | ToPerson | ToChannel

record proactive_request =
  pq_audience :: audience
  pq_recipient :: string
  pq_topic :: string
  pq_text :: string
  pq_evidence :: "string option"

datatype restraint_rule = Disabled | NotManager | NotOptedIn | TopicNotOptedIn | ChannelDisabled
  | Muted | QuietHours | DailyCap | Cooldown | Unchanged

record past_post =
  po_postedAt :: int
  po_textHash :: string
  po_evidenceHash :: "string option"

text \<open>The persona's local day and minute of an instant, in a time zone; the hash of a text as a reader
  sees it.\<close>

record restraint_world =
  rw_local :: "int \<Rightarrow> string \<Rightarrow> string \<times> int"
  rw_hash :: "string \<Rightarrow> string"

record restraint_context =
  rx_config :: "string option \<Rightarrow> resolved"
  rx_managerId :: "string option"
  rx_prefs :: ping_prefs
  rx_now :: int
  rx_timeZone :: string
  rx_history :: "past_post list"

definition UNCHANGED_WINDOW_MS :: int where "UNCHANGED_WINDOW_MS = 604800000"

definition SELF_EVIDENCE :: "string list" where
  "SELF_EVIDENCE = [''self/heartbeat'', ''self/heartbeat-journal'', ''self/wake-journal'']"

definition audience_rule :: "proactive_request \<Rightarrow> restraint_context \<Rightarrow> resolved \<Rightarrow> restraint_rule option" where
  "audience_rule req ctx cfg =
     (case pq_audience req of
        ToManager \<Rightarrow>
          if \<not> rs_enabled cfg then Some Disabled
          else if \<not> truthy (rx_managerId ctx) \<or> Some (pq_recipient req) \<noteq> rx_managerId ctx then Some NotManager
          else None
      | ToPerson \<Rightarrow>
          if \<not> rs_enabled cfg then Some Disabled
          else if \<not> pp_pings (rx_prefs ctx) then Some NotOptedIn
          else if \<not> optedIn (rx_prefs ctx) (pq_topic req) then Some TopicNotOptedIn
          else None
      | ToChannel \<Rightarrow> if \<not> rs_enabled cfg then Some ChannelDisabled else None)"

definition in_quiet :: "quiet_hours option \<Rightarrow> int \<Rightarrow> bool" where
  "in_quiet w minutes = (case w of Some q \<Rightarrow> inWindow minutes q | None \<Rightarrow> False)"

text \<open>\<open>Math.max(-Infinity, ...)\<close>: \<open>None\<close> for no post.\<close>

definition latest_post :: "past_post list \<Rightarrow> int option" where
  "latest_post hs = (if hs = [] then None else Some (Max (set (map po_postedAt hs))))"

definition evidence_hash :: "restraint_world \<Rightarrow> string option \<Rightarrow> string option" where
  "evidence_hash W ev =
     (let e = js_trim (or_empty ev) in
      if e \<noteq> [] \<and> js_lower e \<notin> set SELF_EVIDENCE then Some (rw_hash W e) else None)"

definition repeats :: "restraint_world \<Rightarrow> proactive_request \<Rightarrow> restraint_context \<Rightarrow> past_post \<Rightarrow> bool" where
  "repeats W req ctx h \<longleftrightarrow>
     rx_now ctx - po_postedAt h < UNCHANGED_WINDOW_MS
     \<and> (po_textHash h = rw_hash W (pq_text req)
        \<or> (evidence_hash W (pq_evidence req) \<noteq> None \<and> po_evidenceHash h = evidence_hash W (pq_evidence req)))"

text \<open>\<open>None\<close>: the post may go out; else the rule that refuses it.\<close>

definition checkProactive :: "restraint_world \<Rightarrow> proactive_request \<Rightarrow> restraint_context \<Rightarrow> restraint_rule option" where
  "checkProactive W req ctx =
     (let isPerson = (pq_audience req \<noteq> ToChannel);
          cfg = rx_config ctx (if pq_audience req = ToChannel then Some (pq_recipient req) else None);
          prefs = rx_prefs ctx;
          (day, minutes) = rw_local W (rx_now ctx) (rx_timeZone ctx);
          theirs = snd (rw_local W (rx_now ctx)
            (case pp_timeZone prefs of Some z \<Rightarrow> z | None \<Rightarrow> rx_timeZone ctx));
          today = filter (\<lambda>h. fst (rw_local W (po_postedAt h) (rx_timeZone ctx)) = day) (rx_history ctx)
      in case audience_rule req ctx cfg of
           Some r \<Rightarrow> Some r
         | None \<Rightarrow>
             if isPerson \<and> muted prefs (pq_topic req) then Some Muted
             else if in_quiet (rs_quietHours cfg) minutes then Some QuietHours
             else if isPerson \<and> in_quiet (pp_quietHours prefs) theirs then Some QuietHours
             else if length today \<ge> rs_maxPerDay cfg then Some DailyCap
             else if (case latest_post (rx_history ctx) of
                        Some l \<Rightarrow> of_int (rx_now ctx - l) < rs_cooldownHours cfg * 3600000
                      | None \<Rightarrow> False) then Some Cooldown
             else if list_ex (repeats W req ctx) (rx_history ctx) then Some Unchanged
             else None)"

section \<open>Posts over time\<close>

text \<open>What one post in its history adds: its time, and the hashes it is compared by.\<close>

definition post_of :: "restraint_world \<Rightarrow> proactive_request \<Rightarrow> int \<Rightarrow> past_post" where
  "post_of W req t = \<lparr>po_postedAt = t, po_textHash = rw_hash W (pq_text req),
     po_evidenceHash = evidence_hash W (pq_evidence req)\<rparr>"

text \<open>The posts of one recipient: every request is checked against the posts before it, no earlier than
  they were, and posted when no rule refuses it. The switch, the preferences and the requests may
  change between posts; the daily cap never exceeds \<open>cap\<close> and the cooldown is never below \<open>hours\<close>.\<close>

definition config_key :: "proactive_request \<Rightarrow> string option" where
  "config_key req = (if pq_audience req = ToChannel then Some (pq_recipient req) else None)"

inductive posts :: "restraint_world \<Rightarrow> string \<Rightarrow> nat \<Rightarrow> rat \<Rightarrow> past_post list \<Rightarrow> bool"
  for W zone cap hours where
  none: "posts W zone cap hours []"
| post: "posts W zone cap hours (rx_history ctx) \<Longrightarrow> rx_timeZone ctx = zone
    \<Longrightarrow> rs_maxPerDay (rx_config ctx (config_key req)) \<le> cap
    \<Longrightarrow> hours \<le> rs_cooldownHours (rx_config ctx (config_key req))
    \<Longrightarrow> checkProactive W req ctx = None
    \<Longrightarrow> posts W zone cap hours (rx_history ctx @ [post_of W req (rx_now ctx)])"

section \<open>The wake gate\<close>

record wake_state =
  wk_checklistHash :: "string option"
  wk_lastWakeAt :: "int option"
  wk_finishedAt :: "int option"
  wk_nextCheckAt :: "int option"
  wk_failures :: nat

record wake_config =
  wc_slotMs :: int
  wc_maxSleepMs :: int

datatype gate_result = First | ChecklistChanged | MaxSleep | NextCheck | NoChecklist | Idle

definition wake_starts :: "gate_result \<Rightarrow> bool" where
  "wake_starts g \<longleftrightarrow> g \<in> {First, ChecklistChanged, MaxSleep, NextCheck}"

definition wakeDue :: "wake_state option \<Rightarrow> string option \<Rightarrow> int \<Rightarrow> wake_config \<Rightarrow> gate_result" where
  "wakeDue st checklistHash now cfg =
     (case checklistHash of
        None \<Rightarrow> NoChecklist
      | Some h \<Rightarrow>
          (case st of
             None \<Rightarrow> First
           | Some s \<Rightarrow>
               (case wk_lastWakeAt s of
                  None \<Rightarrow> First
                | Some l \<Rightarrow>
                    if wk_checklistHash s \<noteq> Some h then ChecklistChanged
                    else if now - l \<ge> wc_maxSleepMs cfg then MaxSleep
                    else case wk_nextCheckAt s of
                           None \<Rightarrow> NextCheck
                         | Some n \<Rightarrow> if n \<le> now then NextCheck else Idle)))"

definition DEFAULT_SLEEP_MS :: int where "DEFAULT_SLEEP_MS = 14400000"

text \<open>The agent's proposal; \<open>None\<close> when absent or not a finite number.\<close>

definition clampNextCheck :: "int option \<Rightarrow> int \<Rightarrow> wake_config \<Rightarrow> int" where
  "clampNextCheck proposed now cfg =
     (let soonest = now + wc_slotMs cfg;
          wanted = (case proposed of Some p \<Rightarrow> p | None \<Rightarrow> now + DEFAULT_SLEEP_MS)
      in min (max wanted soonest) (now + wc_maxSleepMs cfg))"

datatype wake_outcome = WakeOk | WakeStoppedBudget | WakeError

definition settleWake :: "wake_state option \<Rightarrow> wake_outcome \<Rightarrow> int \<Rightarrow> wake_config \<Rightarrow> nat \<times> int option" where
  "settleWake st out now cfg =
     (let failures = (case st of Some s \<Rightarrow> wk_failures s | None \<Rightarrow> 0) + 1;
          twoSlots = now + 2 * wc_slotMs cfg;
          finished = (case st of
             Some s \<Rightarrow> (case (wk_finishedAt s, wk_lastWakeAt s) of
                          (Some f, Some l) \<Rightarrow> f \<ge> l | _ \<Rightarrow> False)
           | None \<Rightarrow> False)
      in case out of
           WakeOk \<Rightarrow> if finished then (0, None) else (failures, Some twoSlots)
         | WakeStoppedBudget \<Rightarrow> (failures, Some twoSlots)
         | WakeError \<Rightarrow> (failures, Some (now + min (wc_slotMs cfg * 2 ^ failures) (wc_maxSleepMs cfg))))"

section \<open>Commitments\<close>

datatype due_kind = DueTime | DueEvent

record due =
  du_kind :: due_kind
  du_nextCheckAt :: int
  du_expiresAt :: int

text \<open>\<open>instant\<close> reads an ISO-8601 instant with an offset: the pattern \<open>INSTANT\<close> and \<open>Date.parse\<close>.\<close>

definition parseDue :: "(string \<Rightarrow> int option) \<Rightarrow> string option \<Rightarrow> int \<Rightarrow> int \<Rightarrow> int \<Rightarrow> due option" where
  "parseDue instant text writtenAt pollMinutes expireHours =
     (let t = js_trim (or_empty text); expire = expireHours * 3600000 in
      if t = [] then None
      else case instant t of
             Some a \<Rightarrow> Some \<lparr>du_kind = DueTime, du_nextCheckAt = a, du_expiresAt = a + expire\<rparr>
           | None \<Rightarrow> Some \<lparr>du_kind = DueEvent, du_nextCheckAt = writtenAt + pollMinutes * 60000,
                          du_expiresAt = writtenAt + expire\<rparr>)"

text \<open>\<open>^\s*([CGD][A-Z0-9]+):(\d+(?:\.\d+)?)\s*$\<close>.\<close>

definition parseThread :: "string option \<Rightarrow> (string \<times> string) option" where
  "parseThread thread =
     (case split_on CHR '':'' (js_trim (or_empty thread)) of
        [c, t] \<Rightarrow>
          (let w = takeWhile is_digit t; r = drop (length w) t in
           if CHANNEL_ID c \<and> w \<noteq> []
              \<and> (r = [] \<or> hd r = CHR ''.'' \<and> tl r \<noteq> [] \<and> list_all is_digit (tl r))
           then Some (c, t) else None)
      | _ \<Rightarrow> None)"

section \<open>Facts\<close>

lemma le_latest: "h \<in> set hs \<Longrightarrow> \<exists>l. latest_post hs = Some l \<and> po_postedAt h \<le> l"
  by (auto simp: latest_post_def)

lemma latest_mem: "latest_post hs = Some l \<Longrightarrow> \<exists>h \<in> set hs. po_postedAt h = l"
proof -
  assume "latest_post hs = Some l"
  then have "hs \<noteq> []" "l = Max (set (map po_postedAt hs))" by (auto simp: latest_post_def split: if_splits)
  then have "l \<in> set (map po_postedAt hs)" using Max_in [of "set (map po_postedAt hs)"] by simp
  then show ?thesis by auto
qed

lemma check_passes:
  assumes "checkProactive W req ctx = None"
  shows "length (filter (\<lambda>h. fst (rw_local W (po_postedAt h) (rx_timeZone ctx)) =
           fst (rw_local W (rx_now ctx) (rx_timeZone ctx))) (rx_history ctx))
         < rs_maxPerDay (rx_config ctx (config_key req))"
    and "latest_post (rx_history ctx) = Some l \<Longrightarrow>
           rs_cooldownHours (rx_config ctx (config_key req)) * 3600000 \<le> of_int (rx_now ctx - l)"
    and "h \<in> set (rx_history ctx) \<Longrightarrow> \<not> repeats W req ctx h"
  using assms
  by (auto simp: checkProactive_def config_key_def Let_def list_ex_iff split: option.splits if_splits prod.splits)

text \<open>However the model and the settings behave, the posts one recipient gets keep the rules: two of
  them are never closer than the cooldown, a local day never holds more than the daily cap, and two
  posts with the same text, or resting on the same evidence, are never less than seven days apart.\<close>

theorem posts_restrained:
  assumes "posts W zone cap hours hs" "i < j" "j < length hs"
  shows "hours * 3600000 \<le> of_int (po_postedAt (hs ! j) - po_postedAt (hs ! i))
     \<and> length (filter (\<lambda>h. fst (rw_local W (po_postedAt h) zone) = day) hs) \<le> cap
     \<and> (po_textHash (hs ! i) = po_textHash (hs ! j)
         \<or> po_evidenceHash (hs ! i) = po_evidenceHash (hs ! j) \<and> po_evidenceHash (hs ! i) \<noteq> None
       \<longrightarrow> UNCHANGED_WINDOW_MS \<le> po_postedAt (hs ! j) - po_postedAt (hs ! i))"
proof -
  have "length (filter (\<lambda>h. fst (rw_local W (po_postedAt h) zone) = day) hs) \<le> cap
    \<and> (i < j \<and> j < length hs \<longrightarrow>
      hours * 3600000 \<le> of_int (po_postedAt (hs ! j) - po_postedAt (hs ! i))
      \<and> (po_textHash (hs ! i) = po_textHash (hs ! j)
         \<or> po_evidenceHash (hs ! i) = po_evidenceHash (hs ! j) \<and> po_evidenceHash (hs ! i) \<noteq> None
         \<longrightarrow> UNCHANGED_WINDOW_MS \<le> po_postedAt (hs ! j) - po_postedAt (hs ! i)))"
    using assms(1)
  proof (induction arbitrary: j rule: posts.induct)
    case (post ctx req)
    let ?hs = "rx_history ctx" and ?new = "post_of W req (rx_now ctx)"
    note pass = check_passes [OF post.hyps(5)]
    have cap: "length (filter (\<lambda>h. fst (rw_local W (po_postedAt h) zone) = day) (?hs @ [?new])) \<le> cap"
    proof (cases "fst (rw_local W (rx_now ctx) zone) = day")
      case True
      with pass(1) post.hyps(2,3) show ?thesis by (simp add: post_of_def)
    next
      case False
      with post.IH [of 0] show ?thesis by (simp add: post_of_def)
    qed
    have spaced: "hours * 3600000 \<le> of_int (po_postedAt ?new - po_postedAt (?hs ! i))
      \<and> (po_textHash (?hs ! i) = po_textHash ?new
         \<or> po_evidenceHash (?hs ! i) = po_evidenceHash ?new \<and> po_evidenceHash (?hs ! i) \<noteq> None
         \<longrightarrow> UNCHANGED_WINDOW_MS \<le> po_postedAt ?new - po_postedAt (?hs ! i))" if "i < length ?hs"
    proof
      have mem: "?hs ! i \<in> set ?hs" using that by simp
      obtain l where l: "latest_post ?hs = Some l" "po_postedAt (?hs ! i) \<le> l" using le_latest [OF mem] by blast
      have "hours * 3600000 \<le> of_int (rx_now ctx - l)"
        using pass(2) [OF l(1)] post.hyps(4) by linarith
      also have "\<dots> \<le> of_int (rx_now ctx - po_postedAt (?hs ! i))" using l(2) by simp
      finally show "hours * 3600000 \<le> of_int (po_postedAt ?new - po_postedAt (?hs ! i))"
        by (simp add: post_of_def)
      show "po_textHash (?hs ! i) = po_textHash ?new
         \<or> po_evidenceHash (?hs ! i) = po_evidenceHash ?new \<and> po_evidenceHash (?hs ! i) \<noteq> None
         \<longrightarrow> UNCHANGED_WINDOW_MS \<le> po_postedAt ?new - po_postedAt (?hs ! i)"
        using pass(3) [OF mem] by (auto simp: repeats_def post_of_def)
    qed
    show ?case
    proof (cases "j < length ?hs")
      case True
      with post.IH [of j] cap show ?thesis by (auto simp: nth_append)
    next
      case False
      with cap spaced show ?thesis by (auto simp: nth_append not_less less_Suc_eq_le)
    qed
  qed simp
  with assms(2,3) show ?thesis by blast
qed

definition demo_world :: restraint_world where
  "demo_world = \<lparr>rw_local = (\<lambda>t z. (if t < 86400000 then ''d1'' else ''d2'', t div 60000 mod 1440)), rw_hash = (\<lambda>s. s)\<rparr>"

definition demo_config :: resolved where
  "demo_config = DISABLED\<lparr>rs_enabled := True\<rparr>"

definition demo_context :: "int \<Rightarrow> past_post list \<Rightarrow> restraint_context" where
  "demo_context t hs = \<lparr>rx_config = (\<lambda>_. demo_config), rx_managerId = Some ''U1'', rx_prefs = NO_PREFS, rx_now = t,
     rx_timeZone = ''UTC'', rx_history = hs\<rparr>"

definition demo_request :: "string \<Rightarrow> proactive_request" where
  "demo_request text = \<lparr>pq_audience = ToManager, pq_recipient = ''U1'', pq_topic = ''deploys'', pq_text = text,
     pq_evidence = None\<rparr>"

theorem posts_restrained_witness:
  "checkProactive demo_world (demo_request ''two'') (demo_context 3600000 [post_of demo_world (demo_request ''one'') 0]) = None
   \<and> checkProactive demo_world (demo_request ''two'') (demo_context 3599999 [post_of demo_world (demo_request ''one'') 0])
       = Some Cooldown
   \<and> (1 :: rat) * 3600000 \<le> of_int (3600000 - 0)"
proof -
  let ?r = "\<lambda>t. demo_request t" and ?W = demo_world
  let ?h = "[post_of ?W (?r ''one'') 0]"
  have c: "checkProactive ?W (?r ''one'') (demo_context 0 []) = None"
    "checkProactive ?W (?r ''two'') (demo_context 3600000 ?h) = None"
    "checkProactive ?W (?r ''two'') (demo_context 3599999 ?h) = Some Cooldown"
    by code_simp+
  have step: "posts ?W ''UTC'' 6 1 (hs @ [post_of ?W (?r x) t])"
    if "posts ?W ''UTC'' 6 1 hs" "checkProactive ?W (?r x) (demo_context t hs) = None" for hs x t
    using posts.post [of ?W "''UTC''" 6 1 "demo_context t hs" "?r x"] that
    by (simp add: demo_context_def demo_config_def DISABLED_def DEFAULT_MAX_PER_PERSON_PER_DAY_def
        DEFAULT_COOLDOWN_HOURS_def)
  have "posts ?W ''UTC'' 6 1 ([] @ [post_of ?W (?r ''one'') 0])" by (rule step [OF posts.none c(1)])
  then have "posts ?W ''UTC'' 6 1 (?h @ [post_of ?W (?r ''two'') 3600000])" by (intro step c(2)) simp
  from posts_restrained [OF this, of 0 1 "''d1''"] c show ?thesis by (simp add: post_of_def)
qed

section \<open>Sleeping and waking\<close>

text \<open>A failed or expired profile read never opens a person's messages.\<close>

lemma unread_profile_no_post:
  assumes "pq_audience req = ToPerson" "rx_prefs ctx = readPingPrefs v source page"
    and "source = None \<or> page = NoPage \<or> page = ReadFailed \<or> (\<exists>m. page = Page True m)"
  shows "checkProactive W req ctx \<noteq> None"
proof -
  have "\<not> pp_pings (rx_prefs ctx)"
    using assms(2,3) by (auto simp: readPingPrefs_def NO_PREFS_def split: option.split)
  with assms(1) show ?thesis
    by (simp add: checkProactive_def audience_rule_def Let_def split: prod.split)
qed

lemma clamp_bounds:
  "clampNextCheck proposed now cfg \<le> now + wc_maxSleepMs cfg"
  "wc_slotMs cfg \<le> wc_maxSleepMs cfg \<Longrightarrow> now + wc_slotMs cfg \<le> clampNextCheck proposed now cfg"
  by (auto simp: clampNextCheck_def Let_def)

text \<open>The state after a wake settled: its failures, and the next check when one was set.\<close>

definition settled :: "wake_state \<Rightarrow> wake_outcome \<Rightarrow> int \<Rightarrow> wake_config \<Rightarrow> wake_state" where
  "settled s out now cfg =
     (case settleWake (Some s) out now cfg of
        (f, n) \<Rightarrow> s\<lparr>wk_failures := f, wk_nextCheckAt := (case n of Some t \<Rightarrow> Some t | None \<Rightarrow> wk_nextCheckAt s)\<rparr>)"

text \<open>An agent with a job never oversleeps and never spins: whatever time it proposed and however its
  wakes ended, a wake that settled badly is not due again before one slot has passed (unless its job
  changed or it slept its longest), backs off from two slots up to the longest sleep, and a wake is
  always due once the longest sleep has passed since the last one.\<close>

theorem wake_rhythm:
  assumes "0 < wc_slotMs cfg" "wc_slotMs cfg \<le> wc_maxSleepMs cfg"
    and "wk_lastWakeAt s = Some l" "s' = settled s out t cfg"
  shows "(wakeDue (Some s') (Some h) now cfg = Idle \<longrightarrow> now < l + wc_maxSleepMs cfg)
     \<and> (out = WakeError \<or> out = WakeStoppedBudget \<longrightarrow> wk_failures s' = Suc (wk_failures s)
         \<and> (now < t + wc_slotMs cfg \<and> now < l + wc_maxSleepMs cfg \<and> wk_checklistHash s = Some h
            \<longrightarrow> wakeDue (Some s') (Some h) now cfg = Idle)
         \<and> (\<exists>n. wk_nextCheckAt s' = Some n \<and> t + wc_slotMs cfg \<le> n \<and> n \<le> t + max (2 * wc_slotMs cfg) (wc_maxSleepMs cfg)))"
proof -
  have two: "wc_slotMs cfg \<le> wc_slotMs cfg * 2 ^ k" for k :: nat
    using assms(1) by simp
  have f: "wk_lastWakeAt s' = Some l" "wk_checklistHash s' = wk_checklistHash s"
    using assms(3,4) by (auto simp: settled_def split: prod.split)
  have idle: "wakeDue (Some s') (Some h) now cfg = Idle \<longrightarrow> now < l + wc_maxSleepMs cfg"
    using f by (auto simp: wakeDue_def split: option.splits if_splits)
  have bad: "wk_failures s' = Suc (wk_failures s) \<and> (\<exists>n. wk_nextCheckAt s' = Some n \<and> t + wc_slotMs cfg \<le> n
      \<and> n \<le> t + max (2 * wc_slotMs cfg) (wc_maxSleepMs cfg))" if "out = WakeError \<or> out = WakeStoppedBudget"
    using that assms(1,2,4) two [of "Suc (wk_failures s)"] by (auto simp: settled_def settleWake_def Let_def min_def)
  have "wakeDue (Some s') (Some h) now cfg = Idle"
    if "out = WakeError \<or> out = WakeStoppedBudget" "now < t + wc_slotMs cfg" "now < l + wc_maxSleepMs cfg"
      "wk_checklistHash s = Some h"
    using bad [OF that(1)] that f by (auto simp: wakeDue_def)
  with idle bad show ?thesis by blast
qed

definition demo_wake :: wake_state where
  "demo_wake = \<lparr>wk_checklistHash = Some ''h'', wk_lastWakeAt = Some 0, wk_finishedAt = None, wk_nextCheckAt = None,
     wk_failures = 1\<rparr>"

theorem wake_rhythm_witness:
  "wakeDue (Some (settled demo_wake WakeError 1000 \<lparr>wc_slotMs = 100, wc_maxSleepMs = 5000\<rparr>)) (Some ''h'') 1050
     \<lparr>wc_slotMs = 100, wc_maxSleepMs = 5000\<rparr> = Idle"
  using wake_rhythm [of "\<lparr>wc_slotMs = 100, wc_maxSleepMs = 5000\<rparr>" demo_wake 0
      "settled demo_wake WakeError 1000 \<lparr>wc_slotMs = 100, wc_maxSleepMs = 5000\<rparr>" WakeError 1000 "''h''" 1050]
  by (simp add: demo_wake_def)

end
