(* ===== verification/Prices.thy ===== *)
theory Prices
  imports Prelude Complex_Main
begin

text \<open>
  Model prices and the cost of a run's tokens (\<^verbatim>\<open>src/background/prices.ts\<close>). Dollar amounts are exact
  rationals (the code's are doubles), token counts are whole. A price table is an association list in
  the order of the object's keys; reading \<^verbatim>\<open>SLAUDE_PRICE_TABLE\<close> from a file and parsing it are
  parameters.
\<close>

section \<open>Tokens and prices\<close>

record token_counts =
  tk_input :: nat
  tk_output :: nat
  tk_cacheRead :: nat
  tk_cacheWrite :: nat

record price =
  pr_input :: rat
  pr_output :: rat
  pr_cacheRead :: rat
  pr_cacheWrite :: rat

type_synonym price_table = "(string \<times> price) list"

definition PROVISIONAL_OUTPUT_TOKENS :: nat where "PROVISIONAL_OUTPUT_TOKENS = 1024"

definition price4 :: "rat \<Rightarrow> rat \<Rightarrow> rat \<Rightarrow> rat \<Rightarrow> price" where
  "price4 i u r w = \<lparr>pr_input = i, pr_output = u, pr_cacheRead = r, pr_cacheWrite = w\<rparr>"

definition DEFAULT_PRICE_TABLE :: price_table where
  "DEFAULT_PRICE_TABLE =
    [(''claude-fable-5-1'', price4 10 50 (1/4) (25/2)),
     (''claude-fable-5'', price4 10 50 1 (25/2)),
     (''claude-opus-5-5'', price4 4 20 (1/5) 5),
     (''claude-opus-5'', price4 5 25 (1/2) (25/4)),
     (''claude-opus-4-8'', price4 5 25 (1/2) (25/4)),
     (''claude-opus-4-7'', price4 5 25 (1/2) (25/4)),
     (''claude-opus-4-6'', price4 5 25 (1/2) (25/4)),
     (''claude-sonnet-5-5'', price4 2 10 (1/5) (5/2)),
     (''claude-sonnet-5'', price4 2 10 (1/5) (5/2)),
     (''claude-sonnet-4-6'', price4 3 15 (3/10) (15/4)),
     (''claude-haiku-5-5'', price4 (1/10) (1/2) (1/100) (1/8)),
     (''claude-haiku-4-5'', price4 1 5 (1/10) (5/4))]"

section \<open>Reading a table\<close>

text \<open>A parsed configuration: numbers (\<open>None\<close> when not finite), objects, anything else.\<close>

datatype price_value = PNumber "rat option" | POther
datatype price_row = PRow "(string \<times> price_value) list" | PNotRow
datatype price_doc = PDoc "(string \<times> price_row) list" | PNotObject

datatype price_error = Unreadable | NotJson | BadRoot | BadPaths "string list"

definition KINDS :: "string list" where
  "KINDS = [''input'', ''output'', ''cache_read'', ''cache_write'']"

fun price_number :: "price_value option \<Rightarrow> rat option" where
  "price_number (Some (PNumber (Some r))) = (if r \<ge> 0 then Some r else None)"
| "price_number _ = None"

definition row_number :: "(string \<times> price_value) list \<Rightarrow> string \<Rightarrow> rat option" where
  "row_number r k = price_number (map_of (rev r) k)"

definition row_problems :: "string \<Rightarrow> (string \<times> price_value) list \<Rightarrow> string list" where
  "row_problems model r =
     map (\<lambda>k. model @ ''.'' @ k @ '' (unknown key)'') (filter (\<lambda>k. k \<notin> set KINDS) (map fst r))
     @ map (\<lambda>k. model @ ''.'' @ k) (filter (\<lambda>k. row_number r k = None) KINDS)"

definition row_price :: "(string \<times> price_value) list \<Rightarrow> price option" where
  "row_price r =
     (case (row_number r ''input'', row_number r ''output'', row_number r ''cache_read'',
            row_number r ''cache_write'') of
        (Some i, Some u, Some cr, Some cw) \<Rightarrow> Some (price4 i u cr cw)
      | _ \<Rightarrow> None)"

fun read_rows :: "(string \<times> price_row) list \<Rightarrow> price_table \<times> string list" where
  "read_rows [] = ([], [])"
| "read_rows ((m, PNotRow) # rest) = (case read_rows rest of (t, bad) \<Rightarrow> (t, m # bad))"
| "read_rows ((m, PRow r) # rest) =
     (case read_rows rest of (t, bad) \<Rightarrow>
        ((case row_price r of Some p \<Rightarrow> (m, p) # t | None \<Rightarrow> t), row_problems m r @ bad))"

definition loadPriceTable :: "(string \<Rightarrow> string option) \<Rightarrow> (string \<Rightarrow> price_doc option) \<Rightarrow> string option
    \<Rightarrow> price_table \<times> price_error option" where
  "loadPriceTable readFile parse raw =
     (case raw of
        None \<Rightarrow> (DEFAULT_PRICE_TABLE, None)
      | Some r \<Rightarrow>
          (let v = js_trim r; fail = (\<lambda>e. (DEFAULT_PRICE_TABLE, Some e)) in
           if v = [] then (DEFAULT_PRICE_TABLE, None)
           else case (if starts_with v ''{'' then Some v else readFile v) of
             None \<Rightarrow> fail Unreadable
           | Some text \<Rightarrow>
               (case parse text of
                  None \<Rightarrow> fail NotJson
                | Some PNotObject \<Rightarrow> fail BadRoot
                | Some (PDoc rows) \<Rightarrow>
                    (case read_rows rows of (t, bad) \<Rightarrow>
                       if bad \<noteq> [] then fail (BadPaths bad) else (t, None)))))"

section \<open>Costs\<close>

definition dated :: "string \<Rightarrow> bool" where
  "dated m \<longleftrightarrow> length m \<ge> 9 \<and> m ! (length m - 9) = CHR ''-'' \<and> list_all is_digit (drop (length m - 8) m)"

definition undated :: "string \<Rightarrow> string" where
  "undated m = take (length m - 9) m"

definition lookupIds :: "string \<Rightarrow> string list" where
  "lookupIds model =
     (let bare = (if starts_with model ''anthropic/'' then drop 10 model else model) in
      [model, bare] @ map undated (filter dated [model, bare]))"

fun first_price :: "price_table \<Rightarrow> string list \<Rightarrow> price option" where
  "first_price table [] = None"
| "first_price table (i # is) = (case map_of table i of Some p \<Rightarrow> Some p | None \<Rightarrow> first_price table is)"

definition priceOf :: "price_table \<Rightarrow> string \<Rightarrow> price option" where
  "priceOf table model = first_price table (lookupIds model)"

definition cost_at :: "price \<Rightarrow> token_counts \<Rightarrow> rat" where
  "cost_at p t =
     (of_nat (tk_input t) * pr_input p) / 1000000 + (of_nat (tk_output t) * pr_output p) / 1000000
     + (of_nat (tk_cacheRead t) * pr_cacheRead p) / 1000000
     + (of_nat (tk_cacheWrite t) * pr_cacheWrite p) / 1000000"

definition costUsd :: "price_table \<Rightarrow> string \<Rightarrow> token_counts \<Rightarrow> rat option" where
  "costUsd table model t = map_option (\<lambda>p. cost_at p t) (priceOf table model)"

text \<open>A usage as a message reports it: fields may be missing.\<close>

record reported_usage =
  rp_input :: "nat option"
  rp_output :: "nat option"
  rp_cacheRead :: "nat option"
  rp_cacheWrite :: "nat option"

definition or0 :: "nat option \<Rightarrow> nat" where
  "or0 x = (case x of Some n \<Rightarrow> n | None \<Rightarrow> 0)"

definition tokensFromUsage :: "reported_usage \<Rightarrow> token_counts" where
  "tokensFromUsage u = \<lparr>tk_input = or0 (rp_input u), tk_output = or0 (rp_output u),
     tk_cacheRead = or0 (rp_cacheRead u), tk_cacheWrite = or0 (rp_cacheWrite u)\<rparr>"

definition ZERO_TOKENS :: token_counts where
  "ZERO_TOKENS = \<lparr>tk_input = 0, tk_output = 0, tk_cacheRead = 0, tk_cacheWrite = 0\<rparr>"

definition addTokens :: "token_counts \<Rightarrow> token_counts \<Rightarrow> token_counts" where
  "addTokens a b = \<lparr>tk_input = tk_input a + tk_input b, tk_output = tk_output a + tk_output b,
     tk_cacheRead = tk_cacheRead a + tk_cacheRead b, tk_cacheWrite = tk_cacheWrite a + tk_cacheWrite b\<rparr>"

text \<open>The loop of \<open>priceByModel\<close>.\<close>

fun price_loop :: "price_table \<Rightarrow> (string \<times> token_counts) list \<Rightarrow> token_counts \<times> rat \<times> string list
    \<Rightarrow> token_counts \<times> rat \<times> string list" where
  "price_loop table [] acc = acc"
| "price_loop table ((m, t) # rest) (ts, c, un) =
     price_loop table rest
       (case costUsd table m t of
          None \<Rightarrow> (addTokens ts t, c, un @ [m])
        | Some k \<Rightarrow> (addTokens ts t, c + k, un))"

definition priceByModel :: "price_table \<Rightarrow> (string \<times> token_counts) list \<Rightarrow> token_counts \<times> rat \<times> string list" where
  "priceByModel table byModel = price_loop table byModel (ZERO_TOKENS, 0, [])"

definition unpricedModels :: "price_table \<Rightarrow> string list \<Rightarrow> string list" where
  "unpricedModels table models =
     fresh_by (\<lambda>m. m) [] (filter (\<lambda>m. m \<noteq> [] \<and> priceOf table m = None) models)"

section \<open>Facts\<close>

definition table_nonneg :: "price_table \<Rightarrow> bool" where
  "table_nonneg table \<longleftrightarrow> list_all (\<lambda>(m, p). 0 \<le> pr_input p \<and> 0 \<le> pr_output p \<and> 0 \<le> pr_cacheRead p
     \<and> 0 \<le> pr_cacheWrite p) table"

lemma default_table_nonneg: "table_nonneg DEFAULT_PRICE_TABLE"
  by (simp add: table_nonneg_def DEFAULT_PRICE_TABLE_def price4_def)

lemma price_number_nonneg: "price_number v = Some r \<Longrightarrow> 0 \<le> r"
  by (induction v rule: price_number.induct) (auto split: if_splits)

lemma row_price_nonneg: "row_price r = Some p \<Longrightarrow> table_nonneg [(m, p)]"
  by (auto simp: row_price_def row_number_def table_nonneg_def price4_def dest!: price_number_nonneg
      split: option.splits)

lemma read_rows_nonneg: "table_nonneg (fst (read_rows rows))"
proof (induction rows rule: read_rows.induct)
  case (3 m r rest)
  then show ?case
    by (auto simp: table_nonneg_def split: prod.splits option.splits dest: row_price_nonneg [of r _ m])
qed (auto simp: table_nonneg_def split: prod.splits)

text \<open>Whatever the configuration says, prices are never negative.\<close>

lemma loadPriceTable_nonneg: "table_nonneg (fst (loadPriceTable readFile parse raw))"
proof -
  have rows: "table_nonneg t" if "read_rows rows = (t, bad)" for rows t bad
    using read_rows_nonneg [of rows] that by simp
  show ?thesis
    by (auto simp: loadPriceTable_def Let_def default_table_nonneg
        split: option.splits price_doc.splits prod.splits dest: rows)
qed

lemma first_price_mem: "first_price table is = Some p \<Longrightarrow> \<exists>m. (m, p) \<in> set table"
  by (induction table "is" rule: first_price.induct) (auto split: option.splits dest: map_of_SomeD)

lemma costUsd_nonneg:
  assumes "table_nonneg table" "costUsd table m t = Some c"
  shows "0 \<le> c"
proof -
  obtain p where p: "priceOf table m = Some p" "c = cost_at p t"
    using assms(2) by (auto simp: costUsd_def)
  then obtain m' where "(m', p) \<in> set table" unfolding priceOf_def using first_price_mem by metis
  with assms(1) have "0 \<le> pr_input p \<and> 0 \<le> pr_output p \<and> 0 \<le> pr_cacheRead p \<and> 0 \<le> pr_cacheWrite p"
    by (auto simp: table_nonneg_def list_all_iff)
  then show ?thesis unfolding p(2) cost_at_def by (intro add_nonneg_nonneg divide_nonneg_nonneg mult_nonneg_nonneg) auto
qed

text \<open>A model without a price is reported, never counted as free: the cost is the sum over the priced
  models, and the others are exactly the unpriced ones.\<close>

lemma costUsd_simps:
  "priceOf table m = None \<Longrightarrow> costUsd table m t = None"
  "priceOf table m = Some p \<Longrightarrow> costUsd table m t = Some (cost_at p t)"
  by (simp_all add: costUsd_def)

lemma price_loop_eq:
  "price_loop table xs (ts, c, un) =
     (foldl addTokens ts (map snd xs),
      c + sum_list (List.map_filter (\<lambda>(m, t). costUsd table m t) xs),
      un @ map fst (filter (\<lambda>(m, t). priceOf table m = None) xs))"
proof (induction table xs "(ts, c, un)" arbitrary: ts c un rule: price_loop.induct)
  case (2 table m t rest ts c un)
  then show ?case
    by (cases "priceOf table m") (simp_all add: costUsd_simps List.map_filter_simps)
qed (simp add: List.map_filter_simps)

lemma priceByModel_eq:
  "priceByModel table xs =
     (foldl addTokens ZERO_TOKENS (map snd xs),
      sum_list (List.map_filter (\<lambda>(m, t). costUsd table m t) xs),
      map fst (filter (\<lambda>(m, t). priceOf table m = None) xs))"
  by (simp add: priceByModel_def price_loop_eq)

end
