(* ===== verification/Ledger.thy ===== *)
theory Ledger
  imports Prices "HOL-Library.List_Lexorder" "HOL-Library.Char_ord"
begin

text \<open>
  The ledger of background runs (\<^verbatim>\<open>src/db/background-runs.ts\<close>) as the table its statements work on,
  and the daily budget over it (\<^verbatim>\<open>src/background/budget.ts\<close>). Every query is one step over the table
  as it is then: an operation of several queries takes one table for each, so that other processes
  may write between two of them. Local days are given; amounts are exact rationals.
\<close>

section \<open>The table\<close>

datatype run_outcome = Ok | SkippedBudget | StoppedBudget | Error

record run_row =
  rw_id :: string
  rw_agent :: string
  rw_pass :: string
  rw_scope :: string
  rw_model :: "string option"
  rw_tokens :: token_counts
  rw_cost :: rat
  rw_startedAt :: int
  rw_finishedAt :: "int option"
  rw_outcome :: "run_outcome option"
  rw_day :: string
  rw_unpriced :: "string option"

type_synonym ledger = "run_row list"

text \<open>\<open>INSERT\<close>, with the id \<open>randomUUID\<close> gave; a missing cost is 0.\<close>

definition ledger_start :: "string \<Rightarrow> string \<Rightarrow> string \<Rightarrow> string \<Rightarrow> string option \<Rightarrow> string \<Rightarrow> int \<Rightarrow> rat
    \<Rightarrow> ledger \<Rightarrow> ledger" where
  "ledger_start i agent pass scope model day startedAt cost L =
     L @ [\<lparr>rw_id = i, rw_agent = agent, rw_pass = pass, rw_scope = scope, rw_model = model,
           rw_tokens = ZERO_TOKENS, rw_cost = cost, rw_startedAt = startedAt, rw_finishedAt = None,
           rw_outcome = None, rw_day = day, rw_unpriced = None\<rparr>]"

definition by_start :: "ledger \<Rightarrow> ledger" where
  "by_start L = sort_key rw_startedAt L"

definition listOpen :: "string \<Rightarrow> int \<Rightarrow> ledger \<Rightarrow> ledger" where
  "listOpen pass t L =
     by_start (filter (\<lambda>r. rw_pass r = pass \<and> rw_outcome r = None \<and> rw_startedAt r < t) L)"

definition listOpenAll :: "int \<Rightarrow> ledger \<Rightarrow> ledger" where
  "listOpenAll t L = by_start (filter (\<lambda>r. rw_outcome r = None \<and> rw_startedAt r < t) L)"

definition countOn :: "string \<Rightarrow> string \<Rightarrow> string \<Rightarrow> ledger \<Rightarrow> nat" where
  "countOn agent pass day L =
     length (filter (\<lambda>r. rw_agent r = agent \<and> rw_pass r = pass \<and> rw_day r = day) L)"

definition progress :: "string \<Rightarrow> token_counts \<Rightarrow> rat \<Rightarrow> ledger \<Rightarrow> ledger" where
  "progress i t c L =
     map (\<lambda>r. if rw_id r = i \<and> rw_outcome r = None then r\<lparr>rw_tokens := t, rw_cost := c\<rparr> else r) L"

definition finished_row :: "token_counts \<Rightarrow> rat \<Rightarrow> run_outcome \<Rightarrow> string option \<Rightarrow> int \<Rightarrow> run_row \<Rightarrow> run_row" where
  "finished_row t c out unpriced now r =
     r\<lparr>rw_tokens := t, rw_cost := c, rw_outcome := Some out, rw_finishedAt := Some now, rw_unpriced := unpriced\<rparr>"

definition ledger_finish :: "string \<Rightarrow> token_counts \<Rightarrow> rat \<Rightarrow> run_outcome \<Rightarrow> string option \<Rightarrow> int
    \<Rightarrow> ledger \<Rightarrow> ledger" where
  "ledger_finish i t c out unpriced now L =
     map (\<lambda>r. if rw_id r = i then finished_row t c out unpriced now r else r) L"

definition unpricedOn :: "string \<Rightarrow> string \<Rightarrow> ledger \<Rightarrow> string option" where
  "unpricedOn agent day L =
     (case by_start (filter (\<lambda>r. rw_agent r = agent \<and> rw_day r = day \<and> rw_unpriced r \<noteq> None) L) of
        [] \<Rightarrow> None | r # _ \<Rightarrow> rw_unpriced r)"

definition ledger_get :: "string \<Rightarrow> ledger \<Rightarrow> run_row option" where
  "ledger_get i L = find (\<lambda>r. rw_id r = i) L"

definition open_of :: "string \<Rightarrow> string \<Rightarrow> string \<Rightarrow> run_row \<Rightarrow> bool" where
  "open_of i agent pass r \<longleftrightarrow> rw_id r = i \<and> rw_agent r = agent \<and> rw_pass r = pass \<and> rw_outcome r = None"

definition finishOpen :: "string \<Rightarrow> string \<Rightarrow> string \<Rightarrow> token_counts \<Rightarrow> rat \<Rightarrow> run_outcome \<Rightarrow> string option
    \<Rightarrow> int \<Rightarrow> ledger \<Rightarrow> bool \<times> ledger" where
  "finishOpen i agent pass t c out unpriced now L =
     (list_ex (open_of i agent pass) L,
      map (\<lambda>r. if open_of i agent pass r then finished_row t c out unpriced now r else r) L)"

text \<open>Which passes a sum counts: all, only some, or all but some; an empty list filters nothing.\<close>

datatype pass_filter = AllPasses | OnlyPasses "string list" | ExceptPasses "string list"

fun counts_pass :: "pass_filter \<Rightarrow> string \<Rightarrow> bool" where
  "counts_pass AllPasses p = True"
| "counts_pass (OnlyPasses ps) p = (ps = [] \<or> p \<in> set ps)"
| "counts_pass (ExceptPasses ps) p = (p \<notin> set ps)"

definition spentOn :: "string \<Rightarrow> string \<Rightarrow> pass_filter \<Rightarrow> ledger \<Rightarrow> rat" where
  "spentOn agent day only L =
     sum_list (map rw_cost (filter (\<lambda>r. rw_agent r = agent \<and> rw_day r = day \<and> counts_pass only (rw_pass r)) L))"

text \<open>The most recent of several runs with one start is the last written.\<close>

definition lastOkCost :: "string \<Rightarrow> string \<Rightarrow> ledger \<Rightarrow> rat option" where
  "lastOkCost agent pass L =
     (case rev (by_start (filter (\<lambda>r. rw_agent r = agent \<and> rw_pass r = pass \<and> rw_outcome r = Some Ok) L)) of
        [] \<Rightarrow> None | r # _ \<Rightarrow> Some (rw_cost r))"

definition ranOn :: "string \<Rightarrow> string \<Rightarrow> string \<Rightarrow> run_outcome list \<Rightarrow> ledger \<Rightarrow> bool" where
  "ranOn agent pass day outcomes L \<longleftrightarrow>
     list_ex (\<lambda>r. rw_agent r = agent \<and> rw_pass r = pass \<and> rw_day r = day
       \<and> (\<exists>x \<in> set outcomes. rw_outcome r = Some x)) L"

definition listBetween :: "string \<Rightarrow> string \<Rightarrow> string \<Rightarrow> ledger \<Rightarrow> ledger" where
  "listBetween agent fromDay toDay L =
     by_start (filter (\<lambda>r. rw_agent r = agent \<and> fromDay \<le> rw_day r \<and> rw_day r \<le> toDay) L)"

definition settledOn :: "string \<Rightarrow> string \<Rightarrow> string \<Rightarrow> ledger \<Rightarrow> bool" where
  "settledOn agent pass day L \<longleftrightarrow>
     (let rs = filter (\<lambda>r. rw_agent r = agent \<and> rw_pass r = pass \<and> rw_day r = day) L in
      rs \<noteq> [] \<and> list_all (\<lambda>r. rw_outcome r \<noteq> None) rs)"

section \<open>The budget\<close>

definition PASS_FLOOR :: "(string \<times> rat) list" where
  "PASS_FLOOR = [(''nightly-review'', 1/10), (''lessons-upkeep'', 3/100), (''quiet-moment'', 5/100),
     (''skill-review'', 5/100), (''skill-check'', 2/100), (''digest'', 0), (''commitment'', 3/100),
     (''heartbeat'', 3/100), (''heartbeat-turn'', 3/100), (''heartbeat-wake'', 1/10)]"

definition PASS_MAX_TURNS :: "(string \<times> nat) list" where
  "PASS_MAX_TURNS = [(''nightly-review'', 20), (''lessons-upkeep'', 6), (''quiet-moment'', 10),
     (''skill-review'', 12), (''heartbeat'', 8)]"

record budget_config =
  bc_limit :: rat
  bc_proactiveLimit :: "rat option"

definition PROACTIVE_PASSES :: "string list" where
  "PROACTIVE_PASSES = [''heartbeat'', ''heartbeat-turn'', ''heartbeat-wake'', ''commitment'']"

definition BEHIND_NIGHTLY :: "string list" where
  "BEHIND_NIGHTLY = [''quiet-moment'', ''skill-review'', ''skill-check'', ''heartbeat'', ''heartbeat-turn'',
     ''heartbeat-wake'']"

definition isProactive :: "string \<Rightarrow> bool" where
  "isProactive pass \<longleftrightarrow> pass \<in> set PROACTIVE_PASSES"

definition isSplit :: "budget_config \<Rightarrow> bool" where
  "isSplit cfg \<longleftrightarrow> bc_proactiveLimit cfg \<noteq> None"

text \<open>The pool a pass spends from: its limit, and the rows that count against it.\<close>

definition pool_limit :: "budget_config \<Rightarrow> string \<Rightarrow> rat" where
  "pool_limit cfg pass =
     (case bc_proactiveLimit cfg of
        None \<Rightarrow> bc_limit cfg
      | Some p \<Rightarrow> if isProactive pass then p else bc_limit cfg)"

definition pool_rows :: "budget_config \<Rightarrow> string \<Rightarrow> pass_filter" where
  "pool_rows cfg pass =
     (if \<not> isSplit cfg then AllPasses
      else if isProactive pass then OnlyPasses PROACTIVE_PASSES else ExceptPasses PROACTIVE_PASSES)"

definition poolRemaining :: "budget_config \<Rightarrow> string \<Rightarrow> string \<Rightarrow> string \<Rightarrow> ledger \<Rightarrow> rat" where
  "poolRemaining cfg agent pass day L = pool_limit cfg pass - spentOn agent day (pool_rows cfg pass) L"

definition floor_of :: "string \<Rightarrow> rat" where
  "floor_of pass = (case map_of PASS_FLOOR pass of Some f \<Rightarrow> f | None \<Rightarrow> 0)"

definition estimateFor :: "string \<Rightarrow> string \<Rightarrow> ledger \<Rightarrow> rat" where
  "estimateFor agent pass L =
     (if pass = ''heartbeat-wake'' then floor_of pass
      else max (case lastOkCost agent pass L of Some c \<Rightarrow> c | None \<Rightarrow> 0) (floor_of pass))"

text \<open>Whether the pass must look at the nightly review at all; then two queries, the second only when
  the first found none.\<close>

definition reserves :: "budget_config \<Rightarrow> string \<Rightarrow> bool" where
  "reserves cfg pass \<longleftrightarrow> pass \<in> set BEHIND_NIGHTLY \<and> \<not> (isSplit cfg \<and> isProactive pass)"

definition nightlyReserve :: "budget_config \<Rightarrow> string \<Rightarrow> string \<Rightarrow> string \<Rightarrow> ledger \<Rightarrow> ledger \<Rightarrow> rat" where
  "nightlyReserve cfg agent pass day L1 L2 =
     (if \<not> reserves cfg pass then 0
      else if ranOn agent ''nightly-review'' day [Ok, StoppedBudget, Error] L1 then 0
      else estimateFor agent ''nightly-review'' L2)"

definition TOLERANCE :: rat where "TOLERANCE = 1 / 1000000000"

text \<open>\<open>Some\<close> the estimate when the pass may start.\<close>

definition canStart :: "budget_config \<Rightarrow> string \<Rightarrow> string \<Rightarrow> string \<Rightarrow> ledger \<times> ledger \<times> ledger \<times> ledger
    \<Rightarrow> rat option" where
  "canStart cfg agent pass day Ls =
     (case Ls of (L1, L2, L3, L4) \<Rightarrow>
        let estimate = estimateFor agent pass L1;
            remaining = poolRemaining cfg agent pass day L2 - nightlyReserve cfg agent pass day L3 L4
        in if remaining + TOLERANCE \<ge> estimate then Some estimate else None)"

definition overAfterStart :: "budget_config \<Rightarrow> string \<Rightarrow> string \<Rightarrow> string \<Rightarrow> ledger \<times> ledger \<times> ledger \<Rightarrow> bool" where
  "overAfterStart cfg agent pass day Ls =
     (case Ls of (L1, L2, L3) \<Rightarrow>
        poolRemaining cfg agent pass day L1 - nightlyReserve cfg agent pass day L2 L3 < - TOLERANCE)"

definition spendLeft :: "budget_config \<Rightarrow> string \<Rightarrow> string \<Rightarrow> string \<Rightarrow> ledger \<times> ledger \<times> ledger \<Rightarrow> rat" where
  "spendLeft cfg agent pass day Ls =
     (case Ls of (L1, L2, L3) \<Rightarrow>
        max 0 (poolRemaining cfg agent pass day L1 - nightlyReserve cfg agent pass day L2 L3))"

definition overLimit :: "budget_config \<Rightarrow> string \<Rightarrow> string \<Rightarrow> string \<Rightarrow> ledger \<Rightarrow> bool" where
  "overLimit cfg agent pass day L \<longleftrightarrow> poolRemaining cfg agent pass day L < - TOLERANCE"

text \<open>\<open>unpricedBlock\<close>: the model that blocks the day, whether a line is logged, and the pairs logged so
  far.\<close>

definition unpricedBlock :: "string \<Rightarrow> string \<Rightarrow> ledger \<Rightarrow> (string \<times> string) list
    \<Rightarrow> string option \<times> bool \<times> (string \<times> string) list" where
  "unpricedBlock agent day L logged =
     (let model = unpricedOn agent day L; say = (model \<noteq> None \<and> (agent, day) \<notin> set logged) in
      (model, say, if say then (agent, day) # logged else logged))"

section \<open>The stale-run sweep\<close>

definition SKILL_CHECK_STALE_MS :: int where "SKILL_CHECK_STALE_MS = 3600000"
definition RUN_STALE_MS :: int where "RUN_STALE_MS = 7200000"

definition staleAfter :: "string \<Rightarrow> int" where
  "staleAfter pass = (if pass = ''skill-check'' then SKILL_CHECK_STALE_MS else RUN_STALE_MS)"

text \<open>The loop over the listed rows; the ledger may have changed since the listing (\<open>env\<close>, before each
  write).\<close>

fun sweep_rows :: "int \<Rightarrow> run_row list \<Rightarrow> (ledger \<Rightarrow> ledger) list \<Rightarrow> ledger \<Rightarrow> nat \<Rightarrow> nat \<times> ledger" where
  "sweep_rows t [] env L n = (n, L)"
| "sweep_rows t (r # rs) env L n =
     (if rw_startedAt r \<ge> t - staleAfter (rw_pass r) then sweep_rows t rs env L n
      else let (f, env') = (case env of [] \<Rightarrow> (\<lambda>l. l, []) | f # fs \<Rightarrow> (f, fs));
               (hit, L') = finishOpen (rw_id r) (rw_agent r) (rw_pass r) (rw_tokens r) (rw_cost r) Error None t (f L)
           in sweep_rows t rs env' L' (if hit then n + 1 else n))"

definition sweepStaleRuns :: "int \<Rightarrow> (ledger \<Rightarrow> ledger) list \<Rightarrow> ledger \<Rightarrow> nat \<times> ledger" where
  "sweepStaleRuns t env L =
     sweep_rows t (listOpenAll (t - min SKILL_CHECK_STALE_MS RUN_STALE_MS) L) env L 0"

section \<open>Facts\<close>

lemma spentOn_Nil [simp]: "spentOn agent day f [] = 0"
  by (simp add: spentOn_def)

lemma spentOn_append: "spentOn agent day f (L1 @ L2) = spentOn agent day f L1 + spentOn agent day f L2"
  by (simp add: spentOn_def)

lemma spentOn_Cons: "spentOn agent day f (r # L) =
    (if rw_agent r = agent \<and> rw_day r = day \<and> counts_pass f (rw_pass r) then rw_cost r else 0)
    + spentOn agent day f L"
  by (simp add: spentOn_def)

lemma poolRemaining_nonneg_iff:
  "poolRemaining cfg agent pass day L \<ge> - TOLERANCE \<longleftrightarrow>
     spentOn agent day (pool_rows cfg pass) L \<le> pool_limit cfg pass + TOLERANCE"
  by (auto simp: poolRemaining_def algebra_simps)

lemma floor_nonneg: "0 \<le> floor_of pass"
  by (auto simp: floor_of_def PASS_FLOOR_def split: option.split dest!: map_of_SomeD)

lemma estimateFor_floor: "floor_of pass \<le> estimateFor agent pass L"
  by (simp add: estimateFor_def)

lemma estimateFor_nonneg: "0 \<le> estimateFor agent pass L"
  using floor_nonneg [of pass] estimateFor_floor [of pass agent L] by linarith

lemma nightlyReserve_nonneg: "0 \<le> nightlyReserve cfg agent pass day L1 L2"
  by (simp add: nightlyReserve_def estimateFor_nonneg)

end
