(* ===== verification/Runner.thy ===== *)
theory Runner
  imports Ledger "HOL-Library.AList"
begin

text \<open>
  The background pass runner (\<^verbatim>\<open>runPass\<close> of \<^verbatim>\<open>src/background/runner.ts\<close>) as a machine with one phase for
  each \<open>await\<close>: a query of the ledger, a write to it, or the next message of the model. A pending
  query or write may succeed (\<open>Proceed\<close>), throw (\<open>Fail\<close>), or take effect and throw (\<open>Lost\<close>). The
  pass tools, the child's environment and the query's options are not part of it.
\<close>

section \<open>State\<close>

record pass_spec =
  sp_agent :: string
  sp_pass :: string
  sp_scope :: string
  sp_day :: string
  sp_startedAt :: int
  sp_model :: string
  sp_table :: price_table

datatype phase =
    Blocked
  | BlockInsert string
  | Estimate
  | Pool rat
  | Ran rat rat
  | Reserve rat rat
  | SkipInsert
  | Insert
  | RecheckPool
  | RecheckRan rat
  | RecheckReserve rat
  | Provider
  | Query
  | TurnWrite "string list"
  | Limit
  | ResultWrite
  | Closing
  | ErrInsert
  | Settle bool run_outcome token_counts rat "string option"
  | Done run_outcome rat
  | Rejected

record pass_run =
  rn_phase :: phase
  rn_id :: "string option"
  rn_estimate :: rat
  rn_messages :: "(string \<times> string \<times> token_counts) list"
  rn_anon :: nat
  rn_tokens :: token_counts
  rn_cost :: rat
  rn_outcome :: run_outcome
  rn_sawResult :: bool
  rn_shutdown :: bool
  rn_unpricedStop :: bool
  rn_unpricedModel :: "string option"

definition new_run :: pass_run where
  "new_run = \<lparr>rn_phase = Blocked, rn_id = None, rn_estimate = 0, rn_messages = [], rn_anon = 0,
     rn_tokens = ZERO_TOKENS, rn_cost = 0, rn_outcome = Error, rn_sawResult = False, rn_shutdown = False,
     rn_unpricedStop = False, rn_unpricedModel = None\<rparr>"

datatype result_status = Success | MaxTurns | Failed

datatype pass_event =
    Proceed string int
  | Fail
  | Lost string int
  | Shutdown
  | Assistant "string option" string "reported_usage option"
  | ResultMsg result_status "(string \<times> reported_usage) list" "reported_usage option"
  | StreamEnd
  | StreamThrow

section \<open>Writes\<close>

abbreviation open_id :: "pass_run \<Rightarrow> string" where
  "open_id s \<equiv> (case rn_id s of Some i \<Rightarrow> i | None \<Rightarrow> [])"

definition start_row :: "pass_spec \<Rightarrow> string \<Rightarrow> string option \<Rightarrow> rat \<Rightarrow> ledger \<Rightarrow> ledger" where
  "start_row sp i model cost =
     ledger_start i (sp_agent sp) (sp_pass sp) (sp_scope sp) model (sp_day sp) (sp_startedAt sp) cost"

text \<open>What the pending write does; \<open>i\<close> is the id a new row gets.\<close>

definition pending_write :: "pass_spec \<Rightarrow> pass_run \<Rightarrow> string \<Rightarrow> int \<Rightarrow> ledger \<Rightarrow> ledger" where
  "pending_write sp s i now L =
     (case rn_phase s of
        BlockInsert _ \<Rightarrow> start_row sp i None 0 L
      | SkipInsert \<Rightarrow> start_row sp i None 0 L
      | ErrInsert \<Rightarrow> start_row sp i None 0 L
      | Insert \<Rightarrow> start_row sp i (if sp_model sp = [] then None else Some (sp_model sp)) (rn_estimate s) L
      | TurnWrite _ \<Rightarrow> progress (open_id s) (rn_tokens s) (rn_cost s) L
      | ResultWrite \<Rightarrow> progress (open_id s) (rn_tokens s) (rn_cost s) L
      | Settle _ out t c un \<Rightarrow> ledger_finish (open_id s) t c out un now L
      | _ \<Rightarrow> L)"

section \<open>Ends\<close>

definition end_run :: "pass_run \<Rightarrow> pass_run" where
  "end_run s =
     (let out = (if rn_shutdown s \<and> rn_outcome s \<noteq> StoppedBudget then Error else rn_outcome s) in
      s\<lparr>rn_phase := Settle False out (rn_tokens s) (rn_cost s)
          (if out = Error then rn_unpricedModel s else None)\<rparr>)"

text \<open>The loop ended: at the end of the stream, or after a \<open>break\<close> closed it.\<close>

definition loop_done :: "pass_run \<Rightarrow> pass_run" where
  "loop_done s =
     end_run (if \<not> rn_sawResult s \<and> rn_outcome s \<noteq> StoppedBudget then s\<lparr>rn_outcome := Error\<rparr> else s)"

text \<open>Something in the loop threw.\<close>

definition loop_threw :: "pass_run \<Rightarrow> pass_run" where
  "loop_threw s =
     end_run (if rn_outcome s \<noteq> StoppedBudget \<and> \<not> rn_shutdown s \<and> \<not> rn_unpricedStop s
              then s\<lparr>rn_outcome := Error\<rparr> else s)"

text \<open>Something before the query threw.\<close>

definition start_threw :: "pass_run \<Rightarrow> pass_run" where
  "start_threw s =
     (case rn_id s of
        Some _ \<Rightarrow> s\<lparr>rn_phase := Settle True Error ZERO_TOKENS 0 None\<rparr>
      | None \<Rightarrow> s\<lparr>rn_phase := ErrInsert\<rparr>)"

section \<open>After an await\<close>

definition gate :: "pass_run \<Rightarrow> rat \<Rightarrow> rat \<Rightarrow> pass_run" where
  "gate s est remaining =
     (if remaining + TOLERANCE \<ge> est then s\<lparr>rn_estimate := est, rn_phase := Insert\<rparr>
      else s\<lparr>rn_phase := SkipInsert\<rparr>)"

definition recheck :: "pass_run \<Rightarrow> rat \<Rightarrow> pass_run" where
  "recheck s remaining =
     (if remaining < - TOLERANCE then s\<lparr>rn_phase := Settle False SkippedBudget ZERO_TOKENS 0 None\<rparr>
      else s\<lparr>rn_phase := Provider\<rparr>)"

definition nightly_ran :: "pass_spec \<Rightarrow> ledger \<Rightarrow> bool" where
  "nightly_ran sp L = ranOn (sp_agent sp) ''nightly-review'' (sp_day sp) [Ok, StoppedBudget, Error] L"

definition after_await :: "budget_config \<Rightarrow> pass_spec \<Rightarrow> pass_run \<Rightarrow> string \<Rightarrow> ledger \<Rightarrow> pass_run" where
  "after_await cfg sp s i L =
     (case rn_phase s of
        Blocked \<Rightarrow> (case unpricedOn (sp_agent sp) (sp_day sp) L of
                      Some m \<Rightarrow> s\<lparr>rn_phase := BlockInsert m\<rparr>
                    | None \<Rightarrow> s\<lparr>rn_phase := Estimate\<rparr>)
      | BlockInsert m \<Rightarrow> s\<lparr>rn_id := Some i, rn_phase := Settle False Error ZERO_TOKENS 0 (Some m)\<rparr>
      | Estimate \<Rightarrow> s\<lparr>rn_phase := Pool (estimateFor (sp_agent sp) (sp_pass sp) L)\<rparr>
      | Pool est \<Rightarrow>
          (let rem = poolRemaining cfg (sp_agent sp) (sp_pass sp) (sp_day sp) L in
           if reserves cfg (sp_pass sp) then s\<lparr>rn_phase := Ran est rem\<rparr> else gate s est rem)
      | Ran est rem \<Rightarrow> if nightly_ran sp L then gate s est rem else s\<lparr>rn_phase := Reserve est rem\<rparr>
      | Reserve est rem \<Rightarrow> gate s est (rem - estimateFor (sp_agent sp) ''nightly-review'' L)
      | SkipInsert \<Rightarrow> s\<lparr>rn_id := Some i, rn_phase := Settle False SkippedBudget ZERO_TOKENS 0 None\<rparr>
      | Insert \<Rightarrow> s\<lparr>rn_id := Some i, rn_phase := RecheckPool\<rparr>
      | RecheckPool \<Rightarrow>
          (let rem = poolRemaining cfg (sp_agent sp) (sp_pass sp) (sp_day sp) L in
           if reserves cfg (sp_pass sp) then s\<lparr>rn_phase := RecheckRan rem\<rparr> else recheck s rem)
      | RecheckRan rem \<Rightarrow> if nightly_ran sp L then recheck s rem else s\<lparr>rn_phase := RecheckReserve rem\<rparr>
      | RecheckReserve rem \<Rightarrow> recheck s (rem - estimateFor (sp_agent sp) ''nightly-review'' L)
      | Provider \<Rightarrow> if rn_shutdown s then s\<lparr>rn_phase := Settle False Error ZERO_TOKENS 0 None\<rparr>
                    else s\<lparr>rn_phase := Query\<rparr>
      | TurnWrite unpriced \<Rightarrow>
          (case unpriced of
             m # _ \<Rightarrow> s\<lparr>rn_outcome := Error, rn_unpricedStop := True, rn_unpricedModel := Some m, rn_phase := Closing\<rparr>
           | [] \<Rightarrow> if rn_shutdown s then s\<lparr>rn_phase := Closing\<rparr> else s\<lparr>rn_phase := Limit\<rparr>)
      | Limit \<Rightarrow> if overLimit cfg (sp_agent sp) (sp_pass sp) (sp_day sp) L
                 then s\<lparr>rn_outcome := StoppedBudget, rn_phase := Closing\<rparr> else s\<lparr>rn_phase := Query\<rparr>
      | ResultWrite \<Rightarrow> s\<lparr>rn_phase := Closing\<rparr>
      | Closing \<Rightarrow> loop_done s
      | ErrInsert \<Rightarrow> s\<lparr>rn_id := Some i, rn_phase := Settle True Error ZERO_TOKENS 0 None\<rparr>
      | Settle _ out t c un \<Rightarrow> s\<lparr>rn_phase := Done out c\<rparr>
      | _ \<Rightarrow> s)"

definition after_throw :: "pass_run \<Rightarrow> pass_run" where
  "after_throw s =
     (case rn_phase s of
        TurnWrite _ \<Rightarrow> loop_threw s
      | Limit \<Rightarrow> loop_threw s
      | ResultWrite \<Rightarrow> loop_threw s
      | Closing \<Rightarrow> loop_threw s
      | ErrInsert \<Rightarrow> s\<lparr>rn_phase := Done Error 0\<rparr>
      | Settle recovering _ _ _ _ \<Rightarrow> s\<lparr>rn_phase := if recovering then Done Error 0 else Rejected\<rparr>
      | Query \<Rightarrow> s
      | Done _ _ \<Rightarrow> s
      | Rejected \<Rightarrow> s
      | _ \<Rightarrow> start_threw s)"

section \<open>Messages of the model\<close>

definition message_cost :: "pass_spec \<Rightarrow> string \<Rightarrow> token_counts \<Rightarrow> rat option" where
  "message_cost sp m t =
     (case costUsd (sp_table sp) m t of
        Some c \<Rightarrow> Some c
      | None \<Rightarrow> if sp_model sp = [] then None else costUsd (sp_table sp) (sp_model sp) t)"

fun provisional_sum :: "pass_spec \<Rightarrow> (string \<times> token_counts) list \<Rightarrow> token_counts \<times> rat \<times> string list
    \<Rightarrow> token_counts \<times> rat \<times> string list" where
  "provisional_sum sp [] acc = acc"
| "provisional_sum sp ((m, t) # rest) (ts, c, un) =
     provisional_sum sp rest
       (case message_cost sp m t of
          None \<Rightarrow> (addTokens ts t, c, un @ [if m = [] then ''(none named)'' else m])
        | Some k \<Rightarrow> (addTokens ts t, c + k, un))"

definition record_figure :: "token_counts \<Rightarrow> rat \<Rightarrow> phase \<Rightarrow> pass_run \<Rightarrow> pass_run" where
  "record_figure t c ph s = s\<lparr>rn_tokens := t, rn_cost := c, rn_phase := ph\<rparr>"

definition on_assistant :: "pass_spec \<Rightarrow> string option \<Rightarrow> string \<Rightarrow> reported_usage \<Rightarrow> pass_run \<Rightarrow> pass_run" where
  "on_assistant sp i m u s =
     (let t0 = tokensFromUsage u;
          t = t0\<lparr>tk_output := max (tk_output t0) PROVISIONAL_OUTPUT_TOKENS\<rparr>;
          key = (case i of Some k \<Rightarrow> k | None \<Rightarrow> ''anon-'' @ show_nat (rn_anon s));
          ms = AList.update key (if m = [] then sp_model sp else m, t) (rn_messages s)
      in case provisional_sum sp (map snd ms) (ZERO_TOKENS, 0, []) of
           (ts, c, un) \<Rightarrow>
             record_figure ts (if un \<noteq> [] then max c (rn_estimate s) else c) (TurnWrite un)
               (s\<lparr>rn_messages := ms, rn_anon := (if i = None then Suc (rn_anon s) else rn_anon s)\<rparr>))"

definition named_models :: "pass_run \<Rightarrow> string list" where
  "named_models s = fresh_by (\<lambda>m. m) [] (filter (\<lambda>m. m \<noteq> []) (map (fst \<circ> snd) (rn_messages s)))"

definition usage_cost :: "pass_spec \<Rightarrow> pass_run \<Rightarrow> token_counts \<Rightarrow> rat option" where
  "usage_cost sp s t =
     (case (if sp_model sp = [] then None else costUsd (sp_table sp) (sp_model sp) t) of
        Some c \<Rightarrow> Some c
      | None \<Rightarrow> (case named_models s of [m] \<Rightarrow> costUsd (sp_table sp) m t | _ \<Rightarrow> None))"

definition or_none_named :: "string \<Rightarrow> string" where
  "or_none_named m = (if m = [] then ''(none named)'' else m)"

definition on_result :: "pass_spec \<Rightarrow> result_status \<Rightarrow> (string \<times> reported_usage) list
    \<Rightarrow> reported_usage option \<Rightarrow> pass_run \<Rightarrow> pass_run" where
  "on_result sp status byModel usage s0 =
     (let s = s0\<lparr>rn_sawResult := True, rn_outcome := (case status of Failed \<Rightarrow> Error | _ \<Rightarrow> Ok)\<rparr> in
      if byModel \<noteq> [] then
        (case priceByModel (sp_table sp) (map (\<lambda>(m, u). (m, tokensFromUsage u)) byModel) of
           (t, c, un) \<Rightarrow>
             if un \<noteq> [] then
               (let s' = s\<lparr>rn_outcome := Error, rn_unpricedModel := Some (or_none_named (hd un))\<rparr> in
                if max c (rn_estimate s) > rn_cost s then record_figure t (max c (rn_estimate s)) ResultWrite s'
                else s'\<lparr>rn_phase := Closing\<rparr>)
             else record_figure t c ResultWrite s)
      else case usage of
             None \<Rightarrow> s\<lparr>rn_phase := Closing\<rparr>
           | Some u \<Rightarrow>
               (let t = tokensFromUsage u in
                case usage_cost sp s t of
                  Some c \<Rightarrow> record_figure t c ResultWrite s
                | None \<Rightarrow> record_figure t (max (rn_cost s) (rn_estimate s)) ResultWrite
                    (s\<lparr>rn_outcome := Error, rn_unpricedModel := Some (or_none_named (sp_model sp))\<rparr>)))"

section \<open>Steps\<close>

fun pass_step :: "budget_config \<Rightarrow> pass_spec \<Rightarrow> pass_event \<Rightarrow> pass_run \<times> ledger \<Rightarrow> pass_run \<times> ledger" where
  "pass_step cfg sp (Proceed i now) (s, L) =
     (if rn_phase s = Query then (s, L) else (after_await cfg sp s i L, pending_write sp s i now L))"
| "pass_step cfg sp Fail (s, L) = (after_throw s, L)"
| "pass_step cfg sp (Lost i now) (s, L) = (after_throw s, pending_write sp s i now L)"
| "pass_step cfg sp Shutdown (s, L) = (s\<lparr>rn_shutdown := True\<rparr>, L)"
| "pass_step cfg sp (Assistant i m u) (s, L) =
     (if rn_phase s \<noteq> Query then (s, L)
      else (case u of None \<Rightarrow> s | Some u \<Rightarrow> on_assistant sp i m u s, L))"
| "pass_step cfg sp (ResultMsg status byModel usage) (s, L) =
     (if rn_phase s \<noteq> Query then (s, L) else (on_result sp status byModel usage s, L))"
| "pass_step cfg sp StreamEnd (s, L) = (if rn_phase s \<noteq> Query then (s, L) else (loop_done s, L))"
| "pass_step cfg sp StreamThrow (s, L) = (if rn_phase s \<noteq> Query then (s, L) else (loop_threw s, L))"

text \<open>The pass runs only when it has a turn cap.\<close>

definition runs_here :: "string \<Rightarrow> bool" where
  "runs_here pass \<longleftrightarrow> map_of PASS_MAX_TURNS pass \<noteq> None"

end
