(* ===== verification/RunnerFacts.thy ===== *)
theory RunnerFacts
  imports Runner
begin

text \<open>
  What holds of any number of background passes that share a ledger, however their steps interleave:
  the day's spend of a pool stays within its limit, up to what each pass has added since it last
  found the pool within it.
\<close>

section \<open>One row among many\<close>

lemma spentOn_update:
  assumes "filter (\<lambda>r. rw_id r = j) L = [r]"
    and "\<And>x. rw_agent (u x) = rw_agent x \<and> rw_day (u x) = rw_day x \<and> rw_pass (u x) = rw_pass x"
  shows "spentOn agent day f (map (\<lambda>r. if rw_id r = j then u r else r) L) =
     spentOn agent day f L
     + (if rw_agent r = agent \<and> rw_day r = day \<and> counts_pass f (rw_pass r) then rw_cost (u r) - rw_cost r else 0)"
proof -
  obtain A B where L: "L = A @ r # B" "\<forall>x \<in> set A. rw_id x \<noteq> j" "rw_id r = j" "filter (\<lambda>r. rw_id r = j) B = []"
    using assms(1) by (auto simp: filter_eq_Cons_iff)
  have same: "map (\<lambda>r. if rw_id r = j then u r else r) X = X" if "\<forall>x \<in> set X. rw_id x \<noteq> j" for X
    using that by (induction X) auto
  have B: "\<forall>x \<in> set B. rw_id x \<noteq> j" using L(4) by (auto simp: filter_empty_conv)
  show ?thesis
    using L(3) assms(2) [of r] by (simp add: L(1) same [OF L(2)] same [OF B] spentOn_append spentOn_Cons)
qed

lemma filter_id_update:
  assumes "\<And>x. rw_id (u x) = rw_id x"
  shows "filter (\<lambda>r. rw_id r = k) (map (\<lambda>r. if rw_id r = j then u r else r) L) =
     map (\<lambda>r. if rw_id r = j then u r else r) (filter (\<lambda>r. rw_id r = k) L)"
  using assms by (induction L) auto

lemma filter_id_other:
  assumes "\<And>x. rw_id (u x) = rw_id x" "k \<noteq> j"
  shows "filter (\<lambda>r. rw_id r = k) (map (\<lambda>r. if rw_id r = j then u r else r) L) = filter (\<lambda>r. rw_id r = k) L"
  using assms by (induction L) auto

definition progressed :: "token_counts \<Rightarrow> rat \<Rightarrow> run_row \<Rightarrow> run_row" where
  "progressed t c r = (if rw_outcome r = None then r\<lparr>rw_tokens := t, rw_cost := c\<rparr> else r)"

lemma progress_update: "progress i t c L = map (\<lambda>r. if rw_id r = i then progressed t c r else r) L"
  by (auto simp: progress_def progressed_def)

lemma progressed_keeps [simp]:
  "rw_id (progressed t c r) = rw_id r" "rw_agent (progressed t c r) = rw_agent r"
  "rw_day (progressed t c r) = rw_day r" "rw_pass (progressed t c r) = rw_pass r"
  by (simp_all add: progressed_def)

lemma finished_keeps [simp]:
  "rw_id (finished_row t c out un now r) = rw_id r" "rw_agent (finished_row t c out un now r) = rw_agent r"
  "rw_day (finished_row t c out un now r) = rw_day r" "rw_pass (finished_row t c out un now r) = rw_pass r"
  "rw_cost (finished_row t c out un now r) = c"
  by (simp_all add: finished_row_def)

section \<open>Several passes over one ledger\<close>

text \<open>A pass of the system: what it is, where it is, and what it has added to the pool's spend since it
  last found the pool within its limit.\<close>

record slot =
  st_spec :: pass_spec
  st_run :: pass_run
  st_over :: rat

record pool =
  pl_cfg :: budget_config
  pl_agent :: string
  pl_day :: string
  pl_pass :: string

abbreviation pool_spent :: "pool \<Rightarrow> ledger \<Rightarrow> rat" where
  "pool_spent p L \<equiv> spentOn (pl_agent p) (pl_day p) (pool_rows (pl_cfg p) (pl_pass p)) L"

abbreviation pool_bound :: "pool \<Rightarrow> rat" where
  "pool_bound p \<equiv> pool_limit (pl_cfg p) (pl_pass p) + TOLERANCE"

text \<open>The runs that spend from the pool.\<close>

definition in_pool :: "pool \<Rightarrow> pass_spec \<Rightarrow> bool" where
  "in_pool p sp \<longleftrightarrow> sp_agent sp = pl_agent p \<and> sp_day sp = pl_day p
     \<and> counts_pass (pool_rows (pl_cfg p) (pl_pass p)) (sp_pass sp)"

definition reads_pool :: "phase \<Rightarrow> bool" where
  "reads_pool ph \<longleftrightarrow> (case ph of Pool _ \<Rightarrow> True | RecheckPool \<Rightarrow> True | Limit \<Rightarrow> True | _ \<Rightarrow> False)"

definition found_room :: "pool \<Rightarrow> pass_spec \<Rightarrow> pass_run \<Rightarrow> pass_event \<Rightarrow> ledger \<Rightarrow> bool" where
  "found_room p sp s ev L \<longleftrightarrow>
     (case ev of Proceed _ _ \<Rightarrow> True | _ \<Rightarrow> False) \<and> reads_pool (rn_phase s) \<and> in_pool p sp
     \<and> pool_spent p L \<le> pool_bound p"

definition new_over :: "pool \<Rightarrow> slot \<Rightarrow> pass_event \<Rightarrow> ledger \<Rightarrow> ledger \<Rightarrow> rat" where
  "new_over p x ev L L' =
     (if found_room p (st_spec x) (st_run x) ev L then 0
      else max 0 (st_over x + (pool_spent p L' - pool_spent p L)))"

fun new_id :: "pass_event \<Rightarrow> string option" where
  "new_id (Proceed i now) = Some i"
| "new_id (Lost i now) = Some i"
| "new_id _ = None"

text \<open>The passes take their steps in any order. Others may write too (the sweep of stale runs, other
  agents, other pools), as long as they leave the rows of these passes alone and do not raise the
  pool's spend. A new row's id is new.\<close>

inductive passes_reach :: "pool \<Rightarrow> ledger \<Rightarrow> slot list \<times> ledger \<Rightarrow> bool" for p L0 where
  fresh: "list_all (\<lambda>x. st_run x = new_run \<and> st_over x = 0) xs \<Longrightarrow> passes_reach p L0 (xs, L0)"
| step: "passes_reach p L0 (xs, L) \<Longrightarrow> k < length xs
    \<Longrightarrow> pass_step (pl_cfg p) (st_spec (xs ! k)) ev (st_run (xs ! k), L) = (s, L')
    \<Longrightarrow> (\<And>i. new_id ev = Some i \<Longrightarrow> i \<notin> rw_id ` set L)
    \<Longrightarrow> passes_reach p L0 (xs[k := (xs ! k)\<lparr>st_run := s, st_over := new_over p (xs ! k) ev L L'\<rparr>], L')"
| other: "passes_reach p L0 (xs, L) \<Longrightarrow> pool_spent p L' \<le> pool_spent p L
    \<Longrightarrow> (\<And>x j. x \<in> set xs \<Longrightarrow> rn_id (st_run x) = Some j
          \<Longrightarrow> filter (\<lambda>r. rw_id r = j) L' = filter (\<lambda>r. rw_id r = j) L)
    \<Longrightarrow> passes_reach p L0 (xs, L')"

section \<open>The invariant of one pass\<close>

definition own_row :: "pass_spec \<Rightarrow> pass_run \<Rightarrow> ledger \<Rightarrow> run_row \<Rightarrow> bool" where
  "own_row sp s L r \<longleftrightarrow> (\<exists>j. rn_id s = Some j \<and> filter (\<lambda>r. rw_id r = j) L = [r])
     \<and> rw_agent r = sp_agent sp \<and> rw_day r = sp_day sp \<and> rw_pass r = sp_pass sp"

text \<open>\<open>g\<close> is at most what the own row holds.\<close>

definition owes :: "pass_spec \<Rightarrow> pass_run \<Rightarrow> ledger \<Rightarrow> rat \<Rightarrow> bool" where
  "owes sp s L g \<longleftrightarrow> (\<exists>r. own_row sp s L r \<and> g \<le> rw_cost r)"

fun phase_ok :: "pool \<Rightarrow> pass_spec \<Rightarrow> pass_run \<Rightarrow> ledger \<Rightarrow> rat \<Rightarrow> phase \<Rightarrow> bool" where
  "phase_ok p sp s L g (Pool e) \<longleftrightarrow> g = 0 \<and> 0 \<le> e \<and> rn_id s = None"
| "phase_ok p sp s L g (Ran e _) \<longleftrightarrow> g = 0 \<and> 0 \<le> e \<and> rn_id s = None"
| "phase_ok p sp s L g (Reserve e _) \<longleftrightarrow> g = 0 \<and> 0 \<le> e \<and> rn_id s = None"
| "phase_ok p sp s L g Insert \<longleftrightarrow> g = 0 \<and> 0 \<le> rn_estimate s \<and> rn_id s = None"
| "phase_ok p sp s L g RecheckPool \<longleftrightarrow> owes sp s L g"
| "phase_ok p sp s L g (RecheckRan rem) \<longleftrightarrow> owes sp s L g \<and> (- TOLERANCE \<le> rem \<longrightarrow> g = 0)"
| "phase_ok p sp s L g (RecheckReserve rem) \<longleftrightarrow> owes sp s L g \<and> (- TOLERANCE \<le> rem \<longrightarrow> g = 0)"
| "phase_ok p sp s L g Provider \<longleftrightarrow> g = 0 \<and> rn_id s \<noteq> None"
| "phase_ok p sp s L g Query \<longleftrightarrow> g = 0 \<and> rn_id s \<noteq> None"
| "phase_ok p sp s L g (Settle _ out _ c _) \<longleftrightarrow>
     rn_id s \<noteq> None \<and> (out = SkippedBudget \<longrightarrow> c = 0 \<and> owes sp s L g)"
| "phase_ok p sp s L g (Done out _) \<longleftrightarrow> (out = SkippedBudget \<longrightarrow> g = 0)"
| "phase_ok p sp s L g ErrInsert \<longleftrightarrow> rn_id s = None"
| "phase_ok p sp s L g Rejected \<longleftrightarrow> True"
| "phase_ok p sp s L g Blocked \<longleftrightarrow> g = 0 \<and> rn_id s = None"
| "phase_ok p sp s L g (BlockInsert _) \<longleftrightarrow> g = 0 \<and> rn_id s = None"
| "phase_ok p sp s L g Estimate \<longleftrightarrow> g = 0 \<and> rn_id s = None"
| "phase_ok p sp s L g SkipInsert \<longleftrightarrow> g = 0 \<and> rn_id s = None"
| "phase_ok p sp s L g _ \<longleftrightarrow> rn_id s \<noteq> None"

definition slot_inv :: "pool \<Rightarrow> pass_spec \<Rightarrow> pass_run \<Rightarrow> rat \<Rightarrow> ledger \<Rightarrow> bool" where
  "slot_inv p sp s g L \<longleftrightarrow> 0 \<le> g \<and> (\<not> in_pool p sp \<longrightarrow> g = 0) \<and> rn_outcome s \<noteq> SkippedBudget
     \<and> (rn_id s \<noteq> None \<longrightarrow> (\<exists>r. own_row sp s L r)) \<and> phase_ok p sp s L g (rn_phase s)"

lemma own_row_cong:
  assumes "\<And>j. rn_id s = Some j \<Longrightarrow> filter (\<lambda>r. rw_id r = j) L' = filter (\<lambda>r. rw_id r = j) L"
  shows "own_row sp s L' r \<longleftrightarrow> own_row sp s L r"
  using assms by (auto simp: own_row_def)

lemma slot_inv_other:
  assumes "\<And>j. rn_id s = Some j \<Longrightarrow> filter (\<lambda>r. rw_id r = j) L' = filter (\<lambda>r. rw_id r = j) L"
    and "slot_inv p sp s g L"
  shows "slot_inv p sp s g L'"
proof -
  have "own_row sp s L' = own_row sp s L" using own_row_cong [OF assms(1)] by blast
  moreover from this have "owes sp s L' g = owes sp s L g" by (simp add: owes_def)
  ultimately show ?thesis using assms(2)
    by (cases "rn_phase s") (auto simp: slot_inv_def)
qed

section \<open>One step\<close>

lemma same_pool:
  assumes "in_pool p sp"
  shows "poolRemaining (pl_cfg p) (sp_agent sp) (sp_pass sp) (sp_day sp) L = pool_limit (pl_cfg p) (pl_pass p) - pool_spent p L"
proof -
  have "PROACTIVE_PASSES \<noteq> []" "x \<in> set PROACTIVE_PASSES \<longleftrightarrow> isProactive x" for x
    by (simp_all add: PROACTIVE_PASSES_def isProactive_def)
  with assms have "pool_rows (pl_cfg p) (sp_pass sp) = pool_rows (pl_cfg p) (pl_pass p)"
    "pool_limit (pl_cfg p) (sp_pass sp) = pool_limit (pl_cfg p) (pl_pass p)"
    by (auto simp: in_pool_def pool_rows_def pool_limit_def isSplit_def split: if_splits option.splits)
  with assms show ?thesis by (simp add: poolRemaining_def in_pool_def)
qed

lemma start_row_spent:
  "pool_spent p (start_row sp i m c L) = pool_spent p L + (if in_pool p sp then c else 0)"
  by (simp add: start_row_def ledger_start_def spentOn_append spentOn_Cons in_pool_def)

lemma start_row_own:
  assumes "i \<notin> rw_id ` set L" "rn_id s = Some i"
  shows "\<exists>r. own_row sp s (start_row sp i m c L) r \<and> rw_cost r = c"
proof -
  have "filter (\<lambda>r. rw_id r = i) L = []" using assms(1) by (auto simp: filter_empty_conv)
  then show ?thesis using assms(2) by (simp add: start_row_def ledger_start_def own_row_def)
qed

lemma start_row_others: "j \<noteq> i \<Longrightarrow> filter (\<lambda>r. rw_id r = j) (start_row sp i m c L) = filter (\<lambda>r. rw_id r = j) L"
  by (simp add: start_row_def ledger_start_def)

text \<open>A write to the own row.\<close>

lemma own_write:
  assumes "own_row sp s L r" "\<And>x. rw_id (u x) = rw_id x"
    and keeps: "\<And>x. rw_agent (u x) = rw_agent x \<and> rw_day (u x) = rw_day x \<and> rw_pass (u x) = rw_pass x"
    and "L' = map (\<lambda>r. if rw_id r = open_id s then u r else r) L"
  shows "own_row sp s L' (u r)"
    and "pool_spent p L' = pool_spent p L + (if in_pool p sp then rw_cost (u r) - rw_cost r else 0)"
    and "rn_id s \<noteq> Some j \<Longrightarrow> filter (\<lambda>r. rw_id r = j) L' = filter (\<lambda>r. rw_id r = j) L"
proof -
  obtain i where i: "rn_id s = Some i" "filter (\<lambda>r. rw_id r = i) L = [r]"
    and own: "rw_agent r = sp_agent sp" "rw_day r = sp_day sp" "rw_pass r = sp_pass sp"
    using assms(1) by (auto simp: own_row_def)
  have "r \<in> set (filter (\<lambda>r. rw_id r = i) L)" unfolding i(2) by simp
  then have "rw_id r = i" by simp
  then show "own_row sp s L' (u r)"
    using i own keeps [of r] filter_id_update [of u i i L] assms(2,4) by (simp add: own_row_def)
  show "pool_spent p L' = pool_spent p L + (if in_pool p sp then rw_cost (u r) - rw_cost r else 0)"
    using spentOn_update [OF i(2) keeps, of "pl_agent p"] own i(1) assms(4) by (simp add: in_pool_def)
  show "filter (\<lambda>r. rw_id r = j) L' = filter (\<lambda>r. rw_id r = j) L" if "rn_id s \<noteq> Some j"
    using filter_id_other [of u j i L] that i(1) assms(2,4) by auto
qed

text \<open>What a pending write does to the ledger, whatever the phase.\<close>

definition wrote :: "pool \<Rightarrow> pass_spec \<Rightarrow> pass_run \<Rightarrow> string \<Rightarrow> ledger \<Rightarrow> ledger \<Rightarrow> bool" where
  "wrote p sp s i L L' \<longleftrightarrow>
     (\<not> in_pool p sp \<longrightarrow> pool_spent p L' = pool_spent p L)
     \<and> (\<forall>j. rn_id s \<noteq> Some j \<and> j \<noteq> i \<longrightarrow> filter (\<lambda>r. rw_id r = j) L' = filter (\<lambda>r. rw_id r = j) L)
     \<and> (\<forall>j. rn_id s = Some j \<longrightarrow> (\<exists>r. own_row sp s L' r))"

lemma pending_write_wrote:
  assumes "slot_inv p sp s g L" "i \<notin> rw_id ` set L"
  shows "wrote p sp s i L (pending_write sp s i now L)"
proof -
  have start: "wrote p sp s i L (start_row sp i m c L)" if "rn_id s = None" for m c
    using that by (auto simp: wrote_def start_row_spent start_row_others)
  have same: "wrote p sp s i L L" using assms(1) by (auto simp: wrote_def slot_inv_def)
  have own: "wrote p sp s i L L'"
    if "rn_id s \<noteq> None" "\<And>x. rw_id (u x) = rw_id x"
      "\<And>x. rw_agent (u x) = rw_agent x \<and> rw_day (u x) = rw_day x \<and> rw_pass (u x) = rw_pass x"
      "L' = map (\<lambda>r. if rw_id r = open_id s then u r else r) L" for u L'
  proof -
    obtain r where "own_row sp s L r" using assms(1) \<open>rn_id s \<noteq> None\<close> by (auto simp: slot_inv_def)
    note w = own_write [OF this that(2-4)]
    show ?thesis unfolding wrote_def using w by auto
  qed
  have ph: "phase_ok p sp s L g (rn_phase s)" using assms(1) by (simp add: slot_inv_def)
  show ?thesis
  proof (cases "rn_phase s")
    case (TurnWrite x)
    with ph show ?thesis
      by (intro own [of "progressed (rn_tokens s) (rn_cost s)"]) (auto simp: pending_write_def progress_update)
  next
    case ResultWrite
    with ph show ?thesis
      by (intro own [of "progressed (rn_tokens s) (rn_cost s)"]) (auto simp: pending_write_def progress_update)
  next
    case (Settle b out t c un)
    with ph show ?thesis
      by (intro own [of "finished_row t c out un now"]) (auto simp: pending_write_def ledger_finish_def)
  qed (use ph in \<open>auto simp: pending_write_def same start\<close>)
qed

lemma new_over_nonneg: "0 \<le> new_over p x ev L L'"
  by (simp add: new_over_def)

lemma new_over_unchanged:
  "0 \<le> st_over x \<Longrightarrow> \<not> found_room p (st_spec x) (st_run x) ev L \<Longrightarrow> new_over p x ev L L = st_over x"
  by (simp add: new_over_def)

lemma new_over_outside:
  "st_over x = 0 \<Longrightarrow> pool_spent p L' = pool_spent p L \<Longrightarrow> new_over p x ev L L' = 0"
  by (simp add: new_over_def)

lemma end_run_inv:
  "0 \<le> g \<Longrightarrow> (\<not> in_pool p sp \<longrightarrow> g = 0) \<Longrightarrow> rn_outcome s \<noteq> SkippedBudget
     \<Longrightarrow> \<exists>r. own_row sp s L r \<Longrightarrow> slot_inv p sp (end_run s) g L"
  by (auto simp: slot_inv_def end_run_def own_row_def Let_def)

lemma own_row_outcome [simp]: "own_row sp (s\<lparr>rn_outcome := v\<rparr>) L r = own_row sp s L r"
  by (simp add: own_row_def)

lemma loop_end_inv:
  assumes "0 \<le> g" "\<not> in_pool p sp \<longrightarrow> g = 0" "rn_outcome s \<noteq> SkippedBudget" "\<exists>r. own_row sp s L r"
  shows "slot_inv p sp (loop_done s) g L" "slot_inv p sp (loop_threw s) g L"
  using assms by (auto simp: loop_done_def loop_threw_def intro!: end_run_inv)

lemma loop_end_id [simp]: "rn_id (loop_done s) = rn_id s" "rn_id (loop_threw s) = rn_id s"
  by (simp_all add: loop_done_def loop_threw_def end_run_def Let_def)

lemma after_throw_inv:
  assumes "slot_inv p sp s g L" "0 \<le> g'" "\<not> in_pool p sp \<longrightarrow> g' = 0"
    and "rn_id s \<noteq> None \<longrightarrow> (\<exists>r. own_row sp s L' r)"
    and "rn_phase s \<in> {Query, Rejected} \<or> (\<exists>a b. rn_phase s = Done a b) \<Longrightarrow> g' = g \<and> L' = L"
  shows "slot_inv p sp (after_throw s) g' L' \<and> rn_id (after_throw s) = rn_id s"
proof -
  have ph: "phase_ok p sp s L g (rn_phase s)" and out: "rn_outcome s \<noteq> SkippedBudget"
    using assms(1) by (simp_all add: slot_inv_def)
  have start: "slot_inv p sp (start_threw s) g' L' \<and> rn_id (start_threw s) = rn_id s"
    using assms(2-4) out by (auto simp: start_threw_def slot_inv_def own_row_def split: option.split)
  have loop: "slot_inv p sp (loop_threw s) g' L'" if "rn_id s \<noteq> None"
    using assms(2-4) out that by (intro loop_end_inv) auto
  show ?thesis
    using start loop ph assms
    by (cases "rn_phase s") (auto simp: after_throw_def slot_inv_def own_row_def)
qed

lemma record_figure_id [simp]: "rn_id (record_figure t c ph s) = rn_id s"
  "rn_phase (record_figure t c ph s) = ph" "rn_outcome (record_figure t c ph s) = rn_outcome s"
  by (simp_all add: record_figure_def)

lemma own_row_id: "rn_id s' = rn_id s \<Longrightarrow> own_row sp s' L r = own_row sp s L r"
  by (simp add: own_row_def)

lemma query_moves_inv:
  assumes "slot_inv p sp s g L" "rn_phase s = Query" "rn_id s' = rn_id s" "rn_outcome s' \<noteq> SkippedBudget"
    and "(\<exists>u. rn_phase s' = TurnWrite u) \<or> rn_phase s' = ResultWrite \<or> rn_phase s' = Closing"
  shows "slot_inv p sp s' g L"
  using assms own_row_id [OF assms(3)] by (auto simp: slot_inv_def)

lemma on_assistant_moves:
  "rn_id (on_assistant sp i m u s) = rn_id s \<and> rn_outcome (on_assistant sp i m u s) = rn_outcome s
   \<and> (\<exists>u'. rn_phase (on_assistant sp i m u s) = TurnWrite u')"
  by (auto simp: on_assistant_def Let_def split: prod.split)

lemma on_result_moves:
  "rn_id (on_result sp st b u s) = rn_id s \<and> rn_outcome (on_result sp st b u s) \<noteq> SkippedBudget
   \<and> (rn_phase (on_result sp st b u s) = ResultWrite \<or> rn_phase (on_result sp st b u s) = Closing)"
  by (auto simp: on_result_def Let_def split: prod.split option.split result_status.split)

text \<open>A phase that only reads: the ledger stays, and what is owed is forgiven when the pool was found
  within its limit.\<close>

lemma read_over:
  assumes "0 \<le> st_over x"
  shows "new_over p x (Proceed i now) L L =
     (if reads_pool (rn_phase (st_run x)) \<and> in_pool p (st_spec x) \<and> pool_spent p L \<le> pool_bound p then 0 else st_over x)"
  using assms by (simp add: new_over_def found_room_def)

lemma over_le: "0 \<le> st_over x \<Longrightarrow> new_over p x ev L L \<le> st_over x"
  by (simp add: new_over_def)

lemma owes_mono: "owes sp s L g \<Longrightarrow> g' \<le> g \<Longrightarrow> rn_id s' = rn_id s \<Longrightarrow> owes sp s' L g'"
  by (auto simp: owes_def own_row_def intro: order_trans)

lemma gate_inv:
  assumes "slot_inv p sp s g L" "g = 0" "0 \<le> est" "rn_id s = None"
  shows "slot_inv p sp (gate s est rem) g L \<and> rn_id (gate s est rem) = rn_id s"
  using assms by (auto simp: gate_def slot_inv_def)

lemma recheck_inv:
  assumes "slot_inv p sp s g L" "owes sp s L g'" "0 \<le> g'" "\<not> in_pool p sp \<longrightarrow> g' = 0"
    and "- TOLERANCE \<le> rem \<longrightarrow> g' = 0"
  shows "slot_inv p sp (recheck s rem) g' L \<and> rn_id (recheck s rem) = rn_id s"
proof -
  obtain r where r: "own_row sp s L r" using assms(2) by (auto simp: owes_def)
  then have i: "rn_id s \<noteq> None" by (auto simp: own_row_def)
  have "slot_inv p sp (recheck s rem) g' L"
  proof (cases "rem < - TOLERANCE")
    case True
    then show ?thesis using assms r i owes_mono [OF assms(2) order_refl]
      by (auto simp: recheck_def slot_inv_def own_row_def)
  next
    case False
    then show ?thesis using assms r i by (auto simp: recheck_def slot_inv_def own_row_def)
  qed
  then show ?thesis by (simp add: recheck_def)
qed

definition writes :: "phase \<Rightarrow> bool" where
  "writes ph \<longleftrightarrow> (case ph of BlockInsert _ \<Rightarrow> True | SkipInsert \<Rightarrow> True | ErrInsert \<Rightarrow> True
     | Insert \<Rightarrow> True | TurnWrite _ \<Rightarrow> True | ResultWrite \<Rightarrow> True | Settle _ _ _ _ _ \<Rightarrow> True | _ \<Rightarrow> False)"

lemma not_writes: "\<not> writes (rn_phase s) \<Longrightarrow> pending_write sp s i now L = L"
  by (cases "rn_phase s") (simp_all add: writes_def pending_write_def)

lemma proceed_read_inv:
  assumes inv: "slot_inv p (st_spec x) (st_run x) (st_over x) L"
    and reads: "\<not> writes (rn_phase (st_run x))" "rn_phase (st_run x) \<noteq> Query"
  shows "slot_inv p (st_spec x) (after_await (pl_cfg p) (st_spec x) (st_run x) i L)
      (new_over p x (Proceed i now) L L) L
    \<and> rn_id (after_await (pl_cfg p) (st_spec x) (st_run x) i L) = rn_id (st_run x)"
proof -
  let ?sp = "st_spec x" and ?s = "st_run x" and ?g = "st_over x"
  let ?g' = "new_over p x (Proceed i now) L L"
  have g: "0 \<le> ?g" "\<not> in_pool p ?sp \<longrightarrow> ?g = 0" and out: "rn_outcome ?s \<noteq> SkippedBudget"
    and row: "rn_id ?s \<noteq> None \<longrightarrow> (\<exists>r. own_row ?sp ?s L r)"
    and ph: "phase_ok p ?sp ?s L ?g (rn_phase ?s)"
    using inv by (simp_all add: slot_inv_def)
  note g'eq = read_over [OF g(1), of p i now L]
  have g': "0 \<le> ?g'" "?g' \<le> ?g" "\<not> in_pool p ?sp \<longrightarrow> ?g' = 0" "?g = 0 \<longrightarrow> ?g' = 0"
    using g over_le [OF g(1)] by (auto simp: g'eq)
  have room: "?g' = 0" if "reads_pool (rn_phase ?s)"
    "- TOLERANCE \<le> poolRemaining (pl_cfg p) (sp_agent ?sp) (sp_pass ?sp) (sp_day ?sp) L"
  proof (cases "in_pool p ?sp")
    case True
    with that show ?thesis by (simp add: g'eq same_pool algebra_simps)
  qed (use g' in simp)
  have inv': "slot_inv p ?sp ?s 0 L" if "?g = 0" using inv that by simp
  have gates: "slot_inv p ?sp (gate ?s e r) ?g' L \<and> rn_id (gate ?s e r) = rn_id ?s"
    if "?g = 0" "0 \<le> e" "rn_id ?s = None" for e r
    using gate_inv [OF inv' [OF that(1)] refl that(2,3)] g' that(1) by simp
  have plain: "slot_inv p ?sp (?s\<lparr>rn_phase := q\<rparr>) ?g' L" if "phase_ok p ?sp (?s\<lparr>rn_phase := q\<rparr>) L ?g' q" for q
    using that g' out row by (auto simp: slot_inv_def own_row_def)
  have owe: "owes ?sp (?s\<lparr>rn_phase := q\<rparr>) L ?g'" if "owes ?sp ?s L ?g" for q
    using owes_mono [OF that g'(2)] by simp
  show ?thesis
  proof (cases "rn_phase ?s")
    case (Pool e)
    then show ?thesis using ph gates [of e] plain g' by (auto simp: after_await_def Let_def)
  next
    case (Ran e rm)
    then show ?thesis using ph gates [of e] plain g' by (auto simp: after_await_def)
  next
    case (Reserve e rm)
    then show ?thesis using ph gates [of e] by (auto simp: after_await_def)
  next
    case RecheckPool
    let ?rem = "poolRemaining (pl_cfg p) (sp_agent ?sp) (sp_pass ?sp) (sp_day ?sp) L"
    have z: "- TOLERANCE \<le> ?rem \<longrightarrow> ?g' = 0" using room RecheckPool by (simp add: reads_pool_def)
    have o': "owes ?sp ?s L ?g'" using ph RecheckPool owes_mono [OF _ g'(2) refl] by simp
    show ?thesis
      using RecheckPool recheck_inv [OF inv o' g'(1,3) z] plain [of "RecheckRan ?rem"] owe [of "RecheckRan ?rem"] z ph
      by (auto simp: after_await_def Let_def)
  next
    case (RecheckRan rem)
    have z: "- TOLERANCE \<le> rem \<longrightarrow> ?g' = 0" using ph RecheckRan g'(4) by simp
    have o': "owes ?sp ?s L ?g'" using ph RecheckRan owes_mono [OF _ g'(2) refl] by simp
    show ?thesis
      using RecheckRan recheck_inv [OF inv o' g'(1,3) z] plain [of "RecheckReserve rem"] owe [of "RecheckReserve rem"] z ph
      by (auto simp: after_await_def)
  next
    case (RecheckReserve rem)
    let ?rem = "rem - estimateFor (sp_agent ?sp) ''nightly-review'' L"
    have z: "- TOLERANCE \<le> ?rem \<longrightarrow> ?g' = 0"
      using ph RecheckReserve g'(4) estimateFor_nonneg [of "sp_agent ?sp" "''nightly-review''" L] by auto
    have o': "owes ?sp ?s L ?g'" using ph RecheckReserve owes_mono [OF _ g'(2) refl] by simp
    show ?thesis using RecheckReserve recheck_inv [OF inv o' g'(1,3) z] by (auto simp: after_await_def)
  next
    case Limit
    have "?g' = 0" if "\<not> overLimit (pl_cfg p) (sp_agent ?sp) (sp_pass ?sp) (sp_day ?sp) L"
      using room Limit that by (simp add: reads_pool_def overLimit_def)
    then show ?thesis using Limit ph plain [of Query] g' out row
      by (auto simp: after_await_def slot_inv_def own_row_def)
  next
    case Closing
    then show ?thesis using ph g' out row loop_end_inv(1) [of ?g' p ?sp ?s L] by (auto simp: after_await_def)
  next
    case Provider
    then show ?thesis using ph plain g' by (auto simp: after_await_def)
  next
    case Blocked
    then show ?thesis using ph plain g' by (auto simp: after_await_def split: option.split)
  next
    case Estimate
    then show ?thesis using ph plain g' by (auto simp: after_await_def estimateFor_nonneg)
  next
    case (Done a b)
    then show ?thesis using inv ph g' out row by (auto simp: after_await_def slot_inv_def)
  next
    case Rejected
    then show ?thesis using inv ph g' out row by (auto simp: after_await_def slot_inv_def)
  qed (use reads in \<open>simp_all add: writes_def\<close>)
qed

text \<open>A phase that writes.\<close>

lemma proceed_write_inv:
  assumes inv: "slot_inv p (st_spec x) (st_run x) (st_over x) L"
    and writes: "writes (rn_phase (st_run x))"
    and fresh: "i \<notin> rw_id ` set L"
    and L': "L' = pending_write (st_spec x) (st_run x) i now L"
  shows "slot_inv p (st_spec x) (after_await (pl_cfg p) (st_spec x) (st_run x) i L)
      (new_over p x (Proceed i now) L L') L'
    \<and> (rn_id (after_await (pl_cfg p) (st_spec x) (st_run x) i L) = rn_id (st_run x)
       \<or> rn_id (after_await (pl_cfg p) (st_spec x) (st_run x) i L) = Some i)"
proof -
  let ?sp = "st_spec x" and ?s = "st_run x" and ?g = "st_over x"
  let ?g' = "new_over p x (Proceed i now) L L'"
  let ?s' = "after_await (pl_cfg p) ?sp ?s i L"
  have g: "0 \<le> ?g" "\<not> in_pool p ?sp \<longrightarrow> ?g = 0" and out: "rn_outcome ?s \<noteq> SkippedBudget"
    and ph: "phase_ok p ?sp ?s L ?g (rn_phase ?s)"
    using inv by (simp_all add: slot_inv_def)
  have wr: "wrote p ?sp ?s i L L'" unfolding L' by (rule pending_write_wrote [OF inv fresh])
  have noroom: "?g' = max 0 (?g + (pool_spent p L' - pool_spent p L))"
    using writes by (auto simp: new_over_def found_room_def reads_pool_def writes_def split: phase.splits)
  have g': "0 \<le> ?g'" "\<not> in_pool p ?sp \<longrightarrow> ?g' = 0"
    using wr g by (auto simp: noroom wrote_def)
  have row: "rn_id ?s \<noteq> None \<longrightarrow> (\<exists>r. own_row ?sp ?s L' r)" using wr by (auto simp: wrote_def)
  show ?thesis
  proof (cases "rn_phase ?s")
    case Insert
    let ?c = "rn_estimate ?s"
    have "?g' = (if in_pool p ?sp then ?c else 0)"
      unfolding noroom using Insert ph by (auto simp: L' pending_write_def start_row_spent)
    moreover have "\<exists>r. own_row ?sp ?s' L' r \<and> rw_cost r = ?c"
      using Insert by (simp add: L' pending_write_def after_await_def start_row_own [OF fresh])
    ultimately have "owes ?sp ?s' L' ?g'" "\<exists>r. own_row ?sp ?s' L' r" using ph Insert by (auto simp: owes_def)
    then show ?thesis using Insert g' out by (auto simp: after_await_def slot_inv_def own_row_def)
  next
    case (BlockInsert m)
    have "\<exists>r. own_row ?sp ?s' L' r"
      using BlockInsert start_row_own [OF fresh, of ?s' ?sp None 0]
      by (auto simp: L' pending_write_def after_await_def)
    then show ?thesis using BlockInsert g' out by (auto simp: after_await_def slot_inv_def own_row_def)
  next
    case SkipInsert
    have "?g' = 0" unfolding noroom using SkipInsert ph by (simp add: L' pending_write_def start_row_spent)
    moreover have "\<exists>r. own_row ?sp ?s' L' r \<and> rw_cost r = 0"
      using SkipInsert by (simp add: L' pending_write_def after_await_def start_row_own [OF fresh])
    ultimately have "owes ?sp ?s' L' ?g'" "\<exists>r. own_row ?sp ?s' L' r" by (auto simp: owes_def)
    then show ?thesis using SkipInsert g' out by (auto simp: after_await_def slot_inv_def)
  next
    case ErrInsert
    have "\<exists>r. own_row ?sp ?s' L' r"
      using ErrInsert start_row_own [OF fresh, of ?s' ?sp None 0]
      by (auto simp: L' pending_write_def after_await_def)
    then show ?thesis using ErrInsert g' out by (auto simp: after_await_def slot_inv_def own_row_def)
  next
    case (Settle b oc t c un)
    have zero: "?g' = 0" if skipped: "oc = SkippedBudget"
    proof -
      obtain r where r: "own_row ?sp ?s L r" "?g \<le> rw_cost r" and c: "c = 0"
        using ph Settle skipped by (auto simp: owes_def)
      have "pool_spent p L' = pool_spent p L + (if in_pool p ?sp then c - rw_cost r else 0)"
        using own_write(2) [OF r(1), of "finished_row t c oc un now" L'] Settle
        by (simp add: L' pending_write_def ledger_finish_def)
      with r(2) c g show ?thesis by (auto simp: noroom)
    qed
    then show ?thesis using Settle ph g' out row by (auto simp: after_await_def slot_inv_def own_row_def)
  next
    case (TurnWrite u)
    then show ?thesis using ph g' out row
      by (auto simp: after_await_def slot_inv_def own_row_def split: list.split)
  next
    case ResultWrite
    then show ?thesis using ph g' out row by (auto simp: after_await_def slot_inv_def own_row_def)
  qed (use writes in \<open>simp_all add: writes_def\<close>)
qed

lemma quiet_over:
  assumes "slot_inv p (st_spec x) (st_run x) (st_over x) L" "\<And>i now. ev \<noteq> Proceed i now"
  shows "new_over p x ev L L = st_over x"
  using assms by (auto simp: new_over_def found_room_def slot_inv_def split: pass_event.splits)

lemma step_inv:
  assumes inv: "slot_inv p (st_spec x) (st_run x) (st_over x) L"
    and st: "pass_step (pl_cfg p) (st_spec x) ev (st_run x, L) = (s', L')"
    and fresh: "\<And>i. new_id ev = Some i \<Longrightarrow> i \<notin> rw_id ` set L"
  shows "slot_inv p (st_spec x) s' (new_over p x ev L L') L'
    \<and> (rn_id s' = rn_id (st_run x) \<or> rn_id s' = new_id ev)
    \<and> (\<forall>j. rn_id (st_run x) \<noteq> Some j \<and> new_id ev \<noteq> Some j
          \<longrightarrow> filter (\<lambda>r. rw_id r = j) L' = filter (\<lambda>r. rw_id r = j) L)"
proof -
  let ?sp = "st_spec x" and ?s = "st_run x" and ?g = "st_over x"
  have g: "0 \<le> ?g" "\<not> in_pool p ?sp \<longrightarrow> ?g = 0" and out: "rn_outcome ?s \<noteq> SkippedBudget"
    and row: "rn_id ?s \<noteq> None \<longrightarrow> (\<exists>r. own_row ?sp ?s L r)"
    and ph: "phase_ok p ?sp ?s L ?g (rn_phase ?s)"
    using inv by (simp_all add: slot_inv_def)
  have quiet: "slot_inv p ?sp s'' (new_over p x e L L) L" if "slot_inv p ?sp s'' ?g L" "\<And>i now. e \<noteq> Proceed i now" for s'' e
    using quiet_over [OF inv that(2)] that(1) by simp
  show ?thesis
  proof (cases ev)
    case (Proceed i now)
    have fr: "i \<notin> rw_id ` set L" using fresh [of i] Proceed by simp
    show ?thesis
    proof (cases "rn_phase ?s = Query")
      case True
      have "new_over p x ev L L = 0" using ph True g by (simp add: new_over_def)
      then show ?thesis using inv st Proceed True ph by auto
    next
      case False
      with st Proceed have s': "s' = after_await (pl_cfg p) ?sp ?s i L" "L' = pending_write ?sp ?s i now L"
        by simp_all
      have wr: "wrote p ?sp ?s i L L'" unfolding s' by (rule pending_write_wrote [OF inv fr])
      show ?thesis
      proof (cases "writes (rn_phase ?s)")
        case True
        from proceed_write_inv [OF inv True fr s'(2)] wr Proceed s'(1) show ?thesis
          by (auto simp: wrote_def)
      next
        case noW: False
        from proceed_read_inv [OF inv noW False, of i now] not_writes [OF noW] Proceed s' show ?thesis by auto
      qed
    qed
  next
    case Fail
    with st have "s' = after_throw ?s" "L' = L" by simp_all
    then show ?thesis
      using after_throw_inv [OF inv g row] quiet [of _ Fail] Fail by auto
  next
    case (Lost i now)
    with st have s': "s' = after_throw ?s" "L' = pending_write ?sp ?s i now L" by simp_all
    have wr: "wrote p ?sp ?s i L L'" unfolding s' using fresh [of i] Lost by (intro pending_write_wrote [OF inv]) simp
    let ?g' = "new_over p x ev L L'"
    have noroom: "?g' = max 0 (?g + (pool_spent p L' - pool_spent p L))"
      by (simp add: new_over_def found_room_def Lost)
    have g': "0 \<le> ?g'" "\<not> in_pool p ?sp \<longrightarrow> ?g' = 0" using wr g by (auto simp: noroom wrote_def)
    have row': "rn_id ?s \<noteq> None \<longrightarrow> (\<exists>r. own_row ?sp ?s L' r)" using wr by (auto simp: wrote_def)
    have still: "?g' = ?g \<and> L' = L" if "rn_phase ?s \<in> {Query, Rejected} \<or> (\<exists>a b. rn_phase ?s = Done a b)"
    proof -
      have "L' = L" using that by (auto simp: s' pending_write_def)
      then show ?thesis using noroom g by simp
    qed
    from after_throw_inv [OF inv g' row' still] wr Lost s'(1) show ?thesis by (auto simp: wrote_def)
  next
    case Shutdown
    with st have "s' = ?s\<lparr>rn_shutdown := True\<rparr>" "L' = L" by simp_all
    moreover have "slot_inv p ?sp (?s\<lparr>rn_shutdown := True\<rparr>) ?g L"
      using inv by (cases "rn_phase ?s") (auto simp: slot_inv_def own_row_def owes_def)
    ultimately show ?thesis using quiet [of _ Shutdown] Shutdown by auto
  next
    case (Assistant i m u)
    have "slot_inv p ?sp (on_assistant ?sp i m v ?s) ?g L" if "rn_phase ?s = Query" for v
      using query_moves_inv [OF inv that] on_assistant_moves [of ?sp i m v ?s] out by auto
    then show ?thesis
      using st Assistant inv quiet [of _ ev] on_assistant_moves [of ?sp i m _ ?s]
      by (auto split: if_splits option.splits)
  next
    case (ResultMsg status b u)
    have "slot_inv p ?sp (on_result ?sp status b u ?s) ?g L" if "rn_phase ?s = Query"
      using query_moves_inv [OF inv that] on_result_moves [of ?sp status b u ?s] by auto
    then show ?thesis
      using st ResultMsg inv quiet [of _ ev] on_result_moves [of ?sp status b u ?s] by (auto split: if_splits)
  next
    case StreamEnd
    have "slot_inv p ?sp (loop_done ?s) ?g L" if "rn_phase ?s = Query"
      using loop_end_inv(1) [OF g out] row ph that by auto
    then show ?thesis using st StreamEnd inv quiet [of _ ev] by (auto split: if_splits)
  next
    case StreamThrow
    have "slot_inv p ?sp (loop_threw ?s) ?g L" if "rn_phase ?s = Query"
      using loop_end_inv(2) [OF g out] row ph that by auto
    then show ?thesis using st StreamThrow inv quiet [of _ ev] by (auto split: if_splits)
  qed
qed

section \<open>The system\<close>

definition ids_apart :: "slot list \<Rightarrow> bool" where
  "ids_apart xs \<longleftrightarrow> (\<forall>a b j. a < length xs \<longrightarrow> b < length xs \<longrightarrow> rn_id (st_run (xs ! a)) = Some j
     \<longrightarrow> rn_id (st_run (xs ! b)) = Some j \<longrightarrow> a = b)"

definition system_inv :: "pool \<Rightarrow> slot list \<times> ledger \<Rightarrow> bool" where
  "system_inv p = (\<lambda>(xs, L). (\<forall>x \<in> set xs. slot_inv p (st_spec x) (st_run x) (st_over x) L) \<and> ids_apart xs)"

lemma sum_over_update:
  fixes f :: "'a \<Rightarrow> rat"
  shows "k < length xs \<Longrightarrow> sum_list (map f (xs[k := y])) = sum_list (map f xs) + (f y - f (xs ! k))"
  by (induction xs arbitrary: k) (auto split: nat.split)

lemma own_id_listed: "own_row sp s L r \<Longrightarrow> rn_id s = Some j \<Longrightarrow> j \<in> rw_id ` set L"
proof -
  assume "own_row sp s L r" "rn_id s = Some j"
  then have "r \<in> set (filter (\<lambda>r. rw_id r = j) L)" by (auto simp: own_row_def)
  then show ?thesis by force
qed

lemma reach_system_inv: "passes_reach p L0 st \<Longrightarrow> system_inv p st"
proof (induction rule: passes_reach.induct)
  case (fresh xs)
  then show ?case
    by (auto simp: system_inv_def slot_inv_def new_run_def ids_apart_def list_all_iff dest!: nth_mem)
next
  case (step xs L k ev s L')
  let ?x = "xs ! k"
  let ?y = "?x\<lparr>st_run := s, st_over := new_over p ?x ev L L'\<rparr>"
  have all: "slot_inv p (st_spec z) (st_run z) (st_over z) L" if "z \<in> set xs" for z
    using step.IH that by (simp add: system_inv_def)
  have apart: "ids_apart xs" using step.IH by (simp add: system_inv_def)
  note st = step_inv [OF all [OF nth_mem [OF step.hyps(2)]] step.hyps(3,4)]
  have others: "slot_inv p (st_spec (xs ! m)) (st_run (xs ! m)) (st_over (xs ! m)) L'
      \<and> (\<forall>j. rn_id (st_run (xs ! m)) = Some j \<longrightarrow> rn_id s \<noteq> Some j)"
    if m: "m < length xs" "m \<noteq> k" for m
  proof -
    have z: "slot_inv p (st_spec (xs ! m)) (st_run (xs ! m)) (st_over (xs ! m)) L"
      using all nth_mem [OF m(1)] by blast
    have diff: "rn_id (st_run ?x) \<noteq> Some j \<and> new_id ev \<noteq> Some j" if j: "rn_id (st_run (xs ! m)) = Some j" for j
    proof
      show "rn_id (st_run ?x) \<noteq> Some j" using apart m step.hyps(2) j unfolding ids_apart_def by blast
      have "j \<in> rw_id ` set L" using z own_id_listed j by (auto simp: slot_inv_def)
      then show "new_id ev \<noteq> Some j" using step.hyps(4) by blast
    qed
    have "filter (\<lambda>r. rw_id r = j) L' = filter (\<lambda>r. rw_id r = j) L" if "rn_id (st_run (xs ! m)) = Some j" for j
      using st diff [OF that] by simp
    then have "slot_inv p (st_spec (xs ! m)) (st_run (xs ! m)) (st_over (xs ! m)) L'"
      using slot_inv_other z by blast
    moreover have "rn_id s \<noteq> Some j" if "rn_id (st_run (xs ! m)) = Some j" for j
      using st diff [OF that] by auto
    ultimately show ?thesis by blast
  qed
  have "slot_inv p (st_spec z) (st_run z) (st_over z) L'" if "z \<in> set (xs[k := ?y])" for z
  proof -
    have "\<exists>m. m < length (xs[k := ?y]) \<and> xs[k := ?y] ! m = z" using that unfolding in_set_conv_nth .
    then obtain m where m: "m < length xs" "xs[k := ?y] ! m = z" by auto
    show ?thesis
    proof (cases "m = k")
      case True
      with m(2) step.hyps(2) have "z = ?y" by simp
      with st show ?thesis by simp
    next
      case False
      with m(2) have "z = xs ! m" by simp
      with others [OF m(1) False] show ?thesis by simp
    qed
  qed
  moreover have "ids_apart (xs[k := ?y])"
    unfolding ids_apart_def length_list_update
  proof (intro allI impI)
    fix a b j
    assume ab: "a < length xs" "b < length xs" "rn_id (st_run (xs[k := ?y] ! a)) = Some j"
      "rn_id (st_run (xs[k := ?y] ! b)) = Some j"
    consider "a = k" "b = k" | "a = k" "b \<noteq> k" | "a \<noteq> k" "b = k" | "a \<noteq> k" "b \<noteq> k" by blast
    then show "a = b"
    proof cases
      case 4
      with ab apart show ?thesis unfolding ids_apart_def by (metis nth_list_update_neq)
    qed (use ab others in auto)
  qed
  ultimately show ?case by (simp add: system_inv_def)
next
  case (other xs L L')
  have "slot_inv p (st_spec x) (st_run x) (st_over x) L'" if x: "x \<in> set xs" for x
    using slot_inv_other [OF other.hyps(3) [OF x]] other.IH x by (simp add: system_inv_def)
  then show ?case using other.IH by (simp add: system_inv_def)
qed

lemma found_room_bound: "found_room p sp s ev L \<Longrightarrow> pool_spent p L \<le> pool_bound p"
  by (simp add: found_room_def)

lemma found_room_reads:
  assumes "found_room p sp s ev L" "pass_step cfg sp ev (s, L) = (s', L')"
  shows "L' = L"
  using assms by (auto simp: found_room_def reads_pool_def pending_write_def split: pass_event.splits phase.splits if_splits)


text \<open>Steps in a given order.\<close>

fun drive :: "pool \<Rightarrow> (nat \<times> pass_event) list \<Rightarrow> slot list \<times> ledger \<Rightarrow> (slot list \<times> ledger) option" where
  "drive p [] st = Some st"
| "drive p ((k, ev) # es) (xs, L) =
     (if k < length xs \<and> (case new_id ev of Some i \<Rightarrow> i \<notin> set (map rw_id L) | None \<Rightarrow> True)
      then (case pass_step (pl_cfg p) (st_spec (xs ! k)) ev (st_run (xs ! k), L) of (s, L') \<Rightarrow>
              drive p es (xs[k := (xs ! k)\<lparr>st_run := s, st_over := new_over p (xs ! k) ev L L'\<rparr>], L'))
      else None)"

lemma drive_reach: "passes_reach p L0 st \<Longrightarrow> drive p es st = Some st' \<Longrightarrow> passes_reach p L0 st'"
proof (induction p es st rule: drive.induct)
  case (2 p k ev es xs L)
  obtain s L' where st: "pass_step (pl_cfg p) (st_spec (xs ! k)) ev (st_run (xs ! k), L) = (s, L')" by fastforce
  have k: "k < length xs" and new: "i \<notin> rw_id ` set L" if "new_id ev = Some i" for i
    using "2.prems"(2) that by (auto split: if_splits)
  have k': "k < length xs" using "2.prems"(2) by (auto split: if_splits)
  have "passes_reach p L0 (xs[k := (xs ! k)\<lparr>st_run := s, st_over := new_over p (xs ! k) ev L L'\<rparr>], L')"
    by (rule passes_reach.step [OF "2.prems"(1) k' st new])
  with "2.prems"(2) st show ?case by (auto split: if_splits intro: "2.IH" [rotated])
qed simp

definition demo_pool :: pool where
  "demo_pool = \<lparr>pl_cfg = \<lparr>bc_limit = 15/100, bc_proactiveLimit = None\<rparr>, pl_agent = ''a'', pl_day = ''d'',
     pl_pass = ''nightly-review''\<rparr>"

definition demo_slot :: slot where
  "demo_slot = \<lparr>st_spec = \<lparr>sp_agent = ''a'', sp_pass = ''nightly-review'', sp_scope = ''agent'', sp_day = ''d'',
     sp_startedAt = 0, sp_model = [], sp_table = []\<rparr>, st_run = new_run, st_over = 0\<rparr>"

text \<open>Two passes start at once with room for one: both open their rows, both see the other's, both are
  skipped.\<close>

definition demo_steps :: "(nat \<times> pass_event) list" where
  "demo_steps = concat (map (\<lambda>_. [(0, Proceed ''r0'' 0), (1, Proceed ''r1'' 0)]) [0..<3])
     @ [(0, Proceed ''r0'' 0), (1, Proceed ''r1'' 0), (0, Proceed ''r2'' 1), (1, Proceed ''r2'' 1)]"

definition demo_end :: "(slot list \<times> ledger) option" where
  "demo_end = drive demo_pool demo_steps ([demo_slot, demo_slot], [])"


section \<open>A model without a price\<close>

text \<open>What one run can come to, whatever the ledger held at each of its steps.\<close>

inductive run_reach :: "budget_config \<Rightarrow> pass_spec \<Rightarrow> pass_run \<Rightarrow> bool" for cfg sp where
  fresh: "run_reach cfg sp new_run"
| step: "run_reach cfg sp s \<Longrightarrow> pass_step cfg sp ev (s, L) = (s', L') \<Longrightarrow> run_reach cfg sp s'"

definition unpriced_inv :: "pass_run \<Rightarrow> bool" where
  "unpriced_inv s \<longleftrightarrow> (rn_unpricedModel s \<noteq> None \<longrightarrow> rn_estimate s \<le> rn_cost s)
     \<and> (case rn_phase s of
          TurnWrite (m # _) \<Rightarrow> rn_estimate s \<le> rn_cost s
        | Settle _ out _ c (Some m) \<Rightarrow> out = Error \<and> rn_estimate s \<le> c
        | Blocked \<Rightarrow> rn_estimate s = 0 | BlockInsert _ \<Rightarrow> rn_estimate s = 0
        | _ \<Rightarrow> True)
     \<and> (rn_unpricedModel s \<noteq> None \<longrightarrow> (case rn_phase s of
          Closing \<Rightarrow> True | ResultWrite \<Rightarrow> True | Settle _ _ _ _ _ \<Rightarrow> True | Done _ _ \<Rightarrow> True
        | Rejected \<Rightarrow> True | _ \<Rightarrow> False))"

lemma unpriced_end_run:
  "(rn_unpricedModel s \<noteq> None \<longrightarrow> rn_estimate s \<le> rn_cost s) \<Longrightarrow> unpriced_inv (end_run s)"
  by (auto simp: unpriced_inv_def end_run_def Let_def split: option.split)

lemma unpriced_loop_end:
  assumes "rn_unpricedModel s \<noteq> None \<longrightarrow> rn_estimate s \<le> rn_cost s"
  shows "unpriced_inv (loop_done s)" "unpriced_inv (loop_threw s)"
  using assms by (auto simp: loop_done_def loop_threw_def intro!: unpriced_end_run)

lemma unpriced_gate:
  "rn_unpricedModel s = None \<Longrightarrow> unpriced_inv (gate s e r) \<and> unpriced_inv (recheck s r)"
  by (auto simp: unpriced_inv_def gate_def recheck_def)

lemma unpriced_throw: "unpriced_inv s \<Longrightarrow> unpriced_inv (after_throw s)"
proof -
  assume inv: "unpriced_inv s"
  then have "rn_unpricedModel s \<noteq> None \<longrightarrow> rn_estimate s \<le> rn_cost s" by (simp add: unpriced_inv_def)
  note loops = unpriced_loop_end [OF this]
  show ?thesis using inv loops
    by (cases "rn_phase s") (auto simp: after_throw_def start_threw_def unpriced_inv_def split: option.splits)
qed

lemma unpriced_await: "unpriced_inv s \<Longrightarrow> unpriced_inv (after_await cfg sp s i L)"
proof -
  assume inv: "unpriced_inv s"
  then have c: "rn_unpricedModel s \<noteq> None \<longrightarrow> rn_estimate s \<le> rn_cost s" by (simp add: unpriced_inv_def)
  note loops = unpriced_loop_end [OF c]
  show ?thesis
  proof (cases "rn_phase s")
    case Closing
    then show ?thesis using loops by (simp add: after_await_def)
  next
    case (TurnWrite u)
    then show ?thesis using inv by (cases u) (auto simp: after_await_def unpriced_inv_def)
  next
    case (Settle a out t co un)
    then show ?thesis using inv by (auto simp: after_await_def unpriced_inv_def)
  qed (use inv unpriced_gate [of s] in
      \<open>auto simp: after_await_def unpriced_inv_def Let_def split: option.splits\<close>)
qed

lemma unpriced_assistant: "unpriced_inv s \<Longrightarrow> rn_phase s = Query \<Longrightarrow> unpriced_inv (on_assistant sp i m u s)"
  by (auto simp: unpriced_inv_def on_assistant_def record_figure_def Let_def split: prod.split list.split)

lemma unpriced_result: "unpriced_inv s \<Longrightarrow> rn_phase s = Query \<Longrightarrow> unpriced_inv (on_result sp st b u s)"
  by (auto simp: unpriced_inv_def on_result_def record_figure_def Let_def split: prod.split option.split)

lemma run_unpriced_inv: "run_reach cfg sp s \<Longrightarrow> unpriced_inv s"
proof (induction rule: run_reach.induct)
  case fresh
  show ?case by (simp add: unpriced_inv_def new_run_def)
next
  case (step s ev L s' L')
  have down: "unpriced_inv (s\<lparr>rn_shutdown := True\<rparr>)"
    using step.IH by (cases "rn_phase s") (auto simp: unpriced_inv_def split: list.splits option.splits)
  have "rn_unpricedModel s \<noteq> None \<longrightarrow> rn_estimate s \<le> rn_cost s" using step.IH by (simp add: unpriced_inv_def)
  note loops = unpriced_loop_end [OF this]
  show ?case using step.hyps(2) step.IH down loops
    by (cases ev) (auto simp: unpriced_await unpriced_throw unpriced_assistant unpriced_result
        split: if_splits option.splits)
qed

text \<open>A run whose model has no price is never free: it ends as an error at no less than its
  estimate, the model is on its ledger row, and from then on every background pass of the agent that
  starts that day is refused before it asks the model anything.\<close>

theorem unpriced_closes_day:
  assumes "run_reach cfg sp s" "rn_phase s = Settle b out t c (Some m)" "rn_id s = Some i"
    and "r \<in> set L" "rw_id r = i" "rw_agent r = sp_agent sp" "rw_day r = sp_day sp"
    and "L' = snd (pass_step cfg sp (Proceed k now) (s, L))"
    and "sp_agent sp' = sp_agent sp" "sp_day sp' = sp_day sp"
  shows "out = Error \<and> rn_estimate s \<le> c
    \<and> (\<exists>m'. rn_phase (fst (pass_step cfg' sp' (Proceed k' now') (new_run, L'))) = BlockInsert m')"
proof -
  have "out = Error \<and> rn_estimate s \<le> c"
    using run_unpriced_inv [OF assms(1)] assms(2) by (simp add: unpriced_inv_def)
  moreover have L': "L' = ledger_finish i t c out (Some m) now L"
    using assms(2,3,8) by (simp add: pending_write_def)
  let ?blocked = "filter (\<lambda>r. rw_agent r = sp_agent sp \<and> rw_day r = sp_day sp \<and> rw_unpriced r \<noteq> None) L'"
  have "finished_row t c out (Some m) now r \<in> set L'"
    using assms(4,5) by (force simp: L' ledger_finish_def)
  then have "finished_row t c out (Some m) now r \<in> set ?blocked"
    using assms(6,7) by (simp add: finished_row_def)
  then have "finished_row t c out (Some m) now r \<in> set (by_start ?blocked)"
    unfolding by_start_def set_sort .
  then obtain q qs where q: "by_start ?blocked = q # qs" by (cases "by_start ?blocked") auto
  then have "q \<in> set (by_start ?blocked)" by simp
  then have "q \<in> set ?blocked" unfolding by_start_def set_sort .
  then obtain m' where "rw_unpriced q = Some m'" by auto
  with q have "unpricedOn (sp_agent sp') (sp_day sp') L' = Some m'"
    using assms(9,10) by (simp add: unpricedOn_def)
  then have "\<exists>m'. rn_phase (fst (pass_step cfg' sp' (Proceed k' now') (new_run, L'))) = BlockInsert m'"
    by (simp add: new_run_def after_await_def)
  ultimately show ?thesis by blast
qed

definition demo_events :: "pass_event list" where
  "demo_events = replicate 6 (Proceed ''r0'' 0)
     @ [Assistant None ''m'' (Some \<lparr>rp_input = Some 10, rp_output = Some 1, rp_cacheRead = None, rp_cacheWrite = None\<rparr>),
        Proceed ''r0'' 0, Proceed ''r0'' 0]"

definition demo_spec :: pass_spec where
  "demo_spec = st_spec demo_slot"

definition demo_run :: "pass_run \<times> ledger" where
  "demo_run = foldl (\<lambda>st ev. pass_step (pl_cfg demo_pool) demo_spec ev st) (new_run, []) demo_events"

lemma run_reach_foldl:
  "run_reach cfg sp (fst st) \<Longrightarrow> run_reach cfg sp (fst (foldl (\<lambda>st ev. pass_step cfg sp ev st) st evs))"
proof (induction evs arbitrary: st)
  case (Cons ev evs)
  have "run_reach cfg sp (fst (pass_step cfg sp ev st))"
    using Cons.prems by (metis prod.collapse run_reach.step)
  from Cons.IH [OF this] show ?case by simp
qed simp

theorem unpriced_closes_day_witness:
  "\<exists>m'. rn_phase (fst (pass_step (pl_cfg demo_pool) demo_spec (Proceed ''r1'' 2)
      (new_run, snd (pass_step (pl_cfg demo_pool) demo_spec (Proceed ''r0'' 1) demo_run)))) = BlockInsert m'"
proof -
  have reach: "run_reach (pl_cfg demo_pool) demo_spec (fst demo_run)"
    unfolding demo_run_def by (rule run_reach_foldl) (simp add: run_reach.fresh)
  have ph: "rn_phase (fst demo_run) =
      Settle False Error \<lparr>tk_input = 10, tk_output = 1024, tk_cacheRead = 0, tk_cacheWrite = 0\<rparr> (1/10) (Some ''m'')"
    by code_simp
  have i: "rn_id (fst demo_run) = Some ''r0''" by code_simp
  have "map (\<lambda>r. (rw_id r, rw_agent r, rw_day r)) (snd demo_run) = [(''r0'', ''a'', ''d'')]" by code_simp
  then obtain r where r: "snd demo_run = [r]" "rw_id r = ''r0''" "rw_agent r = ''a''" "rw_day r = ''d''" by auto
  have sp: "sp_agent demo_spec = ''a''" "sp_day demo_spec = ''d''" by (simp_all add: demo_spec_def demo_slot_def)
  have m: "r \<in> set (snd demo_run)" using r(1) by simp
  have st: "snd (pass_step (pl_cfg demo_pool) demo_spec (Proceed ''r0'' 1) demo_run) =
      snd (pass_step (pl_cfg demo_pool) demo_spec (Proceed ''r0'' 1) (fst demo_run, snd demo_run))" by simp
  from unpriced_closes_day [OF reach ph i m r(2) _ _ st refl refl] r sp show ?thesis by simp
qed

end
