(* ===== verification/PendingGates.thy ===== *)
theory PendingGates
  imports Prelude "HOL-Library.AList"
begin

text \<open>
  The durable state of gates (\<^verbatim>\<open>src/db/pending-gates.ts\<close>): permission prompts, plan approvals and
  connect buttons as rows of one table. Every statement is one atomic function of the table; a
  payload is the object a row's reader gets back. The two ways the database engines merge a patch into
  a payload are both given, with the law that lets a reader ignore which one runs.
\<close>

section \<open>Rows\<close>

datatype gate_kind = KPerm | KApproval | KMcpConnect

datatype gate_status = GPending | GApproved | GDenied | GExpired | GCancelled

type_synonym jobject = "(string \<times> json) list"

record pending_gate =
  pg_id :: string
  pg_sessionId :: string
  pg_kind :: gate_kind
  pg_payload :: jobject
  pg_status :: gate_status
  pg_resolvedBy :: "string option"
  pg_resolvedAt :: "int option"
  pg_expiresAt :: "int option"
  pg_createdAt :: int
  pg_instanceId :: "string option"

type_synonym gates = "pending_gate list"

record gate_args =
  ga_id :: "string option"
  ga_kind :: gate_kind
  ga_sessionId :: string
  ga_payload :: "jobject option"
  ga_expiresAt :: "int option"

section \<open>Merging a patch into a payload\<close>

text \<open>Postgres' \<open>||\<close> on two objects: the patch's fields replace the payload's.\<close>

definition concat_objects :: "jobject \<Rightarrow> jobject \<Rightarrow> jobject" where
  "concat_objects p q = fold (\<lambda>(k, v) ob. AList.update k v ob) q p"

text \<open>SQLite's \<open>json_patch\<close>, the merge of RFC 7386: a null removes the field, an object is merged.\<close>

fun json_patch :: "json \<Rightarrow> json \<Rightarrow> json" and patch_fields :: "jobject \<Rightarrow> jobject \<Rightarrow> jobject" where
  "json_patch t (JObj fs) = JObj (patch_fields (case t of JObj ob \<Rightarrow> ob | _ \<Rightarrow> []) fs)"
| "json_patch t JNull = JNull"
| "json_patch t (JBool b) = JBool b"
| "json_patch t (JNum n) = JNum n"
| "json_patch t (JStr s) = JStr s"
| "json_patch t (JArr xs) = JArr xs"
| "patch_fields ob [] = ob"
| "patch_fields ob ((k, v) # fs) =
     (if v = JNull then patch_fields (AList.delete k ob) fs
      else patch_fields (AList.update k (json_patch (case map_of ob k of Some w \<Rightarrow> w | None \<Rightarrow> JNull) v) ob) fs)"

text \<open>The patches the gates send: fields that are neither null nor objects.\<close>

fun plain_value :: "json \<Rightarrow> bool" where
  "plain_value JNull = False"
| "plain_value (JObj _) = False"
| "plain_value _ = True"

locale payload_merge =
  fixes merge :: "jobject \<Rightarrow> jobject \<Rightarrow> jobject"
  assumes merge_plain: "list_all (plain_value \<circ> snd) q \<Longrightarrow> map_of (merge p q) = map_of p ++ map_of (rev q)"
begin

lemma merge_field:
  assumes "plain_value v"
  shows "map_of (merge p [(k, v)]) = (map_of p)(k \<mapsto> v)"
  using merge_plain [of "[(k, v)]" p] assms by simp

lemma merge_keeps: "plain_value v \<Longrightarrow> k' \<noteq> k \<Longrightarrow> map_of (merge p [(k, v)]) k' = map_of p k'"
  by (simp add: merge_field)

end

lemma concat_objects_Cons: "concat_objects p ((k, v) # q) = concat_objects (AList.update k v p) q"
  by (simp add: concat_objects_def)

lemma map_of_concat_objects: "map_of (concat_objects p q) = map_of p ++ map_of (rev q)"
proof (induction q arbitrary: p)
  case (Cons x q)
  then show ?case
    by (cases x) (auto simp: concat_objects_Cons update_conv' map_add_def fun_eq_iff split: option.splits)
qed (simp add: concat_objects_def)

lemma json_patch_plain: "plain_value v \<Longrightarrow> json_patch t v = v"
  by (cases v) simp_all

lemma patch_fields_plain:
  "list_all (plain_value \<circ> snd) q \<Longrightarrow> patch_fields p q = concat_objects p q"
proof (induction q arbitrary: p)
  case (Cons x q)
  then show ?case
    by (cases x) (auto simp: concat_objects_Cons json_patch_plain)
qed (simp add: concat_objects_def)

interpretation postgres: payload_merge concat_objects
  by unfold_locales (rule map_of_concat_objects)

interpretation sqlite: payload_merge patch_fields
  by unfold_locales (simp add: patch_fields_plain map_of_concat_objects)

section \<open>Statements\<close>

text \<open>\<open>INSERT\<close>: the id is the table's key, so a second row with it is an error. \<open>fresh\<close> is the id
  \<open>randomUUID\<close> would give, \<open>instance\<close> the process's own.\<close>

definition create :: "string \<Rightarrow> string \<Rightarrow> int \<Rightarrow> gate_args \<Rightarrow> gates \<Rightarrow> (pending_gate \<times> gates) option" where
  "create fresh inst now a T =
     (let i = (case ga_id a of Some i \<Rightarrow> i | None \<Rightarrow> fresh);
          row = \<lparr>pg_id = i, pg_sessionId = ga_sessionId a, pg_kind = ga_kind a,
                 pg_payload = (case ga_payload a of Some p \<Rightarrow> p | None \<Rightarrow> []), pg_status = GPending,
                 pg_resolvedBy = None, pg_resolvedAt = None, pg_expiresAt = ga_expiresAt a,
                 pg_createdAt = now, pg_instanceId = Some inst\<rparr>
      in if i \<in> pg_id ` set T then None else Some (row, T @ [row]))"

definition get_gate :: "string \<Rightarrow> gates \<Rightarrow> pending_gate option" where
  "get_gate i T = find (\<lambda>r. pg_id r = i) T"

definition settle_row :: "(jobject \<Rightarrow> jobject \<Rightarrow> jobject) \<Rightarrow> gate_status \<Rightarrow> string \<Rightarrow> jobject option \<Rightarrow> int
    \<Rightarrow> pending_gate \<Rightarrow> pending_gate" where
  "settle_row merge st by_user patch now r =
     r\<lparr>pg_status := st, pg_resolvedBy := Some by_user, pg_resolvedAt := Some now,
       pg_payload := (case patch of Some q \<Rightarrow> merge (pg_payload r) q | None \<Rightarrow> pg_payload r)\<rparr>"

text \<open>The guarded \<open>UPDATE\<close>: the settled row, or none.\<close>

definition resolve :: "(jobject \<Rightarrow> jobject \<Rightarrow> jobject) \<Rightarrow> string \<Rightarrow> gate_status \<Rightarrow> string \<Rightarrow> jobject option \<Rightarrow> int
    \<Rightarrow> gates \<Rightarrow> pending_gate option \<times> gates" where
  "resolve merge i st by_user patch now T =
     (let hit = (\<lambda>r. pg_id r = i \<and> pg_status r = GPending);
          T' = map (\<lambda>r. if hit r then settle_row merge st by_user patch now r else r) T
      in (map_option (settle_row merge st by_user patch now) (find hit T), T'))"

definition live :: "int \<Rightarrow> pending_gate \<Rightarrow> bool" where
  "live now r \<longleftrightarrow> pg_status r = GPending \<and> (case pg_expiresAt r of None \<Rightarrow> True | Some e \<Rightarrow> e > now)"

definition lapsed :: "int \<Rightarrow> pending_gate \<Rightarrow> bool" where
  "lapsed now r \<longleftrightarrow> pg_status r = GPending \<and> (case pg_expiresAt r of None \<Rightarrow> False | Some e \<Rightarrow> e \<le> now)"

definition countPending :: "int \<Rightarrow> gates \<Rightarrow> nat" where
  "countPending now T = length (filter (live now) T)"

definition expire_row :: "int \<Rightarrow> pending_gate \<Rightarrow> pending_gate" where
  "expire_row now r = r\<lparr>pg_status := GExpired, pg_resolvedBy := Some ''system'', pg_resolvedAt := Some now\<rparr>"

definition sweepExpired :: "int \<Rightarrow> gates \<Rightarrow> pending_gate list \<times> gates" where
  "sweepExpired now T =
     (map (expire_row now) (filter (lapsed now) T), map (\<lambda>r. if lapsed now r then expire_row now r else r) T)"

definition purgeable :: "int \<Rightarrow> int \<Rightarrow> pending_gate \<Rightarrow> bool" where
  "purgeable maxAgeMs now r \<longleftrightarrow> pg_status r \<noteq> GPending
     \<and> (case pg_resolvedAt r of Some t \<Rightarrow> t | None \<Rightarrow> pg_createdAt r) < now - maxAgeMs"

definition purgeSettledOlderThan :: "int \<Rightarrow> int \<Rightarrow> gates \<Rightarrow> nat \<times> gates" where
  "purgeSettledOlderThan maxAgeMs now T =
     (length (filter (purgeable maxAgeMs now) T), filter (\<lambda>r. \<not> purgeable maxAgeMs now r) T)"

section \<open>Facts\<close>

lemmas row_updates = settle_row_def expire_row_def

lemma settle_row_fields [simp]:
  "pg_id (settle_row m st u p t r) = pg_id r" "pg_status (settle_row m st u p t r) = st"
  "pg_sessionId (settle_row m st u p t r) = pg_sessionId r" "pg_kind (settle_row m st u p t r) = pg_kind r"
  "pg_expiresAt (settle_row m st u p t r) = pg_expiresAt r" "pg_instanceId (settle_row m st u p t r) = pg_instanceId r"
  "pg_resolvedBy (settle_row m st u p t r) = Some u" "pg_resolvedAt (settle_row m st u p t r) = Some t"
  by (simp_all add: settle_row_def)

lemma expire_row_fields [simp]:
  "pg_id (expire_row t r) = pg_id r" "pg_status (expire_row t r) = GExpired"
  "pg_payload (expire_row t r) = pg_payload r" "pg_expiresAt (expire_row t r) = pg_expiresAt r"
  "pg_resolvedBy (expire_row t r) = Some ''system''"
  by (simp_all add: expire_row_def)

abbreviation keyed :: "gates \<Rightarrow> bool" where
  "keyed T \<equiv> distinct (map pg_id T)"

lemma get_gate_iff: "keyed T \<Longrightarrow> get_gate i T = Some r \<longleftrightarrow> r \<in> set T \<and> pg_id r = i"
  by (induction T) (auto simp: get_gate_def image_iff)

lemma get_gate_None: "get_gate i T = None \<longleftrightarrow> i \<notin> pg_id ` set T"
  by (induction T) (auto simp: get_gate_def)

lemma get_gate_id: "get_gate i T = Some r \<Longrightarrow> pg_id r = i"
  by (induction T) (auto simp: get_gate_def split: if_splits)

lemma get_gate_mem: "get_gate i T = Some r \<Longrightarrow> r \<in> set T"
  by (induction T) (auto simp: get_gate_def split: if_splits)

lemma get_gate_Cons: "get_gate i (r # T) = (if pg_id r = i then Some r else get_gate i T)"
  by (simp add: get_gate_def)

lemma get_gate_Nil [simp]: "get_gate i [] = None"
  by (simp add: get_gate_def)

lemma get_map_rows:
  assumes "\<And>r. pg_id (f r) = pg_id r"
  shows "get_gate i (map f T) = map_option f (get_gate i T)"
  by (induction T) (auto simp: get_gate_def assms)

lemma get_gate_append:
  "get_gate i (T @ U) = (case get_gate i T of Some r \<Rightarrow> Some r | None \<Rightarrow> get_gate i U)"
  by (induction T) (auto simp: get_gate_def)

lemma get_filter_rows:
  assumes "keyed T"
  shows "get_gate i (filter P T) = (case get_gate i T of Some r \<Rightarrow> if P r then Some r else None | None \<Rightarrow> None)"
  using assms
proof (induction T)
  case (Cons a T)
  then have "get_gate (pg_id a) T = None" by (simp add: get_gate_None)
  with Cons show ?case by (auto simp: get_gate_Cons)
qed simp

text \<open>What each statement does to the row of one id.\<close>

lemma create_get:
  assumes "create fresh inst now a T = Some (row, T')"
  shows "T' = T @ [row]" "pg_id row \<notin> pg_id ` set T" "pg_status row = GPending"
    "get_gate i T' = (if i = pg_id row then Some row else get_gate i T)"
proof -
  show eq: "T' = T @ [row]" "pg_id row \<notin> pg_id ` set T" "pg_status row = GPending"
    using assms by (auto simp: create_def Let_def split: if_splits option.splits)
  show "get_gate i T' = (if i = pg_id row then Some row else get_gate i T)"
    using eq get_gate_None [of "pg_id row" T] by (auto simp: get_gate_append get_gate_Cons split: option.split)
qed

lemma resolve_get:
  assumes "keyed T"
  shows "get_gate j (snd (resolve m i st u p t T)) =
      (case get_gate j T of Some r \<Rightarrow>
         Some (if j = i \<and> pg_status r = GPending then settle_row m st u p t r else r) | None \<Rightarrow> None)"
    and "fst (resolve m i st u p t T) =
      (case get_gate i T of Some r \<Rightarrow>
         if pg_status r = GPending then Some (settle_row m st u p t r) else None | None \<Rightarrow> None)"
proof -
  show "get_gate j (snd (resolve m i st u p t T)) =
      (case get_gate j T of Some r \<Rightarrow>
         Some (if j = i \<and> pg_status r = GPending then settle_row m st u p t r else r) | None \<Rightarrow> None)"
    by (auto simp: resolve_def Let_def get_map_rows dest: get_gate_id split: option.split)
  have "find (\<lambda>r. pg_id r = i \<and> pg_status r = GPending) T =
      (case get_gate i T of Some r \<Rightarrow> if pg_status r = GPending then Some r else None | None \<Rightarrow> None)"
    using assms
  proof (induction T)
    case (Cons a T)
    then have "get_gate (pg_id a) T = None" by (simp add: get_gate_None)
    with Cons show ?case by (auto simp: get_gate_Cons)
  qed simp
  then show "fst (resolve m i st u p t T) =
      (case get_gate i T of Some r \<Rightarrow>
         if pg_status r = GPending then Some (settle_row m st u p t r) else None | None \<Rightarrow> None)"
    by (auto simp: resolve_def Let_def split: option.split)
qed

lemma keyed_map: "(\<And>r. pg_id (f r) = pg_id r) \<Longrightarrow> keyed (map f T) = keyed T"
  by (simp add: comp_def)

lemma keyed_statements [simp]:
  "keyed T \<Longrightarrow> keyed (snd (resolve m i st u p t T))"
  "keyed T \<Longrightarrow> keyed (snd (sweepExpired t T))"
  "keyed T \<Longrightarrow> keyed (snd (purgeSettledOlderThan a t T))"
proof -
  show "keyed T \<Longrightarrow> keyed (snd (resolve m i st u p t T))" for m i st u p t
    unfolding resolve_def Let_def snd_conv by (subst keyed_map) simp_all
  show "keyed T \<Longrightarrow> keyed (snd (sweepExpired t T))"
    unfolding sweepExpired_def snd_conv by (subst keyed_map) simp_all
  show "keyed T \<Longrightarrow> keyed (snd (purgeSettledOlderThan a t T))"
    by (simp add: purgeSettledOlderThan_def distinct_map_filter)
qed

lemma keyed_create: "keyed T \<Longrightarrow> create fresh inst now a T = Some (row, T') \<Longrightarrow> keyed T'"
  using create_get [of fresh inst now a T row T'] by simp

lemma sweep_get:
  "get_gate j (snd (sweepExpired t T)) =
     map_option (\<lambda>r. if lapsed t r then expire_row t r else r) (get_gate j T)"
  by (simp add: sweepExpired_def get_map_rows)

lemma purge_get:
  "keyed T \<Longrightarrow> get_gate j (snd (purgeSettledOlderThan a t T)) =
     (case get_gate j T of Some r \<Rightarrow> if purgeable a t r then None else Some r | None \<Rightarrow> None)"
  by (simp add: purgeSettledOlderThan_def get_filter_rows split: option.split)

section \<open>Any number of clients\<close>

text \<open>The statements of any number of processes, one after another as the database runs them, and the
  rows each of them settled.\<close>

datatype gate_op =
    OCreate string string int gate_args
  | OResolve string gate_status string "jobject option" int
  | OSweep int
  | OPurge int int

fun gate_exec :: "(jobject \<Rightarrow> jobject \<Rightarrow> jobject) \<Rightarrow> gate_op \<Rightarrow> gates \<Rightarrow> pending_gate list \<times> gates" where
  "gate_exec m (OCreate fresh inst now a) T =
     (case create fresh inst now a T of Some (_, T') \<Rightarrow> ([], T') | None \<Rightarrow> ([], T))"
| "gate_exec m (OResolve i st u p t) T =
     (case resolve m i st u p t T of (reply, T') \<Rightarrow> (case reply of Some r \<Rightarrow> [r] | None \<Rightarrow> [], T'))"
| "gate_exec m (OSweep t) T = sweepExpired t T"
| "gate_exec m (OPurge a t) T = ([], snd (purgeSettledOlderThan a t T))"

fun gate_run :: "(jobject \<Rightarrow> jobject \<Rightarrow> jobject) \<Rightarrow> gate_op list \<Rightarrow> gates \<Rightarrow> pending_gate list \<times> gates" where
  "gate_run m [] T = ([], T)"
| "gate_run m (x # xs) T =
     (case gate_exec m x T of (won, T') \<Rightarrow> case gate_run m xs T' of (won', T'') \<Rightarrow> (won @ won', T''))"

text \<open>The id an operation creates, and the statuses a caller may settle with.\<close>

fun created_id :: "gate_op \<Rightarrow> string list" where
  "created_id (OCreate fresh inst now a) = [case ga_id a of Some i \<Rightarrow> i | None \<Rightarrow> fresh]"
| "created_id _ = []"

fun settles :: "gate_op \<Rightarrow> bool" where
  "settles (OResolve i st u p t) = (st \<noteq> GPending)"
| "settles _ = True"

text \<open>The log \<open>L\<close> of settled rows and the table agree, and \<open>F\<close> are the ids still to be created.\<close>

definition log_ok :: "pending_gate list \<Rightarrow> string list \<Rightarrow> gates \<Rightarrow> bool" where
  "log_ok L F T \<longleftrightarrow> keyed T \<and> distinct (map pg_id L) \<and> distinct F
     \<and> (\<forall>r \<in> set T. if pg_status r = GPending then pg_id r \<notin> pg_id ` set L else r \<in> set L)
     \<and> (\<forall>i \<in> set F. i \<notin> pg_id ` set L \<and> i \<notin> pg_id ` set T)"

lemma log_ok_get:
  assumes "keyed T"
  shows "(\<forall>r \<in> set T. Q r) \<longleftrightarrow> (\<forall>i r. get_gate i T = Some r \<longrightarrow> Q r)"
  using assms by (auto simp: get_gate_iff)

lemma log_ok_subset: "log_ok L F T \<Longrightarrow> keyed T' \<Longrightarrow> set T' \<subseteq> set T \<Longrightarrow> log_ok L F T'"
  unfolding log_ok_def by blast

lemma resolve_cases:
  assumes "keyed T"
  obtains "resolve m i st u p t T = (None, T)"
  | r where "get_gate i T = Some r" "r \<in> set T" "pg_id r = i" "pg_status r = GPending"
      "fst (resolve m i st u p t T) = Some (settle_row m st u p t r)"
      "set (snd (resolve m i st u p t T)) = insert (settle_row m st u p t r) (set T - {r})"
proof (cases "\<exists>r \<in> set T. pg_id r = i \<and> pg_status r = GPending")
  case False
  then have "resolve m i st u p t T = (None, T)"
    by (auto simp: resolve_def Let_def find_None_iff intro!: map_idI)
  then show ?thesis by (rule that(1))
next
  case True
  then obtain r where r: "r \<in> set T" "pg_id r = i" "pg_status r = GPending" by blast
  then have g: "get_gate i T = Some r" using assms by (simp add: get_gate_iff)
  have uniq: "x = r" if "x \<in> set T" "pg_id x = i" for x
    using that r(1,2) assms by (auto simp: distinct_map inj_on_def)
  have "(pg_id x = i \<and> pg_status x = GPending) = (x = r)" if "x \<in> set T" for x
    using that r(2,3) uniq by blast
  then have "set (snd (resolve m i st u p t T)) = (\<lambda>x. if x = r then settle_row m st u p t r else x) ` set T"
    by (simp add: resolve_def Let_def cong: image_cong_simp)
  also have "\<dots> = insert (settle_row m st u p t r) (set T - {r})" using r(1) by auto
  finally have "set (snd (resolve m i st u p t T)) = insert (settle_row m st u p t r) (set T - {r})" .
  with g r show ?thesis by (intro that(2)) (simp_all add: resolve_get(2) [OF assms])
qed

lemma log_ok_exec:
  assumes "log_ok L (created_id x @ F) T" "settles x" "gate_exec m x T = (won, T')"
  shows "log_ok (L @ won) F T'"
proof (cases x)
  case (OCreate fresh inst now a)
  show ?thesis
  proof (cases "create fresh inst now a T")
    case None
    with assms OCreate show ?thesis by (auto simp: log_ok_def)
  next
    case (Some y)
    obtain row T2 where y: "y = (row, T2)" by (cases y)
    note c = create_get [OF Some [unfolded y]]
    have "pg_id row \<in> set (created_id x)"
      using Some y OCreate by (auto simp: create_def Let_def split: if_splits)
    moreover have "won = []" "T' = T @ [row]" using assms(3) OCreate Some y c(1) by auto
    ultimately show ?thesis
      using assms(1) c(2,3) by (auto simp: log_ok_def)
  qed
next
  case (OResolve i st u p t)
  have T: "keyed T" using assms(1) by (simp add: log_ok_def)
  have reply: "won = (case fst (resolve m i st u p t T) of Some r \<Rightarrow> [r] | None \<Rightarrow> [])"
    "T' = snd (resolve m i st u p t T)" using assms(3) OResolve by (auto split: prod.splits)
  show ?thesis
  proof (rule resolve_cases [OF T, of m i st u p t])
    assume "resolve m i st u p t T = (None, T)"
    with reply assms(1) OResolve show ?thesis by (auto simp: log_ok_def)
  next
    fix r assume r: "r \<in> set T" "pg_id r = i" "pg_status r = GPending"
      "fst (resolve m i st u p t T) = Some (settle_row m st u p t r)"
      "set (snd (resolve m i st u p t T)) = insert (settle_row m st u p t r) (set T - {r})"
    have "keyed T'" using T reply(2) by simp
    moreover have "pg_id x \<noteq> i" if "x \<in> set T - {r}" for x
      using that r(1,2) T by (auto simp: distinct_map inj_on_def)
    ultimately show ?thesis
      using assms(1,2) reply r OResolve by (auto simp: log_ok_def)
  qed
next
  case (OSweep t)
  have T: "keyed T" using assms(1) by (simp add: log_ok_def)
  have won: "won = map (expire_row t) (filter (lapsed t) T)" "T' = map (\<lambda>r. if lapsed t r then expire_row t r else r) T"
    using assms(3) OSweep by (simp_all add: sweepExpired_def)
  have "keyed T'" using T by (subst won(2), subst keyed_map) simp_all
  have pend: "lapsed t r \<Longrightarrow> pg_status r = GPending" for r by (simp add: lapsed_def)
  have ids: "pg_id ` set T' = pg_id ` set T"
  proof -
    have "map pg_id T' = map pg_id T" by (simp add: won(2))
    then show ?thesis by (metis list.set_map)
  qed
  have setwon: "set won = expire_row t ` {r \<in> set T. lapsed t r}" by (auto simp: won(1))
  have idwon: "pg_id ` set won = pg_id ` {r \<in> set T. lapsed t r}" by (auto simp: setwon image_image)
  have new: "pg_id ` set L \<inter> pg_id ` set won = {}"
  proof -
    have "pg_id r \<notin> pg_id ` set L" if "r \<in> set T" "lapsed t r" for r
    proof -
      have "\<forall>r \<in> set T. if pg_status r = GPending then pg_id r \<notin> pg_id ` set L else r \<in> set L"
        using assms(1) unfolding log_ok_def by blast
      from bspec [OF this that(1)] pend [OF that(2)] show ?thesis by simp
    qed
    then have "x \<notin> pg_id ` {r \<in> set T. lapsed t r}" if "x \<in> pg_id ` set L" for x
      using that by (metis (no_types, lifting) imageE mem_Collect_eq)
    then show ?thesis unfolding idwon disjoint_iff by simp
  qed
  have dist: "distinct (map pg_id (L @ won))"
  proof -
    have "distinct (map pg_id won)" using T by (simp add: won(1) comp_def distinct_map_filter)
    moreover have "distinct (map pg_id L)" using assms(1) by (simp add: log_ok_def)
    ultimately show ?thesis using new by simp
  qed
  have rows: "if pg_status r' = GPending then pg_id r' \<notin> pg_id ` set (L @ won) else r' \<in> set (L @ won)"
    if r': "r' \<in> set T'" for r'
  proof -
    obtain r where r: "r \<in> set T" "r' = (if lapsed t r then expire_row t r else r)" using r' won(2) by auto
    show ?thesis
    proof (cases "lapsed t r")
      case True
      with r setwon show ?thesis by auto
    next
      case False
      have "pg_id r \<notin> pg_id ` set won"
      proof
        assume "pg_id r \<in> pg_id ` set won"
        then obtain x where "x \<in> set T" "lapsed t x" "pg_id x = pg_id r" by (auto simp: idwon)
        moreover then have "x = r" using T r(1) inj_onD [of pg_id "set T" x r] by (simp add: distinct_map)
        ultimately show False using False by simp
      qed
      with assms(1) False r show ?thesis by (auto simp: log_ok_def)
    qed
  qed
  have future: "\<forall>i \<in> set F. i \<notin> pg_id ` set (L @ won) \<and> i \<notin> pg_id ` set T'"
  proof -
    have "pg_id ` set won \<subseteq> pg_id ` set T" using idwon by auto
    moreover have "\<forall>i \<in> set F. i \<notin> pg_id ` set L \<and> i \<notin> pg_id ` set T"
      using assms(1) by (simp add: log_ok_def)
    ultimately show ?thesis unfolding ids set_append image_Un by blast
  qed
  have "distinct F" using assms(1) OSweep by (simp add: log_ok_def)
  with \<open>keyed T'\<close> dist rows future show ?thesis unfolding log_ok_def by blast
next
  case (OPurge a t)
  have "won = []" "set T' \<subseteq> set T" "T' = snd (purgeSettledOlderThan a t T)"
    using assms(3) OPurge by (auto simp: purgeSettledOlderThan_def)
  moreover have "keyed T" using assms(1) by (simp add: log_ok_def)
  ultimately show ?thesis using log_ok_subset [of L F T T'] assms(1) OPurge by simp
qed

lemma log_ok_run:
  assumes "log_ok L (concat (map created_id xs)) T" "list_all settles xs" "gate_run m xs T = (won, T')"
  shows "log_ok (L @ won) [] T'"
  using assms
proof (induction xs arbitrary: L T won)
  case (Cons x xs)
  obtain w1 T1 where x: "gate_exec m x T = (w1, T1)" by (metis prod.exhaust)
  obtain w2 where xs: "gate_run m xs T1 = (w2, T')" "won = w1 @ w2"
    using Cons.prems(3) x by (auto split: prod.splits)
  have "log_ok (L @ w1) (concat (map created_id xs)) T1"
    using log_ok_exec [OF _ _ x] Cons.prems(1,2) by simp
  from Cons.IH [OF this _ xs(1)] Cons.prems(2) xs(2) show ?case by simp
qed simp

text \<open>C23: A gate is settled at most once, whatever clicks, aborts, sweeps and purges of any number of
  processes do in any order: no two statements settle rows of one id, a row that is still pending was
  settled by none, and every settled row a reader finds is exactly the row its one winner was answered.\<close>

theorem gates_settle_once:
  assumes "gate_run m xs [] = (won, T)" "distinct (concat (map created_id xs))" "list_all settles xs"
  shows "distinct (map pg_id won) \<and> (\<forall>i r. get_gate i T = Some r \<longrightarrow>
           (if pg_status r = GPending then i \<notin> pg_id ` set won else r \<in> set won))"
proof -
  have "log_ok ([] @ won) [] T"
    by (rule log_ok_run [OF _ assms(3,1)]) (use assms(2) in \<open>simp add: log_ok_def\<close>)
  then show ?thesis by (auto simp: log_ok_def get_gate_iff)
qed

definition demo_ops :: "gate_op list" where
  "demo_ops = [OCreate ''u'' ''i1'' 0 \<lparr>ga_id = Some ''t1'', ga_kind = KPerm, ga_sessionId = ''s'', ga_payload = None,
       ga_expiresAt = Some 50\<rparr>,
     OResolve ''t1'' GApproved ''U1'' None 10, OResolve ''t1'' GDenied ''U2'' None 11, OSweep 60]"

theorem gates_settle_once_witness:
  "distinct (map pg_id (fst (gate_run concat_objects demo_ops [])))
   \<and> map (\<lambda>r. (pg_id r, pg_status r, pg_resolvedBy r)) (fst (gate_run concat_objects demo_ops []))
       = [(''t1'', GApproved, Some ''U1'')]"
proof
  show "distinct (map pg_id (fst (gate_run concat_objects demo_ops [])))"
    using gates_settle_once [of concat_objects demo_ops, OF surjective_pairing] by (simp add: demo_ops_def)
  show "map (\<lambda>r. (pg_id r, pg_status r, pg_resolvedBy r)) (fst (gate_run concat_objects demo_ops []))
       = [(''t1'', GApproved, Some ''U1'')]" by code_simp
qed

text \<open>The count of waiting gates is the same before and after a sweep, and then it is the number of
  pending rows.\<close>

lemma sweep_count:
  "countPending now (snd (sweepExpired now T)) = countPending now T
   \<and> countPending now (snd (sweepExpired now T)) = length (filter (\<lambda>r. pg_status r = GPending) (snd (sweepExpired now T)))"
  by (induction T) (auto simp: sweepExpired_def countPending_def live_def lapsed_def split: option.splits)

end
