(* ===== verification/PermissionCard.thy ===== *)
theory PermissionCard
  imports Prelude
begin

text \<open>
  What a permission card shows (\<^verbatim>\<open>src/gateway/slack/permission-gate.ts\<close>): text from the agent as visible
  tokens that cannot close the card's fence, hide a character or imitate an escape, and the brief of a
  call as blocks within Slack's limits. Text is a list of Unicode code points; which of them belong to
  the hidden classes of \<open>\p{Cc}\p{Cf}\p{Zl}\p{Zp}\p{Co}\p{Cn}\p{Cs}\<close> is a parameter.
\<close>

section \<open>Literal tokens\<close>

type_synonym text_points = "nat list"

definition points :: "string \<Rightarrow> text_points" where
  "points s = map of_char s"

abbreviation tick :: nat where "tick \<equiv> 96"
abbreviation zwsp :: nat where "zwsp \<equiv> 8203"

definition hex_point :: "nat \<Rightarrow> nat" where
  "hex_point d = (if d < 10 then 48 + d else 55 + d)"

text \<open>\<open>cp.toString(16).toUpperCase()\<close>.\<close>

fun show_hex :: "nat \<Rightarrow> text_points" where
  "show_hex n = (if n < 16 then [hex_point n] else show_hex (n div 16) @ [hex_point (n mod 16)])"

declare show_hex.simps [simp del]

definition padStart4 :: "text_points \<Rightarrow> text_points" where
  "padStart4 xs = replicate (4 - length xs) 48 @ xs"

definition escape_point :: "nat \<Rightarrow> text_points" where
  "escape_point c =
     (if c > 65535 then [92, 117, 123] @ show_hex c @ [125] else [92, 117] @ padStart4 (show_hex c))"

definition literalToken :: "(nat \<Rightarrow> bool) \<Rightarrow> nat \<Rightarrow> text_points" where
  "literalToken hidden c =
     (if c = 38 then points ''&amp;'' else if c = 60 then points ''&lt;'' else if c = 62 then points ''&gt;''
      else if c = 92 then [92, 92] else if c = 10 then [92, 110] else if c = 13 then [92, 114]
      else if c = 9 then [92, 116] else if hidden c then escape_point c else [c])"

text \<open>The loop, with the run of backticks so far.\<close>

fun literal_from :: "(nat \<Rightarrow> bool) \<Rightarrow> nat \<Rightarrow> text_points \<Rightarrow> text_points list" where
  "literal_from hidden ticks [] = []"
| "literal_from hidden ticks (c # s) =
     (let t = (if c = tick then ticks + 1 else 0) in
      if t \<ge> 3 then [zwsp, tick] # literal_from hidden 1 s
      else literalToken hidden c # literal_from hidden t s)"

definition literalTokens :: "(nat \<Rightarrow> bool) \<Rightarrow> text_points \<Rightarrow> text_points list" where
  "literalTokens hidden s = literal_from hidden 0 s"

definition cardLiteral :: "(nat \<Rightarrow> bool) \<Rightarrow> text_points \<Rightarrow> text_points" where
  "cardLiteral hidden s = concat (literalTokens hidden s)"

text \<open>Runs of three or more backticks get a separator between every two.\<close>

fun interleave_zwsp :: "text_points \<Rightarrow> text_points" where
  "interleave_zwsp (a # b # r) = a # zwsp # interleave_zwsp (b # r)"
| "interleave_zwsp r = r"

function unfence :: "text_points \<Rightarrow> text_points" where
  "unfence [] = []"
| "unfence (c # s) =
     (if c \<noteq> tick then c # unfence s
      else let run = takeWhile (\<lambda>x. x = tick) (c # s); rest = dropWhile (\<lambda>x. x = tick) s
           in (if length run \<ge> 3 then interleave_zwsp run else run) @ unfence rest)"
  by pat_completeness auto
termination by (relation "measure length") (auto simp: le_imp_less_Suc length_dropWhile_le)

text \<open>A length in UTF-16 code units, as JavaScript counts it.\<close>

definition len16 :: "text_points \<Rightarrow> nat" where
  "len16 s = sum_list (map (\<lambda>c. if c > 65535 then 2 else 1) s)"

text \<open>\<open>s.slice(0, n)\<close> counts code units too: a pair of surrogates may be cut after its first half.\<close>

fun take16 :: "nat \<Rightarrow> text_points \<Rightarrow> text_points" where
  "take16 n [] = []"
| "take16 n (c # s) =
     (if n = 0 then [] else if c \<le> 65535 then c # take16 (n - 1) s
      else if n = 1 then [55296 + (c - 65536) div 1024] else c # take16 (n - 2) s)"

definition truncated_mark :: text_points where
  "truncated_mark = 10 # 8230 # points ''(truncated)''"

definition truncate_at :: "nat \<Rightarrow> text_points \<Rightarrow> text_points" where
  "truncate_at mx s = (if len16 s \<le> mx then s else take16 mx s @ truncated_mark)"

section \<open>Blocks of a brief\<close>

definition CARD_BLOCK_MAX :: nat where "CARD_BLOCK_MAX = 2900"

text \<open>\<open>brief.split(/\r?\n|\u2028|\u2029/)\<close>.\<close>

fun split_lines :: "text_points \<Rightarrow> text_points list" where
  "split_lines [] = [[]]"
| "split_lines (c # s) =
     (if c = 10 \<or> c = 8232 \<or> c = 8233 then [] # split_lines s
      else if c = 13 \<and> s \<noteq> [] \<and> hd s = 10 then split_lines s
      else case split_lines s of [] \<Rightarrow> [[c]] | l # ls \<Rightarrow> (c # l) # ls)"

definition first_prefix :: text_points where "first_prefix = points ''| ''"
definition next_prefix :: text_points where "next_prefix = points ''|+ ''"

text \<open>A source line as card lines: the first after \<open>first_prefix\<close>, the others after \<open>next_prefix\<close>.\<close>

fun wrap_tokens :: "text_points \<Rightarrow> text_points list \<Rightarrow> text_points list" where
  "wrap_tokens piece [] = [piece]"
| "wrap_tokens piece (tok # toks) =
     (if len16 piece + len16 tok > CARD_BLOCK_MAX then piece # wrap_tokens (next_prefix @ tok) toks
      else wrap_tokens (piece @ tok) toks)"

definition add_line :: "text_points list \<times> text_points \<Rightarrow> text_points \<Rightarrow> text_points list \<times> text_points" where
  "add_line st line =
     (case st of (blocks, cur) \<Rightarrow>
        if cur \<noteq> [] \<and> len16 cur + 1 + len16 line > CARD_BLOCK_MAX then (blocks @ [cur], line)
        else (blocks, if cur = [] then line else cur @ [10] @ line))"

definition brief_lines :: "(nat \<Rightarrow> bool) \<Rightarrow> text_points \<Rightarrow> text_points list" where
  "brief_lines hidden brief =
     concat (map (\<lambda>src. wrap_tokens first_prefix (literalTokens hidden src)) (split_lines brief))"

definition brief_header :: "text_points \<Rightarrow> text_points" where
  "brief_header brief =
     points (''brief ('' @ show_nat (length brief) @ '' characters, written by the agent; shown literally):'')"

definition brief_blocks :: "(nat \<Rightarrow> bool) \<Rightarrow> text_points \<Rightarrow> text_points list" where
  "brief_blocks hidden brief =
     (case foldl add_line ([], brief_header brief) (brief_lines hidden brief) of
        (blocks, cur) \<Rightarrow> if cur \<noteq> [] then blocks @ [cur] else blocks)"

section \<open>Reading a card back\<close>

definition hex_point_val :: "nat \<Rightarrow> nat" where
  "hex_point_val c = (if c < 58 then c - 48 else c - 55)"

definition hex_points_val :: "text_points \<Rightarrow> nat" where
  "hex_points_val s = foldl (\<lambda>n c. 16 * n + hex_point_val c) 0 s"

text \<open>What a reader makes of the shown text: separators are not seen, entities and escapes are read.\<close>

lemma length_drop_rest: "length (dropWhile P (drop k s)) - j \<le> length s"
  using length_dropWhile_le [of P "drop k s"] by simp

function unliteral :: "text_points \<Rightarrow> text_points" where
  "unliteral [] = []"
| "unliteral (c # s) =
     (if c = zwsp then unliteral s
      else if c = 38 then
        (if take 4 s = points ''amp;'' then 38 # unliteral (drop 4 s)
         else if take 3 s = points ''lt;'' then 60 # unliteral (drop 3 s)
         else if take 3 s = points ''gt;'' then 62 # unliteral (drop 3 s) else 38 # unliteral s)
      else if c = 92 then
        (if take 1 s = [92] then 92 # unliteral (drop 1 s)
         else if take 1 s = [110] then 10 # unliteral (drop 1 s)
         else if take 1 s = [114] then 13 # unliteral (drop 1 s)
         else if take 1 s = [116] then 9 # unliteral (drop 1 s)
         else if take 2 s = [117, 123] then
           hex_points_val (takeWhile (\<lambda>x. x \<noteq> 125) (drop 2 s)) # unliteral (drop 1 (dropWhile (\<lambda>x. x \<noteq> 125) (drop 2 s)))
         else if take 1 s = [117] then hex_points_val (take 4 (drop 1 s)) # unliteral (drop 5 s)
         else 92 # unliteral s)
      else c # unliteral s)"
  by pat_completeness auto
termination
  by (relation "measure length") (auto simp: less_Suc_eq_le length_drop_rest)

declare unliteral.simps(2) [simp del]

fun split_nl :: "text_points \<Rightarrow> text_points list" where
  "split_nl [] = [[]]"
| "split_nl (c # s) = (if c = 10 then [] # split_nl s else case split_nl s of [] \<Rightarrow> [[c]] | l # ls \<Rightarrow> (c # l) # ls)"

text \<open>Card lines back to source lines: a line with \<open>next_prefix\<close> continues the one before it.\<close>

definition continues :: "text_points \<Rightarrow> bool" where
  "continues l \<longleftrightarrow> take 3 l = next_prefix"

function join_lines :: "text_points list \<Rightarrow> text_points list" where
  "join_lines [] = []"
| "join_lines (l # ls) =
     (drop 2 l @ concat (map (drop 3) (takeWhile continues ls))) # join_lines (dropWhile continues ls)"
  by pat_completeness auto
termination by (relation "measure length") (auto simp: le_imp_less_Suc length_dropWhile_le)

definition read_card :: "text_points list \<Rightarrow> text_points list" where
  "read_card blocks = map unliteral (join_lines (tl (concat (map split_nl blocks))))"

section \<open>Tokens\<close>

text \<open>The hidden classes hold the control characters, the separator and the line separators, and no
  printable ASCII character.\<close>

definition hidden_ok :: "(nat \<Rightarrow> bool) \<Rightarrow> bool" where
  "hidden_ok hidden \<longleftrightarrow> (\<forall>c < 32. hidden c) \<and> hidden zwsp \<and> hidden 8232 \<and> hidden 8233
     \<and> (\<forall>c. 32 \<le> c \<and> c < 127 \<longrightarrow> \<not> hidden c)"

lemma hex_point_range: "d < 16 \<Longrightarrow> (48 \<le> hex_point d \<and> hex_point d \<le> 57) \<or> (65 \<le> hex_point d \<and> hex_point d \<le> 70)"
  by (auto simp: hex_point_def)

lemma hex_point_val [simp]: "d < 16 \<Longrightarrow> hex_point_val (hex_point d) = d"
  by (auto simp: hex_point_val_def hex_point_def)

lemma show_hex_range: "x \<in> set (show_hex n) \<Longrightarrow> (48 \<le> x \<and> x \<le> 57) \<or> (65 \<le> x \<and> x \<le> 70)"
proof (induction n rule: show_hex.induct)
  case (1 n)
  then show ?case
    using hex_point_range [of n] hex_point_range [of "n mod 16"]
    by (subst (asm) (2) show_hex.simps) (auto split: if_splits)
qed

lemma hex_points_val_snoc: "hex_points_val (xs @ [c]) = 16 * hex_points_val xs + hex_point_val c"
  by (simp add: hex_points_val_def)

lemma hex_points_val_show: "hex_points_val (show_hex n) = n"
proof (induction n rule: show_hex.induct)
  case (1 n)
  show ?case
  proof (cases "n < 16")
    case True
    then show ?thesis by (simp add: show_hex.simps [of n] hex_points_val_def)
  next
    case False
    with 1 show ?thesis by (simp add: show_hex.simps [of n] hex_points_val_snoc)
  qed
qed

lemma hex_points_val_zeros: "hex_points_val (replicate k 48 @ xs) = hex_points_val xs"
  by (induction k) (simp_all add: hex_points_val_def hex_point_val_def)

lemma length_show_hex: "n < 16 ^ Suc k \<Longrightarrow> length (show_hex n) \<le> Suc k"
proof (induction k arbitrary: n)
  case 0
  then show ?case by (simp add: show_hex.simps)
next
  case (Suc k)
  then have "n div 16 < 16 ^ Suc k" by (simp add: less_mult_imp_div_less mult.commute)
  from Suc.IH [OF this] show ?case by (subst show_hex.simps) simp
qed

lemma padStart4_show: "c \<le> 65535 \<Longrightarrow> length (padStart4 (show_hex c)) = 4 \<and> hex_points_val (padStart4 (show_hex c)) = c"
  using length_show_hex [of c 3] by (simp add: padStart4_def hex_points_val_zeros hex_points_val_show)

lemma set_padStart4: "set (padStart4 xs) \<subseteq> insert 48 (set xs)"
  by (auto simp: padStart4_def)

lemma unliteral_simps [simp]:
  "unliteral (8203 # s) = unliteral s"
  "unliteral (38 # 97 # 109 # 112 # 59 # s) = 38 # unliteral s"
  "unliteral (38 # 108 # 116 # 59 # s) = 60 # unliteral s"
  "unliteral (38 # 103 # 116 # 59 # s) = 62 # unliteral s"
  "unliteral (92 # 92 # s) = 92 # unliteral s"
  "unliteral (92 # 110 # s) = 10 # unliteral s"
  "unliteral (92 # 114 # s) = 13 # unliteral s"
  "unliteral (92 # 116 # s) = 9 # unliteral s"
  by (subst unliteral.simps(2), simp add: points_def numeral_eq_Suc)+

lemma unliteral_plain [simp]: "c \<notin> {8203, 38, 92} \<Longrightarrow> unliteral (c # s) = c # unliteral s"
  by (subst unliteral.simps(2)) simp

lemma unliteral_braces:
  "unliteral (92 # 117 # 123 # s) =
     hex_points_val (takeWhile (\<lambda>x. x \<noteq> 125) s) # unliteral (drop 1 (dropWhile (\<lambda>x. x \<noteq> 125) s))"
  by (subst unliteral.simps(2)) (simp add: numeral_eq_Suc)

lemma unliteral_four:
  "take 1 s \<noteq> [123] \<Longrightarrow> unliteral (92 # 117 # s) = hex_points_val (take 4 s) # unliteral (drop 4 s)"
  by (subst unliteral.simps(2)) (cases s; simp add: numeral_eq_Suc)

lemma unliteral_escape:
  assumes "c \<le> 1114111"
  shows "unliteral (escape_point c @ r) = c # unliteral r"
proof (cases "c > 65535")
  case True
  have no: "x \<noteq> 125" if "x \<in> set (show_hex c)" for x using show_hex_range [OF that] by auto
  have "takeWhile (\<lambda>x. x \<noteq> 125) (show_hex c @ 125 # r) = show_hex c"
    "dropWhile (\<lambda>x. x \<noteq> 125) (show_hex c @ 125 # r) = 125 # r"
    using no by (simp_all add: takeWhile_append2 dropWhile_append2)
  with True show ?thesis
    by (simp add: escape_point_def unliteral_braces hex_points_val_show)
next
  case False
  let ?h = "padStart4 (show_hex c)"
  have h: "length ?h = 4" "hex_points_val ?h = c" using padStart4_show [of c] False by auto
  have "hd ?h \<noteq> 123"
  proof -
    have "hd ?h \<in> set ?h" using h(1) by (intro hd_in_set) auto
    then show ?thesis using set_padStart4 [of "show_hex c"] show_hex_range [of "hd ?h" c] by auto
  qed
  then have "take 1 (?h @ r) \<noteq> [123]"
    using h(1) by (cases ?h) auto
  with False h show ?thesis
    by (simp add: escape_point_def unliteral_four)
qed

lemma unliteral_token:
  assumes "hidden_ok hidden" "c \<le> 1114111"
  shows "unliteral (literalToken hidden c @ r) = c # unliteral r"
proof (cases "c \<in> {38, 60, 62, 92, 10, 13, 9}")
  case True
  then show ?thesis
    by (auto simp: literalToken_def points_def)
next
  case False
  have "c \<noteq> zwsp" if "\<not> hidden c" using that assms(1) by (auto simp: hidden_ok_def)
  then show ?thesis
    using False unliteral_escape [OF assms(2), of r] by (auto simp: literalToken_def)
qed

lemma unliteral_from:
  assumes "hidden_ok hidden" "\<forall>c \<in> set s. c \<le> 1114111"
  shows "unliteral (concat (literal_from hidden t s) @ r) = s @ unliteral r"
  using assms(2)
proof (induction s arbitrary: t)
  case (Cons c s)
  then show ?case
    by (auto simp: Let_def unliteral_token [OF assms(1)])
qed simp

text \<open>The text a card shows is the text itself: reading the shown tokens back gives every character of
  the original, so two different texts never look the same and nothing in the text can imitate an
  escape, hide, or stand for another character.\<close>

theorem card_literal_faithful:
  assumes "hidden_ok hidden" "\<forall>c \<in> set s. c \<le> 1114111"
  shows "unliteral (cardLiteral hidden s) = s"
  using unliteral_from [OF assms, of 0 "[]"] by (simp add: cardLiteral_def literalTokens_def)

definition demo_hidden :: "nat \<Rightarrow> bool" where
  "demo_hidden c \<longleftrightarrow> c < 32 \<or> (127 \<le> c \<and> c < 160) \<or> c = 173 \<or> (8203 \<le> c \<and> c \<le> 8207) \<or> (8232 \<le> c \<and> c \<le> 8238)
     \<or> c = 917505"

lemma demo_hidden_ok: "hidden_ok demo_hidden"
  by (simp add: hidden_ok_def demo_hidden_def)

theorem card_literal_faithful_witness:
  "unliteral (cardLiteral demo_hidden [96, 96, 96, 60, 64, 92, 110, 10, 8238, 917505, 97])
     = [96, 96, 96, 60, 64, 92, 110, 10, 8238, 917505, 97]
   \<and> cardLiteral demo_hidden [96, 96, 96, 92, 110] = [96, 96, 8203, 96, 92, 92, 110]"
  using card_literal_faithful [OF demo_hidden_ok, of "[96, 96, 96, 60, 64, 92, 110, 10, 8238, 917505, 97]"]
  by (simp add: cardLiteral_def literalTokens_def literalToken_def demo_hidden_def)

section \<open>The fence\<close>

text \<open>No three backticks in a row.\<close>

fun fence_free :: "text_points \<Rightarrow> bool" where
  "fence_free (a # b # c # s) = (\<not> (a = tick \<and> b = tick \<and> c = tick) \<and> fence_free (b # c # s))"
| "fence_free s = True"

lemma fence_free_split: "x \<noteq> tick \<Longrightarrow> fence_free (u @ x # v) \<longleftrightarrow> fence_free u \<and> fence_free v"
proof (induction u rule: fence_free.induct, goal_cases)
  case (1 a b c s)
  then show ?case by auto
next
  case 2
  then show ?case by (cases v rule: fence_free.cases) auto
next
  case (3 a)
  then show ?case by (cases v rule: fence_free.cases) auto
next
  case (4 a b)
  then show ?case by (cases v rule: fence_free.cases) auto
qed

lemma fence_free_no_tick: "tick \<notin> set u \<Longrightarrow> fence_free u"
  by (induction u rule: fence_free.induct) auto

lemma fence_free_ticks: "t < 3 \<Longrightarrow> fence_free (replicate t tick)"
  by (auto simp: less_Suc_eq numeral_eq_Suc)

lemma token_ticks:
  assumes "c \<noteq> tick"
  shows "tick \<notin> set (literalToken hidden c)" "literalToken hidden c \<noteq> []"
proof -
  have "tick \<notin> set (escape_point c)"
    using show_hex_range [of tick c] set_padStart4 [of "show_hex c"] by (auto simp: escape_point_def)
  then show "tick \<notin> set (literalToken hidden c)" using assms by (auto simp: literalToken_def points_def)
  show "literalToken hidden c \<noteq> []" by (simp add: literalToken_def points_def escape_point_def)
qed

lemma fence_free_from:
  assumes "hidden_ok hidden" "t < 3"
  shows "fence_free (replicate t tick @ concat (literal_from hidden t s))"
  using assms(2)
proof (induction s arbitrary: t)
  case Nil
  then show ?case by (simp add: fence_free_ticks)
next
  case (Cons c s)
  show ?case
  proof (cases "c = tick")
    case True
    have tok: "literalToken hidden tick = [tick]"
      using assms(1) by (simp add: literalToken_def hidden_ok_def)
    show ?thesis
    proof (cases "t + 1 \<ge> 3")
      case True': True
      have "fence_free (replicate t tick @ zwsp # (replicate 1 tick @ concat (literal_from hidden 1 s)))"
        unfolding fence_free_split [of zwsp, simplified]
        using Cons.IH [of 1] fence_free_ticks [OF Cons.prems] by simp
      with True True' show ?thesis by (simp add: Let_def)
    next
      case False
      then have "fence_free (replicate (Suc t) tick @ concat (literal_from hidden (Suc t) s))"
        by (intro Cons.IH) simp
      with True False tok show ?thesis by (simp add: Let_def replicate_app_Cons_same)
    qed
  next
    case False
    obtain x u where tok: "literalToken hidden c = x # u" using token_ticks(2) [OF False, of hidden] by (cases "literalToken hidden c") auto
    have x: "x \<noteq> tick" "tick \<notin> set u" using token_ticks(1) [OF False, of hidden] tok by auto
    have "fence_free (u @ concat (literal_from hidden 0 s))"
    proof (cases u rule: rev_cases)
      case Nil
      then show ?thesis using Cons.IH [of 0] by simp
    next
      case (snoc v y)
      with x(2) have "y \<noteq> tick" "tick \<notin> set v" by auto
      with snoc show ?thesis using Cons.IH [of 0] fence_free_no_tick [of v] by (simp add: fence_free_split)
    qed
    then show ?thesis
      using False tok x(1) fence_free_ticks [OF Cons.prems] by (simp add: Let_def fence_free_split)
  qed
qed

text \<open>The characters a shown text may hold: no line break, no angle bracket, no hidden one.\<close>

definition shown_char :: "(nat \<Rightarrow> bool) \<Rightarrow> nat \<Rightarrow> bool" where
  "shown_char hidden c \<longleftrightarrow> c \<notin> {10, 13, 60, 62} \<and> (c = zwsp \<or> \<not> hidden c)"

lemma token_shown:
  assumes "hidden_ok hidden" "x \<in> set (literalToken hidden c)"
  shows "shown_char hidden x"
proof -
  have vis: "shown_char hidden x" if "32 \<le> x" "x < 127" "x \<notin> {60, 62}" for x
    using assms(1) that by (auto simp: shown_char_def hidden_ok_def)
  show ?thesis
  proof (cases "c \<in> {38, 60, 62, 92, 10, 13, 9} \<or> hidden c")
    case True
    have hx: "32 \<le> y \<and> y < 127 \<and> y \<notin> {60, 62}" if "y \<in> set (show_hex c)" for y
      using show_hex_range [OF that] by auto
    have "32 \<le> x \<and> x < 127 \<and> x \<notin> {60, 62}"
    proof (cases "c \<in> {38, 60, 62, 92, 10, 13, 9}")
      case True
      then show ?thesis using assms(2) by (auto simp: literalToken_def points_def)
    next
      case False
      with True assms(2) have "x \<in> set (escape_point c)" by (auto simp: literalToken_def)
      then have "x \<in> {92, 117, 123, 125, 48} \<or> x \<in> set (show_hex c)"
        using set_padStart4 [of "show_hex c"] by (auto simp: escape_point_def split: if_splits)
      with hx [of x] show ?thesis by auto
    qed
    with vis show ?thesis by blast
  next
    case False
    with assms(2) show ?thesis by (auto simp: literalToken_def shown_char_def)
  qed
qed

lemma literal_from_shown:
  assumes "hidden_ok hidden" "tok \<in> set (literal_from hidden t s)" "x \<in> set tok"
  shows "shown_char hidden x"
  using assms(2)
proof (induction s arbitrary: t)
  case (Cons c s)
  have "shown_char hidden tick" "shown_char hidden zwsp" using assms(1) by (auto simp: shown_char_def hidden_ok_def)
  with Cons assms(3) token_shown [OF assms(1)] show ?case by (auto simp: Let_def split: if_splits)
qed simp

text \<open>C27: A card's literal text cannot break out of its place: it never closes the code fence, starts no
  mention or link, breaks no line and carries no character of the hidden classes but the separator
  the card itself puts between backticks.\<close>

theorem card_literal_confined:
  assumes "hidden_ok hidden"
  shows "fence_free (cardLiteral hidden s) \<and> list_all (shown_char hidden) (cardLiteral hidden s)"
  using fence_free_from [OF assms, of 0 s] literal_from_shown [OF assms, of _ 0 s]
  by (auto simp: cardLiteral_def literalTokens_def list_all_iff)

theorem card_literal_confined_witness:
  "fence_free (cardLiteral demo_hidden [96, 96, 96, 96, 60, 10, 96]) \<and> \<not> fence_free [96, 96, 96, 96, 60, 10, 96]"
  using card_literal_confined [OF demo_hidden_ok, of "[96, 96, 96, 96, 60, 10, 96]"] by simp

lemma fence_free_append: "v = [] \<or> hd v \<noteq> tick \<Longrightarrow> fence_free (u @ v) \<longleftrightarrow> fence_free u \<and> fence_free v"
proof (cases v)
  case (Cons x w)
  assume "v = [] \<or> hd v \<noteq> tick"
  with Cons fence_free_split [of x u w] fence_free_split [of x "[]" w] show ?thesis by simp
qed simp

lemma fence_free_take: "fence_free s \<Longrightarrow> fence_free (take n s)"
proof (induction s arbitrary: n rule: fence_free.induct)
  case (1 a b c s)
  then have IH: "fence_free (take (n - 1) (b # c # s))" by simp
  show ?case
  proof (cases "n \<le> 2")
    case True
    then have "n = 0 \<or> n = 1 \<or> n = 2" by auto
    then show ?thesis by (auto simp: numeral_eq_Suc)
  next
    case False
    then obtain m where "n = Suc (Suc (Suc m))" using less_imp_Suc_add [of 2 n] by auto
    with IH 1(2) show ?thesis by simp
  qed
qed (auto simp: take_Cons' split: if_splits)

lemma fence_free_interleave: "fence_free (interleave_zwsp (replicate n tick))"
proof (induction n)
  case (Suc n)
  show ?case
  proof (cases n)
    case (Suc m)
    then have "interleave_zwsp (replicate (Suc n) tick) = [tick] @ zwsp # interleave_zwsp (replicate n tick)" by simp
    then show ?thesis using Suc.IH fence_free_split [of zwsp "[tick]"] by simp
  qed simp
qed simp

lemma unfence_hd: "s = [] \<or> hd s \<noteq> tick \<Longrightarrow> unfence s = [] \<or> hd (unfence s) \<noteq> tick"
  by (cases s) auto

text \<open>The generic card's JSON cannot close its fence either, and cutting it keeps that.\<close>

lemma fence_free_unfence: "fence_free (unfence s)"
proof (induction s rule: unfence.induct)
  case (2 c s)
  show ?case
  proof (cases "c = tick")
    case False
    with 2(1) fence_free_split [of c "[]" "unfence s"] show ?thesis by simp
  next
    case True
    let ?run = "takeWhile (\<lambda>x. x = tick) (c # s)" and ?rest = "dropWhile (\<lambda>x. x = tick) s"
    have run: "?run = replicate (length ?run) tick"
      by (rule sym, rule replicate_length_same) (auto dest: set_takeWhileD)
    have rest: "unfence ?rest = [] \<or> hd (unfence ?rest) \<noteq> tick"
      by (rule unfence_hd) (use hd_dropWhile [of "\<lambda>x. x = tick" s] in auto)
    have "fence_free (unfence ?rest)" using 2(2) True by simp
    moreover have "fence_free (if length ?run \<ge> 3 then interleave_zwsp ?run else ?run)"
      by (subst (2) run, subst (3) run) (auto simp: fence_free_interleave fence_free_ticks)
    ultimately have "fence_free ((if length ?run \<ge> 3 then interleave_zwsp ?run else ?run) @ unfence ?rest)"
      using fence_free_append [OF rest] by blast
    then show ?thesis using True unfolding unfence.simps Let_def by simp
  qed
qed simp

lemma take16_take: "\<exists>k u. take16 n s = take k s @ u \<and> tick \<notin> set u"
proof (induction n s rule: take16.induct)
  case (2 n c s)
  have more: "\<exists>k u. c # x = take k (c # s) @ u \<and> tick \<notin> set u" if "\<exists>k u. x = take k s @ u \<and> tick \<notin> set u" for x
  proof -
    from that obtain k u where "x = take k s @ u" "tick \<notin> set u" by blast
    then show ?thesis by (intro exI [of _ "Suc k"] exI [of _ u]) simp
  qed
  consider "n = 0" | "n \<noteq> 0" "c \<le> 65535" | "n = 1" "\<not> c \<le> 65535" | "n > 1" "\<not> c \<le> 65535" by linarith
  then show ?case
  proof cases
    case 3
    then show ?thesis by (intro exI [of _ 0]) simp
  next
    case 4
    with 2 show ?thesis using more by simp
  qed (use 2 more in auto)
qed auto

lemma fence_free_take16: "fence_free s \<Longrightarrow> fence_free (take16 n s)"
proof -
  assume s: "fence_free s"
  obtain k u where t: "take16 n s = take k s @ u" "tick \<notin> set u" using take16_take by blast
  then have "u = [] \<or> hd u \<noteq> tick" by (cases u) auto
  from fence_free_append [OF this] t fence_free_take [OF s] fence_free_no_tick [OF t(2)] show ?thesis by simp
qed

lemma fence_free_generic_card: "fence_free (truncate_at mx (unfence s))"
  by (auto simp: truncate_at_def truncated_mark_def points_def fence_free_unfence fence_free_split
      intro: fence_free_take16 [OF fence_free_unfence])

section \<open>The brief's blocks\<close>

lemma len16_append [simp]: "len16 (a @ b) = len16 a + len16 b"
  by (simp add: len16_def)

lemma len16_Cons [simp]: "len16 (c # b) = (if c > 65535 then 2 else 1) + len16 b"
  by (simp add: len16_def)

lemma len16_Nil [simp]: "len16 [] = 0"
  by (simp add: len16_def)

lemma len16_le: "(\<forall>c \<in> set s. c \<le> 65535) \<Longrightarrow> len16 s = length s"
  by (induction s) auto

lemma token_len:
  assumes "c \<le> 1114111"
  shows "len16 (literalToken hidden c) \<le> 10"
proof -
  have "\<forall>x \<in> set (show_hex c). x \<le> 65535" using show_hex_range by fastforce
  then have h: "len16 (show_hex c) = length (show_hex c)" "len16 (padStart4 (show_hex c)) = length (padStart4 (show_hex c))"
    using set_padStart4 [of "show_hex c"] by (auto intro!: len16_le)
  have "length (show_hex c) \<le> 6" using length_show_hex [of c 5] assms by simp
  moreover have "length (padStart4 (show_hex c)) \<le> 6" using \<open>length (show_hex c) \<le> 6\<close> by (simp add: padStart4_def)
  ultimately have "len16 (escape_point c) \<le> 10" using h by (simp add: escape_point_def)
  then show ?thesis by (simp add: literalToken_def points_def)
qed

lemma literal_from_len:
  "\<forall>c \<in> set s. c \<le> 1114111 \<Longrightarrow> tok \<in> set (literal_from hidden t s) \<Longrightarrow> len16 tok \<le> 10"
  by (induction s arbitrary: t) (auto simp: Let_def token_len split: if_splits)

lemma wrap_tokens_len:
  assumes "\<forall>tok \<in> set toks. len16 tok \<le> 10" "len16 piece \<le> CARD_BLOCK_MAX"
  shows "\<forall>l \<in> set (wrap_tokens piece toks). len16 l \<le> CARD_BLOCK_MAX"
  using assms
  by (induction piece toks rule: wrap_tokens.induct)
    (auto simp: next_prefix_def points_def CARD_BLOCK_MAX_def)

text \<open>Every line of \<open>blocks\<close> is one of \<open>lines\<close>, in order, and every block fits.\<close>

definition blocks_ok :: "text_points list \<Rightarrow> text_points list \<Rightarrow> bool" where
  "blocks_ok blocks ls \<longleftrightarrow> concat (map split_nl blocks) = ls \<and> (\<forall>b \<in> set blocks. len16 b \<le> CARD_BLOCK_MAX)"

lemma split_nl_nonempty [simp]: "split_nl s \<noteq> []"
  by (induction s) (auto split: list.splits)

lemma split_nl_no: "10 \<notin> set s \<Longrightarrow> split_nl s = [s]"
  by (induction s) auto

lemma split_nl_join: "split_nl (a @ 10 # b) = split_nl a @ split_nl b"
proof (induction a)
  case (Cons x a)
  obtain l ls where "split_nl a = l # ls" by (cases "split_nl a") auto
  with Cons show ?case by simp
qed simp

lemma add_lines_ok:
  assumes "\<forall>l \<in> set ls. 10 \<notin> set l \<and> l \<noteq> [] \<and> len16 l \<le> CARD_BLOCK_MAX"
    and "cur \<noteq> []" "len16 cur \<le> CARD_BLOCK_MAX" "blocks_ok blocks pre"
  shows "case foldl add_line (blocks, cur) ls of (bs, c) \<Rightarrow> c \<noteq> [] \<and> blocks_ok (bs @ [c]) (pre @ split_nl cur @ ls)"
  using assms
proof (induction ls arbitrary: blocks cur pre)
  case Nil
  then show ?case by (auto simp: blocks_ok_def)
next
  case (Cons l ls)
  have l: "10 \<notin> set l" "l \<noteq> []" "len16 l \<le> CARD_BLOCK_MAX" using Cons.prems(1) by auto
  show ?case
  proof (cases "len16 cur + 1 + len16 l > CARD_BLOCK_MAX")
    case True
    then have step: "add_line (blocks, cur) l = (blocks @ [cur], l)" using Cons.prems(2) by (simp add: add_line_def)
    have "blocks_ok (blocks @ [cur]) (pre @ split_nl cur)" using Cons.prems(3,4) by (auto simp: blocks_ok_def)
    from Cons.IH [OF _ l(2,3) this] Cons.prems(1) l(1) show ?thesis by (simp add: step split_nl_no)
  next
    case False
    then have step: "add_line (blocks, cur) l = (blocks, cur @ [10] @ l)" using Cons.prems(2) by (simp add: add_line_def)
    have "len16 (cur @ [10] @ l) \<le> CARD_BLOCK_MAX" using False by simp
    from Cons.IH [OF _ _ this Cons.prems(4)] Cons.prems(1) l(1) show ?thesis
      by (simp add: step split_nl_join split_nl_no)
  qed
qed

lemma wrap_shape:
  "\<exists>l ls. wrap_tokens piece toks = l # ls \<and> prefix piece l \<and> (\<forall>x \<in> set ls. continues x)
     \<and> l @ concat (map (drop 3) ls) = piece @ concat toks"
proof (induction piece toks rule: wrap_tokens.induct)
  case (2 piece tok toks)
  show ?case
  proof (cases "len16 piece + len16 tok > CARD_BLOCK_MAX")
    case False
    with 2(2) obtain l ls where "wrap_tokens (piece @ tok) toks = l # ls" "prefix (piece @ tok) l" "\<forall>x \<in> set ls. continues x"
      "l @ concat (map (drop 3) ls) = (piece @ tok) @ concat toks" by blast
    with False show ?thesis by (auto dest: append_prefixD)
  next
    case True
    with 2(1) obtain l ls where l: "wrap_tokens (next_prefix @ tok) toks = l # ls" "prefix (next_prefix @ tok) l"
      "\<forall>x \<in> set ls. continues x" "l @ concat (map (drop 3) ls) = (next_prefix @ tok) @ concat toks" by blast
    have n: "length next_prefix = 3" by (simp add: next_prefix_def points_def)
    obtain r where r: "l = next_prefix @ r" using l(2) by (auto simp: prefix_def)
    have "continues l" by (simp add: continues_def r n)
    moreover have "drop 3 l @ concat (map (drop 3) ls) = tok @ concat toks" using l(4) by (simp add: r n)
    ultimately show ?thesis using l(1,3) True by simp
  qed
qed (auto simp: continues_def)

lemma join_group:
  assumes "rest = [] \<or> \<not> continues (hd rest)"
  shows "join_lines (wrap_tokens first_prefix toks @ rest) = concat toks # join_lines rest"
proof -
  obtain l ls where l: "wrap_tokens first_prefix toks = l # ls" "prefix first_prefix l" "\<forall>x \<in> set ls. continues x"
    "l @ concat (map (drop 3) ls) = first_prefix @ concat toks" using wrap_shape by blast
  have n: "length first_prefix = 2" by (simp add: first_prefix_def points_def)
  obtain r where r: "l = first_prefix @ r" using l(2) by (auto simp: prefix_def)
  have "takeWhile continues (ls @ rest) = ls" "dropWhile continues (ls @ rest) = rest"
    using l(3) assms by (cases rest; auto simp: takeWhile_append2 dropWhile_append2)+
  moreover have "drop 2 l @ concat (map (drop 3) ls) = concat toks" using l(4) by (simp add: r n)
  ultimately show ?thesis by (simp add: l(1))
qed

lemma first_not_continues: "\<not> continues (hd (wrap_tokens first_prefix toks))"
proof -
  obtain l ls where l: "wrap_tokens first_prefix toks = l # ls" "prefix first_prefix l" using wrap_shape by blast
  then show ?thesis by (auto simp: continues_def first_prefix_def next_prefix_def points_def prefix_def)
qed

lemma join_all: "join_lines (concat (map (wrap_tokens first_prefix) tss)) = map concat tss"
proof (induction tss)
  case (Cons ts tss)
  have "concat (map (wrap_tokens first_prefix) tss) = []
      \<or> \<not> continues (hd (concat (map (wrap_tokens first_prefix) tss)))"
  proof (cases tss)
    case (Cons u us)
    obtain l ls where "wrap_tokens first_prefix u = l # ls" using wrap_shape by blast
    with Cons first_not_continues [of u] show ?thesis by simp
  qed simp
  then show ?case by (simp add: join_group Cons)
qed simp

lemma set_wrap: "l \<in> set (wrap_tokens piece toks) \<Longrightarrow> x \<in> set l \<Longrightarrow>
    x \<in> set piece \<or> x \<in> set (concat toks) \<or> x \<in> set next_prefix"
  by (induction piece toks rule: wrap_tokens.induct) (auto split: if_splits)

lemma wrap_nonempty: "piece \<noteq> [] \<Longrightarrow> l \<in> set (wrap_tokens piece toks) \<Longrightarrow> l \<noteq> []"
  by (induction piece toks rule: wrap_tokens.induct) (auto simp: next_prefix_def points_def split: if_splits)

lemma split_lines_points: "l \<in> set (split_lines s) \<Longrightarrow> c \<in> set l \<Longrightarrow> c \<in> set s"
proof (induction s arbitrary: l)
  case (Cons x s)
  obtain a ls where a: "split_lines s = a # ls \<or> split_lines s = []" "a # ls \<noteq> []" by (cases "split_lines s") auto
  have mem: "c \<in> set s" if "l' \<in> set (split_lines s)" "c \<in> set l'" for l' by (rule Cons.IH [OF that])
  from Cons.prems a mem [of a] mem [of l] show ?case by (auto split: if_splits)
qed simp

lemma length_show_nat: "n < 10 ^ Suc k \<Longrightarrow> length (show_nat n) \<le> Suc k"
proof (induction k arbitrary: n)
  case 0
  then show ?case by (simp add: show_nat.simps)
next
  case (Suc k)
  then have "n div 10 < 10 ^ Suc k" by (simp add: less_mult_imp_div_less mult.commute)
  from Suc.IH [OF this] show ?case by (subst show_nat.simps) simp
qed

lemma header_ok:
  assumes "length brief < 10 ^ 20"
  shows "10 \<notin> set (brief_header brief)" "brief_header brief \<noteq> []" "len16 (brief_header brief) \<le> CARD_BLOCK_MAX"
proof -
  have "length (show_nat (length brief)) \<le> 20" using length_show_nat [of "length brief" 19] assms by simp
  moreover have p: "len16 (points s) = length s" for s
  proof -
    have "c \<le> 65535" if "c \<in> set (points s)" for c
    proof -
      from that obtain x :: char where c: "c = of_char x" by (auto simp: points_def)
      have "(of_char x :: nat) < 256" by simp
      then show ?thesis unfolding c by linarith
    qed
    then have "\<forall>c \<in> set (points s). c \<le> 65535" by blast
    from len16_le [OF this] show ?thesis by (simp add: points_def)
  qed
  ultimately show "len16 (brief_header brief) \<le> CARD_BLOCK_MAX" by (simp add: brief_header_def CARD_BLOCK_MAX_def)
  show "10 \<notin> set (brief_header brief)" using show_nat_digits [of "length brief"]
    by (auto simp: brief_header_def points_def is_digit_def)
  show "brief_header brief \<noteq> []" by (simp add: brief_header_def points_def)
qed

text \<open>C28: A call's brief is shown whole: its blocks each fit Slack's limit, and reading the blocks back gives
  every line of the brief, character for character, however long its lines are.\<close>

theorem brief_shown_whole:
  assumes "hidden_ok hidden" "\<forall>c \<in> set brief. c \<le> 1114111" "length brief < 10 ^ 20"
  shows "read_card (brief_blocks hidden brief) = split_lines brief
     \<and> (\<forall>b \<in> set (brief_blocks hidden brief). len16 b \<le> CARD_BLOCK_MAX)"
proof -
  let ?src = "split_lines brief"
  let ?ls = "brief_lines hidden brief"
  have pts: "\<forall>c \<in> set s. c \<le> 1114111" if "s \<in> set ?src" for s
    using split_lines_points [OF that] assms(2) by blast
  have lines: "\<forall>l \<in> set ?ls. 10 \<notin> set l \<and> l \<noteq> [] \<and> len16 l \<le> CARD_BLOCK_MAX"
  proof (intro ballI conjI)
    fix l assume "l \<in> set ?ls"
    then obtain s where s: "s \<in> set ?src" "l \<in> set (wrap_tokens first_prefix (literalTokens hidden s))"
      by (auto simp: brief_lines_def)
    show "10 \<notin> set l"
      using set_wrap [OF s(2), of 10] literal_from_shown [OF assms(1), of _ 0 s 10]
      by (auto simp: literalTokens_def shown_char_def first_prefix_def next_prefix_def points_def)
    show "l \<noteq> []" using wrap_nonempty [OF _ s(2)] by (simp add: first_prefix_def points_def)
    show "len16 l \<le> CARD_BLOCK_MAX"
      using wrap_tokens_len [of "literalTokens hidden s" first_prefix] literal_from_len [OF pts [OF s(1)]] s(2)
      by (auto simp: literalTokens_def first_prefix_def points_def CARD_BLOCK_MAX_def)
  qed
  note h = header_ok [OF assms(3)]
  obtain bs c where fold: "foldl add_line ([], brief_header brief) ?ls = (bs, c)" by (metis prod.exhaust)
  from add_lines_ok [OF lines h(2,3), of "[]" "[]"] fold
  have ok: "c \<noteq> []" "blocks_ok (bs @ [c]) (brief_header brief # ?ls)"
    by (simp_all add: blocks_ok_def split_nl_no [OF h(1)])
  have blocks: "brief_blocks hidden brief = bs @ [c]" using fold ok(1) by (simp add: brief_blocks_def)
  have "join_lines ?ls = map (cardLiteral hidden) ?src"
    using join_all [of "map (literalTokens hidden) ?src"]
    by (simp add: brief_lines_def comp_def cardLiteral_def)
  moreover have "unliteral (cardLiteral hidden s) = s" if "s \<in> set ?src" for s
    using unliteral_from [OF assms(1) pts [OF that], of 0 "[]"] by (simp add: cardLiteral_def literalTokens_def)
  ultimately have "map unliteral (join_lines ?ls) = ?src" by (simp add: map_idI)
  then show ?thesis using ok(2) by (simp add: blocks read_card_def blocks_ok_def)
qed

theorem brief_shown_whole_witness:
  "read_card (brief_blocks demo_hidden [72, 105, 13, 10, 96, 96, 96, 60, 8232, 8206]) = [[72, 105], [96, 96, 96, 60], [8206]]"
  using brief_shown_whole [OF demo_hidden_ok, of "[72, 105, 13, 10, 96, 96, 96, 60, 8232, 8206]"] by simp

end
