(* ===== verification/PermissionPolicy.thy ===== *)
theory PermissionPolicy
  imports Access PendingGates
begin

text \<open>
  The decisions around a tool permission that need no state (\<^verbatim>\<open>src/gateway/slack/permission-gate.ts\<close>,
  \<^verbatim>\<open>src/tools/contracts/kb.ts\<close>): which calls never ask, who a prompt's turn belongs to, who may click its
  card, and what a settled row means to the one who asked. The strict check of a voice call and the
  audio policy it needs are parameters.
\<close>

section \<open>Decisions\<close>

text \<open>The permission updates of \<open>always\<close>: the SDK's suggestions, or a rule for the tool in this session.\<close>

datatype perm_updates = Suggested "json list" | SessionRule string

datatype perm_decision = PAllow json "perm_updates option" | PDeny string

definition alwaysAllowUpdates :: "string \<Rightarrow> json list \<Rightarrow> perm_updates" where
  "alwaysAllowUpdates tool suggestions = (if suggestions \<noteq> [] then Suggested suggestions else SessionRule tool)"

section \<open>Auto-allowed tools\<close>

definition MEMORY_TOOL_ALIASES :: "(string \<times> string) list" where
  "MEMORY_TOOL_ALIASES =
     [(''memory_search'', ''kb_search''), (''memory_think'', ''kb_think''), (''memory_get'', ''kb_get_page''),
      (''memory_list'', ''kb_list_pages''), (''memory_save'', ''kb_memoize''), (''memory_delete'', ''kb_delete_page''),
      (''memory_graph'', ''kb_graph''), (''memory_thread_history'', ''kb_thread_history''),
      (''memory_stores'', ''list_kbs''), (''memory_search_stores'', ''search_kbs'')]"

definition ALIAS_TO_MEMORY :: "(string \<times> string) list" where
  "ALIAS_TO_MEMORY = map (\<lambda>(m, a). (a, m)) MEMORY_TOOL_ALIASES"

definition canonicalMemoryTool :: "string \<Rightarrow> string" where
  "canonicalMemoryTool name = (case map_of ALIAS_TO_MEMORY name of Some m \<Rightarrow> m | None \<Rightarrow> name)"

definition isMemoryToolAlias :: "string \<Rightarrow> bool" where
  "isMemoryToolAlias name \<longleftrightarrow> map_of ALIAS_TO_MEMORY name \<noteq> None"

definition memoryToolTwin :: "string \<Rightarrow> string option" where
  "memoryToolTwin name =
     (case map_of MEMORY_TOOL_ALIASES name of Some a \<Rightarrow> Some a | None \<Rightarrow> map_of ALIAS_TO_MEMORY name)"

definition KB_PREFIX :: string where "KB_PREFIX = ''mcp__slaude_kb__''"

definition memoryToolIdTwin :: "string \<Rightarrow> string option" where
  "memoryToolIdTwin toolId =
     (if \<not> starts_with toolId KB_PREFIX then None
      else map_option (\<lambda>t. KB_PREFIX @ t) (memoryToolTwin (drop (length KB_PREFIX) toolId)))"

text \<open>The set of tools named in \<open>SLAUDE_AUTO_ALLOW_TOOLS\<close>, each with its twin.\<close>

definition with_twin :: "string \<Rightarrow> string list" where
  "with_twin raw =
     (let name = js_trim raw in
      if name = [] then []
      else name # (case memoryToolIdTwin name of
                     Some t \<Rightarrow> [t]
                   | None \<Rightarrow> (case memoryToolTwin name of Some t \<Rightarrow> [t] | None \<Rightarrow> [])))"

definition autoAllowFromEnv :: "string option \<Rightarrow> string list" where
  "autoAllowFromEnv v = concat (map with_twin (split_on CHR '','' (case v of Some s \<Rightarrow> s | None \<Rightarrow> [])))"

section \<open>The static policy\<close>

definition VOICE_START :: string where "VOICE_START = ''mcp__slaude_voice__voice_start''"

definition VOICE_MID_CALL_TOOLS :: "string list" where
  "VOICE_MID_CALL_TOOLS =
     [''mcp__slaude_voice__voice_say'', ''mcp__slaude_voice__voice_context'', ''mcp__slaude_voice__voice_stop'']"

text \<open>\<open>/^mcp__.+__(authenticate|complete_authentication)$/\<close>.\<close>

definition synthesised_auth :: "string \<Rightarrow> bool" where
  "synthesised_auth tool \<longleftrightarrow>
     list_ex (\<lambda>suf. starts_with tool ''mcp__'' \<and> ends_with tool suf \<and> length tool > 5 + length suf
       \<and> list_all (\<lambda>c. code_of c \<noteq> 10 \<and> code_of c \<noteq> 13) (take (length tool - 5 - length suf) (drop 5 tool)))
       [''__authenticate'', ''__complete_authentication'']"

definition UNGATED_PREFIXES :: "string list" where
  "UNGATED_PREFIXES = [''mcp__slaude_surface__'', ''mcp__slaude_runtime__'', ''mcp__slaude_slack__'']"

text \<open>What is known of the deployment's audio policy: nothing (a node), that voice is off, or the policy.\<close>

datatype 'a voice_audio = AudioUnknown | AudioOff | AudioPolicy 'a

text \<open>The message of the third branch ends with a dash and a clause that 8-bit strings do not hold. \<open>problem\<close> is \<open>voiceStartProblem\<close>: the code and message of what is wrong with a voice call's input.\<close>

definition permissionPolicy :: "(json \<Rightarrow> 'a voice_audio \<Rightarrow> (string \<times> string) option) \<Rightarrow> string \<Rightarrow> json \<Rightarrow> string list
    \<Rightarrow> 'a voice_audio \<Rightarrow> perm_decision option" where
  "permissionPolicy problem tool input autoAllow audio =
     (let allow = Some (PAllow input None);
          rest =
            (if tool \<in> set autoAllow then allow
             else if synthesised_auth tool then
               Some (PDeny ''OAuth connect must go through `/mcp connect` (or ask me to connect it)'')
             else if starts_with tool ''mcp__slaude_connect__'' then allow
             else if list_ex (\<lambda>p. starts_with tool p) UNGATED_PREFIXES then allow
             else if tool = ''mcp__slaude_skills__list_skills'' \<or> tool = ''mcp__slaude_skills__read_skill'' then allow
             else if starts_with tool ''mcp__slaude_session__'' then allow
             else if starts_with tool ''mcp__slaude_kb__'' then allow
             else if tool \<in> set VOICE_MID_CALL_TOOLS then allow
             else None)
      in if tool = VOICE_START then
           (if audio = AudioOff then Some (PDeny ''VOICE_DISABLED: voice mode is not configured'')
            else case problem input audio of
                   Some (code, msg) \<Rightarrow> Some (PDeny (code @ '': '' @ msg))
                 | None \<Rightarrow> rest)
         else rest)"

text \<open>\<open>gateVoiceAudio\<close>: the gate reads the voice settings for a voice call only.\<close>

definition gateVoiceAudio :: "bool \<Rightarrow> 'a voice_audio \<Rightarrow> string \<Rightarrow> 'a voice_audio" where
  "gateVoiceAudio enabled policy tool =
     (if tool \<noteq> VOICE_START then AudioUnknown else if enabled then policy else AudioOff)"

section \<open>The turn a prompt belongs to\<close>

record turn_stamp =
  ts_initiator :: "string option"
  ts_origin :: "string option"

record sender =
  sn_userId :: string
  sn_origin :: "string option"

record stamp_opts =
  so_synthetic :: bool
  so_origin :: "string option"
  so_expect :: "string option"

definition TURN_ORIGINS :: "string list" where
  "TURN_ORIGINS = [''slack'', ''panel'', ''cron'']"

definition stampFromSenders :: "sender list option \<Rightarrow> stamp_opts \<Rightarrow> turn_stamp" where
  "stampFromSenders senders opts =
     (let sole = (case senders of Some [x] \<Rightarrow> if so_synthetic opts then None else Some x | _ \<Rightarrow> None);
          soleOrigin = (case sole of
             Some x \<Rightarrow> (case sn_origin x of Some w \<Rightarrow> if w \<in> set TURN_ORIGINS then Some w else None | None \<Rightarrow> None)
           | None \<Rightarrow> None);
          origin = (case soleOrigin of Some w \<Rightarrow> Some w | None \<Rightarrow> so_origin opts)
      in \<lparr>ts_initiator =
            (case sole of
               Some x \<Rightarrow> if sn_origin x = Some ''slack'' \<and> sn_userId x \<noteq> []
                           \<and> (so_expect opts = None \<or> so_expect opts = Some (sn_userId x))
                         then Some (sn_userId x) else None
             | None \<Rightarrow> None),
          ts_origin = origin\<rparr>)"

definition liveTurnStamp :: "sender list option \<Rightarrow> bool \<Rightarrow> string option \<Rightarrow> turn_stamp" where
  "liveTurnStamp turnSenders synthetic ctxOrigin =
     stampFromSenders turnSenders \<lparr>so_synthetic = synthetic, so_origin = ctxOrigin, so_expect = None\<rparr>"

definition turnStamp :: "string option \<Rightarrow> string option \<Rightarrow> turn_stamp" where
  "turnStamp userId origin =
     stampFromSenders (if truthy userId then Some [\<lparr>sn_userId = the userId, sn_origin = origin\<rparr>] else None)
       \<lparr>so_synthetic = False, so_origin = origin, so_expect = None\<rparr>"

definition jstr_or_null :: "string option \<Rightarrow> json" where
  "jstr_or_null v = (case v of Some s \<Rightarrow> JStr s | None \<Rightarrow> JNull)"

definition stampPayload :: "turn_stamp option \<Rightarrow> jobject" where
  "stampPayload stamp =
     (''initiator'', jstr_or_null (case stamp of Some t \<Rightarrow> ts_initiator t | None \<Rightarrow> None))
     # (case stamp of
          Some t \<Rightarrow> if truthy (ts_origin t) then [(''origin'', JStr (the (ts_origin t)))] else []
        | None \<Rightarrow> [])"

section \<open>Who may click\<close>

definition strOf :: "json option \<Rightarrow> string option" where
  "strOf v = (case v of Some (JStr s) \<Rightarrow> if s \<noteq> [] then Some s else None | _ \<Rightarrow> None)"

text \<open>\<open>locks\<close> is what the table of one-on-one locks answers, \<open>grants\<close> what the personas' grants are then.\<close>

definition mayDecide :: "(string \<Rightarrow> string \<Rightarrow> string option) \<Rightarrow> (string \<Rightarrow> grant list) \<Rightarrow> jobject \<Rightarrow> string \<Rightarrow> bool" where
  "mayDecide locks grants p who =
     (let channel = strOf (map_of p ''channel''); thread = strOf (map_of p ''threadTs'');
          owner = (case (channel, thread) of (Some c, Some t) \<Rightarrow> locks c t | _ \<Rightarrow> None)
      in canDecidePermission grants
           \<lparr>clicker = who, initiator = strOf (map_of p ''initiator''), lockOwner = owner,
            pa_persona = strOf (map_of p ''personaName''), pa_channel = channel\<rparr>)"

section \<open>What a settled row means\<close>

definition by_name :: "string option \<Rightarrow> string" where
  "by_name u = ''Denied by <@'' @ (case u of Some v \<Rightarrow> v | None \<Rightarrow> ''unknown'') @ ''>''"

definition decisionFromPermRow :: "pending_gate \<Rightarrow> string \<Rightarrow> json \<Rightarrow> json list \<Rightarrow> perm_decision" where
  "decisionFromPermRow row tool input suggestions =
     (case pg_status row of
        GApproved \<Rightarrow> PAllow input (if map_of (pg_payload row) ''decision'' = Some (JStr ''always'')
                                 then Some (alwaysAllowUpdates tool suggestions) else None)
      | GDenied \<Rightarrow> PDeny (by_name (pg_resolvedBy row))
      | GExpired \<Rightarrow> PDeny ''expired before a decision''
      | _ \<Rightarrow> PDeny ''cancelled'')"

section \<open>Facts\<close>

text \<open>Only a Slack message of one person gives a prompt an initiator.\<close>

lemma stamp_initiator:
  "ts_initiator (stampFromSenders senders opts) = Some u \<longleftrightarrow>
     u \<noteq> [] \<and> \<not> so_synthetic opts \<and> senders = Some [\<lparr>sn_userId = u, sn_origin = Some ''slack''\<rparr>]
     \<and> (so_expect opts = None \<or> so_expect opts = Some u)"
proof (cases "\<exists>x. senders = Some [x]")
  case True
  then obtain x where x: "senders = Some [x]" by blast
  have eq: "x = \<lparr>sn_userId = u, sn_origin = Some w\<rparr> \<longleftrightarrow> sn_userId x = u \<and> sn_origin x = Some w" for w
    by (cases x) simp
  show ?thesis
    unfolding x stampFromSenders_def Let_def turn_stamp.simps
    by (cases "so_synthetic opts") (auto simp: eq)
next
  case False
  then have "(case senders of Some [x] \<Rightarrow> if so_synthetic opts then None else Some x | _ \<Rightarrow> None) = None"
    by (auto split: option.splits list.splits)
  with False show ?thesis by (simp add: stampFromSenders_def)
qed

lemma aliases_checked:
  "list_all (\<lambda>(m, a). memoryToolTwin m = Some a \<and> memoryToolTwin a = Some m
     \<and> \<not> starts_with m KB_PREFIX \<and> \<not> starts_with a KB_PREFIX) MEMORY_TOOL_ALIASES"
  by code_simp

lemma twin_cases:
  assumes "memoryToolTwin a = Some b"
  shows "(a, b) \<in> set MEMORY_TOOL_ALIASES \<or> (b, a) \<in> set MEMORY_TOOL_ALIASES"
  using assms by (auto simp: memoryToolTwin_def ALIAS_TO_MEMORY_def split: option.splits dest!: map_of_SomeD)

lemma twin_facts:
  assumes "memoryToolTwin a = Some b"
  shows "memoryToolTwin b = Some a" "\<not> starts_with a KB_PREFIX" "\<not> starts_with b KB_PREFIX"
  using twin_cases [OF assms] aliases_checked by (auto simp: list_all_iff)

text \<open>A memory tool listed under either name is allowed under both.\<close>

lemma autoAllow_twin:
  assumes "a \<in> set (autoAllowFromEnv v)" "memoryToolTwin a = Some b"
  shows "b \<in> set (autoAllowFromEnv v)"
proof -
  note a = twin_facts [OF assms(2)]
  have none: "memoryToolIdTwin a = None" using a(2) by (simp add: memoryToolIdTwin_def)
  from assms(1) obtain w where w: "w \<in> set (split_on CHR '','' (case v of Some s \<Rightarrow> s | None \<Rightarrow> []))" "a \<in> set (with_twin w)"
    by (auto simp: autoAllowFromEnv_def)
  have "b \<in> set (with_twin w)"
  proof (cases "a = js_trim w")
    case True
    with none assms(2) w(2) show ?thesis by (auto simp: with_twin_def Let_def split: if_splits)
  next
    case False
    have tw: "memoryToolTwin (js_trim w) = Some a" if "memoryToolIdTwin (js_trim w) = None"
      using that False w(2) by (auto simp: with_twin_def Let_def split: if_splits option.splits)
    have "memoryToolIdTwin (js_trim w) = None"
    proof (rule ccontr)
      assume n: "memoryToolIdTwin (js_trim w) \<noteq> None"
      then have "memoryToolIdTwin (js_trim w) = Some a"
        using False w(2) by (auto simp: with_twin_def Let_def split: if_splits option.splits)
      then have "starts_with a KB_PREFIX" by (auto simp: memoryToolIdTwin_def split: if_splits)
      with a(2) show False by blast
    qed
    with tw have "memoryToolTwin (js_trim w) = Some a" by blast
    from twin_facts(1) [OF this] assms(2) have "b = js_trim w" by simp
    with w(2) show ?thesis by (auto simp: with_twin_def Let_def split: if_splits)
  qed
  with w(1) show ?thesis by (auto simp: autoAllowFromEnv_def)
qed

text \<open>What is allowed without a prompt: a tool the operator listed, or one of the gateway's own.\<close>

definition own_tool :: "string \<Rightarrow> bool" where
  "own_tool tool \<longleftrightarrow> list_ex (\<lambda>p. starts_with tool p)
     (''mcp__slaude_connect__'' # ''mcp__slaude_session__'' # ''mcp__slaude_kb__'' # ''mcp__slaude_skills__''
      # ''mcp__slaude_voice__'' # UNGATED_PREFIXES)"

lemma policy_allow:
  assumes "permissionPolicy problem tool input autoAllow audio = Some (PAllow inp ups)"
  shows "inp = input" "ups = None" "tool \<in> set autoAllow \<or> own_tool tool \<and> \<not> synthesised_auth tool"
    "tool = VOICE_START \<longrightarrow> tool \<in> set autoAllow \<and> audio \<noteq> AudioOff \<and> problem input audio = None"
proof -
  show "inp = input" "ups = None"
    using assms by (auto simp: permissionPolicy_def Let_def split: if_splits option.splits)
  have r: "tool \<in> set autoAllow \<or> \<not> synthesised_auth tool \<and> (starts_with tool ''mcp__slaude_connect__''
      \<or> list_ex (\<lambda>p. starts_with tool p) UNGATED_PREFIXES \<or> tool = ''mcp__slaude_skills__list_skills''
      \<or> tool = ''mcp__slaude_skills__read_skill'' \<or> starts_with tool ''mcp__slaude_session__''
      \<or> starts_with tool ''mcp__slaude_kb__'' \<or> tool \<in> set VOICE_MID_CALL_TOOLS)"
    using assms by (auto simp: permissionPolicy_def Let_def split: if_splits option.splits)
  then show "tool \<in> set autoAllow \<or> own_tool tool \<and> \<not> synthesised_auth tool"
    by (auto simp: own_tool_def VOICE_MID_CALL_TOOLS_def)
  show "tool = VOICE_START \<longrightarrow> tool \<in> set autoAllow \<and> audio \<noteq> AudioOff \<and> problem input audio = None"
    using assms r by (auto simp: permissionPolicy_def Let_def VOICE_START_def VOICE_MID_CALL_TOOLS_def UNGATED_PREFIXES_def split: if_splits option.splits)
qed

end
