(* ===== verification/PermissionGate.thy ===== *)
theory PermissionGate
  imports PermissionPolicy
begin

text \<open>
  The permission gate (class \<open>PermissionGate\<close> of \<^verbatim>\<open>src/gateway/slack/permission-gate.ts\<close>) in any number of
  gateway processes over one table of gates. An asynchronous function is a task that waits: for a
  statement that was sent, for the reply of one that ran, or for another call. Statements run and
  replies arrive in any order, either may be lost, and clicks, wake-ups, aborts, sweeps, purges and
  crashes come at any time. A tool-use id is the SDK's and is asked about once.
\<close>

section \<open>State\<close>

datatype click_decision = Allow | Always | Deny

record click =
  ck_id :: string
  ck_user :: string
  ck_decision :: click_decision

text \<open>A prompt: the durable row's payload and what the waiting call will get back.\<close>

record prompt =
  pr_id :: string
  pr_session :: string
  pr_tool :: string
  pr_input :: json
  pr_suggestions :: "json list"
  pr_payload :: jobject

record route =
  rt_channel :: string
  rt_threadTs :: string
  rt_persona :: "string option"

datatype db_request =
    AskCreate prompt
  | AskGet string
  | AskResolve string gate_status string "jobject option"

datatype db_reply = Created bool | Row "pending_gate option"

text \<open>Where a function goes on after an await: in the resolver, in \<open>open\<close>, in a click, in a wake-up.\<close>

datatype cont =
    AfterCreate prompt
  | AfterSubscribe prompt
  | AfterPost prompt
  | AfterOpenCreate prompt
  | AfterOpenPost prompt
  | AfterCancel
  | AfterLook click
  | AfterStray click
  | AfterAuth click "prompt option" jobject
  | AfterSettle click "prompt option"
  | AfterRecheck click prompt
  | AfterPublish click prompt
  | AfterWake prompt

datatype stage = Sent db_request cont | Ran db_reply cont | Waits cont

text \<open>An authorisation that passed: the prompt, the clicker, and what the tables answered.\<close>

record authorised =
  au_id :: string
  au_user :: string
  au_locks :: "string \<Rightarrow> string \<Rightarrow> string option"
  au_grants :: "string \<Rightarrow> grant list"

datatype audit = Audited string string click_decision | AuditRefused string string | AuditCancelled string

record gate_state =
  gs_rows :: gates
  gs_asked :: "string \<Rightarrow> prompt option"
  gs_pending :: "nat \<Rightarrow> string \<Rightarrow> prompt option"
  gs_subs :: "nat \<Rightarrow> string \<Rightarrow> prompt option"
  gs_listening :: "nat \<Rightarrow> string \<Rightarrow> bool"
  gs_routes :: "nat \<Rightarrow> string \<Rightarrow> route option"
  gs_tasks :: "nat \<Rightarrow> (nat \<times> stage) option"
  gs_promise :: "nat \<Rightarrow> string \<Rightarrow> perm_decision option"
  gs_threw :: "(nat \<times> string) list"
  gs_direct :: "(string \<times> perm_decision) list"
  gs_nodes :: "(string \<times> perm_decision) list"
  gs_auth :: "authorised list"
  gs_won :: "(string \<times> gate_status \<times> string \<times> jobject option) list"
  gs_audit :: "audit list"

definition no_gates :: gate_state where
  "no_gates = \<lparr>gs_rows = [], gs_asked = (\<lambda>_. None), gs_pending = (\<lambda>_ _. None), gs_subs = (\<lambda>_ _. None),
     gs_listening = (\<lambda>_ _. False), gs_routes = (\<lambda>_ _. None), gs_tasks = (\<lambda>_. None), gs_promise = (\<lambda>_ _. None),
     gs_threw = [], gs_direct = [], gs_nodes = [], gs_auth = [], gs_won = [], gs_audit = []\<rparr>"

text \<open>What the processes share: the database's dialect, whether a bus is configured, each process's
  instance id, and the static policy of a call.\<close>

datatype dialect = Sqlite | Postgres

definition merge_of :: "dialect \<Rightarrow> jobject \<Rightarrow> jobject \<Rightarrow> jobject" where
  "merge_of d = (case d of Sqlite \<Rightarrow> patch_fields | Postgres \<Rightarrow> concat_objects)"

record gate_world =
  gw_dialect :: dialect
  gw_bus :: bool
  gw_instance :: "nat \<Rightarrow> string"
  gw_policy :: "string \<Rightarrow> json \<Rightarrow> perm_decision option"

definition PERM_GATE_TTL_MS :: int where "PERM_GATE_TTL_MS = 3600000"

section \<open>Small updates\<close>

definition go :: "nat \<Rightarrow> nat \<Rightarrow> stage \<Rightarrow> gate_state \<Rightarrow> gate_state" where
  "go k r st s = s\<lparr>gs_tasks := (gs_tasks s)(k := Some (r, st))\<rparr>"

definition finish :: "nat \<Rightarrow> gate_state \<Rightarrow> gate_state" where
  "finish k s = s\<lparr>gs_tasks := (gs_tasks s)(k := None)\<rparr>"

text \<open>\<open>pend.resolve\<close>: a promise settles once.\<close>

definition deliver :: "nat \<Rightarrow> string \<Rightarrow> perm_decision \<Rightarrow> gate_state \<Rightarrow> gate_state" where
  "deliver r i d s =
     (if gs_promise s r i = None then s\<lparr>gs_promise := (gs_promise s)(r := (gs_promise s r)(i := Some d))\<rparr> else s)"

definition forget :: "nat \<Rightarrow> string \<Rightarrow> gate_state \<Rightarrow> gate_state" where
  "forget r i s = s\<lparr>gs_pending := (gs_pending s)(r := (gs_pending s r)(i := None))\<rparr>"

definition noted :: "audit \<Rightarrow> gate_state \<Rightarrow> gate_state" where
  "noted a s = s\<lparr>gs_audit := gs_audit s @ [a]\<rparr>"

definition click_status :: "click_decision \<Rightarrow> gate_status" where
  "click_status d = (if d = Deny then GDenied else GApproved)"

definition decision_word :: "click_decision \<Rightarrow> string" where
  "decision_word d = (case d of Allow \<Rightarrow> ''allow'' | Always \<Rightarrow> ''always'' | Deny \<Rightarrow> ''deny'')"

definition click_patch :: "click_decision \<Rightarrow> jobject" where
  "click_patch d = [(''decision'', JStr (decision_word d))]"

text \<open>What the SDK gets for a click this process settled.\<close>

definition clicked :: "click \<Rightarrow> prompt \<Rightarrow> perm_decision" where
  "clicked c p =
     (if ck_decision c = Deny then PDeny (by_name (Some (ck_user c)))
      else PAllow (pr_input p)
             (if ck_decision c = Always then Some (alwaysAllowUpdates (pr_tool p) (pr_suggestions p)) else None))"

section \<open>Statements\<close>

definition prompt_args :: "prompt \<Rightarrow> int \<Rightarrow> gate_args" where
  "prompt_args p now = \<lparr>ga_id = Some (pr_id p), ga_kind = KPerm, ga_sessionId = pr_session p,
     ga_payload = Some (pr_payload p), ga_expiresAt = Some (now + PERM_GATE_TTL_MS)\<rparr>"

definition run_request :: "gate_world \<Rightarrow> nat \<Rightarrow> int \<Rightarrow> db_request \<Rightarrow> gate_state \<Rightarrow> db_reply \<times> gate_state" where
  "run_request W r now q s =
     (case q of
        AskCreate p \<Rightarrow>
          (case create [] (gw_instance W r) now (prompt_args p now) (gs_rows s) of
             Some (_, T) \<Rightarrow> (Created True, s\<lparr>gs_rows := T\<rparr>) | None \<Rightarrow> (Created False, s))
      | AskGet i \<Rightarrow> (Row (get_gate i (gs_rows s)), s)
      | AskResolve i st u patch \<Rightarrow>
          (case resolve (merge_of (gw_dialect W)) i st u patch now (gs_rows s) of
             (row, T) \<Rightarrow> (Row row, s\<lparr>gs_rows := T,
                gs_won := (if row = None then gs_won s else gs_won s @ [(i, st, u, patch)])\<rparr>)))"

section \<open>The resolver\<close>

text \<open>The payload of a prompt: where its card goes and whose turn it is.\<close>

definition prompt_payload :: "string \<Rightarrow> string \<Rightarrow> string \<Rightarrow> bool \<Rightarrow> string option \<Rightarrow> turn_stamp option \<Rightarrow> json list
    \<Rightarrow> jobject" where
  "prompt_payload tool channel thread poll persona stamp suggestions =
     [(''toolName'', JStr tool), (''channel'', JStr channel), (''threadTs'', JStr thread)]
     @ (if poll then [(''waiter'', JStr ''poll'')] else [])
     @ (if truthy persona then [(''personaName'', JStr (the persona))] else [])
     @ stampPayload stamp
     @ (if poll \<and> suggestions \<noteq> [] then [(''suggestions'', JArr suggestions)] else [])"

definition ask_resolver :: "gate_world \<Rightarrow> nat \<Rightarrow> nat \<Rightarrow> string \<Rightarrow> string \<Rightarrow> string \<Rightarrow> json \<Rightarrow> json list \<Rightarrow> turn_stamp option
    \<Rightarrow> gate_state \<Rightarrow> gate_state" where
  "ask_resolver W k r i session tool input suggestions stamp s =
     (case gw_policy W tool input of
        Some d \<Rightarrow> s\<lparr>gs_direct := gs_direct s @ [(i, d)]\<rparr>
      | None \<Rightarrow>
          (case gs_routes s r session of
             None \<Rightarrow> s\<lparr>gs_direct := gs_direct s @ [(i, PDeny ''no active slaude thread to ask in'')]\<rparr>
           | Some rt \<Rightarrow>
               let p = \<lparr>pr_id = i, pr_session = session, pr_tool = tool, pr_input = input,
                        pr_suggestions = suggestions,
                        pr_payload = prompt_payload tool (rt_channel rt) (rt_threadTs rt) False (rt_persona rt) stamp suggestions\<rparr>
               in go k r (Sent (AskCreate p) (AfterCreate p)) (s\<lparr>gs_asked := (gs_asked s)(i := Some p)\<rparr>)))"

text \<open>\<open>open\<close>: the call of a node, whose waiter polls the row.\<close>

definition ask_open :: "gate_world \<Rightarrow> nat \<Rightarrow> nat \<Rightarrow> string \<Rightarrow> string \<Rightarrow> string \<Rightarrow> json \<Rightarrow> json list \<Rightarrow> turn_stamp option
    \<Rightarrow> route \<Rightarrow> gate_state \<Rightarrow> gate_state" where
  "ask_open W k r i session tool input suggestions stamp rt s =
     (case gw_policy W tool input of
        Some d \<Rightarrow> s\<lparr>gs_direct := gs_direct s @ [(i, d)]\<rparr>
      | None \<Rightarrow>
          let p = \<lparr>pr_id = i, pr_session = session, pr_tool = tool, pr_input = input,
                   pr_suggestions = suggestions,
                   pr_payload = prompt_payload tool (rt_channel rt) (rt_threadTs rt) True (rt_persona rt) stamp suggestions\<rparr>
          in go k r (Sent (AskCreate p) (AfterOpenCreate p)) (s\<lparr>gs_asked := (gs_asked s)(i := Some p)\<rparr>))"

definition cancel_row :: "nat \<Rightarrow> nat \<Rightarrow> string \<Rightarrow> gate_state \<Rightarrow> gate_state" where
  "cancel_row k r i s = go k r (Sent (AskResolve i GCancelled ''system'' None) AfterCancel) s"

text \<open>After the subscription (or without a bus): the abort listener, then the card.\<close>

definition listen_and_post :: "nat \<Rightarrow> nat \<Rightarrow> prompt \<Rightarrow> gate_state \<Rightarrow> gate_state" where
  "listen_and_post k r p s =
     go k r (Waits (AfterPost p))
       (s\<lparr>gs_listening := (gs_listening s)(r := (gs_listening s r)(pr_id p := True))\<rparr>)"

definition after_create :: "gate_world \<Rightarrow> nat \<Rightarrow> nat \<Rightarrow> prompt \<Rightarrow> bool \<Rightarrow> gate_state \<Rightarrow> gate_state" where
  "after_create W k r p created s =
     (if \<not> created then finish k (s\<lparr>gs_threw := (r, pr_id p) # gs_threw s\<rparr>)
      else let s1 = s\<lparr>gs_pending := (gs_pending s)(r := (gs_pending s r)(pr_id p := Some p))\<rparr>
           in if gw_bus W
              then go k r (Waits (AfterSubscribe p))
                     (s1\<lparr>gs_subs := (gs_subs s1)(r := (gs_subs s1 r)(pr_id p := Some p))\<rparr>)
              else listen_and_post k r p s1)"

definition after_post :: "nat \<Rightarrow> nat \<Rightarrow> prompt \<Rightarrow> bool \<Rightarrow> gate_state \<Rightarrow> gate_state" where
  "after_post k r p ok s =
     (if ok then finish k s
      else cancel_row k r (pr_id p) (forget r (pr_id p) (s\<lparr>gs_threw := (r, pr_id p) # gs_threw s\<rparr>)))"

section \<open>Clicks\<close>

definition on_click :: "nat \<Rightarrow> nat \<Rightarrow> click \<Rightarrow> gate_state \<Rightarrow> gate_state" where
  "on_click k r c s =
     (if ck_user c = [] then s
      else case gs_pending s r (ck_id c) of
             None \<Rightarrow> go k r (Sent (AskGet (ck_id c)) (AfterLook c)) s
           | Some p \<Rightarrow> go k r (Waits (AfterAuth c (Some p) (pr_payload p))) s)"

definition polled :: "jobject \<Rightarrow> bool" where
  "polled payload \<longleftrightarrow> map_of payload ''waiter'' = Some (JStr ''poll'')"

definition after_look :: "gate_world \<Rightarrow> nat \<Rightarrow> nat \<Rightarrow> click \<Rightarrow> pending_gate option \<Rightarrow> gate_state \<Rightarrow> gate_state" where
  "after_look W k r c row s =
     (case row of
        None \<Rightarrow> finish k s
      | Some g \<Rightarrow>
          if pg_status g \<noteq> GPending then finish k s
          else if \<not> polled (pg_payload g) \<and> pg_instanceId g = Some (gw_instance W r)
          then go k r (Sent (AskResolve (ck_id c) GCancelled (ck_user c) None) (AfterStray c)) s
          else go k r (Waits (AfterAuth c None (pg_payload g))) s)"

text \<open>The authorisation's answer: \<open>None\<close> when a lookup threw.\<close>

definition after_auth :: "gate_world \<Rightarrow> nat \<Rightarrow> nat \<Rightarrow> click \<Rightarrow> prompt option \<Rightarrow> jobject
    \<Rightarrow> ((string \<Rightarrow> string \<Rightarrow> string option) \<times> (string \<Rightarrow> grant list)) option \<Rightarrow> gate_state \<Rightarrow> gate_state" where
  "after_auth W k r c local payload answer s =
     (case answer of
        None \<Rightarrow> finish k (noted (AuditRefused (ck_id c) (ck_user c)) s)
      | Some (locks, grants) \<Rightarrow>
          if \<not> mayDecide locks grants payload (ck_user c)
          then finish k (noted (AuditRefused (ck_id c) (ck_user c)) s)
          else let s1 = s\<lparr>gs_auth := gs_auth s @ [\<lparr>au_id = ck_id c, au_user = ck_user c, au_locks = locks, au_grants = grants\<rparr>]\<rparr>
               in if local \<noteq> None \<or> polled payload \<or> gw_bus W
                  then go k r (Sent (AskResolve (ck_id c) (click_status (ck_decision c)) (ck_user c)
                                      (Some (click_patch (ck_decision c)))) (AfterSettle c local)) s1
                  else finish k s1)"

definition after_settle :: "nat \<Rightarrow> nat \<Rightarrow> click \<Rightarrow> prompt option \<Rightarrow> pending_gate option \<Rightarrow> gate_state \<Rightarrow> gate_state" where
  "after_settle k r c local row s =
     (case local of
        None \<Rightarrow> (case row of None \<Rightarrow> finish k s
                 | Some g \<Rightarrow> finish k (noted (Audited (ck_id c) (ck_user c) (ck_decision c)) s))
      | Some p \<Rightarrow>
          (case row of
             None \<Rightarrow> go k r (Sent (AskGet (ck_id c)) (AfterRecheck c p)) s
           | Some g \<Rightarrow> go k r (Waits (AfterPublish c p))
                         (noted (Audited (ck_id c) (ck_user c) (ck_decision c)) (forget r (ck_id c) s))))"

definition after_recheck :: "nat \<Rightarrow> nat \<Rightarrow> click \<Rightarrow> pending_gate option \<Rightarrow> gate_state \<Rightarrow> gate_state" where
  "after_recheck k r c row s =
     (case row of
        Some g \<Rightarrow>
          if (pg_status g = GExpired \<or> pg_status g = GCancelled) \<and> gs_pending s r (ck_id c) \<noteq> None
          then finish k (deliver r (ck_id c)
                 (PDeny (if pg_status g = GExpired then ''expired before a decision'' else ''cancelled''))
                 (forget r (ck_id c) s))
          else finish k s
      | None \<Rightarrow> finish k s)"

definition after_wake :: "nat \<Rightarrow> nat \<Rightarrow> prompt \<Rightarrow> pending_gate option \<Rightarrow> gate_state \<Rightarrow> gate_state" where
  "after_wake k r p row s =
     (case row of
        Some g \<Rightarrow>
          if pg_status g \<noteq> GPending \<and> gs_pending s r (pr_id p) \<noteq> None
          then finish k (deliver r (pr_id p) (decisionFromPermRow g (pr_tool p) (pr_input p) (pr_suggestions p))
                 (forget r (pr_id p) s))
          else finish k s
      | None \<Rightarrow> finish k s)"

section \<open>Steps\<close>

definition on_reply :: "gate_world \<Rightarrow> nat \<Rightarrow> nat \<Rightarrow> db_reply \<Rightarrow> cont \<Rightarrow> gate_state \<Rightarrow> gate_state" where
  "on_reply W k r rep c s =
     (case (rep, c) of
        (Created b, AfterCreate p) \<Rightarrow> after_create W k r p b s
      | (Created b, AfterOpenCreate p) \<Rightarrow> if b then go k r (Waits (AfterOpenPost p)) s else finish k s
      | (Row row, AfterLook c) \<Rightarrow> after_look W k r c row s
      | (Row row, AfterStray c) \<Rightarrow> finish k (if row = None then s else noted (AuditCancelled (ck_id c)) s)
      | (Row row, AfterSettle c local) \<Rightarrow> after_settle k r c local row s
      | (Row row, AfterRecheck c p) \<Rightarrow> after_recheck k r c row s
      | (Row row, AfterWake p) \<Rightarrow> after_wake k r p row s
      | (Row (Some g), AfterCancel) \<Rightarrow> finish k (noted (AuditCancelled (pg_id g)) s)
      | _ \<Rightarrow> finish k s)"

text \<open>Another call returned, or failed.\<close>

definition on_return :: "nat \<Rightarrow> nat \<Rightarrow> cont \<Rightarrow> bool \<Rightarrow> gate_state \<Rightarrow> gate_state" where
  "on_return k r c ok s =
     (case c of
        AfterSubscribe p \<Rightarrow> listen_and_post k r p s
      | AfterPost p \<Rightarrow> after_post k r p ok s
      | AfterOpenPost p \<Rightarrow> if ok then finish k s else cancel_row k r (pr_id p) s
      | AfterPublish c p \<Rightarrow> finish k (deliver r (ck_id c) (clicked c p) s)
      | _ \<Rightarrow> s)"

datatype gate_event =
    Prompt nat nat string string string json "json list" "turn_stamp option"
  | OpenGate nat nat string string string json "json list" "turn_stamp option" route
  | Click nat nat click
  | Wake nat nat string
  | Abort nat nat string
  | RunDb nat int
  | Reply nat
  | LoseTask nat
  | Return nat bool
  | Authorise nat "((string \<Rightarrow> string \<Rightarrow> string option) \<times> (string \<Rightarrow> grant list)) option"
  | Bind nat string route
  | Unbind nat string
  | PollNode string string json "json list" int
  | Sweep int
  | Purge int int
  | CrashOf nat

definition on_abort :: "nat \<Rightarrow> nat \<Rightarrow> string \<Rightarrow> gate_state \<Rightarrow> gate_state" where
  "on_abort k r i s =
     (if \<not> gs_listening s r i then s
      else let s1 = s\<lparr>gs_listening := (gs_listening s)(r := (gs_listening s r)(i := False))\<rparr>
           in if gs_pending s r i = None then s1
              else deliver r i (PDeny ''aborted'') (cancel_row k r i (forget r i s1)))"

text \<open>A node's poll of \<^verbatim>\<open>src/gateway/api/pending.ts\<close>: a settled row, or one past its deadline.\<close>

definition poll_answer :: "int \<Rightarrow> pending_gate \<Rightarrow> pending_gate option" where
  "poll_answer now g =
     (if pg_status g \<noteq> GPending then Some g
      else if (case pg_expiresAt g of Some e \<Rightarrow> e \<le> now | None \<Rightarrow> False)
      then Some (g\<lparr>pg_status := GExpired, pg_resolvedBy := None\<rparr>) else None)"

fun gate_step :: "gate_world \<Rightarrow> gate_state \<Rightarrow> gate_event \<Rightarrow> gate_state" where
  "gate_step W s (Prompt k r i session tool input sugg stamp) =
     (if gs_tasks s k \<noteq> None \<or> gs_asked s i \<noteq> None then s
      else ask_resolver W k r i session tool input sugg stamp s)"
| "gate_step W s (OpenGate k r i session tool input sugg stamp rt) =
     (if gs_tasks s k \<noteq> None \<or> gs_asked s i \<noteq> None then s
      else ask_open W k r i session tool input sugg stamp rt s)"
| "gate_step W s (Click k r c) = (if gs_tasks s k \<noteq> None then s else on_click k r c s)"
| "gate_step W s (Wake k r i) =
     (case gs_subs s r i of
        Some p \<Rightarrow> if gs_tasks s k \<noteq> None then s else go k r (Sent (AskGet i) (AfterWake p)) s
      | None \<Rightarrow> s)"
| "gate_step W s (Abort k r i) = (if gs_tasks s k \<noteq> None then s else on_abort k r i s)"
| "gate_step W s (RunDb k now) =
     (case gs_tasks s k of
        Some (r, Sent q c) \<Rightarrow> (case run_request W r now q s of (rep, s') \<Rightarrow> go k r (Ran rep c) s')
      | _ \<Rightarrow> s)"
| "gate_step W s (Reply k) =
     (case gs_tasks s k of Some (r, Ran rep c) \<Rightarrow> on_reply W k r rep c s | _ \<Rightarrow> s)"
| "gate_step W s (LoseTask k) = finish k s"
| "gate_step W s (Return k ok) =
     (case gs_tasks s k of Some (r, Waits c) \<Rightarrow> on_return k r c ok s | _ \<Rightarrow> s)"
| "gate_step W s (Authorise k answer) =
     (case gs_tasks s k of
        Some (r, Waits (AfterAuth c local payload)) \<Rightarrow> after_auth W k r c local payload answer s
      | _ \<Rightarrow> s)"
| "gate_step W s (Bind r session rt) =
     s\<lparr>gs_routes := (gs_routes s)(r := (gs_routes s r)(session := Some rt))\<rparr>"
| "gate_step W s (Unbind r session) =
     s\<lparr>gs_routes := (gs_routes s)(r := (gs_routes s r)(session := None))\<rparr>"
| "gate_step W s (PollNode i tool input sugg now) =
     (case get_gate i (gs_rows s) of
        Some g \<Rightarrow>
          (case poll_answer now g of
             Some g' \<Rightarrow> s\<lparr>gs_nodes := gs_nodes s @ [(i, decisionFromPermRow g' tool input sugg)]\<rparr>
           | None \<Rightarrow> s)
      | None \<Rightarrow> s)"
| "gate_step W s (Sweep now) =
     (case sweepExpired now (gs_rows s) of
        (out, T) \<Rightarrow> s\<lparr>gs_rows := T, gs_won := gs_won s @ map (\<lambda>g. (pg_id g, GExpired, ''system'', None)) out\<rparr>)"
| "gate_step W s (Purge age now) = s\<lparr>gs_rows := snd (purgeSettledOlderThan age now (gs_rows s))\<rparr>"
| "gate_step W s (CrashOf r) =
     s\<lparr>gs_pending := (gs_pending s)(r := (\<lambda>_. None)), gs_subs := (gs_subs s)(r := (\<lambda>_. None)),
       gs_listening := (gs_listening s)(r := (\<lambda>_. False)),
       gs_tasks := (\<lambda>k. case gs_tasks s k of Some (r', st) \<Rightarrow> if r' = r then None else Some (r', st) | None \<Rightarrow> None)\<rparr>"

definition gate_exec_events :: "gate_world \<Rightarrow> gate_event list \<Rightarrow> gate_state" where
  "gate_exec_events W es = run_steps (gate_step W) no_gates es"

end
