(* ===== verification/PermissionGateFacts.thy ===== *)
theory PermissionGateFacts
  imports PermissionGate
begin

text \<open>
  What holds in every reachable state of the permission gate: rows, tasks and waiters agree on the
  prompt an id belongs to, a row is settled once, and whoever gets an allow got it from a click that
  was authorised for that very prompt.
\<close>

section \<open>The invariant\<close>

definition authed :: "gate_state \<Rightarrow> string \<Rightarrow> string \<Rightarrow> bool" where
  "authed s i u \<longleftrightarrow> (\<exists>a \<in> set (gs_auth s). au_id a = i \<and> au_user a = u)"

definition won_click :: "gate_state \<Rightarrow> click \<Rightarrow> bool" where
  "won_click s c \<longleftrightarrow>
     (ck_id c, click_status (ck_decision c), ck_user c, Some (click_patch (ck_decision c))) \<in> set (gs_won s)"

definition known_payload :: "gate_state \<Rightarrow> string \<Rightarrow> jobject \<Rightarrow> bool" where
  "known_payload s i pl \<longleftrightarrow> (\<exists>p. gs_asked s i = Some p \<and> pl = pr_payload p)"

definition local_ok :: "gate_state \<Rightarrow> string \<Rightarrow> prompt option \<Rightarrow> bool" where
  "local_ok s i l \<longleftrightarrow> l = None \<or> gs_asked s i = l"

definition approved_ok :: "gate_state \<Rightarrow> string \<Rightarrow> pending_gate \<Rightarrow> bool" where
  "approved_ok s i g \<longleftrightarrow> (pg_status g = GApproved \<longrightarrow>
     (\<exists>d u. d \<noteq> Deny \<and> (i, GApproved, u, Some (click_patch d)) \<in> set (gs_won s)
        \<and> map_of (pg_payload g) ''decision'' = Some (JStr (decision_word d))))"

lemmas claims_defs = authed_def won_click_def known_payload_def local_ok_def approved_ok_def

fun stage_ok :: "gate_state \<Rightarrow> stage \<Rightarrow> bool" where
  "stage_ok s (Sent (AskCreate p) c) =
     ((c = AfterCreate p \<or> c = AfterOpenCreate p) \<and> gs_asked s (pr_id p) = Some p)"
| "stage_ok s (Sent (AskGet i) c) =
     (case c of
        AfterLook k \<Rightarrow> ck_id k = i
      | AfterRecheck k p \<Rightarrow> ck_id k = i
      | AfterWake p \<Rightarrow> pr_id p = i \<and> gs_asked s i = Some p
      | _ \<Rightarrow> False)"
| "stage_ok s (Sent (AskResolve i st u patch) c) =
     (case c of
        AfterCancel \<Rightarrow> st = GCancelled \<and> patch = None
      | AfterStray k \<Rightarrow> st = GCancelled \<and> patch = None
      | AfterSettle k l \<Rightarrow> i = ck_id k \<and> u = ck_user k \<and> st = click_status (ck_decision k)
          \<and> patch = Some (click_patch (ck_decision k)) \<and> authed s i u \<and> local_ok s i l
      | _ \<Rightarrow> False)"
| "stage_ok s (Ran rep c) =
     (case c of
        AfterCreate p \<Rightarrow> gs_asked s (pr_id p) = Some p
      | AfterOpenCreate p \<Rightarrow> gs_asked s (pr_id p) = Some p
      | AfterLook k \<Rightarrow> (\<forall>g. rep = Row (Some g) \<and> pg_status g = GPending \<longrightarrow> known_payload s (ck_id k) (pg_payload g))
      | AfterSettle k l \<Rightarrow> (\<forall>g. rep = Row (Some g) \<longrightarrow> won_click s k) \<and> local_ok s (ck_id k) l
      | AfterWake p \<Rightarrow> gs_asked s (pr_id p) = Some p \<and> (\<forall>g. rep = Row (Some g) \<longrightarrow> approved_ok s (pr_id p) g)
      | _ \<Rightarrow> True)"
| "stage_ok s (Waits c) =
     (case c of
        AfterAuth k l pl \<Rightarrow> known_payload s (ck_id k) pl \<and> local_ok s (ck_id k) l
      | AfterPublish k p \<Rightarrow> gs_asked s (ck_id k) = Some p \<and> won_click s k
      | AfterSubscribe p \<Rightarrow> gs_asked s (pr_id p) = Some p
      | AfterPost p \<Rightarrow> gs_asked s (pr_id p) = Some p
      | AfterOpenPost p \<Rightarrow> gs_asked s (pr_id p) = Some p
      | _ \<Rightarrow> True)"

definition won_ids :: "gate_state \<Rightarrow> string set" where
  "won_ids s = fst ` set (gs_won s)"

definition row_ok :: "gate_state \<Rightarrow> pending_gate \<Rightarrow> bool" where
  "row_ok s g \<longleftrightarrow> (\<exists>p. gs_asked s (pg_id g) = Some p
      \<and> (pg_status g = GPending \<longrightarrow> pg_payload g = pr_payload p \<and> pg_id g \<notin> won_ids s))
     \<and> approved_ok s (pg_id g) g"

definition rows_ok :: "gate_state \<Rightarrow> bool" where
  "rows_ok s \<longleftrightarrow> keyed (gs_rows s) \<and> (\<forall>g \<in> set (gs_rows s). row_ok s g)"

definition tasks_ok :: "gate_state \<Rightarrow> bool" where
  "tasks_ok s \<longleftrightarrow> (\<forall>k r st. gs_tasks s k = Some (r, st) \<longrightarrow> stage_ok s st)"

definition waiters_ok :: "gate_state \<Rightarrow> bool" where
  "waiters_ok s \<longleftrightarrow> (\<forall>r i p. gs_pending s r i = Some p \<or> gs_subs s r i = Some p \<longrightarrow> gs_asked s i = Some p)
     \<and> (\<forall>i p. gs_asked s i = Some p \<longrightarrow> pr_id p = i)"

definition creating :: "gate_state \<Rightarrow> nat \<Rightarrow> string \<Rightarrow> bool" where
  "creating s k i \<longleftrightarrow> (\<exists>r p c. gs_tasks s k = Some (r, Sent (AskCreate p) c) \<and> pr_id p = i)"

definition creating_ok :: "gate_state \<Rightarrow> bool" where
  "creating_ok s \<longleftrightarrow> (\<forall>k i. creating s k i \<longrightarrow>
     i \<notin> pg_id ` set (gs_rows s) \<and> i \<notin> won_ids s \<and> (\<forall>k'. creating s k' i \<longrightarrow> k' = k))"

definition won_ok :: "gate_state \<Rightarrow> bool" where
  "won_ok s \<longleftrightarrow> distinct (map fst (gs_won s))
     \<and> (\<forall>(i, st, u, patch) \<in> set (gs_won s). gs_asked s i \<noteq> None \<and> (st = GApproved \<or> st = GDenied \<longrightarrow> authed s i u))"

definition auth_ok :: "gate_state \<Rightarrow> bool" where
  "auth_ok s \<longleftrightarrow> (\<forall>a \<in> set (gs_auth s). \<exists>p. gs_asked s (au_id a) = Some p
     \<and> mayDecide (au_locks a) (au_grants a) (pr_payload p) (au_user a))"

definition outcome_ok :: "gate_state \<Rightarrow> bool" where
  "outcome_ok s \<longleftrightarrow>
     (\<forall>r i inp ups. gs_promise s r i = Some (PAllow inp ups) \<longrightarrow>
        (\<exists>p d u. gs_asked s i = Some p \<and> d \<noteq> Deny \<and> (i, GApproved, u, Some (click_patch d)) \<in> set (gs_won s)
           \<and> inp = pr_input p \<and> ups = (if d = Always then Some (alwaysAllowUpdates (pr_tool p) (pr_suggestions p)) else None)))
     \<and> (\<forall>(i, d) \<in> set (gs_nodes s). \<forall>inp ups. d = PAllow inp ups \<longrightarrow>
        (\<exists>d u. d \<noteq> Deny \<and> (i, GApproved, u, Some (click_patch d)) \<in> set (gs_won s) \<and> (ups \<noteq> None \<longleftrightarrow> d = Always)))"

definition gate_inv :: "gate_state \<Rightarrow> bool" where
  "gate_inv s \<longleftrightarrow> rows_ok s \<and> tasks_ok s \<and> waiters_ok s \<and> creating_ok s \<and> won_ok s \<and> auth_ok s \<and> outcome_ok s"

lemmas part_defs = rows_ok_def waiters_ok_def creating_ok_def creating_def won_ok_def auth_ok_def
  outcome_ok_def row_ok_def won_ids_def

section \<open>What is known stays known\<close>

definition knows_more :: "gate_state \<Rightarrow> gate_state \<Rightarrow> bool" where
  "knows_more s s' \<longleftrightarrow> (\<forall>i p. gs_asked s i = Some p \<longrightarrow> gs_asked s' i = Some p)
     \<and> set (gs_won s) \<subseteq> set (gs_won s') \<and> set (gs_auth s) \<subseteq> set (gs_auth s')"

lemma claims_mono:
  assumes "knows_more s s'"
  shows "authed s i u \<Longrightarrow> authed s' i u" "won_click s c \<Longrightarrow> won_click s' c"
    "known_payload s i pl \<Longrightarrow> known_payload s' i pl" "local_ok s i l \<Longrightarrow> local_ok s' i l"
    "approved_ok s i g \<Longrightarrow> approved_ok s' i g" "gs_asked s i = Some p \<Longrightarrow> gs_asked s' i = Some p"
proof -
  have a: "\<And>i p. gs_asked s i = Some p \<Longrightarrow> gs_asked s' i = Some p" and w: "set (gs_won s) \<subseteq> set (gs_won s')"
    and u: "set (gs_auth s) \<subseteq> set (gs_auth s')"
    using assms by (auto simp: knows_more_def)
  show "authed s i u \<Longrightarrow> authed s' i u" using u unfolding authed_def by blast
  show "won_click s c \<Longrightarrow> won_click s' c" using w unfolding won_click_def by blast
  show "known_payload s i pl \<Longrightarrow> known_payload s' i pl" using a unfolding known_payload_def by blast
  show "local_ok s i l \<Longrightarrow> local_ok s' i l" using a [of i] unfolding local_ok_def by (cases l) auto
  show "approved_ok s i g \<Longrightarrow> approved_ok s' i g" using w unfolding approved_ok_def by blast
  show "gs_asked s i = Some p \<Longrightarrow> gs_asked s' i = Some p" by (rule a)
qed

lemma stage_mono: "knows_more s s' \<Longrightarrow> stage_ok s st \<Longrightarrow> stage_ok s' st"
proof (induction s st rule: stage_ok.induct)
  case (3 s i st u patch c)
  then show ?case using claims_mono [OF 3(1)] by (cases c) auto
next
  case (4 s rep c)
  then show ?case using claims_mono [OF 4(1)] by (cases c) auto
next
  case (5 s c)
  then show ?case using claims_mono [OF 5(1)] by (cases c) auto
qed (auto simp: knows_more_def split: cont.splits)

lemma knows_more_refl [simp]: "knows_more s s"
  by (simp add: knows_more_def)

text \<open>The small updates keep the invariant.\<close>

lemma same_knowledge:
  assumes "gs_asked s' = gs_asked s" "gs_won s' = gs_won s" "gs_auth s' = gs_auth s"
  shows "stage_ok s' st = stage_ok s st"
proof -
  have "knows_more s s'" "knows_more s' s" using assms by (simp_all add: knows_more_def)
  then show ?thesis using stage_mono by blast
qed

lemma same_parts:
  assumes "gs_asked s' = gs_asked s" "gs_won s' = gs_won s" "gs_auth s' = gs_auth s"
  shows "gs_rows s' = gs_rows s \<Longrightarrow> rows_ok s' = rows_ok s"
    "gs_pending s' = gs_pending s \<Longrightarrow> gs_subs s' = gs_subs s \<Longrightarrow> waiters_ok s' = waiters_ok s"
    "won_ok s' = won_ok s" "auth_ok s' = auth_ok s"
    "gs_promise s' = gs_promise s \<Longrightarrow> gs_nodes s' = gs_nodes s \<Longrightarrow> outcome_ok s' = outcome_ok s"
  using assms by (simp_all add: part_defs claims_defs)

lemma creating_go: "creating (go k r st s) k' i \<longleftrightarrow>
    (if k' = k then \<exists>p c. st = Sent (AskCreate p) c \<and> pr_id p = i else creating s k' i)"
  by (auto simp: creating_def go_def)

lemma creating_finish: "creating (finish k s) k' i \<longleftrightarrow> k' \<noteq> k \<and> creating s k' i"
  by (auto simp: creating_def finish_def)

lemma creating_ok_fewer:
  assumes "creating_ok s" "gs_rows s' = gs_rows s" "gs_won s' = gs_won s" "\<And>k i. creating s' k i \<Longrightarrow> creating s k i"
  shows "creating_ok s'"
  using assms unfolding creating_ok_def won_ids_def by metis

lemma inv_go:
  assumes "gate_inv s" "stage_ok s st" "\<And>p c. st \<noteq> Sent (AskCreate p) c"
  shows "gate_inv (go k r st s)"
proof -
  let ?s = "go k r st s"
  have f: "gs_asked ?s = gs_asked s" "gs_won ?s = gs_won s" "gs_auth ?s = gs_auth s" "gs_rows ?s = gs_rows s"
    "gs_pending ?s = gs_pending s" "gs_subs ?s = gs_subs s" "gs_promise ?s = gs_promise s" "gs_nodes ?s = gs_nodes s"
    by (simp_all add: go_def)
  have "creating_ok ?s"
    by (rule creating_ok_fewer [of s]) (use assms f in \<open>auto simp: gate_inv_def creating_go split: if_splits\<close>)
  moreover have "tasks_ok ?s"
    using assms(1,2) by (auto simp: tasks_ok_def gate_inv_def same_knowledge [OF f(1-3)]) (auto simp: go_def split: if_splits)
  ultimately show ?thesis
    using assms(1) same_parts [OF f(1-3)] f(4-8) by (simp add: gate_inv_def)
qed

text \<open>An update of other fields, of a set of waiters that shrinks, or of the tasks that go.\<close>

lemma inv_smaller:
  assumes "gate_inv s" "gs_asked s' = gs_asked s" "gs_won s' = gs_won s" "gs_auth s' = gs_auth s" "gs_rows s' = gs_rows s"
    and "gs_promise s' = gs_promise s" "gs_nodes s' = gs_nodes s"
    and "\<And>r i p. gs_pending s' r i = Some p \<Longrightarrow> gs_pending s r i = Some p"
    and "\<And>r i p. gs_subs s' r i = Some p \<Longrightarrow> gs_subs s r i = Some p"
    and "\<And>k x. gs_tasks s' k = Some x \<Longrightarrow> gs_tasks s k = Some x"
  shows "gate_inv s'"
proof -
  have "creating_ok s'"
    by (rule creating_ok_fewer [of s]) (use assms in \<open>auto simp: gate_inv_def creating_def\<close>)
  moreover have "tasks_ok s'"
    using assms(1,10) unfolding tasks_ok_def gate_inv_def same_knowledge [OF assms(2-4)] by blast
  moreover have "waiters_ok s'"
    using assms(1,8,9) unfolding waiters_ok_def gate_inv_def assms(2) by blast
  ultimately show ?thesis
    using assms(1) same_parts(1,3-5) [OF assms(2-4)] assms(5-7) by (simp add: gate_inv_def)
qed

lemma inv_finish: "gate_inv s \<Longrightarrow> gate_inv (finish k s)"
  by (erule inv_smaller) (auto simp: finish_def split: if_splits)

lemma inv_forget: "gate_inv s \<Longrightarrow> gate_inv (forget r i s)"
  by (erule inv_smaller) (auto simp: forget_def split: if_splits)

lemma inv_noted: "gate_inv s \<Longrightarrow> gate_inv (noted a s)"
  by (erule inv_smaller) (auto simp: noted_def)

definition fair_outcome :: "gate_state \<Rightarrow> string \<Rightarrow> perm_decision \<Rightarrow> bool" where
  "fair_outcome s i out \<longleftrightarrow> (\<forall>inp ups. out = PAllow inp ups \<longrightarrow>
     (\<exists>p d u. gs_asked s i = Some p \<and> d \<noteq> Deny \<and> (i, GApproved, u, Some (click_patch d)) \<in> set (gs_won s)
        \<and> inp = pr_input p \<and> ups = (if d = Always then Some (alwaysAllowUpdates (pr_tool p) (pr_suggestions p)) else None)))"

lemma inv_deliver:
  assumes "gate_inv s" "fair_outcome s i out"
  shows "gate_inv (deliver r i out s)"
proof -
  let ?s = "deliver r i out s"
  have f: "gs_asked ?s = gs_asked s" "gs_won ?s = gs_won s" "gs_auth ?s = gs_auth s" "gs_rows ?s = gs_rows s"
    "gs_pending ?s = gs_pending s" "gs_subs ?s = gs_subs s" "gs_nodes ?s = gs_nodes s" "gs_tasks ?s = gs_tasks s"
    by (simp_all add: deliver_def)
  have "outcome_ok ?s"
    using assms unfolding gate_inv_def outcome_ok_def f fair_outcome_def by (auto simp: deliver_def split: if_splits)
  moreover have "creating_ok ?s" "tasks_ok ?s"
    using assms(1) f by (auto simp: gate_inv_def creating_ok_def creating_def won_ids_def tasks_ok_def same_knowledge [OF f(1-3)])
  ultimately show ?thesis
    using assms(1) same_parts(1-4) [OF f(1-3)] f by (simp add: gate_inv_def)
qed

lemma fair_deny [simp]: "fair_outcome s i (PDeny m)"
  by (simp add: fair_outcome_def)

section \<open>Growing knowledge\<close>

lemma inv_ask:
  assumes "gate_inv s" "gs_asked s (pr_id p) = None" "c = AfterCreate p \<or> c = AfterOpenCreate p"
  shows "gate_inv (go k r (Sent (AskCreate p) c) (s\<lparr>gs_asked := (gs_asked s)(pr_id p := Some p)\<rparr>))" (is "gate_inv ?s")
proof -
  have km: "knows_more s ?s" using assms(2) by (auto simp: knows_more_def go_def)
  note mono = claims_mono [OF km] stage_mono [OF km]
  have inv: "rows_ok s" "tasks_ok s" "waiters_ok s" "creating_ok s" "won_ok s" "auth_ok s" "outcome_ok s"
    using assms(1) by (auto simp: gate_inv_def)
  have f: "gs_rows ?s = gs_rows s" "gs_won ?s = gs_won s" "gs_auth ?s = gs_auth s" "gs_pending ?s = gs_pending s"
    "gs_subs ?s = gs_subs s" "gs_promise ?s = gs_promise s" "gs_nodes ?s = gs_nodes s"
    "gs_asked ?s = (gs_asked s)(pr_id p := Some p)" "won_ids ?s = won_ids s"
    by (simp_all add: go_def won_ids_def)
  have "row_ok ?s g" if "row_ok s g" for g
    using that mono(5,6) unfolding row_ok_def f by metis
  then have 1: "rows_ok ?s" using inv(1) by (simp add: rows_ok_def f)
  have "stage_ok ?s (Sent (AskCreate p) c)" using assms(3) f(8) by simp
  then have 2: "tasks_ok ?s"
    using inv(2) mono(7) unfolding tasks_ok_def go_def by (auto split: if_splits)
  have 3: "waiters_ok ?s"
    using inv(3) mono(6) unfolding waiters_ok_def f(4,5) by (auto simp: f(8))
  have none: "pr_id p \<notin> pg_id ` set (gs_rows s)" "pr_id p \<notin> won_ids s" "\<not> creating s k' (pr_id p)" for k'
  proof -
    show "pr_id p \<notin> pg_id ` set (gs_rows s)" using inv(1) assms(2) by (auto simp: rows_ok_def row_ok_def)
    show "pr_id p \<notin> won_ids s" using inv(5) assms(2) by (auto simp: won_ok_def won_ids_def)
    show "\<not> creating s k' (pr_id p)" using inv(2) assms(2) by (fastforce simp: creating_def tasks_ok_def)
  qed
  have cr: "creating ?s k' i \<longleftrightarrow> (if k' = k then pr_id p = i else creating s k' i)" for k' i
    by (auto simp: creating_def go_def)
  have 4: "creating_ok ?s"
    unfolding creating_ok_def f(1,9)
  proof (intro allI impI conjI)
    fix k' i assume c: "creating ?s k' i"
    show "i \<notin> pg_id ` set (gs_rows s)" "i \<notin> won_ids s"
      using c inv(4) none unfolding creating_ok_def cr by (metis (full_types))+
    fix k'' assume "creating ?s k'' i"
    with c inv(4) none(3) show "k'' = k'" unfolding creating_ok_def cr by (auto split: if_splits)
  qed
  have 5: "won_ok ?s" using inv(5) mono(1,6) unfolding won_ok_def f(2) by fastforce
  have 6: "auth_ok ?s" using inv(6) mono(6) unfolding auth_ok_def f(3) by metis
  have 7: "outcome_ok ?s" using inv(7) mono(6) unfolding outcome_ok_def f(2,6,7) by blast
  show ?thesis using 1 2 3 4 5 6 7 by (simp add: gate_inv_def)
qed

lemma inv_auth:
  assumes "gate_inv s" "gs_asked s (au_id a) = Some p" "mayDecide (au_locks a) (au_grants a) (pr_payload p) (au_user a)"
  shows "gate_inv (s\<lparr>gs_auth := gs_auth s @ [a]\<rparr>)" (is "gate_inv ?s")
proof -
  have km: "knows_more s ?s" by (auto simp: knows_more_def)
  note mono = claims_mono [OF km] stage_mono [OF km]
  have inv: "rows_ok s" "tasks_ok s" "waiters_ok s" "creating_ok s" "won_ok s" "auth_ok s" "outcome_ok s"
    using assms(1) by (auto simp: gate_inv_def)
  have "rows_ok ?s" using inv(1) by (simp add: part_defs claims_defs)
  moreover have "tasks_ok ?s" using inv(2) mono(7) by (simp add: tasks_ok_def)
  moreover have "waiters_ok ?s" using inv(3) by (simp add: waiters_ok_def)
  moreover have "creating_ok ?s" using inv(4) by (simp add: part_defs)
  moreover have "won_ok ?s" using inv(5) mono(1) by (fastforce simp: won_ok_def)
  moreover have "auth_ok ?s" using inv(6) assms(2,3) by (auto simp: auth_ok_def)
  moreover have "outcome_ok ?s" using inv(7) by (simp add: outcome_ok_def)
  ultimately show ?thesis by (simp add: gate_inv_def)
qed

lemma inv_waiter:
  assumes "gate_inv s" "gs_asked s i = Some p"
  shows "gate_inv (s\<lparr>gs_pending := (gs_pending s)(r := (gs_pending s r)(i := Some p))\<rparr>)"
    and "gate_inv (s\<lparr>gs_subs := (gs_subs s)(r := (gs_subs s r)(i := Some p))\<rparr>)"
proof -
  have a: "gate_inv s'" if eq: "gs_asked s' = gs_asked s" "gs_won s' = gs_won s" "gs_auth s' = gs_auth s"
      "gs_rows s' = gs_rows s" "gs_tasks s' = gs_tasks s" "gs_promise s' = gs_promise s" "gs_nodes s' = gs_nodes s"
      and w: "waiters_ok s'" for s'
  proof -
    have "creating_ok s'" "tasks_ok s'"
      using assms(1) eq by (auto simp: gate_inv_def creating_ok_def creating_def won_ids_def tasks_ok_def same_knowledge [OF eq(1-3)])
    then show ?thesis using assms(1) w same_parts(1,3-5) [OF eq(1-3)] eq by (simp add: gate_inv_def)
  qed
  have "waiters_ok s" using assms(1) by (simp add: gate_inv_def)
  then show "gate_inv (s\<lparr>gs_pending := (gs_pending s)(r := (gs_pending s r)(i := Some p))\<rparr>)"
    "gate_inv (s\<lparr>gs_subs := (gs_subs s)(r := (gs_subs s r)(i := Some p))\<rparr>)"
    using assms(2) by (auto intro!: a simp: waiters_ok_def)
qed

section \<open>Statements keep the invariant\<close>

lemma merge_decision:
  "map_of (merge_of W pl (click_patch d)) ''decision'' = Some (JStr (decision_word d))"
proof -
  have plain: "plain_value (JStr x)" for x by simp
  show ?thesis
    unfolding merge_of_def click_patch_def
    by (cases W) (simp_all only: dialect.case postgres.merge_field [OF plain] sqlite.merge_field [OF plain] fun_upd_same)
qed

lemma map_id_rows: "(\<And>g. pg_id (f g) = pg_id g) \<Longrightarrow> pg_id ` f ` S = pg_id ` S"
  by (simp add: image_image)

lemma settled_rows_inv:
  assumes "gate_inv s"
    and "keyed T" "pg_id ` set T \<subseteq> pg_id ` set (gs_rows s)"
    and "\<forall>i \<in> fst ` set new. i \<in> pg_id ` set (gs_rows s) \<and> i \<notin> won_ids s" "distinct (map fst new)"
    and "\<forall>(i, st, u, patch) \<in> set new. st = GApproved \<or> st = GDenied \<longrightarrow> authed s i u"
    and "\<forall>g \<in> set T. g \<in> set (gs_rows s) \<and> pg_id g \<notin> fst ` set new
           \<or> pg_status g \<noteq> GPending \<and> approved_ok (s\<lparr>gs_won := gs_won s @ new\<rparr>) (pg_id g) g"
  shows "gate_inv (s\<lparr>gs_rows := T, gs_won := gs_won s @ new\<rparr>)" (is "gate_inv ?s")
proof -
  have km: "knows_more s ?s" by (auto simp: knows_more_def)
  note mono = claims_mono [OF km] stage_mono [OF km]
  have inv: "rows_ok s" "tasks_ok s" "waiters_ok s" "creating_ok s" "won_ok s" "auth_ok s" "outcome_ok s"
    using assms(1) by (auto simp: gate_inv_def)
  have ids: "won_ids ?s = won_ids s \<union> fst ` set new" by (auto simp: won_ids_def)
  have asked: "\<exists>p. gs_asked s i = Some p" if "i \<in> pg_id ` set (gs_rows s)" for i
    using inv(1) that by (auto simp: rows_ok_def row_ok_def)
  have same: "approved_ok ?s i g = approved_ok (s\<lparr>gs_won := gs_won s @ new\<rparr>) i g" for i g
    by (simp add: approved_ok_def)
  have "row_ok ?s g" if g: "g \<in> set T" for g
  proof (cases "g \<in> set (gs_rows s) \<and> pg_id g \<notin> fst ` set new")
    case True
    then have "row_ok s g" using inv(1) by (simp add: rows_ok_def)
    with True mono(5) show ?thesis by (auto simp: row_ok_def ids)
  next
    case False
    with assms(7) g have r: "pg_status g \<noteq> GPending" "approved_ok ?s (pg_id g) g" unfolding same by blast+
    have "pg_id g \<in> pg_id ` set (gs_rows s)" using assms(3) g by blast
    with asked r show ?thesis by (auto simp: row_ok_def)
  qed
  then have "rows_ok ?s" using assms(2) by (simp add: rows_ok_def)
  moreover have "tasks_ok ?s" using inv(2) mono(7) by (simp add: tasks_ok_def)
  moreover have "waiters_ok ?s" using inv(3) by (simp add: waiters_ok_def)
  moreover have "creating_ok ?s"
    unfolding creating_ok_def
  proof (intro allI impI conjI)
    fix k i assume "creating ?s k i"
    then have c: "creating s k i" by (simp add: creating_def)
    with inv(4) have n: "i \<notin> pg_id ` set (gs_rows s)" "i \<notin> won_ids s" by (auto simp: creating_ok_def)
    show "i \<notin> pg_id ` set (gs_rows ?s)" using n(1) assms(3) by auto
    show "i \<notin> won_ids ?s" using n assms(4) unfolding ids by blast
    fix k' assume "creating ?s k' i"
    then have "creating s k' i" by (simp add: creating_def)
    with c inv(4) show "k' = k" by (auto simp: creating_ok_def)
  qed
  moreover have "won_ok ?s"
  proof -
    have "distinct (map fst (gs_won s @ new))"
    proof -
      have "fst ` set (gs_won s) \<inter> fst ` set new = {}" using assms(4) unfolding won_ids_def by blast
      moreover have "distinct (map fst (gs_won s))" using inv(5) by (simp add: won_ok_def)
      ultimately show ?thesis using assms(5) by simp
    qed
    moreover have "gs_asked s i \<noteq> None \<and> (st = GApproved \<or> st = GDenied \<longrightarrow> authed s i u)"
      if "(i, st, u, patch) \<in> set (gs_won s @ new)" for i st u patch
    proof (cases "(i, st, u, patch) \<in> set new")
      case True
      then have "i \<in> fst ` set new" by force
      with assms(4) asked [of i] have "gs_asked s i \<noteq> None" by blast
      with True assms(6) show ?thesis by blast
    next
      case False
      with that inv(5) show ?thesis by (auto simp: won_ok_def)
    qed
    moreover have "gs_asked ?s = gs_asked s" "gs_won ?s = gs_won s @ new" "authed ?s i u = authed s i u" for i u
      by (simp_all add: authed_def)
    ultimately show ?thesis unfolding won_ok_def by (simp only:) blast
  qed
  moreover have "auth_ok ?s" using inv(6) by (simp add: auth_ok_def)
  moreover have "outcome_ok ?s" using inv(7) unfolding outcome_ok_def by fastforce
  ultimately show ?thesis by (simp add: gate_inv_def)
qed

lemma inv_rows_fewer:
  assumes "gate_inv s" "keyed T" "set T \<subseteq> set (gs_rows s)"
  shows "gate_inv (s\<lparr>gs_rows := T\<rparr>)"
proof -
  have "gate_inv (s\<lparr>gs_rows := T, gs_won := gs_won s @ []\<rparr>)"
    by (rule settled_rows_inv [OF assms(1,2)]) (use assms(3) in auto)
  then show ?thesis by simp
qed

lemma inv_create_row:
  assumes "gate_inv s" "gs_asked s (pr_id p) = Some p" "pr_id p \<notin> won_ids s" "\<And>k. \<not> creating s k (pr_id p)"
    and "create fresh inst now (prompt_args p t) (gs_rows s) = Some (row, T)"
  shows "gate_inv (s\<lparr>gs_rows := T\<rparr>)" (is "gate_inv ?s")
proof -
  note c = create_get [OF assms(5)]
  have row: "pg_id row = pr_id p" "pg_payload row = pr_payload p"
    using assms(5) by (auto simp: create_def prompt_args_def Let_def split: if_splits)
  have inv: "rows_ok s" "tasks_ok s" "waiters_ok s" "creating_ok s" "won_ok s" "auth_ok s" "outcome_ok s"
    using assms(1) by (auto simp: gate_inv_def)
  have f: "gs_asked ?s = gs_asked s" "gs_won ?s = gs_won s" "gs_auth ?s = gs_auth s" by simp_all
  have "row_ok ?s g = row_ok s g" for g by (simp add: row_ok_def won_ids_def approved_ok_def)
  moreover have "row_ok s row" using row c(3) assms(2,3) by (simp add: row_ok_def approved_ok_def)
  ultimately have "rows_ok ?s" using inv(1) c(1,2) by (auto simp: rows_ok_def)
  moreover have "creating_ok ?s"
    using inv(4) assms(4) row(1) unfolding creating_ok_def creating_def won_ids_def by (auto simp: c(1)) metis
  moreover have "tasks_ok ?s" using inv(2) by (simp add: tasks_ok_def same_knowledge [OF f])
  ultimately show ?thesis
    using inv same_parts(2-5) [OF f] by (simp add: gate_inv_def)
qed

lemma find_gate:
  assumes "gate_inv s" "get_gate i (gs_rows s) = Some g"
  shows "row_ok s g" "pg_id g = i"
  using assms get_gate_mem [OF assms(2)] get_gate_id [OF assms(2)] by (auto simp: gate_inv_def rows_ok_def)

lemma inv_resolve_row:
  assumes "gate_inv s" "resolve (merge_of d) i st u patch now (gs_rows s) = (row, T)" "st \<noteq> GPending"
    and "st = GApproved \<or> st = GDenied \<longrightarrow> authed s i u"
    and "st = GApproved \<longrightarrow> (\<exists>dec. dec \<noteq> Deny \<and> patch = Some (click_patch dec))"
  shows "gate_inv (s\<lparr>gs_rows := T, gs_won := (if row = None then gs_won s else gs_won s @ [(i, st, u, patch)])\<rparr>)"
proof -
  have K: "keyed (gs_rows s)" using assms(1) by (simp add: gate_inv_def rows_ok_def)
  show ?thesis
  proof (rule resolve_cases [OF K, of "merge_of d" i st u patch now])
    assume "resolve (merge_of d) i st u patch now (gs_rows s) = (None, gs_rows s)"
    with assms(2) have "row = None" "T = gs_rows s" by simp_all
    with inv_rows_fewer [OF assms(1) K] show ?thesis by simp
  next
    fix g assume g: "g \<in> set (gs_rows s)" "pg_id g = i" "pg_status g = GPending"
      "fst (resolve (merge_of d) i st u patch now (gs_rows s)) = Some (settle_row (merge_of d) st u patch now g)"
      "set (snd (resolve (merge_of d) i st u patch now (gs_rows s))) = insert (settle_row (merge_of d) st u patch now g) (set (gs_rows s) - {g})"
    let ?g = "settle_row (merge_of d) st u patch now g" and ?new = "[(i, st, u, patch)]"
    have T: "row = Some ?g" "set T = insert ?g (set (gs_rows s) - {g})" "keyed T"
      using g(4,5) assms(2) keyed_statements(1) [OF K, of "merge_of d" i st u patch now] by simp_all
    have "row_ok s g" using assms(1) g(1) by (simp add: gate_inv_def rows_ok_def)
    with g have won: "i \<notin> won_ids s" by (auto simp: row_ok_def)
    have other: "pg_id x \<noteq> i" if "x \<in> set (gs_rows s) - {g}" for x
      using that g(1,2) K by (auto simp: distinct_map inj_on_def)
    have ap: "approved_ok (s\<lparr>gs_won := gs_won s @ ?new\<rparr>) (pg_id ?g) ?g"
    proof (cases "st = GApproved")
      case True
      with assms(5) obtain dec where "dec \<noteq> Deny" "patch = Some (click_patch dec)" by blast
      with True g(2) show ?thesis
        by (auto simp: approved_ok_def merge_decision settle_row_def intro!: exI [of _ dec])
    qed (simp add: approved_ok_def)
    have "gate_inv (s\<lparr>gs_rows := T, gs_won := gs_won s @ ?new\<rparr>)"
    proof (rule settled_rows_inv [OF assms(1) T(3)])
      show "pg_id ` set T \<subseteq> pg_id ` set (gs_rows s)" using T(2) g(1) by auto
      show "\<forall>i \<in> fst ` set ?new. i \<in> pg_id ` set (gs_rows s) \<and> i \<notin> won_ids s" using g(1,2) won by auto
      show "\<forall>(i, st, u, patch) \<in> set ?new. st = GApproved \<or> st = GDenied \<longrightarrow> authed s i u" using assms(4) by simp
      show "\<forall>x \<in> set T. x \<in> set (gs_rows s) \<and> pg_id x \<notin> fst ` set ?new
          \<or> pg_status x \<noteq> GPending \<and> approved_ok (s\<lparr>gs_won := gs_won s @ ?new\<rparr>) (pg_id x) x"
        using T(2) other ap assms(3) by auto
    qed simp
    with T(1) show ?thesis by simp
  qed
qed

lemma run_request_inv:
  assumes "gate_inv s" "stage_ok s (Sent q c)" "run_request W r now q s = (rep, s')"
    and "\<And>p. q = AskCreate p \<Longrightarrow> pr_id p \<notin> won_ids s \<and> (\<forall>k. \<not> creating s k (pr_id p))"
  shows "gate_inv s' \<and> stage_ok s' (Ran rep c)"
proof (cases q)
  case (AskCreate p)
  with assms(2) have c: "c = AfterCreate p \<or> c = AfterOpenCreate p" "gs_asked s (pr_id p) = Some p" by auto
  show ?thesis
  proof (cases "create [] (gw_instance W r) now (prompt_args p now) (gs_rows s)")
    case None
    with assms(1,3) AskCreate c show ?thesis by (auto simp: run_request_def)
  next
    case (Some x)
    obtain row T where x: "x = (row, T)" by (cases x)
    have "s' = s\<lparr>gs_rows := T\<rparr>" using assms(3) AskCreate Some x by (simp add: run_request_def)
    moreover have "gate_inv (s\<lparr>gs_rows := T\<rparr>)"
      by (rule inv_create_row [OF assms(1) c(2) _ _ Some [unfolded x]]) (use assms(4) AskCreate in auto)
    ultimately show ?thesis using c by auto
  qed
next
  case (AskGet i)
  then have eq: "s' = s" "rep = Row (get_gate i (gs_rows s))" using assms(3) by (auto simp: run_request_def)
  show ?thesis
  proof (cases "get_gate i (gs_rows s)")
    case None
    with assms(1,2) eq AskGet show ?thesis by (auto split: cont.splits)
  next
    case (Some g)
    have g: "row_ok s g" "pg_id g = i" using find_gate [OF assms(1) Some] .
    with assms(1,2) eq AskGet Some show ?thesis
      by (auto simp: row_ok_def known_payload_def split: cont.splits)
  qed
next
  case (AskResolve i st u patch)
  obtain row T where res: "resolve (merge_of (gw_dialect W)) i st u patch now (gs_rows s) = (row, T)" by (metis prod.exhaust)
  have s': "s' = s\<lparr>gs_rows := T, gs_won := (if row = None then gs_won s else gs_won s @ [(i, st, u, patch)])\<rparr>"
    "rep = Row row" using assms(3) AskResolve res by (auto simp: run_request_def)
  have st: "st = GCancelled \<and> (c = AfterCancel \<or> (\<exists>k. c = AfterStray k)) \<or> (\<exists>k l. c = AfterSettle k l \<and> i = ck_id k \<and> u = ck_user k
      \<and> st = click_status (ck_decision k) \<and> patch = Some (click_patch (ck_decision k)) \<and> authed s i u \<and> local_ok s i l)"
    using assms(2) AskResolve by (auto split: cont.splits)
  have "gate_inv s'" unfolding s'
  proof (rule inv_resolve_row [OF assms(1) res])
    show "st \<noteq> GPending" using st by (auto simp: click_status_def split: if_splits)
    show "st = GApproved \<or> st = GDenied \<longrightarrow> authed s i u" using st by auto
    show "st = GApproved \<longrightarrow> (\<exists>dec. dec \<noteq> Deny \<and> patch = Some (click_patch dec))"
      using st by (auto simp: click_status_def split: if_splits)
  qed
  moreover have "stage_ok s' (Ran rep c)"
    using st s' by (auto simp: won_click_def local_ok_def)
  ultimately show ?thesis by blast
qed

lemma run_db_inv:
  assumes "gate_inv s" "gs_tasks s k = Some (r, Sent q c)" "run_request W r now q s = (rep, s')"
  shows "gate_inv (go k r (Ran rep c) s')"
proof -
  let ?s0 = "finish k s"
  obtain s0' where run0: "run_request W r now q ?s0 = (rep, s0')" and eq: "go k r (Ran rep c) s0' = go k r (Ran rep c) s'"
    using assms(3) by (cases q) (auto simp: run_request_def finish_def go_def split: option.splits prod.splits)
  have st: "stage_ok s (Sent q c)" using assms(1,2) by (auto simp: gate_inv_def tasks_ok_def)
  have "stage_ok ?s0 (Sent q c) = stage_ok s (Sent q c)" by (rule same_knowledge) (simp_all add: finish_def)
  with st have st0: "stage_ok ?s0 (Sent q c)" by blast
  have "pr_id p \<notin> won_ids ?s0 \<and> (\<forall>k'. \<not> creating ?s0 k' (pr_id p))" if "q = AskCreate p" for p
  proof -
    have c: "creating s k (pr_id p)" using assms(2) that by (auto simp: creating_def)
    moreover have "creating_ok s" using assms(1) by (simp add: gate_inv_def)
    ultimately show ?thesis unfolding creating_ok_def creating_finish by (auto simp: won_ids_def finish_def)
  qed
  from run_request_inv [OF inv_finish [OF assms(1)] st0 run0 this]
  have "gate_inv (go k r (Ran rep c) s0')" by (intro inv_go) auto
  then show ?thesis by (simp add: eq)
qed

lemma sweep_inv:
  assumes "gate_inv s" "sweepExpired now (gs_rows s) = (out, T)"
  shows "gate_inv (s\<lparr>gs_rows := T, gs_won := gs_won s @ map (\<lambda>g. (pg_id g, GExpired, ''system'', None)) out\<rparr>)"
proof (rule settled_rows_inv [OF assms(1)])
  have K: "keyed (gs_rows s)" and rows: "\<forall>g \<in> set (gs_rows s). row_ok s g"
    using assms(1) by (simp_all add: gate_inv_def rows_ok_def)
  have out: "out = map (expire_row now) (filter (lapsed now) (gs_rows s))"
    "T = map (\<lambda>g. if lapsed now g then expire_row now g else g) (gs_rows s)"
    using assms(2) by (simp_all add: sweepExpired_def)
  have ids: "fst ` set (map (\<lambda>g. (pg_id g, GExpired, ''system'', None)) out) = pg_id ` {g \<in> set (gs_rows s). lapsed now g}"
    by (auto simp: out image_image)
  show "keyed T" using keyed_statements(2) [OF K, of now] assms(2) by simp
  show "pg_id ` set T \<subseteq> pg_id ` set (gs_rows s)" by (auto simp: out)
  show "\<forall>i \<in> fst ` set (map (\<lambda>g. (pg_id g, GExpired, ''system'', None)) out). i \<in> pg_id ` set (gs_rows s) \<and> i \<notin> won_ids s"
    unfolding ids using rows by (auto simp: row_ok_def lapsed_def)
  show "distinct (map fst (map (\<lambda>g. (pg_id g, GExpired, ''system'', None)) out))"
    using K by (simp add: out comp_def distinct_map_filter)
  show "\<forall>(i, st, u, patch) \<in> set (map (\<lambda>g. (pg_id g, GExpired, ''system'', None)) out).
      st = GApproved \<or> st = GDenied \<longrightarrow> authed s i u" by auto
  show "\<forall>g \<in> set T. g \<in> set (gs_rows s) \<and> pg_id g \<notin> fst ` set (map (\<lambda>g. (pg_id g, GExpired, ''system'', None)) out)
      \<or> pg_status g \<noteq> GPending
         \<and> approved_ok (s\<lparr>gs_won := gs_won s @ map (\<lambda>g. (pg_id g, GExpired, ''system'', None)) out\<rparr>) (pg_id g) g"
  proof
    fix g assume "g \<in> set T"
    then obtain x where x: "x \<in> set (gs_rows s)" "g = (if lapsed now x then expire_row now x else x)" by (auto simp: out)
    show "g \<in> set (gs_rows s) \<and> pg_id g \<notin> fst ` set (map (\<lambda>g. (pg_id g, GExpired, ''system'', None)) out)
      \<or> pg_status g \<noteq> GPending
         \<and> approved_ok (s\<lparr>gs_won := gs_won s @ map (\<lambda>g. (pg_id g, GExpired, ''system'', None)) out\<rparr>) (pg_id g) g"
    proof (cases "lapsed now x")
      case True
      with x show ?thesis by (simp add: approved_ok_def)
    next
      case False
      have "pg_id x \<notin> pg_id ` {g \<in> set (gs_rows s). lapsed now g}"
      proof
        assume "pg_id x \<in> pg_id ` {g \<in> set (gs_rows s). lapsed now g}"
        then obtain y where "y \<in> set (gs_rows s)" "lapsed now y" "pg_id y = pg_id x" by auto
        moreover then have "y = x" using K x(1) inj_onD [of pg_id "set (gs_rows s)" y x] by (simp add: distinct_map)
        ultimately show False using False by simp
      qed
      with False x show ?thesis unfolding ids by simp
    qed
  qed
qed

section \<open>Every step keeps the invariant\<close>

lemma inv_listening: "gate_inv s \<Longrightarrow> gate_inv (s\<lparr>gs_listening := l\<rparr>)"
  by (erule inv_smaller) auto

lemma inv_threw: "gate_inv s \<Longrightarrow> gate_inv (s\<lparr>gs_threw := l\<rparr>)"
  by (erule inv_smaller) auto

lemma inv_direct: "gate_inv s \<Longrightarrow> gate_inv (s\<lparr>gs_direct := l\<rparr>)"
  by (erule inv_smaller) auto

lemma inv_routes: "gate_inv s \<Longrightarrow> gate_inv (s\<lparr>gs_routes := l\<rparr>)"
  by (erule inv_smaller) auto

lemmas inv_steps = inv_finish inv_forget inv_noted inv_listening inv_threw inv_direct inv_routes

lemma inv_cancel: "gate_inv s \<Longrightarrow> gate_inv (cancel_row k r i s)"
  unfolding cancel_row_def by (rule inv_go) auto

lemma inv_listen_and_post:
  assumes "gate_inv s" "gs_asked s (pr_id p) = Some p"
  shows "gate_inv (listen_and_post k r p s)"
  unfolding listen_and_post_def using assms by (intro inv_go inv_listening) auto

lemma inv_after_create:
  assumes "gate_inv s" "gs_asked s (pr_id p) = Some p"
  shows "gate_inv (after_create W k r p created s)"
proof (cases created)
  case False
  with assms(1) show ?thesis by (simp add: after_create_def inv_steps)
next
  case True
  let ?s1 = "s\<lparr>gs_pending := (gs_pending s)(r := (gs_pending s r)(pr_id p := Some p))\<rparr>"
  have 1: "gate_inv ?s1" by (rule inv_waiter(1) [OF assms])
  have a: "gs_asked ?s1 (pr_id p) = Some p" using assms(2) by simp
  have "gate_inv (?s1\<lparr>gs_subs := (gs_subs ?s1)(r := (gs_subs ?s1 r)(pr_id p := Some p))\<rparr>)"
    by (rule inv_waiter(2) [OF 1 a])
  then have "gate_inv (go k r (Waits (AfterSubscribe p))
      (?s1\<lparr>gs_subs := (gs_subs ?s1)(r := (gs_subs ?s1 r)(pr_id p := Some p))\<rparr>))"
    by (rule inv_go) (use a in auto)
  with True inv_listen_and_post [OF 1 a] show ?thesis by (simp add: after_create_def Let_def)
qed

lemma inv_ask_resolver:
  assumes "gate_inv s" "gs_asked s i = None"
  shows "gate_inv (ask_resolver W k r i session tool input sugg stamp s)"
proof (cases "gw_policy W tool input")
  case (Some d)
  with assms(1) show ?thesis by (simp add: ask_resolver_def inv_steps)
next
  case None
  show ?thesis
  proof (cases "gs_routes s r session")
    case n: None
    with None assms(1) show ?thesis by (simp add: ask_resolver_def inv_steps)
  next
    case (Some rt)
    let ?p = "\<lparr>pr_id = i, pr_session = session, pr_tool = tool, pr_input = input, pr_suggestions = sugg,
      pr_payload = prompt_payload tool (rt_channel rt) (rt_threadTs rt) False (rt_persona rt) stamp sugg\<rparr>"
    from None Some inv_ask [OF assms(1), of ?p "AfterCreate ?p" k r] assms(2) show ?thesis
      by (simp add: ask_resolver_def Let_def)
  qed
qed

lemma inv_ask_open:
  assumes "gate_inv s" "gs_asked s i = None"
  shows "gate_inv (ask_open W k r i session tool input sugg stamp rt s)"
proof (cases "gw_policy W tool input")
  case (Some d)
  with assms(1) show ?thesis by (simp add: ask_open_def inv_steps)
next
  case None
  let ?p = "\<lparr>pr_id = i, pr_session = session, pr_tool = tool, pr_input = input, pr_suggestions = sugg,
      pr_payload = prompt_payload tool (rt_channel rt) (rt_threadTs rt) True (rt_persona rt) stamp sugg\<rparr>"
  from None inv_ask [OF assms(1), of ?p "AfterOpenCreate ?p" k r] assms(2) show ?thesis
    by (simp add: ask_open_def Let_def)
qed

lemma inv_on_click:
  assumes "gate_inv s"
  shows "gate_inv (on_click k r c s)"
proof (cases "gs_pending s r (ck_id c)")
  case None
  with assms show ?thesis by (auto simp: on_click_def intro: inv_go)
next
  case (Some p)
  with assms have "gs_asked s (ck_id c) = Some p" by (auto simp: gate_inv_def waiters_ok_def)
  then have "stage_ok s (Waits (AfterAuth c (Some p) (pr_payload p)))" by (simp add: known_payload_def local_ok_def)
  with Some assms show ?thesis by (auto simp: on_click_def intro: inv_go)
qed

lemma inv_after_look:
  assumes "gate_inv s" "\<And>g. row = Some g \<Longrightarrow> pg_status g = GPending \<Longrightarrow> known_payload s (ck_id c) (pg_payload g)"
  shows "gate_inv (after_look W k r c row s)"
proof (cases row)
  case None
  with assms(1) show ?thesis by (simp add: after_look_def inv_steps)
next
  case (Some g)
  with assms show ?thesis by (auto simp: after_look_def inv_steps local_ok_def intro!: inv_go)
qed

lemma inv_after_auth:
  assumes "gate_inv s" "known_payload s (ck_id c) payload" "local_ok s (ck_id c) local"
  shows "gate_inv (after_auth W k r c local payload answer s)"
proof (cases "\<exists>locks grants. answer = Some (locks, grants) \<and> mayDecide locks grants payload (ck_user c)")
  case False
  with assms(1) show ?thesis by (auto simp: after_auth_def inv_steps split: option.split)
next
  case True
  then obtain locks grants where a: "answer = Some (locks, grants)" "mayDecide locks grants payload (ck_user c)" by blast
  let ?a = "\<lparr>au_id = ck_id c, au_user = ck_user c, au_locks = locks, au_grants = grants\<rparr>"
  let ?s = "s\<lparr>gs_auth := gs_auth s @ [?a]\<rparr>"
  obtain p where "gs_asked s (ck_id c) = Some p" "payload = pr_payload p" using assms(2) by (auto simp: known_payload_def)
  with a(2) have inv: "gate_inv ?s" by (intro inv_auth [OF assms(1)]) auto
  have "stage_ok ?s (Sent (AskResolve (ck_id c) (click_status (ck_decision c)) (ck_user c) (Some (click_patch (ck_decision c))))
      (AfterSettle c local))"
    using assms(3) by (simp add: authed_def local_ok_def)
  with inv a show ?thesis by (auto simp: after_auth_def Let_def intro!: inv_go inv_finish)
qed

lemma inv_after_settle:
  assumes "gate_inv s" "row \<noteq> None \<Longrightarrow> won_click s c" "local_ok s (ck_id c) local"
  shows "gate_inv (after_settle k r c local row s)"
proof (cases local)
  case None
  with assms(1) show ?thesis by (auto simp: after_settle_def inv_steps split: option.split)
next
  case (Some p)
  show ?thesis
  proof (cases row)
    case n: None
    with Some assms(1) show ?thesis by (auto simp: after_settle_def intro: inv_go)
  next
    case g: (Some g)
    let ?s = "noted (Audited (ck_id c) (ck_user c) (ck_decision c)) (forget r (ck_id c) s)"
    have "gate_inv ?s" using assms(1) by (intro inv_noted inv_forget)
    moreover have "stage_ok ?s (Waits (AfterPublish c p))"
      using assms(2,3) g Some by (simp add: won_click_def local_ok_def noted_def forget_def)
    ultimately have "gate_inv (go k r (Waits (AfterPublish c p)) ?s)" by (rule inv_go) simp
    with Some g show ?thesis by (simp add: after_settle_def)
  qed
qed

lemma inv_after_recheck: "gate_inv s \<Longrightarrow> gate_inv (after_recheck k r c row s)"
  by (auto simp: after_recheck_def inv_steps inv_deliver split: option.split)

lemma click_words: "click_patch d = click_patch d' \<longleftrightarrow> d = d'" "decision_word d = ''always'' \<longleftrightarrow> d = Always"
  by (cases d; cases d'; simp add: click_patch_def decision_word_def)+

lemma fair_row:
  assumes "gs_asked s i = Some p" "approved_ok s i g"
  shows "fair_outcome s i (decisionFromPermRow g (pr_tool p) (pr_input p) (pr_suggestions p))"
proof (cases "pg_status g = GApproved")
  case True
  with assms(2) obtain d u where d: "d \<noteq> Deny" "(i, GApproved, u, Some (click_patch d)) \<in> set (gs_won s)"
    "map_of (pg_payload g) ''decision'' = Some (JStr (decision_word d))" by (auto simp: approved_ok_def)
  have "decisionFromPermRow g (pr_tool p) (pr_input p) (pr_suggestions p) =
      PAllow (pr_input p) (if d = Always then Some (alwaysAllowUpdates (pr_tool p) (pr_suggestions p)) else None)"
    using True d(3) by (simp add: decisionFromPermRow_def click_words)
  with assms(1) d(1,2) show ?thesis unfolding fair_outcome_def by auto
next
  case False
  then show ?thesis by (cases "pg_status g") (auto simp: decisionFromPermRow_def)
qed

lemma inv_after_wake:
  assumes "gate_inv s" "gs_asked s (pr_id p) = Some p" "\<And>g. row = Some g \<Longrightarrow> approved_ok s (pr_id p) g"
  shows "gate_inv (after_wake k r p row s)"
proof (cases row)
  case None
  with assms(1) show ?thesis by (simp add: after_wake_def inv_steps)
next
  case (Some g)
  have "fair_outcome s (pr_id p) (decisionFromPermRow g (pr_tool p) (pr_input p) (pr_suggestions p))"
    by (rule fair_row [OF assms(2) assms(3) [OF Some]])
  then have "fair_outcome (forget r (pr_id p) s) (pr_id p) (decisionFromPermRow g (pr_tool p) (pr_input p) (pr_suggestions p))"
    by (simp add: fair_outcome_def forget_def)
  with Some assms(1) show ?thesis by (auto simp: after_wake_def intro!: inv_finish inv_deliver inv_forget)
qed

lemma inv_on_reply:
  assumes "gate_inv s" "stage_ok s (Ran rep c)"
  shows "gate_inv (on_reply W k r rep c s)"
proof (cases rep)
  case (Created b)
  show ?thesis
  proof (cases c)
    case (AfterOpenCreate p)
    with assms Created show ?thesis by (auto simp: on_reply_def intro!: inv_go inv_finish)
  qed (use assms Created in \<open>auto simp: on_reply_def inv_steps intro!: inv_after_create\<close>)
next
  case (Row row)
  show ?thesis
  proof (cases c)
    case (AfterLook ck)
    with assms Row show ?thesis by (cases row) (auto simp: on_reply_def intro!: inv_after_look)
  next
    case (AfterSettle ck l)
    with assms Row show ?thesis by (cases row) (auto simp: on_reply_def intro!: inv_after_settle)
  next
    case (AfterWake p)
    with assms Row show ?thesis by (cases row) (auto simp: on_reply_def intro!: inv_after_wake)
  qed (use assms Row in \<open>auto simp: on_reply_def inv_steps inv_after_recheck split: option.split\<close>)
qed

lemma inv_on_return:
  assumes "gate_inv s" "stage_ok s (Waits c)"
  shows "gate_inv (on_return k r c ok s)"
proof (cases c)
  case (AfterSubscribe p)
  with assms show ?thesis by (auto simp: on_return_def intro: inv_listen_and_post)
next
  case (AfterPost p)
  with assms show ?thesis by (auto simp: on_return_def after_post_def inv_steps intro!: inv_cancel)
next
  case (AfterOpenPost p)
  with assms show ?thesis by (auto simp: on_return_def inv_steps intro!: inv_cancel)
next
  case (AfterPublish ck p)
  have "fair_outcome s (ck_id ck) (clicked ck p)"
  proof (cases "ck_decision ck = Deny")
    case False
    then have "click_status (ck_decision ck) = GApproved" by (simp add: click_status_def)
    with False assms(2) AfterPublish show ?thesis
      unfolding fair_outcome_def clicked_def by (auto simp: won_click_def)
  qed (simp add: clicked_def)
  with assms(1) AfterPublish show ?thesis by (auto simp: on_return_def intro!: inv_finish inv_deliver)
qed (use assms in \<open>simp_all add: on_return_def\<close>)

lemma inv_on_abort: "gate_inv s \<Longrightarrow> gate_inv (on_abort k r i s)"
  by (auto simp: on_abort_def Let_def inv_steps intro!: inv_deliver inv_cancel)

lemma inv_crash: "gate_inv s \<Longrightarrow> gate_inv (gate_step W s (CrashOf r))"
  by (erule inv_smaller) (auto split: option.splits if_splits prod.splits)

lemma inv_poll:
  assumes "gate_inv s" "get_gate i (gs_rows s) = Some g" "poll_answer now g = Some g'"
  shows "gate_inv (s\<lparr>gs_nodes := gs_nodes s @ [(i, decisionFromPermRow g' tool input sugg)]\<rparr>)" (is "gate_inv ?s")
proof -
  have g: "row_ok s g" "pg_id g = i" using find_gate [OF assms(1,2)] .
  have ap: "approved_ok s i g'"
    using g assms(3) by (auto simp: row_ok_def poll_answer_def approved_ok_def split: if_splits)
  have new: "\<exists>d u. d \<noteq> Deny \<and> (i, GApproved, u, Some (click_patch d)) \<in> set (gs_won s) \<and> (ups \<noteq> None \<longleftrightarrow> d = Always)"
    if "decisionFromPermRow g' tool input sugg = PAllow inp ups" for inp ups
  proof -
    have "pg_status g' = GApproved" using that by (auto simp: decisionFromPermRow_def split: gate_status.splits)
    with ap obtain d u where d: "d \<noteq> Deny" "(i, GApproved, u, Some (click_patch d)) \<in> set (gs_won s)"
      "map_of (pg_payload g') ''decision'' = Some (JStr (decision_word d))" by (auto simp: approved_ok_def)
    then have "ups \<noteq> None \<longleftrightarrow> d = Always"
      using that \<open>pg_status g' = GApproved\<close> by (auto simp: decisionFromPermRow_def click_words split: if_splits)
    with d(1,2) show ?thesis by blast
  qed
  have f: "gs_asked ?s = gs_asked s" "gs_won ?s = gs_won s" "gs_auth ?s = gs_auth s" by simp_all
  have "outcome_ok ?s"
    using assms(1) new unfolding gate_inv_def outcome_ok_def by auto
  moreover have "creating_ok ?s" "tasks_ok ?s"
    using assms(1) by (auto simp: gate_inv_def creating_ok_def creating_def won_ids_def tasks_ok_def same_knowledge [OF f])
  ultimately show ?thesis using assms(1) same_parts(1-4) [OF f] by (simp add: gate_inv_def)
qed

lemma gate_step_inv: "gate_inv s \<Longrightarrow> gate_inv (gate_step W s e)"
proof (cases e)
  case (Reply k)
  assume "gate_inv s"
  then have "\<And>r st. gs_tasks s k = Some (r, st) \<Longrightarrow> stage_ok s st" by (auto simp: gate_inv_def tasks_ok_def)
  with Reply \<open>gate_inv s\<close> show ?thesis by (auto intro!: inv_on_reply split: option.split stage.split)
next
  case (Return k ok)
  assume "gate_inv s"
  then have "\<And>r st. gs_tasks s k = Some (r, st) \<Longrightarrow> stage_ok s st" by (auto simp: gate_inv_def tasks_ok_def)
  with Return \<open>gate_inv s\<close> show ?thesis by (auto intro!: inv_on_return split: option.split stage.split)
next
  case (Authorise k answer)
  assume "gate_inv s"
  then have st: "\<And>r st. gs_tasks s k = Some (r, st) \<Longrightarrow> stage_ok s st" by (auto simp: gate_inv_def tasks_ok_def)
  then have "known_payload s (ck_id c) pl \<and> local_ok s (ck_id c) l"
    if "gs_tasks s k = Some (r, Waits (AfterAuth c l pl))" for r c l pl
    using st [OF that] by simp
  with Authorise \<open>gate_inv s\<close> show ?thesis by (auto intro!: inv_after_auth split: option.split stage.split cont.split)
next
  case (RunDb k now)
  assume "gate_inv s"
  with RunDb show ?thesis by (auto intro!: run_db_inv split: option.split stage.split prod.split)
next
  case (Wake k r i)
  assume inv: "gate_inv s"
  then have "gs_asked s i = Some p \<and> pr_id p = i" if "gs_subs s r i = Some p" for p
    using that by (auto simp: gate_inv_def waiters_ok_def)
  with Wake inv show ?thesis by (auto intro!: inv_go split: option.split)
next
  case (Sweep now)
  assume "gate_inv s"
  with Sweep show ?thesis by (auto intro!: sweep_inv split: prod.split)
next
  case (Purge age now)
  assume inv: "gate_inv s"
  then have "keyed (gs_rows s)" by (simp add: gate_inv_def rows_ok_def)
  with Purge inv show ?thesis by (auto intro!: inv_rows_fewer simp: purgeSettledOlderThan_def distinct_map_filter)
next
  case (PollNode i tool input sugg now)
  assume "gate_inv s"
  with PollNode show ?thesis by (auto intro!: inv_poll split: option.split)
next
  case (CrashOf r)
  assume "gate_inv s"
  with CrashOf show ?thesis using inv_crash by simp
qed (auto simp: inv_ask_resolver inv_ask_open inv_on_click inv_on_abort inv_steps)

lemma no_gates_inv: "gate_inv no_gates"
  by (simp add: gate_inv_def no_gates_def part_defs tasks_ok_def)

interpretation gates: machine "gate_step W" gate_inv for W
  by unfold_locales (rule gate_step_inv)

lemma reachable_inv: "gate_inv (gate_exec_events W es)"
  unfolding gate_exec_events_def by (rule gates.run_inv [OF no_gates_inv])

section \<open>Who gets an allow\<close>

text \<open>A click that decided the prompt: it won the row, and its clicker was authorised for this prompt.\<close>

definition decided_by :: "gate_state \<Rightarrow> prompt \<Rightarrow> string \<Rightarrow> click_decision \<Rightarrow> bool" where
  "decided_by s p u d \<longleftrightarrow>
     (pr_id p, click_status d, u, Some (click_patch d)) \<in> set (gs_won s)
     \<and> (\<exists>a \<in> set (gs_auth s). au_id a = pr_id p \<and> au_user a = u
          \<and> mayDecide (au_locks a) (au_grants a) (pr_payload p) u)"

lemma won_decided:
  assumes "gate_inv s" "gs_asked s i = Some p" "(i, GApproved, u, Some (click_patch d)) \<in> set (gs_won s)" "d \<noteq> Deny"
  shows "decided_by s p u d"
proof -
  have i: "pr_id p = i" using assms(1,2) by (auto simp: gate_inv_def waiters_ok_def)
  have "authed s i u" using assms(1,3) by (auto simp: gate_inv_def won_ok_def)
  then obtain a where a: "a \<in> set (gs_auth s)" "au_id a = i" "au_user a = u" by (auto simp: authed_def)
  moreover from a have "mayDecide (au_locks a) (au_grants a) (pr_payload p) u"
    using assms(1,2) by (fastforce simp: gate_inv_def auth_ok_def)
  ultimately show ?thesis using assms(3,4) i by (auto simp: decided_by_def click_status_def)
qed

text \<open>C20: A tool that needed a human runs only if one allowed it: whatever clicks, wake-ups, aborts, lost
  replies, sweeps and crashes happen in any number of gateway processes, when the call that waits is
  told to go on, then a click won the prompt's row, its clicker was the person who asked, the thread's
  lock owner or an approver by what the tables said then, the input is the one that was asked about,
  and the session-wide permission comes with a click on always alone.\<close>

theorem allow_needs_authorised_click:
  assumes "gs_promise (gate_exec_events W es) r i = Some (PAllow inp ups)"
  shows "\<exists>p u d. gs_asked (gate_exec_events W es) i = Some p \<and> d \<noteq> Deny
     \<and> decided_by (gate_exec_events W es) p u d \<and> inp = pr_input p
     \<and> ups = (if d = Always then Some (alwaysAllowUpdates (pr_tool p) (pr_suggestions p)) else None)"
proof -
  let ?s = "gate_exec_events W es"
  have inv: "gate_inv ?s" by (rule reachable_inv)
  with assms obtain p d u where "gs_asked ?s i = Some p" "d \<noteq> Deny" "(i, GApproved, u, Some (click_patch d)) \<in> set (gs_won ?s)"
    "inp = pr_input p" "ups = (if d = Always then Some (alwaysAllowUpdates (pr_tool p) (pr_suggestions p)) else None)"
    unfolding gate_inv_def outcome_ok_def by blast
  with won_decided [OF inv] show ?thesis by blast
qed

text \<open>The same for a node that polls the row.\<close>

theorem node_allow_needs_authorised_click:
  assumes "(i, PAllow inp ups) \<in> set (gs_nodes (gate_exec_events W es))"
  shows "\<exists>p u d. gs_asked (gate_exec_events W es) i = Some p \<and> d \<noteq> Deny
     \<and> decided_by (gate_exec_events W es) p u d \<and> (ups \<noteq> None \<longleftrightarrow> d = Always)"
proof -
  let ?s = "gate_exec_events W es"
  have inv: "gate_inv ?s" by (rule reachable_inv)
  with assms obtain d u where d: "d \<noteq> Deny" "(i, GApproved, u, Some (click_patch d)) \<in> set (gs_won ?s)" "ups \<noteq> None \<longleftrightarrow> d = Always"
    unfolding gate_inv_def outcome_ok_def by blast
  from inv d(2) obtain p where "gs_asked ?s i = Some p" unfolding gate_inv_def won_ok_def by fastforce
  with won_decided [OF inv _ d(2,1)] d show ?thesis by blast
qed


section \<open>Runs\<close>

definition demo_world :: gate_world where
  "demo_world = \<lparr>gw_dialect = Sqlite, gw_bus = True, gw_instance = (\<lambda>r. if r = 0 then ''A'' else ''B''),
     gw_policy = (\<lambda>_ _. None)\<rparr>"

definition demo_click :: "click_decision \<Rightarrow> click" where
  "demo_click d = \<lparr>ck_id = ''t1'', ck_user = ''U1'', ck_decision = d\<rparr>"

definition demo_tables :: "((string \<Rightarrow> string \<Rightarrow> string option) \<times> (string \<Rightarrow> grant list)) option" where
  "demo_tables = Some (\<lambda>_ _. None, \<lambda>_. [])"

text \<open>A prompt of process 0 up to the insert of its row.\<close>

definition demo_prompt :: "gate_event list" where
  "demo_prompt =
     [Bind 0 ''s'' \<lparr>rt_channel = ''C1'', rt_threadTs = ''1.0'', rt_persona = None\<rparr>,
      Prompt 1 0 ''t1'' ''s'' ''Bash'' (JStr ''ls'') [] (Some \<lparr>ts_initiator = Some ''U1'', ts_origin = Some ''slack''\<rparr>),
      RunDb 1 0, Reply 1]"

text \<open>A click the other process takes, which settles the row there.\<close>

definition foreign_click :: "click_decision \<Rightarrow> gate_event list" where
  "foreign_click d = [Click 2 1 (demo_click d), RunDb 2 5, Reply 2, Authorise 2 demo_tables, RunDb 2 6, Reply 2]"

definition local_click :: "click_decision \<Rightarrow> gate_event list" where
  "local_click d = [Click 3 0 (demo_click d), Authorise 3 demo_tables, RunDb 3 8, Reply 3, RunDb 3 9, Reply 3, Return 3 True]"

lemma demo_promise:
  "gs_promise (gate_exec_events demo_world
     (demo_prompt @ [Return 1 True, Return 1 True] @ foreign_click Always @ [Wake 4 0 ''t1'', RunDb 4 7, Reply 4])) 0 ''t1''
   = Some (PAllow (JStr ''ls'') (Some (SessionRule ''Bash'')))"
  by code_simp

theorem allow_needs_authorised_click_witness:
  "\<exists>p u d. gs_asked (gate_exec_events demo_world
       (demo_prompt @ [Return 1 True, Return 1 True] @ foreign_click Always @ [Wake 4 0 ''t1'', RunDb 4 7, Reply 4])) ''t1'' = Some p
     \<and> d = Always \<and> pr_input p = JStr ''ls''"
  using allow_needs_authorised_click [OF demo_promise] by (metis option.distinct(1))


section \<open>What a click does for a call that waits\<close>

definition click_script :: "nat \<Rightarrow> nat \<Rightarrow> click \<Rightarrow> (string \<Rightarrow> string \<Rightarrow> string option) \<Rightarrow> (string \<Rightarrow> grant list)
    \<Rightarrow> int \<Rightarrow> int \<Rightarrow> gate_event list" where
  "click_script k r c locks grants t t' =
     [Click k r c, Authorise k (Some (locks, grants)), RunDb k t, Reply k, RunDb k t', Reply k, Return k True]"

lemma click_script_prefix:
  assumes "gs_pending s r (ck_id c) = Some p" "gs_tasks s k = None" "ck_user c \<noteq> []" "mayDecide locks grants (pr_payload p) (ck_user c)"
  shows "\<exists>s1. gate_step W (gate_step W s (Click k r c)) (Authorise k (Some (locks, grants))) = s1
     \<and> gs_tasks s1 k = Some (r, Sent (AskResolve (ck_id c) (click_status (ck_decision c)) (ck_user c) (Some (click_patch (ck_decision c))))
          (AfterSettle c (Some p)))
     \<and> gs_rows s1 = gs_rows s \<and> gs_promise s1 = gs_promise s \<and> gs_pending s1 = gs_pending s"
  using assms by (simp add: on_click_def go_def after_auth_def Let_def)



lemma early_abort_run:
  "gs_promise (gate_exec_events demo_world
      (demo_prompt @ [Abort 9 0 ''t1'', Return 1 True, Return 1 True] @ local_click Allow)) 0 ''t1'' = Some (PAllow (JStr ''ls'') None)"
  unfolding local_click_def by code_simp

lemma late_abort_run:
  "gs_promise (gate_exec_events demo_world
      (demo_prompt @ [Return 1 True, Abort 9 0 ''t1'', Return 1 True] @ local_click Allow)) 0 ''t1'' = Some (PDeny ''aborted'')"
  unfolding local_click_def by code_simp

text \<open>An abort that comes while the row's insert or the subscription is awaited is missed: the listener
  is registered after them and the signal is not looked at, so the card of a turn that is gone is posted
  and a later click still delivers its allow.\<close>

theorem abort_missed_before_listening:
  "gs_promise (gate_exec_events demo_world
      (demo_prompt @ [Abort 9 0 ''t1'', Return 1 True, Return 1 True] @ local_click Allow)) 0 ''t1'' = Some (PAllow (JStr ''ls'') None)
   \<and> gs_promise (gate_exec_events demo_world
      (demo_prompt @ [Return 1 True, Abort 9 0 ''t1'', Return 1 True] @ local_click Allow)) 0 ''t1'' = Some (PDeny ''aborted'')"
  by (rule conjI [OF early_abort_run late_abort_run])

end
