(* ===== verification/MicPacer.thy ===== *)
theory MicPacer
  imports Prelude Complex_Main
begin

text \<open>
  The microphone pacer (\<^verbatim>\<open>src/voice/pacer.ts\<close>): audio queued in chunks, a credit of samples that
  accrues with time, and a backlog bounded by dropping the oldest audio. Time and credit are exact
  rationals; the timer's delay is kept, its firing is an event.
\<close>

section \<open>State\<close>

record pacer_opts =
  po_rate :: rat
  po_burstMs :: rat
  po_maxBacklogMs :: rat
  po_catchUpRate :: rat
  po_catchUpAfterMs :: rat
  po_tickMs :: rat

definition default_opts :: "rat \<Rightarrow> pacer_opts" where
  "default_opts rate = \<lparr>po_rate = rate, po_burstMs = 100, po_maxBacklogMs = 1000, po_catchUpRate = 11/10,
     po_catchUpAfterMs = 200, po_tickMs = 20\<rparr>"

record 'a pacer =
  pa_queue :: "'a list list"
  pa_queued :: nat
  pa_credit :: rat
  pa_creditAt :: rat
  pa_timer :: "int option"
  pa_closed :: bool
  pa_dropped :: nat
  pa_drops :: nat

text \<open>\<open>Math.round((rate * ms) / 1000)\<close>.\<close>

definition samples :: "pacer_opts \<Rightarrow> rat \<Rightarrow> int" where
  "samples opts ms = \<lfloor>po_rate opts * ms / 1000 + 1/2\<rfloor>"

definition new_pacer :: "pacer_opts \<Rightarrow> rat \<Rightarrow> 'a pacer" where
  "new_pacer opts now = \<lparr>pa_queue = [], pa_queued = 0, pa_credit = of_int (samples opts (po_burstMs opts)),
     pa_creditAt = now, pa_timer = None, pa_closed = False, pa_dropped = 0, pa_drops = 0\<rparr>"

section \<open>Operations\<close>

definition stopTimer :: "'a pacer \<Rightarrow> 'a pacer" where
  "stopTimer p = p\<lparr>pa_timer := None\<rparr>"

definition refill :: "pacer_opts \<Rightarrow> rat \<Rightarrow> 'a pacer \<Rightarrow> 'a pacer" where
  "refill opts now p =
     (let cap = of_int (samples opts (po_burstMs opts));
          speed = (if int (pa_queued p) > samples opts (po_catchUpAfterMs opts) then po_catchUpRate opts else 1)
      in p\<lparr>pa_credit := min cap (pa_credit p + (now - pa_creditAt p) * po_rate opts * speed / 1000),
           pa_creditAt := now\<rparr>)"

text \<open>The sending loop: what is left of the queue, of its count and of the credit, and what was sent.\<close>

lemma floor_pos: "1 \<le> (c :: rat) \<Longrightarrow> 0 < nat \<lfloor>c\<rfloor>"
  by simp

function send_loop :: "'a list list \<Rightarrow> nat \<Rightarrow> rat \<Rightarrow> 'a list list \<Rightarrow> 'a list list \<times> nat \<times> rat \<times> 'a list list" where
  "send_loop [] queued credit sent = ([], queued, credit, sent)"
| "send_loop (h # q) queued credit sent =
     (if \<not> (queued > 0 \<and> credit \<ge> 1) then (h # q, queued, credit, sent)
      else let n = min (length h) (nat \<lfloor>credit\<rfloor>) in
        if n = length h then send_loop q (queued - n) (credit - of_nat n) (sent @ [h])
        else send_loop (drop n h # q) (queued - n) (credit - of_nat n) (sent @ [take n h]))"
  by pat_completeness auto
termination
proof (relation "measure (\<lambda>(q, _, _, _). length (concat q) + length q)", goal_cases)
  case (3 h q queued credit sent x)
  then have "0 < nat \<lfloor>credit\<rfloor>" "nat \<lfloor>credit\<rfloor> < length h" by (auto simp: min_def split: if_splits)
  moreover have "x = nat \<lfloor>credit\<rfloor>" using 3 calculation(2) by simp
  moreover have "length (concat (drop x h # q)) = length h + length (concat q) - x \<and> length (concat (h # q)) = length h + length (concat q)" if "x \<le> length h" using that by simp
  ultimately show ?case by (simp only: in_measure split_conv list.size)
qed auto

text \<open>The dropping loop: \<open>excess\<close> samples off the front.\<close>

fun drop_loop :: "'a list list \<Rightarrow> nat \<Rightarrow> 'a list list" where
  "drop_loop q 0 = q"
| "drop_loop [] excess = []"
| "drop_loop (h # q) excess =
     (if length h \<le> excess then drop_loop q (excess - length h) else drop excess h # q)"

definition bound_backlog :: "pacer_opts \<Rightarrow> 'a pacer \<Rightarrow> 'a pacer" where
  "bound_backlog opts p =
     (let mx = samples opts (po_maxBacklogMs opts) in
      if int (pa_queued p) > mx then
        (let excess = nat (int (pa_queued p) - mx) in
         p\<lparr>pa_drops := pa_drops p + 1, pa_dropped := pa_dropped p + excess,
           pa_queued := pa_queued p - excess, pa_queue := drop_loop (pa_queue p) excess\<rparr>)
      else p)"

definition arm :: "pacer_opts \<Rightarrow> 'a pacer \<Rightarrow> 'a pacer" where
  "arm opts p =
     (if pa_timer p \<noteq> None then p
      else let need = of_int (min (samples opts (po_tickMs opts)) (int (pa_queued p))) - pa_credit p
           in p\<lparr>pa_timer := Some (max 1 \<lceil>need * 1000 / po_rate opts\<rceil>)\<rparr>)"

definition pump :: "pacer_opts \<Rightarrow> rat \<Rightarrow> 'a pacer \<Rightarrow> 'a pacer \<times> 'a list list" where
  "pump opts now p =
     (if pa_closed p then (p, [])
      else let p1 = refill opts now p in
        case send_loop (pa_queue p1) (pa_queued p1) (pa_credit p1) [] of (q, n, c, sent) \<Rightarrow>
          let p2 = bound_backlog opts (p1\<lparr>pa_queue := q, pa_queued := n, pa_credit := c\<rparr>)
          in (if pa_queued p2 > 0 then arm opts p2 else stopTimer p2, sent))"

definition push :: "pacer_opts \<Rightarrow> rat \<Rightarrow> 'a list \<Rightarrow> 'a pacer \<Rightarrow> 'a pacer \<times> 'a list list" where
  "push opts now pcm p =
     (if pa_closed p \<or> pcm = [] then (p, [])
      else pump opts now (p\<lparr>pa_queue := pa_queue p @ [pcm], pa_queued := pa_queued p + length pcm\<rparr>))"

definition takeStats :: "pacer_opts \<Rightarrow> 'a pacer \<Rightarrow> (int \<times> nat) \<times> 'a pacer" where
  "takeStats opts p =
     ((\<lfloor>of_nat (pa_dropped p) * 1000 / po_rate opts + 1/2\<rfloor>, pa_drops p), p\<lparr>pa_dropped := 0, pa_drops := 0\<rparr>)"

definition clear :: "'a pacer \<Rightarrow> 'a pacer" where
  "clear p = stopTimer (p\<lparr>pa_queue := [], pa_queued := 0\<rparr>)"

definition close :: "'a pacer \<Rightarrow> 'a pacer" where
  "close p = clear (p\<lparr>pa_closed := True\<rparr>)"

text \<open>The timer fires.\<close>

definition fire :: "pacer_opts \<Rightarrow> rat \<Rightarrow> 'a pacer \<Rightarrow> 'a pacer \<times> 'a list list" where
  "fire opts now p = pump opts now (p\<lparr>pa_timer := None\<rparr>)"

datatype 'a pacer_event = Push "'a list" | Fire | Clear | Close | TakeStats

fun pacer_step :: "pacer_opts \<Rightarrow> 'a pacer \<Rightarrow> rat \<times> 'a pacer_event \<Rightarrow> 'a pacer \<times> 'a list list" where
  "pacer_step opts p (now, Push pcm) = push opts now pcm p"
| "pacer_step opts p (now, Fire) = fire opts now p"
| "pacer_step opts p (now, Clear) = (clear p, [])"
| "pacer_step opts p (now, Close) = (close p, [])"
| "pacer_step opts p (now, TakeStats) = (snd (takeStats opts p), [])"

fun pacer_run :: "pacer_opts \<Rightarrow> 'a pacer \<Rightarrow> (rat \<times> 'a pacer_event) list \<Rightarrow> 'a pacer \<times> 'a list list" where
  "pacer_run opts p [] = (p, [])"
| "pacer_run opts p (e # es) =
     (case pacer_step opts p e of (p', s) \<Rightarrow> case pacer_run opts p' es of (p'', s') \<Rightarrow> (p'', s @ s'))"

section \<open>Facts\<close>

text \<open>What one pass of the loop leaves and sends.\<close>

definition sends :: "'a list list \<Rightarrow> rat \<Rightarrow> 'a list list \<Rightarrow> 'a list list \<times> nat \<times> rat \<times> 'a list list \<Rightarrow> bool" where
  "sends q c s res \<longleftrightarrow> (case res of (q', n', c', s') \<Rightarrow> n' = length (concat q') \<and> 0 \<le> c'
     \<and> (\<exists>t. s' = s @ t \<and> concat q = concat t @ concat q' \<and> c = c' + of_nat (length (concat t))))"

lemma sends_step:
  assumes "sends q' (c - of_nat (length x)) (s @ [x]) res" "concat q = x @ concat q'"
  shows "sends q c s res"
proof -
  obtain q2 n2 c2 s2 where r: "res = (q2, n2, c2, s2)" by (metis prod_cases4)
  with assms(1) obtain t where t: "n2 = length (concat q2)" "0 \<le> c2" "s2 = (s @ [x]) @ t" "concat q' = concat t @ concat q2"
    "c - of_nat (length x) = c2 + of_nat (length (concat t))" by (auto simp: sends_def)
  then have "s2 = s @ (x # t) \<and> concat q = concat (x # t) @ concat q2 \<and> c = c2 + of_nat (length (concat (x # t)))"
    using assms(2) by (simp add: algebra_simps)
  with t r show ?thesis unfolding sends_def by blast
qed

lemma send_loop_sends: "n = length (concat q) \<Longrightarrow> 0 \<le> c \<Longrightarrow> sends q c s (send_loop q n c s)"
proof (induction q n c s rule: send_loop.induct)
  case (2 h q n c s)
  show ?case
  proof (cases "n > 0 \<and> c \<ge> 1")
    case False
    with "2.prems" show ?thesis by (auto simp: sends_def)
  next
    case True
    let ?n = "min (length h) (nat \<lfloor>c\<rfloor>)"
    have "(of_nat ?n :: rat) \<le> of_nat (nat \<lfloor>c\<rfloor>)" by (intro of_nat_mono) simp
    also have "\<dots> \<le> c" using "2.prems"(2) by simp
    finally have nonneg: "0 \<le> c - of_nat ?n" by simp
    show ?thesis
    proof (cases "?n = length h")
      case True': True
      have "sends q (c - of_nat ?n) (s @ [h]) (send_loop q (n - ?n) (c - of_nat ?n) (s @ [h]))"
        using "2.IH"(1) [OF _ refl True'] True nonneg "2.prems"(1) True' by simp
      then have "sends (h # q) c s (send_loop q (n - ?n) (c - of_nat ?n) (s @ [h]))"
        unfolding True' by (rule sends_step) simp
      moreover have "send_loop (h # q) n c s = send_loop q (n - ?n) (c - of_nat ?n) (s @ [h])"
        unfolding send_loop.simps(2) [of h q n c s] Let_def using True True' by simp
      ultimately show ?thesis by simp
    next
      case False': False
      have len: "length (take ?n h) = ?n" by simp
      have "sends (drop ?n h # q) (c - of_nat ?n) (s @ [take ?n h]) (send_loop (drop ?n h # q) (n - ?n) (c - of_nat ?n) (s @ [take ?n h]))"
        using "2.IH"(2) [OF _ refl False'] True nonneg "2.prems"(1) by simp
      then have "sends (h # q) c s (send_loop (drop ?n h # q) (n - ?n) (c - of_nat ?n) (s @ [take ?n h]))"
        using sends_step [of "drop ?n h # q" c "take ?n h"] len by (metis append.assoc append_take_drop_id concat.simps(2))
      moreover have "send_loop (h # q) n c s = send_loop (drop ?n h # q) (n - ?n) (c - of_nat ?n) (s @ [take ?n h])"
        unfolding send_loop.simps(2) [of h q n c s] Let_def using True False' by (simp only: if_False not_True_eq_False simp_thms)
      ultimately show ?thesis by (simp only:)
    qed
  qed
qed (simp add: sends_def)

lemma send_loop_spec:
  assumes "send_loop q n c s = (q', n', c', s')" "n = length (concat q)" "0 \<le> c"
  shows "n' = length (concat q') \<and> 0 \<le> c' \<and> (\<exists>t. s' = s @ t \<and> concat q = concat t @ concat q'
       \<and> c = c' + of_nat (length (concat t)))"
  using send_loop_sends [OF assms(2,3), of s] assms(1) by (simp add: sends_def)

lemma concat_drop_loop: "concat (drop_loop q k) = drop k (concat q)"
  by (induction q k rule: drop_loop.induct) auto

text \<open>What every state keeps: the count is the queue's, the credit is between 0 and the burst.\<close>

definition pacer_inv :: "pacer_opts \<Rightarrow> 'a pacer \<Rightarrow> bool" where
  "pacer_inv opts p \<longleftrightarrow> pa_queued p = length (concat (pa_queue p)) \<and> 0 \<le> pa_credit p
     \<and> pa_credit p \<le> of_int (samples opts (po_burstMs opts))"

definition sane_opts :: "pacer_opts \<Rightarrow> bool" where
  "sane_opts opts \<longleftrightarrow> 0 < po_rate opts \<and> 0 \<le> po_burstMs opts \<and> 0 \<le> po_maxBacklogMs opts \<and> 1 \<le> po_catchUpRate opts"

lemma samples_nonneg: "sane_opts opts \<Longrightarrow> 0 \<le> ms \<Longrightarrow> 0 \<le> samples opts ms"
  by (simp add: samples_def sane_opts_def)

lemma refill_fields [simp]:
  "pa_queue (refill opts now p) = pa_queue p" "pa_queued (refill opts now p) = pa_queued p"
  "pa_creditAt (refill opts now p) = now" "pa_closed (refill opts now p) = pa_closed p"
  by (simp_all add: refill_def Let_def)

lemma refill_credit:
  assumes "sane_opts opts" "pacer_inv opts p" "pa_creditAt p \<le> now"
  shows "0 \<le> pa_credit (refill opts now p)"
    and "pa_credit (refill opts now p) \<le> of_int (samples opts (po_burstMs opts))"
    and "pa_credit (refill opts now p) \<le> pa_credit p + (now - pa_creditAt p) * po_rate opts * po_catchUpRate opts / 1000"
proof -
  let ?d = "(now - pa_creditAt p) * po_rate opts"
  have d: "0 \<le> ?d" using assms(1,3) by (simp add: sane_opts_def)
  then have "?d * 1 \<le> ?d * po_catchUpRate opts"
    using assms(1) by (intro mult_left_mono) (auto simp: sane_opts_def)
  then show "pa_credit (refill opts now p) \<le> pa_credit p + ?d * po_catchUpRate opts / 1000"
    by (auto simp: refill_def Let_def min_le_iff_disj)
  have "0 \<le> ?d * po_catchUpRate opts" using d assms(1) by (simp add: sane_opts_def)
  then show "0 \<le> pa_credit (refill opts now p)"
    using assms(2) d samples_nonneg [OF assms(1)] assms(1)
    by (auto simp: refill_def Let_def pacer_inv_def sane_opts_def)
  show "pa_credit (refill opts now p) \<le> of_int (samples opts (po_burstMs opts))"
    by (simp add: refill_def Let_def)
qed

lemma bound_backlog_spec:
  assumes "sane_opts opts" "pa_queued p = length (concat (pa_queue p))"
  shows "pa_queued (bound_backlog opts p) = length (concat (pa_queue (bound_backlog opts p)))"
    and "int (pa_queued (bound_backlog opts p)) \<le> samples opts (po_maxBacklogMs opts)"
    and "\<exists>k. concat (pa_queue (bound_backlog opts p)) = drop k (concat (pa_queue p))
           \<and> pa_dropped (bound_backlog opts p) = pa_dropped p + k \<and> k \<le> length (concat (pa_queue p))"
    and "pa_credit (bound_backlog opts p) = pa_credit p" "pa_creditAt (bound_backlog opts p) = pa_creditAt p"
      "pa_closed (bound_backlog opts p) = pa_closed p"
proof -
  have "0 \<le> samples opts (po_maxBacklogMs opts)"
    using samples_nonneg [OF assms(1)] assms(1) by (simp add: sane_opts_def)
  then show "pa_queued (bound_backlog opts p) = length (concat (pa_queue (bound_backlog opts p)))"
    and "int (pa_queued (bound_backlog opts p)) \<le> samples opts (po_maxBacklogMs opts)"
    and "\<exists>k. concat (pa_queue (bound_backlog opts p)) = drop k (concat (pa_queue p))
           \<and> pa_dropped (bound_backlog opts p) = pa_dropped p + k \<and> k \<le> length (concat (pa_queue p))"
    using assms(2) by (auto simp: bound_backlog_def Let_def concat_drop_loop intro: exI [of _ 0])
qed (simp_all add: bound_backlog_def Let_def)

text \<open>One pump: everything sent and still queued was queued, in order, the sent samples were paid for,
  and the backlog is within its bound.\<close>

lemma pump_spec:
  assumes "sane_opts opts" "pacer_inv opts p" "pa_creditAt p \<le> now" "pump opts now p = (p', sent)"
  shows "pacer_inv opts p'"
    and "\<exists>k rest. concat (pa_queue p) = concat sent @ rest \<and> concat (pa_queue p') = drop k rest
           \<and> pa_dropped p' = pa_dropped p + k \<and> k \<le> length rest"
    and "of_nat (length (concat sent)) + pa_credit p' \<le>
           pa_credit p + (now - pa_creditAt p) * po_rate opts * po_catchUpRate opts / 1000"
    and "pa_creditAt p' \<le> now \<and> pa_creditAt p \<le> pa_creditAt p'"
    and "sent = [] \<or> pa_creditAt p' = now"
    and "\<not> pa_closed p \<Longrightarrow> int (pa_queued p') \<le> samples opts (po_maxBacklogMs opts)"
    and "of_nat (length (concat sent)) + pa_credit p' \<le> of_int (samples opts (po_burstMs opts))"
    and "pa_closed p' = pa_closed p" "pa_closed p \<Longrightarrow> p' = p \<and> sent = []"
proof -
  have rate: "0 \<le> (now - pa_creditAt p) * po_rate opts * po_catchUpRate opts / 1000"
    using assms(1,3) by (auto simp: sane_opts_def)
  have all: "pacer_inv opts p' \<and> (\<exists>k rest. concat (pa_queue p) = concat sent @ rest \<and> concat (pa_queue p') = drop k rest
           \<and> pa_dropped p' = pa_dropped p + k \<and> k \<le> length rest)
    \<and> of_nat (length (concat sent)) + pa_credit p' \<le>
           pa_credit p + (now - pa_creditAt p) * po_rate opts * po_catchUpRate opts / 1000
    \<and> (pa_creditAt p' \<le> now \<and> pa_creditAt p \<le> pa_creditAt p') \<and> (sent = [] \<or> pa_creditAt p' = now)
    \<and> (\<not> pa_closed p \<longrightarrow> int (pa_queued p') \<le> samples opts (po_maxBacklogMs opts))
    \<and> of_nat (length (concat sent)) + pa_credit p' \<le> of_int (samples opts (po_burstMs opts))
    \<and> pa_closed p' = pa_closed p \<and> (pa_closed p \<longrightarrow> p' = p \<and> sent = [])"
  proof (cases "pa_closed p")
    case True
    with assms rate show ?thesis by (auto simp: pump_def pacer_inv_def intro: exI [of _ 0])
  next
    case False
    let ?p1 = "refill opts now p"
    obtain q n c s where loop: "send_loop (pa_queue ?p1) (pa_queued ?p1) (pa_credit ?p1) [] = (q, n, c, s)"
      by (metis prod.exhaust)
    note rf = refill_credit [OF assms(1-3)]
    have n1: "pa_queued ?p1 = length (concat (pa_queue ?p1))" using assms(2) by (simp add: pacer_inv_def)
    obtain sp where sp: "n = length (concat q)" "0 \<le> c" "concat (pa_queue p) = concat s @ concat q"
      "pa_credit ?p1 = c + of_nat (length (concat s))"
      using send_loop_spec [OF loop n1 rf(1)] by auto
    let ?p2 = "?p1\<lparr>pa_queue := q, pa_queued := n, pa_credit := c\<rparr>"
    have "pa_queued ?p2 = length (concat (pa_queue ?p2))" using sp(1) by simp
    note bb = bound_backlog_spec [OF assms(1) this]
    have p': "p' = (if pa_queued (bound_backlog opts ?p2) > 0 then arm opts (bound_backlog opts ?p2)
        else stopTimer (bound_backlog opts ?p2))" "sent = s"
      using assms(4) False loop by (auto simp: pump_def Let_def)
    have f: "pa_queue p' = pa_queue (bound_backlog opts ?p2)" "pa_queued p' = pa_queued (bound_backlog opts ?p2)"
      "pa_credit p' = c" "pa_creditAt p' = now" "pa_dropped p' = pa_dropped (bound_backlog opts ?p2)"
      "pa_closed p' = pa_closed p"
      using bb(4-6) by (simp_all add: p'(1) arm_def stopTimer_def Let_def)
    have dp: "pa_dropped ?p2 = pa_dropped p" by (simp add: refill_def Let_def)
    show ?thesis
      using bb(1,2,3) sp rf(2,3) f assms(3) p'(2) dp False by (auto simp: pacer_inv_def)
  qed
  then show "pacer_inv opts p'" "\<exists>k rest. concat (pa_queue p) = concat sent @ rest \<and> concat (pa_queue p') = drop k rest
           \<and> pa_dropped p' = pa_dropped p + k \<and> k \<le> length rest"
    "of_nat (length (concat sent)) + pa_credit p' \<le>
           pa_credit p + (now - pa_creditAt p) * po_rate opts * po_catchUpRate opts / 1000"
    "pa_creditAt p' \<le> now \<and> pa_creditAt p \<le> pa_creditAt p'"
    "sent = [] \<or> pa_creditAt p' = now"
    "\<not> pa_closed p \<Longrightarrow> int (pa_queued p') \<le> samples opts (po_maxBacklogMs opts)"
    "of_nat (length (concat sent)) + pa_credit p' \<le> of_int (samples opts (po_burstMs opts))"
    "pa_closed p' = pa_closed p" "pa_closed p \<Longrightarrow> p' = p \<and> sent = []" by simp_all
qed

section \<open>Runs\<close>

text \<open>The most that may go out at \<open>t\<close> if nothing goes out before.\<close>

definition top_rate :: "pacer_opts \<Rightarrow> rat" where
  "top_rate opts = po_rate opts * po_catchUpRate opts / 1000"

definition allowance :: "pacer_opts \<Rightarrow> 'a pacer \<Rightarrow> rat \<Rightarrow> rat" where
  "allowance opts p t =
     min (of_int (samples opts (po_burstMs opts))) (pa_credit p + (t - pa_creditAt p) * top_rate opts)"

fun pushed :: "rat \<times> 'a pacer_event \<Rightarrow> 'a list" where
  "pushed (t, Push pcm) = pcm"
| "pushed _ = []"

definition backlog_ok :: "pacer_opts \<Rightarrow> 'a pacer \<Rightarrow> bool" where
  "backlog_ok opts p \<longleftrightarrow> int (pa_queued p) \<le> samples opts (po_maxBacklogMs opts)"

lemma subseq_drop: "subseq (drop k xs) xs"
  by (metis append_take_drop_id list_emb_append2 subseq_order.order_refl)

lemma pump_step:
  assumes "sane_opts opts" "pacer_inv opts p" "pa_creditAt p \<le> now" "pump opts now p = (p', sent)"
  shows "of_nat (length (concat sent)) + allowance opts p' now \<le> allowance opts p now"
    and "subseq (concat sent @ concat (pa_queue p')) (concat (pa_queue p))"
    and "length (concat sent) + pa_queued p' + pa_dropped p' = pa_queued p + pa_dropped p"
proof -
  note sp = pump_spec [OF assms]
  show "of_nat (length (concat sent)) + allowance opts p' now \<le> allowance opts p now"
  proof (cases "pa_closed p")
    case True
    with sp(9) show ?thesis by auto
  next
    case False
    have "allowance opts p' now \<le> pa_credit p' + (now - pa_creditAt p') * top_rate opts" by (simp add: allowance_def)
    moreover have "pa_creditAt (arm opts x) = pa_creditAt x" "pa_creditAt (stopTimer x) = pa_creditAt x"
      "pa_creditAt (bound_backlog opts x) = pa_creditAt x" "pa_creditAt (refill opts now p) = now" for x :: "'a pacer"
      by (simp_all add: arm_def stopTimer_def bound_backlog_def refill_def Let_def split: prod.splits)
    then have "pa_creditAt p' = now"
      using assms(4) False by (auto simp: pump_def Let_def split: prod.splits if_splits)
    ultimately have "allowance opts p' now \<le> pa_credit p'" by simp
    moreover have "of_nat (length (concat sent)) + pa_credit p' \<le> allowance opts p now"
      using sp(3,7) by (simp add: allowance_def top_rate_def)
    ultimately show ?thesis by linarith
  qed
  obtain k rest where r: "concat (pa_queue p) = concat sent @ rest" "concat (pa_queue p') = drop k rest"
    "pa_dropped p' = pa_dropped p + k" "k \<le> length rest" using sp(2) by blast
  show "subseq (concat sent @ concat (pa_queue p')) (concat (pa_queue p))"
    unfolding r(1,2) by (rule list_emb_append_mono) (simp_all add: subseq_drop)
  have "pa_queued p = length (concat (pa_queue p))" "pa_queued p' = length (concat (pa_queue p'))"
    using sp(1) assms(2) by (simp_all add: pacer_inv_def)
  with r show "length (concat sent) + pa_queued p' + pa_dropped p' = pa_queued p + pa_dropped p" by simp
qed

definition paced :: "'a pacer_event \<Rightarrow> bool" where
  "paced e \<longleftrightarrow> e = Fire \<or> (\<exists>pcm. e = Push pcm)"

lemma pacer_step_spec:
  assumes "sane_opts opts" "pacer_inv opts p" "backlog_ok opts p" "pa_creditAt p \<le> now"
    and "pacer_step opts p (now, e) = (p', sent)"
  shows "pacer_inv opts p' \<and> backlog_ok opts p' \<and> pa_creditAt p' \<le> now
    \<and> of_nat (length (concat sent)) + allowance opts p' now \<le> allowance opts p now
    \<and> subseq (concat sent @ concat (pa_queue p')) (concat (pa_queue p) @ pushed (now, e))
    \<and> (paced e \<and> \<not> pa_closed p \<longrightarrow> \<not> pa_closed p' \<and>
         length (concat sent) + pa_queued p' + pa_dropped p' = pa_queued p + pa_dropped p + length (pushed (now, e)))"
proof -
  have pumped: ?thesis if q: "pacer_inv opts q" "pa_creditAt q = pa_creditAt p" "pa_credit q = pa_credit p"
      "concat (pa_queue q) = concat (pa_queue p) @ pushed (now, e)" "pa_closed q = pa_closed p" "pa_dropped q = pa_dropped p"
      "pump opts now q = (p', sent)" "pa_closed p \<Longrightarrow> backlog_ok opts q" for q
  proof -
    have le: "pa_creditAt q \<le> now" using q(2) assms(4) by simp
    note sp = pump_spec [OF assms(1) q(1) le q(7)] and st = pump_step [OF assms(1) q(1) le q(7)]
    have "allowance opts q now = allowance opts p now" using q(2,3) by (simp add: allowance_def)
    moreover have "backlog_ok opts p'" using sp(6,9) q(5,8) by (cases "pa_closed q") (auto simp: backlog_ok_def)
    moreover have "pa_queued q = length (concat (pa_queue p)) + length (pushed (now, e))" "pa_queued p = length (concat (pa_queue p))"
      using q(1,4) assms(2) by (simp_all add: pacer_inv_def)
    ultimately show ?thesis using sp(1,4,8) st q(4-6) by auto
  qed
  have refl: "sane_opts opts \<Longrightarrow> of_nat (length (concat ([] :: 'a list list))) + allowance opts q now \<le> allowance opts p now"
    if "pa_credit q = pa_credit p" "pa_creditAt q = pa_creditAt p" for q :: "'a pacer"
    using that by (simp add: allowance_def)
  have nil: "0 \<le> samples opts (po_maxBacklogMs opts)" using samples_nonneg [OF assms(1)] assms(1) by (simp add: sane_opts_def)
  show ?thesis
  proof (cases e)
    case (Push pcm)
    show ?thesis
    proof (cases "pa_closed p \<or> pcm = []")
      case True
      with Push assms show ?thesis by (auto simp: push_def)
    next
      case False
      with Push assms(2,5) show ?thesis
        by (intro pumped [of "p\<lparr>pa_queue := pa_queue p @ [pcm], pa_queued := pa_queued p + length pcm\<rparr>"])
          (auto simp: push_def pacer_inv_def)
    qed
  next
    case Fire
    with assms(2,3,5) show ?thesis
      by (intro pumped [of "p\<lparr>pa_timer := None\<rparr>"]) (auto simp: fire_def pacer_inv_def backlog_ok_def)
  next
    case Clear
    with assms nil show ?thesis
      by (auto simp: clear_def stopTimer_def pacer_inv_def backlog_ok_def allowance_def paced_def)
  next
    case Close
    with assms nil show ?thesis
      by (auto simp: close_def clear_def stopTimer_def pacer_inv_def backlog_ok_def allowance_def paced_def)
  next
    case TakeStats
    with assms show ?thesis
      by (auto simp: takeStats_def pacer_inv_def backlog_ok_def allowance_def paced_def)
  qed
qed

text \<open>Events come in the order of a clock that does not go back.\<close>

fun timed :: "rat \<Rightarrow> (rat \<times> 'a pacer_event) list \<Rightarrow> bool" where
  "timed t [] = True"
| "timed t ((n, e) # es) = (t \<le> n \<and> timed n es)"

fun last_time :: "rat \<Rightarrow> (rat \<times> 'a pacer_event) list \<Rightarrow> rat" where
  "last_time t [] = t"
| "last_time t ((n, e) # es) = last_time n es"

lemma top_rate_nonneg: "sane_opts opts \<Longrightarrow> 0 \<le> top_rate opts"
  by (simp add: sane_opts_def top_rate_def)

lemma allowance_later:
  assumes "sane_opts opts" "t \<le> t'"
  shows "allowance opts p t' \<le> allowance opts p t + (t' - t) * top_rate opts"
proof -
  have "0 \<le> (t' - t) * top_rate opts" using assms top_rate_nonneg by simp
  moreover have "pa_credit p + (t' - pa_creditAt p) * top_rate opts
      = pa_credit p + (t - pa_creditAt p) * top_rate opts + (t' - t) * top_rate opts" by (simp add: algebra_simps)
  ultimately show ?thesis by (simp add: allowance_def min_def)
qed

lemma pacer_run_spec:
  assumes "sane_opts opts" "pacer_inv opts p" "backlog_ok opts p" "pa_creditAt p \<le> t" "timed t es"
    and "pacer_run opts p es = (p', s)"
  shows "pacer_inv opts p' \<and> backlog_ok opts p' \<and> pa_creditAt p' \<le> last_time t es
    \<and> of_nat (length (concat s)) + allowance opts p' (last_time t es) \<le> allowance opts p t + (last_time t es - t) * top_rate opts
    \<and> subseq (concat s @ concat (pa_queue p')) (concat (pa_queue p) @ concat (map pushed es))
    \<and> (list_all (\<lambda>x. paced (snd x)) es \<and> \<not> pa_closed p \<longrightarrow>
         length (concat s) + pa_queued p' + pa_dropped p' = pa_queued p + pa_dropped p + length (concat (map pushed es)))"
  using assms(2-6)
proof (induction es arbitrary: p t s)
  case (Cons x es)
  obtain n e where x: "x = (n, e)" by (cases x)
  obtain p1 s1 where step: "pacer_step opts p (n, e) = (p1, s1)" by (metis prod.exhaust)
  obtain s2 where run: "pacer_run opts p1 es = (p', s2)" "s = s1 @ s2"
    using Cons.prems(5) step by (auto simp: x split: prod.splits)
  have n: "t \<le> n" "timed n es" using Cons.prems(4) by (simp_all add: x)
  have "pa_creditAt p \<le> n" using Cons.prems(3) n(1) by simp
  note st = pacer_step_spec [OF assms(1) Cons.prems(1,2) this step]
  then have ih: "pacer_inv opts p' \<and> backlog_ok opts p' \<and> pa_creditAt p' \<le> last_time n es
    \<and> of_nat (length (concat s2)) + allowance opts p' (last_time n es) \<le> allowance opts p1 n + (last_time n es - n) * top_rate opts
    \<and> subseq (concat s2 @ concat (pa_queue p')) (concat (pa_queue p1) @ concat (map pushed es))
    \<and> (list_all (\<lambda>x. paced (snd x)) es \<and> \<not> pa_closed p1 \<longrightarrow>
         length (concat s2) + pa_queued p' + pa_dropped p' = pa_queued p1 + pa_dropped p1 + length (concat (map pushed es)))"
    using Cons.IH [of p1 n s2] n(2) run(1) by blast
  have rate: "of_nat (length (concat s)) + allowance opts p' (last_time n es) \<le> allowance opts p t + (last_time n es - t) * top_rate opts"
  proof -
    have "(last_time n es - n) * top_rate opts + (n - t) * top_rate opts = (last_time n es - t) * top_rate opts"
      by (simp add: algebra_simps)
    then show ?thesis using st ih allowance_later [OF assms(1) n(1), of p] by (simp add: run(2))
  qed
  have "subseq (concat s1 @ (concat s2 @ concat (pa_queue p'))) (concat s1 @ (concat (pa_queue p1) @ concat (map pushed es)))"
    using ih by (intro list_emb_append_mono [OF subseq_order.order_refl]) blast
  also have "concat s1 @ (concat (pa_queue p1) @ concat (map pushed es)) = (concat s1 @ concat (pa_queue p1)) @ concat (map pushed es)"
    by simp
  also have "subseq \<dots> ((concat (pa_queue p) @ pushed (n, e)) @ concat (map pushed es))"
    using st by (intro list_emb_append_mono [OF _ subseq_order.order_refl]) blast
  finally have sub: "subseq (concat s @ concat (pa_queue p')) (concat (pa_queue p) @ concat (map pushed (x # es)))"
    by (simp add: run(2) x)
  show ?case using st ih rate sub by (auto simp: run(2) x)
qed (simp add: allowance_def)

lemma new_pacer_ok:
  "sane_opts opts \<Longrightarrow> pacer_inv opts (new_pacer opts t) \<and> backlog_ok opts (new_pacer opts t)"
  using samples_nonneg [of opts "po_burstMs opts"] samples_nonneg [of opts "po_maxBacklogMs opts"]
  by (simp add: pacer_inv_def backlog_ok_def new_pacer_def sane_opts_def)

lemma pacer_run_append:
  "pacer_run opts p (es @ es') = (case pacer_run opts p es of (p1, s) \<Rightarrow> case pacer_run opts p1 es' of (p2, s') \<Rightarrow> (p2, s @ s'))"
  by (induction es arbitrary: p) (simp_all split: prod.split)

lemma timed_append: "timed t (es @ es') \<longleftrightarrow> timed t es \<and> timed (last_time t es) es'"
  by (induction t es rule: timed.induct) auto

text \<open>However bursty the meeting's audio is, in every window of time the provider gets at most the burst
  allowance and what accrues in the window at the catch-up rate, and the audio that waits is never more
  than the backlog bound.\<close>

theorem pacer_rate:
  assumes "sane_opts opts" "timed t0 (es @ window)"
    and "pacer_run opts (new_pacer opts t0) es = (p, sent0)" "pacer_run opts p window = (p', sent)"
  shows "of_nat (length (concat sent)) \<le> of_int (samples opts (po_burstMs opts))
           + (last_time (last_time t0 es) window - last_time t0 es) * (po_rate opts * po_catchUpRate opts / 1000)
       \<and> int (pa_queued p') \<le> samples opts (po_maxBacklogMs opts)"
proof -
  have t: "timed t0 es" "timed (last_time t0 es) window" using assms(2) by (simp_all add: timed_append)
  have "pa_creditAt (new_pacer opts t0 :: 'a pacer) \<le> t0" by (simp add: new_pacer_def)
  with new_pacer_ok [OF assms(1), of t0] pacer_run_spec [OF assms(1) _ _ _ t(1) assms(3)]
  have p: "pacer_inv opts p" "backlog_ok opts p" "pa_creditAt p \<le> last_time t0 es" by blast+
  note r = pacer_run_spec [OF assms(1) p t(2) assms(4)]
  have credit: "0 \<le> pa_credit p'" "pa_creditAt p' \<le> last_time (last_time t0 es) window" using r by (auto simp: pacer_inv_def)
  have "0 \<le> (last_time (last_time t0 es) window - pa_creditAt p') * top_rate opts"
    using credit(2) top_rate_nonneg [OF assms(1)] by simp
  with credit(1) have "0 \<le> allowance opts p' (last_time (last_time t0 es) window)"
    using samples_nonneg [OF assms(1), of "po_burstMs opts"] assms(1) by (simp add: allowance_def sane_opts_def)
  moreover have "allowance opts p (last_time t0 es) \<le> of_int (samples opts (po_burstMs opts))" by (simp add: allowance_def)
  ultimately show ?thesis using r by (simp add: backlog_ok_def top_rate_def)
qed

definition demo_audio :: "(rat \<times> nat pacer_event) list" where
  "demo_audio = [(0, Push [1..<33]), (20, Fire), (20, Push [33..<35])]"

theorem pacer_rate_witness:
  "case pacer_run (default_opts 100) (new_pacer (default_opts 100) 0) demo_audio of (p, sent) \<Rightarrow>
     length (concat sent) = 12 \<and> pa_queued p = 22 \<and> (of_nat (length (concat sent)) :: rat) \<le> 10 + 20 * (100 * (11 / 10) / 1000)"
proof -
  obtain p sent where run: "pacer_run (default_opts 100) (new_pacer (default_opts 100) 0) demo_audio = (p, sent)" by (metis prod.exhaust)
  have "sane_opts (default_opts 100)" by (simp add: sane_opts_def default_opts_def)
  moreover have "timed 0 ([] @ demo_audio)" by (simp add: demo_audio_def)
  ultimately have "of_nat (length (concat sent)) \<le> of_int (samples (default_opts 100) (po_burstMs (default_opts 100)))
      + (last_time (last_time 0 ([] :: (rat \<times> nat pacer_event) list)) demo_audio - last_time 0 ([] :: (rat \<times> nat pacer_event) list))
        * (po_rate (default_opts 100) * po_catchUpRate (default_opts 100) / 1000)"
    using pacer_rate [of "default_opts 100" 0 "[]" demo_audio "new_pacer (default_opts 100) 0" "[]" p sent] run by simp
  moreover have "map_prod pa_queued (\<lambda>s. length (concat s)) (pacer_run (default_opts 100) (new_pacer (default_opts 100) 0) demo_audio) = (22, 12)"
    by code_simp
  ultimately show ?thesis using run by (simp add: default_opts_def samples_def demo_audio_def)
qed

text \<open>The pacer loses, invents, repeats and reorders nothing it does not report: what went out followed by
  what waits is a subsequence of the audio pushed, and while it is open and nothing is cleared every
  pushed sample was sent, waits or is counted as dropped.\<close>

theorem pacer_fifo:
  assumes "sane_opts opts" "timed t0 es" "pacer_run opts (new_pacer opts t0) es = (p, sent)"
  shows "subseq (concat sent @ concat (pa_queue p)) (concat (map pushed es))
     \<and> (list_all (\<lambda>x. paced (snd x)) es \<longrightarrow>
          length (concat sent) + pa_queued p + pa_dropped p = length (concat (map pushed es)))"
proof -
  have "pa_creditAt (new_pacer opts t0 :: 'a pacer) \<le> t0" by (simp add: new_pacer_def)
  with new_pacer_ok [OF assms(1), of t0] pacer_run_spec [OF assms(1) _ _ _ assms(2,3)] show ?thesis
    by (auto simp: new_pacer_def)
qed

theorem pacer_fifo_witness:
  "case pacer_run (default_opts 100) (new_pacer (default_opts 100) 0) demo_audio of (p, sent) \<Rightarrow>
     length (concat sent) + pa_queued p + pa_dropped p = 34"
proof -
  obtain p sent where run: "pacer_run (default_opts 100) (new_pacer (default_opts 100) 0) demo_audio = (p, sent)" by (metis prod.exhaust)
  have "sane_opts (default_opts 100)" by (simp add: sane_opts_def default_opts_def)
  moreover have "timed 0 demo_audio" by (simp add: demo_audio_def)
  moreover have "list_all (\<lambda>x. paced (snd x)) demo_audio" by (simp add: demo_audio_def paced_def)
  moreover have "length (concat (map pushed demo_audio)) = 34" by (simp add: demo_audio_def)
  ultimately show ?thesis using pacer_fifo [of "default_opts 100" 0 demo_audio p sent] run by simp
qed

end
