(* ===== verification/RedactTree.thy ===== *)
theory RedactTree
  imports Prelude
begin

text \<open>
  The masking of a value before it is shown or recorded (\<^verbatim>\<open>src/redact/index.ts\<close>, \<open>redactTree\<close>): a
  walk over objects that may be shared and cyclic, so over a heap. The patterns \<open>redactSecrets\<close>
  applies to single strings and the URL parser are parameters.
\<close>

section \<open>Values\<close>

datatype 'a js_value = VStr string | VScalar 'a | VRef nat

datatype 'a js_object = OArr "'a js_value list" | OObj "(string \<times> 'a js_value) list"

type_synonym 'a js_heap = "nat \<Rightarrow> 'a js_object"

text \<open>A copy. \<open>ROrigin o\<close> is the string \<open>${o}/...\<close> of a capability URL (its dots are one character
  outside Latin-1); \<open>RKept a\<close> is the object of the input itself, put into the copy.\<close>

datatype 'a rtree =
    RStr string
  | RScalar 'a
  | ROrigin string
  | RKept nat
  | RArr "'a rtree list"
  | RObj "(string \<times> 'a rtree) list"

datatype too_deep = KeepDeep | TruncateDeep

record tree_opts =
  to_strings :: "(string \<Rightarrow> string) option"
  to_tooDeep :: too_deep
  to_maxNodes :: "nat option"

section \<open>Keys\<close>

definition SECRET_KEY :: "string \<Rightarrow> bool" where
  "SECRET_KEY k \<longleftrightarrow> list_ex (\<lambda>w. sublist w (js_lower k))
     [''token'', ''secret'', ''key'', ''password'', ''authorization'', ''cookie'', ''credential'']"

definition CAPABILITY_URL_KEY :: "string \<Rightarrow> bool" where
  "CAPABILITY_URL_KEY k \<longleftrightarrow> js_lower k \<in> {''stream_url'', ''clear_url''}"

definition AUDIO_URL_KEY :: "string \<Rightarrow> bool" where
  "AUDIO_URL_KEY k \<longleftrightarrow> ends_with (js_lower k) ''_url''"

text \<open>\<open>url v\<close> is the origin of \<open>new URL(v)\<close>, \<open>None\<close> when it throws.\<close>

definition originOnly :: "(string \<Rightarrow> string option) \<Rightarrow> 'a js_value \<Rightarrow> 'a rtree" where
  "originOnly url v =
     (case v of
        VStr s \<Rightarrow> (case url s of
            Some origin \<Rightarrow> if origin \<noteq> '''' \<and> origin \<noteq> ''null'' then ROrigin origin else RStr ''[redacted]''
          | None \<Rightarrow> RStr ''[redacted]'')
      | _ \<Rightarrow> RStr ''[redacted]'')"

section \<open>The walk\<close>

text \<open>\<open>seen\<close> and \<open>nodes\<close> of the closure.\<close>

record 'a walk_state =
  ws_seen :: "nat \<rightharpoonup> 'a rtree"
  ws_nodes :: nat

definition MAX_DEPTH :: nat where "MAX_DEPTH = 20"

text \<open>A map whose body threads the closure's state.\<close>

fun map_state :: "('x \<Rightarrow> 's \<Rightarrow> 'y \<times> 's) \<Rightarrow> 'x list \<Rightarrow> 's \<Rightarrow> 'y list \<times> 's" where
  "map_state f [] s = ([], s)"
| "map_state f (x # xs) s = (let (y, s') = f x s; (ys, s'') = map_state f xs s' in (y # ys, s''))"

text \<open>The keys of the headers an entry holds: \<open>None\<close> unless its value is an object and no array.\<close>

definition header_keys :: "'a js_heap \<Rightarrow> string \<Rightarrow> 'a js_value \<Rightarrow> string list option" where
  "header_keys heap k x =
     (if js_lower k = ''headers'' then
        (case x of VRef a \<Rightarrow> (case heap a of OObj es \<Rightarrow> Some (map fst es) | OArr _ \<Rightarrow> None) | _ \<Rightarrow> None)
      else None)"

definition redact_entry :: "(string \<Rightarrow> string option) \<Rightarrow> 'a js_heap \<Rightarrow> bool
    \<Rightarrow> (string \<Rightarrow> 'a js_value \<Rightarrow> 'a walk_state \<Rightarrow> 'a rtree \<times> 'a walk_state)
    \<Rightarrow> string \<times> 'a js_value \<Rightarrow> 'a walk_state \<Rightarrow> (string \<times> 'a rtree) \<times> 'a walk_state" where
  "redact_entry url heap inAudio walk_child e s =
     (let (k, x) = e in
      if SECRET_KEY k then ((k, RStr ''[redacted]''), s)
      else if CAPABILITY_URL_KEY k \<or> inAudio \<and> AUDIO_URL_KEY k then ((k, originOnly url x), s)
      else (case header_keys heap k x of
          Some ks \<Rightarrow> ((k, RObj (map (\<lambda>h. (h, RStr ''[redacted]'')) ks)), s)
        | None \<Rightarrow> let (t, s') = walk_child k x s in ((k, t), s')))"

text \<open>\<open>obj[k] = v\<close>: a key \<open>__proto__\<close> sets the prototype of the copy and makes no property of it.\<close>

definition own_entries :: "(string \<times> 'b) list \<Rightarrow> (string \<times> 'b) list" where
  "own_entries es = filter (\<lambda>(k, _). k \<noteq> ''__proto__'') es"

text \<open>The copy of an object whose walk has begun.\<close>

definition walk_object :: "(string \<Rightarrow> string option) \<Rightarrow> 'a js_heap
    \<Rightarrow> (string \<Rightarrow> 'a js_value \<Rightarrow> 'a walk_state \<Rightarrow> 'a rtree \<times> 'a walk_state)
    \<Rightarrow> string \<Rightarrow> 'a js_object \<Rightarrow> 'a walk_state \<Rightarrow> 'a rtree \<times> 'a walk_state" where
  "walk_object url heap walk_child parentKey ob s =
     (case ob of
        OArr xs \<Rightarrow> (case map_state (walk_child parentKey) xs s of (ts, s') \<Rightarrow> (RArr ts, s'))
      | OObj es \<Rightarrow>
          (case map_state (redact_entry url heap (js_lower parentKey = ''audio'') walk_child) es s of
             (ts, s') \<Rightarrow> (RObj (own_entries ts), s')))"

definition max_nodes :: "tree_opts \<Rightarrow> nat" where
  "max_nodes opts = (case to_maxNodes opts of Some m \<Rightarrow> m | None \<Rightarrow> 10000)"

text \<open>\<open>walk v depth parentKey\<close> with \<open>depth = MAX_DEPTH + 1 - r\<close>: no room is left when \<open>depth\<close> exceeds it.\<close>

fun walk :: "tree_opts \<Rightarrow> (string \<Rightarrow> string option) \<Rightarrow> 'a js_heap \<Rightarrow> nat \<Rightarrow> string
    \<Rightarrow> 'a js_value \<Rightarrow> 'a walk_state \<Rightarrow> 'a rtree \<times> 'a walk_state" where
  "walk opts url heap r parentKey (VStr t) s =
     (RStr (case to_strings opts of Some f \<Rightarrow> f t | None \<Rightarrow> t), s)"
| "walk opts url heap r parentKey (VScalar c) s = (RScalar c, s)"
| "walk opts url heap 0 parentKey (VRef a) s =
     (if to_tooDeep opts = TruncateDeep then RStr ''[truncated]'' else RKept a, s)"
| "walk opts url heap (Suc r) parentKey (VRef a) s =
     (case ws_seen s a of
        Some t \<Rightarrow> (t, s)
      | None \<Rightarrow>
          let s1 = s\<lparr>ws_nodes := Suc (ws_nodes s)\<rparr> in
          if ws_nodes s1 > max_nodes opts then (RStr ''[truncated]'', s1)
          else
            let s2 = s1\<lparr>ws_seen := (ws_seen s1)(a \<mapsto> RStr ''[circular]'')\<rparr>;
                (out, s3) = walk_object url heap (walk opts url heap r) parentKey (heap a) s2
            in (out, s3\<lparr>ws_seen := (ws_seen s3)(a \<mapsto> out)\<rparr>))"

definition redactTree :: "tree_opts \<Rightarrow> (string \<Rightarrow> string option) \<Rightarrow> 'a js_heap \<Rightarrow> 'a js_value \<Rightarrow> 'a rtree" where
  "redactTree opts url heap v =
     fst (walk opts url heap (MAX_DEPTH + 1) '''' v \<lparr>ws_seen = Map.empty, ws_nodes = 0\<rparr>)"

section \<open>What is hidden\<close>

text \<open>Two entries that differ only in what is hidden: the value of a secret key, the path of a
  capability URL, the object held as headers (but for its keys).\<close>

definition entry_alike :: "(string \<Rightarrow> string option) \<Rightarrow> 'a js_heap \<Rightarrow> 'a js_heap
    \<Rightarrow> string \<times> 'a js_value \<Rightarrow> string \<times> 'a js_value \<Rightarrow> bool" where
  "entry_alike url h1 h2 e1 e2 \<longleftrightarrow> fst e1 = fst e2 \<and>
     (snd e1 = snd e2 \<or> SECRET_KEY (fst e1)
      \<or> CAPABILITY_URL_KEY (fst e1) \<and> (originOnly url (snd e1) :: 'a rtree) = originOnly url (snd e2)
      \<or> \<not> CAPABILITY_URL_KEY (fst e1) \<and> \<not> AUDIO_URL_KEY (fst e1) \<and>
        (\<exists>ks. header_keys h1 (fst e1) (snd e1) = Some ks \<and> header_keys h2 (fst e1) (snd e2) = Some ks))"

fun object_alike :: "(string \<Rightarrow> string option) \<Rightarrow> 'a js_heap \<Rightarrow> 'a js_heap \<Rightarrow> 'a js_object \<Rightarrow> 'a js_object \<Rightarrow> bool" where
  "object_alike url h1 h2 (OArr xs) (OArr ys) = (xs = ys)"
| "object_alike url h1 h2 (OObj es) (OObj fs) = list_all2 (entry_alike url h1 h2) es fs"
| "object_alike url h1 h2 _ _ = False"

definition heaps_alike :: "(string \<Rightarrow> string option) \<Rightarrow> 'a js_heap \<Rightarrow> 'a js_heap \<Rightarrow> bool" where
  "heaps_alike url h1 h2 \<longleftrightarrow> (\<forall>a. object_alike url h1 h2 (h1 a) (h2 a))"

lemma map_state_all2:
  assumes "list_all2 (\<lambda>x y. \<forall>s. f x s = g y s) xs ys"
  shows "map_state f xs s = map_state g ys s"
  using assms by (induction arbitrary: s rule: list_all2_induct) (simp_all split: prod.split)

lemma entry_alike_keys: "list_all2 (entry_alike url h1 h2) es fs \<Longrightarrow> map fst es = map fst fs"
  by (induction rule: list_all2_induct) (auto simp: entry_alike_def)

lemma heaps_alike_header_keys:
  assumes "heaps_alike url h1 h2" shows "header_keys h1 k x = header_keys h2 k x"
proof (cases x)
  case (VRef a)
  have "object_alike url h1 h2 (h1 a) (h2 a)" using assms unfolding heaps_alike_def by blast
  then show ?thesis using VRef entry_alike_keys
    by (cases "h1 a"; cases "h2 a") (auto simp: header_keys_def)
qed (simp_all add: header_keys_def)

lemma redact_entry_alike:
  assumes heaps: "heaps_alike url h1 h2" and e: "entry_alike url h1 h2 e1 e2"
    and child: "\<And>k x s. w1 k x s = w2 k x s"
  shows "redact_entry url h1 inAudio w1 e1 s = redact_entry url h2 inAudio w2 e2 s"
proof -
  obtain k x y where e1: "e1 = (k, x)" and e2: "e2 = (k, y)"
    using e by (cases e1; cases e2) (auto simp: entry_alike_def)
  consider "SECRET_KEY k" | "\<not> SECRET_KEY k" "x = y"
    | "CAPABILITY_URL_KEY k" "(originOnly url x :: 'a rtree) = originOnly url y"
    | ks where "\<not> CAPABILITY_URL_KEY k" "\<not> AUDIO_URL_KEY k" "header_keys h1 k x = Some ks" "header_keys h2 k y = Some ks"
    using e unfolding e1 e2 entry_alike_def by auto
  then show ?thesis
    by cases (simp_all add: redact_entry_def e1 e2 child heaps_alike_header_keys[OF heaps] split: option.split)
qed

lemma walk_object_alike:
  assumes heaps: "heaps_alike url h1 h2" and child: "\<And>k x s. w1 k x s = w2 k x s"
    and "object_alike url h1 h2 o1 o2"
  shows "walk_object url h1 w1 parentKey o1 s = walk_object url h2 w2 parentKey o2 s"
proof (cases o1)
  case (OArr xs)
  moreover have "map_state (w1 parentKey) xs s = map_state (w2 parentKey) xs s"
    by (rule map_state_all2) (simp add: child list_all2_same)
  ultimately show ?thesis using assms(3) by (cases o2) (simp_all add: walk_object_def)
next
  case (OObj es)
  then obtain fs where fs: "o2 = OObj fs" "list_all2 (entry_alike url h1 h2) es fs"
    using assms(3) by (cases o2) simp_all
  have "list_all2 (\<lambda>x y. \<forall>s. redact_entry url h1 au w1 x s = redact_entry url h2 au w2 y s) es fs" for au
    using fs(2) by (rule list_all2_mono) (blast intro: redact_entry_alike[OF heaps] child)
  from map_state_all2[OF this] show ?thesis using OObj fs by (simp add: walk_object_def)
qed

lemma walk_alike:
  assumes heaps: "heaps_alike url h1 h2"
  shows "walk opts url h1 r parentKey v s = walk opts url h2 r parentKey v s"
proof (induction r arbitrary: parentKey v s)
  case 0
  then show ?case by (cases v) simp_all
next
  case (Suc r)
  show ?case
  proof (cases v)
    case (VRef a)
    have alike: "object_alike url h1 h2 (h1 a) (h2 a)" using heaps unfolding heaps_alike_def by blast
    have "walk_object url h1 (walk opts url h1 r) parentKey (h1 a) s'
        = walk_object url h2 (walk opts url h2 r) parentKey (h2 a) s'" for s'
      using alike by (rule walk_object_alike[OF heaps Suc])
    then show ?thesis using VRef by (simp add: Let_def split: option.split)
  qed simp_all
qed

section \<open>The copy\<close>

text \<open>What every object of a copy satisfies. Objects under \<open>audio\<close> are not special here: a shared
  object keeps the copy its first key gave it.\<close>

fun clean :: "(string \<Rightarrow> string option) \<Rightarrow> 'a rtree \<Rightarrow> bool" where
  "clean url (RArr ts) = (\<forall>t \<in> set ts. clean url t)"
| "clean url (RObj es) = (\<forall>e \<in> set es. clean url (snd e)
     \<and> (SECRET_KEY (fst e) \<longrightarrow> snd e = RStr ''[redacted]'')
     \<and> (CAPABILITY_URL_KEY (fst e) \<longrightarrow> SECRET_KEY (fst e) \<or> snd e \<in> range (originOnly url))
     \<and> (js_lower (fst e) = ''headers'' \<longrightarrow>
          (case snd e of RObj hs \<Rightarrow> \<forall>h \<in> set hs. snd h = RStr ''[redacted]'' | _ \<Rightarrow> True)))"
| "clean url (RKept a) = False"
| "clean url _ = True"

text \<open>The invariant of the closure's state: what is remembered of an array is no object, everything
  remembered is clean, and no more objects are remembered than were counted or are allowed.\<close>

fun shape_ok :: "'a js_object \<Rightarrow> 'a rtree \<Rightarrow> bool" where
  "shape_ok (OArr xs) (RObj es) = False"
| "shape_ok _ _ = True"

definition walk_inv :: "tree_opts \<Rightarrow> (string \<Rightarrow> string option) \<Rightarrow> 'a js_heap \<Rightarrow> 'a walk_state \<Rightarrow> bool" where
  "walk_inv opts url heap s \<longleftrightarrow>
     (\<forall>a t. ws_seen s a = Some t \<longrightarrow> clean url t \<and> shape_ok (heap a) t) \<and>
     finite (dom (ws_seen s)) \<and> card (dom (ws_seen s)) \<le> min (ws_nodes s) (max_nodes opts)"

definition child_ok :: "tree_opts \<Rightarrow> (string \<Rightarrow> string option) \<Rightarrow> 'a js_heap
    \<Rightarrow> (string \<Rightarrow> 'a js_value \<Rightarrow> 'a walk_state \<Rightarrow> 'a rtree \<times> 'a walk_state) \<Rightarrow> bool" where
  "child_ok opts url heap w \<longleftrightarrow> (\<forall>k x s t s'. w k x s = (t, s') \<longrightarrow> walk_inv opts url heap s \<longrightarrow>
     walk_inv opts url heap s' \<and> clean url t \<and> dom (ws_seen s) \<subseteq> dom (ws_seen s')
     \<and> (case x of VRef a \<Rightarrow> shape_ok (heap a) t | _ \<Rightarrow> \<forall>es. t \<noteq> RObj es))"

lemma child_okD:
  assumes "child_ok opts url heap w" "w k x s = (t, s')" "walk_inv opts url heap s"
  shows "walk_inv opts url heap s' \<and> clean url t \<and> dom (ws_seen s) \<subseteq> dom (ws_seen s')
     \<and> (case x of VRef a \<Rightarrow> shape_ok (heap a) t | _ \<Rightarrow> \<forall>es. t \<noteq> RObj es)"
  using assms unfolding child_ok_def by blast

lemma map_state_inv:
  assumes "map_state f xs s = (ys, s')" "I s" "\<And>x s y s'. x \<in> set xs \<Longrightarrow> f x s = (y, s') \<Longrightarrow> I s \<Longrightarrow> I s' \<and> P y"
  shows "I s' \<and> (\<forall>y \<in> set ys. P y)"
  using assms by (induction xs arbitrary: s ys) (fastforce split: prod.splits)+

lemma originOnly_plain: "clean url (originOnly url x) \<and> (\<forall>es. originOnly url x \<noteq> RObj es) \<and> (\<forall>ts. originOnly url x \<noteq> RArr ts)"
  by (auto simp: originOnly_def split: js_value.splits option.splits)

lemma redacted_is_origin: "RStr ''[redacted]'' \<in> range (originOnly url :: 'a js_value \<Rightarrow> 'a rtree)"
  by (rule range_eqI [of _ _ "VRef 0"]) (simp add: originOnly_def)

definition entry_clean :: "(string \<Rightarrow> string option) \<Rightarrow> string \<times> 'a rtree \<Rightarrow> bool" where
  "entry_clean url e \<longleftrightarrow> clean url (RObj [e])"

lemma clean_RObj: "clean url (RObj es) \<longleftrightarrow> (\<forall>e \<in> set es. entry_clean url e)"
  by (simp add: entry_clean_def)

lemma clean_own_entries: "clean url (RObj es) \<Longrightarrow> clean url (RObj (own_entries es))"
  unfolding clean_RObj own_entries_def by auto

lemma redact_entry_ok:
  assumes child: "child_ok opts url heap w" and run: "redact_entry url heap au w (k, x) s = (e, s')"
    and inv: "walk_inv opts url heap s \<and> D \<subseteq> dom (ws_seen s)"
  shows "(walk_inv opts url heap s' \<and> D \<subseteq> dom (ws_seen s')) \<and> entry_clean url e"
proof -
  consider (hidden) "SECRET_KEY k" | (url) "\<not> SECRET_KEY k" "CAPABILITY_URL_KEY k \<or> au \<and> AUDIO_URL_KEY k"
    | (headers) ks where "\<not> SECRET_KEY k" "\<not> (CAPABILITY_URL_KEY k \<or> au \<and> AUDIO_URL_KEY k)" "header_keys heap k x = Some ks"
    | (walked) "\<not> SECRET_KEY k" "\<not> (CAPABILITY_URL_KEY k \<or> au \<and> AUDIO_URL_KEY k)" "header_keys heap k x = None"
    by blast
  then show ?thesis
  proof cases
    case hidden
    then show ?thesis using run inv by (auto simp: redact_entry_def entry_clean_def)
  next
    case url
    then have "e = (k, originOnly url x)" "s' = s" using run by (simp_all add: redact_entry_def)
    then show ?thesis using inv url(1) originOnly_plain [of url x]
      by (auto simp: entry_clean_def split: rtree.split)
  next
    case headers
    then have "e = (k, RObj (map (\<lambda>h. (h, RStr ''[redacted]'')) ks))" "s' = s" using run by (auto simp: redact_entry_def split: if_splits)
    then show ?thesis using inv headers redacted_is_origin [of url] by (auto simp: entry_clean_def)
  next
    case walked
    obtain t where t: "w k x s = (t, s')" "e = (k, t)"
      using run walked by (auto simp: redact_entry_def split: prod.splits)
    have ok: "walk_inv opts url heap s'" "clean url t" "dom (ws_seen s) \<subseteq> dom (ws_seen s')"
      "case x of VRef a \<Rightarrow> shape_ok (heap a) t | _ \<Rightarrow> \<forall>es. t \<noteq> RObj es"
      using child_okD [OF child t(1)] inv by blast+
    have "\<forall>es. t \<noteq> RObj es" if "js_lower k = ''headers''"
      using that ok(4) walked(3) by (cases x; cases t) (auto simp: header_keys_def split: js_object.splits)
    then have "entry_clean url e" using ok(2) walked t(2) by (auto simp: entry_clean_def split: rtree.split)
    moreover have "D \<subseteq> dom (ws_seen s')" using ok(3) inv by blast
    ultimately show ?thesis using ok(1) by blast
  qed
qed

lemma walk_object_ok:
  assumes child: "child_ok opts url heap w" and run: "walk_object url heap w parentKey ob s = (out, s')"
    and inv: "walk_inv opts url heap s"
  shows "walk_inv opts url heap s' \<and> dom (ws_seen s) \<subseteq> dom (ws_seen s') \<and> clean url out \<and> shape_ok ob out"
proof (cases ob)
  case (OArr xs)
  then obtain ts where ts: "map_state (w parentKey) xs s = (ts, s')" "out = RArr ts"
    using run by (auto simp: walk_object_def split: prod.splits)
  have "(walk_inv opts url heap s' \<and> dom (ws_seen s) \<subseteq> dom (ws_seen s')) \<and> (\<forall>t \<in> set ts. clean url t)"
    using ts(1) by (rule map_state_inv) (use inv child_okD [OF child] in blast)+
  then show ?thesis using ts(2) OArr by simp
next
  case (OObj es)
  then obtain ts where ts: "map_state (redact_entry url heap (js_lower parentKey = ''audio'') w) es s = (ts, s')" "out = RObj (own_entries ts)"
    using run by (auto simp: walk_object_def split: prod.splits)
  have "(walk_inv opts url heap s' \<and> dom (ws_seen s) \<subseteq> dom (ws_seen s')) \<and> (\<forall>e \<in> set ts. entry_clean url e)"
    using ts(1)
  proof (rule map_state_inv)
    fix x s1 y s2
    assume "redact_entry url heap (js_lower parentKey = ''audio'') w x s1 = (y, s2)"
      "walk_inv opts url heap s1 \<and> dom (ws_seen s) \<subseteq> dom (ws_seen s1)"
    then show "(walk_inv opts url heap s2 \<and> dom (ws_seen s) \<subseteq> dom (ws_seen s2)) \<and> entry_clean url y"
      using redact_entry_ok [OF child] by (cases x) blast
  qed (use inv in simp)
  then show ?thesis using ts(2) OObj clean_own_entries [of url ts] unfolding clean_RObj [symmetric] by simp
qed

lemma walk_ok:
  assumes "to_tooDeep opts = TruncateDeep"
  shows "child_ok opts url heap (walk opts url heap r)"
proof (induction r)
  case 0
  then show ?case using assms unfolding child_ok_def by (auto split: js_value.splits)
next
  case (Suc r)
  show ?case unfolding child_ok_def
  proof (intro allI impI)
    fix k v s t s'
    assume run: "walk opts url heap (Suc r) k v s = (t, s')" and inv: "walk_inv opts url heap s"
    show "walk_inv opts url heap s' \<and> clean url t \<and> dom (ws_seen s) \<subseteq> dom (ws_seen s')
       \<and> (case v of VRef a \<Rightarrow> shape_ok (heap a) t | _ \<Rightarrow> \<forall>es. t \<noteq> RObj es)"
    proof (cases v)
      case (VRef a)
      let ?s1 = "s\<lparr>ws_nodes := Suc (ws_nodes s)\<rparr>"
      let ?s2 = "?s1\<lparr>ws_seen := (ws_seen s)(a \<mapsto> RStr ''[circular]'')\<rparr>"
      have inv1: "walk_inv opts url heap ?s1" using inv by (auto simp: walk_inv_def)
      consider (known) "ws_seen s a = Some t" "s' = s"
        | (full) "t = RStr ''[truncated]''" "s' = ?s1"
        | (walked) s3 where "ws_seen s a = None" "Suc (ws_nodes s) \<le> max_nodes opts"
            "walk_object url heap (walk opts url heap r) k (heap a) ?s2 = (t, s3)" "s' = s3\<lparr>ws_seen := (ws_seen s3)(a \<mapsto> t)\<rparr>"
        using run VRef by (auto simp: Let_def split: option.splits if_splits prod.splits)
      then show ?thesis
      proof cases
        case known
        then show ?thesis using inv VRef by (auto simp: walk_inv_def)
      next
        case full
        then show ?thesis using inv1 VRef by (auto simp: walk_inv_def)
      next
        case walked
        have "walk_inv opts url heap ?s2" using inv walked(1,2) by (auto simp: walk_inv_def card_insert_if domIff)
        from walk_object_ok [OF Suc walked(3) this]
        have ok: "walk_inv opts url heap s3" "insert a (dom (ws_seen s)) \<subseteq> dom (ws_seen s3)" "clean url t" "shape_ok (heap a) t"
          by auto
        then have "insert a (dom (ws_seen s3)) = dom (ws_seen s3)" by auto
        then have "walk_inv opts url heap s'" using ok walked(4) by (auto simp: walk_inv_def)
        then show ?thesis using ok walked(4) VRef by auto
      qed
    qed (use run inv in auto)
  qed
qed

definition start_state :: "'a walk_state" where
  "start_state = \<lparr>ws_seen = Map.empty, ws_nodes = 0\<rparr>"

lemma walk_inv_start: "walk_inv opts url heap start_state"
  by (simp add: walk_inv_def start_state_def)

lemma objects_walked_bounded:
  assumes "to_tooDeep opts = TruncateDeep"
  shows "card (dom (ws_seen (snd (walk opts url heap r k v start_state)))) \<le> max_nodes opts"
  using child_okD [OF walk_ok [OF assms, of url heap r] surjective_pairing walk_inv_start [of opts url heap], of k v]
  by (simp add: walk_inv_def)


text \<open>A call of a tool: an object with a token, headers and a stream.\<close>

definition demo_heap :: "string \<Rightarrow> string \<Rightarrow> nat \<Rightarrow> nat js_heap" where
  "demo_heap t u h a = (if a = 0 then OObj [(''apiToken'', VStr t), (''headers'', VRef h), (''stream_url'', VStr u), (''self'', VRef 0)]
     else OObj [(''x-auth'', if a = 1 then VStr ''one'' else VStr ''two'')])"

definition demo_url :: "string \<Rightarrow> string option" where
  "demo_url s = (if starts_with s ''wss://h/'' then Some ''wss://h'' else None)"

text \<open>\<open>redactValue\<close> of \<^verbatim>\<open>src/audit/redact.ts\<close>: \<open>strings\<close> is \<open>redactSecrets\<close>.\<close>

definition audit_opts :: "(string \<Rightarrow> string) \<Rightarrow> tree_opts" where
  "audit_opts strings = \<lparr>to_strings = Some strings, to_tooDeep = TruncateDeep, to_maxNodes = None\<rparr>"

lemma demo_keys:
  "SECRET_KEY ''apiToken''" "\<not> SECRET_KEY ''headers''" "\<not> SECRET_KEY ''stream_url''" "\<not> SECRET_KEY ''self''"
  "\<not> SECRET_KEY ''a''" "\<not> SECRET_KEY ''call''" "\<not> SECRET_KEY ''audio''" "\<not> SECRET_KEY ''play_url''" "\<not> SECRET_KEY ''x-auth''"
  "CAPABILITY_URL_KEY ''stream_url''" "\<not> CAPABILITY_URL_KEY ''headers''" "\<not> CAPABILITY_URL_KEY ''self''"
  "\<not> CAPABILITY_URL_KEY ''a''" "\<not> CAPABILITY_URL_KEY ''call''" "\<not> CAPABILITY_URL_KEY ''audio''" "\<not> CAPABILITY_URL_KEY ''play_url''"
  "\<not> AUDIO_URL_KEY ''headers''" "\<not> AUDIO_URL_KEY ''a''" "\<not> AUDIO_URL_KEY ''self''"
  "js_lower ''headers'' = ''headers''" "js_lower ''a'' = ''a''" "js_lower ''call'' = ''call''"
  "js_lower ''audio'' = ''audio''" "js_lower ''play_url'' = ''play_url''" "js_lower ''self'' = ''self''" "js_lower [] = []"
  by code_simp+

lemma demo_walk: "fst (walk (audit_opts id) demo_url (demo_heap t ''wss://h/a'' 1) (Suc (Suc n)) [] (VRef 0) start_state) =
  RObj [(''apiToken'', RStr ''[redacted]''), (''headers'', RObj [(''x-auth'', RStr ''[redacted]'')]),
    (''stream_url'', ROrigin ''wss://h''), (''self'', RStr ''[circular]'')]"
  by (simp add: start_state_def audit_opts_def demo_heap_def walk_object_def max_nodes_def
      redact_entry_def demo_keys header_keys_def own_entries_def originOnly_def demo_url_def Let_def)

lemma demo_alike: "heaps_alike demo_url (demo_heap t ''wss://h/a'' 1) (demo_heap t' ''wss://h/b'' 2)"
  by (auto simp: heaps_alike_def demo_heap_def entry_alike_def demo_keys header_keys_def originOnly_def demo_url_def)


section \<open>What the card shows\<close>

text \<open>\<open>redactForCard\<close> of \<^verbatim>\<open>src/gateway/slack/permission-gate.ts\<close> passes no options, so an object past
  depth 20 is kept.\<close>

definition card_opts :: tree_opts where
  "card_opts = \<lparr>to_strings = None, to_tooDeep = KeepDeep, to_maxNodes = None\<rparr>"

definition nested :: "'a js_object \<Rightarrow> 'a js_heap" where
  "nested inner a = (if a \<le> 20 then OObj [(''a'', VRef (Suc a))] else inner)"

primrec wrap_a :: "nat \<Rightarrow> 'a rtree \<Rightarrow> 'a rtree" where
  "wrap_a 0 t = t"
| "wrap_a (Suc n) t = RObj [(''a'', wrap_a n t)]"

lemma plain_entry: "redact_entry url heap au w (''a'', x) s = (case w ''a'' x s of (t, s') \<Rightarrow> ((''a'', t), s'))"
  by (simp add: redact_entry_def demo_keys header_keys_def)

lemma nested_walk:
  assumes "a + r = 21" "\<forall>b \<ge> a. ws_seen s b = None" "ws_nodes s = a"
  shows "fst (walk card_opts url (nested inner) r k (VRef a) s) = wrap_a r (RKept 21)"
  using assms
proof (induction r arbitrary: a s k)
  case 0
  then show ?case by (simp add: card_opts_def)
next
  case (Suc r)
  let ?s2 = "s\<lparr>ws_nodes := Suc a, ws_seen := (ws_seen s)(a \<mapsto> RStr ''[circular]'')\<rparr>"
  have "fst (walk card_opts url (nested inner) r ''a'' (VRef (Suc a)) ?s2) = wrap_a r (RKept 21)"
    using Suc.prems by (intro Suc.IH) auto
  moreover have "nested inner a = OObj [(''a'', VRef (Suc a))]" "Suc a \<le> 10000" using Suc.prems(1) by (simp_all add: nested_def)
  ultimately show ?case using Suc.prems
    by (simp add: Let_def walk_object_def plain_entry max_nodes_def own_entries_def card_opts_def case_prod_beta)
qed

text \<open>On an approval card nothing is masked below the depth limit: an object nested in twenty-one
  others is part of the copy as it is, whatever its keys name.\<close>

theorem deep_object_shown_as_is:
  "redactTree card_opts url (nested (OObj [(''token'', VStr t)])) (VRef 0) = wrap_a 21 (RKept 21)
   \<and> nested (OObj [(''token'', VStr t)]) 21 = OObj [(''token'', VStr t)]"
  using nested_walk [of 0 21 "\<lparr>ws_seen = Map.empty, ws_nodes = 0\<rparr>" url _ "[]"]
  by (simp add: redactTree_def MAX_DEPTH_def nested_def)

text \<open>An object first walked under another key shows its audio URLs in full under \<open>audio\<close> too.\<close>

definition shared_audio :: "string \<Rightarrow> nat js_heap" where
  "shared_audio u a = (if a = 0 then OObj [(''call'', VRef 1), (''audio'', VRef 1)] else OObj [(''play_url'', VStr u)])"

lemma shared_audio_url_shown:
  "redactTree (audit_opts id) url (shared_audio u) (VRef 0) =
     RObj [(''call'', RObj [(''play_url'', RStr u)]), (''audio'', RObj [(''play_url'', RStr u)])]"
proof -
  have "MAX_DEPTH + 1 = Suc (Suc (Suc 18))" by (simp add: MAX_DEPTH_def)
  moreover have "fst (walk (audit_opts id) url (shared_audio u) (Suc (Suc (Suc n))) [] (VRef 0) \<lparr>ws_seen = Map.empty, ws_nodes = 0\<rparr>) =
     RObj [(''call'', RObj [(''play_url'', RStr u)]), (''audio'', RObj [(''play_url'', RStr u)])]" for n
    by (simp add: audit_opts_def shared_audio_def walk_object_def max_nodes_def
      redact_entry_def demo_keys header_keys_def own_entries_def Let_def)
  ultimately show ?thesis unfolding redactTree_def by metis
qed

end
