(* ===== verification/MessageGate.thy ===== *)
theory MessageGate
  imports Prelude Complex_Main
begin

text \<open>
  The decision on a message nobody has to answer (\<^verbatim>\<open>src/gateway/gate\<close>, \<^verbatim>\<open>src/decision\<close>): the policy
  table, the check of an adapter's answers, and the runner with its shared decisions as a machine over
  the events it awaits. The adapter, the builder of the input and the clock are events' arguments.
  Confidences are exact rationals. Log lines and counters are not modelled.
\<close>

section \<open>Decisions\<close>

datatype trust = Trusted | AllowedTrust | Restricted

record gate_input =
  gi_message :: string
  gi_recent :: "(bool \<times> string) list"
  gi_mentionsAgent :: bool
  gi_engaged :: bool
  gi_kbHitScore :: "rat option"
  gi_channelTrust :: trust

record answer =
  an_value :: bool
  an_confidence :: rat

record gate_decision =
  addressedToAgent :: answer
  isQuestionOrRequest :: answer
  agentCanHelp :: answer
  alreadyAnswered :: answer

datatype gate_action = ActRun | ActRecord | ActRecordDoubt

definition sure :: "answer \<Rightarrow> rat \<Rightarrow> bool" where
  "sure a t \<longleftrightarrow> an_value a \<and> an_confidence a \<ge> t"

definition decideAction :: "gate_input \<Rightarrow> gate_decision \<Rightarrow> rat \<Rightarrow> gate_action" where
  "decideAction input d tAct =
     (if gi_mentionsAgent input then if sure (addressedToAgent d) tAct then ActRun else ActRecordDoubt
      else if gi_engaged input \<and> sure (isQuestionOrRequest d) tAct \<and> sure (agentCanHelp d) tAct
          \<and> \<not> sure (alreadyAnswered d) tAct then ActRun
      else ActRecord)"

definition rulesDecision :: "gate_input \<Rightarrow> gate_decision" where
  "rulesDecision input =
     (let yes = \<lparr>an_value = True, an_confidence = 1\<rparr> in
      \<lparr>addressedToAgent = \<lparr>an_value = gi_mentionsAgent input, an_confidence = 1\<rparr>,
       isQuestionOrRequest = yes, agentCanHelp = yes,
       alreadyAnswered = \<lparr>an_value = False, an_confidence = 1\<rparr>\<rparr>)"

section \<open>Answers of an adapter\<close>

text \<open>What an adapter returns: any value. An object lists its own properties; \<open>RawNum None\<close> is a
  number that is not finite.\<close>

datatype raw = RawObj "(string \<times> raw) list" | RawArr | RawStr string | RawNum "rat option" | RawNone | RawOther

datatype decision_error_kind =
  AuthError | InvalidRequest | RateLimited | Overloaded | Transport | DecisionTimeout | BadOutput

record decision_question =
  dq_id :: string
  dq_options :: "string list"

type_synonym decision_result = "(string \<times> string \<times> rat) list"

definition GATE_QUESTIONS :: "decision_question list" where
  "GATE_QUESTIONS = map (\<lambda>i. \<lparr>dq_id = i, dq_options = [''yes'', ''no'']\<rparr>)
     [''addressedToAgent'', ''isQuestionOrRequest'', ''agentCanHelp'', ''alreadyAnswered'']"

text \<open>\<open>k in questions\<close> is also true of what an object inherits.\<close>

definition object_prototype :: "string list" where
  "object_prototype = [''constructor'', ''__defineGetter__'', ''__defineSetter__'', ''hasOwnProperty'',
     ''__lookupGetter__'', ''__lookupSetter__'', ''isPrototypeOf'', ''propertyIsEnumerable'', ''toString'',
     ''valueOf'', ''__proto__'', ''toLocaleString'']"

definition check_answer :: "decision_question \<Rightarrow> raw option \<Rightarrow> string + (string \<times> rat)" where
  "check_answer q a =
     (case a of
        Some (RawObj fs) \<Rightarrow> (case map_of fs ''choice'' of
            Some (RawStr c) \<Rightarrow> if c \<notin> set (dq_options q) then Inl ''is not a declared option''
              else (case map_of fs ''confidence'' of
                  Some (RawNum (Some x)) \<Rightarrow> if x < 0 \<or> x > 1 then Inl ''has an out-of-range confidence'' else Inr (c, x)
                | _ \<Rightarrow> Inl ''has an out-of-range confidence'')
          | _ \<Rightarrow> Inl ''is not a declared option'')
      | Some RawArr \<Rightarrow> Inl ''is not a declared option''
      | _ \<Rightarrow> Inl ''missing answer'')"

fun check_answers :: "decision_question list \<Rightarrow> (string \<times> raw) list \<Rightarrow> string + decision_result" where
  "check_answers [] r = Inr []"
| "check_answers (q # qs) r =
     (case check_answer q (map_of r (dq_id q)) of
        Inl why \<Rightarrow> Inl why
      | Inr a \<Rightarrow> (case check_answers qs r of Inl why \<Rightarrow> Inl why | Inr rest \<Rightarrow> Inr ((dq_id q, a) # rest)))"

definition validate :: "decision_question list \<Rightarrow> raw \<Rightarrow> string + decision_result" where
  "validate qs res =
     (case res of
        RawObj r \<Rightarrow>
          if list_ex (\<lambda>(k, _). k \<notin> set (map dq_id qs) \<and> k \<notin> set object_prototype) r then Inl ''unexpected answer''
          else check_answers qs r
      | _ \<Rightarrow> Inl ''result is not an object'')"

definition pick :: "decision_result \<Rightarrow> string \<Rightarrow> answer" where
  "pick r i = (case map_of r i of
     Some (c, x) \<Rightarrow> \<lparr>an_value = (c = ''yes''), an_confidence = x\<rparr>
   | None \<Rightarrow> \<lparr>an_value = False, an_confidence = 0\<rparr>)"

definition toGateDecision :: "decision_result \<Rightarrow> gate_decision" where
  "toGateDecision r = \<lparr>addressedToAgent = pick r ''addressedToAgent'', isQuestionOrRequest = pick r ''isQuestionOrRequest'',
     agentCanHelp = pick r ''agentCanHelp'', alreadyAnswered = pick r ''alreadyAnswered''\<rparr>"

text \<open>How the adapter's call ended: an answer, an error of its own, any other error (\<open>True\<close> when the
  signal had been aborted), or the abort itself.\<close>

datatype adapter_outcome = Answered raw | ThrewDecision decision_error_kind | ThrewOther bool | Aborted

definition decide :: "decision_question list \<Rightarrow> adapter_outcome \<Rightarrow> decision_error_kind + decision_result" where
  "decide qs outcome =
     (case outcome of
        Answered raw \<Rightarrow> (case validate qs raw of Inl _ \<Rightarrow> Inl BadOutput | Inr r \<Rightarrow> Inr r)
      | ThrewDecision k \<Rightarrow> Inl k
      | ThrewOther aborted \<Rightarrow> Inl (if aborted then DecisionTimeout else Transport)
      | Aborted \<Rightarrow> Inl DecisionTimeout)"

section \<open>The runner\<close>

datatype gate_mode = GateOff | GateShadow | GateOn

datatype gate_source = FromAdapter | FromRules

record gate_result =
  gr_action :: gate_action
  gr_source :: gate_source
  gr_decision :: gate_decision
  gr_latencyMs :: int

record runner_opts =
  ro_mode :: gate_mode
  ro_adapter :: bool
  ro_tAct :: rat
  ro_timeoutMs :: int

datatype flight_phase =
    BuildingInput
  | AskingAdapter gate_input int
  | Decided gate_input gate_result
  | InputFailed bool

text \<open>A run of \<open>compute\<close>, by its promise.\<close>

record flight =
  fl_key :: string
  fl_t0 :: int
  fl_phase :: flight_phase

text \<open>What a caller of \<open>gate\<close> gets: \<open>undefined\<close> (today's path) or an action.\<close>

record runner_state =
  rs_memo :: "string \<rightharpoonup> nat"
  rs_flights :: "flight list"
  rs_waiting :: "nat \<rightharpoonup> nat"
  rs_answers :: "nat \<rightharpoonup> gate_action option"

definition runner_start :: runner_state where
  "runner_start = \<lparr>rs_memo = Map.empty, rs_flights = [], rs_waiting = Map.empty, rs_answers = Map.empty\<rparr>"

text \<open>\<open>Gate c key actual t\<close>: call \<open>c\<close>. The builder and the adapter settle, or a timer fires, at a time.
  \<open>EvictFailed\<close> is the reaction to a rejection, \<open>TtlExpired\<close> the timer of the memo, \<open>Resume c\<close> the
  continuation of a call that awaited its decision.\<close>

datatype runner_event =
    Gate nat string gate_action int
  | InputOk nat gate_input int
  | InputThrew nat
  | InputExpired nat int
  | AdapterSettled nat adapter_outcome int
  | AdapterExpired nat int
  | EvictFailed nat
  | TtlExpired nat
  | Resume nat

definition set_phase :: "nat \<Rightarrow> flight_phase \<Rightarrow> runner_state \<Rightarrow> runner_state" where
  "set_phase f ph s = s\<lparr>rs_flights := (rs_flights s)[f := (rs_flights s ! f)\<lparr>fl_phase := ph\<rparr>]\<rparr>"

definition phase_of :: "runner_state \<Rightarrow> nat \<Rightarrow> flight_phase option" where
  "phase_of s f = (if f < length (rs_flights s) then Some (fl_phase (rs_flights s ! f)) else None)"

text \<open>The end of \<open>compute\<close>: an error of the adapter is no decision, and no decision is the rules'.\<close>

definition conclude :: "runner_opts \<Rightarrow> int \<Rightarrow> gate_input \<Rightarrow> (decision_error_kind + decision_result) option \<Rightarrow> int \<Rightarrow> gate_result" where
  "conclude ro t0 gi outcome t =
     (let decision = (case outcome of Some (Inr r) \<Rightarrow> Some (toGateDecision r) | _ \<Rightarrow> None);
          d = (case decision of Some d \<Rightarrow> d | None \<Rightarrow> rulesDecision gi)
      in \<lparr>gr_action = decideAction gi d (ro_tAct ro),
          gr_source = (if decision \<noteq> None then FromAdapter else FromRules),
          gr_decision = d, gr_latencyMs = t - t0\<rparr>)"

definition input_done :: "runner_opts \<Rightarrow> nat \<Rightarrow> gate_input \<Rightarrow> int \<Rightarrow> runner_state \<Rightarrow> runner_state" where
  "input_done ro f gi t s =
     (let t0 = fl_t0 (rs_flights s ! f) in
      if ro_adapter ro then set_phase f (AskingAdapter gi (t + max 1 (ro_timeoutMs ro - (t - t0)))) s
      else set_phase f (Decided gi (conclude ro t0 gi None t)) s)"

definition evict :: "nat \<Rightarrow> runner_state \<Rightarrow> runner_state" where
  "evict f s = (let key = fl_key (rs_flights s ! f) in
     if rs_memo s key = Some f then s\<lparr>rs_memo := (rs_memo s)(key := None)\<rparr> else s)"

text \<open>\<open>decision\<close>: the shared flight of a key, and the state with a new one if there was none.\<close>

definition decision :: "string \<Rightarrow> int \<Rightarrow> runner_state \<Rightarrow> nat \<times> runner_state" where
  "decision key t s =
     (case rs_memo s key of
        Some f \<Rightarrow> (f, s)
      | None \<Rightarrow>
          let f = length (rs_flights s) in
          (f, s\<lparr>rs_flights := rs_flights s @ [\<lparr>fl_key = key, fl_t0 = t, fl_phase = BuildingInput\<rparr>],
                rs_memo := (rs_memo s)(key \<mapsto> f)\<rparr>))"

definition gate_call :: "runner_opts \<Rightarrow> nat \<Rightarrow> string \<Rightarrow> gate_action \<Rightarrow> int \<Rightarrow> runner_state \<Rightarrow> runner_state" where
  "gate_call ro c key actual t s =
     (case ro_mode ro of
        GateOff \<Rightarrow> s\<lparr>rs_answers := (rs_answers s)(c \<mapsto> None)\<rparr>
      | GateShadow \<Rightarrow> (let (f, s') = decision key t s in s'\<lparr>rs_answers := (rs_answers s')(c \<mapsto> Some actual)\<rparr>)
      | GateOn \<Rightarrow> (let (f, s') = decision key t s in s'\<lparr>rs_waiting := (rs_waiting s')(c \<mapsto> f)\<rparr>))"

definition resume :: "nat \<Rightarrow> runner_state \<Rightarrow> runner_state" where
  "resume c s =
     (case rs_waiting s c of
        Some f \<Rightarrow> (case phase_of s f of
            Some (Decided gi r) \<Rightarrow>
              s\<lparr>rs_waiting := (rs_waiting s)(c := None), rs_answers := (rs_answers s)(c \<mapsto> Some (gr_action r))\<rparr>
          | Some (InputFailed _) \<Rightarrow>
              s\<lparr>rs_waiting := (rs_waiting s)(c := None), rs_answers := (rs_answers s)(c \<mapsto> None)\<rparr>
          | _ \<Rightarrow> s)
      | None \<Rightarrow> s)"

definition adapter_done :: "runner_opts \<Rightarrow> nat \<Rightarrow> adapter_outcome \<Rightarrow> int \<Rightarrow> runner_state \<Rightarrow> runner_state" where
  "adapter_done ro f outcome t s =
     (case phase_of s f of
        Some (AskingAdapter gi _) \<Rightarrow>
          set_phase f (Decided gi (conclude ro (fl_t0 (rs_flights s ! f)) gi (Some (decide GATE_QUESTIONS outcome)) t)) s
      | _ \<Rightarrow> s)"

text \<open>Each call is made once; a late settlement of a promise that has settled changes nothing, and a
  timer fires no earlier than it was set for.\<close>

definition runner_step :: "runner_opts \<Rightarrow> runner_state \<Rightarrow> runner_event \<Rightarrow> runner_state" where
  "runner_step ro s e =
     (case e of
        Gate c key actual t \<Rightarrow>
          if rs_waiting s c = None \<and> rs_answers s c = None then gate_call ro c key actual t s else s
      | InputOk f gi t \<Rightarrow> if phase_of s f = Some BuildingInput then input_done ro f gi t s else s
      | InputThrew f \<Rightarrow> if phase_of s f = Some BuildingInput then set_phase f (InputFailed False) s else s
      | InputExpired f t \<Rightarrow>
          if phase_of s f = Some BuildingInput \<and> t \<ge> fl_t0 (rs_flights s ! f) + ro_timeoutMs ro
          then set_phase f (InputFailed True) s else s
      | AdapterSettled f outcome t \<Rightarrow> adapter_done ro f outcome t s
      | AdapterExpired f t \<Rightarrow>
          (case phase_of s f of
             Some (AskingAdapter gi deadline) \<Rightarrow> if t \<ge> deadline then adapter_done ro f Aborted t s else s
           | _ \<Rightarrow> s)
      | EvictFailed f \<Rightarrow> (case phase_of s f of Some (InputFailed _) \<Rightarrow> evict f s | _ \<Rightarrow> s)
      | TtlExpired f \<Rightarrow> if f < length (rs_flights s) then evict f s else s
      | Resume c \<Rightarrow> resume c s)"

definition runner_run :: "runner_opts \<Rightarrow> runner_event list \<Rightarrow> runner_state" where
  "runner_run ro evs = run_steps (runner_step ro) runner_start evs"

section \<open>The flights of a run\<close>

lemmas runner_defs = set_phase_def phase_of_def evict_def decision_def gate_call_def resume_def
  adapter_done_def input_done_def Let_def

fun final :: "flight_phase \<Rightarrow> bool" where
  "final (Decided gi r) = True"
| "final (InputFailed b) = True"
| "final _ = False"

text \<open>Flights are only added, keep their key and start, and a final phase stays.\<close>

definition grows :: "runner_state \<Rightarrow> runner_state \<Rightarrow> bool" where
  "grows s s' \<longleftrightarrow> length (rs_flights s) \<le> length (rs_flights s') \<and>
     (\<forall>f < length (rs_flights s). fl_key (rs_flights s' ! f) = fl_key (rs_flights s ! f) \<and>
        fl_t0 (rs_flights s' ! f) = fl_t0 (rs_flights s ! f) \<and>
        (final (fl_phase (rs_flights s ! f)) \<longrightarrow> fl_phase (rs_flights s' ! f) = fl_phase (rs_flights s ! f)))"

lemma grows_refl [simp]: "grows s s"
  by (simp add: grows_def)

lemma grows_same: "rs_flights s' = rs_flights s \<Longrightarrow> grows s s'"
  by (simp add: grows_def)

lemma grows_set_phase: "phase_of s f = Some p \<Longrightarrow> \<not> final p \<Longrightarrow> grows s (set_phase f q s)"
  by (auto simp: grows_def set_phase_def phase_of_def nth_list_update split: if_splits)

lemma decision_grows: "decision key t s = (f, s') \<Longrightarrow> grows s s'"
  by (auto simp: decision_def grows_def nth_append Let_def split: option.splits)

lemma adapter_done_grows: "grows s (adapter_done ro f outcome t s)"
  by (auto simp: adapter_done_def intro: grows_set_phase split: option.split flight_phase.split)

lemma grows_more: "grows s s' \<Longrightarrow> rs_flights s'' = rs_flights s' \<Longrightarrow> grows s s''"
  by (simp add: grows_def)

lemma gate_call_grows: "grows s (gate_call ro c key actual t s)"
  by (auto simp: gate_call_def intro: grows_same grows_more decision_grows split: gate_mode.split prod.split)

lemma resume_flights [simp]: "rs_flights (resume c s) = rs_flights s"
  by (auto simp: resume_def split: option.split flight_phase.split)

lemma evict_flights [simp]: "rs_flights (evict f s) = rs_flights s"
  by (simp add: evict_def Let_def)

lemma runner_step_grows: "grows s (runner_step ro s e)"
proof (cases e)
  case (Gate c key actual t)
  then show ?thesis using gate_call_grows by (simp add: runner_step_def)
qed (auto simp: runner_step_def input_done_def Let_def
      intro: grows_set_phase adapter_done_grows grows_same split: option.split flight_phase.split)

section \<open>What a decision rests on\<close>

text \<open>A decided flight has the builder's input, and its result is the policy's over a valid answer
  of the adapter or over the rules.\<close>

definition result_ok :: "runner_opts \<Rightarrow> runner_event list \<Rightarrow> nat \<Rightarrow> gate_input \<Rightarrow> gate_result \<Rightarrow> bool" where
  "result_ok ro evs f gi r \<longleftrightarrow>
     (\<exists>t. InputOk f gi t \<in> set evs) \<and>
     (gr_source r = FromRules \<and> gr_action r = decideAction gi (rulesDecision gi) (ro_tAct ro) \<or>
      gr_source r = FromAdapter \<and> ro_adapter ro \<and>
      (\<exists>raw res t. AdapterSettled f (Answered raw) t \<in> set evs \<and> validate GATE_QUESTIONS raw = Inr res \<and>
         gr_action r = decideAction gi (toGateDecision res) (ro_tAct ro)))"

definition phase_ok :: "runner_opts \<Rightarrow> runner_event list \<Rightarrow> nat \<Rightarrow> flight \<Rightarrow> bool" where
  "phase_ok ro evs f fl \<longleftrightarrow>
     (case fl_phase fl of
        AskingAdapter gi d \<Rightarrow> ro_adapter ro \<and>
          (\<exists>t. InputOk f gi t \<in> set evs \<and> d = t + max 1 (ro_timeoutMs ro - (t - fl_t0 fl)))
      | Decided gi r \<Rightarrow> result_ok ro evs f gi r
      | _ \<Rightarrow> True)"

lemma phase_ok_mono: "phase_ok ro evs f fl \<Longrightarrow> phase_ok ro (evs @ [e]) f fl"
  by (auto simp: phase_ok_def result_ok_def split: flight_phase.splits)

lemma conclude_rules: "gr_source (conclude ro t0 gi None t) = FromRules"
  "gr_action (conclude ro t0 gi None t) = decideAction gi (rulesDecision gi) (ro_tAct ro)"
  by (simp_all add: conclude_def Let_def)

lemma conclude_ok:
  assumes "(\<exists>t. InputOk f gi t \<in> set evs)" "ro_adapter ro"
    and "\<And>raw. outcome = Answered raw \<Longrightarrow> \<exists>t. AdapterSettled f (Answered raw) t \<in> set evs"
  shows "result_ok ro evs f gi (conclude ro t0 gi (Some (decide GATE_QUESTIONS outcome)) t)"
proof (cases "decide GATE_QUESTIONS outcome")
  case (Inl k)
  then show ?thesis using assms(1) by (simp add: result_ok_def conclude_def Let_def)
next
  case (Inr res)
  then obtain raw where raw: "outcome = Answered raw" "validate GATE_QUESTIONS raw = Inr res"
    by (auto simp: decide_def split: adapter_outcome.splits sum.splits)
  have "gr_source (conclude ro t0 gi (Some (Inr res)) t) = FromAdapter"
    "gr_action (conclude ro t0 gi (Some (Inr res)) t) = decideAction gi (toGateDecision res) (ro_tAct ro)"
    by (simp_all add: conclude_def Let_def)
  then show ?thesis using raw assms Inr unfolding result_ok_def by metis
qed

definition flights_ok :: "runner_opts \<Rightarrow> runner_event list \<Rightarrow> runner_state \<Rightarrow> bool" where
  "flights_ok ro evs s \<longleftrightarrow> (\<forall>f < length (rs_flights s). phase_ok ro evs f (rs_flights s ! f))"

lemma flights_ok_mono: "flights_ok ro evs s \<Longrightarrow> rs_flights s' = rs_flights s \<Longrightarrow> flights_ok ro (evs @ [e]) s'"
  by (auto simp: flights_ok_def intro: phase_ok_mono)

lemma flights_ok_set_phase:
  assumes "flights_ok ro evs s" "phase_ok ro (evs @ [e]) f ((rs_flights s ! f)\<lparr>fl_phase := ph\<rparr>)"
  shows "flights_ok ro (evs @ [e]) (set_phase f ph s)"
  unfolding flights_ok_def
proof (intro allI impI)
  fix g assume g: "g < length (rs_flights (set_phase f ph s))"
  then have "phase_ok ro (evs @ [e]) g (rs_flights s ! g)"
    using assms(1) by (auto simp: flights_ok_def set_phase_def intro: phase_ok_mono)
  then show "phase_ok ro (evs @ [e]) g (rs_flights (set_phase f ph s) ! g)"
    using assms(2) g by (cases "g = f") (simp_all add: set_phase_def)
qed

lemma flights_ok_same: "flights_ok ro evs s \<Longrightarrow> rs_flights s' = rs_flights s \<Longrightarrow> flights_ok ro evs s'"
  by (simp add: flights_ok_def)

lemma phase_ok_new: "phase_ok ro evs f \<lparr>fl_key = key, fl_t0 = t, fl_phase = BuildingInput\<rparr>"
  by (simp add: phase_ok_def)

lemma decision_flights_ok:
  assumes "flights_ok ro evs s" "decision key t s = (f, s')"
  shows "flights_ok ro (evs @ [e]) s'"
proof (cases "rs_memo s key")
  case None
  then have "rs_flights s' = rs_flights s @ [\<lparr>fl_key = key, fl_t0 = t, fl_phase = BuildingInput\<rparr>]"
    using assms(2) by (auto simp: decision_def Let_def)
  then show ?thesis using flights_ok_mono [OF assms(1) refl] phase_ok_new
    by (auto simp: flights_ok_def nth_append less_Suc_eq)
qed (use assms in \<open>auto simp: decision_def intro: flights_ok_mono\<close>)

lemma adapter_done_flights_ok:
  assumes "flights_ok ro evs s" "\<And>raw. outcome = Answered raw \<Longrightarrow> \<exists>t. AdapterSettled f (Answered raw) t \<in> set (evs @ [e])"
  shows "flights_ok ro (evs @ [e]) (adapter_done ro f outcome t s)"
proof (cases "\<exists>gi d. phase_of s f = Some (AskingAdapter gi d)")
  case True
  then obtain gi d where ph: "phase_of s f = Some (AskingAdapter gi d)" by blast
  then have "phase_ok ro evs f (rs_flights s ! f)" "fl_phase (rs_flights s ! f) = AskingAdapter gi d"
    using assms(1) by (auto simp: flights_ok_def phase_of_def split: if_splits)
  then have "ro_adapter ro" "\<exists>t. InputOk f gi t \<in> set (evs @ [e])" by (auto simp: phase_ok_def)
  then have "result_ok ro (evs @ [e]) f gi (conclude ro t0 gi (Some (decide GATE_QUESTIONS outcome)) t)" for t0
    using assms(2) by (intro conclude_ok)
  then show ?thesis using ph assms(1) by (auto simp: adapter_done_def phase_ok_def intro!: flights_ok_set_phase)
next
  case False
  then have "adapter_done ro f outcome t s = s"
    by (auto simp: adapter_done_def split: option.split flight_phase.split)
  then show ?thesis using flights_ok_mono [OF assms(1)] by simp
qed

lemma runner_step_flights_ok:
  assumes "flights_ok ro evs s" shows "flights_ok ro (evs @ [e]) (runner_step ro s e)"
proof -
  note keep = flights_ok_mono [OF assms]
  show ?thesis
  proof (cases e)
    case (Gate c key actual t)
    have "flights_ok ro (evs @ [e]) (gate_call ro c key actual t s)"
      using flights_ok_same [OF decision_flights_ok [OF assms]] keep
      by (simp add: gate_call_def split: gate_mode.split prod.split)
    then show ?thesis using keep Gate by (simp add: runner_step_def)
  next
    case (InputOk f gi t)
    have "phase_ok ro (evs @ [e]) f ((rs_flights s ! f)\<lparr>fl_phase := AskingAdapter gi (t + max 1 (ro_timeoutMs ro - (t - fl_t0 (rs_flights s ! f))))\<rparr>)"
      if "ro_adapter ro" using that InputOk by (auto simp: phase_ok_def)
    moreover have "phase_ok ro (evs @ [e]) f ((rs_flights s ! f)\<lparr>fl_phase := Decided gi (conclude ro t0 gi None t)\<rparr>)" for t0
      using InputOk conclude_rules by (auto simp: phase_ok_def result_ok_def)
    ultimately show ?thesis using InputOk keep
      by (auto simp: runner_step_def input_done_def Let_def intro!: flights_ok_set_phase [OF assms])
  next
    case (AdapterSettled f outcome t)
    then show ?thesis by (auto simp: runner_step_def intro!: adapter_done_flights_ok [OF assms])
  next
    case (AdapterExpired f t)
    then show ?thesis using keep
      by (auto simp: runner_step_def intro!: adapter_done_flights_ok [OF assms] split: option.split flight_phase.split)
  qed (use keep in \<open>auto simp: runner_step_def phase_ok_def intro!: flights_ok_set_phase [OF assms] split: option.split flight_phase.split\<close>)
qed

section \<open>What a call gets\<close>

definition called :: "runner_event list \<Rightarrow> nat \<Rightarrow> string \<Rightarrow> bool" where
  "called evs c key \<longleftrightarrow> (\<exists>a t. Gate c key a t \<in> set evs)"

definition gave :: "runner_event list \<Rightarrow> nat \<Rightarrow> gate_action \<Rightarrow> bool" where
  "gave evs c actual \<longleftrightarrow> (\<exists>key t. Gate c key actual t \<in> set evs)"

text \<open>The answer of a call in mode on is that of a flight of its key.\<close>

definition answer_of :: "runner_event list \<Rightarrow> runner_state \<Rightarrow> nat \<Rightarrow> gate_action option \<Rightarrow> bool" where
  "answer_of evs s c ans \<longleftrightarrow> (\<exists>f < length (rs_flights s). called evs c (fl_key (rs_flights s ! f)) \<and>
     (case ans of
        Some a \<Rightarrow> \<exists>gi r. fl_phase (rs_flights s ! f) = Decided gi r \<and> gr_action r = a
      | None \<Rightarrow> \<exists>b. fl_phase (rs_flights s ! f) = InputFailed b))"

definition memo_ok :: "runner_state \<Rightarrow> bool" where
  "memo_ok s \<longleftrightarrow> (\<forall>key f. rs_memo s key = Some f \<longrightarrow> f < length (rs_flights s) \<and> fl_key (rs_flights s ! f) = key)"

definition waiting_ok :: "runner_event list \<Rightarrow> runner_state \<Rightarrow> bool" where
  "waiting_ok evs s \<longleftrightarrow> (\<forall>c f. rs_waiting s c = Some f \<longrightarrow>
     f < length (rs_flights s) \<and> called evs c (fl_key (rs_flights s ! f)))"

definition answers_ok :: "runner_opts \<Rightarrow> runner_event list \<Rightarrow> runner_state \<Rightarrow> bool" where
  "answers_ok ro evs s \<longleftrightarrow> (\<forall>c ans. rs_answers s c = Some ans \<longrightarrow>
     (case ro_mode ro of
        GateOff \<Rightarrow> ans = None
      | GateShadow \<Rightarrow> \<exists>a. gave evs c a \<and> ans = Some a
      | GateOn \<Rightarrow> answer_of evs s c ans))"

definition calls_ok :: "runner_opts \<Rightarrow> runner_event list \<Rightarrow> runner_state \<Rightarrow> bool" where
  "calls_ok ro evs s \<longleftrightarrow> memo_ok s \<and> waiting_ok evs s \<and> answers_ok ro evs s \<and>
     (ro_mode ro = GateOn \<or> rs_waiting s = Map.empty)"

lemma called_mono: "called evs c key \<Longrightarrow> called (evs @ [e]) c key"
  by (auto simp: called_def)

lemma gave_mono: "gave evs c a \<Longrightarrow> gave (evs @ [e]) c a"
  by (auto simp: gave_def)

lemma grows_key: "grows s s' \<Longrightarrow> f < length (rs_flights s) \<Longrightarrow>
    f < length (rs_flights s') \<and> fl_key (rs_flights s' ! f) = fl_key (rs_flights s ! f)"
  by (simp add: grows_def)

lemma answer_of_grows:
  assumes "answer_of evs s c ans" "grows s s'"
  shows "answer_of (evs @ [e]) s' c ans"
proof -
  obtain f where f: "f < length (rs_flights s)" "called evs c (fl_key (rs_flights s ! f))"
    and ph: "case ans of Some a \<Rightarrow> \<exists>gi r. fl_phase (rs_flights s ! f) = Decided gi r \<and> gr_action r = a
      | None \<Rightarrow> \<exists>b. fl_phase (rs_flights s ! f) = InputFailed b"
    using assms(1) unfolding answer_of_def by blast
  have "final (fl_phase (rs_flights s ! f))" using ph by (auto split: option.splits)
  then have "fl_phase (rs_flights s' ! f) = fl_phase (rs_flights s ! f)" using assms(2) f(1) by (simp add: grows_def)
  then show ?thesis using f(2) ph grows_key [OF assms(2) f(1)] called_mono
    unfolding answer_of_def by (intro exI [of _ f]) (cases ans; simp)
qed

lemma answer_of_same: "rs_flights s' = rs_flights s \<Longrightarrow> answer_of evs s' c ans = answer_of evs s c ans"
  by (cases ans) (simp_all add: answer_of_def)

lemma answers_ok_keep:
  assumes "answers_ok ro evs s" "grows s s'" "rs_answers s' = rs_answers s"
  shows "answers_ok ro (evs @ [e]) s'"
  using assms(1,3) answer_of_grows [OF _ assms(2)] gave_mono
  by (cases "ro_mode ro") (auto simp: answers_ok_def, blast)

lemma waiting_ok_keep:
  assumes "waiting_ok evs s" "grows s s'" "\<And>c f. rs_waiting s' c = Some f \<Longrightarrow> rs_waiting s c = Some f"
  shows "waiting_ok (evs @ [e]) s'"
  using assms grows_key [OF assms(2)] called_mono unfolding waiting_ok_def by metis

lemma memo_ok_keep:
  assumes "memo_ok s" "grows s s'" "\<And>key f. rs_memo s' key = Some f \<Longrightarrow> rs_memo s key = Some f"
  shows "memo_ok s'"
  using assms grows_key [OF assms(2)] unfolding memo_ok_def by metis

lemma set_phase_fields [simp]: "rs_memo (set_phase f ph s) = rs_memo s" "rs_waiting (set_phase f ph s) = rs_waiting s"
  "rs_answers (set_phase f ph s) = rs_answers s"
  by (simp_all add: set_phase_def)

lemma evict_fields: "rs_waiting (evict f s) = rs_waiting s" "rs_answers (evict f s) = rs_answers s"
  "rs_memo (evict f s) key = Some g \<Longrightarrow> rs_memo s key = Some g"
  by (auto simp: evict_def Let_def split: if_splits)

lemma adapter_done_fields [simp]: "rs_memo (adapter_done ro f outcome t s) = rs_memo s"
  "rs_waiting (adapter_done ro f outcome t s) = rs_waiting s" "rs_answers (adapter_done ro f outcome t s) = rs_answers s"
  by (simp_all add: adapter_done_def split: option.split flight_phase.split)

lemma quiet_step_calls_ok:
  assumes "calls_ok ro evs s" "runner_step ro s e = s'"
    "\<And>c f. rs_waiting s' c = Some f \<Longrightarrow> rs_waiting s c = Some f" "rs_answers s' = rs_answers s"
    "\<And>key f. rs_memo s' key = Some f \<Longrightarrow> rs_memo s key = Some f"
  shows "calls_ok ro (evs @ [e]) s'"
proof -
  have "grows s s'" using runner_step_grows [of s ro e] assms(2) by simp
  then show ?thesis using assms answers_ok_keep [of ro evs s s' e] waiting_ok_keep [of evs s s' e] memo_ok_keep [of s s']
    unfolding calls_ok_def by (metis not_Some_eq ext)
qed

lemma decision_facts:
  assumes "decision key t s = (f, s')" "memo_ok s"
  shows "memo_ok s'" "f < length (rs_flights s')" "fl_key (rs_flights s' ! f) = key"
    "rs_waiting s' = rs_waiting s" "rs_answers s' = rs_answers s"
  using assms by (auto simp: decision_def memo_ok_def nth_append Let_def less_Suc_eq split: option.splits if_splits)

lemma gate_call_calls_ok:
  assumes ok: "calls_ok ro evs s" and e: "e = Gate c key actual t"
  shows "calls_ok ro (evs @ [e]) (gate_call ro c key actual t s)"
proof -
  obtain f s' where d: "decision key t s = (f, s')" by fastforce
  have memo: "memo_ok s" and wait: "waiting_ok evs s" and ans: "answers_ok ro evs s"
    and idle: "ro_mode ro = GateOn \<or> rs_waiting s = Map.empty"
    using ok by (simp_all add: calls_ok_def)
  note df = decision_facts [OF d memo]
  have g: "grows s s'" using decision_grows [OF d] .
  have here: "called (evs @ [e]) c key" "gave (evs @ [e]) c actual" using e by (auto simp: called_def gave_def)
  have wait': "waiting_ok (evs @ [e]) s'" by (rule waiting_ok_keep [OF wait g]) (simp add: df)
  have ans': "answers_ok ro (evs @ [e]) s'" by (rule answers_ok_keep [OF ans g]) (simp add: df)
  show ?thesis
  proof (cases "ro_mode ro")
    case GateOff
    then show ?thesis using idle memo waiting_ok_keep [OF wait grows_refl] answers_ok_keep [OF ans grows_refl refl]
      by (auto simp: gate_call_def calls_ok_def memo_ok_def waiting_ok_def answers_ok_def)
  next
    case GateShadow
    then show ?thesis using idle df wait' ans' d here(2)
      by (auto simp: gate_call_def calls_ok_def memo_ok_def waiting_ok_def answers_ok_def)
  next
    case GateOn
    let ?s = "s'\<lparr>rs_waiting := (rs_waiting s')(c \<mapsto> f)\<rparr>"
    have "memo_ok ?s" using df(1) by (simp add: memo_ok_def)
    moreover have "waiting_ok (evs @ [e]) ?s" using wait' df(2,3) here(1) by (simp add: waiting_ok_def)
    moreover have "answers_ok ro (evs @ [e]) ?s"
      using ans' GateOn by (simp add: answers_ok_def answer_of_same [of ?s s'])
    ultimately show ?thesis using GateOn d by (simp add: gate_call_def calls_ok_def)
  qed
qed

lemma resume_calls_ok:
  assumes "calls_ok ro evs s" shows "calls_ok ro (evs @ [Resume c]) (resume c s)"
proof (cases "rs_waiting s c")
  case None
  then show ?thesis using quiet_step_calls_ok [OF assms refl, of "Resume c"]
    by (simp add: runner_step_def resume_def)
next
  case (Some f)
  have memo: "memo_ok s" and wait: "waiting_ok evs s" and ans: "answers_ok ro evs s"
    using assms by (simp_all add: calls_ok_def)
  have f: "f < length (rs_flights s)" "called evs c (fl_key (rs_flights s ! f))"
    using wait Some unfolding waiting_ok_def by auto
  consider (fin) x where "resume c s = s\<lparr>rs_waiting := (rs_waiting s)(c := None), rs_answers := (rs_answers s)(c \<mapsto> x)\<rparr>"
      "case x of Some a \<Rightarrow> \<exists>gi r. fl_phase (rs_flights s ! f) = Decided gi r \<and> gr_action r = a
       | None \<Rightarrow> \<exists>b. fl_phase (rs_flights s ! f) = InputFailed b"
    | (still) "resume c s = s"
    using Some f(1) by (cases "fl_phase (rs_flights s ! f)") (auto simp: resume_def phase_of_def)
  then show ?thesis
  proof cases
    case fin
    let ?r = "s\<lparr>rs_waiting := (rs_waiting s)(c := None), rs_answers := (rs_answers s)(c \<mapsto> x)\<rparr>"
    have here: "answer_of (evs @ [Resume c]) (resume c s) c x"
      using f fin(2) called_mono [OF f(2)] unfolding answer_of_def resume_flights by blast
    have on: "ro_mode ro = GateOn" using assms Some by (auto simp: calls_ok_def)
    have "answers_ok ro (evs @ [Resume c]) s" by (rule answers_ok_keep [OF ans grows_refl refl])
    then have "answers_ok ro (evs @ [Resume c]) (resume c s)"
      using here on by (simp add: answers_ok_def fin(1) answer_of_same [of ?r s])
    moreover have "waiting_ok (evs @ [Resume c]) (resume c s)"
      by (rule waiting_ok_keep [OF wait grows_same]) (auto simp: fin(1) split: if_splits)
    moreover have "memo_ok (resume c s)" using memo by (simp add: memo_ok_def fin(1))
    ultimately show ?thesis using on by (simp add: calls_ok_def)
  next
    case still
    then show ?thesis using quiet_step_calls_ok [OF assms refl, of "Resume c"] by (simp add: runner_step_def)
  qed
qed

lemma runner_step_calls_ok:
  assumes "calls_ok ro evs s" shows "calls_ok ro (evs @ [e]) (runner_step ro s e)"
proof -
  note quiet = quiet_step_calls_ok [OF assms refl, of e]
  show ?thesis
  proof (cases e)
    case (Gate c key actual t)
    show ?thesis
    proof (cases "rs_waiting s c = None \<and> rs_answers s c = None")
      case True
      then show ?thesis using gate_call_calls_ok [OF assms Gate] Gate by (simp add: runner_step_def)
    next
      case False
      then have "runner_step ro s e = s" by (auto simp: Gate runner_step_def)
      then show ?thesis using quiet by simp
    qed
  next
    case (Resume c)
    then show ?thesis using resume_calls_ok [OF assms] by (simp add: runner_step_def)
  next
    case (EvictFailed f)
    have same: "rs_waiting (runner_step ro s e) = rs_waiting s" "rs_answers (runner_step ro s e) = rs_answers s"
      by (simp_all add: EvictFailed runner_step_def evict_fields(1,2) split: option.split flight_phase.split)
    have "rs_memo (runner_step ro s e) key = Some g \<Longrightarrow> rs_memo s key = Some g" for key g
      by (auto simp: EvictFailed runner_step_def dest: evict_fields(3) split: option.splits flight_phase.splits)
    then show ?thesis by (intro quiet) (simp_all add: same)
  next
    case (TtlExpired f)
    then show ?thesis by (intro quiet) (auto simp: runner_step_def evict_fields(1,2) dest: evict_fields(3) split: if_splits)
  next
    case (InputOk f gi t)
    then show ?thesis by (intro quiet) (auto simp: runner_step_def input_done_def Let_def split: if_splits)
  next
    case (InputThrew f)
    then show ?thesis by (intro quiet) (auto simp: runner_step_def split: if_splits)
  next
    case (InputExpired f t)
    then show ?thesis by (intro quiet) (auto simp: runner_step_def split: if_splits)
  next
    case (AdapterSettled f outcome t)
    then show ?thesis by (intro quiet) (auto simp: runner_step_def)
  next
    case (AdapterExpired f t)
    have same: "rs_memo (runner_step ro s e) = rs_memo s" "rs_waiting (runner_step ro s e) = rs_waiting s"
      "rs_answers (runner_step ro s e) = rs_answers s"
      by (simp_all add: AdapterExpired runner_step_def split: option.split flight_phase.split)
    show ?thesis by (intro quiet) (simp_all add: same)
  qed
qed

lemma runner_run_ok: "flights_ok ro evs (runner_run ro evs) \<and> calls_ok ro evs (runner_run ro evs)"
proof (induction evs rule: rev_induct)
  case Nil
  then show ?case
    by (simp add: runner_run_def runner_start_def flights_ok_def calls_ok_def memo_ok_def waiting_ok_def answers_ok_def)
next
  case (snoc e evs)
  then show ?case using runner_step_flights_ok runner_step_calls_ok
    by (simp add: runner_run_def run_steps_append)
qed

section \<open>The runner's promises\<close>

lemma rules_run: "ro_tAct ro \<le> 1 \<Longrightarrow> gi_mentionsAgent gi \<or> gi_engaged gi \<Longrightarrow>
    decideAction gi (rulesDecision gi) (ro_tAct ro) = ActRun"
  by (auto simp: decideAction_def rulesDecision_def sure_def Let_def)

lemma rules_record: "\<not> gi_mentionsAgent gi \<Longrightarrow> \<not> gi_engaged gi \<Longrightarrow>
    decideAction gi (rulesDecision gi) (ro_tAct ro) = ActRecord"
  by (simp add: decideAction_def)

lemma answered_flight:
  assumes "ro_mode ro = GateOn" "rs_answers (runner_run ro evs) c = Some (Some a)"
  obtains f gi r where "f < length (rs_flights (runner_run ro evs))"
    "called evs c (fl_key (rs_flights (runner_run ro evs) ! f))" "gr_action r = a" "result_ok ro evs f gi r"
proof -
  have "answer_of evs (runner_run ro evs) c (Some a)"
    using runner_run_ok [of ro evs] assms by (simp add: calls_ok_def answers_ok_def)
  then obtain f gi r where f: "f < length (rs_flights (runner_run ro evs))"
      "called evs c (fl_key (rs_flights (runner_run ro evs) ! f))" "fl_phase (rs_flights (runner_run ro evs) ! f) = Decided gi r"
      "gr_action r = a"
    unfolding answer_of_def by auto
  have "phase_ok ro evs f (rs_flights (runner_run ro evs) ! f)"
    using runner_run_ok [of ro evs] f(1) by (simp add: flights_ok_def)
  then show ?thesis using f that by (simp add: phase_ok_def)
qed

text \<open>C30: With the gate on and a threshold of at most one, a message is not run only for a reason: some
  flight of its key built the input, and either the message neither mentions the agent nor is in a
  thread the agent is engaged in (then it is recorded), or an answer of the adapter passed every check
  and the policy says so over it. So an error of the adapter, a timeout, an answer that is incomplete,
  undeclared or out of range, is never read as a no.\<close>

theorem silence_needs_valid_answer:
  assumes on: "ro_mode ro = GateOn" and "ro_tAct ro \<le> 1"
    and answer: "rs_answers (runner_run ro evs) c = Some (Some a)" and "a \<noteq> ActRun"
  shows "\<exists>f gi t. called evs c (fl_key (rs_flights (runner_run ro evs) ! f)) \<and> InputOk f gi t \<in> set evs \<and>
    (\<not> gi_mentionsAgent gi \<and> \<not> gi_engaged gi \<and> a = ActRecord \<or>
     (\<exists>raw res t'. AdapterSettled f (Answered raw) t' \<in> set evs \<and> validate GATE_QUESTIONS raw = Inr res \<and>
        a = decideAction gi (toGateDecision res) (ro_tAct ro)))"
proof -
  from answered_flight [OF on answer] obtain f gi r where f: "called evs c (fl_key (rs_flights (runner_run ro evs) ! f))"
    "gr_action r = a" "result_ok ro evs f gi r" by metis
  show ?thesis
  proof (cases "gi_mentionsAgent gi \<or> gi_engaged gi")
    case True
    then show ?thesis using f assms(4) rules_run [OF assms(2) True] unfolding result_ok_def by metis
  next
    case False
    then show ?thesis using f rules_record [of gi ro] unfolding result_ok_def by metis
  qed
qed

text \<open>Off and shadow never change what happens to a message.\<close>

lemma off_and_shadow_inert:
  "ro_mode ro = GateOff \<Longrightarrow> rs_answers (runner_run ro evs) c = Some ans \<Longrightarrow> ans = None"
  "ro_mode ro = GateShadow \<Longrightarrow> rs_answers (runner_run ro evs) c = Some ans \<Longrightarrow> \<exists>a. gave evs c a \<and> ans = Some a"
  using runner_run_ok [of ro evs] by (simp_all add: calls_ok_def answers_ok_def)

text \<open>No call waits longer than the time limit and one millisecond: once the two timers of its
  flight have fired, whatever the builder and the adapter did or did not do, it has an answer.\<close>

theorem gate_answers_in_time:
  assumes "rs_waiting (runner_run ro evs) c = Some f" and "0 \<le> ro_timeoutMs ro"
    and on_time: "\<And>gi t. InputOk f gi t \<in> set evs \<Longrightarrow> t \<le> fl_t0 (rs_flights (runner_run ro evs) ! f) + ro_timeoutMs ro"
    and "fl_t0 (rs_flights (runner_run ro evs) ! f) + ro_timeoutMs ro + 1 \<le> t"
  shows "rs_answers (runner_run ro (evs @ [InputExpired f t, AdapterExpired f t, Resume c])) c \<noteq> None"
proof -
  let ?s = "runner_run ro evs"
  have f: "f < length (rs_flights ?s)" and ok: "phase_ok ro evs f (rs_flights ?s ! f)"
    using runner_run_ok [of ro evs] assms(1) by (auto simp: calls_ok_def waiting_ok_def flights_ok_def)
  have run: "runner_run ro (evs @ [InputExpired f t, AdapterExpired f t, Resume c])
      = resume c (runner_step ro (runner_step ro ?s (InputExpired f t)) (AdapterExpired f t))"
    by (simp add: runner_run_def run_steps_append runner_step_def)
  show ?thesis
  proof (cases "fl_phase (rs_flights ?s ! f)")
    case BuildingInput
    then show ?thesis using f assms(1,4)
      by (simp add: run runner_step_def phase_of_def set_phase_def resume_def)
  next
    case (AskingAdapter gi d)
    then obtain t1 where t1: "InputOk f gi t1 \<in> set evs" "d = t1 + max 1 (ro_timeoutMs ro - (t1 - fl_t0 (rs_flights ?s ! f)))"
      using ok by (auto simp: phase_ok_def)
    have "d \<le> t" using on_time [OF t1(1)] t1(2) assms(4) by (simp add: max_def)
    then show ?thesis using f assms(1) AskingAdapter
      by (simp add: run runner_step_def phase_of_def set_phase_def resume_def adapter_done_def)
  next
    case (Decided gi r)
    then show ?thesis using f assms(1) by (simp add: run runner_step_def phase_of_def resume_def)
  next
    case (InputFailed b)
    then show ?thesis using f assms(1) by (simp add: run runner_step_def phase_of_def resume_def)
  qed
qed

section \<open>One decision for a message\<close>

fun evicts :: "runner_event \<Rightarrow> bool" where
  "evicts (EvictFailed f) = True"
| "evicts (TtlExpired f) = True"
| "evicts _ = False"

text \<open>While nothing is evicted every flight is the one its key is remembered with.\<close>

definition all_remembered :: "runner_state \<Rightarrow> bool" where
  "all_remembered s \<longleftrightarrow> (\<forall>f < length (rs_flights s). rs_memo s (fl_key (rs_flights s ! f)) = Some f)"

lemma all_remembered_keep:
  assumes "all_remembered s" "grows s s'" "length (rs_flights s') = length (rs_flights s)" "rs_memo s' = rs_memo s"
  shows "all_remembered s'"
  using assms by (simp add: all_remembered_def grows_def)

lemma decision_remembered:
  assumes "all_remembered s" "decision key t s = (f, s')" shows "all_remembered s'"
  using assms by (auto simp: decision_def all_remembered_def nth_append less_Suc_eq Let_def split: option.splits)

lemma set_phase_length [simp]: "length (rs_flights (set_phase f ph s)) = length (rs_flights s)"
  by (simp add: set_phase_def)

lemma adapter_done_length [simp]: "length (rs_flights (adapter_done ro f outcome t s)) = length (rs_flights s)"
  by (simp add: adapter_done_def split: option.split flight_phase.split)

lemma resume_memo [simp]: "rs_memo (resume c s) = rs_memo s"
  by (auto simp: resume_def split: option.split flight_phase.split)

lemma quiet_memo:
  assumes "\<not> evicts e" "\<And>c key a t. e \<noteq> Gate c key a t"
  shows "rs_memo (runner_step ro s e) = rs_memo s \<and> length (rs_flights (runner_step ro s e)) = length (rs_flights s)"
proof (cases e)
  case (Gate c key a t)
  then show ?thesis using assms(2) by blast
qed (use assms(1) in \<open>simp_all add: runner_step_def input_done_def Let_def split: option.split flight_phase.split\<close>)

lemma gate_call_remembered:
  assumes "all_remembered s" shows "all_remembered (gate_call ro c key actual t s)"
proof -
  obtain f s' where d: "decision key t s = (f, s')" by fastforce
  then have "all_remembered s'" using decision_remembered [OF assms] by blast
  then show ?thesis using assms d by (auto simp: gate_call_def all_remembered_def split: gate_mode.split)
qed

lemma runner_step_remembered:
  assumes "all_remembered s" "\<not> evicts e" shows "all_remembered (runner_step ro s e)"
proof (cases "\<exists>c key a t. e = Gate c key a t")
  case True
  then show ?thesis using assms(1) gate_call_remembered by (auto simp: runner_step_def)
next
  case False
  then show ?thesis using all_remembered_keep [OF assms(1) runner_step_grows] quiet_memo [OF assms(2)] by metis
qed

lemma run_remembered: "list_all (\<lambda>e. \<not> evicts e) evs \<Longrightarrow> all_remembered (runner_run ro evs)"
proof (induction evs rule: rev_induct)
  case Nil
  show ?case by (simp add: runner_run_def runner_start_def all_remembered_def)
next
  case (snoc e evs)
  then show ?case using runner_step_remembered by (simp add: runner_run_def run_steps_append)
qed

definition phase_answer :: "flight_phase \<Rightarrow> gate_action option" where
  "phase_answer ph = (case ph of Decided gi r \<Rightarrow> Some (gr_action r) | _ \<Rightarrow> None)"

lemma answer_ofE:
  assumes "answer_of evs s c ans"
  obtains f where "f < length (rs_flights s)" "called evs c (fl_key (rs_flights s ! f))" "ans = phase_answer (fl_phase (rs_flights s ! f))"
  using assms unfolding answer_of_def phase_answer_def by (cases ans) auto

lemma calls_share_decision:
  assumes on: "ro_mode ro = GateOn" and kept: "list_all (\<lambda>e. \<not> evicts e) evs"
    and once: "\<And>k. called evs c k \<Longrightarrow> k = key" "\<And>k. called evs c' k \<Longrightarrow> k = key"
    and ans: "rs_answers (runner_run ro evs) c = Some x" "rs_answers (runner_run ro evs) c' = Some y"
  shows "x = y"
proof -
  let ?s = "runner_run ro evs"
  have "answer_of evs ?s c x" "answer_of evs ?s c' y"
    using runner_run_ok [of ro evs] on ans by (simp_all add: calls_ok_def answers_ok_def)
  then obtain f g where f: "f < length (rs_flights ?s)" "fl_key (rs_flights ?s ! f) = key" "x = phase_answer (fl_phase (rs_flights ?s ! f))"
    and g: "g < length (rs_flights ?s)" "fl_key (rs_flights ?s ! g) = key" "y = phase_answer (fl_phase (rs_flights ?s ! g))"
    using once by (metis answer_ofE)
  have "f = g" using run_remembered [OF kept, of ro] f(1,2) g(1,2) unfolding all_remembered_def by (metis option.inject)
  then show ?thesis using f(3) g(3) by simp
qed

section \<open>Checked answers\<close>

lemma check_answers_sound:
  assumes "check_answers qs r = Inr res"
  shows "map fst res = map dq_id qs \<and> (\<forall>(i, c, x) \<in> set res. 0 \<le> x \<and> x \<le> 1 \<and> (\<exists>q \<in> set qs. dq_id q = i \<and> c \<in> set (dq_options q)))"
  using assms
proof (induction qs arbitrary: res)
  case (Cons q qs)
  then obtain c x rest where cx: "check_answer q (map_of r (dq_id q)) = Inr (c, x)"
    "check_answers qs r = Inr rest" "res = (dq_id q, c, x) # rest"
    by (auto split: sum.splits)
  have "0 \<le> x \<and> x \<le> 1 \<and> c \<in> set (dq_options q)"
    using cx(1) by (auto simp: check_answer_def split: option.splits raw.splits if_splits)
  then show ?case using Cons.IH [OF cx(2)] cx(3) by fastforce
qed simp

lemma validated_answers:
  assumes "validate GATE_QUESTIONS raw = Inr res"
  shows "map fst res = [''addressedToAgent'', ''isQuestionOrRequest'', ''agentCanHelp'', ''alreadyAnswered'']"
    and "(i, c, x) \<in> set res \<Longrightarrow> 0 \<le> x \<and> x \<le> 1 \<and> (c = ''yes'' \<or> c = ''no'')"
proof -
  obtain r where r: "check_answers GATE_QUESTIONS r = Inr res"
    using assms by (auto simp: validate_def split: raw.splits if_splits)
  show "map fst res = [''addressedToAgent'', ''isQuestionOrRequest'', ''agentCanHelp'', ''alreadyAnswered'']"
    using check_answers_sound [OF r] by (simp add: GATE_QUESTIONS_def)
  show "(i, c, x) \<in> set res \<Longrightarrow> 0 \<le> x \<and> x \<le> 1 \<and> (c = ''yes'' \<or> c = ''no'')"
    using check_answers_sound [OF r] by (auto simp: GATE_QUESTIONS_def)
qed

section \<open>The configured adapter\<close>

text \<open>\<open>factories\<close> maps the registered types to what their factory makes of a block (\<open>None\<close> when it
  throws).\<close>

definition adapterFromConfig :: "(string \<rightharpoonup> ((string \<times> json) list \<Rightarrow> 'a option)) \<Rightarrow> json option \<Rightarrow> 'a option" where
  "adapterFromConfig factories block =
     (case block of
        None \<Rightarrow> None
      | Some (JObj b) \<Rightarrow>
          let type = (case jfield ''type'' b of Some (JStr t) \<Rightarrow> t | _ \<Rightarrow> []) in
          (case factories type of None \<Rightarrow> None | Some factory \<Rightarrow> factory b)
      | Some _ \<Rightarrow> None)"

text \<open>\<open>gateRunnerFromEnv\<close> after the configuration was read: a gate that is off has no adapter.\<close>

definition gateRunner :: "(string \<rightharpoonup> ((string \<times> json) list \<Rightarrow> 'a option)) \<Rightarrow> gate_mode \<Rightarrow> rat \<Rightarrow> int \<Rightarrow> json option \<Rightarrow> runner_opts" where
  "gateRunner factories mode tAct timeoutMs block =
     \<lparr>ro_mode = mode, ro_adapter = (mode \<noteq> GateOff \<and> adapterFromConfig factories block \<noteq> None),
      ro_tAct = tAct, ro_timeoutMs = timeoutMs\<rparr>"

section \<open>Runs on concrete events\<close>

definition demo_input :: gate_input where
  "demo_input = \<lparr>gi_message = ''hi'', gi_recent = [], gi_mentionsAgent = True, gi_engaged = False,
     gi_kbHitScore = None, gi_channelTrust = Trusted\<rparr>"

definition demo_answer :: "string \<Rightarrow> rat \<Rightarrow> raw" where
  "demo_answer c x = RawObj (map (\<lambda>q. (dq_id q, RawObj [(''choice'', RawStr c), (''confidence'', RawNum (Some x))])) GATE_QUESTIONS)"

definition demo_opts :: runner_opts where
  "demo_opts = \<lparr>ro_mode = GateOn, ro_adapter = True, ro_tAct = 4/5, ro_timeoutMs = 800\<rparr>"

definition demo_events :: "adapter_outcome \<Rightarrow> runner_event list" where
  "demo_events outcome = [Gate 1 ''C1:1'' ActRun 0, InputOk 0 demo_input 100, AdapterSettled 0 outcome 300, Resume 1]"

lemmas demo_run = demo_events_def runner_run_def runner_start_def runner_step_def gate_call_def decision_def
  demo_opts_def phase_of_def input_done_def set_phase_def adapter_done_def resume_def Let_def

lemma demo_no: "rs_answers (runner_run demo_opts (demo_events (Answered (demo_answer ''no'' 1)))) 1 = Some (Some ActRecordDoubt)"
  by (simp add: demo_run conclude_def decide_def validate_def demo_answer_def GATE_QUESTIONS_def check_answer_def
      toGateDecision_def pick_def decideAction_def sure_def demo_input_def)

lemma demo_broken: "rs_answers (runner_run demo_opts (demo_events (Answered (demo_answer ''no'' 2)))) 1 = Some (Some ActRun)"
  by (simp add: demo_run conclude_def decide_def validate_def demo_answer_def GATE_QUESTIONS_def check_answer_def
      rulesDecision_def decideAction_def sure_def demo_input_def)

theorem silence_needs_valid_answer_witness:
  "\<exists>raw res t. AdapterSettled 0 (Answered raw) t \<in> set (demo_events (Answered (demo_answer ''no'' 1)))
     \<and> validate GATE_QUESTIONS raw = Inr res \<and> \<not> an_value (addressedToAgent (toGateDecision res))"
proof -
  have "ro_mode demo_opts = GateOn" "ro_tAct demo_opts \<le> 1" by (simp_all add: demo_opts_def)
  from silence_needs_valid_answer [OF this demo_no]
  obtain f gi t raw res t' where *: "InputOk f gi t \<in> set (demo_events (Answered (demo_answer ''no'' 1)))"
    "AdapterSettled f (Answered raw) t' \<in> set (demo_events (Answered (demo_answer ''no'' 1)))"
    "validate GATE_QUESTIONS raw = Inr res" by (auto simp: demo_events_def demo_input_def)
  have "\<not> an_value (addressedToAgent (toGateDecision res))"
    using *(2,3) by (auto simp: demo_events_def validate_def demo_answer_def GATE_QUESTIONS_def check_answer_def
        toGateDecision_def pick_def)
  then show ?thesis using * by (auto simp: demo_events_def)
qed

theorem gate_answers_in_time_witness:
  "rs_answers (runner_run demo_opts ([Gate 1 ''C1:1'' ActRun 0] @ [InputExpired 0 801, AdapterExpired 0 801, Resume 1])) 1 \<noteq> None"
  by (rule gate_answers_in_time) (simp_all add: demo_run)

end
