(* ===== verification/Approvers.thy ===== *)
theory Approvers
  imports AccessFacts
begin

text \<open>
  Who may decide an approval: the approver section of a SOUL text and its legacy form
  (\<^verbatim>\<open>src/soul/loader.ts\<close>), the match of a request's words with an approver's scope, and the choice of
  \<open>#resolveApprovers\<close> in \<^verbatim>\<open>src/gateway/slack/approval-gate.ts\<close>. The JSON parser and the loaders of souls and
  grants are parameters.
\<close>

section \<open>Words\<close>

definition is_word :: "char \<Rightarrow> bool" where
  "is_word c \<longleftrightarrow> is_alnum c \<or> c = CHR ''_''"

text \<open>\<open>\b\<close> between a character and the rest.\<close>

definition word_boundary :: "char \<Rightarrow> string \<Rightarrow> bool" where
  "word_boundary c rest \<longleftrightarrow> is_word c \<noteq> (rest \<noteq> [] \<and> is_word (hd rest))"

definition stopwords :: "string list" where
  "stopwords = [''and'', ''or'', ''the'', ''a'', ''an'', ''to'', ''of'', ''in'', ''on'', ''for'', ''with'',
     ''any'', ''all'', ''etc'', ''via'', ''into'', ''from'', ''by'', ''as'', ''at'', ''is'',
     ''are'', ''be'', ''this'', ''that'', ''these'', ''those'', ''it'', ''its'']"

text \<open>\<open>raw.replace(/(?:s|es|ing|ed)$/, "")\<close>: the leftmost match is the longest ending.\<close>

definition stem :: "string \<Rightarrow> string" where
  "stem w = (if suffix ''ing'' w then take (length w - 3) w
     else if suffix ''es'' w \<or> suffix ''ed'' w then take (length w - 2) w
     else if suffix ''s'' w then take (length w - 1) w else w)"

definition tokenize :: "string \<Rightarrow> string list" where
  "tokenize s =
     map stem (filter (\<lambda>w. length (stem w) \<ge> 3 \<and> w \<notin> set stopwords \<and> stem w \<notin> set stopwords)
       (split_on CHR '' '' (map (\<lambda>c. if is_lower c \<or> is_digit c then c else CHR '' '') (js_lower s))))"

section \<open>Slack ids in a text\<close>

definition id_char :: "char \<Rightarrow> bool" where
  "id_char c \<longleftrightarrow> is_upper c \<or> is_digit c"

text \<open>\<open><@([UW][A-Z0-9]+)>\<close> at the start: the id and what follows.\<close>

definition mention_at :: "string \<Rightarrow> (string \<times> string) option" where
  "mention_at s =
     (if \<not> prefix ''<@'' s then None
      else let t = drop 2 s; i = takeWhile id_char t; rest = dropWhile id_char t
           in if length i \<ge> 2 \<and> hd i \<in> {CHR ''U'', CHR ''W''} \<and> rest \<noteq> [] \<and> hd rest = CHR ''>'' then Some (i, tl rest) else None)"

text \<open>\<open>\b([UW][A-Z0-9]{6,})\b\<close> at the start, after a character that is (or is not) of a word.\<close>

definition raw_id_at :: "bool \<Rightarrow> string \<Rightarrow> (string \<times> string) option" where
  "raw_id_at after_word s =
     (let i = takeWhile id_char s; rest = dropWhile id_char s
      in if \<not> after_word \<and> length i \<ge> 7 \<and> hd i \<in> {CHR ''U'', CHR ''W''} \<and> \<not> (rest \<noteq> [] \<and> is_word (hd rest))
         then Some (i, rest) else None)"

lemma mention_at_shorter: "mention_at s = Some (i, rest) \<Longrightarrow> length rest < length s"
  using length_dropWhile_le [of id_char "drop 2 s"]
  by (cases s) (auto simp: mention_at_def Let_def split: if_splits)

lemma raw_id_at_shorter:
  assumes "raw_id_at w s = Some (i, rest)" shows "length rest < length s"
proof -
  have "length (takeWhile id_char s) \<ge> 7" "rest = dropWhile id_char s"
    using assms by (auto simp: raw_id_at_def Let_def split: if_splits)
  moreover have "length (takeWhile id_char s) + length (dropWhile id_char s) = length s"
    by (metis length_append takeWhile_dropWhile_id)
  ultimately show ?thesis by simp
qed

function scan_ids :: "bool \<Rightarrow> string \<Rightarrow> string list" where
  "scan_ids after_word [] = []"
| "scan_ids after_word (c # s) =
     (case mention_at (c # s) of
        Some (i, rest) \<Rightarrow> i # scan_ids False rest
      | None \<Rightarrow> (case raw_id_at after_word (c # s) of
            Some (i, rest) \<Rightarrow> i # scan_ids True rest
          | None \<Rightarrow> scan_ids (is_word c) s))"
  by pat_completeness auto
termination
  by (relation "measure (\<lambda>(_, s). length s)") (auto dest!: mention_at_shorter raw_id_at_shorter)

definition extractSlackUserIds :: "string \<Rightarrow> string list" where
  "extractSlackUserIds s = fresh_by id [] (scan_ids False s)"

section \<open>The approver section\<close>

text \<open>\<open>/^#{1,6}\s/\<close> and \<open>/^#{1,6}\s+Approvers\b/i\<close>.\<close>

definition heading_text :: "string \<Rightarrow> string option" where
  "heading_text line =
     (let n = length (takeWhile (\<lambda>c. c = CHR ''#'') line); rest = drop n line
      in if 1 \<le> n \<and> n \<le> 6 \<and> rest \<noteq> [] \<and> is_space (hd rest) then Some (dropWhile is_space rest) else None)"

definition approvers_heading :: "string \<Rightarrow> bool" where
  "approvers_heading line \<longleftrightarrow> (case heading_text line of
     Some t \<Rightarrow> prefix ''approvers'' (js_lower t) \<and> word_boundary CHR ''s'' (drop 9 t)
   | None \<Rightarrow> False)"

definition section_lines :: "string \<Rightarrow> string list option" where
  "section_lines soul =
     (case dropWhile (\<lambda>l. \<not> approvers_heading l) (split_on (CHR 0x0A) soul) of
        [] \<Rightarrow> None
      | _ # rest \<Rightarrow> Some (takeWhile (\<lambda>l. heading_text l = None) rest))"

definition strip_bullet :: "string \<Rightarrow> string" where
  "strip_bullet raw =
     (case dropWhile is_space raw of
        c # r \<Rightarrow> if c = CHR ''-'' \<or> c = CHR ''*'' then dropWhile is_space r else raw
      | [] \<Rightarrow> raw)"

definition clean_line :: "string \<Rightarrow> string" where
  "clean_line raw = js_trim (hd (split_on CHR '';'' (strip_bullet raw)))"

text \<open>\<open>/^(anything|any|all|\*|default|catchall|everything)\b/i\<close>. After the star the boundary asks for a
  word character.\<close>

definition catchall_scope :: "string \<Rightarrow> bool" where
  "catchall_scope scope \<longleftrightarrow>
     list_ex (\<lambda>w. prefix w (js_lower scope) \<and> word_boundary (last w) (drop (length w) scope))
       [''anything'', ''any'', ''all'', ''*'', ''default'', ''catchall'', ''everything'']"

definition entries_of_line :: "string \<Rightarrow> approver_entry list" where
  "entries_of_line raw =
     (let line = clean_line raw; left = takeWhile (\<lambda>c. c \<noteq> CHR '':'') line;
          scope = js_trim (drop (Suc (length left)) line)
      in if CHR '':'' \<notin> set line then []
         else map (\<lambda>i. \<lparr>ae_userId = i, ae_scope = scope, ae_catchall = catchall_scope scope\<rparr>) (extractSlackUserIds left))"

definition loadApproverEntries :: "string \<Rightarrow> approver_entry list option" where
  "loadApproverEntries soul =
     (case section_lines soul of
        None \<Rightarrow> None
      | Some ls \<Rightarrow> let out = concat (map entries_of_line ls) in if out = [] then None else Some out)"

section \<open>Whose scope a request falls in\<close>

definition eligible :: "string list \<Rightarrow> approver_entry \<Rightarrow> bool" where
  "eligible promptTokens e \<longleftrightarrow> ae_catchall e \<or> list_ex (\<lambda>t. t \<in> set promptTokens) (tokenize (ae_scope e))"

definition selectApproversFrom :: "approver_entry list \<Rightarrow> string \<Rightarrow> string option \<Rightarrow> string list" where
  "selectApproversFrom entries summary hint =
     (let promptTokens = tokenize (summary @ '' '' @ (case hint of Some h \<Rightarrow> h | None \<Rightarrow> []));
          out = fresh_by id [] (map ae_userId (filter (eligible promptTokens) entries))
      in if out \<noteq> [] then out else fresh_by id [] (map ae_userId entries))"

definition selectApprovers :: "string \<Rightarrow> string \<Rightarrow> string option \<Rightarrow> string list" where
  "selectApprovers soul summary hint =
     (case loadApproverEntries soul of None \<Rightarrow> [] | Some es \<Rightarrow> selectApproversFrom es summary hint)"

section \<open>The legacy forms\<close>

text \<open>\<open>/^([A-Za-z][A-Za-z0-9_-]*)\s*[:=]\s*(.+)$/\<close> on a trimmed line: a dot matches no line end.\<close>

definition category_line :: "string \<Rightarrow> (string \<times> string) option" where
  "category_line line =
     (let cat = takeWhile (\<lambda>c. is_alnum c \<or> c = CHR ''_'' \<or> c = CHR ''-'') line;
          rest = dropWhile is_space (drop (length cat) line)
      in if cat \<noteq> [] \<and> \<not> is_digit (hd cat) \<and> hd cat \<noteq> CHR ''_'' \<and> hd cat \<noteq> CHR ''-'' \<and> rest \<noteq> []
            \<and> (hd rest = CHR '':'' \<or> hd rest = CHR ''='')
         then let value = dropWhile is_space (tl rest) in
              if value = [] \<or> CHR 0x0D \<in> set value then None else Some (js_lower cat, value)
         else None)"

definition legacy_lines :: "string list \<Rightarrow> (string \<times> string list) list" where
  "legacy_lines ls =
     fold (\<lambda>raw out. case category_line (clean_line raw) of
         None \<Rightarrow> out
       | Some (cat, value) \<Rightarrow> let ids = extractSlackUserIds value in if ids = [] then out else map_put cat ids out)
       ls []"

fun json_entries :: "json \<Rightarrow> (string \<times> json) list" where
  "json_entries (JObj fs) = fs"
| "json_entries (JArr xs) = zip (map show_nat [0..<length xs]) xs"
| "json_entries _ = []"

definition strings_of :: "json list \<Rightarrow> string list" where
  "strings_of xs = filter (\<lambda>s. s \<noteq> []) (map js_trim (concat (map (\<lambda>x. case x of JStr s \<Rightarrow> [s] | _ \<Rightarrow> []) xs)))"

definition legacy_json :: "json \<Rightarrow> (string \<times> string list) list" where
  "legacy_json j =
     fold (\<lambda>(k, v) out. case v of
         JArr xs \<Rightarrow> if js_lower k = ''__proto__'' then out else map_put (js_lower k) (strings_of xs) out
       | _ \<Rightarrow> out) (json_entries j) []"

text \<open>\<open>fenced\<close> is the value of the first fenced \<open>approvers\<close> block, \<open>None\<close> when there is none or it does not
  parse.\<close>

definition loadApprovers :: "json option \<Rightarrow> string \<Rightarrow> (string \<times> string list) list option" where
  "loadApprovers fenced soul =
     (let old = (case fenced of Some j \<Rightarrow> legacy_json j | None \<Rightarrow> [])
      in if old \<noteq> [] then Some old
         else case section_lines soul of
                None \<Rightarrow> None
              | Some ls \<Rightarrow> let out = legacy_lines ls in if out = [] then None else Some out)"

section \<open>The choice\<close>

record approval_request =
  aq_channel :: string
  aq_threadTs :: string
  aq_summary :: string
  aq_category :: "string option"
  aq_sessionId :: "string option"
  aq_persona :: "string option"

text \<open>What the choice reads: the default persona's soul, its SOUL text and fenced block, the fallback
  list of the environment, the effective grants of each persona.\<close>

record approver_sources =
  as_soul :: soul_data
  as_text :: string
  as_fenced :: "json option"
  as_env :: "string list"
  as_grants :: "string \<Rightarrow> grant list"

definition NOBODY :: string where
  "NOBODY = ''!nobody''"

text \<open>\<open>legacy[category]\<close>: of what a plain object inherits, only \<open>constructor\<close> is in lower case and has a
  length; a set of it throws (\<open>None\<close>).\<close>

definition legacyChain :: "(string \<times> string list) list option \<Rightarrow> string option \<Rightarrow> string list option option" where
  "legacyChain legacy category =
     (case legacy of
        None \<Rightarrow> Some None
      | Some m \<Rightarrow>
          let pick = (\<lambda>k. case map_of m k of Some ids \<Rightarrow> if ids \<noteq> [] then Some ids else None | None \<Rightarrow> None);
              byDefault = pick ''default''
          in if truthy category then
               (let k = js_lower (the category) in
                case pick k of
                  Some ids \<Rightarrow> Some (Some ids)
                | None \<Rightarrow> if k = ''constructor'' \<and> map_of m k = None then None else Some byDefault)
             else Some byDefault)"

definition defaultChain :: "approver_sources \<Rightarrow> approval_request \<Rightarrow> string list option" where
  "defaultChain src req =
     (let structured = approvers (effectiveSoulForChannelFor (as_soul src) (Some (aq_channel req)));
          ids = selectApproversFrom structured (aq_summary req) (aq_category req);
          scoped = selectApprovers (as_text src) (aq_summary req) (aq_category req)
      in if structured \<noteq> [] \<and> ids \<noteq> [] then Some ids
         else if scoped \<noteq> [] then Some scoped
         else case legacyChain (loadApprovers (as_fenced src) (as_text src)) (aq_category req) of
                None \<Rightarrow> None
              | Some (Some ids) \<Rightarrow> Some (fresh_by id [] ids)
              | Some None \<Rightarrow> Some (fresh_by id [] (as_env src)))"

definition named_persona :: "string option \<Rightarrow> bool" where
  "named_persona p \<longleftrightarrow> truthy p \<and> p \<noteq> Some ''default''"

definition resolveApprovers :: "approver_sources \<Rightarrow> approval_request \<Rightarrow> string list option" where
  "resolveApprovers src req =
     (if named_persona (aq_persona req) then
        (let ids = approversFor (as_grants src) (the (aq_persona req)) (Some (aq_channel req))
         in Some (if ids \<noteq> [] then ids else [NOBODY]))
      else case defaultChain src req of
             None \<Rightarrow> None
           | Some chain \<Rightarrow>
               if chain = [] then Some []
               else let kept = filter (\<lambda>u. \<not> isDenied (as_grants src ''default'') u) chain
                    in Some (if kept \<noteq> [] then kept else [NOBODY]))"

section \<open>What the choice promises\<close>

text \<open>Whether a click counts, as the card's handler asks: an empty list admits anyone, a denied person
  never.\<close>

definition may_approve :: "string list \<Rightarrow> grant list \<Rightarrow> string \<Rightarrow> bool" where
  "may_approve ids grants user \<longleftrightarrow> (ids = [] \<or> user \<in> set ids) \<and> \<not> isDenied grants user"

lemma fresh_by_empty [simp]: "fresh_by key [] xs = [] \<longleftrightarrow> xs = []"
  by (cases xs) simp_all

lemma selectApproversFrom_empty [simp]: "selectApproversFrom es summary hint = [] \<longleftrightarrow> es = []"
  by (auto simp: selectApproversFrom_def Let_def)

text \<open>Everyone chosen is listed; who fits the request (a catch-all entry always does) is chosen, and when
  someone fits nobody else is.\<close>

lemma set_fresh_ids: "set (fresh_by id seen xs) = set xs - set seen"
  by (induction xs arbitrary: seen) auto

lemma selectApproversFrom_set:
  "set (selectApproversFrom es summary hint) =
     (let fit = {e \<in> set es. eligible (tokenize (summary @ '' '' @ (case hint of Some h \<Rightarrow> h | None \<Rightarrow> []))) e}
      in ae_userId ` (if fit \<noteq> {} then fit else set es))"
  by (auto simp: selectApproversFrom_def Let_def set_fresh_ids filter_empty_conv)

lemma approversFor_roles:
  assumes "u \<in> set (approversFor grants persona (Some ch))"
  shows "roleFromGrants (grants persona) u (Some ch) \<in> {Some Approver, Some Manager}
    \<or> usersWithRole (grants persona) [Approver, Manager] (Some ch) = []
      \<and> roleFromGrants (grants ''default'') u None = Some Manager"
  using assms by (fastforce simp: approversFor_def Let_def split: if_splits dest: usersWithRole_sound)

text \<open>Who may decide an approval. For a named persona the list is never empty, so never anyone: each
  on it holds the role of approver or manager there (in the card's channel), or, when nobody does, is a
  manager of the default persona, or the list is the one id nobody has. For the default persona the list
  is the chain of its soul, its SOUL text, its legacy list or the environment without whoever is denied;
  it admits anyone only if that chain names nobody, never because the deny emptied it.\<close>

theorem approvers_chosen:
  assumes "resolveApprovers src req = Some ids"
  shows "if named_persona (aq_persona req) then
      ids \<noteq> [] \<and> (ids = [NOBODY] \<or>
        (\<forall>u \<in> set ids. roleFromGrants (as_grants src (the (aq_persona req))) u (Some (aq_channel req)) \<in> {Some Approver, Some Manager}
           \<or> usersWithRole (as_grants src (the (aq_persona req))) [Approver, Manager] (Some (aq_channel req)) = []
             \<and> roleFromGrants (as_grants src ''default'') u None = Some Manager))
    else (\<exists>chain. defaultChain src req = Some chain \<and> (ids = [] \<longleftrightarrow> chain = []) \<and>
      (ids = [NOBODY] \<or> set ids = {u \<in> set chain. \<not> isDenied (as_grants src ''default'') u}))"
proof (cases "named_persona (aq_persona req)")
  case True
  then show ?thesis using assms approversFor_roles [of _ "as_grants src" "the (aq_persona req)" "aq_channel req"]
    by (auto simp: resolveApprovers_def Let_def split: if_splits)
next
  case False
  then show ?thesis using assms by (auto simp: resolveApprovers_def Let_def split: option.splits if_splits)
qed

section \<open>On a text\<close>

definition demo_soul :: string where
  "demo_soul = join_with (CHR 0x0A) [''# Soul'', ''## Approvers'', ''- <@U0AAAAAAA>: *'',
     ''- U0BBBBBBB: database migrations ; nightly'', ''# End'', ''- U0CCCCCCC: all'']"

definition demo_sources :: approver_sources where
  "demo_sources = \<lparr>as_soul = EMPTY_soul, as_text = demo_soul, as_fenced = None, as_env = [], as_grants = (\<lambda>_. [])\<rparr>"

definition demo_request :: "string \<Rightarrow> approval_request" where
  "demo_request summary = \<lparr>aq_channel = ''C1'', aq_threadTs = ''1.0'', aq_summary = summary, aq_category = None,
     aq_sessionId = None, aq_persona = None\<rparr>"

lemma demo_entries: "loadApproverEntries demo_soul =
  Some [\<lparr>ae_userId = ''U0AAAAAAA'', ae_scope = ''*'', ae_catchall = False\<rparr>,
    \<lparr>ae_userId = ''U0BBBBBBB'', ae_scope = ''database migrations'', ae_catchall = False\<rparr>]"
  by code_simp

text \<open>The star is no catch-all, whatever the comment says: no word begins after it.\<close>

lemma star_is_no_catchall: "\<not> catchall_scope ''*''" "catchall_scope ''anything else''" "catchall_scope ''Default''"
  by code_simp+

lemma demo_chosen: "resolveApprovers demo_sources (demo_request ''Run the database migration'') = Some [''U0BBBBBBB'']"
  by code_simp

theorem approvers_chosen_witness:
  "\<exists>chain. defaultChain demo_sources (demo_request ''Run the database migration'') = Some chain \<and> chain \<noteq> []"
  using approvers_chosen [OF demo_chosen] by (auto simp: named_persona_def demo_request_def split: if_splits)

end
