(* ===== verification/ApprovalGate.thy ===== *)
theory ApprovalGate
  imports Approvers PermissionGate
begin

text \<open>
  The approval gate (class \<open>ApprovalGate\<close> of \<^verbatim>\<open>src/gateway/slack/approval-gate.ts\<close>) in any number of
  gateway processes over one table of gates. As in \<open>PermissionGate\<close> an asynchronous function is a task that
  waits for a statement, its reply or another call; statements run and replies arrive in any order,
  either may be lost, and clicks, timers, wake-ups, aborts, sweeps, purges and crashes come at any time.
  An approval's id is minted for it and is new.
\<close>

section \<open>State\<close>

record approval =
  apv_id :: string
  apv_req :: approval_request
  apv_approvers :: "string list"
  apv_timeoutSec :: int
  apv_poll :: bool

record approval_click =
  ac_id :: string
  ac_user :: string
  ac_approve :: bool

record approval_decision =
  ad_approved :: bool
  ad_by :: string
  ad_note :: "string option"

datatype approval_cont =
    ApCreate approval
  | ApSubscribe approval
  | ApPost approval
  | ApOpenCreate approval
  | ApOpenPost approval
  | ApCancelled
  | ApLook approval_click "approval option"
  | ApStray approval_click
  | ApAuth approval_click "approval option" jobject
  | ApSettle approval_click "approval option"
  | ApRecheck approval_click approval
  | ApRespond approval_click approval
  | ApWake approval
  | ApTimer approval
  | ApTimerPublish approval
  | ApTimerLook approval
  | ApOpenTimer approval

datatype approval_query =
    QCreate approval
  | QGet string
  | QResolve string gate_status string

datatype approval_stage =
    ApSent approval_query approval_cont
  | ApRan db_reply approval_cont
  | ApWaits approval_cont

text \<open>A click that passed: the approval, the clicker and the grants as they were then.\<close>

record approval_auth =
  aa_id :: string
  aa_user :: string
  aa_grants :: "string \<Rightarrow> grant list"

text \<open>\<open>ap_log\<close>, \<open>ap_auth\<close>, \<open>ap_asked\<close> and \<open>ap_creator\<close> record what happened: the rows that statements settled,
  the clicks that passed, the approvals asked for, and the task that will insert an approval's row.\<close>

record approval_state =
  ap_rows :: gates
  ap_log :: "pending_gate list"
  ap_asked :: "string \<Rightarrow> approval option"
  ap_creator :: "string \<Rightarrow> nat option"
  ap_auth :: "approval_auth list"
  ap_pending :: "nat \<Rightarrow> string \<Rightarrow> approval option"
  ap_subs :: "nat \<Rightarrow> string \<Rightarrow> approval option"
  ap_timer :: "nat \<Rightarrow> string \<Rightarrow> approval option"
  ap_openTimer :: "nat \<Rightarrow> string \<Rightarrow> approval option"
  ap_listening :: "nat \<Rightarrow> string \<Rightarrow> bool"
  ap_tasks :: "nat \<Rightarrow> (nat \<times> approval_stage) option"
  ap_promise :: "nat \<Rightarrow> string \<Rightarrow> approval_decision option"
  ap_nodes :: "(string \<times> approval_decision) list"
  ap_threw :: "(nat \<times> string) list"

definition no_approvals :: approval_state where
  "no_approvals = \<lparr>ap_rows = [], ap_log = [], ap_asked = (\<lambda>_. None), ap_creator = (\<lambda>_. None), ap_auth = [],
     ap_pending = (\<lambda>_ _. None), ap_subs = (\<lambda>_ _. None), ap_timer = (\<lambda>_ _. None), ap_openTimer = (\<lambda>_ _. None),
     ap_listening = (\<lambda>_ _. False), ap_tasks = (\<lambda>_. None), ap_promise = (\<lambda>_ _. None), ap_nodes = [], ap_threw = []\<rparr>"

record approval_world =
  aw_bus :: bool
  aw_instance :: "nat \<Rightarrow> string"

section \<open>Rows and decisions\<close>

definition approval_payload :: "approval \<Rightarrow> jobject" where
  "approval_payload a =
     (let q = apv_req a in
      [(''channel'', JStr (aq_channel q)), (''threadTs'', JStr (aq_threadTs q)), (''summary'', JStr (aq_summary q)),
       (''category'', case aq_category q of Some c \<Rightarrow> JStr c | None \<Rightarrow> JNull),
       (''approvers'', JArr (map JStr (apv_approvers a)))]
      @ (if apv_poll a then [(''waiter'', JStr ''poll'')] else [])
      @ (if truthy (aq_persona q) then [(''personaName'', JStr (the (aq_persona q)))] else []))"

definition payload_approvers :: "jobject \<Rightarrow> string list option" where
  "payload_approvers p =
     (case map_of p ''approvers'' of
        Some (JArr xs) \<Rightarrow> Some (concat (map (\<lambda>x. case x of JStr u \<Rightarrow> [u] | _ \<Rightarrow> []) xs))
      | _ \<Rightarrow> None)"

definition payload_persona :: "jobject \<Rightarrow> string" where
  "payload_persona p = (case map_of p ''personaName'' of Some (JStr n) \<Rightarrow> n | _ \<Rightarrow> ''default'')"

definition approval_args :: "approval \<Rightarrow> int \<Rightarrow> gate_args" where
  "approval_args a now = \<lparr>ga_id = Some (apv_id a), ga_kind = KApproval,
     ga_sessionId = (case aq_sessionId (apv_req a) of Some sid \<Rightarrow> sid
                     | None \<Rightarrow> aq_channel (apv_req a) @ '':'' @ aq_threadTs (apv_req a)),
     ga_payload = Some (approval_payload a),
     ga_expiresAt = (if apv_timeoutSec a > 0 then Some (now + apv_timeoutSec a * 1000) else None)\<rparr>"

definition status_name :: "gate_status \<Rightarrow> string" where
  "status_name st = (case st of GPending \<Rightarrow> ''pending'' | GApproved \<Rightarrow> ''approved'' | GDenied \<Rightarrow> ''denied''
     | GExpired \<Rightarrow> ''expired'' | GCancelled \<Rightarrow> ''cancelled'')"

definition system_no :: "string \<Rightarrow> approval_decision" where
  "system_no why = \<lparr>ad_approved = False, ad_by = ''system'', ad_note = Some why\<rparr>"

definition decisionFromApprovalRow :: "pending_gate \<Rightarrow> approval_decision" where
  "decisionFromApprovalRow g =
     (let who = (case pg_resolvedBy g of Some u \<Rightarrow> u | None \<Rightarrow> ''unknown'') in
      if pg_status g = GApproved then \<lparr>ad_approved = True, ad_by = who, ad_note = None\<rparr>
      else if pg_status g = GDenied then \<lparr>ad_approved = False, ad_by = who, ad_note = None\<rparr>
      else system_no (status_name (pg_status g)))"

definition verdict :: "approval_click \<Rightarrow> gate_status" where
  "verdict c = (if ac_approve c then GApproved else GDenied)"

section \<open>Small updates\<close>

definition ap_go :: "nat \<Rightarrow> nat \<Rightarrow> approval_stage \<Rightarrow> approval_state \<Rightarrow> approval_state" where
  "ap_go k r st s = s\<lparr>ap_tasks := (ap_tasks s)(k := Some (r, st))\<rparr>"

definition ap_end :: "nat \<Rightarrow> approval_state \<Rightarrow> approval_state" where
  "ap_end k s = s\<lparr>ap_tasks := (ap_tasks s)(k := None)\<rparr>"

text \<open>\<open>#pending.delete(id)\<close> with the timer of the entry cleared.\<close>

definition ap_forget :: "nat \<Rightarrow> string \<Rightarrow> approval_state \<Rightarrow> approval_state" where
  "ap_forget r i s = s\<lparr>ap_pending := (ap_pending s)(r := (ap_pending s r)(i := None)),
     ap_timer := (ap_timer s)(r := (ap_timer s r)(i := None))\<rparr>"

definition ap_deliver :: "nat \<Rightarrow> string \<Rightarrow> approval_decision \<Rightarrow> approval_state \<Rightarrow> approval_state" where
  "ap_deliver r i d s =
     (if ap_promise s r i = None then s\<lparr>ap_promise := (ap_promise s)(r := (ap_promise s r)(i := Some d))\<rparr> else s)"

text \<open>\<open>if (this.#pending.delete(id)) pending.resolve(d)\<close>.\<close>

definition ap_answer :: "nat \<Rightarrow> string \<Rightarrow> approval_decision \<Rightarrow> approval_state \<Rightarrow> approval_state" where
  "ap_answer r i d s = (if ap_pending s r i = None then s else ap_deliver r i d (ap_forget r i s))"

section \<open>Statements\<close>

text \<open>The operation a query is, and the reply its caller gets. No resolve here patches the payload.\<close>

definition query_op :: "approval_world \<Rightarrow> nat \<Rightarrow> int \<Rightarrow> approval_query \<Rightarrow> gate_op option" where
  "query_op W r now q =
     (case q of
        QCreate a \<Rightarrow> Some (OCreate [] (aw_instance W r) now (approval_args a now))
      | QGet i \<Rightarrow> None
      | QResolve i st u \<Rightarrow> Some (OResolve i st u None now))"

definition run_op :: "gate_op \<Rightarrow> approval_state \<Rightarrow> pending_gate list \<times> approval_state" where
  "run_op x s = (case gate_exec concat_objects x (ap_rows s) of
     (won, T) \<Rightarrow> (won, s\<lparr>ap_rows := T, ap_log := ap_log s @ won\<rparr>))"

definition run_query :: "approval_world \<Rightarrow> nat \<Rightarrow> int \<Rightarrow> approval_query \<Rightarrow> approval_state \<Rightarrow> db_reply \<times> approval_state" where
  "run_query W r now q s =
     (case q of
        QGet i \<Rightarrow> (Row (get_gate i (ap_rows s)), s)
      | QCreate a \<Rightarrow>
          (Created (get_gate (apv_id a) (ap_rows s) = None),
           (snd (run_op (the (query_op W r now q)) s))\<lparr>ap_creator := (ap_creator s)(apv_id a := None)\<rparr>)
      | QResolve i st u \<Rightarrow>
          (case run_op (the (query_op W r now q)) s of
             (won, s') \<Rightarrow> (Row (case won of g # _ \<Rightarrow> Some g | [] \<Rightarrow> None), s')))"

section \<open>Asking\<close>

text \<open>\<open>request\<close> and \<open>open\<close> up to the insert: the approvers are chosen first; a throw ends the call.\<close>

definition ask_approval :: "nat \<Rightarrow> nat \<Rightarrow> string \<Rightarrow> approver_sources \<Rightarrow> approval_request \<Rightarrow> int \<Rightarrow> bool \<Rightarrow> approval_state \<Rightarrow> approval_state" where
  "ask_approval k r i src req timeoutSec poll s =
     (case resolveApprovers src req of
        None \<Rightarrow> s\<lparr>ap_threw := (r, i) # ap_threw s\<rparr>
      | Some ids \<Rightarrow>
          let a = \<lparr>apv_id = i, apv_req = req, apv_approvers = ids, apv_timeoutSec = timeoutSec, apv_poll = poll\<rparr>
          in ap_go k r (ApSent (QCreate a) (if poll then ApOpenCreate a else ApCreate a))
               (s\<lparr>ap_asked := (ap_asked s)(i := Some a), ap_creator := (ap_creator s)(i := Some k)\<rparr>))"

definition ap_cancel :: "nat \<Rightarrow> nat \<Rightarrow> string \<Rightarrow> approval_state \<Rightarrow> approval_state" where
  "ap_cancel k r i s = ap_go k r (ApSent (QResolve i GCancelled ''system'') ApCancelled) s"

text \<open>After the subscription: the abort listener, then the card.\<close>

definition ap_listen :: "nat \<Rightarrow> nat \<Rightarrow> approval \<Rightarrow> approval_state \<Rightarrow> approval_state" where
  "ap_listen k r a s =
     ap_go k r (ApWaits (ApPost a))
       (s\<lparr>ap_listening := (ap_listening s)(r := (ap_listening s r)(apv_id a := True))\<rparr>)"

definition ap_created :: "approval_world \<Rightarrow> nat \<Rightarrow> nat \<Rightarrow> approval \<Rightarrow> bool \<Rightarrow> approval_state \<Rightarrow> approval_state" where
  "ap_created W k r a created s =
     (if \<not> created then ap_end k (s\<lparr>ap_threw := (r, apv_id a) # ap_threw s\<rparr>)
      else let i = apv_id a;
               s1 = s\<lparr>ap_pending := (ap_pending s)(r := (ap_pending s r)(i := Some a)),
                      ap_timer := (if apv_timeoutSec a > 0 then (ap_timer s)(r := (ap_timer s r)(i := Some a)) else ap_timer s)\<rparr>
           in if aw_bus W
              then ap_go k r (ApWaits (ApSubscribe a)) (s1\<lparr>ap_subs := (ap_subs s1)(r := (ap_subs s1 r)(i := Some a))\<rparr>)
              else ap_listen k r a s1)"

definition ap_posted :: "nat \<Rightarrow> nat \<Rightarrow> approval \<Rightarrow> bool \<Rightarrow> approval_state \<Rightarrow> approval_state" where
  "ap_posted k r a ok s =
     (if ok then ap_end k s
      else ap_cancel k r (apv_id a) (ap_forget r (apv_id a) (s\<lparr>ap_threw := (r, apv_id a) # ap_threw s\<rparr>)))"

definition ap_opened :: "nat \<Rightarrow> nat \<Rightarrow> approval \<Rightarrow> bool \<Rightarrow> approval_state \<Rightarrow> approval_state" where
  "ap_opened k r a created s =
     (if \<not> created then ap_end k (s\<lparr>ap_threw := (r, apv_id a) # ap_threw s\<rparr>)
      else ap_go k r (ApWaits (ApOpenPost a))
             (s\<lparr>ap_openTimer := (if apv_timeoutSec a > 0
                  then (ap_openTimer s)(r := (ap_openTimer s r)(apv_id a := Some a)) else ap_openTimer s)\<rparr>))"

section \<open>Clicks\<close>

text \<open>The row decides whether the gate is open; a waiter whose row is gone or closed is told so.\<close>

definition ap_look :: "approval_world \<Rightarrow> nat \<Rightarrow> nat \<Rightarrow> approval_click \<Rightarrow> approval option \<Rightarrow> pending_gate option \<Rightarrow> approval_state \<Rightarrow> approval_state" where
  "ap_look W k r c local row s =
     (case row of
        None \<Rightarrow> ap_end k (if local = None then s else ap_answer r (ac_id c) (system_no ''missing'') s)
      | Some g \<Rightarrow>
          if pg_status g \<noteq> GPending then
            ap_end k (if local \<noteq> None \<and> pg_status g \<in> {GExpired, GCancelled}
                      then ap_answer r (ac_id c) (system_no (status_name (pg_status g))) s else s)
          else if local = None \<and> \<not> polled (pg_payload g) \<and> pg_instanceId g = Some (aw_instance W r)
          then ap_go k r (ApSent (QResolve (ac_id c) GCancelled (ac_user c)) (ApStray c)) s
          else if local = None \<and> \<not> polled (pg_payload g) \<and> \<not> aw_bus W then ap_end k s
          else
            let ids = (case payload_approvers (pg_payload g) of Some ids \<Rightarrow> ids
                       | None \<Rightarrow> (case local of Some a \<Rightarrow> apv_approvers a | None \<Rightarrow> []))
            in if ids \<noteq> [] \<and> ac_user c \<notin> set ids then ap_end k s
               else ap_go k r (ApWaits (ApAuth c local (pg_payload g))) s)"

text \<open>The grants of the card's persona at click time; \<open>None\<close> when the read threw.\<close>

definition ap_authorised :: "nat \<Rightarrow> nat \<Rightarrow> approval_click \<Rightarrow> approval option \<Rightarrow> jobject
    \<Rightarrow> (string \<Rightarrow> grant list) option \<Rightarrow> approval_state \<Rightarrow> approval_state" where
  "ap_authorised k r c local payload answer s =
     (case answer of
        None \<Rightarrow> ap_end k s
      | Some grants \<Rightarrow>
          if isDenied (grants (payload_persona payload)) (ac_user c) then ap_end k s
          else ap_go k r (ApSent (QResolve (ac_id c) (verdict c) (ac_user c)) (ApSettle c local))
                 (s\<lparr>ap_auth := ap_auth s @ [\<lparr>aa_id = ac_id c, aa_user = ac_user c, aa_grants = grants\<rparr>]\<rparr>))"

definition ap_settled :: "nat \<Rightarrow> nat \<Rightarrow> approval_click \<Rightarrow> approval option \<Rightarrow> pending_gate option \<Rightarrow> approval_state \<Rightarrow> approval_state" where
  "ap_settled k r c local row s =
     (case local of
        None \<Rightarrow> ap_end k s
      | Some a \<Rightarrow>
          if row = None then ap_go k r (ApSent (QGet (ac_id c)) (ApRecheck c a)) s
          else ap_go k r (ApWaits (ApRespond c a)) (ap_forget r (ac_id c) s))"

definition ap_rechecked :: "nat \<Rightarrow> nat \<Rightarrow> approval_click \<Rightarrow> pending_gate option \<Rightarrow> approval_state \<Rightarrow> approval_state" where
  "ap_rechecked k r c row s =
     ap_end k (case row of
        Some g \<Rightarrow> if pg_status g \<in> {GExpired, GCancelled}
                  then ap_answer r (ac_id c) (system_no (status_name (pg_status g))) s else s
      | None \<Rightarrow> s)"

definition ap_responded :: "nat \<Rightarrow> nat \<Rightarrow> approval_click \<Rightarrow> approval_state \<Rightarrow> approval_state" where
  "ap_responded k r c s =
     ap_end k (ap_deliver r (ac_id c) \<lparr>ad_approved = ac_approve c, ad_by = ac_user c, ad_note = None\<rparr> s)"

section \<open>Wake-ups, timers, aborts\<close>

definition ap_woken :: "nat \<Rightarrow> nat \<Rightarrow> approval \<Rightarrow> pending_gate option \<Rightarrow> approval_state \<Rightarrow> approval_state" where
  "ap_woken k r a row s =
     ap_end k (case row of
        Some g \<Rightarrow> if pg_status g = GPending then s else ap_answer r (apv_id a) (decisionFromApprovalRow g) s
      | None \<Rightarrow> s)"

definition timeout_no :: "approval \<Rightarrow> approval_decision" where
  "timeout_no a = system_no (''timeout-'' @ show_nat (nat (apv_timeoutSec a)) @ ''s'')"

definition ap_timer_looked :: "nat \<Rightarrow> nat \<Rightarrow> approval \<Rightarrow> pending_gate option \<Rightarrow> approval_state \<Rightarrow> approval_state" where
  "ap_timer_looked k r a row s =
     ap_end k (if (case row of Some g \<Rightarrow> pg_status g \<in> {GApproved, GDenied} | None \<Rightarrow> False) then s
               else ap_answer r (apv_id a) (timeout_no a) s)"

definition ap_timer_fires :: "nat \<Rightarrow> nat \<Rightarrow> string \<Rightarrow> approval_state \<Rightarrow> approval_state" where
  "ap_timer_fires k r i s =
     (case ap_timer s r i of
        None \<Rightarrow> s
      | Some a \<Rightarrow>
          let s1 = s\<lparr>ap_timer := (ap_timer s)(r := (ap_timer s r)(i := None))\<rparr>
          in if ap_pending s r i = None then s1
             else ap_go k r (ApSent (QResolve i GExpired ''system'') (ApTimer a)) s1)"

definition ap_open_timer_fires :: "nat \<Rightarrow> nat \<Rightarrow> string \<Rightarrow> approval_state \<Rightarrow> approval_state" where
  "ap_open_timer_fires k r i s =
     (case ap_openTimer s r i of
        None \<Rightarrow> s
      | Some a \<Rightarrow> ap_go k r (ApSent (QResolve i GExpired ''system'') (ApOpenTimer a))
                    (s\<lparr>ap_openTimer := (ap_openTimer s)(r := (ap_openTimer s r)(i := None))\<rparr>))"

definition ap_aborts :: "nat \<Rightarrow> nat \<Rightarrow> string \<Rightarrow> approval_state \<Rightarrow> approval_state" where
  "ap_aborts k r i s =
     (if \<not> ap_listening s r i then s
      else let s1 = s\<lparr>ap_listening := (ap_listening s)(r := (ap_listening s r)(i := False))\<rparr>
           in if ap_pending s r i = None then s1
              else ap_deliver r i (system_no ''aborted'') (ap_cancel k r i (ap_forget r i s1)))"

section \<open>Steps\<close>

definition ap_reply :: "approval_world \<Rightarrow> nat \<Rightarrow> nat \<Rightarrow> db_reply \<Rightarrow> approval_cont \<Rightarrow> approval_state \<Rightarrow> approval_state" where
  "ap_reply W k r rep c s =
     (case (rep, c) of
        (Created b, ApCreate a) \<Rightarrow> ap_created W k r a b s
      | (Created b, ApOpenCreate a) \<Rightarrow> ap_opened k r a b s
      | (Row row, ApLook c l) \<Rightarrow> ap_look W k r c l row s
      | (Row row, ApSettle c l) \<Rightarrow> ap_settled k r c l row s
      | (Row row, ApRecheck c a) \<Rightarrow> ap_rechecked k r c row s
      | (Row row, ApWake a) \<Rightarrow> ap_woken k r a row s
      | (Row (Some g), ApTimer a) \<Rightarrow> ap_go k r (ApWaits (ApTimerPublish a)) s
      | (Row None, ApTimer a) \<Rightarrow> ap_go k r (ApSent (QGet (apv_id a)) (ApTimerLook a)) s
      | (Row row, ApTimerLook a) \<Rightarrow> ap_timer_looked k r a row s
      | _ \<Rightarrow> ap_end k s)"

definition ap_return :: "nat \<Rightarrow> nat \<Rightarrow> approval_cont \<Rightarrow> bool \<Rightarrow> approval_state \<Rightarrow> approval_state" where
  "ap_return k r c ok s =
     (case c of
        ApSubscribe a \<Rightarrow> ap_listen k r a s
      | ApPost a \<Rightarrow> ap_posted k r a ok s
      | ApOpenPost a \<Rightarrow> if ok then ap_end k s else ap_cancel k r (apv_id a) (s\<lparr>ap_threw := (r, apv_id a) # ap_threw s\<rparr>)
      | ApRespond c a \<Rightarrow> ap_responded k r c s
      | ApTimerPublish a \<Rightarrow> ap_end k (ap_answer r (apv_id a) (timeout_no a) s)
      | _ \<Rightarrow> s)"

datatype approval_event =
    EvAsk nat nat string approver_sources approval_request int bool
  | EvClick nat nat approval_click
  | EvWake nat nat string
  | EvAbort nat nat string
  | EvTimer nat nat string
  | EvOpenTimer nat nat string
  | EvRun nat int
  | EvReply nat
  | EvLose nat
  | EvReturn nat bool
  | EvAuth nat "(string \<Rightarrow> grant list) option"
  | EvPoll string int
  | EvSweep int
  | EvPurge int int
  | EvCrash nat

definition ap_crash :: "nat \<Rightarrow> approval_state \<Rightarrow> approval_state" where
  "ap_crash r s = s\<lparr>ap_pending := (ap_pending s)(r := (\<lambda>_. None)), ap_subs := (ap_subs s)(r := (\<lambda>_. None)),
     ap_timer := (ap_timer s)(r := (\<lambda>_. None)), ap_openTimer := (ap_openTimer s)(r := (\<lambda>_. None)),
     ap_listening := (ap_listening s)(r := (\<lambda>_. False)),
     ap_tasks := (\<lambda>k. case ap_tasks s k of Some (r', st) \<Rightarrow> if r' = r then None else Some (r', st) | None \<Rightarrow> None)\<rparr>"

fun approval_step :: "approval_world \<Rightarrow> approval_state \<Rightarrow> approval_event \<Rightarrow> approval_state" where
  "approval_step W s (EvAsk k r i src req timeoutSec poll) =
     (if ap_tasks s k \<noteq> None \<or> ap_asked s i \<noteq> None then s else ask_approval k r i src req timeoutSec poll s)"
| "approval_step W s (EvClick k r c) =
     (if ap_tasks s k \<noteq> None then s else ap_go k r (ApSent (QGet (ac_id c)) (ApLook c (ap_pending s r (ac_id c)))) s)"
| "approval_step W s (EvWake k r i) =
     (case ap_subs s r i of
        Some a \<Rightarrow> if ap_tasks s k \<noteq> None then s else ap_go k r (ApSent (QGet i) (ApWake a)) s
      | None \<Rightarrow> s)"
| "approval_step W s (EvAbort k r i) = (if ap_tasks s k \<noteq> None then s else ap_aborts k r i s)"
| "approval_step W s (EvTimer k r i) = (if ap_tasks s k \<noteq> None then s else ap_timer_fires k r i s)"
| "approval_step W s (EvOpenTimer k r i) = (if ap_tasks s k \<noteq> None then s else ap_open_timer_fires k r i s)"
| "approval_step W s (EvRun k now) =
     (case ap_tasks s k of
        Some (r, ApSent q c) \<Rightarrow> (case run_query W r now q s of (rep, s') \<Rightarrow> ap_go k r (ApRan rep c) s')
      | _ \<Rightarrow> s)"
| "approval_step W s (EvReply k) =
     (case ap_tasks s k of Some (r, ApRan rep c) \<Rightarrow> ap_reply W k r rep c s | _ \<Rightarrow> s)"
| "approval_step W s (EvLose k) = ap_end k s"
| "approval_step W s (EvReturn k ok) =
     (case ap_tasks s k of Some (r, ApWaits c) \<Rightarrow> ap_return k r c ok s | _ \<Rightarrow> s)"
| "approval_step W s (EvAuth k answer) =
     (case ap_tasks s k of Some (r, ApWaits (ApAuth c l payload)) \<Rightarrow> ap_authorised k r c l payload answer s | _ \<Rightarrow> s)"
| "approval_step W s (EvPoll i now) =
     (case get_gate i (ap_rows s) of
        Some g \<Rightarrow> (case poll_answer now g of
            Some g' \<Rightarrow> s\<lparr>ap_nodes := ap_nodes s @ [(i, decisionFromApprovalRow g')]\<rparr> | None \<Rightarrow> s)
      | None \<Rightarrow> s)"
| "approval_step W s (EvSweep now) = snd (run_op (OSweep now) s)"
| "approval_step W s (EvPurge age now) = snd (run_op (OPurge age now) s)"
| "approval_step W s (EvCrash r) = ap_crash r s"

definition approval_run :: "approval_world \<Rightarrow> approval_event list \<Rightarrow> approval_state" where
  "approval_run W es = run_steps (approval_step W) no_approvals es"

end
