(* ===== verification/ApprovalGateFacts.thy ===== *)
theory ApprovalGateFacts
  imports ApprovalGate
begin

text \<open>
  What holds in every reachable state of the approval gate: the table and the log of settled rows agree,
  rows, tasks and waiters belong to the approval their id was minted for, and whoever was told
  \<open>approved\<close> was told so by a click that counts.
\<close>

section \<open>The invariant\<close>

text \<open>A click that counts: the clicker is on the approval's list, or the list is empty, and held no deny on
  its persona when the grants were read.\<close>

definition counted :: "approval_state \<Rightarrow> string \<Rightarrow> string \<Rightarrow> bool" where
  "counted s i u \<longleftrightarrow> (\<exists>x \<in> set (ap_auth s). \<exists>a. aa_id x = i \<and> aa_user x = u \<and> ap_asked s i = Some a
     \<and> may_approve (apv_approvers a) (aa_grants x (persona_key (aq_persona (apv_req a)))) u)"

definition knows :: "approval_state \<Rightarrow> string \<Rightarrow> approval \<Rightarrow> bool" where
  "knows s i a \<longleftrightarrow> ap_asked s i = Some a \<and> apv_id a = i"

definition local_known :: "approval_state \<Rightarrow> string \<Rightarrow> approval option \<Rightarrow> bool" where
  "local_known s i l \<longleftrightarrow> (case l of Some a \<Rightarrow> knows s i a | None \<Rightarrow> True)"

text \<open>A row that a click settled.\<close>

definition clicked_row :: "approval_state \<Rightarrow> pending_gate \<Rightarrow> bool" where
  "clicked_row s g \<longleftrightarrow> (pg_status g \<in> {GApproved, GDenied} \<longrightarrow>
     (\<exists>u. pg_resolvedBy g = Some u \<and> counted s (pg_id g) u))"

definition settled_as :: "approval_state \<Rightarrow> string \<Rightarrow> gate_status \<Rightarrow> string \<Rightarrow> bool" where
  "settled_as s i st u \<longleftrightarrow> (\<exists>g \<in> set (ap_log s). pg_id g = i \<and> pg_status g = st \<and> pg_resolvedBy g = Some u)"

text \<open>A decision somebody got: without a note it is a click's, with one it is a refusal.\<close>

definition decided :: "approval_state \<Rightarrow> string \<Rightarrow> approval_decision \<Rightarrow> bool" where
  "decided s i d \<longleftrightarrow> (if ad_note d = None then settled_as s i (if ad_approved d then GApproved else GDenied) (ad_by d)
     else \<not> ad_approved d)"

definition row_known :: "approval_state \<Rightarrow> pending_gate \<Rightarrow> bool" where
  "row_known s g \<longleftrightarrow> (\<exists>a. knows s (pg_id g) a \<and> pg_payload g = approval_payload a)"

definition reply_row_ok :: "approval_state \<Rightarrow> string \<Rightarrow> pending_gate option \<Rightarrow> bool" where
  "reply_row_ok s i row \<longleftrightarrow> (\<forall>g. row = Some g \<longrightarrow> pg_id g = i \<and> row_known s g \<and>
     (pg_status g \<noteq> GPending \<longrightarrow> g \<in> set (ap_log s)))"

fun stage_known :: "approval_state \<Rightarrow> approval_stage \<Rightarrow> bool" where
  "stage_known s (ApSent (QCreate a) c) = (knows s (apv_id a) a \<and> (c = ApCreate a \<or> c = ApOpenCreate a))"
| "stage_known s (ApSent (QGet i) c) =
     (case c of
        ApLook k l \<Rightarrow> ac_id k = i \<and> local_known s i l
      | ApRecheck k a \<Rightarrow> ac_id k = i
      | ApWake a \<Rightarrow> apv_id a = i
      | ApTimerLook a \<Rightarrow> True
      | _ \<Rightarrow> False)"
| "stage_known s (ApSent (QResolve i st u) c) =
     (case c of
        ApSettle k l \<Rightarrow> i = ac_id k \<and> u = ac_user k \<and> st = verdict k \<and> counted s i u \<and> local_known s i l
      | ApCancelled \<Rightarrow> st = GCancelled
      | ApStray k \<Rightarrow> st = GCancelled
      | ApTimer a \<Rightarrow> st = GExpired
      | ApOpenTimer a \<Rightarrow> st = GExpired
      | _ \<Rightarrow> False)"
| "stage_known s (ApRan rep c) =
     (case c of
        ApCreate a \<Rightarrow> knows s (apv_id a) a
      | ApOpenCreate a \<Rightarrow> knows s (apv_id a) a
      | ApLook k l \<Rightarrow> (\<forall>row. rep = Row row \<longrightarrow> reply_row_ok s (ac_id k) row) \<and> local_known s (ac_id k) l
      | ApSettle k l \<Rightarrow> (\<forall>g. rep = Row (Some g) \<longrightarrow> settled_as s (ac_id k) (verdict k) (ac_user k)) \<and> local_known s (ac_id k) l
      | ApWake a \<Rightarrow> (\<forall>row. rep = Row row \<longrightarrow> reply_row_ok s (apv_id a) row)
      | _ \<Rightarrow> True)"
| "stage_known s (ApWaits c) =
     (case c of
        ApAuth k l p \<Rightarrow> local_known s (ac_id k) l \<and> (\<exists>a. knows s (ac_id k) a \<and> p = approval_payload a \<and>
          (apv_approvers a = [] \<or> ac_user k \<in> set (apv_approvers a)))
      | ApRespond k a \<Rightarrow> settled_as s (ac_id k) (verdict k) (ac_user k)
      | ApSubscribe a \<Rightarrow> knows s (apv_id a) a
      | ApPost a \<Rightarrow> knows s (apv_id a) a
      | _ \<Rightarrow> True)"

definition table_ok :: "approval_state \<Rightarrow> bool" where
  "table_ok s \<longleftrightarrow> log_ok (ap_log s) [] (ap_rows s) \<and> (\<forall>g \<in> set (ap_rows s). row_known s g)
     \<and> (\<forall>g \<in> set (ap_log s). clicked_row s g)"

definition stages_ok :: "approval_state \<Rightarrow> bool" where
  "stages_ok s \<longleftrightarrow> (\<forall>k r st. ap_tasks s k = Some (r, st) \<longrightarrow> stage_known s st \<and>
     (\<forall>a c. st = ApSent (QCreate a) c \<longrightarrow> ap_creator s (apv_id a) = Some k))"

definition fresh_ok :: "approval_state \<Rightarrow> bool" where
  "fresh_ok s \<longleftrightarrow> (\<forall>i. (ap_creator s i \<noteq> None \<longrightarrow> i \<notin> pg_id ` set (ap_rows s) \<and> i \<notin> pg_id ` set (ap_log s)) \<and>
     (ap_asked s i = None \<longrightarrow> i \<notin> pg_id ` set (ap_rows s) \<and> i \<notin> pg_id ` set (ap_log s)))"

definition waiting_ok :: "approval_state \<Rightarrow> bool" where
  "waiting_ok s \<longleftrightarrow> (\<forall>r i a. ap_pending s r i = Some a \<or> ap_subs s r i = Some a \<or> ap_timer s r i = Some a \<longrightarrow> knows s i a)"

definition answers_ok :: "approval_state \<Rightarrow> bool" where
  "answers_ok s \<longleftrightarrow> (\<forall>r i d. ap_promise s r i = Some d \<longrightarrow> decided s i d) \<and> (\<forall>(i, d) \<in> set (ap_nodes s). decided s i d)"

definition approvals_inv :: "approval_state \<Rightarrow> bool" where
  "approvals_inv s \<longleftrightarrow> table_ok s \<and> stages_ok s \<and> fresh_ok s \<and> waiting_ok s \<and> answers_ok s"

section \<open>What is known stays known\<close>

definition learns :: "approval_state \<Rightarrow> approval_state \<Rightarrow> bool" where
  "learns s s' \<longleftrightarrow> (\<forall>i a. ap_asked s i = Some a \<longrightarrow> ap_asked s' i = Some a)
     \<and> set (ap_log s) \<subseteq> set (ap_log s') \<and> set (ap_auth s) \<subseteq> set (ap_auth s')"

lemma learns_knows: "learns s s' \<Longrightarrow> knows s i a \<Longrightarrow> knows s' i a"
  unfolding learns_def knows_def by blast

lemma learns_counted: "learns s s' \<Longrightarrow> counted s i u \<Longrightarrow> counted s' i u"
  unfolding learns_def counted_def by blast

lemma learns_settled: "learns s s' \<Longrightarrow> settled_as s i st u \<Longrightarrow> settled_as s' i st u"
  unfolding learns_def settled_as_def by blast

lemma learns_local: "learns s s' \<Longrightarrow> local_known s i l \<Longrightarrow> local_known s' i l"
  unfolding local_known_def by (cases l) (auto intro: learns_knows)

lemma learns_row: "learns s s' \<Longrightarrow> row_known s g \<Longrightarrow> row_known s' g"
  unfolding row_known_def using learns_knows by blast

lemma learns_reply: "learns s s' \<Longrightarrow> reply_row_ok s i row \<Longrightarrow> reply_row_ok s' i row"
  unfolding reply_row_ok_def using learns_row by (auto simp: learns_def)

lemma learns_clicked: "learns s s' \<Longrightarrow> clicked_row s g \<Longrightarrow> clicked_row s' g"
  unfolding clicked_row_def using learns_counted by blast

lemma learns_decided: "learns s s' \<Longrightarrow> decided s i d \<Longrightarrow> decided s' i d"
  unfolding decided_def using learns_settled by (simp split: if_splits)

lemma learns_stage: "learns s s' \<Longrightarrow> stage_known s st \<Longrightarrow> stage_known s' st"
proof (induction s st rule: stage_known.induct)
  case (1 s a c)
  then show ?case using learns_knows by auto
next
  case (2 s i c)
  then show ?case using learns_local by (cases c) auto
next
  case (3 s i st u c)
  then show ?case using learns_local learns_counted by (cases c) auto
next
  case (4 s rep c)
  then show ?case using learns_local learns_knows learns_settled learns_reply by (cases c) auto
next
  case (5 s c)
  then show ?case using learns_local learns_knows learns_settled by (cases c) (auto, blast+)
qed

lemma learns_refl [simp]: "learns s s"
  by (simp add: learns_def)

text \<open>One lemma for every step that runs no statement: the table, the log and what was asked stay, waiters,
  answers and tasks are old or justified.\<close>

definition same_tables :: "approval_state \<Rightarrow> approval_state \<Rightarrow> bool" where
  "same_tables s s' \<longleftrightarrow> ap_rows s' = ap_rows s \<and> ap_log s' = ap_log s \<and> ap_asked s' = ap_asked s
     \<and> ap_creator s' = ap_creator s \<and> set (ap_auth s) \<subseteq> set (ap_auth s')"

lemma same_tables_learns: "same_tables s s' \<Longrightarrow> learns s s'"
  by (simp add: same_tables_def learns_def)

lemma kept_change:
  assumes inv: "approvals_inv s" and same: "same_tables s s'"
    and waiters: "\<And>r i a. ap_pending s' r i = Some a \<or> ap_subs s' r i = Some a \<or> ap_timer s' r i = Some a \<Longrightarrow>
       ap_pending s r i = Some a \<or> ap_subs s r i = Some a \<or> ap_timer s r i = Some a \<or> knows s i a"
    and promises: "\<And>r i d. ap_promise s' r i = Some d \<Longrightarrow> ap_promise s r i = Some d \<or> decided s i d"
    and nodes: "\<And>i d. (i, d) \<in> set (ap_nodes s') \<Longrightarrow> (i, d) \<in> set (ap_nodes s) \<or> decided s i d"
    and tasks: "\<And>k r st. ap_tasks s' k = Some (r, st) \<Longrightarrow>
       ap_tasks s k = Some (r, st) \<or> stage_known s' st \<and> (\<forall>a c. st \<noteq> ApSent (QCreate a) c)"
  shows "approvals_inv s'"
proof -
  note l = same_tables_learns [OF same]
  have "table_ok s'"
    using inv same learns_row [OF l] learns_clicked [OF l] by (simp add: approvals_inv_def table_ok_def same_tables_def)
  moreover have "stages_ok s'" unfolding stages_ok_def
  proof (intro allI impI)
    fix k r st assume "ap_tasks s' k = Some (r, st)"
    from tasks [OF this] show "stage_known s' st \<and> (\<forall>a c. st = ApSent (QCreate a) c \<longrightarrow> ap_creator s' (apv_id a) = Some k)"
      using inv same learns_stage [OF l] unfolding approvals_inv_def stages_ok_def same_tables_def by metis
  qed
  moreover have "fresh_ok s'" using inv same by (simp add: approvals_inv_def fresh_ok_def same_tables_def)
  moreover have "waiting_ok s'"
    using inv waiters learns_knows [OF l] unfolding approvals_inv_def waiting_ok_def by metis
  moreover have "answers_ok s'" unfolding answers_ok_def
  proof (intro conjI allI impI ballI)
    fix r i d assume "ap_promise s' r i = Some d"
    from promises [OF this] show "decided s' i d"
      using inv learns_decided [OF l] unfolding approvals_inv_def answers_ok_def by metis
  next
    fix x assume x: "x \<in> set (ap_nodes s')"
    obtain i d where xd: "x = (i, d)" by (cases x)
    have "(i, d) \<in> set (ap_nodes s) \<or> decided s i d" using nodes x xd by blast
    then have "decided s i d" using inv unfolding approvals_inv_def answers_ok_def by blast
    then show "case x of (i, d) \<Rightarrow> decided s' i d" using learns_decided [OF l] xd by simp
  qed
  ultimately show ?thesis by (simp add: approvals_inv_def)
qed

section \<open>The payload\<close>

lemma payload_facts [simp]:
  "payload_approvers (approval_payload a) = Some (apv_approvers a)"
  "payload_persona (approval_payload a) = persona_key (aq_persona (apv_req a))"
  by (auto simp: payload_approvers_def payload_persona_def approval_payload_def persona_key_def Let_def comp_def split: option.split)

section \<open>Steps without a statement\<close>

lemmas ap_updates = ap_go_def ap_end_def ap_forget_def ap_deliver_def ap_answer_def same_tables_def

lemma decided_system [simp]: "decided s i (system_no why)"
  by (simp add: decided_def system_no_def)

lemma decided_timeout [simp]: "decided s i (timeout_no a)"
  by (simp add: timeout_no_def)

lemma kept_end: "approvals_inv s \<Longrightarrow> approvals_inv (ap_end k s)"
  by (erule kept_change) (auto simp: ap_updates split: if_splits)

lemma kept_forget: "approvals_inv s \<Longrightarrow> approvals_inv (ap_forget r i s)"
  by (erule kept_change) (auto simp: ap_updates split: if_splits)

lemma kept_deliver: "approvals_inv s \<Longrightarrow> decided s i d \<Longrightarrow> approvals_inv (ap_deliver r i d s)"
  by (erule kept_change) (auto simp: ap_updates split: if_splits)

lemma decided_forget [simp]: "decided (ap_forget r i s) j d = decided s j d"
  by (simp add: decided_def settled_as_def ap_forget_def)

lemma kept_answer: "approvals_inv s \<Longrightarrow> decided s i d \<Longrightarrow> approvals_inv (ap_answer r i d s)"
  unfolding ap_answer_def by (auto intro: kept_deliver kept_forget)

lemma stage_known_same:
  assumes "ap_log s' = ap_log s" "ap_asked s' = ap_asked s" "ap_auth s' = ap_auth s"
  shows "stage_known s' st = stage_known s st"
proof -
  have "learns s s'" "learns s' s" using assms by (simp_all add: learns_def)
  then show ?thesis using learns_stage by blast
qed

lemma kept_go:
  assumes "approvals_inv s" "stage_known s st" "\<And>a c. st \<noteq> ApSent (QCreate a) c"
  shows "approvals_inv (ap_go k r st s)"
proof -
  have "stage_known (ap_go k r st s) st = stage_known s st" by (rule stage_known_same) (simp_all add: ap_go_def)
  then show ?thesis using assms by (intro kept_change [OF assms(1)]) (auto simp: ap_updates split: if_splits)
qed

lemma kept_other:
  assumes "approvals_inv s" "same_tables s s'" "ap_pending s' = ap_pending s" "ap_subs s' = ap_subs s"
    "\<And>r i a. ap_timer s' r i = Some a \<Longrightarrow> ap_timer s r i = Some a"
    "ap_promise s' = ap_promise s" "ap_nodes s' = ap_nodes s" "ap_tasks s' = ap_tasks s"
  shows "approvals_inv s'"
  using assms(1,2) by (rule kept_change) (use assms in auto)

lemma kept_cancel: "approvals_inv s \<Longrightarrow> approvals_inv (ap_cancel k r i s)"
  unfolding ap_cancel_def by (rule kept_go) simp_all

lemma kept_listen: "approvals_inv s \<Longrightarrow> knows s (apv_id a) a \<Longrightarrow> approvals_inv (ap_listen k r a s)"
  unfolding ap_listen_def
  by (rule kept_go [OF kept_other]) (auto simp: same_tables_def knows_def)

lemma kept_created:
  assumes "approvals_inv s" "knows s (apv_id a) a" shows "approvals_inv (ap_created W k r a created s)"
proof -
  let ?i = "apv_id a"
  let ?s1 = "s\<lparr>ap_pending := (ap_pending s)(r := (ap_pending s r)(?i := Some a)),
     ap_timer := (if apv_timeoutSec a > 0 then (ap_timer s)(r := (ap_timer s r)(?i := Some a)) else ap_timer s)\<rparr>"
  let ?s2 = "?s1\<lparr>ap_subs := (ap_subs ?s1)(r := (ap_subs ?s1 r)(?i := Some a))\<rparr>"
  have 1: "approvals_inv ?s1"
    by (rule kept_change [OF assms(1)]) (use assms(2) in \<open>auto simp: same_tables_def split: if_splits\<close>)
  have k1: "knows ?s1 ?i a" using assms(2) by (simp add: knows_def)
  have 2: "approvals_inv ?s2"
    by (rule kept_change [OF 1]) (use k1 in \<open>auto simp: same_tables_def split: if_splits\<close>)
  have k2: "knows ?s2 ?i a" using assms(2) by (simp add: knows_def)
  have "approvals_inv (ap_go k r (ApWaits (ApSubscribe a)) ?s2)" using 2 k2 by (intro kept_go) simp_all
  moreover have "approvals_inv (ap_listen k r a ?s1)" by (rule kept_listen [OF 1 k1])
  moreover have "approvals_inv (ap_end k (s\<lparr>ap_threw := (r, apv_id a) # ap_threw s\<rparr>))"
    by (rule kept_end [OF kept_other [OF assms(1)]]) (simp_all add: same_tables_def)
  ultimately show ?thesis by (simp add: ap_created_def Let_def)
qed

lemma kept_posted: "approvals_inv s \<Longrightarrow> approvals_inv (ap_posted k r a ok s)"
  unfolding ap_posted_def
  by (auto intro!: kept_end kept_cancel kept_forget kept_other [of s] simp: same_tables_def)

lemma kept_opened: "approvals_inv s \<Longrightarrow> approvals_inv (ap_opened k r a created s)"
  unfolding ap_opened_def
  by (auto intro!: kept_end kept_go kept_other [of s] simp: same_tables_def)

lemma kept_look:
  assumes "approvals_inv s" "reply_row_ok s (ac_id c) row" "local_known s (ac_id c) l"
  shows "approvals_inv (ap_look W k r c l row s)"
proof (cases row)
  case None
  then show ?thesis using assms(1) by (auto simp: ap_look_def intro!: kept_end kept_answer)
next
  case (Some g)
  then obtain a where a: "knows s (ac_id c) a" "pg_payload g = approval_payload a"
    using assms(2) Some unfolding reply_row_ok_def row_known_def by metis
  have "approvals_inv (ap_go k r (ApWaits (ApAuth c l (pg_payload g))) s)"
    if "apv_approvers a = [] \<or> ac_user c \<in> set (apv_approvers a)"
    using assms(1,3) a that by (intro kept_go) auto
  moreover have "approvals_inv (ap_go k r (ApSent (QResolve (ac_id c) GCancelled (ac_user c)) (ApStray c)) s)"
    using assms(1) by (intro kept_go) simp_all
  ultimately show ?thesis
    using Some a assms(1) by (auto simp: ap_look_def Let_def intro!: kept_end kept_answer)
qed

lemma kept_authorised:
  assumes "approvals_inv s" "stage_known s (ApWaits (ApAuth c l payload))"
  shows "approvals_inv (ap_authorised k r c l payload answer s)"
proof (cases "\<exists>grants. answer = Some grants \<and> \<not> isDenied (grants (payload_persona payload)) (ac_user c)")
  case False
  then show ?thesis using kept_end [OF assms(1)] by (auto simp: ap_authorised_def split: option.split)
next
  case True
  then obtain grants where g: "answer = Some grants" "\<not> isDenied (grants (payload_persona payload)) (ac_user c)" by blast
  let ?s = "s\<lparr>ap_auth := ap_auth s @ [\<lparr>aa_id = ac_id c, aa_user = ac_user c, aa_grants = grants\<rparr>]\<rparr>"
  have inv: "approvals_inv ?s" by (rule kept_other [OF assms(1)]) (auto simp: same_tables_def)
  obtain a where a: "knows s (ac_id c) a" "payload = approval_payload a"
    "apv_approvers a = [] \<or> ac_user c \<in> set (apv_approvers a)" using assms(2) by auto
  have "counted ?s (ac_id c) (ac_user c)"
    using a g(2) by (auto simp: counted_def knows_def may_approve_def)
  moreover have "local_known ?s (ac_id c) l"
    using assms(2) by (auto simp: local_known_def knows_def split: option.splits)
  ultimately have "approvals_inv (ap_go k r (ApSent (QResolve (ac_id c) (verdict c) (ac_user c)) (ApSettle c l)) ?s)"
    using inv by (intro kept_go) simp_all
  then show ?thesis using g by (simp add: ap_authorised_def)
qed

lemma kept_settled:
  assumes "approvals_inv s" "row \<noteq> None \<Longrightarrow> settled_as s (ac_id c) (verdict c) (ac_user c)"
  shows "approvals_inv (ap_settled k r c l row s)"
proof -
  have "settled_as (ap_forget r (ac_id c) s) i st u = settled_as s i st u" for i st u
    by (simp add: settled_as_def ap_forget_def)
  then show ?thesis using assms unfolding ap_settled_def
    by (auto intro!: kept_end kept_go kept_forget split: option.split)
qed

lemma kept_rechecked: "approvals_inv s \<Longrightarrow> approvals_inv (ap_rechecked k r c row s)"
  unfolding ap_rechecked_def by (auto intro!: kept_end kept_answer split: option.split)

lemma kept_responded:
  "approvals_inv s \<Longrightarrow> settled_as s (ac_id c) (verdict c) (ac_user c) \<Longrightarrow> approvals_inv (ap_responded k r c s)"
  unfolding ap_responded_def by (intro kept_end kept_deliver) (auto simp: decided_def verdict_def split: if_splits)

text \<open>A settled row of the log gives a decision of its own click.\<close>

lemma decided_by_row:
  assumes "approvals_inv s" "g \<in> set (ap_log s)" "pg_id g = i"
  shows "decided s i (decisionFromApprovalRow g)"
proof -
  have "clicked_row s g" using assms(1,2) by (auto simp: approvals_inv_def table_ok_def)
  then show ?thesis using assms(2,3)
    by (cases "pg_status g") (auto simp: clicked_row_def decisionFromApprovalRow_def decided_def settled_as_def system_no_def Let_def)
qed

lemma kept_woken:
  assumes "approvals_inv s" "reply_row_ok s (apv_id a) row"
  shows "approvals_inv (ap_woken k r a row s)"
proof (cases row)
  case None
  then show ?thesis using kept_end [OF assms(1)] by (simp add: ap_woken_def)
next
  case (Some g)
  then have "pg_status g \<noteq> GPending \<Longrightarrow> decided s (apv_id a) (decisionFromApprovalRow g)"
    using assms by (intro decided_by_row) (auto simp: reply_row_ok_def)
  then show ?thesis using Some assms(1) by (auto simp: ap_woken_def intro!: kept_end kept_answer)
qed

lemma kept_timer_looked: "approvals_inv s \<Longrightarrow> approvals_inv (ap_timer_looked k r a row s)"
  unfolding ap_timer_looked_def by (auto intro!: kept_end kept_answer)

lemma kept_timer_fires: "approvals_inv s \<Longrightarrow> approvals_inv (ap_timer_fires k r i s)"
  unfolding ap_timer_fires_def Let_def
  by (auto intro!: kept_go kept_other [of s] simp: same_tables_def split: option.split if_splits)

lemma kept_open_timer_fires: "approvals_inv s \<Longrightarrow> approvals_inv (ap_open_timer_fires k r i s)"
  unfolding ap_open_timer_fires_def
  by (auto intro!: kept_go kept_other [of s] simp: same_tables_def split: option.split)

lemma kept_aborts: "approvals_inv s \<Longrightarrow> approvals_inv (ap_aborts k r i s)"
  unfolding ap_aborts_def Let_def
  by (auto intro!: kept_deliver kept_cancel kept_forget kept_other [of s] simp: same_tables_def)

section \<open>Statements\<close>

lemma run_op_fields:
  assumes "run_op x s = (won, s')"
  obtains T where "gate_exec concat_objects x (ap_rows s) = (won, T)" "s' = s\<lparr>ap_rows := T, ap_log := ap_log s @ won\<rparr>"
  using assms by (auto simp: run_op_def split: prod.splits)

text \<open>What one operation leaves in the table and settles.\<close>

lemma resolve_rows:
  assumes "gate_exec concat_objects (OResolve i st u None t) T = (won, T')" "keyed T"
  shows "\<forall>g \<in> set won. pg_id g = i \<and> pg_status g = st \<and> pg_resolvedBy g = Some u"
    and "\<forall>g \<in> set T'. \<exists>h \<in> set T. pg_id h = pg_id g \<and> pg_payload h = pg_payload g"
    and "\<forall>g \<in> set won. \<exists>h \<in> set T. pg_id h = pg_id g \<and> pg_payload h = pg_payload g"
proof -
  have eq: "won = (case fst (resolve concat_objects i st u None t T) of Some r \<Rightarrow> [r] | None \<Rightarrow> [])"
    "T' = snd (resolve concat_objects i st u None t T)"
    using assms(1) by (auto split: prod.splits)
  note cases = resolve_cases [OF assms(2), of concat_objects i st u None t]
  show "\<forall>g \<in> set won. pg_id g = i \<and> pg_status g = st \<and> pg_resolvedBy g = Some u"
    by (rule cases) (auto simp: eq)
  show "\<forall>g \<in> set T'. \<exists>h \<in> set T. pg_id h = pg_id g \<and> pg_payload h = pg_payload g"
    by (rule cases) (auto simp: eq settle_row_def)
  show "\<forall>g \<in> set won. \<exists>h \<in> set T. pg_id h = pg_id g \<and> pg_payload h = pg_payload g"
    by (rule cases) (auto simp: eq settle_row_def)
qed

lemma sweep_rows:
  assumes "gate_exec concat_objects (OSweep t) T = (won, T')"
  shows "\<forall>g \<in> set won. pg_status g = GExpired"
    and "\<forall>g \<in> set T'. \<exists>h \<in> set T. pg_id h = pg_id g \<and> pg_payload h = pg_payload g"
    and "\<forall>g \<in> set won. \<exists>h \<in> set T. pg_id h = pg_id g \<and> pg_payload h = pg_payload g"
  using assms by (auto simp: sweepExpired_def split: if_splits) blast+

lemma purge_rows:
  assumes "gate_exec concat_objects (OPurge a t) T = (won, T')"
  shows "won = []" "set T' \<subseteq> set T"
  using assms by (auto simp: purgeSettledOlderThan_def)

text \<open>An operation that creates nothing keeps the invariant, when what it settles as decided counts.\<close>

lemma kept_settling:
  assumes inv: "approvals_inv s" and run: "run_op x s = (won, s')" and "created_id x = []" "settles x"
    and rows: "\<forall>g \<in> set (ap_rows s'). \<exists>h \<in> set (ap_rows s). pg_id h = pg_id g \<and> pg_payload h = pg_payload g"
    and ids: "\<forall>g \<in> set won. \<exists>h \<in> set (ap_rows s). pg_id h = pg_id g \<and> pg_payload h = pg_payload g"
    and clicks: "\<forall>g \<in> set won. clicked_row s g"
  shows "approvals_inv s'"
proof -
  from run obtain T where T: "gate_exec concat_objects x (ap_rows s) = (won, T)"
    and s': "s' = s\<lparr>ap_rows := T, ap_log := ap_log s @ won\<rparr>" by (rule run_op_fields)
  have l: "learns s s'" by (simp add: s' learns_def)
  have table: "log_ok (ap_log s) [] (ap_rows s)" "\<forall>g \<in> set (ap_rows s). row_known s g" "\<forall>g \<in> set (ap_log s). clicked_row s g"
    using inv by (auto simp: approvals_inv_def table_ok_def)
  have "log_ok (ap_log s @ won) [] T"
    by (rule log_ok_exec [OF _ assms(4) T]) (use table(1) assms(3) in simp)
  moreover have "row_known s' g" if "g \<in> set T" for g
  proof -
    have "\<exists>h \<in> set (ap_rows s). pg_id h = pg_id g \<and> pg_payload h = pg_payload g" using rows that by (simp add: s')
    then obtain h where "h \<in> set (ap_rows s)" "pg_id h = pg_id g" "pg_payload h = pg_payload g" by blast
    then show ?thesis using table(2) learns_row [OF l, of h] unfolding row_known_def by metis
  qed
  moreover have "clicked_row s' g" if "g \<in> set (ap_log s @ won)" for g
    using that table(3) clicks learns_clicked [OF l] by auto
  ultimately have "table_ok s'" by (simp add: table_ok_def s')
  moreover have "stages_ok s'"
    using inv learns_stage [OF l] unfolding approvals_inv_def stages_ok_def s' by simp
  moreover have "fresh_ok s'"
  proof -
    have T: "pg_id ` set T \<subseteq> pg_id ` set (ap_rows s)" using rows by (simp add: s' image_subset_iff) (metis image_eqI)
    have W: "pg_id ` set (ap_log s @ won) \<subseteq> pg_id ` set (ap_log s) \<union> pg_id ` set (ap_rows s)"
      using ids by (simp add: image_Un image_subset_iff) (metis UnI2 image_eqI)
    have "i \<notin> pg_id ` set T \<and> i \<notin> pg_id ` set (ap_log s @ won)"
      if "i \<notin> pg_id ` set (ap_rows s)" "i \<notin> pg_id ` set (ap_log s)" for i
      using that T W by blast
    then show ?thesis using inv unfolding approvals_inv_def fresh_ok_def s' by simp
  qed
  moreover have "waiting_ok s'" using inv by (simp add: approvals_inv_def waiting_ok_def s' knows_def)
  moreover have "answers_ok s'"
    using inv learns_decided [OF l] unfolding approvals_inv_def answers_ok_def s' by fastforce
  ultimately show ?thesis by (simp add: approvals_inv_def)
qed

lemma table_facts:
  assumes "approvals_inv s"
  shows "keyed (ap_rows s)" "g \<in> set (ap_rows s) \<Longrightarrow> row_known s g"
    "g \<in> set (ap_rows s) \<Longrightarrow> pg_status g \<noteq> GPending \<Longrightarrow> g \<in> set (ap_log s)"
  using assms unfolding approvals_inv_def table_ok_def log_ok_def by (auto split: if_splits)

lemma kept_sweep: "approvals_inv s \<Longrightarrow> approvals_inv (snd (run_op (OSweep t) s))"
proof -
  assume inv: "approvals_inv s"
  obtain won s' where run: "run_op (OSweep t) s = (won, s')" by fastforce
  from run obtain T where T: "gate_exec concat_objects (OSweep t) (ap_rows s) = (won, T)"
    and s': "s' = s\<lparr>ap_rows := T, ap_log := ap_log s @ won\<rparr>" by (rule run_op_fields)
  note r = sweep_rows [OF T]
  have "approvals_inv s'"
    by (rule kept_settling [OF inv run]) (use r in \<open>auto simp: s' clicked_row_def\<close>)
  then show ?thesis by (simp add: run)
qed

lemma kept_purge: "approvals_inv s \<Longrightarrow> approvals_inv (snd (run_op (OPurge a t) s))"
proof -
  assume inv: "approvals_inv s"
  obtain won s' where run: "run_op (OPurge a t) s = (won, s')" by fastforce
  from run obtain T where T: "gate_exec concat_objects (OPurge a t) (ap_rows s) = (won, T)"
    and s': "s' = s\<lparr>ap_rows := T, ap_log := ap_log s @ won\<rparr>" by (rule run_op_fields)
  note r = purge_rows [OF T]
  have "approvals_inv s'"
    by (rule kept_settling [OF inv run]) (use r in \<open>auto simp: s'\<close>)
  then show ?thesis by (simp add: run)
qed

lemma kept_resolve:
  assumes inv: "approvals_inv s" and st: "stage_known s (ApSent (QResolve i st u) c)"
    and run: "run_op (OResolve i st u None t) s = (won, s')"
  shows "approvals_inv s' \<and> stage_known s' (ApRan (Row (case won of g # _ \<Rightarrow> Some g | [] \<Rightarrow> None)) c)"
proof
  from run obtain T where T: "gate_exec concat_objects (OResolve i st u None t) (ap_rows s) = (won, T)"
    and s': "s' = s\<lparr>ap_rows := T, ap_log := ap_log s @ won\<rparr>" by (rule run_op_fields)
  note r = resolve_rows [OF T table_facts(1) [OF inv]]
  have cl: "\<forall>g \<in> set won. clicked_row s g"
    using st r(1) by (auto simp: clicked_row_def verdict_def split: approval_cont.splits if_splits)
  have "st \<noteq> GPending" using st by (auto simp: verdict_def split: approval_cont.splits if_splits)
  then show inv': "approvals_inv s'"
    by (intro kept_settling [OF inv run]) (use r cl in \<open>auto simp: s'\<close>)
  have l: "learns s s'" by (simp add: s' learns_def)
  have "settled_as s' i st u" if "won \<noteq> []"
    using that r(1) by (cases won) (auto simp: settled_as_def s')
  then show "stage_known s' (ApRan (Row (case won of g # _ \<Rightarrow> Some g | [] \<Rightarrow> None)) c)"
    using st learns_local [OF l] by (cases c) (auto split: list.splits)
qed

lemma kept_create:
  assumes inv: "approvals_inv s" and a: "knows s (apv_id a) a" and creator: "ap_creator s (apv_id a) = Some k"
    and none: "\<And>r st. ap_tasks s k \<noteq> Some (r, st)"
    and run: "run_op (OCreate fresh inst now (approval_args a t)) s = (won, s')"
  shows "approvals_inv (s'\<lparr>ap_creator := (ap_creator s)(apv_id a := None)\<rparr>)" (is "approvals_inv ?s")
proof -
  from run obtain T where T: "gate_exec concat_objects (OCreate fresh inst now (approval_args a t)) (ap_rows s) = (won, T)"
    and s': "s' = s\<lparr>ap_rows := T, ap_log := ap_log s @ won\<rparr>" by (rule run_op_fields)
  have id: "ga_id (approval_args a t) = Some (apv_id a)" "ga_payload (approval_args a t) = Some (approval_payload a)"
    by (simp_all add: approval_args_def)
  have new: "apv_id a \<notin> pg_id ` set (ap_rows s)" "apv_id a \<notin> pg_id ` set (ap_log s)"
    using inv creator by (auto simp: approvals_inv_def fresh_ok_def)
  obtain row where row: "create fresh inst now (approval_args a t) (ap_rows s) = Some (row, ap_rows s @ [row])"
      "pg_id row = apv_id a" "pg_payload row = approval_payload a"
    using new(1) id by (auto simp: create_def Let_def)
  then have won: "won = []" "T = ap_rows s @ [row]" using T by simp_all
  have s: "?s = s\<lparr>ap_rows := ap_rows s @ [row], ap_creator := (ap_creator s)(apv_id a := None)\<rparr>"
    by (simp add: s' won)
  have l: "learns s ?s" by (simp add: s learns_def)
  have table: "log_ok (ap_log s) [] (ap_rows s)" "\<forall>g \<in> set (ap_rows s). row_known s g" "\<forall>g \<in> set (ap_log s). clicked_row s g"
    using inv by (auto simp: approvals_inv_def table_ok_def)
  have "log_ok (ap_log s) [apv_id a] (ap_rows s)" using table(1) new by (auto simp: log_ok_def)
  then have "log_ok (ap_log s @ won) [] T" using log_ok_exec [OF _ _ T, of "ap_log s" "[]"] id by simp
  moreover have "row_known ?s row" using row a by (auto simp: row_known_def knows_def s)
  ultimately have "table_ok ?s"
    using table(2,3) learns_row [OF l] learns_clicked [OF l] by (auto simp: table_ok_def s won)
  moreover have "stages_ok ?s" unfolding stages_ok_def
  proof (intro allI impI)
    fix k' r st assume t: "ap_tasks ?s k' = Some (r, st)"
    then have old: "ap_tasks s k' = Some (r, st)" "k' \<noteq> k" using none by (auto simp: s)
    then show "stage_known ?s st \<and> (\<forall>b c. st = ApSent (QCreate b) c \<longrightarrow> ap_creator ?s (apv_id b) = Some k')"
      using inv creator learns_stage [OF l] unfolding approvals_inv_def stages_ok_def s by fastforce
  qed
  moreover have "fresh_ok ?s"
    using inv a row(2) unfolding approvals_inv_def fresh_ok_def knows_def s by auto
  moreover have "waiting_ok ?s" using inv by (simp add: approvals_inv_def waiting_ok_def s knows_def)
  moreover have "answers_ok ?s"
    using inv learns_decided [OF l] unfolding approvals_inv_def answers_ok_def s by fastforce
  ultimately show ?thesis by (simp add: approvals_inv_def)
qed

section \<open>Every step keeps the invariant\<close>

lemma kept_run_query:
  assumes inv: "approvals_inv s" and task: "ap_tasks s k = Some (r, ApSent q c)"
    and run: "run_query W r now q s = (rep, s')"
  shows "approvals_inv (ap_go k r (ApRan rep c) s')"
proof -
  have st: "stage_known s (ApSent q c)" and creator: "\<And>a. q = QCreate a \<Longrightarrow> ap_creator s (apv_id a) = Some k"
    using inv task unfolding approvals_inv_def stages_ok_def by blast+
  show ?thesis
  proof (cases q)
    case (QGet i)
    then have eq: "s' = s" "rep = Row (get_gate i (ap_rows s))" using run by (auto simp: run_query_def)
    have "reply_row_ok s i (get_gate i (ap_rows s))"
      unfolding reply_row_ok_def using table_facts [OF inv] get_gate_mem get_gate_id by blast
    then have "stage_known s (ApRan rep c)" using st QGet eq by (cases c) auto
    then show ?thesis unfolding eq(1) by (intro kept_go [OF inv]) simp_all
  next
    case (QResolve i st' u)
    obtain won s1 where op: "run_op (OResolve i st' u None now) s = (won, s1)" by fastforce
    then have eq: "s' = s1" "rep = Row (case won of g # _ \<Rightarrow> Some g | [] \<Rightarrow> None)"
      using run QResolve by (simp_all add: run_query_def query_op_def)
    from kept_resolve [OF inv st [unfolded QResolve] op] eq show ?thesis by (intro kept_go) auto
  next
    case (QCreate a)
    then have a: "knows s (apv_id a) a" "c = ApCreate a \<or> c = ApOpenCreate a" using st by simp_all
    let ?x = "OCreate [] (aw_instance W r) now (approval_args a now)" and ?s = "ap_end k s"
    obtain won s1 where op: "run_op ?x ?s = (won, s1)" by fastforce
    have k: "knows ?s (apv_id a) a" "ap_creator ?s (apv_id a) = Some k"
      using a creator [OF QCreate] by (simp_all add: ap_end_def knows_def)
    have none: "ap_tasks ?s k \<noteq> Some (r, st)" for r st by (simp add: ap_end_def)
    have inv': "approvals_inv (s1\<lparr>ap_creator := (ap_creator ?s)(apv_id a := None)\<rparr>)"
      by (rule kept_create [OF kept_end [OF inv] k none op])
    have asked: "ap_asked s1 = ap_asked s" using op by (auto simp: run_op_def ap_end_def split: prod.splits)
    then have "stage_known (s1\<lparr>ap_creator := (ap_creator ?s)(apv_id a := None)\<rparr>) (ApRan rep c)"
      using a by (auto simp: knows_def)
    from kept_go [OF inv' this, of k r]
    have "approvals_inv (ap_go k r (ApRan rep c) (s1\<lparr>ap_creator := (ap_creator ?s)(apv_id a := None)\<rparr>))" by simp
    moreover have "ap_go k r (ApRan rep c) (s1\<lparr>ap_creator := (ap_creator ?s)(apv_id a := None)\<rparr>) = ap_go k r (ApRan rep c) s'"
      using run QCreate op by (auto simp: run_query_def query_op_def run_op_def ap_end_def ap_go_def split: prod.splits)
    ultimately show ?thesis by simp
  qed
qed

lemma kept_ask:
  assumes inv: "approvals_inv s" and new: "ap_asked s i = None"
  shows "approvals_inv (ask_approval k r i src req secs poll s)"
proof (cases "resolveApprovers src req")
  case None
  then show ?thesis using kept_other [OF inv, of "s\<lparr>ap_threw := (r, i) # ap_threw s\<rparr>"]
    by (simp add: ask_approval_def same_tables_def)
next
  case (Some ids)
  let ?a = "\<lparr>apv_id = i, apv_req = req, apv_approvers = ids, apv_timeoutSec = secs, apv_poll = poll\<rparr>"
  let ?c = "if poll then ApOpenCreate ?a else ApCreate ?a"
  let ?s = "ap_go k r (ApSent (QCreate ?a) ?c) (s\<lparr>ap_asked := (ap_asked s)(i := Some ?a), ap_creator := (ap_creator s)(i := Some k)\<rparr>)"
  have f: "ap_rows ?s = ap_rows s" "ap_log ?s = ap_log s" "ap_auth ?s = ap_auth s" "ap_asked ?s = (ap_asked s)(i := Some ?a)"
    "ap_pending ?s = ap_pending s" "ap_subs ?s = ap_subs s" "ap_timer ?s = ap_timer s" "ap_promise ?s = ap_promise s"
    "ap_nodes ?s = ap_nodes s" "ap_creator ?s = (ap_creator s)(i := Some k)"
    "ap_tasks ?s = (ap_tasks s)(k \<mapsto> (r, ApSent (QCreate ?a) ?c))"
    by (simp_all add: ap_go_def)
  have l: "learns s ?s" using new by (auto simp: learns_def f)
  have "table_ok ?s"
    using inv learns_row [OF l] learns_clicked [OF l] unfolding approvals_inv_def table_ok_def f by blast
  moreover have "stages_ok ?s" unfolding stages_ok_def
  proof (intro allI impI)
    fix k' r' st assume t: "ap_tasks ?s k' = Some (r', st)"
    show "stage_known ?s st \<and> (\<forall>b c. st = ApSent (QCreate b) c \<longrightarrow> ap_creator ?s (apv_id b) = Some k')"
    proof (cases "k' = k")
      case True
      then have "st = ApSent (QCreate ?a) ?c" using t by (simp add: f)
      then show ?thesis using True by (auto simp: knows_def f)
    next
      case False
      then have old: "ap_tasks s k' = Some (r', st)" using t by (simp add: f)
      have "stage_known s st" "\<forall>b c. st = ApSent (QCreate b) c \<longrightarrow> ap_creator s (apv_id b) = Some k'"
        using inv old unfolding approvals_inv_def stages_ok_def by blast+
      moreover have "apv_id b \<noteq> i" if "st = ApSent (QCreate b) c" for b c
        using calculation(1) that new by (auto simp: knows_def)
      ultimately show ?thesis using learns_stage [OF l] by (auto simp: f)
    qed
  qed
  moreover have "fresh_ok ?s" using inv new unfolding approvals_inv_def fresh_ok_def f by auto
  moreover have "waiting_ok ?s" using inv learns_knows [OF l] unfolding approvals_inv_def waiting_ok_def f by blast
  moreover have "answers_ok ?s" using inv learns_decided [OF l] unfolding approvals_inv_def answers_ok_def f by fast
  ultimately show ?thesis using Some by (simp add: approvals_inv_def ask_approval_def Let_def)
qed

lemma kept_reply:
  assumes inv: "approvals_inv s" and st: "stage_known s (ApRan rep c)"
  shows "approvals_inv (ap_reply W k r rep c s)"
proof (cases rep)
  case (Created b)
  then show ?thesis using inv st
    by (cases c) (auto simp: ap_reply_def intro: kept_end kept_created kept_opened)
next
  case (Row row)
  then show ?thesis using inv st
    by (cases row; cases c)
      (auto simp: ap_reply_def intro!: kept_end kept_go kept_look kept_settled kept_rechecked kept_woken kept_timer_looked)
qed

lemma kept_return:
  assumes inv: "approvals_inv s" and st: "stage_known s (ApWaits c)"
  shows "approvals_inv (ap_return k r c ok s)"
proof (cases c)
  case (ApOpenPost a)
  then show ?thesis using inv
    by (auto simp: ap_return_def same_tables_def intro!: kept_end kept_cancel kept_other [of s])
next
  case (ApTimerPublish a)
  then show ?thesis using inv by (auto simp: ap_return_def intro!: kept_end kept_answer)
qed (use inv st in \<open>auto simp: ap_return_def intro: kept_listen kept_posted kept_responded\<close>)

lemma kept_poll:
  assumes inv: "approvals_inv s" and g: "get_gate i (ap_rows s) = Some g" "poll_answer now g = Some g'"
  shows "approvals_inv (s\<lparr>ap_nodes := ap_nodes s @ [(i, decisionFromApprovalRow g')]\<rparr>)"
proof -
  have "decided s i (decisionFromApprovalRow g')"
  proof (cases "pg_status g = GPending")
    case True
    then have "pg_status g' = GExpired" using g(2) by (auto simp: poll_answer_def split: if_splits)
    then show ?thesis by (simp add: decisionFromApprovalRow_def)
  next
    case False
    then have "g' = g" using g(2) by (auto simp: poll_answer_def)
    then show ?thesis using decided_by_row [OF inv] table_facts(3) [OF inv] get_gate_mem [OF g(1)] get_gate_id [OF g(1)] False by blast
  qed
  then show ?thesis by (intro kept_change [OF inv]) (auto simp: same_tables_def)
qed

lemma kept_crash: "approvals_inv s \<Longrightarrow> approvals_inv (ap_crash r s)"
  by (erule kept_change) (auto simp: ap_crash_def same_tables_def split: if_splits option.splits)

lemma waiter_known: "approvals_inv s \<Longrightarrow> ap_pending s r i = Some a \<Longrightarrow> knows s i a"
  "approvals_inv s \<Longrightarrow> ap_subs s r i = Some a \<Longrightarrow> knows s i a"
  unfolding approvals_inv_def waiting_ok_def by blast+

lemma task_known: "approvals_inv s \<Longrightarrow> ap_tasks s k = Some (r, st) \<Longrightarrow> stage_known s st"
  unfolding approvals_inv_def stages_ok_def by blast

lemma approval_step_inv: "approvals_inv s \<Longrightarrow> approvals_inv (approval_step W s e)"
proof (cases e)
  case (EvClick k r c)
  assume inv: "approvals_inv s"
  have "local_known s (ac_id c) (ap_pending s r (ac_id c))"
    using waiter_known(1) [OF inv] by (auto simp: local_known_def split: option.split)
  then show ?thesis using EvClick inv by (auto intro: kept_go)
next
  case (EvWake k r i)
  assume inv: "approvals_inv s"
  then have "ap_subs s r i = Some a \<Longrightarrow> apv_id a = i" for a using waiter_known(2) [OF inv] by (auto simp: knows_def)
  then show ?thesis using EvWake inv by (auto intro: kept_go split: option.split)
next
  case (EvRun k now)
  assume inv: "approvals_inv s"
  then show ?thesis using EvRun kept_run_query [OF inv]
    by (auto simp del: stage_known.simps split: option.split prod.split approval_stage.split)
next
  case (EvReply k)
  assume inv: "approvals_inv s"
  then show ?thesis using EvReply kept_reply [OF inv] task_known [OF inv]
    by (auto simp del: stage_known.simps split: option.split prod.split approval_stage.split)
next
  case (EvReturn k ok)
  assume inv: "approvals_inv s"
  then show ?thesis using EvReturn kept_return [OF inv] task_known [OF inv]
    by (auto simp del: stage_known.simps split: option.split prod.split approval_stage.split)
next
  case (EvAuth k answer)
  assume inv: "approvals_inv s"
  then show ?thesis using EvAuth kept_authorised [OF inv] task_known [OF inv]
    by (auto simp del: stage_known.simps split: option.split prod.split approval_stage.split approval_cont.split)
next
  case (EvPoll i now)
  assume inv: "approvals_inv s"
  then show ?thesis using EvPoll kept_poll [OF inv] by (auto split: option.split)
qed (auto intro: kept_ask kept_aborts kept_timer_fires kept_open_timer_fires kept_end kept_sweep kept_purge kept_crash)

lemma no_approvals_inv: "approvals_inv no_approvals"
  by (simp add: approvals_inv_def table_ok_def log_ok_def stages_ok_def fresh_ok_def waiting_ok_def answers_ok_def no_approvals_def)

interpretation approvals: machine "approval_step W" approvals_inv for W
  by unfold_locales (rule approval_step_inv)

lemma reachable_approvals: "approvals_inv (approval_run W es)"
  unfolding approval_run_def by (rule approvals.run_inv [OF no_approvals_inv])

section \<open>Who approved\<close>

definition chosen :: "approval_state \<Rightarrow> bool" where
  "chosen s \<longleftrightarrow> (\<forall>i a. ap_asked s i = Some a \<longrightarrow> (\<exists>src. resolveApprovers src (apv_req a) = Some (apv_approvers a)))"

lemma asked_unchanged:
  assumes "\<And>k r i src req secs poll. e \<noteq> EvAsk k r i src req secs poll"
  shows "ap_asked (approval_step W s e) = ap_asked s"
proof -
  have a: "ap_asked (ap_go k r st s) = ap_asked s" "ap_asked (ap_end k s) = ap_asked s" "ap_asked (ap_forget r i s) = ap_asked s"
    "ap_asked (ap_deliver r i d s) = ap_asked s" "ap_asked (ap_answer r i d s) = ap_asked s" "ap_asked (ap_cancel k r i s) = ap_asked s"
    "ap_asked (ap_listen k r a s) = ap_asked s" "ap_asked (snd (run_op x s)) = ap_asked s" "ap_asked (ap_crash r s) = ap_asked s"
    for k r st s i d a x
    by (simp_all add: ap_updates ap_cancel_def ap_listen_def ap_crash_def run_op_def split: prod.split)
  have q: "ap_asked s' = ap_asked s" if "run_query W r now q s = (rep, s')" for r now q rep s'
    using that by (cases q) (auto simp: run_query_def run_op_def split: prod.splits)
  have r: "ap_asked (ap_reply W k r rep c s) = ap_asked s" for k r rep c
    by (auto simp: ap_reply_def ap_created_def ap_opened_def ap_look_def ap_settled_def ap_rechecked_def ap_woken_def
        ap_timer_looked_def Let_def a split: db_reply.split approval_cont.split option.split)
  have w: "ap_asked (ap_return k r c ok s) = ap_asked s" for k r c ok
    by (simp add: ap_return_def ap_posted_def ap_responded_def a split: approval_cont.split)
  have o: "ap_asked (ap_aborts k r i s) = ap_asked s" "ap_asked (ap_timer_fires k r i s) = ap_asked s"
    "ap_asked (ap_open_timer_fires k r i s) = ap_asked s" "ap_asked (ap_authorised k r c l p x s) = ap_asked s" for k r i c l p x
    by (simp_all add: ap_aborts_def ap_timer_fires_def ap_open_timer_fires_def ap_authorised_def Let_def a split: option.split)
  show ?thesis
  proof (cases e)
    case (EvRun k now)
    then show ?thesis using q by (auto simp: a split: option.split prod.split approval_stage.split)
  qed (use assms in \<open>auto simp: a r w o split: option.split prod.split approval_stage.split approval_cont.split\<close>)
qed

lemma chosen_step: "chosen s \<Longrightarrow> chosen (approval_step W s e)"
proof (cases "\<exists>k r i src req secs poll. e = EvAsk k r i src req secs poll")
  case True
  assume "chosen s"
  then have "chosen (ask_approval k r i src req secs poll s)" for k r i src req secs poll
    by (auto simp: chosen_def ask_approval_def ap_go_def Let_def split: option.split)
  then show ?thesis using True \<open>chosen s\<close> by auto
next
  case False
  assume "chosen s"
  then show ?thesis using asked_unchanged [of e W s] False by (simp add: chosen_def)
qed

lemma reachable_chosen: "chosen (approval_run W es)"
proof -
  have steps: "chosen (run_steps (approval_step W) s es)" if "chosen s" for s
    using that by (induction es arbitrary: s) (simp_all add: chosen_step)
  show ?thesis unfolding approval_run_def by (rule steps) (simp add: chosen_def no_approvals_def)
qed

lemma decided_approved:
  assumes "approvals_inv s" "decided s i d" "ad_approved d"
  shows "counted s i (ad_by d) \<and> settled_as s i GApproved (ad_by d)"
proof -
  have "settled_as s i GApproved (ad_by d)" using assms(2,3) by (auto simp: decided_def split: if_splits)
  moreover then obtain g where "g \<in> set (ap_log s)" "pg_id g = i" "pg_status g = GApproved" "pg_resolvedBy g = Some (ad_by d)"
    by (auto simp: settled_as_def)
  moreover then have "clicked_row s g" using assms(1) by (simp add: approvals_inv_def table_ok_def)
  ultimately show ?thesis by (auto simp: clicked_row_def)
qed

text \<open>Somebody was told a decision: the agent that waits in a process, or a node that polls.\<close>

definition told :: "approval_state \<Rightarrow> string \<Rightarrow> approval_decision \<Rightarrow> bool" where
  "told s i d \<longleftrightarrow> (\<exists>r. ap_promise s r i = Some d) \<or> (i, d) \<in> set (ap_nodes s)"

lemma told_decided: "approvals_inv s \<Longrightarrow> told s i d \<Longrightarrow> decided s i d"
  unfolding told_def approvals_inv_def answers_ok_def by auto


text \<open>C25: Everyone who is told the outcome of a click is told the same one: no two processes and nodes hear of
  different users or of an approval and a denial of one plan.\<close>

theorem approval_decided_once:
  assumes "told (approval_run W es) i d" "told (approval_run W es) i d'" "ad_note d = None" "ad_note d' = None"
  shows "d = d'"
proof -
  let ?s = "approval_run W es"
  have inv: "approvals_inv ?s" by (rule reachable_approvals)
  have "settled_as ?s i (if ad_approved d then GApproved else GDenied) (ad_by d)"
    "settled_as ?s i (if ad_approved d' then GApproved else GDenied) (ad_by d')"
    using told_decided [OF inv assms(1)] told_decided [OF inv assms(2)] assms(3,4) by (simp_all add: decided_def)
  then obtain g h where g: "g \<in> set (ap_log ?s)" "pg_id g = i" "pg_status g = (if ad_approved d then GApproved else GDenied)"
      "pg_resolvedBy g = Some (ad_by d)"
    and h: "h \<in> set (ap_log ?s)" "pg_id h = i" "pg_status h = (if ad_approved d' then GApproved else GDenied)"
      "pg_resolvedBy h = Some (ad_by d')"
    unfolding settled_as_def by blast
  have "distinct (map pg_id (ap_log ?s))" using inv by (simp add: approvals_inv_def table_ok_def log_ok_def)
  then have "g = h" using g(1,2) h(1,2) by (auto simp: distinct_map inj_on_def)
  then show ?thesis using g(3,4) h(3,4) assms(3,4) by (cases d; cases d') (auto split: if_splits)
qed

section \<open>The auto-deny timer\<close>

definition timer_script :: "nat \<Rightarrow> nat \<Rightarrow> string \<Rightarrow> int \<Rightarrow> int \<Rightarrow> approval_event list" where
  "timer_script k r i t t' = [EvTimer k r i, EvRun k t, EvReply k, EvReturn k True, EvRun k t', EvReply k]"

lemma resolve_one:
  assumes "keyed T"
  shows "gate_exec concat_objects (OResolve i st u None t) T =
    (case get_gate i T of
       Some g \<Rightarrow> if pg_status g = GPending then [settle_row concat_objects st u None t g] else []
     | None \<Rightarrow> [], snd (resolve concat_objects i st u None t T))"
  using resolve_get(2) [OF assms, of concat_objects i st u None t]
  by (auto split: prod.split option.split)


section \<open>Runs on concrete events\<close>

definition gate_world_demo :: approval_world where
  "gate_world_demo = \<lparr>aw_bus = True, aw_instance = (\<lambda>r. if r = 0 then ''A'' else ''B'')\<rparr>"

definition asked_demo :: "approval_event list" where
  "asked_demo = [EvAsk 1 0 ''p1'' demo_sources (demo_request ''Run the database migration'') 60 False,
     EvRun 1 0, EvReply 1, EvReturn 1 True, EvReturn 1 True]"

definition click_demo :: "bool \<Rightarrow> approval_click" where
  "click_demo yes = \<lparr>ac_id = ''p1'', ac_user = ''U0BBBBBBB'', ac_approve = yes\<rparr>"

text \<open>A click another process takes, and the wake-up it sends.\<close>

definition sibling_demo :: "bool \<Rightarrow> approval_event list" where
  "sibling_demo yes = [EvClick 2 1 (click_demo yes), EvRun 2 5, EvReply 2, EvAuth 2 (Some (\<lambda>_. [])), EvRun 2 6, EvReply 2]"

definition woken_demo :: "approval_event list" where
  "woken_demo = [EvWake 4 0 ''p1'', EvRun 4 7, EvReply 4]"

definition yes_demo :: approval_decision where
  "yes_demo = \<lparr>ad_approved = True, ad_by = ''U0BBBBBBB'', ad_note = None\<rparr>"

lemma approved_demo:
  "let s = approval_run gate_world_demo (asked_demo @ sibling_demo True @ woken_demo @ [EvPoll ''p1'' 9]) in
     ap_promise s 0 ''p1'' = Some yes_demo \<and> (''p1'', yes_demo) \<in> set (ap_nodes s)"
  by code_simp

lemma told_demo: "told (approval_run gate_world_demo (asked_demo @ sibling_demo True @ woken_demo @ [EvPoll ''p1'' 9])) ''p1'' yes_demo"
  using approved_demo unfolding told_def Let_def by blast


theorem approval_decided_once_witness:
  "{d. told (approval_run gate_world_demo (asked_demo @ sibling_demo True @ woken_demo @ [EvPoll ''p1'' 9])) ''p1'' d
       \<and> ad_note d = None} = {yes_demo}"
proof -
  have "ad_note yes_demo = None" by (simp add: yes_demo_def)
  then show ?thesis using approval_decided_once [OF _ told_demo] told_demo by blast
qed

lemma waiting_demo:
  "let s = approval_run gate_world_demo asked_demo in
     (case ap_pending s 0 ''p1'' of Some a \<Rightarrow> apv_timeoutSec a = 60 | None \<Rightarrow> False)
     \<and> (case ap_timer s 0 ''p1'' of Some a \<Rightarrow> apv_timeoutSec a = 60 | None \<Rightarrow> False)
     \<and> ap_promise s 0 ''p1'' = None \<and> ap_tasks s 7 = None
     \<and> map_option pg_status (get_gate ''p1'' (ap_rows s)) = Some GPending"
  by code_simp


text \<open>A wake-up that is lost: the plan is approved, the timer has fired, the agent has no answer.\<close>

lemma lost_wake_up_waits_on:
  "let s = approval_run gate_world_demo (asked_demo @ sibling_demo True @ timer_script 7 0 ''p1'' 60000 60001) in
     ap_promise s 0 ''p1'' = None \<and> map_option pg_status (get_gate ''p1'' (ap_rows s)) = Some GApproved"
  by code_simp

text \<open>An abort while the subscription is awaited is missed: nobody listens yet, and the signal is not
  looked at afterwards.\<close>

lemma early_abort_missed:
  "(case ap_pending (approval_run gate_world_demo
      [EvAsk 1 0 ''p1'' demo_sources (demo_request ''Run the database migration'') 0 False,
       EvRun 1 0, EvReply 1, EvAbort 5 0 ''p1'', EvReturn 1 True, EvReturn 1 True]) 0 ''p1'' of Some a \<Rightarrow> True | None \<Rightarrow> False)"
  by code_simp

end
