(* ===== verification/NodeAuth.thy ===== *)
theory NodeAuth
  imports Complex_Main PanelAuth QueueKeys PermissionPolicy "HOL-Library.AList"
begin

text \<open>
  Who may call the gateway's node API: signed node credentials with their revocation
  (\<^verbatim>\<open>src/gateway/auth/node-credential.ts\<close>), the legacy shared token, the per-job token and the label
  gate (\<^verbatim>\<open>src/gateway/api/auth.ts\<close>). The codec of tokens (\<open>PanelAuth\<close>) and the store of revocations
  are parameters; the fractions of a second a revocation carries are rationals.
\<close>

section \<open>Objects\<close>

text \<open>A field set on an object (\<open>{...o, k: v}\<close>) and fields left out of it (\<open>const {k, ...rest} = o\<close>).
  The order of an object's fields is not kept: no reader of an object sees it.\<close>

definition jset :: "string \<Rightarrow> json \<Rightarrow> (string \<times> json) list \<Rightarrow> (string \<times> json) list" where
  "jset k v ob = filter (\<lambda>(k', _). k' \<noteq> k) ob @ [(k, v)]"

definition jdrop :: "string list \<Rightarrow> (string \<times> json) list \<Rightarrow> (string \<times> json) list" where
  "jdrop ks ob = filter (\<lambda>(k, _). k \<notin> set ks) ob"

lemma map_of_rev_filter:
  "map_of (rev (filter (\<lambda>(k, _). P k) ob)) k = (if P k then map_of (rev ob) k else None)"
  by (induction ob) (auto simp: map_add_def split: option.splits)

lemma jfield_jset [simp]: "jfield k (jset k' v ob) = (if k = k' then Some v else jfield k ob)"
  using map_of_rev_filter [of "\<lambda>x. x \<noteq> k'" ob k]
  by (auto simp: jfield_def jset_def)

lemma jfield_jdrop [simp]: "jfield k (jdrop ks ob) = (if k \<in> set ks then None else jfield k ob)"
  using map_of_rev_filter [of "\<lambda>x. x \<notin> set ks" ob k] by (simp add: jfield_def jdrop_def)

definition jnum :: "string \<Rightarrow> (string \<times> json) list \<Rightarrow> int option" where
  "jnum k ob = (case jfield k ob of Some (JNum (Some n)) \<Rightarrow> Some n | _ \<Rightarrow> None)"

definition jstr :: "string \<Rightarrow> (string \<times> json) list \<Rightarrow> string option" where
  "jstr k ob = (case jfield k ob of Some (JStr s) \<Rightarrow> Some s | _ \<Rightarrow> None)"

section \<open>Node credentials\<close>

definition LEGACY_NODE_ID :: string where "LEGACY_NODE_ID = ''legacy''"
definition MAX_LABELS :: nat where "MAX_LABELS = 8"
definition DEFAULT_NODE_TTL_SEC :: int where "DEFAULT_NODE_TTL_SEC = 90 * 86400"
definition MAX_NODE_TTL_SEC :: int where "MAX_NODE_TTL_SEC = 400 * 86400"
definition MAX_IAT_SKEW_SEC :: int where "MAX_IAT_SKEW_SEC = 300"
definition MIN_NODE_KEY_LENGTH :: nat where "MIN_NODE_KEY_LENGTH = 32"

definition JOB_CLAIM_FIELDS :: "string list" where
  "JOB_CLAIM_FIELDS = [''tenant'', ''persona'', ''session'', ''scope'', ''job'', ''runAs'']"

definition node_id_char :: "char \<Rightarrow> bool" where
  "node_id_char c \<longleftrightarrow> is_lower c \<or> is_digit c \<or> c \<in> {CHR ''.'', CHR ''_'', CHR ''-''}"

definition NODE_ID_RE :: "string \<Rightarrow> bool" where
  "NODE_ID_RE s \<longleftrightarrow>
     (case s of [] \<Rightarrow> False
      | c # cs \<Rightarrow> (is_lower c \<or> is_digit c) \<and> length cs \<le> 63 \<and> list_all node_id_char cs)"

datatype key_violation = KeyShort string | KeyIsJobSecret string

definition key_violations :: "string \<Rightarrow> string \<Rightarrow> string \<Rightarrow> key_violation list" where
  "key_violations job name v =
     (if v = [] then []
      else (if length v < MIN_NODE_KEY_LENGTH then [KeyShort name] else [])
         @ (if job \<noteq> [] \<and> v = job then [KeyIsJobSecret name] else []))"

definition nodeKeyViolations :: "(string \<Rightarrow> string option) \<Rightarrow> key_violation list" where
  "nodeKeyViolations e =
     (let var = (\<lambda>n. case e n of Some v \<Rightarrow> v | None \<Rightarrow> []) in
      concat (map (\<lambda>n. key_violations (var ''SLAUDE_JOB_SECRET'') n (var n))
        [''SLAUDE_NODE_KEY'', ''SLAUDE_NODE_KEY_PREVIOUS'']))"

datatype labels_error = LabelsNotList | TooManyLabels | MalformedLabel | DuplicateLabel

fun well_formed_label :: "json \<Rightarrow> bool" where
  "well_formed_label (JStr l) = LABEL_RE l"
| "well_formed_label _ = False"

definition labelsError :: "json option \<Rightarrow> labels_error option" where
  "labelsError labels =
     (case labels of
        Some (JArr ls) \<Rightarrow>
          if ls = [] then Some LabelsNotList
          else if MAX_LABELS < length ls then Some TooManyLabels
          else if \<not> list_all well_formed_label ls then Some MalformedLabel
          else if length (remdups ls) \<noteq> length ls then Some DuplicateLabel
          else None
      | _ \<Rightarrow> Some LabelsNotList)"

datatype id_error = MalformedId | LegacyId | LabelPrefixId

definition nodeIdError :: "json option \<Rightarrow> id_error option" where
  "nodeIdError i =
     (case i of
        Some (JStr s) \<Rightarrow>
          if \<not> NODE_ID_RE s then Some MalformedId
          else if s = LEGACY_NODE_ID then Some LegacyId
          else if starts_with s ''label.'' then Some LabelPrefixId
          else None
      | _ \<Rightarrow> Some MalformedId)"

record node_claims =
  nc_id :: string
  nc_labels :: "string list"
  nc_iat :: int
  nc_exp :: int

definition node_payload :: "string \<Rightarrow> string list \<Rightarrow> int \<Rightarrow> int \<Rightarrow> (string \<times> json) list" where
  "node_payload i labels iat expiry =
     [(''v'', JNum (Some 1)), (''typ'', JStr ''node''), (''id'', JStr i),
      (''labels'', JArr (map JStr labels)), (''iat'', JNum (Some iat)), (''exp'', JNum (Some expiry))]"

datatype mint_error = NoKey | BadId id_error | BadLabels labels_error | BadTtl | LongTtl

definition mintNodeCredential :: "codec \<Rightarrow> string \<Rightarrow> string list \<Rightarrow> int option \<Rightarrow> string option \<Rightarrow> int
    \<Rightarrow> mint_error + string" where
  "mintNodeCredential c i labels ttlSec key nowMs =
     (if \<not> truthy key then Inl NoKey
      else case nodeIdError (Some (JStr i)) of
        Some e \<Rightarrow> Inl (BadId e)
      | None \<Rightarrow> (case labelsError (Some (JArr (map JStr labels))) of
          Some e \<Rightarrow> Inl (BadLabels e)
        | None \<Rightarrow>
            (let ttl = (case ttlSec of Some t \<Rightarrow> t | None \<Rightarrow> DEFAULT_NODE_TTL_SEC); iat = nowMs div 1000 in
             if ttl \<le> 0 then Inl BadTtl
             else if MAX_NODE_TTL_SEC < ttl then Inl LongTtl
             else Inr (encodeJwt c (JObj (node_payload i labels iat (iat + ttl))) (the key)))))"

datatype node_reason = NodeRefused verify_reason | NodeBadClaims | NodeRevoked

fun json_strings :: "json list \<Rightarrow> string list" where
  "json_strings [] = []"
| "json_strings (JStr s # js) = s # json_strings js"
| "json_strings (_ # js) = json_strings js"

definition label_list :: "json option \<Rightarrow> string list" where
  "label_list labels = (case labels of Some (JArr ls) \<Rightarrow> json_strings ls | _ \<Rightarrow> [])"

text \<open>\<open>Infinity\<close> as a time is refused by the two bounds below.\<close>

definition checked_claims :: "(string \<times> json) list \<Rightarrow> int \<Rightarrow> node_claims option" where
  "checked_claims ob nowMs =
     (case (jstr ''id'' ob, jnum ''iat'' ob, jnum ''exp'' ob) of
        (Some i, Some iat, Some expiry) \<Rightarrow>
          if jfield ''v'' ob \<noteq> Some (JNum (Some 1))
             \<or> jfield ''typ'' ob \<noteq> Some (JStr ''node'')
             \<or> nodeIdError (jfield ''id'' ob) \<noteq> None
             \<or> labelsError (jfield ''labels'' ob) \<noteq> None
             \<or> nowMs + MAX_IAT_SKEW_SEC * 1000 < iat * 1000
             \<or> MAX_NODE_TTL_SEC < expiry - iat
             \<or> list_ex (\<lambda>k. jfield k ob \<noteq> None) JOB_CLAIM_FIELDS
          then None
          else Some \<lparr>nc_id = i, nc_labels = label_list (jfield ''labels'' ob), nc_iat = iat, nc_exp = expiry\<rparr>
      | _ \<Rightarrow> None)"

definition reason_of :: "verify_reason \<Rightarrow> node_reason" where
  "reason_of r = (if r = WrongType then NodeBadClaims else NodeRefused r)"

fun try_keys :: "codec \<Rightarrow> string option \<Rightarrow> int \<Rightarrow> string list \<Rightarrow> node_reason + node_claims" where
  "try_keys c token nowMs [] = Inl (NodeRefused BadSignature)"
| "try_keys c token nowMs (k # ks) =
     (case decodeJwt c token (Some k) nowMs of
        Inl r \<Rightarrow> if r = BadSignature then try_keys c token nowMs ks else Inl (reason_of r)
      | Inr ob \<Rightarrow> (case checked_claims ob nowMs of Some cl \<Rightarrow> Inr cl | None \<Rightarrow> Inl NodeBadClaims))"

definition verifyNodeCredentialSync :: "codec \<Rightarrow> string list \<Rightarrow> string option \<Rightarrow> int
    \<Rightarrow> node_reason + node_claims" where
  "verifyNodeCredentialSync c keys token nowMs =
     (let ks = filter (\<lambda>k. k \<noteq> []) keys in
      if ks = [] then Inl (NodeRefused Unconfigured) else try_keys c token nowMs ks)"

section \<open>Revocation\<close>

text \<open>\<open>None\<close>: there is no revocation store; \<open>Some None\<close>: the id is not revoked.\<close>

type_synonym revoked_before = "rat option option"

record revocation_entry =
  rv_at :: int
  rv_before :: revoked_before

type_synonym revocation_cache = "(string \<times> revocation_entry) list"

definition REVOCATION_CACHE_MS :: int where "REVOCATION_CACHE_MS = 30000"
definition MAX_STALE_REVOCATION_MS :: int where "MAX_STALE_REVOCATION_MS = 5 * 60000"

text \<open>Up to the await of the source: the answer of a fresh entry, or the hit the answer is settled
  with. The clock reading is the one of the call's start.\<close>

datatype revocation_ask = FreshHit revoked_before | AskSource "revocation_entry option"

definition revokedBefore :: "int \<Rightarrow> revocation_cache \<Rightarrow> string \<Rightarrow> int \<Rightarrow> revocation_ask" where
  "revokedBefore cacheMs cache i nowMs =
     (case map_of cache i of
        Some hit \<Rightarrow> if nowMs - rv_at hit < cacheMs then FreshHit (rv_before hit) else AskSource (Some hit)
      | None \<Rightarrow> AskSource None)"

text \<open>After it: \<open>None\<close> as the reply is a source that threw; \<open>None\<close> as the result that the call throws.\<close>

definition revocation_answer :: "int \<Rightarrow> revocation_cache \<Rightarrow> string \<Rightarrow> int \<Rightarrow> revocation_entry option
    \<Rightarrow> revoked_before option \<Rightarrow> revoked_before option \<times> revocation_cache" where
  "revocation_answer cacheMs cache i nowMs hit reply =
     (case reply of
        Some b \<Rightarrow>
          (Some b, AList.update i \<lparr>rv_at = nowMs, rv_before = b\<rparr> (if 1024 < length cache then [] else cache))
      | None \<Rightarrow>
          (case hit of
             Some h \<Rightarrow> (if nowMs - rv_at h < cacheMs + MAX_STALE_REVOCATION_MS then Some (rv_before h) else None, cache)
           | None \<Rightarrow> (None, cache)))"

definition revoked :: "node_claims \<Rightarrow> revoked_before \<Rightarrow> bool" where
  "revoked cl b = (case b of Some (Some t) \<Rightarrow> of_int (nc_iat cl) < t | _ \<Rightarrow> False)"

text \<open>\<open>verify\<close>, over the answer of \<open>#revokedBefore\<close> for an id (\<open>None\<close>: it threw, and so does this).\<close>

definition verifyNode :: "codec \<Rightarrow> (string \<Rightarrow> revoked_before option) \<Rightarrow> string list \<Rightarrow> string option \<Rightarrow> int
    \<Rightarrow> (node_reason + node_claims) option" where
  "verifyNode c before keys token nowMs =
     (case verifyNodeCredentialSync c keys token nowMs of
        Inl r \<Rightarrow> Some (Inl r)
      | Inr cl \<Rightarrow> (case before (nc_id cl) of
          None \<Rightarrow> None
        | Some b \<Rightarrow> Some (if revoked cl b then Inl NodeRevoked else Inr cl)))"

section \<open>Who calls\<close>

record auth_env =
  ae_nodeKey :: string
  ae_nodeKeyPrevious :: string
  ae_nodeLegacyToken :: string
  ae_nodeToken :: string
  ae_nodeLegacyOff :: bool
  ae_jobSecret :: string

definition node_keys :: "auth_env \<Rightarrow> string list" where
  "node_keys e = [ae_nodeKey e, ae_nodeKeyPrevious e]"

definition keyed :: "auth_env \<Rightarrow> bool" where
  "keyed e \<longleftrightarrow> ae_nodeKey e \<noteq> [] \<or> ae_nodeKeyPrevious e \<noteq> []"

definition looksLikeNodeCredential :: "codec \<Rightarrow> auth_env \<Rightarrow> int \<Rightarrow> string \<Rightarrow> bool" where
  "looksLikeNodeCredential c e nowMs t \<longleftrightarrow>
     (case verifyNodeCredentialSync c (node_keys e) (Some t) nowMs of
        Inr _ \<Rightarrow> True
      | Inl _ \<Rightarrow>
          (case split_on CHR ''.'' t of
             [h, body, s] \<Rightarrow>
               (case cd_read c body of
                  Some (JObj ob) \<Rightarrow> jfield ''typ'' ob \<noteq> None \<or> jfield ''exp'' ob \<noteq> None \<or> jfield ''labels'' ob \<noteq> None
                | _ \<Rightarrow> False)
           | _ \<Rightarrow> False))"

definition legacyToken :: "codec \<Rightarrow> auth_env \<Rightarrow> int \<Rightarrow> string" where
  "legacyToken c e nowMs =
     (if ae_nodeLegacyOff e then []
      else let own = js_trim (ae_nodeLegacyToken e);
               t = (if own \<noteq> [] then own else if keyed e then [] else js_trim (ae_nodeToken e)) in
           if t = [] \<or> looksLikeNodeCredential c e nowMs t then [] else t)"

record node_identity =
  ni_id :: string
  ni_labels :: "string list"
  ni_legacy :: bool

definition LEGACY_IDENTITY :: node_identity where
  "LEGACY_IDENTITY = \<lparr>ni_id = LEGACY_NODE_ID, ni_labels = [DEFAULT_LABEL], ni_legacy = True\<rparr>"

definition line_end :: "char \<Rightarrow> bool" where
  "line_end c \<longleftrightarrow> c = CHR 0x0A \<or> c = CHR 0x0D"

text \<open>\<open>/^Bearer\s+(.+)$/i\<close>: the dot takes no line end; with nothing after the white space its last
  character is given back.\<close>

definition bearer_of :: "string \<Rightarrow> string" where
  "bearer_of header =
     (if js_lower (take 6 header) \<noteq> ''bearer'' then []
      else let rest = drop 6 header; sp = takeWhile is_space rest; r = dropWhile is_space rest in
           if sp = [] then []
           else if r \<noteq> [] then (if list_ex line_end r then [] else r)
           else if 2 \<le> length sp \<and> \<not> line_end (last sp) then [last sp] else [])"

text \<open>The answers of \<open>authenticateNode\<close>; a signed node's expiry goes with it.\<close>

datatype node_auth = AuthNotConfigured | AuthUnauthorized | AuthStoreDown | AuthOk node_identity "int option"

definition authenticateNode :: "codec \<Rightarrow> auth_env \<Rightarrow> (string \<Rightarrow> revoked_before option) \<Rightarrow> string option \<Rightarrow> int
    \<Rightarrow> node_auth" where
  "authenticateNode c e before header nowMs =
     (let legacy = legacyToken c e nowMs in
      if legacy = [] \<and> \<not> keyed e then AuthNotConfigured
      else let bearer = bearer_of (case header of Some h \<Rightarrow> h | None \<Rightarrow> []) in
      if bearer = [] then AuthUnauthorized
      else if legacy \<noteq> [] \<and> timingSafeStringEqual c bearer legacy then AuthOk LEGACY_IDENTITY None
      else if keyed e then
        (case verifyNode c before (node_keys e) (Some bearer) nowMs of
           None \<Rightarrow> AuthStoreDown
         | Some (Inr cl) \<Rightarrow> AuthOk \<lparr>ni_id = nc_id cl, ni_labels = nc_labels cl, ni_legacy = False\<rparr> (Some (nc_exp cl))
         | Some (Inl r) \<Rightarrow> AuthUnauthorized)
      else AuthUnauthorized)"

section \<open>Job tokens\<close>

definition JOB_TOKEN_TTL_SEC :: int where "JOB_TOKEN_TTL_SEC = 15 * 60"

type_synonym job_claims = "(string \<times> json) list"

text \<open>\<open>None\<close>: no secret is set, and the code throws. \<open>exp\<close> among the claims is kept.\<close>

definition mintJobToken :: "codec \<Rightarrow> string \<Rightarrow> job_claims \<Rightarrow> int \<Rightarrow> string option" where
  "mintJobToken c secret claims nowMs =
     (if secret = [] then None
      else let nowSec = nowMs div 1000;
               expiry = (case jfield ''exp'' claims of Some e \<Rightarrow> e | None \<Rightarrow> JNum (Some (nowSec + JOB_TOKEN_TTL_SEC))) in
           Some (encodeJwt c (JObj (jset ''exp'' expiry (jset ''iat'' (JNum (Some nowSec)) claims))) secret))"

datatype job_reason = JMissing | JMalformed | JBadSignature | JExpired | JBadClaims | JUnconfigured

text \<open>Seconds of grace; \<open>None\<close> is a grace no token outlives (\<open>Number.MAX_SAFE_INTEGER\<close>).\<close>

definition job_expired :: "json option \<Rightarrow> nat option \<Rightarrow> int \<Rightarrow> bool" where
  "job_expired e grace nowSec =
     (case e of
        Some (JNum (Some t)) \<Rightarrow> (case grace of Some g \<Rightarrow> t + int g \<le> nowSec | None \<Rightarrow> False)
      | Some (JNum None) \<Rightarrow> False
      | _ \<Rightarrow> True)"

definition JOB_STRING_CLAIMS :: "string list" where
  "JOB_STRING_CLAIMS = [''tenant'', ''persona'', ''session'', ''team'', ''channel'', ''thread'', ''initiator'', ''scope'']"

definition optional_text :: "json option \<Rightarrow> bool" where
  "optional_text v = (case v of None \<Rightarrow> True | Some (JStr s) \<Rightarrow> s \<noteq> [] | _ \<Rightarrow> False)"

definition origin_ok :: "json option \<Rightarrow> bool" where
  "origin_ok v = (case v of None \<Rightarrow> True | Some (JStr s) \<Rightarrow> s \<in> set TURN_ORIGINS | _ \<Rightarrow> False)"

definition good_job_claims :: "job_claims \<Rightarrow> bool" where
  "good_job_claims ob \<longleftrightarrow>
     list_all (\<lambda>k. is_str (jfield k ob)) JOB_STRING_CLAIMS
     \<and> jfield ''typ'' ob = None
     \<and> optional_text (jfield ''label'' ob) \<and> optional_text (jfield ''bgRun'' ob)
     \<and> (jfield ''wake'' ob = None \<or> (jfield ''wake'' ob = Some (JBool True) \<and> jfield ''bgRun'' ob \<noteq> None))
     \<and> origin_ok (jfield ''origin'' ob)"

definition verifyJobToken :: "codec \<Rightarrow> string \<Rightarrow> string option \<Rightarrow> nat option \<Rightarrow> int \<Rightarrow> job_reason + job_claims" where
  "verifyJobToken c secret token grace nowMs =
     (if secret = [] then Inl JUnconfigured
      else if \<not> truthy token then Inl JMissing
      else case split_on CHR ''.'' (the token) of
        [head, payload, sig] \<Rightarrow>
          if \<not> timingSafeStringEqual c (cd_sign c secret (head @ ''.'' @ payload)) sig then Inl JBadSignature
          else (case cd_read c payload of
                  Some (JObj ob) \<Rightarrow>
                    if job_expired (jfield ''exp'' ob) grace (nowMs div 1000) then Inl JExpired
                    else if good_job_claims ob then Inr ob else Inl JBadClaims
                | _ \<Rightarrow> Inl JMalformed)
      | _ \<Rightarrow> Inl JMalformed)"

definition claim_label :: "job_claims \<Rightarrow> string" where
  "claim_label ob = (case jfield ''label'' ob of Some (JStr l) \<Rightarrow> if l \<noteq> [] then l else DEFAULT_LABEL | _ \<Rightarrow> DEFAULT_LABEL)"

definition gateLabel :: "node_identity \<Rightarrow> job_claims \<Rightarrow> bool" where
  "gateLabel n ob \<longleftrightarrow> claim_label ob \<in> set (ni_labels n)"


section \<open>The verifier's lookups, interleaved\<close>

text \<open>A verifier with any number of calls in flight: a call starts (a fresh entry answers it at once)
  and is settled by the source's reply. \<open>rs_asked\<close> and \<open>rs_results\<close> record what the source answered
  to a lookup begun when, and what \<open>#revokedBefore\<close> gave to a call begun when.\<close>

record rev_state =
  rs_cache :: revocation_cache
  rs_pending :: "(nat \<times> string \<times> int \<times> revocation_entry option) list"
  rs_asked :: "(string \<times> int \<times> revoked_before) list"
  rs_results :: "(string \<times> int \<times> revoked_before) list"

datatype rev_event = VerifyStart nat string int | SourceReply nat "revoked_before option"

definition rev_step :: "int \<Rightarrow> rev_state \<Rightarrow> rev_event \<Rightarrow> rev_state" where
  "rev_step cacheMs s ev =
     (case ev of
        VerifyStart n i nowMs \<Rightarrow>
          (case revokedBefore cacheMs (rs_cache s) i nowMs of
             FreshHit b \<Rightarrow> s\<lparr>rs_results := rs_results s @ [(i, nowMs, b)]\<rparr>
           | AskSource hit \<Rightarrow> s\<lparr>rs_pending := AList.update n (i, nowMs, hit) (rs_pending s)\<rparr>)
      | SourceReply n reply \<Rightarrow>
          (case map_of (rs_pending s) n of
             None \<Rightarrow> s
           | Some (i, nowMs, hit) \<Rightarrow>
               (let (r, cache) = revocation_answer cacheMs (rs_cache s) i nowMs hit reply in
                s\<lparr>rs_cache := cache, rs_pending := AList.delete n (rs_pending s),
                  rs_asked := rs_asked s @ (case reply of Some b \<Rightarrow> [(i, nowMs, b)] | None \<Rightarrow> []),
                  rs_results := rs_results s @ (case r of Some b \<Rightarrow> [(i, nowMs, b)] | None \<Rightarrow> [])\<rparr>)))"

definition rev_start :: rev_state where
  "rev_start = \<lparr>rs_cache = [], rs_pending = [], rs_asked = [], rs_results = []\<rparr>"

section \<open>What an accepted credential is\<close>

lemma decodeJwt_accepts:
  assumes "decodeJwt c token secret nowMs = Inr ob"
  obtains t head body sig where "token = Some t" "t \<noteq> []" "split_on CHR ''.'' t = [head, body, sig]"
    "cd_read c body = Some (JObj ob)"
    "\<And>e. jfield ''exp'' ob = Some (JNum (Some e)) \<Longrightarrow> nowMs < e * 1000"
proof -
  obtain t where t: "token = Some t" "t \<noteq> []"
    using assms by (cases token) (auto simp: decodeJwt_def split: if_splits)
  obtain head body sig where parts: "split_on CHR ''.'' t = [head, body, sig]"
    using assms t by (auto simp: decodeJwt_def split: list.splits if_splits)
  have "cd_read c body = Some (JObj ob)"
    "jfield ''exp'' ob = Some (JNum (Some e)) \<Longrightarrow> nowMs < e * 1000" for e
    using assms t parts by (auto simp: decodeJwt_def split: if_splits option.splits json.splits)
  with t parts show thesis by (rule that)
qed

lemma try_keys_accepts:
  "try_keys c token nowMs ks = Inr cl \<Longrightarrow>
     \<exists>k ob. k \<in> set ks \<and> decodeJwt c token (Some k) nowMs = Inr ob \<and> checked_claims ob nowMs = Some cl"
  by (induction ks) (force split: sum.splits if_splits option.splits)+

lemma verified_node:
  assumes "verifyNodeCredentialSync c keys token nowMs = Inr cl"
  obtains k ob where "k \<in> set keys" "k \<noteq> []" "decodeJwt c token (Some k) nowMs = Inr ob"
    "checked_claims ob nowMs = Some cl"
proof -
  have "try_keys c token nowMs (filter (\<lambda>k. k \<noteq> []) keys) = Inr cl"
    using assms by (simp add: verifyNodeCredentialSync_def Let_def split: if_splits)
  from try_keys_accepts [OF this] that show thesis by auto
qed

lemma checked_claims_typ:
  "checked_claims ob nowMs = Some cl \<Longrightarrow> jfield ''typ'' ob = Some (JStr ''node'')"
  by (auto simp: checked_claims_def split: option.splits if_splits)

lemma verified_job:
  assumes "verifyJobToken c secret token grace nowMs = Inr ob"
  obtains t head body sig where "token = Some t" "split_on CHR ''.'' t = [head, body, sig]"
    "cd_digest c (cd_sign c secret (head @ ''.'' @ body)) = cd_digest c sig"
    "cd_read c body = Some (JObj ob)" "good_job_claims ob" "secret \<noteq> []"
    "\<not> job_expired (jfield ''exp'' ob) grace (nowMs div 1000)"
proof -
  obtain t where t: "token = Some t"
    using assms by (cases token) (auto simp: verifyJobToken_def split: if_splits)
  obtain head body sig where parts: "split_on CHR ''.'' t = [head, body, sig]"
    using assms t by (auto simp: verifyJobToken_def split: list.splits if_splits)
  show thesis
    by (rule that [OF t parts])
      (use assms t parts in \<open>auto simp: verifyJobToken_def timingSafeStringEqual_def split: if_splits option.splits json.splits\<close>)
qed

text \<open>C11: The two kinds of tokens never pass for each other, whatever the keys are, even when an operator
  gave the node key and the job secret the same value: no token is accepted both as a node credential
  and as a job token, at any time and with any grace.\<close>

theorem tokens_apart:
  "\<not> (verifyNodeCredentialSync c keys token nowMs = Inr cl
      \<and> verifyJobToken c secret token grace nowMs' = Inr ob)"
proof
  assume both: "verifyNodeCredentialSync c keys token nowMs = Inr cl
      \<and> verifyJobToken c secret token grace nowMs' = Inr ob"
  obtain k nob where n: "decodeJwt c token (Some k) nowMs = Inr nob" "checked_claims nob nowMs = Some cl"
    using both verified_node by blast
  obtain t head body sig where d: "token = Some t" "split_on CHR ''.'' t = [head, body, sig]"
    "cd_read c body = Some (JObj nob)"
    using decodeJwt_accepts [OF n(1)] by metis
  from both have "verifyJobToken c secret token grace nowMs' = Inr ob" by simp
  then obtain t' h' b' s' where j: "token = Some t'" "split_on CHR ''.'' t' = [h', b', s']"
    "cd_read c b' = Some (JObj ob)" "good_job_claims ob"
    by (rule verified_job)
  with d have "nob = ob" by simp
  then show False using j(4) checked_claims_typ [OF n(2)] by (simp add: good_job_claims_def)
qed

end
