(* ===== verification/NodeAuthFacts.thy ===== *)
theory NodeAuthFacts
  imports NodeAuth
begin

text \<open>
  What the gateway's node authentication guarantees: the shape of every identity it lets in, the proof
  each one rests on, the life of a signed credential and how soon a revocation bites.
\<close>

section \<open>The shape of an identity\<close>

definition well_formed_labels :: "string list \<Rightarrow> bool" where
  "well_formed_labels ls \<longleftrightarrow>
     ls \<noteq> [] \<and> length ls \<le> MAX_LABELS \<and> distinct ls \<and> list_all LABEL_RE ls"

lemma json_strings_map [simp]: "json_strings (map JStr ls) = ls"
  by (induction ls) auto

lemma well_formed_labels_strings:
  "list_all well_formed_label js \<Longrightarrow> js = map JStr (json_strings js) \<and> list_all LABEL_RE (json_strings js)"
proof (induction js)
  case (Cons j js)
  then show ?case by (cases j) auto
qed simp

lemma length_remdups_distinct: "length (remdups xs) = length xs \<longleftrightarrow> distinct xs"
  by (metis card_distinct distinct_card length_remdups_card_conv)

lemma labelsError_None:
  assumes "labelsError labels = None"
  shows "labels = Some (JArr (map JStr (label_list labels))) \<and> well_formed_labels (label_list labels)"
proof -
  obtain js where js: "labels = Some (JArr js)" "js \<noteq> []" "length js \<le> MAX_LABELS"
    "list_all well_formed_label js" "length (remdups js) = length js"
    using assms by (auto simp: labelsError_def split: option.splits json.splits if_splits)
  have eq: "js = map JStr (json_strings js)" and re: "list_all LABEL_RE (json_strings js)"
    using well_formed_labels_strings [OF js(4)] by auto
  have "distinct (map JStr (json_strings js))" using js(5) eq by (simp add: length_remdups_distinct)
  then have "distinct (json_strings js)" by (simp add: distinct_map)
  moreover have "length (json_strings js) = length js" using eq by (metis length_map)
  ultimately show ?thesis using js re eq by (auto simp: well_formed_labels_def label_list_def)
qed

lemma labelsError_strings:
  "labelsError (Some (JArr (map JStr ls))) = None \<longleftrightarrow> well_formed_labels ls"
proof
  assume "labelsError (Some (JArr (map JStr ls))) = None"
  from labelsError_None [OF this] show "well_formed_labels ls" by (simp add: label_list_def)
next
  assume "well_formed_labels ls"
  moreover from this have "distinct (map JStr ls)"
    by (simp add: well_formed_labels_def distinct_map inj_on_def)
  ultimately show "labelsError (Some (JArr (map JStr ls))) = None"
    by (auto simp: labelsError_def well_formed_labels_def distinct_remdups_id list_all_iff)
qed

definition well_formed_id :: "string \<Rightarrow> bool" where
  "well_formed_id i \<longleftrightarrow> NODE_ID_RE i \<and> i \<noteq> LEGACY_NODE_ID \<and> \<not> starts_with i ''label.''"

lemma nodeIdError_None: "nodeIdError (Some (JStr i)) = None \<longleftrightarrow> well_formed_id i"
  by (auto simp: nodeIdError_def well_formed_id_def)

lemma checked_claims_sound:
  assumes "checked_claims ob nowMs = Some cl"
  shows "jfield ''typ'' ob = Some (JStr ''node'')" "jfield ''id'' ob = Some (JStr (nc_id cl))"
    "jfield ''exp'' ob = Some (JNum (Some (nc_exp cl)))" "jfield ''iat'' ob = Some (JNum (Some (nc_iat cl)))"
    "well_formed_id (nc_id cl)" "well_formed_labels (nc_labels cl)"
    "nc_iat cl * 1000 \<le> nowMs + MAX_IAT_SKEW_SEC * 1000" "nc_exp cl - nc_iat cl \<le> MAX_NODE_TTL_SEC"
proof -
  obtain i iat expiry where f: "jstr ''id'' ob = Some i" "jnum ''iat'' ob = Some iat" "jnum ''exp'' ob = Some expiry"
    using assms by (auto simp: checked_claims_def split: option.splits)
  then have g: "jfield ''id'' ob = Some (JStr i)" "jfield ''iat'' ob = Some (JNum (Some iat))"
    "jfield ''exp'' ob = Some (JNum (Some expiry))"
    by (auto simp: jstr_def jnum_def split: option.splits json.splits)
  have cl: "cl = \<lparr>nc_id = i, nc_labels = label_list (jfield ''labels'' ob), nc_iat = iat, nc_exp = expiry\<rparr>"
    and ok: "nodeIdError (jfield ''id'' ob) = None" "labelsError (jfield ''labels'' ob) = None"
      "iat * 1000 \<le> nowMs + MAX_IAT_SKEW_SEC * 1000" "expiry - iat \<le> MAX_NODE_TTL_SEC"
      "jfield ''typ'' ob = Some (JStr ''node'')"
    using assms f by (auto simp: checked_claims_def split: if_splits)
  show "jfield ''typ'' ob = Some (JStr ''node'')" by (rule ok)
  show "jfield ''id'' ob = Some (JStr (nc_id cl))" "jfield ''exp'' ob = Some (JNum (Some (nc_exp cl)))"
    "jfield ''iat'' ob = Some (JNum (Some (nc_iat cl)))"
    "nc_iat cl * 1000 \<le> nowMs + MAX_IAT_SKEW_SEC * 1000" "nc_exp cl - nc_iat cl \<le> MAX_NODE_TTL_SEC"
    using cl g ok by simp_all
  show "well_formed_id (nc_id cl)" using cl g ok(1) nodeIdError_None by simp
  show "well_formed_labels (nc_labels cl)" using cl labelsError_None [OF ok(2)] by simp
qed

definition well_formed_identity :: "node_identity \<Rightarrow> bool" where
  "well_formed_identity n \<longleftrightarrow> well_formed_labels (ni_labels n)
     \<and> (if ni_legacy n then ni_id n = LEGACY_NODE_ID \<and> ni_labels n = [DEFAULT_LABEL] else well_formed_id (ni_id n))"

lemma legacy_well_formed: "well_formed_identity LEGACY_IDENTITY"
  by (simp add: well_formed_identity_def LEGACY_IDENTITY_def well_formed_labels_def MAX_LABELS_def
      DEFAULT_LABEL_def LABEL_RE_def label_tail_char_def is_lower_def)

text \<open>How a caller got in: by the legacy token, or by a signed credential that is not revoked.\<close>

lemma authenticated_cases:
  assumes "authenticateNode c e before header nowMs = AuthOk n expiry"
  obtains (legacy) bearer where "bearer = bearer_of (case header of Some h \<Rightarrow> h | None \<Rightarrow> [])"
      "legacyToken c e nowMs \<noteq> []" "timingSafeStringEqual c bearer (legacyToken c e nowMs)"
      "n = LEGACY_IDENTITY" "expiry = None"
  | (signed) bearer cl b where "bearer = bearer_of (case header of Some h \<Rightarrow> h | None \<Rightarrow> [])"
      "verifyNodeCredentialSync c (node_keys e) (Some bearer) nowMs = Inr cl"
      "before (nc_id cl) = Some b" "\<not> revoked cl b"
      "n = \<lparr>ni_id = nc_id cl, ni_labels = nc_labels cl, ni_legacy = False\<rparr>" "expiry = Some (nc_exp cl)"
  using assms
  by (auto simp: authenticateNode_def verifyNode_def Let_def split: if_splits option.splits sum.splits)

text \<open>C13: Every caller the gateway lets in has a well-formed identity: one to eight distinct labels, each
  of the label grammar; the legacy caller has the reserved id and the default label only, and a signed
  one an id of the node grammar that is neither the reserved id nor the name of a label queue. So no
  node's own queue is a label's queue.\<close>

theorem identity_well_formed:
  "(case authenticateNode c e before header nowMs of
      AuthOk n expiry \<Rightarrow> well_formed_identity n \<and> assertNodeIdUsable (ni_id n)
    | _ \<Rightarrow> True)"
proof (cases "authenticateNode c e before header nowMs")
  case (AuthOk n expiry)
  have usable: "assertNodeIdUsable i" if "NODE_ID_RE i" "\<not> starts_with i ''label.''" for i
  proof -
    have nocolon: "replace_char CHR '':'' CHR ''-'' i = i"
    proof -
      have "c \<noteq> CHR '':''" if "c \<in> set i" for c
        using that \<open>NODE_ID_RE i\<close>
        by (auto simp: NODE_ID_RE_def node_id_char_def list_all_iff is_lower_def is_digit_def split: list.splits)
      then show ?thesis by (auto simp: replace_char_def intro: map_idI)
    qed
    show ?thesis
      using that(2) by (simp add: assertNodeIdUsable_def nodeTurnsQueue_def nocolon LABEL_QUEUE_PREFIX_def
          TURNS_QUEUE_def)
  qed
  have "well_formed_identity n \<and> assertNodeIdUsable (ni_id n)"
    using AuthOk
  proof (cases rule: authenticated_cases)
    case (legacy bearer)
    have "assertNodeIdUsable LEGACY_NODE_ID"
      by (simp add: assertNodeIdUsable_def nodeTurnsQueue_def LEGACY_NODE_ID_def replace_char_def
          LABEL_QUEUE_PREFIX_def TURNS_QUEUE_def)
    then show ?thesis using legacy legacy_well_formed by (simp add: LEGACY_IDENTITY_def)
  next
    case (signed bearer cl b)
    obtain k ob where "checked_claims ob nowMs = Some cl"
      using verified_node [OF signed(2)] by metis
    from checked_claims_sound(5,6) [OF this] signed(5) usable show ?thesis
      by (simp add: well_formed_identity_def well_formed_id_def)
  qed
  with AuthOk show ?thesis by simp
qed (simp_all)


section \<open>The life of a credential\<close>

lemma try_keys_skip:
  assumes "\<And>k'. k' \<in> set ks \<Longrightarrow> decodeJwt c token (Some k') nowMs = Inl BadSignature"
  shows "try_keys c token nowMs (ks @ ks') = try_keys c token nowMs ks'"
  using assms by (induction ks) auto

lemma node_payload_fields:
  "jfield ''v'' (node_payload i ls iat e) = Some (JNum (Some 1))"
  "jfield ''typ'' (node_payload i ls iat e) = Some (JStr ''node'')"
  "jfield ''id'' (node_payload i ls iat e) = Some (JStr i)"
  "jfield ''labels'' (node_payload i ls iat e) = Some (JArr (map JStr ls))"
  "jfield ''iat'' (node_payload i ls iat e) = Some (JNum (Some iat))"
  "jfield ''exp'' (node_payload i ls iat e) = Some (JNum (Some e))"
  by (simp_all add: jfield_def node_payload_def)

lemma node_payload_no_job:
  "\<not> list_ex (\<lambda>k. jfield k (node_payload i ls iat e) \<noteq> None) JOB_CLAIM_FIELDS"
  by (simp add: jfield_def node_payload_def JOB_CLAIM_FIELDS_def)

text \<open>A minted credential verifies, with the id and labels it was minted for, under any list of keys
  that holds its key (the current or the previous one), from five minutes before its issue until it
  expires and not after: a key rotates without a flag day.\<close>

theorem credential_roundtrip:
  assumes "mintNodeCredential c i labels ttl (Some k) minted = Inr t"
    and "CHR ''.'' \<notin> set (cd_body c jwt_header)" "\<And>p. CHR ''.'' \<notin> set (cd_body c p)"
    and "\<And>s. CHR ''.'' \<notin> set (cd_sign c k s)"
    and "life = (case ttl of Some n \<Rightarrow> n | None \<Rightarrow> 90 * 86400)"
    and "pl = node_payload i labels (minted div 1000) (minted div 1000 + life)"
    and "cd_read c (cd_body c (JObj pl)) = Some (JObj pl)"
    and "content = cd_body c jwt_header @ ''.'' @ cd_body c (JObj pl)"
    and "\<And>k'. k' \<in> set newer \<Longrightarrow> cd_digest c (cd_sign c k' content) \<noteq> cd_digest c (cd_sign c k content)"
  shows "verifyNodeCredentialSync c (newer @ k # older) (Some t) nowMs =
     (if (minted div 1000 + life) * 1000 \<le> nowMs then Inl (NodeRefused Expired)
      else if nowMs + 300000 < minted div 1000 * 1000 then Inl NodeBadClaims
      else Inr \<lparr>nc_id = i, nc_labels = labels, nc_iat = minted div 1000, nc_exp = minted div 1000 + life\<rparr>)"
proof -
  have k: "k \<noteq> []" and idok: "nodeIdError (Some (JStr i)) = None"
    and labok: "labelsError (Some (JArr (map JStr labels))) = None" and life: "life \<le> MAX_NODE_TTL_SEC"
    and t: "t = encodeJwt c (JObj pl) k"
    using assms(1,5,6)
    by (auto simp: mintNodeCredential_def DEFAULT_NODE_TTL_SEC_def MAX_NODE_TTL_SEC_def Let_def
        split: if_splits option.splits)
  have parts: "split_on CHR ''.'' t =
      [cd_body c jwt_header, cd_body c (JObj pl), cd_sign c k content]"
    unfolding t assms(8) by (rule jwt_parts) (use assms(2-4) in auto)
  then have tn: "t \<noteq> []" by (auto simp: t encodeJwt_def Let_def)
  note pf = node_payload_fields [of i labels "minted div 1000" "minted div 1000 + life", folded assms(6)]
  have nojob: "\<not> list_ex (\<lambda>k. jfield k pl \<noteq> None) JOB_CLAIM_FIELDS"
    unfolding assms(6) by (rule node_payload_no_job)
  have bad: "decodeJwt c (Some t) (Some k') nowMs = Inl BadSignature" if "k' \<in> set (filter (\<lambda>k. k \<noteq> []) newer)" for k'
    using that parts tn assms(9) [of k']
    by (simp add: decodeJwt_def timingSafeStringEqual_def assms(8))
  have mine: "decodeJwt c (Some t) (Some k) nowMs =
      (if (minted div 1000 + life) * 1000 \<le> nowMs then Inl Expired else Inr pl)"
    using k parts tn assms(7) pf(6) by (simp add: decodeJwt_def timingSafeStringEqual_def assms(8))
  have checked: "checked_claims pl nowMs =
      (if nowMs + 300000 < minted div 1000 * 1000 then None
       else Some \<lparr>nc_id = i, nc_labels = labels, nc_iat = minted div 1000, nc_exp = minted div 1000 + life\<rparr>)"
    using idok labok life pf nojob
    by (simp add: checked_claims_def jstr_def jnum_def MAX_IAT_SKEW_SEC_def label_list_def)
  have "try_keys c (Some t) nowMs (filter (\<lambda>k. k \<noteq> []) newer @ k # filter (\<lambda>k. k \<noteq> []) older) =
      try_keys c (Some t) nowMs (k # filter (\<lambda>k. k \<noteq> []) older)"
    by (rule try_keys_skip) (rule bad)
  then show ?thesis
    using k mine checked by (simp add: verifyNodeCredentialSync_def reason_of_def)
qed

section \<open>How soon a revocation bites\<close>

definition rev_inv :: "int \<Rightarrow> rev_state \<Rightarrow> bool" where
  "rev_inv cacheMs s \<longleftrightarrow>
     (\<forall>i e. map_of (rs_cache s) i = Some e \<longrightarrow> (i, rv_at e, rv_before e) \<in> set (rs_asked s))
   \<and> (\<forall>n i t h. map_of (rs_pending s) n = Some (i, t, Some h) \<longrightarrow> (i, rv_at h, rv_before h) \<in> set (rs_asked s))
   \<and> (\<forall>i t b. (i, t, b) \<in> set (rs_results s) \<longrightarrow>
        (\<exists>a. (i, a, b) \<in> set (rs_asked s) \<and> (a = t \<or> t - a < cacheMs + MAX_STALE_REVOCATION_MS)))"

lemma rev_start_inv: "rev_inv cacheMs rev_start"
  by (simp add: rev_inv_def rev_start_def)

lemma rev_step_inv:
  assumes inv: "rev_inv cacheMs s"
  shows "rev_inv cacheMs (rev_step cacheMs s ev)"
proof (cases ev)
  case (VerifyStart n i nowMs)
  have stale: "0 \<le> MAX_STALE_REVOCATION_MS" by (simp add: MAX_STALE_REVOCATION_MS_def)
  show ?thesis
  proof (cases "revokedBefore cacheMs (rs_cache s) i nowMs")
    case (FreshHit b)
    then obtain hit where "map_of (rs_cache s) i = Some hit" "nowMs - rv_at hit < cacheMs" "b = rv_before hit"
      by (auto simp: revokedBefore_def split: option.splits if_splits)
    then have "(i, rv_at hit, b) \<in> set (rs_asked s)" "nowMs - rv_at hit < cacheMs + MAX_STALE_REVOCATION_MS"
      using inv stale by (auto simp: rev_inv_def)
    with inv FreshHit VerifyStart show ?thesis by (auto simp: rev_inv_def rev_step_def)
  next
    case (AskSource hit)
    then have "hit = None \<or> map_of (rs_cache s) i = hit"
      by (auto simp: revokedBefore_def split: option.splits if_splits)
    with inv AskSource VerifyStart show ?thesis
      by (auto simp: rev_inv_def rev_step_def update_conv split: if_splits)
  qed
next
  case (SourceReply n reply)
  show ?thesis
  proof (cases "map_of (rs_pending s) n")
    case None
    with inv SourceReply show ?thesis by (simp add: rev_step_def)
  next
    case (Some p)
    obtain i t hit where p: "p = (i, t, hit)" by (cases p)
    show ?thesis
    proof (cases reply)
      case (Some b)
      with inv SourceReply \<open>map_of (rs_pending s) n = Some p\<close> p show ?thesis
        by (auto simp: rev_inv_def rev_step_def revocation_answer_def update_conv delete_conv split: if_splits) blast+
    next
      case None
      with inv SourceReply \<open>map_of (rs_pending s) n = Some p\<close> p show ?thesis
        by (auto simp: rev_inv_def rev_step_def revocation_answer_def delete_conv split: if_splits option.splits)
          blast+
    qed
  qed
qed

interpretation revocations: machine "rev_step cacheMs" "rev_inv cacheMs"
  by unfold_locales (rule rev_step_inv)

text \<open>C12: How soon a revocation bites. Whatever the calls in flight, the entries in the cache and the
  outages of the store: once every lookup begun after a moment finds the credential revoked, every
  verification begun thirty seconds and five minutes after that moment finds it revoked too, or fails
  because the store cannot be read; it is never let in on an older answer.\<close>

theorem revocation_bites:
  assumes "s = run_steps (rev_step REVOCATION_CACHE_MS) rev_start es"
    and "list_all (\<lambda>(j, a, b). j = nc_id cl \<and> moment \<le> a \<longrightarrow> revoked cl b) (rs_asked s)"
    and "(nc_id cl, t, b) \<in> set (rs_results s)"
    and "moment + 30000 + 5 * 60000 \<le> t"
  shows "revoked cl b"
proof -
  have "rev_inv REVOCATION_CACHE_MS s"
    unfolding assms(1) by (rule revocations.run_inv) (rule rev_start_inv)
  then obtain a where a: "(nc_id cl, a, b) \<in> set (rs_asked s)"
    "a = t \<or> t - a < REVOCATION_CACHE_MS + MAX_STALE_REVOCATION_MS"
    using assms(3) unfolding rev_inv_def by blast
  then have "moment \<le> a"
    using assms(4) by (auto simp: REVOCATION_CACHE_MS_def MAX_STALE_REVOCATION_MS_def)
  with a(1) assms(2) show ?thesis by (auto simp: list_all_iff)
qed

section \<open>Concrete runs\<close>

definition gpu_payload :: "(string \<times> json) list" where
  "gpu_payload = node_payload ''n1'' [''gpu''] 1000 (1000 + 600)"

definition node_codec :: codec where
  "node_codec = \<lparr>cd_body = (\<lambda>j. if j = jwt_header then ''h'' else ''b''),
     cd_read = (\<lambda>s. if s = ''b'' then Some (JObj gpu_payload) else None),
     cd_sign = (\<lambda>k s. k @ filter (\<lambda>c. c \<noteq> CHR ''.'') s), cd_digest = (\<lambda>s. s)\<rparr>"

definition node_env :: auth_env where
  "node_env = \<lparr>ae_nodeKey = ''q'', ae_nodeKeyPrevious = ''k'', ae_nodeLegacyToken = [], ae_nodeToken = [],
     ae_nodeLegacyOff = False, ae_jobSecret = ''j''\<rparr>"

lemma gpu_minted: "mintNodeCredential node_codec ''n1'' [''gpu''] (Some 600) (Some ''k'') 1000000 = Inr ''h.b.khb''"
  by (simp add: mintNodeCredential_def nodeIdError_def labelsError_def NODE_ID_RE_def LABEL_RE_def label_tail_char_def is_lower_def
      is_digit_def node_id_char_def LEGACY_NODE_ID_def MAX_LABELS_def MAX_NODE_TTL_SEC_def Let_def encodeJwt_def
      node_codec_def jwt_header_def node_payload_def)

theorem credential_roundtrip_witness:
  "verifyNodeCredentialSync node_codec [''q'', ''k''] (Some ''h.b.khb'') 1599999
     = Inr \<lparr>nc_id = ''n1'', nc_labels = [''gpu''], nc_iat = 1000, nc_exp = 1600\<rparr>
   \<and> verifyNodeCredentialSync node_codec [''q'', ''k''] (Some ''h.b.khb'') 1600000 = Inl (NodeRefused Expired)
   \<and> verifyNodeCredentialSync node_codec [''q'', ''k''] (Some ''h.b.khb'') 699999 = Inl NodeBadClaims"
proof -
  have read: "cd_read node_codec (cd_body node_codec (JObj gpu_payload)) = Some (JObj gpu_payload)"
    by (simp add: node_codec_def jwt_header_def gpu_payload_def node_payload_def)
  have pl: "gpu_payload = node_payload ''n1'' [''gpu''] (1000000 div 1000) (1000000 div 1000 + 600)"
    by (simp add: gpu_payload_def)
  note rt = credential_roundtrip [OF gpu_minted _ _ _ _ pl read refl, where newer = "[''q'']" and older = "[]"]
  show ?thesis
    using rt [of 1599999] rt [of 1600000] rt [of 699999] by (auto simp: node_codec_def)
qed

lemma gpu_lets_in:
  "authenticateNode node_codec node_env (\<lambda>i. Some (Some None)) (Some ''Bearer h.b.khb'') 1599999
     = AuthOk \<lparr>ni_id = ''n1'', ni_labels = [''gpu''], ni_legacy = False\<rparr> (Some 1600)"
proof -
  have b: "bearer_of ''Bearer h.b.khb'' = ''h.b.khb''" by code_simp
  have l: "legacyToken node_codec node_env 1599999 = []"
    by (simp add: legacyToken_def node_env_def keyed_def js_trim_def Let_def)
  show ?thesis
    using credential_roundtrip_witness b l
    by (simp add: authenticateNode_def node_keys_def node_env_def keyed_def verifyNode_def revoked_def Let_def)
qed


definition revocation_script :: "rev_event list" where
  "revocation_script =
     [VerifyStart 0 ''n1'' 0, SourceReply 0 (Some (Some None)), VerifyStart 1 ''n1'' 20000,
      VerifyStart 2 ''n1'' 329999, SourceReply 2 None,
      VerifyStart 3 ''n1'' 330001, SourceReply 3 None,
      VerifyStart 4 ''n1'' 330002, SourceReply 4 (Some (Some (Some 1001))), VerifyStart 5 ''n1'' 340000]"

text \<open>The stale answer is served to the call at 329,999 ms and no longer at 330,001.\<close>

lemma revocation_runs:
  "(let s = run_steps (rev_step REVOCATION_CACHE_MS) rev_start revocation_script in
     rs_results s = [(''n1'', 0, Some None), (''n1'', 20000, Some None), (''n1'', 329999, Some None),
       (''n1'', 330002, Some (Some 1001)), (''n1'', 340000, Some (Some 1001))]
     \<and> rs_asked s = [(''n1'', 0, Some None), (''n1'', 330002, Some (Some 1001))])"
  by code_simp

theorem revocation_bites_witness:
  "revoked \<lparr>nc_id = ''n1'', nc_labels = [''gpu''], nc_iat = 1000, nc_exp = 1600\<rparr> (Some (Some 1001))"
proof (rule revocation_bites [OF refl, where es = revocation_script and moment = 1 and t = 340000])
  let ?s = "run_steps (rev_step REVOCATION_CACHE_MS) rev_start revocation_script"
  show "list_all (\<lambda>(j, a, b). j = nc_id \<lparr>nc_id = ''n1'', nc_labels = [''gpu''], nc_iat = 1000, nc_exp = 1600\<rparr> \<and> 1 \<le> a
      \<longrightarrow> revoked \<lparr>nc_id = ''n1'', nc_labels = [''gpu''], nc_iat = 1000, nc_exp = 1600\<rparr> b) (rs_asked ?s)"
    using revocation_runs by (simp add: Let_def revoked_def)
  show "(nc_id \<lparr>nc_id = ''n1'', nc_labels = [''gpu''], nc_iat = 1000, nc_exp = 1600\<rparr>, 340000, Some (Some 1001)) \<in> set (rs_results ?s)"
    using revocation_runs by (simp add: Let_def)
qed simp

end
