(* ===== verification/Environments.thy ===== *)
theory Environments
  imports TokenBudget NodeAuth
begin

text \<open>
  Where a turn's tools run and as whom: the \<open>/1on1\<close> locks (\<^verbatim>\<open>src/db/one-on-one.ts\<close>), the kinds of
  environments (\<^verbatim>\<open>src/remote/kinds/index.ts\<close>), the binding of a thread to an environment
  (\<^verbatim>\<open>src/db/environments.ts\<close>), the target that applies now (\<^verbatim>\<open>src/remote/active.ts\<close>), the identity of a
  turn (\<^verbatim>\<open>src/gateway/core/thread-identity.ts\<close>), the session's fingerprint
  (\<^verbatim>\<open>src/remote/fingerprint.ts\<close>, \<^verbatim>\<open>src/gateway/core/mcp-cred-epoch.ts\<close>) and the two routes that hand out
  keys (\<^verbatim>\<open>src/gateway/api/remote-key.ts\<close>, \<^verbatim>\<open>src/gateway/api/remote-env.ts\<close>). Tables are lists of rows
  with their decrypted values; hashes are parameters.
\<close>

section \<open>Locks of threads\<close>

record lock_row =
  lk_channel :: string
  lk_thread :: string
  lk_user :: string
  lk_createdBy :: string
  lk_createdAt :: int
  lk_openScope :: "string option"

definition lock_at :: "string \<Rightarrow> string \<Rightarrow> lock_row \<Rightarrow> bool" where
  "lock_at ch th r \<longleftrightarrow> lk_channel r = ch \<and> lk_thread r = th"

definition lock_find :: "string \<Rightarrow> string \<Rightarrow> lock_row list \<Rightarrow> lock_row option" where
  "lock_find ch th rows = List.find (lock_at ch th) rows"

definition lock_thread :: "string \<Rightarrow> string \<Rightarrow> string \<Rightarrow> string \<Rightarrow> int \<Rightarrow> lock_row list \<Rightarrow> lock_row list" where
  "lock_thread ch th user by nowMs rows =
     (let row = \<lparr>lk_channel = ch, lk_thread = th, lk_user = user, lk_createdBy = by, lk_createdAt = nowMs,
                 lk_openScope = None\<rparr> in
      if lock_find ch th rows = None then rows @ [row]
      else map (\<lambda>r. if lock_at ch th r then row else r) rows)"

definition lock_setOpen :: "string \<Rightarrow> string \<Rightarrow> string \<Rightarrow> lock_row list \<Rightarrow> lock_row list" where
  "lock_setOpen ch th scope rows = map (\<lambda>r. if lock_at ch th r then r\<lparr>lk_openScope := Some scope\<rparr> else r) rows"

definition lock_setLocked :: "string \<Rightarrow> string \<Rightarrow> lock_row list \<Rightarrow> lock_row list" where
  "lock_setLocked ch th rows = map (\<lambda>r. if lock_at ch th r then r\<lparr>lk_openScope := None\<rparr> else r) rows"

definition lock_unlock :: "string \<Rightarrow> string \<Rightarrow> lock_row list \<Rightarrow> lock_row list" where
  "lock_unlock ch th rows = filter (\<lambda>r. \<not> lock_at ch th r) rows"

section \<open>Environments and their kinds\<close>

datatype env_trust = UserMachine | Provisioned

record stored_env =
  se_id :: string
  se_teamId :: string
  se_userId :: string
  se_name :: string
  se_kind :: string
  se_config :: "(string \<times> string) list"
  se_secrets :: "(string \<times> string) list"
  se_updatedAt :: int

record env_kind =
  ek_kind :: string
  ek_trust :: env_trust
  ek_transport :: bool
  ek_provision :: bool
  ek_teardown :: bool
  ek_legacyAddr :: bool

type_synonym kinds = "string \<rightharpoonup> env_kind"

definition kind_name :: "string \<Rightarrow> bool" where
  "kind_name s \<longleftrightarrow>
     (case s of [] \<Rightarrow> False
      | c # cs \<Rightarrow> is_lower c \<and> 1 \<le> length cs \<and> length cs \<le> 31 \<and> list_all label_tail_char cs)"

text \<open>\<open>None\<close>: the code throws.\<close>

definition registerKind :: "env_kind \<Rightarrow> kinds \<Rightarrow> kinds option" where
  "registerKind k ks =
     (if \<not> kind_name (ek_kind k) then None
      else if ek_trust k = Provisioned \<and> (\<not> ek_provision k \<or> \<not> ek_teardown k) then None
      else if ek_trust k = UserMachine \<and> \<not> ek_transport k then None
      else Some (ks(ek_kind k \<mapsto> k)))"

definition unregisterKind :: "string \<Rightarrow> kinds \<Rightarrow> kinds option" where
  "unregisterKind k ks = (if k = ''tailcat'' \<or> k = ''ssh'' then None else Some (ks(k := None)))"

definition tailcatKind :: env_kind where
  "tailcatKind = \<lparr>ek_kind = ''tailcat'', ek_trust = UserMachine, ek_transport = True, ek_provision = False,
     ek_teardown = False, ek_legacyAddr = True\<rparr>"

definition sshKind :: env_kind where
  "sshKind = \<lparr>ek_kind = ''ssh'', ek_trust = UserMachine, ek_transport = True, ek_provision = False,
     ek_teardown = False, ek_legacyAddr = False\<rparr>"

definition builtin_kinds :: kinds where
  "builtin_kinds = [''tailcat'' \<mapsto> tailcatKind, ''ssh'' \<mapsto> sshKind]"

definition trustOf :: "kinds \<Rightarrow> stored_env \<Rightarrow> env_trust" where
  "trustOf ks e =
     (case ks (se_kind e) of
        None \<Rightarrow> UserMachine
      | Some k \<Rightarrow> if ek_trust k = Provisioned \<and> se_secrets e \<noteq> [] then UserMachine else ek_trust k)"

section \<open>Bindings\<close>

record endpoint =
  ep_transport :: string
  ep_privateKey :: string
  ep_ref :: "string option"

record binding =
  bd_channel :: string
  bd_thread :: string
  bd_env :: string
  bd_dir :: string
  bd_lockByEnv :: bool
  bd_endpoint :: "endpoint option"
  bd_generation :: int
  bd_lastUsed :: int
  bd_createdAt :: int

definition binding_at :: "string \<Rightarrow> string \<Rightarrow> binding \<Rightarrow> bool" where
  "binding_at ch th b \<longleftrightarrow> bd_channel b = ch \<and> bd_thread b = th"

definition findBinding :: "string \<Rightarrow> string \<Rightarrow> binding list \<Rightarrow> binding option" where
  "findBinding ch th rows = List.find (binding_at ch th) rows"

definition bind_env :: "string \<Rightarrow> string \<Rightarrow> string \<Rightarrow> string \<Rightarrow> bool \<Rightarrow> int \<Rightarrow> binding list \<Rightarrow> binding list" where
  "bind_env ch th e dir lockByEnv nowMs rows =
     (let row = \<lparr>bd_channel = ch, bd_thread = th, bd_env = e, bd_dir = dir, bd_lockByEnv = lockByEnv,
                 bd_endpoint = None, bd_generation = 0, bd_lastUsed = nowMs, bd_createdAt = nowMs\<rparr> in
      if findBinding ch th rows = None then rows @ [row]
      else map (\<lambda>b. if binding_at ch th b then row else b) rows)"

definition setBindingDir :: "string \<Rightarrow> string \<Rightarrow> string \<Rightarrow> string \<Rightarrow> binding list \<Rightarrow> binding list" where
  "setBindingDir ch th e dir rows =
     map (\<lambda>b. if binding_at ch th b \<and> bd_env b = e then b\<lparr>bd_dir := dir\<rparr> else b) rows"

definition clearBinding :: "string \<Rightarrow> string \<Rightarrow> binding list \<Rightarrow> binding option \<times> binding list" where
  "clearBinding ch th rows = (findBinding ch th rows, filter (\<lambda>b. \<not> binding_at ch th b) rows)"

definition deleteEnv_bindings :: "string \<Rightarrow> binding list \<Rightarrow> binding list \<times> binding list" where
  "deleteEnv_bindings e rows = (filter (\<lambda>b. bd_env b = e) rows, filter (\<lambda>b. bd_env b \<noteq> e) rows)"

definition touchBinding :: "string \<Rightarrow> string \<Rightarrow> int \<Rightarrow> binding list \<Rightarrow> binding list" where
  "touchBinding ch th nowMs rows = map (\<lambda>b. if binding_at ch th b then b\<lparr>bd_lastUsed := nowMs\<rparr> else b) rows"

text \<open>The three compare-and-sets answer whether one row changed.\<close>

definition cas :: "(binding \<Rightarrow> bool) \<Rightarrow> (binding \<Rightarrow> binding) \<Rightarrow> binding list \<Rightarrow> bool \<times> binding list" where
  "cas P f rows = (length (filter P rows) = 1, map (\<lambda>b. if P b then f b else b) rows)"

definition claimProvision :: "string \<Rightarrow> string \<Rightarrow> int \<Rightarrow> binding list \<Rightarrow> bool \<times> binding list" where
  "claimProvision ch th gen =
     cas (\<lambda>b. binding_at ch th b \<and> bd_generation b = gen \<and> bd_endpoint b = None) (\<lambda>b. b\<lparr>bd_generation := gen + 1\<rparr>)"

definition storeEndpoint :: "string \<Rightarrow> string \<Rightarrow> int \<Rightarrow> endpoint \<Rightarrow> int \<Rightarrow> binding list \<Rightarrow> bool \<times> binding list" where
  "storeEndpoint ch th gen ep nowMs =
     cas (\<lambda>b. binding_at ch th b \<and> bd_generation b = gen) (\<lambda>b. b\<lparr>bd_endpoint := Some ep, bd_lastUsed := nowMs\<rparr>)"

definition claimTeardown :: "string \<Rightarrow> string \<Rightarrow> int \<Rightarrow> binding list \<Rightarrow> bool \<times> binding list" where
  "claimTeardown ch th gen =
     cas (\<lambda>b. binding_at ch th b \<and> bd_generation b = gen \<and> bd_endpoint b \<noteq> None) (\<lambda>b. b\<lparr>bd_endpoint := None\<rparr>)"

definition idleProvisioned :: "int \<Rightarrow> binding list \<Rightarrow> binding list" where
  "idleProvisioned cutoff rows = filter (\<lambda>b. bd_endpoint b \<noteq> None \<and> bd_lastUsed b < cutoff) rows"

section \<open>The target that applies\<close>

record env_ref =
  er_id :: string
  er_kind :: string
  er_trust :: env_trust
  er_name :: string
  er_hash :: string

record remote_target =
  rt_teamId :: string
  rt_userId :: string
  rt_addr :: string
  rt_dir :: string
  rt_env :: "env_ref option"

text \<open>\<open>boundEnv\<close>, over the answers of its two reads.\<close>

definition boundEnv :: "kinds \<Rightarrow> binding option \<Rightarrow> stored_env option \<Rightarrow> (binding \<times> stored_env) option" where
  "boundEnv ks b e =
     (case (b, e) of
        (Some b', Some e') \<Rightarrow> if ks (se_kind e') = None then None else Some (b', e')
      | _ \<Rightarrow> None)"

definition config_addr :: "stored_env \<Rightarrow> string" where
  "config_addr e = (case map_of (se_config e) ''addr'' of Some a \<Rightarrow> a | None \<Rightarrow> [])"

text \<open>\<open>envHash\<close> hashes the environment's id, kind, sorted configuration and update time with the
  generation of the binding; the digest is the parameter \<open>h\<close>.\<close>

definition activeRemoteTarget :: "kinds \<Rightarrow> (stored_env \<Rightarrow> int \<Rightarrow> string) \<Rightarrow> binding option \<Rightarrow> stored_env option
    \<Rightarrow> lock_row option \<Rightarrow> remote_target option" where
  "activeRemoteTarget ks h b e lock =
     (case boundEnv ks b e of
        None \<Rightarrow> None
      | Some (bd, env) \<Rightarrow>
          if trustOf ks env = UserMachine
             \<and> (case lock of None \<Rightarrow> True | Some l \<Rightarrow> lk_openScope l \<noteq> None \<or> lk_user l \<noteq> se_userId env)
          then None
          else Some \<lparr>rt_teamId = se_teamId env, rt_userId = se_userId env,
                     rt_addr = (case ks (se_kind env) of Some k \<Rightarrow> if ek_legacyAddr k then config_addr env else [] | None \<Rightarrow> []),
                     rt_dir = bd_dir bd,
                     rt_env = Some \<lparr>er_id = se_id env, er_kind = se_kind env, er_trust = trustOf ks env,
                                    er_name = se_name env, er_hash = h env (bd_generation bd)\<rparr>\<rparr>)"

section \<open>The identity of a turn\<close>

record remote_claim =
  rc_addr :: string
  rc_dir :: string
  rc_env :: "env_ref option"

record thread_identity =
  ti_runAs :: "string option"
  ti_lock :: "(string \<times> string option) option"
  ti_remote :: "remote_claim option"

text \<open>\<open>lock\<close> is the first read of the lock; the target reads it again, with the binding and the
  environment (\<open>target\<close>, looked up only in remote mode). \<open>runAsFor\<close> answers \<open>None\<close> when it throws.\<close>

definition threadIdentity :: "bool \<Rightarrow> lock_row option \<Rightarrow> (lock_row option \<Rightarrow> string option option)
    \<Rightarrow> remote_target option \<Rightarrow> thread_identity option" where
  "threadIdentity remoteOn lock runAsFor target =
     (case runAsFor lock of
        None \<Rightarrow> None
      | Some runAs \<Rightarrow>
          let t = (if remoteOn then target else None);
              applies = (case t of None \<Rightarrow> False
                | Some x \<Rightarrow> (case rt_env x of Some r \<Rightarrow> er_trust r = Provisioned | None \<Rightarrow> False) \<or> Some (rt_userId x) = runAs)
          in Some \<lparr>ti_runAs = runAs,
                   ti_lock = map_option (\<lambda>l. (lk_user l, lk_openScope l)) lock,
                   ti_remote = (case t of Some x \<Rightarrow>
                       if applies then Some \<lparr>rc_addr = rt_addr x, rc_dir = rt_dir x, rc_env = rt_env x\<rparr> else None
                     | None \<Rightarrow> None)\<rparr>)"

section \<open>The session's fingerprint\<close>

datatype fp_part = FpNull | FpText string | FpList "fp_part list"

definition fp_text :: "string option \<Rightarrow> fp_part" where
  "fp_text s = (case s of Some t \<Rightarrow> FpText t | None \<Rightarrow> FpNull)"

definition remotePart :: "remote_claim option \<Rightarrow> fp_part" where
  "remotePart r =
     (case r of
        None \<Rightarrow> FpNull
      | Some c \<Rightarrow>
          (case rc_env c of
             Some e \<Rightarrow> if er_kind e \<noteq> ''tailcat''
                       then FpList [FpText ''env'', FpText (er_kind e), FpText (er_id e), FpText (er_hash e), FpText (rc_dir c)]
                       else FpList [FpText (rc_addr c), FpText (rc_dir c)]
           | None \<Rightarrow> FpList [FpText (rc_addr c), FpText (rc_dir c)]))"

record session_config =
  sc_runAs :: "string option"
  sc_lock :: "(string \<times> string option) option"
  sc_remote :: "remote_claim option"
  sc_mcpEpoch :: string

text \<open>The array that is hashed, and the fingerprint over a parameter digest of it.\<close>

definition fp_array :: "session_config \<Rightarrow> fp_part" where
  "fp_array c =
     FpList ([fp_text (sc_runAs c),
              (case sc_lock c of Some (u, sc) \<Rightarrow> FpList [FpText u, fp_text sc] | None \<Rightarrow> FpNull),
              remotePart (sc_remote c)]
             @ (if sc_mcpEpoch c \<noteq> [] then [FpText (sc_mcpEpoch c)] else []))"

definition sessionConfigFp :: "(fp_part \<Rightarrow> string) \<Rightarrow> session_config \<Rightarrow> string" where
  "sessionConfigFp sha c = take 16 (sha (fp_array c))"

section \<open>Credential epochs\<close>

datatype epoch_owner = EpochAgent string string | EpochUser string string

text \<open>The key of an owner: the empty persona is the default one.\<close>

definition epoch_key :: "epoch_owner \<Rightarrow> epoch_owner" where
  "epoch_key ow = (case ow of EpochAgent t p \<Rightarrow> EpochAgent t (if p = [] then ''default'' else p) | EpochUser t u \<Rightarrow> EpochUser t u)"

type_synonym epochs = "epoch_owner \<Rightarrow> nat"

fun bump_epochs :: "epoch_owner list \<Rightarrow> epochs \<Rightarrow> epochs" where
  "bump_epochs [] m = m"
| "bump_epochs (ow # os) m = bump_epochs os (m(epoch_key ow := m (epoch_key ow) + 1))"

definition read_epochs :: "epochs \<Rightarrow> epoch_owner list \<Rightarrow> nat list" where
  "read_epochs m os = map (\<lambda>ow. m (epoch_key ow)) os"

definition turn_owners :: "string \<Rightarrow> string \<Rightarrow> string \<Rightarrow> string option \<Rightarrow> epoch_owner list" where
  "turn_owners tenant persona team runAs =
     EpochAgent tenant persona # (case runAs of Some u \<Rightarrow> if u \<noteq> [] then [EpochUser team u] else [] | None \<Rightarrow> [])"

text \<open>A read that threw (\<open>None\<close>) is the empty epoch.\<close>

definition turnMcpEpoch :: "nat list option \<Rightarrow> string" where
  "turnMcpEpoch vals =
     (case vals of
        None \<Rightarrow> []
      | Some vs \<Rightarrow> if list_ex (\<lambda>v. 0 < v) vs then join_with CHR '':'' (map show_nat vs) else [])"

section \<open>Handing out keys\<close>

datatype 'a served = Refused nat | Served 'a

definition claim_run_as :: "job_claims \<Rightarrow> run_as option" where
  "claim_run_as ob = (case jstr ''runAs'' ob of Some r \<Rightarrow> parseRunAs r | None \<Rightarrow> None)"

text \<open>\<open>remote\<close> is the token's signed claim, \<open>key\<close> the key stored for a team and a person.\<close>

definition handleRemoteKey :: "job_claims \<Rightarrow> remote_claim option \<Rightarrow> (string \<Rightarrow> string \<Rightarrow> string option)
    \<Rightarrow> string served" where
  "handleRemoteKey ob remote key =
     (case claim_run_as ob of
        Some (RunAsUser u) \<Rightarrow>
          if remote = None then Refused 403
          else (case jstr ''team'' ob of
                  Some team \<Rightarrow> (case key team u of Some k \<Rightarrow> Served k | None \<Rightarrow> Refused 404)
                | None \<Rightarrow> Refused 404)
      | _ \<Rightarrow> Refused 403)"

datatype remote_error = Unreachable | AuthFailed | ProvisionFailed

definition userMachineConnectInfo :: "kinds \<Rightarrow> (string \<Rightarrow> string \<Rightarrow> string option) \<Rightarrow> (stored_env \<Rightarrow> string option)
    \<Rightarrow> stored_env \<Rightarrow> remote_error + (string \<times> string)" where
  "userMachineConnectInfo ks key transport e =
     (if (case ks (se_kind e) of Some k \<Rightarrow> \<not> ek_transport k | None \<Rightarrow> True) then Inl Unreachable
      else case key (se_teamId e) (se_userId e) of
             None \<Rightarrow> Inl AuthFailed
           | Some k \<Rightarrow> (case transport e of Some t \<Rightarrow> Inr (t, k) | None \<Rightarrow> Inl Unreachable))"

definition connectInfoForBinding :: "kinds \<Rightarrow> (string \<Rightarrow> string \<Rightarrow> string option) \<Rightarrow> (stored_env \<Rightarrow> string option)
    \<Rightarrow> binding \<Rightarrow> stored_env \<Rightarrow> remote_error + (string \<times> string)" where
  "connectInfoForBinding ks key transport b e =
     (case ks (se_kind e) of
        None \<Rightarrow> Inl Unreachable
      | Some k \<Rightarrow>
          if ek_trust k \<noteq> Provisioned then userMachineConnectInfo ks key transport e
          else (case bd_endpoint b of
                  Some ep \<Rightarrow> Inr (ep_transport ep, ep_privateKey ep)
                | None \<Rightarrow> Inl ProvisionFailed))"

text \<open>Two looks at the thread: \<open>first\<close> (binding and environment), then \<open>target\<close>.\<close>

definition handleRemoteEnv :: "kinds \<Rightarrow> (string \<Rightarrow> string \<Rightarrow> string option) \<Rightarrow> (stored_env \<Rightarrow> string option) \<Rightarrow> job_claims
    \<Rightarrow> remote_claim option \<Rightarrow> (binding \<times> stored_env) option \<Rightarrow> remote_target option \<Rightarrow> (string \<times> string) served" where
  "handleRemoteEnv ks key transport ob remote first target =
     (case remote of
        None \<Rightarrow> Refused 403
      | Some rc \<Rightarrow> (case rc_env rc of
          None \<Rightarrow> Refused 403
        | Some ref \<Rightarrow> (case first of
            None \<Rightarrow> Refused 409
          | Some (b, e) \<Rightarrow>
              if se_id e \<noteq> er_id ref \<or> Some (se_teamId e) \<noteq> jstr ''team'' ob then Refused 409
              else (case target of
                  None \<Rightarrow> Refused 409
                | Some t \<Rightarrow> (case rt_env t of
                    None \<Rightarrow> Refused 409
                  | Some r \<Rightarrow>
                      if er_id r \<noteq> er_id ref \<or> er_hash r \<noteq> er_hash ref then Refused 409
                      else if er_trust r = UserMachine \<and> claim_run_as ob \<noteq> Some (RunAsUser (se_userId e)) then Refused 403
                      else (case connectInfoForBinding ks key transport b e of
                              Inr info \<Rightarrow> Served info | Inl _ \<Rightarrow> Refused 409))))))"

end
