(* ===== verification/EnvironmentFacts.thy ===== *)
theory EnvironmentFacts
  imports Environments
begin

text \<open>
  What the identity of a turn guarantees: whose machine a turn reaches and under which lock, what a
  fingerprint tells apart, and that connecting a server changes it for the turns concerned and no other.
\<close>

section \<open>A person's machine\<close>

lemma trust_of_person:
  assumes "ks (se_kind e) = Some k" "ek_trust k = UserMachine \<or> se_secrets e \<noteq> []"
  shows "trustOf ks e = UserMachine"
  using assms by (cases "ek_trust k") (auto simp: trustOf_def)

lemma active_target:
  assumes "activeRemoteTarget ks h b e lock = Some t"
  obtains bd env k where "b = Some bd" "e = Some env" "ks (se_kind env) = Some k"
    "rt_userId t = se_userId env" "rt_teamId t = se_teamId env" "rt_dir t = bd_dir bd"
    "rt_env t = Some \<lparr>er_id = se_id env, er_kind = se_kind env, er_trust = trustOf ks env,
       er_name = se_name env, er_hash = h env (bd_generation bd)\<rparr>"
    "trustOf ks env = UserMachine \<Longrightarrow>
       \<exists>l. lock = Some l \<and> lk_openScope l = None \<and> lk_user l = se_userId env"
proof -
  obtain bd env where be: "b = Some bd" "e = Some env" "ks (se_kind env) \<noteq> None"
    using assms by (auto simp: activeRemoteTarget_def boundEnv_def split: option.splits if_splits)
  then obtain k where "ks (se_kind env) = Some k" by auto
  moreover have "rt_userId t = se_userId env \<and> rt_teamId t = se_teamId env \<and> rt_dir t = bd_dir bd
      \<and> rt_env t = Some \<lparr>er_id = se_id env, er_kind = se_kind env, er_trust = trustOf ks env,
          er_name = se_name env, er_hash = h env (bd_generation bd)\<rparr>"
    using assms be by (auto simp: activeRemoteTarget_def boundEnv_def split: if_splits)
  moreover have "\<exists>l. lock = Some l \<and> lk_openScope l = None \<and> lk_user l = se_userId env"
    if "trustOf ks env = UserMachine"
    using assms be that by (auto simp: activeRemoteTarget_def boundEnv_def split: if_splits option.splits)
  ultimately show thesis using that be by blast
qed

text \<open>C17: A turn is given a person's own machine (an environment of a user-machine kind, or one that
  carries secrets) only while the thread is locked to that person, not opened to guests, and the turn
  runs as that person: whatever the two reads of the lock saw, however the identity was carried, and
  whatever else the tables hold. In every other case the turn runs locally.\<close>

theorem personal_machine_guarded:
  assumes "threadIdentity remoteOn lock1 runAsFor (activeRemoteTarget ks h b (Some env) lock2) = Some ti"
    and "ti_remote ti = Some rc"
    and "ks (se_kind env) = Some k" "ek_trust k = UserMachine \<or> se_secrets env \<noteq> []"
  shows "remoteOn \<and> ti_runAs ti = Some (se_userId env)
    \<and> (\<exists>l. lock2 = Some l \<and> lk_user l = se_userId env \<and> lk_openScope l = None)
    \<and> (\<exists>r. rc_env rc = Some r \<and> er_id r = se_id env \<and> er_trust r = UserMachine)"
proof -
  have tr: "trustOf ks env = UserMachine" using assms(3,4) by (rule trust_of_person)
  obtain runAs where ra: "runAsFor lock1 = Some runAs"
    using assms(1) by (auto simp: threadIdentity_def split: option.splits)
  obtain t where t: "remoteOn" "activeRemoteTarget ks h b (Some env) lock2 = Some t"
    using assms(1,2) ra by (auto simp: threadIdentity_def Let_def split: if_splits option.splits)
  show ?thesis
    using t(2)
  proof (cases rule: active_target)
    case (1 bd env' k')
    then have "rt_env t = Some \<lparr>er_id = se_id env, er_kind = se_kind env, er_trust = UserMachine,
       er_name = se_name env, er_hash = h env (bd_generation bd)\<rparr>" using tr by simp
    then have "ti_runAs ti = Some (rt_userId t)" "rc_env rc = rt_env t"
      using assms(1,2) ra t by (auto simp: threadIdentity_def Let_def split: if_splits)
    with 1 tr t(1) show ?thesis by auto
  qed
qed


lemma remote_key_confined:
  assumes "handleRemoteKey ob remote key = Served k"
  shows "\<exists>u team. claim_run_as ob = Some (RunAsUser u) \<and> jstr ''team'' ob = Some team \<and> key team u = Some k
     \<and> remote \<noteq> None"
  using assms by (auto simp: handleRemoteKey_def split: option.splits run_as.splits if_splits)

section \<open>What a fingerprint tells apart\<close>

text \<open>A remote claim as a fingerprint sees it: a tailcat environment by its address, any other by
  reference.\<close>

definition remote_seen :: "remote_claim \<Rightarrow> (string \<times> string) + (string \<times> string \<times> string \<times> string)" where
  "remote_seen c =
     (case rc_env c of
        Some e \<Rightarrow> if er_kind e = ''tailcat'' then Inl (rc_addr c, rc_dir c)
                  else Inr (er_kind e, er_id e, er_hash e, rc_dir c)
      | None \<Rightarrow> Inl (rc_addr c, rc_dir c))"

lemma fp_text_inj: "fp_text a = fp_text b \<longleftrightarrow> a = b"
  by (auto simp: fp_text_def split: option.splits)

lemma remotePart_inj: "remotePart r = remotePart r' \<longleftrightarrow> map_option remote_seen r = map_option remote_seen r'"
  by (cases r; cases r') (auto simp: remotePart_def remote_seen_def split: option.splits if_splits)

text \<open>C19: What is hashed for a session's configuration tells apart exactly the person a turn runs as, the
  whole lock (locked or open, and the scope), the environment as it is named, and the credential epoch:
  two turns have the same text if and only if they agree in all four, so a warm session is rebooted for
  every change of one of them and, as far as the digest is concerned, for nothing else.\<close>

theorem fingerprint_separates:
  "fp_array c = fp_array c' \<longleftrightarrow>
     sc_runAs c = sc_runAs c' \<and> sc_lock c = sc_lock c'
     \<and> map_option remote_seen (sc_remote c) = map_option remote_seen (sc_remote c')
     \<and> sc_mcpEpoch c = sc_mcpEpoch c'"
  by (auto simp: fp_array_def fp_text_inj remotePart_inj split: option.splits if_splits)

section \<open>Epochs\<close>

lemma bump_epochs_count: "bump_epochs os m ow = m ow + length (filter (\<lambda>x. epoch_key x = ow) os)"
  by (induction os arbitrary: m) auto

lemma epoch_key_idem [simp]: "epoch_key (epoch_key ow) = epoch_key ow"
  by (cases ow) (auto simp: epoch_key_def)

lemma digits_no_colon: "CHR '':'' \<notin> set (show_nat n)"
  using show_nat_digits [of n] by (auto simp: list_all_iff is_digit_def)

lemma join_numbers_inj:
  assumes "join_with CHR '':'' (map show_nat vs) = join_with CHR '':'' (map show_nat ws)" "vs \<noteq> []" "ws \<noteq> []"
  shows "vs = ws"
proof -
  have "split_on CHR '':'' (join_with CHR '':'' (map show_nat xs)) = map show_nat xs" if "xs \<noteq> []" for xs
    using that digits_no_colon by (intro split_join) auto
  then have "map show_nat vs = map show_nat ws" using assms by metis
  then show ?thesis by (simp add: inj_on_def list.inj_map_strong show_nat_inj)
qed

lemma join_numbers_nonempty: "vs \<noteq> [] \<Longrightarrow> join_with CHR '':'' (map show_nat vs) \<noteq> []"
  by (cases vs rule: remdups_adj.cases) auto

lemma turnMcpEpoch_eq:
  assumes "vs \<noteq> []" "length vs = length ws"
  shows "turnMcpEpoch (Some vs) = turnMcpEpoch (Some ws) \<longleftrightarrow> vs = ws"
proof -
  have ws: "ws \<noteq> []" using assms by auto
  have zero: "xs = replicate (length xs) 0" if "\<not> list_ex (\<lambda>v. 0 < v) xs" for xs :: "nat list"
    using that by (induction xs) auto
  show ?thesis
    using join_numbers_inj [OF _ assms(1) ws] join_numbers_nonempty [OF assms(1)] join_numbers_nonempty [OF ws]
      zero [of vs] zero [of ws] assms(2)
    by (auto simp: turnMcpEpoch_def)
qed

text \<open>Connecting or disconnecting a server changes the credential epoch of a turn, and with it the
  text its fingerprint is taken of, exactly when it concerns the turn's agent or the person the turn
  runs as: the next turn's session is rebooted and lists its tools again, and no other session is.\<close>

theorem connect_changes_epoch:
  "turnMcpEpoch (Some (read_epochs (bump_epochs os m) (turn_owners tenant persona team runAs)))
     \<noteq> turnMcpEpoch (Some (read_epochs m (turn_owners tenant persona team runAs)))
   \<longleftrightarrow> list_ex (\<lambda>w. list_ex (\<lambda>ow. epoch_key ow = epoch_key w) os) (turn_owners tenant persona team runAs)"
proof -
  let ?ws = "turn_owners tenant persona team runAs"
  have ne: "read_epochs (bump_epochs os m) ?ws \<noteq> []" by (simp add: read_epochs_def turn_owners_def)
  have "read_epochs (bump_epochs os m) ws = read_epochs m ws
      \<longleftrightarrow> \<not> list_ex (\<lambda>w. list_ex (\<lambda>ow. epoch_key ow = epoch_key w) os) ws" for ws
    by (induction ws) (auto simp: read_epochs_def bump_epochs_count filter_empty_conv list_ex_iff)
  then show ?thesis
    using turnMcpEpoch_eq [OF ne, of "read_epochs m ?ws"] by (simp add: read_epochs_def)
qed

section \<open>Concrete runs\<close>

definition laptop :: stored_env where
  "laptop = \<lparr>se_id = ''e1'', se_teamId = ''T1'', se_userId = ''U1'', se_name = ''laptop'', se_kind = ''ssh'',
     se_config = [], se_secrets = [], se_updatedAt = 7\<rparr>"

definition laptop_binding :: binding where
  "laptop_binding = \<lparr>bd_channel = ''C1'', bd_thread = ''1.0'', bd_env = ''e1'', bd_dir = ''/w'', bd_lockByEnv = True,
     bd_endpoint = None, bd_generation = 0, bd_lastUsed = 0, bd_createdAt = 0\<rparr>"

definition owner_lock :: lock_row where
  "owner_lock = \<lparr>lk_channel = ''C1'', lk_thread = ''1.0'', lk_user = ''U1'', lk_createdBy = ''U1'', lk_createdAt = 0,
     lk_openScope = None\<rparr>"

definition laptop_ref :: env_ref where
  "laptop_ref = \<lparr>er_id = ''e1'', er_kind = ''ssh'', er_trust = UserMachine, er_name = ''laptop'', er_hash = ''h7''\<rparr>"

definition laptop_claims :: job_claims where
  "laptop_claims = [(''team'', JStr ''T1''), (''runAs'', JStr ''user:U1'')]"

lemma laptop_target:
  "activeRemoteTarget builtin_kinds (\<lambda>e g. ''h7'') (Some laptop_binding) (Some laptop) (Some owner_lock)
     = Some \<lparr>rt_teamId = ''T1'', rt_userId = ''U1'', rt_addr = [], rt_dir = ''/w'', rt_env = Some laptop_ref\<rparr>"
  by (simp add: activeRemoteTarget_def boundEnv_def builtin_kinds_def sshKind_def trustOf_def laptop_def
      laptop_binding_def owner_lock_def laptop_ref_def)

theorem personal_machine_guarded_witness:
  "\<exists>l. Some owner_lock = Some l \<and> lk_user l = se_userId laptop \<and> lk_openScope l = None"
proof -
  have "threadIdentity True None (\<lambda>_. Some (Some ''U1''))
      (activeRemoteTarget builtin_kinds (\<lambda>e g. ''h7'') (Some laptop_binding) (Some laptop) (Some owner_lock))
    = Some \<lparr>ti_runAs = Some ''U1'', ti_lock = None,
        ti_remote = Some \<lparr>rc_addr = [], rc_dir = ''/w'', rc_env = Some laptop_ref\<rparr>\<rparr>"
    by (simp add: laptop_target threadIdentity_def)
  from personal_machine_guarded [OF this, of _ sshKind] show ?thesis
    by (simp add: laptop_def builtin_kinds_def sshKind_def)
qed


end
