(* ===== verification/V1Api.thy ===== *)
theory V1Api
  imports Environments
begin

text \<open>
  The node-facing API: its route table and router (\<^verbatim>\<open>src/gateway/api/index.ts\<close>) with the scope checks a
  route makes before its work, and the exchange of job tokens (\<^verbatim>\<open>src/gateway/api/jobs.ts\<close>). The work
  of the other routes is a parameter: a request either gets a refusal or reaches it.
\<close>

section \<open>The route table\<close>

text \<open>\<open>rt_job\<close>: the route needs a job token; \<open>rt_label\<close>: the token's label must be the node's.\<close>

record v1_route =
  rt_name :: string
  rt_methods :: "string list"
  rt_pattern :: "string list"
  rt_job :: bool
  rt_label :: bool
  rt_grace :: "nat option"
  rt_optional :: bool

definition REFRESH_GRACE_SEC :: nat where "REFRESH_GRACE_SEC = 60 * 60"

definition job_route :: "string \<Rightarrow> string list \<Rightarrow> string list \<Rightarrow> v1_route" where
  "job_route name methods pattern =
     \<lparr>rt_name = name, rt_methods = methods, rt_pattern = pattern, rt_job = True, rt_label = True,
      rt_grace = Some 0, rt_optional = False\<rparr>"

definition node_route :: "string \<Rightarrow> string list \<Rightarrow> string list \<Rightarrow> v1_route" where
  "node_route name methods pattern =
     \<lparr>rt_name = name, rt_methods = methods, rt_pattern = pattern, rt_job = False, rt_label = False,
      rt_grace = Some 0, rt_optional = False\<rparr>"

definition v1Routes :: "v1_route list" where
  "v1Routes =
     [node_route ''node.whoami'' [''GET''] [''node'', ''whoami''],
      job_route ''sessions'' [''GET'', ''PATCH''] [''sessions'', '':id''],
      job_route ''tenants.runtime'' [''GET''] [''tenants'', '':tenant'', ''runtime''],
      job_route ''tenants.mcp-credentials'' [''GET''] [''tenants'', '':tenant'', ''mcp-credentials''],
      job_route ''tenants.remote-key'' [''GET''] [''tenants'', '':tenant'', ''remote-key''],
      job_route ''tenants.remote-env'' [''GET''] [''tenants'', '':tenant'', ''remote-env''],
      job_route ''tenants.mcp-credentials.refresh'' [''POST''] [''tenants'', '':tenant'', ''mcp-credentials'', ''refresh''],
      job_route ''tenants.personas.runtime'' [''GET''] [''tenants'', '':tenant'', ''personas'', '':persona'', ''runtime''],
      (job_route ''pending'' [''GET''] [''pending'', '':id''])\<lparr>rt_optional := True\<rparr>,
      node_route ''jobs.event'' [''POST''] [''jobs'', '':id'', ''ack|fail''],
      (job_route ''jobs.token-refresh'' [''POST''] [''jobs'', '':id'', ''token-refresh''])\<lparr>rt_grace := Some REFRESH_GRACE_SEC\<rparr>,
      (job_route ''jobs.token-reissue'' [''POST''] [''jobs'', '':id'', ''token-reissue''])\<lparr>rt_grace := None\<rparr>,
      job_route ''tools.memory'' [''POST''] [''tools'', ''memory'', ''prefetch|sync''],
      job_route ''background.skill-check'' [''POST''] [''background'', ''skill-check'', ''start|finish''],
      job_route ''background.turn'' [''POST''] [''background'', ''turn'', ''finish''],
      job_route ''background.skill-usage'' [''POST''] [''background'', ''skill-usage''],
      job_route ''tools.mcpx'' [''POST''] [''tools'', ''mcpx'', '':server'', ''list|call''],
      job_route ''tools'' [''POST''] [''tools'', '':server'', '':tool'']]"

definition match_segment :: "string \<Rightarrow> string \<Rightarrow> bool" where
  "match_segment p s \<longleftrightarrow> starts_with p '':'' \<or> s \<in> set (split_on CHR ''|'' p)"

definition matchRoute :: "v1_route \<Rightarrow> string list \<Rightarrow> bool" where
  "matchRoute r seg \<longleftrightarrow> list_all2 match_segment (rt_pattern r) seg"

section \<open>The router\<close>

record v1_request =
  rq_method :: string
  rq_path :: string
  rq_authorization :: "string option"
  rq_job :: "string option"

text \<open>What a request comes to: it is not under \<open>/v1\<close>; a refusal with its status; or the work of a route
  with the matched segments, the node, and the claims of its token.\<close>

datatype v1_answer = NotV1 | Denied nat | Reach string "string list" node_identity "job_claims option"

definition path_segments :: "string \<Rightarrow> string list" where
  "path_segments path = drop 1 (filter (\<lambda>s. s \<noteq> []) (split_on CHR ''/'' path))"

definition requireJobToken :: "codec \<Rightarrow> auth_env \<Rightarrow> string option \<Rightarrow> nat option \<Rightarrow> int \<Rightarrow> nat + job_claims" where
  "requireJobToken c e token grace nowMs =
     (case verifyJobToken c (ae_jobSecret e) token grace nowMs of
        Inr ob \<Rightarrow> Inr ob
      | Inl JUnconfigured \<Rightarrow> Inl 503
      | Inl _ \<Rightarrow> Inl 401)"

text \<open>The checks a route's handler makes on the token's scope before anything else.\<close>

definition tenantScoped :: "job_claims \<Rightarrow> string \<Rightarrow> bool" where
  "tenantScoped ob tenant \<longleftrightarrow> jstr ''tenant'' ob = Some tenant"

definition route_guard :: "string \<Rightarrow> string list \<Rightarrow> node_identity \<Rightarrow> bool \<Rightarrow> job_claims option \<Rightarrow> nat option" where
  "route_guard name seg n allowTokenless claims =
     (case claims of
        None \<Rightarrow> if name = ''pending'' \<and> (\<not> ni_legacy n \<or> \<not> allowTokenless) then Some 401 else None
      | Some ob \<Rightarrow>
          if seg ! 0 = ''tenants'' \<and> \<not> tenantScoped ob (seg ! 1) then Some 403
          else if name = ''tenants.personas.runtime'' \<and> jstr ''persona'' ob \<noteq> Some (seg ! 3) then Some 403
          else if name = ''sessions'' \<and> jstr ''session'' ob \<noteq> Some (seg ! 1) then Some 403
          else None)"

text \<open>Authentication and the job token read the clock one after the other.\<close>

definition v1_fetch :: "codec \<Rightarrow> auth_env \<Rightarrow> bool \<Rightarrow> (string \<Rightarrow> revoked_before option) \<Rightarrow> v1_request \<Rightarrow> int \<Rightarrow> int
    \<Rightarrow> v1_answer" where
  "v1_fetch c e allowTokenless before rq now1 now2 =
     (if rq_path rq \<noteq> ''/v1'' \<and> \<not> starts_with (rq_path rq) ''/v1/'' then NotV1
      else case authenticateNode c e before (rq_authorization rq) now1 of
        AuthNotConfigured \<Rightarrow> Denied 503
      | AuthStoreDown \<Rightarrow> Denied 503
      | AuthUnauthorized \<Rightarrow> Denied 401
      | AuthOk n expiry \<Rightarrow>
          let seg = path_segments (rq_path rq) in
          (case List.find (\<lambda>r. matchRoute r seg) v1Routes of
             None \<Rightarrow> Denied 404
           | Some r \<Rightarrow>
               if rq_method rq \<notin> set (rt_methods r) then Denied 405
               else let token = (if rt_job r \<and> (truthy (rq_job rq) \<or> \<not> rt_optional r)
                                 then Some (requireJobToken c e (rq_job rq) (rt_grace r) now2) else None) in
               (case token of
                  Some (Inl status) \<Rightarrow> Denied status
                | Some (Inr ob) \<Rightarrow>
                    if rt_label r \<and> \<not> gateLabel n ob then Denied 403
                    else (case route_guard (rt_name r) seg n allowTokenless (Some ob) of
                            Some status \<Rightarrow> Denied status
                          | None \<Rightarrow> Reach (rt_name r) seg n (Some ob))
                | None \<Rightarrow>
                    (case route_guard (rt_name r) seg n allowTokenless None of
                       Some status \<Rightarrow> Denied status
                     | None \<Rightarrow> Reach (rt_name r) seg n None))))"

section \<open>Exchanging a job token\<close>

record moved_ref =
  mv_queue :: string
  mv_job :: string

record queued_job =
  qj_token :: "string option"
  qj_enqueuedAt :: "int option"
  qj_timestamp :: "int option"
  qj_state :: string

datatype job_reply = JobRefused nat | JobToken job_claims string

definition queue_part :: "string \<Rightarrow> bool" where
  "queue_part s \<longleftrightarrow> s \<noteq> [] \<and> list_all (\<lambda>c. is_alnum c \<or> c = CHR ''-'') s"

text \<open>\<open>/^(\.[A-Za-z0-9-]+)+$/\<close> on what follows \<open>turns\<close>.\<close>

definition isTurnQueueName :: "string \<Rightarrow> bool" where
  "isTurnQueueName q \<longleftrightarrow>
     length q \<le> 200 \<and>
     (q = TURNS_QUEUE
      \<or> starts_with q TURNS_QUEUE
        \<and> (case split_on CHR ''.'' (drop (length TURNS_QUEUE) q) of
             [] # p # ps \<Rightarrow> list_all queue_part (p # ps)
           | _ \<Rightarrow> False))"

definition MAX_MOVE_HOPS :: nat where "MAX_MOVE_HOPS = 8"

text \<open>The markers are read one after the other; \<open>moved k i\<close> is the answer for \<open>i\<close> with \<open>k\<close> reads left
  (\<open>None\<close> also when the read threw).\<close>

fun move_chain :: "(nat \<Rightarrow> string \<Rightarrow> moved_ref option) \<Rightarrow> string \<Rightarrow> nat \<Rightarrow> string \<Rightarrow> moved_ref option" where
  "move_chain moved jobId 0 i = None"
| "move_chain moved jobId (Suc k) i =
     (if i = [] then None
      else case moved k i of
        None \<Rightarrow> None
      | Some r \<Rightarrow> if mv_job r = jobId then Some r else move_chain moved jobId k (mv_job r))"

definition stored_is :: "codec \<Rightarrow> queued_job option \<Rightarrow> string \<Rightarrow> bool" where
  "stored_is c j presented =
     (case j of Some x \<Rightarrow> (case qj_token x of Some t \<Rightarrow> timingSafeStringEqual c t presented | None \<Rightarrow> False) | None \<Rightarrow> False)"

definition tokenIsForJob :: "codec \<Rightarrow> job_claims \<Rightarrow> string \<Rightarrow> string
    \<Rightarrow> (nat \<Rightarrow> string \<Rightarrow> moved_ref option) option \<Rightarrow> (string \<Rightarrow> string \<Rightarrow> queued_job option) option \<Rightarrow> bool" where
  "tokenIsForJob c ob jobId presented movedTo lookup =
     (if jfield ''job'' ob = Some (JStr jobId) then True
      else case (movedTo, lookup, jstr ''job'' ob) of
        (Some moved, Some look, Some first) \<Rightarrow>
          (case move_chain moved jobId MAX_MOVE_HOPS first of
             Some r \<Rightarrow> isTurnQueueName (mv_queue r) \<and> stored_is c (look (mv_queue r) jobId) presented
           | None \<Rightarrow> False)
      | _ \<Rightarrow> False)"

text \<open>A number claim, where \<open>Some None\<close> is \<open>Infinity\<close>.\<close>

definition jnumber :: "string \<Rightarrow> job_claims \<Rightarrow> int option option" where
  "jnumber k ob = (case jfield k ob of Some (JNum n) \<Rightarrow> Some n | _ \<Rightarrow> None)"

definition firstIssued :: "job_claims \<Rightarrow> int option" where
  "firstIssued ob =
     (case jnumber ''iat0'' ob of
        Some t \<Rightarrow> t
      | None \<Rightarrow> (case jnumber ''iat'' ob of
          Some t \<Rightarrow> t
        | None \<Rightarrow> (case jnumber ''exp'' ob of Some (Some t) \<Rightarrow> Some (t - JOB_TOKEN_TTL_SEC) | _ \<Rightarrow> None)))"

definition reclaims :: "job_claims \<Rightarrow> job_claims" where
  "reclaims ob = jdrop [''exp'', ''iat''] ob"

text \<open>The claims of the new token, before and after \<open>mintJobToken\<close> adds its own \<open>iat\<close>.\<close>

definition remint :: "job_claims \<Rightarrow> string \<Rightarrow> int option \<Rightarrow> int \<Rightarrow> job_claims" where
  "remint ob jobId iat0 expiry =
     jset ''exp'' (JNum (Some expiry)) (jset ''iat0'' (JNum iat0) (jset ''job'' (JStr jobId) (reclaims ob)))"

definition reply_token :: "codec \<Rightarrow> string \<Rightarrow> job_claims \<Rightarrow> int \<Rightarrow> job_reply" where
  "reply_token c secret claims nowMs =
     (case mintJobToken c secret claims nowMs of Some t \<Rightarrow> JobToken claims t | None \<Rightarrow> JobRefused 500)"

text \<open>\<open>runsOn\<close> is the label each persona runs on now.\<close>

definition labelMismatch :: "(string \<Rightarrow> string) \<Rightarrow> job_claims \<Rightarrow> bool" where
  "labelMismatch runsOn ob \<longleftrightarrow> runsOn (case jstr ''persona'' ob of Some p \<Rightarrow> p | None \<Rightarrow> []) \<noteq> claim_label ob"

definition refreshed :: "job_claims \<Rightarrow> string \<Rightarrow> int \<Rightarrow> int \<Rightarrow> job_claims option" where
  "refreshed ob jobId maxAge nowSec =
     (case firstIssued ob of
        Some t \<Rightarrow>
          if t + maxAge \<le> nowSec then None
          else Some (remint ob jobId (Some t) (min (nowSec + JOB_TOKEN_TTL_SEC) (t + maxAge)))
      | None \<Rightarrow> Some (remint ob jobId None (nowSec + JOB_TOKEN_TTL_SEC)))"

definition handleTokenRefresh :: "codec \<Rightarrow> auth_env \<Rightarrow> string option \<Rightarrow> string \<Rightarrow> int \<Rightarrow> int \<Rightarrow> (string \<Rightarrow> string)
    \<Rightarrow> (nat \<Rightarrow> string \<Rightarrow> moved_ref option) option \<Rightarrow> (string \<Rightarrow> string \<Rightarrow> queued_job option) option \<Rightarrow> job_reply" where
  "handleTokenRefresh c e token jobId maxAge nowMs runsOn movedTo lookup =
     (case verifyJobToken c (ae_jobSecret e) token (Some REFRESH_GRACE_SEC) nowMs of
        Inl JUnconfigured \<Rightarrow> JobRefused 503
      | Inl _ \<Rightarrow> JobRefused 401
      | Inr ob \<Rightarrow>
          if \<not> tokenIsForJob c ob jobId (case token of Some t \<Rightarrow> t | None \<Rightarrow> []) movedTo lookup then JobRefused 403
          else if labelMismatch runsOn ob then JobRefused 409
          else (case refreshed ob jobId maxAge (nowMs div 1000) of
                  None \<Rightarrow> JobRefused 401
                | Some claims \<Rightarrow> reply_token c (ae_jobSecret e) claims nowMs))"

text \<open>The queue the request names (\<open>None\<close>: not a turn queue); a body that is no object names none.\<close>

definition reissue_queue :: "json \<Rightarrow> string option" where
  "reissue_queue body =
     (let q = (case body of JObj ob \<Rightarrow> (case jfield ''queue'' ob of Some JNull \<Rightarrow> None | x \<Rightarrow> x) | _ \<Rightarrow> None) in
      (case q of
         None \<Rightarrow> Some TURNS_QUEUE
       | Some (JStr s) \<Rightarrow> if isTurnQueueName s then Some s else None
       | Some _ \<Rightarrow> None))"

definition born_ms :: "queued_job \<Rightarrow> int option" where
  "born_ms j =
     (case (qj_enqueuedAt j, qj_timestamp j) of
        (Some a, Some b) \<Rightarrow> Some (min a b)
      | (Some a, None) \<Rightarrow> Some a
      | (None, b) \<Rightarrow> b)"

text \<open>\<open>claims.exp + grace > nowSec\<close>.\<close>

definition still_refreshable :: "job_claims \<Rightarrow> int \<Rightarrow> bool" where
  "still_refreshable ob nowSec \<longleftrightarrow>
     (case jnumber ''exp'' ob of Some (Some t) \<Rightarrow> nowSec < t + int REFRESH_GRACE_SEC | Some None \<Rightarrow> True | None \<Rightarrow> False)"

definition job_cap :: "int \<Rightarrow> int \<Rightarrow> int" where
  "job_cap born jobMaxAge = (born + jobMaxAge * 1000) div 1000"

definition reissued :: "job_claims \<Rightarrow> string \<Rightarrow> int \<Rightarrow> int \<Rightarrow> int \<Rightarrow> int \<Rightarrow> job_claims option" where
  "reissued ob jobId maxAge jobMaxAge born nowSec =
     (let cap = job_cap born jobMaxAge in
      if cap \<le> nowSec then None
      else Some (remint ob jobId (Some (min nowSec (cap - maxAge))) (min (nowSec + JOB_TOKEN_TTL_SEC) cap)))"

text \<open>The claims were verified by the router. \<open>body\<close> is the parsed body (\<open>None\<close>: malformed or null).\<close>

definition handleTokenReissue :: "codec \<Rightarrow> auth_env \<Rightarrow> string option \<Rightarrow> job_claims \<Rightarrow> string \<Rightarrow> int \<Rightarrow> int \<Rightarrow> int
    \<Rightarrow> (string \<Rightarrow> string) \<Rightarrow> json option \<Rightarrow> (nat \<Rightarrow> string \<Rightarrow> moved_ref option) option
    \<Rightarrow> (string \<Rightarrow> string \<Rightarrow> queued_job option) option \<Rightarrow> job_reply" where
  "handleTokenReissue c e token ob jobId maxAge jobMaxAge nowMs runsOn body movedTo lookup =
     (let presented = (case token of Some t \<Rightarrow> t | None \<Rightarrow> []) in
      if \<not> tokenIsForJob c ob jobId presented movedTo lookup then JobRefused 403
      else if labelMismatch runsOn ob then JobRefused 409
      else case body of
        None \<Rightarrow> JobRefused 400
      | Some b \<Rightarrow> (case reissue_queue b of
          None \<Rightarrow> JobRefused 400
        | Some q \<Rightarrow> (case lookup of
            None \<Rightarrow> JobRefused 404
          | Some look \<Rightarrow> (case look q jobId of
              None \<Rightarrow> JobRefused 404
            | Some j \<Rightarrow>
                if qj_state j = ''completed'' \<or> qj_state j = ''failed'' then JobRefused 404
                else if \<not> stored_is c (Some j) presented then JobRefused 403
                else if still_refreshable ob (nowMs div 1000) then JobRefused 409
                else (case born_ms j of
                    None \<Rightarrow> JobRefused 410
                  | Some born \<Rightarrow>
                      (case reissued ob jobId maxAge jobMaxAge born (nowMs div 1000) of
                         None \<Rightarrow> JobRefused 410
                       | Some claims \<Rightarrow> reply_token c (ae_jobSecret e) claims nowMs))))))"

section \<open>The identity a refresh reports\<close>

text \<open>\<open>None\<close>: the field is left out.\<close>

definition freshIdentity :: "job_claims \<Rightarrow> bool \<Rightarrow> lock_row option \<Rightarrow> remote_target option
    \<Rightarrow> (string \<times> (string \<times> string option) option \<times> bool) option" where
  "freshIdentity ob remoteOn lock target =
     (case claim_run_as ob of
        None \<Rightarrow> None
      | Some carried \<Rightarrow>
          (case threadIdentity remoteOn lock
                  (\<lambda>l. Some (case carried of RunAsUser u \<Rightarrow> Some u | RunAsAgent \<Rightarrow> map_option lk_user l)) target of
             None \<Rightarrow> None
           | Some ti \<Rightarrow> (case encodeRunAs (ti_runAs ti) of
               None \<Rightarrow> None
             | Some r \<Rightarrow> Some (r, ti_lock ti, ti_remote ti \<noteq> None))))"

end
