(* ===== verification/V1ApiFacts.thy ===== *)
theory V1ApiFacts
  imports V1Api
begin

text \<open>
  What the node-facing API guarantees: which requests reach the work behind a route, and how long the
  tokens live that a job's token can be exchanged for.
\<close>

section \<open>Requests that reach their work\<close>

definition route_shape :: "v1_route \<Rightarrow> bool" where
  "route_shape r \<longleftrightarrow>
     (rt_job r \<or> rt_name r \<in> {''node.whoami'', ''jobs.event''})
     \<and> rt_label r = rt_job r \<and> (\<not> rt_optional r \<or> rt_name r = ''pending'')
     \<and> (rt_grace r = Some 0 \<or> rt_name r = ''jobs.token-refresh'' \<and> rt_grace r = Some 3600
        \<or> rt_name r = ''jobs.token-reissue'')"

lemma routes_shaped: "list_all route_shape v1Routes"
  by (simp add: v1Routes_def route_shape_def job_route_def node_route_def REFRESH_GRACE_SEC_def)

text \<open>C14: What a request must bring to reach the work of a route. The caller is an authenticated node;
  with a job token, the token verifies (with no forgiveness of its expiry outside the two routes that
  exchange it), its label is one of the node's, a path under a tenant names the token's tenant, a
  persona's bundle the token's persona, and a session the token's session. Without a token only the
  node's own identity, the telemetry of jobs, and, for the legacy node while it is still allowed, a
  pending gate are reached.\<close>

theorem requests_confined:
  assumes "v1_fetch c e allowTokenless before rq now1 now2 = Reach name seg n claims"
  shows "(\<exists>expiry. authenticateNode c e before (rq_authorization rq) now1 = AuthOk n expiry)
    \<and> seg = path_segments (rq_path rq)
    \<and> (case claims of
         Some ob \<Rightarrow>
           (\<exists>grace. verifyJobToken c (ae_jobSecret e) (rq_job rq) grace now2 = Inr ob
              \<and> (grace = Some 0 \<or> name \<in> {''jobs.token-refresh'', ''jobs.token-reissue''}))
           \<and> claim_label ob \<in> set (ni_labels n)
           \<and> (seg ! 0 = ''tenants'' \<longrightarrow> jstr ''tenant'' ob = Some (seg ! 1))
           \<and> (name = ''tenants.personas.runtime'' \<longrightarrow> jstr ''persona'' ob = Some (seg ! 3))
           \<and> (name = ''sessions'' \<longrightarrow> jstr ''session'' ob = Some (seg ! 1))
       | None \<Rightarrow> name \<in> {''node.whoami'', ''jobs.event''} \<or> name = ''pending'' \<and> ni_legacy n \<and> allowTokenless)"
proof -
  obtain n' expiry r where a: "authenticateNode c e before (rq_authorization rq) now1 = AuthOk n' expiry"
    and f: "List.find (\<lambda>r. matchRoute r (path_segments (rq_path rq))) v1Routes = Some r"
    using assms by (auto simp: v1_fetch_def Let_def split: if_splits node_auth.splits option.splits)
  have "r \<in> set v1Routes" using f by (auto simp: find_Some_iff)
  then have shape: "route_shape r" using routes_shaped by (auto simp: list_all_iff)
  show ?thesis
  proof (cases "rt_job r \<and> (truthy (rq_job rq) \<or> \<not> rt_optional r)")
    case True
    then obtain ob where v: "verifyJobToken c (ae_jobSecret e) (rq_job rq) (rt_grace r) now2 = Inr ob"
      using assms a f
      by (auto simp: v1_fetch_def Let_def requireJobToken_def split: if_splits sum.splits job_reason.splits)
    have "gateLabel n' ob \<and> route_guard (rt_name r) seg n' allowTokenless (Some ob) = None
        \<and> n = n' \<and> seg = path_segments (rq_path rq) \<and> name = rt_name r \<and> claims = Some ob"
      using assms a f v True shape
      by (auto simp: v1_fetch_def Let_def requireJobToken_def route_shape_def split: if_splits option.splits)
    then show ?thesis
      using a v shape by (auto simp: route_guard_def gateLabel_def tenantScoped_def route_shape_def split: if_splits)
  next
    case False
    then have "route_guard (rt_name r) seg n' allowTokenless None = None
        \<and> n = n' \<and> seg = path_segments (rq_path rq) \<and> name = rt_name r \<and> claims = None"
      using assms a f by (auto simp: v1_fetch_def Let_def split: if_splits option.splits)
    then show ?thesis
      using a False shape by (auto simp: route_guard_def route_shape_def split: if_splits)
  qed
qed

section \<open>The life of job tokens\<close>

text \<open>Refreshes one after the other, each of the token the last one gave.\<close>

fun refresh_chain :: "int \<Rightarrow> (string \<times> int) list \<Rightarrow> job_claims \<Rightarrow> job_claims option" where
  "refresh_chain maxAge [] ob = Some ob"
| "refresh_chain maxAge ((jobId, nowSec) # rs) ob =
     (case refreshed ob jobId maxAge nowSec of
        None \<Rightarrow> None
      | Some cl \<Rightarrow> refresh_chain maxAge rs (jset ''iat'' (JNum (Some nowSec)) cl))"

definition same_identity :: "job_claims \<Rightarrow> job_claims \<Rightarrow> bool" where
  "same_identity ob cl \<longleftrightarrow> (\<forall>k. k \<notin> {''exp'', ''iat'', ''iat0'', ''job''} \<longrightarrow> jfield k cl = jfield k ob)"

definition expires_by :: "int \<Rightarrow> job_claims \<Rightarrow> bool" where
  "expires_by t cl \<longleftrightarrow> (\<exists>x. jfield ''exp'' cl = Some (JNum (Some x)) \<and> x \<le> t)"

lemma same_identity_trans: "same_identity a b \<Longrightarrow> same_identity b d \<Longrightarrow> same_identity a d"
  by (simp add: same_identity_def)

lemma remint_fields:
  "jfield ''exp'' (remint ob jobId i x) = Some (JNum (Some x))"
  "jfield ''iat0'' (remint ob jobId i x) = Some (JNum i)"
  "jfield ''job'' (remint ob jobId i x) = Some (JStr jobId)"
  "same_identity ob (remint ob jobId i x)"
  by (simp_all add: remint_def reclaims_def same_identity_def)

lemma firstIssued_iat0: "jfield ''iat0'' ob = Some (JNum i) \<Longrightarrow> firstIssued ob = i"
  by (simp add: firstIssued_def jnumber_def)

lemma refreshed_bounded:
  assumes "refreshed ob jobId maxAge nowSec = Some cl" "firstIssued ob = Some t"
  shows "jfield ''iat0'' cl = Some (JNum (Some t)) \<and> expires_by (t + maxAge) cl \<and> same_identity ob cl"
  using assms remint_fields by (auto simp: refreshed_def expires_by_def split: if_splits)

lemma refresh_chain_bounded:
  assumes "refresh_chain maxAge rs ob = Some cl" "jfield ''iat0'' ob = Some (JNum (Some t))"
    and "expires_by limit ob" "t + maxAge \<le> limit"
  shows "jfield ''iat0'' cl = Some (JNum (Some t)) \<and> expires_by limit cl \<and> same_identity ob cl"
  using assms
proof (induction rs arbitrary: ob)
  case Nil
  then show ?case by (simp add: same_identity_def)
next
  case (Cons r rs)
  obtain jobId nowSec where r: "r = (jobId, nowSec)" by (cases r)
  obtain ob' where s: "refreshed ob jobId maxAge nowSec = Some ob'"
    "refresh_chain maxAge rs (jset ''iat'' (JNum (Some nowSec)) ob') = Some cl"
    using Cons.prems(1) r by (auto split: option.splits)
  have b: "jfield ''iat0'' ob' = Some (JNum (Some t))" "expires_by (t + maxAge) ob'" "same_identity ob ob'"
    using refreshed_bounded [OF s(1) firstIssued_iat0 [OF Cons.prems(2)]] by auto
  then have b': "expires_by limit ob'" using Cons.prems(4) by (force simp: expires_by_def)
  then have e: "expires_by limit (jset ''iat'' (JNum (Some nowSec)) ob')"
    by (simp add: expires_by_def)
  have i: "same_identity ob (jset ''iat'' (JNum (Some nowSec)) ob')"
    using b(3) by (simp add: same_identity_def)
  have "jfield ''iat0'' (jset ''iat'' (JNum (Some nowSec)) ob') = Some (JNum (Some t))" using b(1) by simp
  note Cons.IH [OF s(2) this e Cons.prems(4)]
  then show ?case using same_identity_trans [OF i] by simp
qed

text \<open>C15: A job token cannot be kept alive: whatever is obtained from it by refreshing, and refreshing
  the result any number of times, names the same tenant, persona, session, label, person and every
  other claim, and expires no later than the token's first issue plus the maximum age. A refresh is
  given only for the job the token was minted for, or a held copy that carries this very token, and
  only while the persona still runs on the token's label.\<close>

theorem refresh_life_bounded:
  assumes "handleTokenRefresh c e token jobId maxAge nowMs runsOn movedTo lookup = JobToken claims t"
    and "verifyJobToken c (ae_jobSecret e) token (Some 3600) nowMs = Inr ob" "firstIssued ob = Some t0"
    and "refresh_chain maxAge rs (jset ''iat'' (JNum (Some (nowMs div 1000))) claims) = Some cl"
  shows "expires_by (t0 + maxAge) cl \<and> same_identity ob cl
    \<and> runsOn (case jstr ''persona'' ob of Some p \<Rightarrow> p | None \<Rightarrow> []) = claim_label cl
    \<and> tokenIsForJob c ob jobId (case token of Some x \<Rightarrow> x | None \<Rightarrow> []) movedTo lookup"
proof -
  have h: "refreshed ob jobId maxAge (nowMs div 1000) = Some claims" "\<not> labelMismatch runsOn ob"
    "tokenIsForJob c ob jobId (case token of Some x \<Rightarrow> x | None \<Rightarrow> []) movedTo lookup"
    using assms(1,2)
    by (auto simp: handleTokenRefresh_def REFRESH_GRACE_SEC_def reply_token_def split: if_splits option.splits)
  note b = refreshed_bounded [OF h(1) assms(3)]
  then have "expires_by (t0 + maxAge) (jset ''iat'' (JNum (Some (nowMs div 1000))) claims)"
    "same_identity ob (jset ''iat'' (JNum (Some (nowMs div 1000))) claims)"
    by (auto simp: expires_by_def same_identity_def)
  then have r: "expires_by (t0 + maxAge) cl" "same_identity ob cl"
    using refresh_chain_bounded [OF assms(4), of t0 "t0 + maxAge"] b same_identity_trans by simp_all
  then have "claim_label cl = claim_label ob" by (simp add: same_identity_def claim_label_def)
  with r h show ?thesis by (simp add: labelMismatch_def)
qed

text \<open>C16: A job that waited too long for a refresh can get a new token, but never past its own age: only
  the token that is stored with the job, which is still in its queue, is exchanged, only once a refresh
  is no longer possible, and whatever is obtained from the new token by any number of refreshes expires
  no later than the job's enqueueing plus the maximum age of a job, with all other claims unchanged.\<close>

theorem reissue_life_bounded:
  assumes "handleTokenReissue c e token ob jobId maxAge jobMaxAge nowMs runsOn body movedTo (Some look) = JobToken claims t"
    and "refresh_chain maxAge rs (jset ''iat'' (JNum (Some (nowMs div 1000))) claims) = Some cl"
  shows "\<exists>q j born. look q jobId = Some j \<and> born_ms j = Some born
    \<and> qj_state j \<noteq> ''completed'' \<and> qj_state j \<noteq> ''failed''
    \<and> stored_is c (Some j) (case token of Some x \<Rightarrow> x | None \<Rightarrow> [])
    \<and> \<not> still_refreshable ob (nowMs div 1000)
    \<and> expires_by (job_cap born jobMaxAge) cl \<and> same_identity ob cl"
proof -
  obtain q j born where h: "look q jobId = Some j" "born_ms j = Some born"
    "qj_state j \<noteq> ''completed''" "qj_state j \<noteq> ''failed''"
    "stored_is c (Some j) (case token of Some x \<Rightarrow> x | None \<Rightarrow> [])" "\<not> still_refreshable ob (nowMs div 1000)"
    "reissued ob jobId maxAge jobMaxAge born (nowMs div 1000) = Some claims"
    using assms(1)
    by (auto simp: handleTokenReissue_def Let_def reply_token_def split: if_splits option.splits)
  define t0 where "t0 = min (nowMs div 1000) (job_cap born jobMaxAge - maxAge)"
  have cl: "claims = remint ob jobId (Some t0) (min (nowMs div 1000 + JOB_TOKEN_TTL_SEC) (job_cap born jobMaxAge))"
    using h(7) by (auto simp: reissued_def Let_def t0_def split: if_splits)
  let ?m = "jset ''iat'' (JNum (Some (nowMs div 1000))) claims"
  have "expires_by (job_cap born jobMaxAge) ?m" "same_identity ob ?m" "jfield ''iat0'' ?m = Some (JNum (Some t0))"
    using remint_fields [of ob jobId "Some t0"] unfolding cl by (auto simp: expires_by_def same_identity_def)
  moreover have "t0 + maxAge \<le> job_cap born jobMaxAge" by (simp add: t0_def)
  ultimately have "expires_by (job_cap born jobMaxAge) cl" "same_identity ob cl"
    using refresh_chain_bounded [OF assms(2), of t0 "job_cap born jobMaxAge"] same_identity_trans by blast+
  with h show ?thesis by blast
qed

section \<open>Concrete runs\<close>

definition turn_claims :: job_claims where
  "turn_claims = map (\<lambda>k. (k, JStr (if k = ''tenant'' then ''t1'' else ''x''))) JOB_STRING_CLAIMS
     @ [(''job'', JStr ''j1''), (''iat'', JNum (Some 1000)), (''exp'', JNum (Some 1900))]"

definition turn_codec :: codec where
  "turn_codec = \<lparr>cd_body = (\<lambda>j. if j = jwt_header then ''h'' else ''b''),
     cd_read = (\<lambda>s. if s = ''b'' then Some (JObj turn_claims) else None),
     cd_sign = (\<lambda>k s. k @ filter (\<lambda>c. c \<noteq> CHR ''.'') s), cd_digest = (\<lambda>s. s)\<rparr>"

definition turn_env :: auth_env where
  "turn_env = \<lparr>ae_nodeKey = [], ae_nodeKeyPrevious = [], ae_nodeLegacyToken = ''L'', ae_nodeToken = [],
     ae_nodeLegacyOff = False, ae_jobSecret = ''s''\<rparr>"

definition turn_request :: v1_request where
  "turn_request = \<lparr>rq_method = ''GET'', rq_path = ''/v1/tenants/t1/runtime'', rq_authorization = Some ''Bearer L'',
     rq_job = Some ''h.b.shb''\<rparr>"

lemma turn_reaches:
  "v1_fetch turn_codec turn_env False (\<lambda>_. None) turn_request 1100000 1100000
     = Reach ''tenants.runtime'' [''tenants'', ''t1'', ''runtime''] LEGACY_IDENTITY (Some turn_claims)"
  by code_simp

lemma other_tenant_denied:
  "v1_fetch turn_codec turn_env False (\<lambda>_. None) (turn_request\<lparr>rq_path := ''/v1/tenants/t2/runtime''\<rparr>) 1100000 1100000
     = Denied 403"
  by code_simp

theorem requests_confined_witness:
  "claim_label turn_claims \<in> set (ni_labels LEGACY_IDENTITY) \<and> jstr ''tenant'' turn_claims = Some ''t1''"
  using requests_confined [OF turn_reaches] by simp

lemma turn_verified: "verifyJobToken turn_codec (ae_jobSecret turn_env) (Some ''h.b.shb'') (Some 3600) 5400000 = Inr turn_claims"
  by code_simp

definition refreshed_claims :: job_claims where
  "refreshed_claims = remint turn_claims ''j1'' (Some 1000) 6300"

lemma turn_refreshed:
  "handleTokenRefresh turn_codec turn_env (Some ''h.b.shb'') ''j1'' 21600 5400000 (\<lambda>_. ''default'') None None
     = JobToken refreshed_claims ''h.b.shb''"
  by code_simp

lemma turn_refreshed_again:
  "refresh_chain 21600 [(''j1'', 22000)] (jset ''iat'' (JNum (Some (5400000 div 1000))) refreshed_claims)
     = Some (jset ''iat'' (JNum (Some 22000)) (remint (jset ''iat'' (JNum (Some 5400)) refreshed_claims) ''j1'' (Some 1000) 22600))"
  by code_simp

theorem refresh_life_bounded_witness:
  "expires_by (1000 + 21600)
     (jset ''iat'' (JNum (Some 22000)) (remint (jset ''iat'' (JNum (Some 5400)) refreshed_claims) ''j1'' (Some 1000) 22600))"
proof -
  have "firstIssued turn_claims = Some 1000" by code_simp
  from refresh_life_bounded [OF turn_refreshed turn_verified this turn_refreshed_again] show ?thesis by simp
qed

definition late_job :: queued_job where
  "late_job = \<lparr>qj_token = Some ''h.b.shb'', qj_enqueuedAt = Some 1000500, qj_timestamp = Some 1000600, qj_state = ''active''\<rparr>"

lemma turn_reissued:
  "handleTokenReissue turn_codec turn_env (Some ''h.b.shb'') turn_claims ''j1'' 21600 86400 80000000 (\<lambda>_. ''default'') (Some (JObj []))
       None (Some (\<lambda>q i. Some late_job))
     = JobToken (remint turn_claims ''j1'' (Some 65800) 80900) ''h.b.shb''"
  by code_simp

theorem reissue_life_bounded_witness:
  "\<exists>cl. refresh_chain 21600 [(''j1'', 87000)] (jset ''iat'' (JNum (Some (80000000 div 1000))) (remint turn_claims ''j1'' (Some 65800) 80900))
       = Some cl \<and> expires_by 87400 cl"
proof -
  let ?cl = "jset ''iat'' (JNum (Some 87000)) (remint (jset ''iat'' (JNum (Some 80000)) (remint turn_claims ''j1'' (Some 65800) 80900)) ''j1'' (Some 65800) 87400)"
  have r: "refresh_chain 21600 [(''j1'', 87000)] (jset ''iat'' (JNum (Some (80000000 div 1000))) (remint turn_claims ''j1'' (Some 65800) 80900))
      = Some ?cl" by code_simp
  have "born_ms late_job = Some 1000500" "job_cap 1000500 86400 = 87400" by code_simp+
  with reissue_life_bounded [OF turn_reissued r] have "expires_by 87400 ?cl" by auto
  with r show ?thesis by blast
qed

end
