(* ===== verification/Dispatch.thy ===== *)
theory Dispatch
  imports V1Api Turns
begin

text \<open>
  The dispatch of a turn (\<open>dispatch\<close> of \<^verbatim>\<open>src/gateway/core/dispatch.ts\<close>): what is signed into the job
  token, what the queued job carries, and where it is queued. What the database, the registry, the
  stream and the queue answer is a record of replies; the calls made are listed in order.
\<close>

section \<open>Inputs\<close>

record dispatch_meta =
  dm_teamId :: string
  dm_channelId :: string
  dm_threadTs :: string
  dm_eventTs :: string
  dm_userId :: string
  dm_personaId :: "string option"
  dm_oauthUser :: "string option"
  dm_tenantId :: "string option"
  dm_apiAppId :: "string option"
  dm_origin :: "string option"
  dm_suppress :: bool
  dm_backgroundRunId :: "string option"
  dm_wake :: "wake_caps option"

record session_row =
  sr_id :: string
  sr_tenant :: "string option"
  sr_workingDir :: "string option"

text \<open>The outer \<open>None\<close> of a reply is a call that threw. \<open>dr_identity\<close> is \<open>resolveEffectiveIdentity\<close>,
  \<open>dr_loc\<close> the registry's entry with its freshness, \<open>dr_enqueued\<close> the queue and job the message went to.\<close>

record dispatch_replies =
  dr_lock :: "lock_row option option"
  dr_identity :: "string option option"
  dr_target :: "remote_target option option"
  dr_epochs :: "nat list option"
  dr_loc :: "(string \<times> bool) option option"
  dr_carries :: "bool option"
  dr_lastEvent :: "string option"
  dr_enqueued :: "(string \<times> string) option"

record dispatch_env =
  de_codec :: codec
  de_secret :: string
  de_remoteOn :: bool
  de_sha :: "fp_part \<Rightarrow> string"
  de_runsOn :: "string \<Rightarrow> string"
  de_workspace :: "string \<Rightarrow> string option"

section \<open>What is signed\<close>

definition persona_of_meta :: "dispatch_meta \<Rightarrow> string" where
  "persona_of_meta m = (case dm_personaId m of Some p \<Rightarrow> p | None \<Rightarrow> ''default'')"

definition tenant_of :: "session_row \<Rightarrow> dispatch_meta \<Rightarrow> string" where
  "tenant_of s m =
     (case dm_tenantId m of Some t \<Rightarrow> t | None \<Rightarrow> (case sr_tenant s of Some t \<Rightarrow> t | None \<Rightarrow> ''default''))"

definition opt_claim :: "string \<Rightarrow> string option \<Rightarrow> job_claims" where
  "opt_claim k v = (if truthy v then [(k, JStr (the v))] else [])"

definition json_opt :: "string option \<Rightarrow> json" where
  "json_opt v = (case v of Some s \<Rightarrow> JStr s | None \<Rightarrow> JNull)"

definition lock_json :: "(string \<times> string option) option \<Rightarrow> json" where
  "lock_json l = (case l of Some (u, sc) \<Rightarrow> JObj [(''user'', JStr u), (''openScope'', json_opt sc)] | None \<Rightarrow> JNull)"

definition env_json :: "env_ref \<Rightarrow> json" where
  "env_json r = JObj [(''id'', JStr (er_id r)), (''kind'', JStr (er_kind r)),
     (''trust'', JStr (if er_trust r = UserMachine then ''user-machine'' else ''provisioned'')),
     (''name'', JStr (er_name r)), (''hash'', JStr (er_hash r))]"

definition remote_json :: "remote_claim \<Rightarrow> json" where
  "remote_json c = JObj ([(''addr'', JStr (rc_addr c)), (''dir'', JStr (rc_dir c))]
     @ (case rc_env c of Some r \<Rightarrow> [(''env'', env_json r)] | None \<Rightarrow> []))"

definition dispatch_claims :: "dispatch_env \<Rightarrow> session_row \<Rightarrow> dispatch_meta \<Rightarrow> thread_identity \<Rightarrow> string \<Rightarrow> string \<Rightarrow> string
    \<Rightarrow> job_claims" where
  "dispatch_claims e s m ti runAs epoch jobId =
     [(''label'', JStr (de_runsOn e (persona_of_meta m))), (''tenant'', JStr (tenant_of s m)),
      (''persona'', JStr (persona_of_meta m)), (''session'', JStr (sr_id s)), (''team'', JStr (dm_teamId m))]
     @ opt_claim ''app'' (dm_apiAppId m) @ opt_claim ''origin'' (dm_origin m)
     @ [(''channel'', JStr (dm_channelId m)), (''thread'', JStr (dm_threadTs m)), (''initiator'', JStr (dm_userId m)),
        (''scope'', JStr ''turn''), (''job'', JStr jobId), (''runAs'', JStr runAs), (''lock'', lock_json (ti_lock ti)),
        (''sessionConfigFp'', JStr (sessionConfigFp (de_sha e)
           \<lparr>sc_runAs = ti_runAs ti, sc_lock = ti_lock ti, sc_remote = ti_remote ti, sc_mcpEpoch = epoch\<rparr>))]
     @ (case ti_remote ti of Some c \<Rightarrow> [(''remote'', remote_json c)] | None \<Rightarrow> [])
     @ opt_claim ''bgRun'' (dm_backgroundRunId m)
     @ (if dm_wake m \<noteq> None \<and> truthy (dm_backgroundRunId m) then [(''wake'', JBool True)] else [])"

section \<open>What is queued, and where\<close>

definition opt_text :: "string option \<Rightarrow> string option" where
  "opt_text v = (if truthy v then v else None)"

definition dispatch_job :: "dispatch_env \<Rightarrow> session_row \<Rightarrow> dispatch_meta \<Rightarrow> string \<Rightarrow> string \<Rightarrow> int \<Rightarrow> turn_job" where
  "dispatch_job e s m text token nowMs =
     \<lparr>tj_sessionId = sr_id s, tj_tenantId = tenant_of s m, tj_personaId = persona_of_meta m,
      tj_label = Some (de_runsOn e (persona_of_meta m)),
      tj_messages = [\<lparr>tm_ts = dm_eventTs m, tm_user = dm_userId m, tm_text = text, tm_files = None,
                      tm_suppress = dm_suppress m\<rparr>],
      tj_senders = Some [\<lparr>sd_userId = dm_userId m, sd_teamId = opt_text (Some (dm_teamId m)), sd_origin = dm_origin m\<rparr>],
      tj_oauthUser = opt_text (dm_oauthUser m), tj_bgRun = opt_text (dm_backgroundRunId m), tj_wake = dm_wake m,
      tj_workspace = (case sr_workingDir s of Some d \<Rightarrow> de_workspace e d | None \<Rightarrow> None),
      tj_jobToken = token, tj_enqueuedAt = nowMs, tj_relabelAttempts = None\<rparr>"

definition dispatch_target :: "(string \<times> bool) option \<Rightarrow> bool \<Rightarrow> string \<Rightarrow> turn_target" where
  "dispatch_target loc carries label =
     (case loc of
        Some (node, fresh) \<Rightarrow> if fresh \<and> carries then NodeTarget node else LabelTarget label
      | None \<Rightarrow> LabelTarget label)"

section \<open>The calls in order\<close>

datatype dispatch_call =
    ConsumeAbortFlag string
  | Provision string string
  | ReadLock string string
  | ReadTarget string string
  | ReadEpochs "epoch_owner list"
  | LookupSession string
  | AskCarries string string
  | LastEventId string
  | Enqueue turn_job turn_target string
  | FollowTurn string string string "string option"

text \<open>The identity: the reads it takes, and its value (\<open>None\<close>: it threw). A carried identity is not looked
  up.\<close>

definition dispatch_identity :: "dispatch_env \<Rightarrow> dispatch_meta \<Rightarrow> dispatch_replies \<Rightarrow> thread_identity option" where
  "dispatch_identity e m r =
     (case dr_lock r of
        None \<Rightarrow> None
      | Some lock \<Rightarrow>
          if de_remoteOn e \<and> dr_target r = None then None
          else threadIdentity (de_remoteOn e) lock
                 (\<lambda>_. case dm_oauthUser m of Some u \<Rightarrow> Some (Some u) | None \<Rightarrow> dr_identity r)
                 (case dr_target r of Some t \<Rightarrow> t | None \<Rightarrow> None))"

text \<open>The target is looked up only once the lock is read and the person is known.\<close>

definition reads_target :: "dispatch_env \<Rightarrow> dispatch_meta \<Rightarrow> dispatch_replies \<Rightarrow> bool" where
  "reads_target e m r \<longleftrightarrow>
     de_remoteOn e \<and> dr_lock r \<noteq> None \<and> (dm_oauthUser m \<noteq> None \<or> dr_identity r \<noteq> None)"

definition dispatch :: "dispatch_env \<Rightarrow> session_row \<Rightarrow> string \<Rightarrow> dispatch_meta \<Rightarrow> dispatch_replies \<Rightarrow> string \<Rightarrow> int \<Rightarrow> int
    \<Rightarrow> dispatch_call list" where
  "dispatch e s text m r jobId mintedMs nowMs =
     (let label = de_runsOn e (persona_of_meta m);
          calls0 = [ConsumeAbortFlag (sr_id s)]
            @ (if de_remoteOn e then [Provision (dm_channelId m) (dm_threadTs m)] else [])
            @ [ReadLock (dm_channelId m) (dm_threadTs m)] in
      case dispatch_identity e m r of
        None \<Rightarrow> calls0 @ (if reads_target e m r then [ReadTarget (dm_channelId m) (dm_threadTs m)] else [])
      | Some ti \<Rightarrow>
          (let calls1 = calls0 @ (if de_remoteOn e then [ReadTarget (dm_channelId m) (dm_threadTs m)] else []) in
           case encodeRunAs (ti_runAs ti) of
             None \<Rightarrow> calls1
           | Some runAs \<Rightarrow>
               (let calls2 = calls1 @ [ReadEpochs (turn_owners (tenant_of s m) (persona_of_meta m) (dm_teamId m) (ti_runAs ti))] in
                case mintJobToken (de_codec e) (de_secret e)
                       (dispatch_claims e s m ti runAs (turnMcpEpoch (dr_epochs r)) jobId) mintedMs of
                  None \<Rightarrow> calls2
                | Some token \<Rightarrow>
                    (case dr_loc r of
                       None \<Rightarrow> calls2 @ [LookupSession (sr_id s)]
                     | Some loc \<Rightarrow>
                         (let ask = (case loc of Some (node, fresh) \<Rightarrow> if fresh then [AskCarries node label] else [] | None \<Rightarrow> []);
                              calls3 = calls2 @ [LookupSession (sr_id s)] @ ask in
                          if ask \<noteq> [] \<and> dr_carries r = None then calls3
                          else let job = dispatch_job e s m text token nowMs;
                                   target = dispatch_target loc (dr_carries r = Some True) label;
                                   calls4 = calls3 @ [LastEventId (sr_id s), Enqueue job target jobId] in
                               (case dr_enqueued r of
                                  None \<Rightarrow> calls4
                                | Some (q, j) \<Rightarrow> calls4 @ [FollowTurn (sr_id s) j q (dr_lastEvent r)]))))))"

section \<open>What a dispatched turn carries\<close>

lemma dispatch_enqueues:
  assumes "Enqueue job target jid \<in> set (dispatch e s text m r jobId mintedMs nowMs)"
  obtains ti runAs token loc where "dispatch_identity e m r = Some ti" "encodeRunAs (ti_runAs ti) = Some runAs"
    "mintJobToken (de_codec e) (de_secret e) (dispatch_claims e s m ti runAs (turnMcpEpoch (dr_epochs r)) jobId) mintedMs = Some token"
    "job = dispatch_job e s m text token nowMs" "jid = jobId" "dr_loc r = Some loc"
    "target = dispatch_target loc (dr_carries r = Some True) (de_runsOn e (persona_of_meta m))"
  using assms
  by (auto simp: dispatch_def Let_def split: option.splits if_splits prod.splits)

lemma dispatch_claims_fields:
  "jfield ''label'' (dispatch_claims e s m ti runAs epoch jobId) = Some (JStr (de_runsOn e (persona_of_meta m)))"
  "jfield ''tenant'' (dispatch_claims e s m ti runAs epoch jobId) = Some (JStr (tenant_of s m))"
  "jfield ''persona'' (dispatch_claims e s m ti runAs epoch jobId) = Some (JStr (persona_of_meta m))"
  "jfield ''session'' (dispatch_claims e s m ti runAs epoch jobId) = Some (JStr (sr_id s))"
  "jfield ''team'' (dispatch_claims e s m ti runAs epoch jobId) = Some (JStr (dm_teamId m))"
  "jfield ''channel'' (dispatch_claims e s m ti runAs epoch jobId) = Some (JStr (dm_channelId m))"
  "jfield ''thread'' (dispatch_claims e s m ti runAs epoch jobId) = Some (JStr (dm_threadTs m))"
  "jfield ''initiator'' (dispatch_claims e s m ti runAs epoch jobId) = Some (JStr (dm_userId m))"
  "jfield ''scope'' (dispatch_claims e s m ti runAs epoch jobId) = Some (JStr ''turn'')"
  "jfield ''job'' (dispatch_claims e s m ti runAs epoch jobId) = Some (JStr jobId)"
  "jfield ''runAs'' (dispatch_claims e s m ti runAs epoch jobId) = Some (JStr runAs)"
  "jfield ''typ'' (dispatch_claims e s m ti runAs epoch jobId) = None"
  "jfield ''exp'' (dispatch_claims e s m ti runAs epoch jobId) = None"
  "jfield ''iat0'' (dispatch_claims e s m ti runAs epoch jobId) = None"
  "jfield ''origin'' (dispatch_claims e s m ti runAs epoch jobId) = map_option JStr (opt_text (dm_origin m))"
  "jfield ''bgRun'' (dispatch_claims e s m ti runAs epoch jobId) = map_option JStr (opt_text (dm_backgroundRunId m))"
  "jfield ''wake'' (dispatch_claims e s m ti runAs epoch jobId) =
     (if dm_wake m \<noteq> None \<and> truthy (dm_backgroundRunId m) then Some (JBool True) else None)"
  by (simp_all add: dispatch_claims_def jfield_def opt_claim_def opt_text_def truthy_iff split: option.split)
    auto

lemma dispatch_identity_person:
  assumes "dispatch_identity e m r = Some ti"
  shows "ti_runAs ti = (case dm_oauthUser m of Some u \<Rightarrow> Some u | None \<Rightarrow> the (dr_identity r))"
  using assms
  by (auto simp: dispatch_identity_def threadIdentity_def Let_def split: option.splits if_splits)

lemma claim_run_as_dispatch:
  assumes "encodeRunAs u = Some runAs" "jfield ''runAs'' cl = Some (JStr runAs)"
  shows "claim_run_as cl = Some (case u of Some x \<Rightarrow> RunAsUser x | None \<Rightarrow> RunAsAgent)"
  using assms runAs_roundtrip [of runAs] by (cases u) (simp_all add: claim_run_as_def jstr_def)


section \<open>A concrete dispatch\<close>

definition dispatch_env_of :: "codec \<Rightarrow> dispatch_env" where
  "dispatch_env_of c = \<lparr>de_codec = c, de_secret = ''s'', de_remoteOn = False, de_sha = (\<lambda>_. ''f''),
     de_runsOn = (\<lambda>_. ''gpu''), de_workspace = (\<lambda>_. None)\<rparr>"

definition codec_of :: "job_claims \<Rightarrow> codec" where
  "codec_of ob = \<lparr>cd_body = (\<lambda>j. if j = jwt_header then ''h'' else ''b''),
     cd_read = (\<lambda>s. if s = ''b'' then Some (JObj ob) else None),
     cd_sign = (\<lambda>k s. k @ filter (\<lambda>c. c \<noteq> CHR ''.'') s), cd_digest = (\<lambda>s. s)\<rparr>"

definition demo_meta :: dispatch_meta where
  "demo_meta = \<lparr>dm_teamId = ''T1'', dm_channelId = ''C1'', dm_threadTs = ''1.0'', dm_eventTs = ''1.1'', dm_userId = ''U1'',
     dm_personaId = Some ''ada'', dm_oauthUser = None, dm_tenantId = None, dm_apiAppId = None,
     dm_origin = Some ''slack'', dm_suppress = False, dm_backgroundRunId = None, dm_wake = None\<rparr>"

definition demo_replies :: dispatch_replies where
  "demo_replies = \<lparr>dr_lock = Some None, dr_identity = Some (Some ''U9''), dr_target = Some None, dr_epochs = Some [0, 2],
     dr_loc = Some (Some (''n1'', True)), dr_carries = Some True, dr_lastEvent = Some ''5-0'',
     dr_enqueued = Some (''turns.n1'', ''j1'')\<rparr>"

definition demo_session :: session_row where
  "demo_session = \<lparr>sr_id = ''s1'', sr_tenant = None, sr_workingDir = None\<rparr>"

definition demo_claims :: job_claims where
  "demo_claims = jset ''exp'' (JNum (Some 1900)) (jset ''iat'' (JNum (Some 1000))
     (dispatch_claims (dispatch_env_of (codec_of [])) demo_session demo_meta
        \<lparr>ti_runAs = Some ''U9'', ti_lock = None, ti_remote = None\<rparr> ''user:U9'' ''0:2'' ''j1''))"

definition demo_dispatch_env :: dispatch_env where
  "demo_dispatch_env = dispatch_env_of (codec_of demo_claims)"

definition demo_turn :: turn_job where
  "demo_turn = dispatch_job demo_dispatch_env demo_session demo_meta ''hi'' ''h.b.shb'' 1000000"

lemma demo_dispatch:
  "dispatch demo_dispatch_env demo_session ''hi'' demo_meta demo_replies ''j1'' 1000000 1000000 =
     [ConsumeAbortFlag ''s1'', ReadLock ''C1'' ''1.0'', ReadEpochs [EpochAgent ''default'' ''ada'', EpochUser ''T1'' ''U9''],
      LookupSession ''s1'', AskCarries ''n1'' ''gpu'', LastEventId ''s1'', Enqueue demo_turn (NodeTarget ''n1'') ''j1'',
      FollowTurn ''s1'' ''j1'' ''turns.n1'' (Some ''5-0'')]"
  by code_simp

lemma demo_codec_plain:
  "CHR ''.'' \<notin> set (cd_body (de_codec demo_dispatch_env) p)"
  "CHR ''.'' \<notin> set (cd_sign (de_codec demo_dispatch_env) (de_secret demo_dispatch_env) x)"
  by (simp_all add: demo_dispatch_env_def dispatch_env_of_def codec_of_def)

lemma demo_token_verifies:
  "verifyJobToken (de_codec demo_dispatch_env) (de_secret demo_dispatch_env) (Some ''h.b.shb'') (Some 0) 1100000 = Inr demo_claims"
  by code_simp


end
