(* ===== verification/Follower.thy ===== *)
theory Follower
  imports Turns "HOL-Library.AList"
begin

text \<open>
  The follower of a session's turns on the gateway (\<open>followEvents\<close> and \<open>relabelRedispatch\<close> of
  \<^verbatim>\<open>src/gateway/core/dispatch.ts\<close>): it reads the session's event stream, re-emits the events for the
  display, and watches the jobs it still owes an outcome. The stream, the queues and the clock answer
  each await as events of a machine; other dispatches may add jobs between any two of them. The
  display's listeners do not throw.
\<close>

section \<open>State\<close>

record follow_opts =
  fp_max :: int
  fp_linger :: int

text \<open>What the stream holds, as far as the follower tells entries apart.\<close>

datatype stream_entry = NoEvent | UserMessage | HeldMismatch | TurnDone | TurnError string | OtherEvent

datatype turn_outcome = OutDone | OutError string

text \<open>A job as \<open>getJob\<close> gives it: its failure reason, if it is settled as failed, and its payload's
  number of relabellings.\<close>

record seen_job =
  sj_reason :: "string option"
  sj_attempts :: nat

datatype job_state = JCompleted | JFailed | JUnsettled | JGone

text \<open>Where the loop waits: for a read of the stream; in the sweep of the jobs, at a job with those still
  to visit; in its sleep.\<close>

datatype follow_phase =
    Reading
  | GetJob string string "(string \<times> string) list"
  | GetState string string seen_job "(string \<times> string) list"
  | MovedTo string string "seen_job option" job_state "(string \<times> string) list"
  | GetAgain string string seen_job job_state "(string \<times> string) list"
  | Redispatching string string seen_job "(string \<times> string) list"
  | Sleeping

record follower =
  fo_deadline :: int
  fo_jobs :: "(string \<times> string) list"
  fo_emitted :: "string list"
  fo_phase :: follow_phase
  fo_outcomes :: "(string \<times> turn_outcome) list"
  fo_moves :: "(string \<times> string) list"
  fo_followed :: "string list"

text \<open>\<open>fo_outcomes\<close>, \<open>fo_moves\<close> and \<open>fo_followed\<close> record the outcomes emitted, with the job each was
  credited to, the jobs followed elsewhere, and every job ever taken on. The session's follower, if there
  is one:\<close>

record follow_state =
  fs_follower :: "follower option"
  fs_closed :: bool

datatype redispatch_reply = WentTo string string | OtherReplica | CannotRedispatch

datatype follow_event =
    Follow string string int
  | CloseAll
  | StreamRead "(stream_entry \<times> int) list option"
  | JobRead "seen_job option" | JobReadThrew
  | StateRead job_state int | StateReadThrew
  | MovedRead "(string \<times> string) option" int
  | AgainRead "seen_job option" int | AgainThrew
  | Redispatched redispatch_reply int
  | Slept int

section \<open>Steps\<close>

definition isFailureCode :: "string option \<Rightarrow> bool" where
  "isFailureCode r \<longleftrightarrow>
     r \<in> {Some ''PROVIDER_CREDENTIALS_UNAVAILABLE'', Some ''LABEL_MISMATCH'', Some ''TURN_FAILED'', Some ''UNKNOWN''}"

definition first_owed :: "follower \<Rightarrow> string option" where
  "first_owed f = List.find (\<lambda>i. i \<notin> set (fo_emitted f)) (map fst (fo_jobs f))"

definition emit_for :: "string \<Rightarrow> turn_outcome \<Rightarrow> follower \<Rightarrow> follower" where
  "emit_for i ev f = f\<lparr>fo_emitted := fo_emitted f @ [i], fo_outcomes := fo_outcomes f @ [(i, ev)]\<rparr>"

definition linger :: "follow_opts \<Rightarrow> int \<Rightarrow> follower \<Rightarrow> follower" where
  "linger opts nowMs f = f\<lparr>fo_deadline := min (fo_deadline f) (nowMs + fp_linger opts)\<rparr>"

definition stream_outcome :: "follow_opts \<Rightarrow> turn_outcome \<Rightarrow> int \<Rightarrow> follower \<Rightarrow> follower" where
  "stream_outcome opts ev nowMs f =
     (case first_owed f of None \<Rightarrow> f | Some i \<Rightarrow> linger opts nowMs (emit_for i ev f))"

fun take_entries :: "follow_opts \<Rightarrow> (stream_entry \<times> int) list \<Rightarrow> follower \<Rightarrow> follower" where
  "take_entries opts [] f = f"
| "take_entries opts ((TurnDone, t) # es) f = take_entries opts es (stream_outcome opts OutDone t f)"
| "take_entries opts ((TurnError code, t) # es) f = take_entries opts es (stream_outcome opts (OutError code) t f)"
| "take_entries opts ((_, t) # es) f = take_entries opts es f"

definition sweep_next :: "(string \<times> string) list \<Rightarrow> follower \<Rightarrow> follower" where
  "sweep_next rest f =
     f\<lparr>fo_phase := (case rest of [] \<Rightarrow> Sleeping | (i, q) # rest' \<Rightarrow> GetJob i q rest')\<rparr>"

definition drop_job :: "string \<Rightarrow> follower \<Rightarrow> follower" where
  "drop_job i f = f\<lparr>fo_jobs := AList.delete i (fo_jobs f)\<rparr>"

definition set_job :: "string \<Rightarrow> string \<Rightarrow> follower \<Rightarrow> follower" where
  "set_job i q f = f\<lparr>fo_jobs := AList.update i q (fo_jobs f), fo_followed := fo_followed f @ [i]\<rparr>"

text \<open>The end of the visit of a settled job: its outcome is synthesized unless it was emitted.\<close>

definition conclude_job :: "follow_opts \<Rightarrow> string \<Rightarrow> job_state \<Rightarrow> string option \<Rightarrow> int \<Rightarrow> follower \<Rightarrow> follower" where
  "conclude_job opts i st reason nowMs f =
     (let f' = linger opts nowMs (drop_job i f) in
      if i \<in> set (fo_emitted f') then f'
      else emit_for i (if st = JFailed then OutError (if isFailureCode reason then the reason else ''TURN_FAILED'') else OutDone) f')"

definition may_redispatch :: "job_state \<Rightarrow> string option \<Rightarrow> seen_job \<Rightarrow> bool" where
  "may_redispatch st reason j \<longleftrightarrow> st = JFailed \<and> reason = Some ''LABEL_MISMATCH'' \<and> sj_attempts j < 1"

text \<open>With the settled job in hand.\<close>

definition judge_job :: "follow_opts \<Rightarrow> string \<Rightarrow> string \<Rightarrow> seen_job option \<Rightarrow> job_state \<Rightarrow> (string \<times> string) list \<Rightarrow> int
    \<Rightarrow> follower \<Rightarrow> follower" where
  "judge_job opts i q settled st rest nowMs f =
     (case settled of
        None \<Rightarrow> sweep_next rest (conclude_job opts i st None nowMs f)
      | Some j \<Rightarrow>
          if may_redispatch st (sj_reason j) j then f\<lparr>fo_phase := Redispatching i q j rest\<rparr>
          else sweep_next rest (conclude_job opts i st (sj_reason j) nowMs f))"

definition moved_away :: "string \<Rightarrow> string \<Rightarrow> (string \<times> string) list \<Rightarrow> follower \<Rightarrow> follower" where
  "moved_away i newId rest f = sweep_next rest (f\<lparr>fo_moves := fo_moves f @ [(i, newId)]\<rparr>)"

definition follow_step :: "follow_opts \<Rightarrow> follower \<Rightarrow> follow_event \<Rightarrow> follower" where
  "follow_step opts f ev =
     (case (fo_phase f, ev) of
        (Reading, StreamRead entries) \<Rightarrow>
          (let f' = (case entries of Some es \<Rightarrow> take_entries opts es f | None \<Rightarrow> f) in sweep_next (fo_jobs f') f')
      | (GetJob i q rest, JobReadThrew) \<Rightarrow> sweep_next rest f
      | (GetJob i q rest, JobRead j) \<Rightarrow>
          f\<lparr>fo_phase := (case j of Some x \<Rightarrow> GetState i q x rest | None \<Rightarrow> MovedTo i q None JGone rest)\<rparr>
      | (GetState i q j rest, StateReadThrew) \<Rightarrow> sweep_next rest f
      | (GetState i q j rest, StateRead st t) \<Rightarrow>
          if st = JCompleted \<or> st = JFailed then f\<lparr>fo_phase := MovedTo i q (Some j) st rest\<rparr> else sweep_next rest f
      | (MovedTo i q j st rest, MovedRead moved t) \<Rightarrow>
          (case moved of
             Some (q', i') \<Rightarrow>
               if q' \<noteq> q \<or> i' \<noteq> i then
                 (let f' = drop_job i f in
                  moved_away i i' rest
                    (if map_of (fo_jobs f') i' = None \<and> i' \<notin> set (fo_emitted f') then set_job i' q' f' else f'))
               else (case j of Some x \<Rightarrow> f\<lparr>fo_phase := GetAgain i q x st rest\<rparr> | None \<Rightarrow> judge_job opts i q None st rest t f)
           | None \<Rightarrow>
               (case j of Some x \<Rightarrow> f\<lparr>fo_phase := GetAgain i q x st rest\<rparr> | None \<Rightarrow> judge_job opts i q None st rest t f))
      | (GetAgain i q j st rest, AgainThrew) \<Rightarrow> sweep_next rest f
      | (GetAgain i q j st rest, AgainRead j' t) \<Rightarrow>
          judge_job opts i q (Some (case j' of Some x \<Rightarrow> x | None \<Rightarrow> j)) st rest t f
      | (Redispatching i q j rest, Redispatched r t) \<Rightarrow>
          (case r of
             OtherReplica \<Rightarrow> sweep_next rest f
           | WentTo q' i' \<Rightarrow>
               (let f' = drop_job i f;
                    f'' = (if i' \<notin> set (fo_emitted f') then set_job i' q' f' else f') in
                moved_away i i' rest (f''\<lparr>fo_deadline := max (fo_deadline f'') (t + fp_max opts)\<rparr>))
           | CannotRedispatch \<Rightarrow> sweep_next rest (conclude_job opts i JFailed (sj_reason j) t f))
      | _ \<Rightarrow> f)"

definition new_follower :: "follow_opts \<Rightarrow> string \<Rightarrow> string \<Rightarrow> int \<Rightarrow> follower" where
  "new_follower opts i q nowMs =
     \<lparr>fo_deadline = nowMs + fp_max opts, fo_jobs = [(i, q)], fo_emitted = [], fo_phase = Reading, fo_outcomes = [],
      fo_moves = [], fo_followed = [i]\<rparr>"

text \<open>\<open>followEvents\<close>, and the loop's condition when its sleep ends.\<close>

definition session_step :: "follow_opts \<Rightarrow> follow_state \<Rightarrow> follow_event \<Rightarrow> follow_state" where
  "session_step opts s ev =
     (case ev of
        Follow i q nowMs \<Rightarrow>
          if fs_follower s = None \<and> (fs_closed s \<or> fp_max opts \<le> 0) then s
          else (case fs_follower s of
             Some f \<Rightarrow> s\<lparr>fs_follower := Some (set_job i q f\<lparr>fo_deadline := max (fo_deadline f) (nowMs + fp_max opts)\<rparr>)\<rparr>
           | None \<Rightarrow> s\<lparr>fs_follower := Some (new_follower opts i q nowMs)\<rparr>)
      | CloseAll \<Rightarrow> s\<lparr>fs_closed := True\<rparr>
      | Slept nowMs \<Rightarrow>
          (case fs_follower s of
             Some f \<Rightarrow>
               if fo_phase f = Sleeping
               then s\<lparr>fs_follower := (if fs_closed s \<or> fo_deadline f \<le> nowMs then None else Some (f\<lparr>fo_phase := Reading\<rparr>))\<rparr>
               else s
           | None \<Rightarrow> s)
      | _ \<Rightarrow> (case fs_follower s of Some f \<Rightarrow> s\<lparr>fs_follower := Some (follow_step opts f ev)\<rparr> | None \<Rightarrow> s))"

definition follow_run :: "follow_opts \<Rightarrow> follow_state \<Rightarrow> follow_event list \<Rightarrow> follow_state" where
  "follow_run opts s es = run_steps (session_step opts) s es"

definition follow_idle :: follow_state where
  "follow_idle = \<lparr>fs_follower = None, fs_closed = False\<rparr>"

text \<open>The job a mismatch is dispatched again as: the same messages under a fresh token for the label the
  persona runs on now, one relabelling further (\<open>None\<close>: its token cannot be read back).\<close>

definition relabelled_job :: "(string \<Rightarrow> string) \<Rightarrow> (string \<Rightarrow> string option) \<Rightarrow> turn_job \<Rightarrow> int \<Rightarrow> (turn_job \<times> string) option" where
  "relabelled_job runsOn remintFor d nowMs =
     (let label = runsOn (tj_personaId d) in
      case remintFor label of
        None \<Rightarrow> None
      | Some token \<Rightarrow>
          Some (d\<lparr>tj_label := Some label, tj_jobToken := token, tj_relabelAttempts := Some (attempts_of d + 1),
                  tj_enqueuedAt := nowMs\<rparr>, label))"

end
