(* ===== verification/FollowerFacts.thy ===== *)
theory FollowerFacts
  imports Follower
begin

text \<open>
  What a follower guarantees: one outcome per job, no job forgotten while it runs, an answer for every
  settled job it visits, one re-dispatch at most; and two ways in which a queued turn's outcome is lost.
\<close>

section \<open>One outcome per job, no job forgotten\<close>

definition follower_ok :: "follower \<Rightarrow> bool" where
  "follower_ok f \<longleftrightarrow>
     fo_emitted f = map fst (fo_outcomes f) \<and> distinct (fo_emitted f)
     \<and> set (fo_followed f) \<subseteq> fst ` set (fo_jobs f) \<union> set (fo_emitted f) \<union> fst ` set (fo_moves f)
     \<and> fst ` set (fo_jobs f) \<subseteq> set (fo_followed f)
     \<and> snd ` set (fo_moves f) \<subseteq> set (fo_followed f) \<union> set (fo_emitted f)"

lemma ok_phase [simp]: "follower_ok (f\<lparr>fo_phase := p\<rparr>) = follower_ok f"
  "follower_ok (f\<lparr>fo_deadline := d\<rparr>) = follower_ok f"
  by (simp_all add: follower_ok_def)

lemma ok_sweep [simp]: "follower_ok (sweep_next rest f) = follower_ok f"
  by (simp add: sweep_next_def)

lemma ok_linger [simp]: "follower_ok (linger opts t f) = follower_ok f"
  by (simp add: linger_def)

lemma ok_emit: "follower_ok f \<Longrightarrow> i \<notin> set (fo_emitted f) \<Longrightarrow> follower_ok (emit_for i ev f)"
  by (auto simp: follower_ok_def emit_for_def)

lemma keys_update: "fst ` set (AList.update k v al) = insert k (fst ` set al)"
  by (simp flip: dom_map_of_conv_image_fst add: update_conv')

lemma keys_delete: "fst ` set (AList.delete k al) = fst ` set al - {k}"
  by (simp flip: dom_map_of_conv_image_fst add: delete_conv')

lemma ok_set: "follower_ok f \<Longrightarrow> follower_ok (set_job i q f)"
  by (auto simp: follower_ok_def set_job_def keys_update)

lemma first_owed_new: "first_owed f = Some i \<Longrightarrow> i \<notin> set (fo_emitted f)"
  by (auto simp: first_owed_def find_Some_iff)

lemma ok_stream: "follower_ok f \<Longrightarrow> follower_ok (stream_outcome opts ev t f)"
  by (auto simp: stream_outcome_def ok_emit first_owed_new split: option.splits)

lemma ok_entries: "follower_ok f \<Longrightarrow> follower_ok (take_entries opts es f)"
  by (induction opts es f rule: take_entries.induct) (auto simp: ok_stream)

lemma ok_conclude: "follower_ok f \<Longrightarrow> follower_ok (conclude_job opts i st reason t f)"
  by (auto simp: conclude_job_def Let_def follower_ok_def emit_for_def linger_def drop_job_def keys_delete)

lemma ok_judge: "follower_ok f \<Longrightarrow> follower_ok (judge_job opts i q j st rest t f)"
  by (auto simp: judge_job_def ok_conclude split: option.splits)

lemma ok_moved:
  assumes "follower_ok f" "i' \<notin> set (fo_emitted f) \<longrightarrow> c \<or> i' \<in> fst ` set (fo_jobs (drop_job i f))"
  shows "follower_ok (moved_away i i' rest (if c then set_job i' q' (drop_job i f) else drop_job i f))"
  using assms
  by (auto simp: follower_ok_def moved_away_def sweep_next_def set_job_def drop_job_def keys_update keys_delete)

lemma ok_step:
  assumes ok: "follower_ok f"
  shows "follower_ok (follow_step opts f ev)"
proof (cases "fo_phase f")
  case (MovedTo i q j st rest)
  show ?thesis
  proof (cases ev)
    case (MovedRead moved t)
    show ?thesis
    proof (cases moved)
      case None
      then show ?thesis using ok MovedTo MovedRead
        by (auto simp: follow_step_def ok_judge split: option.splits)
    next
      case (Some m)
      obtain q' i' where m: "m = (q', i')" by (cases m)
      let ?c = "map_of (fo_jobs (drop_job i f)) i' = None \<and> i' \<notin> set (fo_emitted (drop_job i f))"
      have "i' \<notin> set (fo_emitted f) \<longrightarrow> ?c \<or> i' \<in> fst ` set (fo_jobs (drop_job i f))"
        by (auto simp: drop_job_def map_of_eq_None_iff)
      from ok_moved [OF ok this] show ?thesis using ok MovedTo MovedRead Some m
        by (auto simp: follow_step_def ok_judge Let_def split: option.splits)
    qed
  qed (use ok MovedTo in \<open>simp_all add: follow_step_def\<close>)
next
  case (Redispatching i q j rest)
  show ?thesis
  proof (cases ev)
    case (Redispatched r t)
    show ?thesis
    proof (cases r)
      case (WentTo q' i')
      have "i' \<notin> set (fo_emitted f) \<longrightarrow> i' \<notin> set (fo_emitted (drop_job i f)) \<or> i' \<in> fst ` set (fo_jobs (drop_job i f))"
        by (simp add: drop_job_def)
      from ok_moved [OF ok this, of rest q'] show ?thesis using Redispatching Redispatched WentTo
        by (auto simp: follow_step_def Let_def moved_away_def sweep_next_def follower_ok_def split: if_splits)
    qed (use ok Redispatching Redispatched in \<open>simp_all add: follow_step_def ok_conclude\<close>)
  qed (use ok Redispatching in \<open>simp_all add: follow_step_def\<close>)
next
  case Reading
  then show ?thesis using ok
    by (cases ev) (auto simp: follow_step_def Let_def ok_entries split: option.splits)
qed (use ok in \<open>cases ev; auto simp: follow_step_def ok_judge split: option.splits\<close>)+

definition session_ok :: "follow_state \<Rightarrow> bool" where
  "session_ok s \<longleftrightarrow> (case fs_follower s of Some f \<Rightarrow> follower_ok f | None \<Rightarrow> True)"

lemma session_step_ok: "session_ok s \<Longrightarrow> session_ok (session_step opts s ev)"
  by (cases ev; cases "fs_follower s")
    (auto simp: session_step_def session_ok_def ok_step ok_set, auto simp: new_follower_def follower_ok_def)

interpretation following: machine "session_step opts" session_ok
  by unfold_locales (rule session_step_ok)

lemma run_ok: "session_ok (follow_run opts follow_idle es)"
  unfolding follow_run_def by (rule following.run_inv) (simp add: session_ok_def follow_idle_def)

text \<open>C3: Whatever the stream delivers, late or twice, whatever the queues answer, and however many turns
  are dispatched meanwhile, a follower credits at most one outcome to a job; and it forgets none while
  it runs: every job it ever took on is still watched, or has had its outcome, or was moved, and then the
  job it became is one it took on or one whose outcome was shown.\<close>

theorem outcome_once:
  "(case fs_follower (follow_run opts follow_idle es) of
      None \<Rightarrow> True
    | Some f \<Rightarrow> distinct (map fst (fo_outcomes f))
        \<and> set (fo_followed f) \<subseteq> fst ` set (fo_jobs f) \<union> fst ` set (fo_outcomes f) \<union> fst ` set (fo_moves f)
        \<and> snd ` set (fo_moves f) \<subseteq> set (fo_followed f) \<union> fst ` set (fo_outcomes f))"
  using run_ok [of opts es] by (auto simp: session_ok_def follower_ok_def split: option.splits)

section \<open>A settled job is answered\<close>

definition settled_replies :: "seen_job \<Rightarrow> job_state \<Rightarrow> seen_job option \<Rightarrow> int \<Rightarrow> follow_event list" where
  "settled_replies j st again t = [JobRead (Some j), StateRead st t, MovedRead None t, AgainRead again t]"

text \<open>C4: The job, not the stream, decides: when the sweep comes to a job that is settled, did not move and
  is not to be dispatched again, its outcome is shown by the end of the visit even if the stream never
  delivered it (trimmed, or the node died before appending it), and the job is watched no longer. A
  failure shows the job's own reason when that is one of the known codes and the general one otherwise.\<close>

theorem settled_job_answered:
  assumes "fs_follower s = Some f" "fo_phase f = GetJob i q rest" "st = JCompleted \<or> st = JFailed"
    and "x = (case again of Some y \<Rightarrow> y | None \<Rightarrow> j)" "\<not> may_redispatch st (sj_reason x) x"
    and "follow_run opts s (settled_replies j st again t) = s'"
  shows "\<exists>f'. fs_follower s' = Some f' \<and> i \<in> set (fo_emitted f') \<and> map_of (fo_jobs f') i = None
    \<and> fo_outcomes f' = fo_outcomes f @
        (if i \<in> set (fo_emitted f) then []
         else [(i, if st = JFailed then OutError (if isFailureCode (sj_reason x) then the (sj_reason x) else ''TURN_FAILED'')
                   else OutDone)])"
proof -
  let ?f = "sweep_next rest (conclude_job opts i st (sj_reason x) t (f\<lparr>fo_phase := GetAgain i q j st rest\<rparr>))"
  have "fs_follower s' = Some ?f"
    using assms(1-5)
    by (auto simp: assms(6) [symmetric] follow_run_def settled_replies_def session_step_def follow_step_def judge_job_def
        split: if_splits)
  moreover have "i \<in> set (fo_emitted ?f)" "map_of (fo_jobs ?f) i = None"
    by (auto simp: sweep_next_def conclude_job_def Let_def emit_for_def linger_def drop_job_def delete_conv)
  moreover have "fo_outcomes ?f = fo_outcomes f @
        (if i \<in> set (fo_emitted f) then []
         else [(i, if st = JFailed then OutError (if isFailureCode (sj_reason x) then the (sj_reason x) else ''TURN_FAILED'')
                   else OutDone)])"
    by (auto simp: sweep_next_def conclude_job_def Let_def emit_for_def linger_def drop_job_def)
  ultimately show ?thesis by blast
qed

text \<open>A re-dispatched job is never dispatched a second time, and it carries the same messages.\<close>

lemma redispatched_once:
  "relabelled_job runsOn remintFor d nowMs = Some (d', label) \<Longrightarrow>
     \<not> may_redispatch st reason \<lparr>sj_reason = reason', sj_attempts = attempts_of d'\<rparr>
     \<and> tj_messages d' = tj_messages d \<and> tj_senders d' = tj_senders d \<and> tj_sessionId d' = tj_sessionId d
     \<and> jobLabel d' = label"
  by (auto simp: relabelled_job_def may_redispatch_def attempts_of_def Let_def jobLabel_def split: option.splits)

section \<open>Lost and misplaced outcomes\<close>

definition code_opts :: follow_opts where
  "code_opts = \<lparr>fp_max = 1200000, fp_linger = 3000\<rparr>"

text \<open>Two turns are queued, the second behind the first. The first ends after a minute.\<close>

definition queued_behind :: "follow_event list" where
  "queued_behind =
     [Follow ''a'' ''turns'' 0, Follow ''b'' ''turns'' 5000, StreamRead (Some [(TurnDone, 60000)]),
      JobRead (Some \<lparr>sj_reason = None, sj_attempts = 0\<rparr>), StateRead JCompleted 60001, MovedRead None 60001,
      AgainRead (Some \<lparr>sj_reason = None, sj_attempts = 0\<rparr>) 60001,
      JobRead (Some \<lparr>sj_reason = None, sj_attempts = 0\<rparr>), StateRead JUnsettled 60001]"


text \<open>A late end is credited to the wrong turn: the job of the first turn is seen settled before the
  stream delivers its end, which then counts as the second turn's; that turn's own failure is not shown.\<close>

definition late_end :: "follow_event list" where
  "late_end =
     [Follow ''a'' ''turns'' 0, StreamRead (Some []), JobRead (Some \<lparr>sj_reason = None, sj_attempts = 0\<rparr>),
      StateRead JCompleted 1000, MovedRead None 1000, AgainRead None 1000, Follow ''b'' ''turns'' 1500, Slept 1600,
      StreamRead (Some [(TurnDone, 1700), (TurnError ''TURN_FAILED'', 2500)])]"

lemma late_end_credited_to_next:
  "map_option fo_outcomes (fs_follower (follow_run code_opts follow_idle late_end)) = Some [(''a'', OutDone), (''b'', OutDone)]"
  by code_simp

theorem settled_job_answered_witness:
  "\<exists>f'. fs_follower (follow_run code_opts (follow_run code_opts follow_idle [Follow ''a'' ''turns'' 0, StreamRead None])
       (settled_replies \<lparr>sj_reason = Some ''boom'', sj_attempts = 0\<rparr> JFailed None 9)) = Some f'
     \<and> fo_outcomes f' = [(''a'', OutError ''TURN_FAILED'')]"
proof -
  let ?f = "sweep_next [(''a'', ''turns'')] (new_follower code_opts ''a'' ''turns'' 0)"
  have "fs_follower (follow_run code_opts follow_idle [Follow ''a'' ''turns'' 0, StreamRead None]) = Some ?f"
    by code_simp
  moreover have "fo_phase ?f = GetJob ''a'' ''turns'' []" by (simp add: sweep_next_def)
  ultimately show ?thesis
    using settled_job_answered [OF _ _ disjI2 [OF refl] refl _ refl, where f = ?f and i = "''a''" and q = "''turns''"
        and rest = "[]" and again = None and j = "\<lparr>sj_reason = Some ''boom'', sj_attempts = 0\<rparr>" and opts = code_opts and t = 9]
    by (auto simp: may_redispatch_def isFailureCode_def sweep_next_def new_follower_def)
qed

end
