(* ===== verification/Spec2Isabelle.thy ===== *)
theory Spec2Isabelle
  imports OutboundFacts OutboundFetch AccessFacts GrantsCache Locks TurnSafety SecretsFacts VaultFacts ScopeFacts
    Reaper Registry Cron WorkspaceClaims TokenBudget PanelAuth
    ProactiveSoulFacts Restraint RunnerFacts PendingGates PermissionCard PermissionGateFacts MicPacer RedactTree MessageGate Approvers ApprovalGateFacts NodeAuthFacts EnvironmentFacts V1ApiFacts Dispatch FollowerFacts
begin

text \<open>
  A verification development for slaude, a gateway that runs AI agents for the users of a Slack
  workspace: it admits messages, queues them as turns, runs each turn on a node, gives the agent
  secrets, memory and knowledge, and lets agents act on their own (proactive posts, background
  passes). The theories model the parts that decide, bound and order things; the services they talk
  to (Redis, Vault, the SQL database, DNS and HTTP, the Slack API, the agent SDK) are parameters of
  the definitions, with the documented behaviour a proof needs as named hypotheses.

  \<^bold>\<open>How the parts interact.\<close> A Slack event is admitted by the access rules (\<open>Access\<close>,
  \<open>GrantsCache\<close>) and becomes a message of a turn. \<open>Turns\<close>, \<open>TurnStore\<close> and \<open>TurnQueues\<close> model
  \<^verbatim>\<open>src/queue/turns.ts\<close>: the queue merges messages into waiting turns, moves turns between nodes and
  hands over those of a dead one; \<open>Locks\<close> (\<^verbatim>\<open>src/queue/locks.ts\<close>) keeps one worker per session and one
  leader per job over the server of \<open>Redis\<close>; \<open>QueueKeys\<close>, \<open>Registry\<close> and \<open>Reaper\<close> model the key
  names, the session registry and the clean-up after a node. A turn resolves secrets (\<open>Secrets\<close>,
  \<open>SecretCache\<close>, \<open>VaultClient\<close>), reads and writes memory within its \<open>Scope\<close>, and fetches only what
  \<open>Outbound\<close> and \<open>OutboundFetch\<close> let through. Background work is bound by \<open>Prices\<close>, \<open>Ledger\<close> and
  \<open>Runner\<close>, proactive work by \<open>Soul\<close>, \<open>ProactiveSoul\<close> and \<open>Restraint\<close>. A tool call that needs a person goes
  through \<open>PermissionGate\<close>, a request the persona's soul routes to an approver through \<open>ApprovalGate\<close>;
  both wait on the durable rows of \<open>PendingGates\<close>, so a click in any process settles them.

  \<^bold>\<open>The theories and the code.\<close>
  \<^item> \<open>Prelude\<close>: JavaScript's strings and lists as the code uses them, association lists with
    expiry, generic lemmas, the collections the proofs share.
  \<^item> \<open>Outbound\<close>, \<open>OutboundFacts\<close>, \<open>OutboundFetch\<close>: \<^verbatim>\<open>src/net/outbound-policy.ts\<close>. Addresses are
    words; the facts relate the classification to the blocks of the address registries and show that
    a checked host only reaches public addresses; the streamed fetch is a machine over events, of
    which the body never exceeds its limit.
  \<^item> \<open>Soul\<close>, \<open>Access\<close>, \<open>AccessFacts\<close>, \<open>GrantsCache\<close>: \<^verbatim>\<open>src/soul/data.ts\<close>, \<^verbatim>\<open>src/access\<close>,
    \<^verbatim>\<open>src/db/agent-grants.ts\<close>: roles, denial, admission, permission cards, the cached grants.
  \<^item> \<open>QueueKeys\<close>, \<open>Redis\<close>, \<open>Locks\<close>, \<open>Turns\<close>, \<open>TurnStore\<close>, \<open>TurnQueues\<close>, \<open>TurnSafety\<close>: \<^verbatim>\<open>src/queue\<close>.
    Locks are programs interleaved over a server with a clock; turns are programs over a job store,
    one atomic script or command per step. The main theorem says that an enqueued message is in a
    job or handled, whatever the workers and the expiry of locks do.
  \<^item> \<open>Registry\<close>, \<open>Reaper\<close>, \<open>WorkspaceClaims\<close>, \<open>TokenBudget\<close>, \<open>Cron\<close>: \<^verbatim>\<open>src/queue/registry.ts\<close>,
    \<^verbatim>\<open>src/queue/reaper.ts\<close>, \<^verbatim>\<open>src/agent/workspace-claim.ts\<close>, \<^verbatim>\<open>src/agent/token-budget.ts\<close>,
    \<^verbatim>\<open>src/node/rejection-guard.ts\<close>, \<^verbatim>\<open>src/gateway/slack/cron-parser.ts\<close>, \<^verbatim>\<open>src/background/calendar.ts\<close>.
  \<^item> \<open>Secrets\<close>, \<open>SecretsFacts\<close>, \<open>SecretCache\<close>, \<open>VaultClient\<close>, \<open>VaultFacts\<close>: \<^verbatim>\<open>src/secrets\<close>: the
    grammar of references, what a persona may ask of Vault, the cache with single flight and stale
    answers, the token's life.
  \<^item> \<open>Scope\<close>, \<open>ScopeFacts\<close>: \<^verbatim>\<open>src/knowledge/scope.ts\<close>, \<^verbatim>\<open>src/memory/scope.ts\<close>,
    \<^verbatim>\<open>src/knowledge/gated-dispatch.ts\<close>: private sources stay private, a call that needs approval has it.
  \<^item> \<open>PanelAuth\<close>: \<^verbatim>\<open>src/gateway/auth/jwt.ts\<close>, \<^verbatim>\<open>src/gateway/panel/auth\<close>: tokens and roles of the panel.
  \<^item> \<open>ProactiveSoul\<close>, \<open>ProactiveSoulFacts\<close>, \<open>Restraint\<close>: \<^verbatim>\<open>src/soul/proactive.ts\<close>,
    \<^verbatim>\<open>src/proactive\<close>: what a SOUL text switches on, what binds each post, when a wake is due.
  \<^item> \<open>Prices\<close>, \<open>Ledger\<close>, \<open>Runner\<close>, \<open>RunnerFacts\<close>: \<^verbatim>\<open>src/background\<close>, \<^verbatim>\<open>src/db/background-runs.ts\<close>: the
    day's spending stays within the budget and one in-flight step.
  \<^item> \<open>PendingGates\<close>, \<open>PermissionCard\<close>, \<open>PermissionPolicy\<close>, \<open>PermissionGate\<close>,
    \<open>PermissionGateFacts\<close>: \<^verbatim>\<open>src/db/pending-gates.ts\<close> and
    \<^verbatim>\<open>src/gateway/slack/permission-gate.ts\<close>. A durable row settles once; a card shows the whole of what
    it asks for; the gate is a machine over clicks, timeouts, aborts and bus messages in which a tool
    call is allowed only by a click the access rules authorise.
  \<^item> \<open>Approvers\<close>, \<open>ApprovalGate\<close>, \<open>ApprovalGateFacts\<close>: \<^verbatim>\<open>src/soul/loader.ts\<close> and
    \<^verbatim>\<open>src/gateway/slack/approval-gate.ts\<close>. Who may decide a request, and the gate as a machine in which
    an approval needs a counted click of such a person and a row is decided once.
  \<^item> \<open>MessageGate\<close>: \<^verbatim>\<open>src/gateway/gate\<close>, \<^verbatim>\<open>src/decision\<close>: whether a message of a thread is answered; a
    question to the model is bounded in time and its failure falls back to the policy's default.
  \<^item> \<open>RedactTree\<close>: \<^verbatim>\<open>src/redact/index.ts\<close>: the walk over shared and cyclic objects that hides secrets.
  \<^item> \<open>MicPacer\<close>: \<^verbatim>\<open>src/voice/pacer.ts\<close>: sound leaves in order and never faster than real time.

  \<^bold>\<open>Modelling choices.\<close> Records and datatypes follow the code's types; a thrown error is a branch of
  a sum or option type. JavaScript's numbers are \<open>int\<close> or \<open>nat\<close> where the code keeps whole numbers
  (milliseconds, counts), \<open>rat\<close> where it computes with fractions (costs, hours); rounding of doubles
  is not modelled. Strings are lists of Latin-1 characters. Asynchronous code is a machine or a
  program whose other side, a parameter environment, answers each step and may change shared state
  at every await, so interleavings are covered by quantifying over it.

  \<^bold>\<open>Bounds and fuel.\<close> The attempts of the append lock are a list the environment gives; every
  theorem about it holds for all lists, so for the code's ten seconds too. The search of \<open>Cron\<close> runs at
  most the code's own number of iterations. Sweeps and hand-overs recurse over the finite lists the
  server returned; the programs of \<open>TurnQueues\<close> are driven by a list of replies of any length. No
  definition needs fuel beyond the bound the code itself has.

  \<^bold>\<open>Not modelled.\<close> The Slack adapter and its rendering, the turn engine that drives the agent SDK,
  HTTP routes, the panel's pages, database drivers and migrations, the web user interface, the audio
  transport and speech providers, remote hosts, Git sync, configuration and the command line: their work is calls to
  external services, and the decisions they take are in the modelled parts. SHA-256, HMAC, base64,
  the YAML, JSON and URL parsers, local time and DNS are parameters.
\<close>

end
